(* ===== verification/Corona_Prelude.thy ===== *)
theory Corona_Prelude
  imports Main "HOL-Library.Word" "HOL-Library.AList" "HOL-Library.Multiset"
begin

text \<open>
  Shared vocabulary of the development: the Go types the packages use (machine
  words, byte slices, lattice polynomials as lists of coefficient levels), errors
  as values of one sum type, Go maps as association lists in iteration order,
  byte readers, the big- and little-endian encoders of \<^verbatim>\<open>encoding/binary\<close>, and
  the hand-rolled insertion sort the packages share. The generic lemmas about
  them are collected in \<^verbatim>\<open>res_simps\<close>, \<^verbatim>\<open>enc_simps\<close> and the simpset.
\<close>

named_theorems res_simps "rules that take a fallible computation apart"
named_theorems enc_simps "lengths and inverses of the byte encoders"

section \<open>Types\<close>

type_synonym u8 = "8 word"
type_synonym u16 = "16 word"
type_synonym u32 = "32 word"
type_synonym u64 = "64 word"

type_synonym bytes = "u8 list"

text \<open>
  A \<^verbatim>\<open>ring.Poly\<close> is its \<^verbatim>\<open>Coeffs\<close> field: one list of coefficients per level.
  A \<^verbatim>\<open>structs.Vector[ring.Poly]\<close> and a \<^verbatim>\<open>structs.Matrix[ring.Poly]\<close> are lists of
  those.
\<close>

type_synonym poly = "u64 list list"
type_synonym vec = "poly list"
type_synonym matrix = "vec list"

text \<open>
  A Go map is the list of its entries in the order one \<^verbatim>\<open>range\<close> statement
  visits them; keys are distinct. The order is not determined by the program, so
  a statement about a Go map quantifies over every such list.
\<close>

type_synonym ('k, 'v) gomap = "('k \<times> 'v) list"

abbreviation gokeys :: "('k, 'v) gomap \<Rightarrow> 'k list" where
  "gokeys m \<equiv> map fst m"

abbreviation gomap_wf :: "('k, 'v) gomap \<Rightarrow> bool" where
  "gomap_wf m \<equiv> distinct (gokeys m)"

section \<open>Errors\<close>

text \<open>
  The sentinel errors of the packages, and \<^verbatim>\<open>Panic\<close> for a run-time panic (an
  index out of range, a nil dereference, an explicit \<^verbatim>\<open>panic\<close>); \<open>Diverge\<close>
  stands for a loop that never returns. A wrapped error
  (\<^verbatim>\<open>fmt.Errorf\<close> with \<^verbatim>\<open>%w\<close>) is the sentinel it wraps; an error with no
  sentinel is \<^verbatim>\<open>ErrMsg\<close> with its fixed text.
\<close>

datatype goerr =
    Panic
  | Diverge
  | ErrMsg string
  | ErrEOF
  | ErrShapeMismatch
  | ErrDegenerateSession
  | ErrInvalidThreshold
  | ErrInvalidPartyCount
  | ErrInvalidPartyID
  | ErrMACVerifyFailed
  | ErrInsufficientData
  | ErrDuplicateSigner
  | ErrBatchSizeMismatch
  | ErrWireMagicMismatch
  | ErrWireVersionMismatch
  | ErrWireFrameTooShort
  | ErrWireFrameRejected
  | ErrLimitExceeded
  | ErrInvalidThresholdOld
  | ErrInvalidThresholdNew
  | ErrTNewExceedsNewSet
  | ErrEmptyOldShares
  | ErrEmptyNewSet
  | ErrZeroPartyID
  | ErrDuplicateNewID
  | ErrShareDimMismatch
  | ErrTOldShortfall
  | ErrCommitMismatch
  | ErrCommitWrongLength
  | ErrInsufficientQuorum
  | ErrActivationFailed
  | ErrTranscriptMismatch
  | ErrUninitialized
  | ErrEmptyValidators
  | ErrMissingShare
  | ErrBootstrapPedersenShape
  | ErrBootstrapPedersenAbort
  | ErrShareVerification
  | ErrMissingData

type_synonym 'a res = "goerr + 'a"

fun rbind :: "'e + 'a \<Rightarrow> ('a \<Rightarrow> 'e + 'b) \<Rightarrow> 'e + 'b" where
  "rbind (Inl e) f = Inl e"
| "rbind (Inr a) f = f a"

text \<open>\<open>mapM\<close> is a loop that fills a slice and stops at the first error; \<open>foldM\<close> one
  that updates a state.\<close>

fun mapM :: "('a \<Rightarrow> 'e + 'b) \<Rightarrow> 'a list \<Rightarrow> 'e + 'b list" where
  "mapM f [] = Inr []"
| "mapM f (x # xs) = rbind (f x) (\<lambda>y. rbind (mapM f xs) (\<lambda>ys. Inr (y # ys)))"

fun foldM :: "('s \<Rightarrow> 'a \<Rightarrow> 'e + 's) \<Rightarrow> 's \<Rightarrow> 'a list \<Rightarrow> 'e + 's" where
  "foldM f s [] = Inr s"
| "foldM f s (x # xs) = rbind (f s x) (\<lambda>s'. foldM f s' xs)"

lemma rbind_Inr_iff [res_simps]: "rbind m f = Inr b \<longleftrightarrow> (\<exists>a. m = Inr a \<and> f a = Inr b)"
  by (cases m) auto

lemma rbind_Inl_iff: "rbind m f = Inl e \<longleftrightarrow> m = Inl e \<or> (\<exists>a. m = Inr a \<and> f a = Inl e)"
  by (cases m) auto

lemma rbind_cong [fundef_cong]:
  "m = m' \<Longrightarrow> (\<And>a. m' = Inr a \<Longrightarrow> f a = g a) \<Longrightarrow> rbind m f = rbind m' g"
  by (cases m') auto

lemma mapM_Inr_iff:
  "mapM f xs = Inr ys \<longleftrightarrow> length ys = length xs \<and> (\<forall>i < length xs. f (xs ! i) = Inr (ys ! i))"
proof (induction xs arbitrary: ys)
  case Nil
  then show ?case by auto
next
  case (Cons x xs)
  show ?case
  proof (cases ys)
    case Nil
    then show ?thesis by (auto simp: res_simps)
  next
    case (Cons y ys')
    then show ?thesis
      by (auto simp: res_simps Cons.IH less_Suc_eq_0_disj)
  qed
qed

lemma mapM_all_Inr: "(\<And>x. x \<in> set xs \<Longrightarrow> f x = Inr (g x)) \<Longrightarrow> mapM f xs = Inr (map g xs)"
  by (induction xs) auto

lemma mapM_length [dest]: "mapM f xs = Inr ys \<Longrightarrow> length ys = length xs"
  by (simp add: mapM_Inr_iff)

lemma mapM_cong: "(\<And>x. x \<in> set xs \<Longrightarrow> f x = g x) \<Longrightarrow> mapM f xs = mapM g xs"
  by (induction xs) auto

lemma foldM_append: "foldM f s (xs @ ys) = rbind (foldM f s xs) (\<lambda>s'. foldM f s' ys)"
proof (induction xs arbitrary: s)
  case (Cons x xs)
  then show ?case by (cases "f s x") auto
qed simp

lemma foldM_total: "(\<And>s x. x \<in> set xs \<Longrightarrow> f s x = Inr (g s x)) \<Longrightarrow> foldM f s xs = Inr (foldl g s xs)"
  by (induction xs arbitrary: s) auto

lemma foldM_cong:
  "(\<And>s x. x \<in> set xs \<Longrightarrow> f s x = g s x) \<Longrightarrow> foldM f s xs = foldM g s xs"
  by (induction xs arbitrary: s) (auto intro!: rbind_cong)

text \<open>An invariant of a loop with an error exit.\<close>

lemma foldM_inv:
  assumes "foldM f s xs = Inr t" "P s"
    and "\<And>s x s'. x \<in> set xs \<Longrightarrow> P s \<Longrightarrow> f s x = Inr s' \<Longrightarrow> P s'"
  shows "P t"
  using assms
proof (induction xs arbitrary: s)
  case (Cons x xs)
  from Cons.prems(1) obtain s1 where s1: "f s x = Inr s1" "foldM f s1 xs = Inr t"
    by (auto simp: res_simps)
  have "P s1" using Cons.prems(2,3) s1(1) by auto
  with Cons.IH[OF s1(2)] Cons.prems(3) show ?case by auto
qed simp

section \<open>Byte readers\<close>

text \<open>
  An \<^verbatim>\<open>io.Reader\<close> is the list of the bytes it still holds. \<^verbatim>\<open>io.ReadFull\<close> takes
  exactly \<open>n\<close> of them or fails.
\<close>

definition ReadFull :: "bytes \<Rightarrow> nat \<Rightarrow> (bytes \<times> bytes) res" where
  "ReadFull rs n = (if length rs < n then Inl ErrEOF else Inr (take n rs, drop n rs))"

lemma ReadFull_Inr_iff [res_simps]:
  "ReadFull rs n = Inr (b, rs') \<longleftrightarrow> length b = n \<and> rs = b @ rs'"
  by (auto simp: ReadFull_def)

lemma ReadFull_append [simp]: "length b = n \<Longrightarrow> ReadFull (b @ rs) n = Inr (b, rs)"
  by (simp add: ReadFull_def)

section \<open>Byte encodings\<close>

text \<open>
  \<^verbatim>\<open>binary.LittleEndian\<close> and \<^verbatim>\<open>binary.BigEndian\<close> over \<open>n\<close> bytes: the value is
  taken modulo \<open>256 ^ n\<close>, which is the conversion to the fixed-width integer the
  encoder is called with.
\<close>

fun le_bytes :: "nat \<Rightarrow> nat \<Rightarrow> bytes" where
  "le_bytes 0 x = []"
| "le_bytes (Suc n) x = word_of_nat (x mod 256) # le_bytes n (x div 256)"

fun le_val :: "bytes \<Rightarrow> nat" where
  "le_val [] = 0"
| "le_val (b # bs) = unat b + 256 * le_val bs"

definition be_bytes :: "nat \<Rightarrow> nat \<Rightarrow> bytes" where
  "be_bytes n x = rev (le_bytes n x)"

definition be_val :: "bytes \<Rightarrow> nat" where
  "be_val bs = le_val (rev bs)"

definition be32 :: "u32 \<Rightarrow> bytes" where
  "be32 w = be_bytes 4 (unat w)"

definition be64 :: "u64 \<Rightarrow> bytes" where
  "be64 w = be_bytes 8 (unat w)"

definition le64 :: "u64 \<Rightarrow> bytes" where
  "le64 w = le_bytes 8 (unat w)"

text \<open>\<^verbatim>\<open>[]byte(s)\<close> for a string; a HOL \<open>char\<close> is one byte.\<close>

definition str_bytes :: "string \<Rightarrow> bytes" where
  "str_bytes s = map (\<lambda>c. word_of_nat (of_char c)) s"

lemma unat_lt: "unat (w :: 'a::len word) < 2 ^ LENGTH('a)"
  by (rule unsigned_less)

lemma length_le_bytes [simp, enc_simps]: "length (le_bytes n x) = n"
  by (induction n arbitrary: x) auto

lemma length_be_bytes [simp, enc_simps]: "length (be_bytes n x) = n"
  by (simp add: be_bytes_def)

lemma length_be32 [simp, enc_simps]: "length (be32 w) = 4"
  by (simp add: be32_def)

lemma length_be64 [simp, enc_simps]: "length (be64 w) = 8"
  by (simp add: be64_def)

lemma length_le64 [simp, enc_simps]: "length (le64 w) = 8"
  by (simp add: le64_def)

lemma length_str_bytes [simp, enc_simps]: "length (str_bytes s) = length s"
  by (simp add: str_bytes_def)

lemma le_val_le_bytes [enc_simps]: "le_val (le_bytes n x) = x mod 256 ^ n"
proof (induction n arbitrary: x)
  case (Suc n)
  have "unat (word_of_nat (x mod 256) :: u8) = x mod 256"
    by (simp add: unat_of_nat)
  then show ?case
    by (simp add: Suc.IH mod_mult2_eq)
qed simp

lemma le_val_bound: "le_val bs < 256 ^ length bs"
proof (induction bs)
  case (Cons b bs)
  have "unat b < 256" using unat_lt[of b] by simp
  with Cons show ?case by simp
qed simp

lemma le_bytes_le_val [enc_simps]: "le_bytes (length bs) (le_val bs) = bs"
proof (induction bs)
  case (Cons b bs)
  have "unat b < 256" using unat_lt[of b] by simp
  then show ?case using Cons by simp
qed simp

lemma be_val_be_bytes [enc_simps]: "be_val (be_bytes n x) = x mod 256 ^ n"
  by (simp add: be_val_def be_bytes_def le_val_le_bytes)

lemma be_bytes_be_val [enc_simps]: "be_bytes (length bs) (be_val bs) = bs"
  using le_bytes_le_val[of "rev bs"] by (simp add: be_val_def be_bytes_def)

lemma be_val_bound: "be_val bs < 256 ^ length bs"
  using le_val_bound[of "rev bs"] by (simp add: be_val_def)

lemma le_val_append: "le_val (as @ bs) = le_val as + 256 ^ length as * le_val bs"
  by (induction as) (auto simp: algebra_simps)

lemma be_val_Cons: "be_val (b # bs) = unat b * 256 ^ length bs + be_val bs"
  by (simp add: be_val_def le_val_append)

lemma le_bytes_mod: "le_bytes n (x mod 256 ^ n) = le_bytes n x"
  by (metis le_val_le_bytes le_bytes_le_val length_le_bytes)

lemma be_bytes_mod: "be_bytes n (x mod 256 ^ n) = be_bytes n x"
  by (simp add: be_bytes_def le_bytes_mod)

lemma le_bytes_inj: "le_bytes n x = le_bytes n y \<Longrightarrow> x mod 256 ^ n = y mod 256 ^ n"
  by (metis le_val_le_bytes)

lemma be_bytes_inj: "be_bytes n x = be_bytes n y \<longleftrightarrow> x mod 256 ^ n = y mod 256 ^ n"
  by (metis be_val_be_bytes be_bytes_mod)

lemma le64_inj [simp]: "le64 a = le64 b \<longleftrightarrow> a = b"
proof
  assume "le64 a = le64 b"
  then have "unat a mod 256 ^ 8 = unat b mod 256 ^ 8"
    unfolding le64_def by (rule le_bytes_inj)
  then show "a = b"
    using unat_lt[of a] unat_lt[of b] by (simp add: word_unat_eq_iff)
qed simp

lemma be32_inj [simp]: "be32 a = be32 b \<longleftrightarrow> a = b"
  using unat_lt[of a] unat_lt[of b] by (simp add: be32_def be_bytes_inj word_unat_eq_iff)

lemma be64_inj [simp]: "be64 a = be64 b \<longleftrightarrow> a = b"
  using unat_lt[of a] unat_lt[of b] by (simp add: be64_def be_bytes_inj word_unat_eq_iff)

lemma be_val_be32 [enc_simps]: "be_val (be32 w) = unat w"
  using unat_lt[of w] by (simp add: be32_def be_val_be_bytes)

lemma be_val_be64 [enc_simps]: "be_val (be64 w) = unat w"
  using unat_lt[of w] by (simp add: be64_def be_val_be_bytes)

lemma le_val_le64 [enc_simps]: "le_val (le64 w) = unat w"
  using unat_lt[of w] by (simp add: le64_def le_val_le_bytes)

lemma str_byte_inj: "(word_of_nat (of_char c) :: u8) = word_of_nat (of_char d) \<longleftrightarrow> c = d"
proof -
  have "unat (word_of_nat (of_char c) :: u8) = of_char c" for c :: char
    by (simp add: unat_of_nat)
  then show ?thesis by (metis of_char_eq_iff)
qed

lemma str_bytes_inj [simp]: "str_bytes s = str_bytes t \<longleftrightarrow> s = t"
proof -
  have "inj (\<lambda>c. word_of_nat (of_char c) :: u8)"
    by (rule injI) (simp only: str_byte_inj)
  then show ?thesis by (simp add: str_bytes_def inj_map_eq_map)
qed

section \<open>Lengths of big integers\<close>

text \<open>\<^verbatim>\<open>len(q.Bytes())\<close>.\<close>

function byte_len :: "int \<Rightarrow> nat" where
  "byte_len q = (if q \<le> 0 then 0 else Suc (byte_len (q div 256)))"
  by pat_completeness auto
termination
  by (relation "measure nat") (auto simp: nat_less_eq_zless int_div_less_self)

declare byte_len.simps [simp del]

lemma byte_len_pos [simp]: "0 < q \<Longrightarrow> 0 < byte_len q"
  by (simp add: byte_len.simps[of q])

section \<open>Insertion sort\<close>

text \<open>
  \<^verbatim>\<open>reshare\<close> sorts party ids with the same double loop in \<^verbatim>\<open>sortedKeys\<close>,
  \<^verbatim>\<open>sortedMapKeys\<close>, \<^verbatim>\<open>insertionSortInts\<close>, \<^verbatim>\<open>FilterQualifiedQuorum\<close> and, over byte
  strings, \<^verbatim>\<open>ValidatorSetHash\<close>: position \<open>i\<close> is swapped downwards while the element
  before it is strictly greater. \<open>sink\<close> is the inner loop, run on the reversed
  prefix that is already sorted; \<open>insertion_sort_by\<close> the outer one. The comparison
  \<open>gt\<close> is the loop's \<^verbatim>\<open>keys[j-1] > keys[j]\<close>.
\<close>

fun sink :: "('a \<Rightarrow> 'a \<Rightarrow> bool) \<Rightarrow> 'a \<Rightarrow> 'a list \<Rightarrow> 'a list" where
  "sink gt x [] = [x]"
| "sink gt x (y # ys) = (if gt y x then y # sink gt x ys else x # y # ys)"

definition insertion_sort_by :: "('a \<Rightarrow> 'a \<Rightarrow> bool) \<Rightarrow> 'a list \<Rightarrow> 'a list" where
  "insertion_sort_by gt xs = rev (foldl (\<lambda>done x. sink gt x done) [] xs)"

definition insertion_sort :: "'a::linorder list \<Rightarrow> 'a list" where
  "insertion_sort xs = insertion_sort_by (\<lambda>a b. a > b) xs"

lemma mset_sink: "mset (sink gt x ys) = add_mset x (mset ys)"
  by (induction ys) auto

lemma mset_insertion_sort_by [simp]: "mset (insertion_sort_by gt xs) = mset xs"
proof -
  have "mset (foldl (\<lambda>done x. sink gt x done) acc xs) = mset acc + mset xs" for acc
    by (induction xs arbitrary: acc) (auto simp: mset_sink)
  then show ?thesis by (simp add: insertion_sort_by_def)
qed

lemma mset_insertion_sort [simp]: "mset (insertion_sort xs) = mset xs"
  by (simp add: insertion_sort_def)

lemma set_insertion_sort [simp]: "set (insertion_sort xs) = set xs"
  by (metis mset_insertion_sort set_mset_mset)

lemma length_insertion_sort [simp]: "length (insertion_sort xs) = length xs"
  by (metis mset_insertion_sort size_mset)

lemma distinct_insertion_sort [simp]: "distinct (insertion_sort xs) = distinct xs"
  by (metis mset_insertion_sort mset_eq_imp_distinct_iff)

lemma sorted_rev_sink:
  "sorted (rev ys) \<Longrightarrow> sorted (rev (sink (\<lambda>a b. a > b) (x::'a::linorder) ys))"
proof (induction ys)
  case (Cons y ys)
  have set_sink: "set (sink (\<lambda>a b. a > b) x ys) = insert x (set ys)"
    by (metis mset_sink set_mset_add_mset_insert set_mset_mset)
  show ?case
    using Cons by (auto simp: sorted_append set_sink)
qed simp

lemma sorted_insertion_sort [simp]: "sorted (insertion_sort (xs::'a::linorder list))"
proof -
  have "sorted (rev acc) \<Longrightarrow> sorted (rev (foldl (\<lambda>done x. sink (\<lambda>a b. a > b) x done) acc xs))"
    for acc :: "'a list"
    by (induction xs arbitrary: acc) (auto intro: sorted_rev_sink)
  then show ?thesis by (simp add: insertion_sort_def insertion_sort_by_def)
qed

text \<open>The loop computes the library's sort, so its result depends on the multiset of
  its input only: the order in which a map was ranged over does not matter.\<close>

lemma insertion_sort_eq_sort: "insertion_sort xs = sort (xs::'a::linorder list)"
  by (rule properties_for_sort[symmetric]) simp_all

lemma insertion_sort_cong:
  "mset xs = mset ys \<Longrightarrow> insertion_sort xs = insertion_sort (ys::'a::linorder list)"
  by (metis insertion_sort_eq_sort mset_sort properties_for_sort sorted_sort)

section \<open>Generic list facts\<close>

lemma map_of_eq_Some_iff_wf:
  "gomap_wf m \<Longrightarrow> map_of m k = Some v \<longleftrightarrow> (k, v) \<in> set m"
  by (rule map_of_eq_Some_iff)

lemma map_of_perm: "gomap_wf m \<Longrightarrow> mset m' = mset m \<Longrightarrow> map_of m' = map_of m"
  by (metis map_of_inject_set mset_eq_imp_distinct_iff mset_map set_mset_mset)

lemma map_of_upt: "i < n \<Longrightarrow> map_of (map (\<lambda>i. (int i, f i)) [0..<n]) (int i) = Some (f i)"
  by (rule map_of_eq_Some_iff[THEN iffD2]) (auto simp: comp_def distinct_map inj_on_def)

lemma gomap_mset_eqI:
  assumes "gomap_wf a" "gomap_wf b" "map_of a = map_of b"
  shows "mset a = mset b"
proof -
  have "(k, v) \<in> set a \<longleftrightarrow> (k, v) \<in> set b" for k v
    using assms(3) map_of_eq_Some_iff[OF assms(1), of k v] map_of_eq_Some_iff[OF assms(2), of k v] by simp
  then have "set a = set b" by auto
  moreover have "distinct a" "distinct b" using assms(1,2) by (simp_all add: distinct_map)
  ultimately show ?thesis by (simp add: set_eq_iff_mset_eq_distinct)
qed

lemma sum_list_mod: "(sum_list (map (\<lambda>x. f x mod q) xs)) mod q = (sum_list (map f xs)) mod (q::int)"
  by (induction xs) (simp, simp, metis mod_add_cong mod_mod_trivial)

lemma foldl_add_sum_list: "foldl (\<lambda>a x. a + f x) (s::int) xs = s + sum_list (map f xs)"
  by (induction xs arbitrary: s) auto

lemma all_set_nth_iff: "(\<forall>x \<in> set xs. P x) \<longleftrightarrow> (\<forall>i < length xs. P (xs ! i))"
  by (auto simp: set_conv_nth)

section \<open>Slices read by index\<close>

text \<open>\<open>xs[i]\<close> on a slice: an index out of range panics.\<close>

definition idx :: "'a list \<Rightarrow> nat \<Rightarrow> 'a res" where
  "idx xs i = (if i < length xs then Inr (xs ! i) else Inl Panic)"

lemma idx_Inr_iff [res_simps]: "idx xs i = Inr x \<longleftrightarrow> i < length xs \<and> x = xs ! i"
  by (auto simp: idx_def)

lemma idx_ok [simp]: "i < length xs \<Longrightarrow> idx xs i = Inr (xs ! i)"
  by (simp add: idx_def)

text \<open>\<open>repM\<close> runs a state-passing step \<open>n\<close> times and collects its results: the inner
  loops that draw from one reader.\<close>

fun repM :: "('s \<Rightarrow> 'e + ('b \<times> 's)) \<Rightarrow> nat \<Rightarrow> 's \<Rightarrow> 'e + ('b list \<times> 's)" where
  "repM f 0 s = Inr ([], s)"
| "repM f (Suc n) s = rbind (f s) (\<lambda>(b, s'). rbind (repM f n s') (\<lambda>(bs, s''). Inr (b # bs, s'')))"

lemma repM_length: "repM f n s = Inr (bs, s') \<Longrightarrow> length bs = n"
  by (induction n arbitrary: s bs) (auto simp: res_simps)

lemma repM_all:
  assumes "repM f n s = Inr (bs, s')" "\<And>s b s'. f s = Inr (b, s') \<Longrightarrow> P b" "b \<in> set bs"
  shows "P b"
  using assms(1,3)
proof (induction n arbitrary: s bs)
  case (Suc n)
  then obtain b0 s1 bs' where "f s = Inr (b0, s1)" "repM f n s1 = Inr (bs', s')" "bs = b0 # bs'"
    by (auto simp: res_simps)
  with Suc assms(2) show ?case by auto
qed simp

text \<open>Where the error of a loop comes from.\<close>

lemma mapM_error: "mapM f xs = Inl e \<Longrightarrow> \<exists>x \<in> set xs. f x = Inl e"
  by (induction xs) (auto simp: rbind_Inl_iff)

lemma foldM_error: "foldM f s xs = Inl e \<Longrightarrow> \<exists>s x. x \<in> set xs \<and> f s x = Inl e"
  by (induction xs arbitrary: s) (auto simp: rbind_Inl_iff, blast+)

lemma repM_error: "repM f n s = Inl e \<Longrightarrow> \<exists>s. f s = Inl e"
  by (induction n arbitrary: s) (auto simp: rbind_Inl_iff split: prod.splits)

text \<open>A loop over a list that threads a state and collects results.\<close>

fun mapSt :: "('a \<Rightarrow> 's \<Rightarrow> 'e + ('b \<times> 's)) \<Rightarrow> 'a list \<Rightarrow> 's \<Rightarrow> 'e + ('b list \<times> 's)" where
  "mapSt f [] s = Inr ([], s)"
| "mapSt f (x # xs) s = rbind (f x s) (\<lambda>(y, s1). rbind (mapSt f xs s1) (\<lambda>(ys, s2). Inr (y # ys, s2)))"

lemma mapSt_length: "mapSt f xs s = Inr (ys, s') \<Longrightarrow> length ys = length xs"
  by (induction xs arbitrary: s ys) (auto simp: res_simps)

lemma mapSt_nth:
  assumes "mapSt f xs s = Inr (ys, s')" "i < length xs"
    and "\<And>x s y s'. x \<in> set xs \<Longrightarrow> f x s = Inr (y, s') \<Longrightarrow> P x y"
  shows "P (xs ! i) (ys ! i)"
  using assms
proof (induction xs arbitrary: s ys i)
  case (Cons x xs)
  obtain y s1 ys' where f: "f x s = Inr (y, s1)" "mapSt f xs s1 = Inr (ys', s')" "ys = y # ys'"
    using Cons.prems(1) by (auto simp: res_simps)
  show ?case
  proof (cases i)
    case 0
    then show ?thesis using f Cons.prems(3)[of x s y s1] by simp
  next
    case (Suc j)
    then show ?thesis using Cons.IH[OF f(2), of j] Cons.prems f by auto
  qed
qed simp

lemma mapSt_error: "mapSt f xs s = Inl e \<Longrightarrow> \<exists>x s. x \<in> set xs \<and> f x s = Inl e"
proof (induction xs arbitrary: s)
  case (Cons x xs)
  then show ?case by (cases "f x s") (auto simp: rbind_Inl_iff, blast)
qed simp

end
