(* ===== verification/Modular_Arith.thy ===== *)
theory Modular_Arith
  imports Corona_Prelude
begin

text \<open>
  Arithmetic modulo a prime, as \<^verbatim>\<open>math/big\<close> gives it to the packages: prime
  moduli, \<^verbatim>\<open>ModInverse\<close> (nil when there is no inverse), evaluation of a
  coefficient list, the root bound of a polynomial over a field, and Lagrange
  interpolation at zero. The primality certificate (a Pocklington argument) proves
  that Corona's modulus is prime, so that every statement below can be used at the
  production parameters without an assumption.
\<close>

section \<open>Prime moduli and inverses\<close>

definition prime_mod :: "int \<Rightarrow> bool" where
  "prime_mod q \<longleftrightarrow> 1 < q \<and> (\<forall>d > 0. d dvd q \<longrightarrow> d = 1 \<or> d = q)"

lemma prime_modD: "prime_mod q \<Longrightarrow> 1 < q"
  by (simp add: prime_mod_def)

lemma prime_mod_coprime: "prime_mod q \<Longrightarrow> \<not> q dvd x \<Longrightarrow> coprime x q"
proof -
  assume q: "prime_mod q" and x: "\<not> q dvd x"
  have pos: "gcd x q > 0" using q by (simp add: prime_mod_def)
  have "gcd x q dvd q" by simp
  with q pos have "gcd x q = 1 \<or> gcd x q = q" by (simp add: prime_mod_def)
  moreover have "gcd x q \<noteq> q" using x by (metis gcd_dvd1)
  ultimately show "coprime x q" by (simp add: coprime_iff_gcd_eq_1)
qed

lemma prime_mod_dvd_mult: "prime_mod q \<Longrightarrow> q dvd a * b \<Longrightarrow> q dvd a \<or> q dvd b"
  by (metis coprime_commute coprime_dvd_mult_right_iff prime_mod_coprime)

lemma prime_mod_dvd_prod: "prime_mod q \<Longrightarrow> q dvd prod_list xs \<Longrightarrow> \<exists>x \<in> set xs. q dvd x"
proof (induction xs)
  case Nil
  then show ?case by (auto simp: prime_mod_def)
next
  case (Cons x xs)
  then show ?case by (auto dest: prime_mod_dvd_mult)
qed

text \<open>The extended Euclidean algorithm behind \<^verbatim>\<open>big.Int.ModInverse\<close>, on non-negative
  arguments.\<close>

function egcd :: "int \<Rightarrow> int \<Rightarrow> int \<times> int \<times> int" where
  "egcd a b = (if b \<le> 0 then (a, 1, 0)
               else (case egcd b (a mod b) of (g, x, y) \<Rightarrow> (g, y, x - (a div b) * y)))"
  by pat_completeness auto
termination
  by (relation "measure (\<lambda>(a, b). nat b)") auto

declare egcd.simps [simp del]

lemma egcd_spec:
  "0 \<le> a \<Longrightarrow> 0 \<le> b \<Longrightarrow> egcd a b = (g, x, y) \<Longrightarrow> g = gcd a b \<and> a * x + b * y = g"
proof (induction a b arbitrary: g x y rule: egcd.induct)
  case (1 a b)
  show ?case
  proof (cases "b \<le> 0")
    case True
    then have b: "b = 0" using "1.prems" by simp
    have "egcd a 0 = (a, 1, 0)" by (simp add: egcd.simps[of a 0])
    then have "g = a" "x = 1" "y = 0" using "1.prems"(3) b by simp_all
    then show ?thesis using "1.prems"(1) b by simp
  next
    case False
    obtain g' x' y' where r: "egcd b (a mod b) = (g', x', y')" by (cases "egcd b (a mod b)") auto
    have ih: "g' = gcd b (a mod b)" "b * x' + (a mod b) * y' = g'"
      using "1.IH"[OF False _ _ r] False "1.prems" by auto
    have eqs: "g = g'" "x = y'" "y = x' - (a div b) * y'"
      using "1.prems"(3) False r by (auto simp: egcd.simps[of a b])
    have "a * y' + b * (x' - (a div b) * y') = b * x' + (a - b * (a div b)) * y'"
      by (simp add: algebra_simps)
    also have "\<dots> = g'" using ih(2) by (simp add: minus_mult_div_eq_mod)
    finally show ?thesis using eqs ih(1) by (simp add: gcd_red_int[of a b])
  qed
qed

definition ModInverse :: "int \<Rightarrow> int \<Rightarrow> int option" where
  "ModInverse g n = (case egcd (g mod n) n of (d, x, y) \<Rightarrow> if d = 1 then Some (x mod n) else None)"

lemma ModInverse_Some:
  assumes "1 < n" and "ModInverse g n = Some i"
  shows "0 \<le> i" and "i < n" and "(g * i) mod n = 1" and "coprime g n"
proof -
  obtain d x y where e: "egcd (g mod n) n = (d, x, y)" by (cases "egcd (g mod n) n") auto
  have d: "d = gcd (g mod n) n" "(g mod n) * x + n * y = d"
    using egcd_spec[OF _ _ e] assms(1) by auto
  have one: "d = 1" and i: "i = x mod n"
    using assms(2) e by (auto simp: ModInverse_def split: if_splits)
  show "0 \<le> i" "i < n" using i assms(1) by auto
  have "(g * i) mod n = ((g mod n) * x) mod n" using i by (simp add: mod_mult_eq mod_mult_left_eq mod_mult_right_eq)
  also have "(g mod n) * x = 1 - n * y" using d(2) one by linarith
  also have "(1 - n * y) mod n = 1" using assms(1) by (metis mod_diff_right_eq mod_mult_self1_is_0 diff_zero mod_pos_pos_trivial zero_le_one)
  finally show "(g * i) mod n = 1" .
  show "coprime g n" using d(1) one by (simp add: coprime_iff_gcd_eq_1 gcd_red_int[symmetric] gcd.commute)
qed

lemma ModInverse_exists: "1 < n \<Longrightarrow> coprime g n \<Longrightarrow> \<exists>i. ModInverse g n = Some i"
proof -
  assume n: "1 < n" and c: "coprime g n"
  obtain d x y where e: "egcd (g mod n) n = (d, x, y)" by (cases "egcd (g mod n) n") auto
  have "d = gcd (g mod n) n" using egcd_spec[OF _ _ e] n by auto
  also have "\<dots> = 1" using c by (metis coprime_iff_gcd_eq_1 gcd.commute gcd_red_int)
  finally show ?thesis using e by (simp add: ModInverse_def)
qed

lemma ModInverse_None_iff: "1 < n \<Longrightarrow> ModInverse g n = None \<longleftrightarrow> \<not> coprime g n"
  using ModInverse_exists ModInverse_Some(4) by (metis not_None_eq option.distinct(1))

section \<open>Coefficient lists as polynomials\<close>

fun pval :: "int list \<Rightarrow> int \<Rightarrow> int" where
  "pval [] x = 0"
| "pval (c # cs) x = c + x * pval cs x"

lemma pval_zero [simp]: "pval cs 0 = (if cs = [] then 0 else hd cs)"
  by (cases cs) auto

lemma pval_append: "pval (as @ bs) x = pval as x + x ^ length as * pval bs x"
  by (induction as) (auto simp: algebra_simps)

lemma pval_mod_cong:
  assumes "x mod q = y mod q" shows "pval cs x mod q = pval cs y mod q"
proof (induction cs)
  case (Cons c cs)
  have "(x * pval cs x) mod q = (y * pval cs y) mod q"
    using assms Cons by (metis mod_mult_eq)
  then show ?case by (simp) (metis mod_add_right_eq)
qed simp

fun padd :: "int list \<Rightarrow> int list \<Rightarrow> int list" where
  "padd [] bs = bs"
| "padd as [] = as"
| "padd (a # as) (b # bs) = (a + b) # padd as bs"

definition psmult :: "int \<Rightarrow> int list \<Rightarrow> int list" where
  "psmult c as = map (\<lambda>a. c * a) as"

lemma pval_padd [simp]: "pval (padd as bs) x = pval as x + pval bs x"
  by (induction as bs rule: padd.induct) (auto simp: algebra_simps)

lemma pval_psmult [simp]: "pval (psmult c as) x = c * pval as x"
  by (induction as) (auto simp: psmult_def algebra_simps)

lemma length_padd [simp]: "length (padd as bs) = max (length as) (length bs)"
  by (induction as bs rule: padd.induct) auto

lemma length_psmult [simp]: "length (psmult c as) = length as"
  by (simp add: psmult_def)

text \<open>The polynomial \<open>(X - a) * as\<close>, and the product over a list of roots.\<close>

definition plin :: "int \<Rightarrow> int list \<Rightarrow> int list" where
  "plin a as = padd (0 # as) (psmult (- a) as)"

fun proots :: "int list \<Rightarrow> int list" where
  "proots [] = [1]"
| "proots (a # as) = plin a (proots as)"

lemma pval_plin [simp]: "pval (plin a as) x = (x - a) * pval as x"
  by (simp add: plin_def algebra_simps)

lemma length_plin [simp]: "length (plin a as) = Suc (length as)"
  by (simp add: plin_def)

lemma pval_proots: "pval (proots as) x = prod_list (map (\<lambda>a. x - a) as)"
  by (induction as) auto

lemma length_proots [simp]: "length (proots as) = Suc (length as)"
  by (induction as) auto

text \<open>Synthetic division by \<open>X - r\<close>.\<close>

fun pdiv :: "int list \<Rightarrow> int \<Rightarrow> int list" where
  "pdiv [] r = []"
| "pdiv [c] r = []"
| "pdiv (c # d # cs) r = pval (d # cs) r # pdiv (d # cs) r"

lemma length_pdiv [simp]: "length (pdiv cs r) = length cs - 1"
  by (induction cs r rule: pdiv.induct) auto

lemma pdiv_spec: "pval cs x - pval cs r = (x - r) * pval (pdiv cs r) x"
proof (induction cs r rule: pdiv.induct)
  case (3 c d cs r)
  let ?t = "d # cs"
  have "pval (c # ?t) x - pval (c # ?t) r = x * (pval ?t x - pval ?t r) + (x - r) * pval ?t r"
    by (simp only: pval.simps) (simp add: algebra_simps)
  also have "\<dots> = (x - r) * (pval ?t r + x * pval (pdiv ?t r) x)"
    by (simp only: 3) (simp add: algebra_simps)
  finally show ?case by (simp only: pdiv.simps pval.simps(2)[of "pval ?t r"])
qed simp_all

lemma pdiv_zero_coeffs:
  assumes "pval cs r mod q = 0" and "\<forall>c \<in> set (pdiv cs r). c mod q = 0"
  shows "\<forall>c \<in> set cs. c mod (q::int) = 0"
  using assms
proof (induction cs r rule: pdiv.induct)
  case (3 c d cs r)
  have t: "pval (d # cs) r mod q = 0"
    by (rule bspec[OF "3.prems"(2)]) (simp only: pdiv.simps list.set_intros)
  have "\<forall>c \<in> set (pdiv (d # cs) r). c mod q = 0"
    using "3.prems"(2) by (simp only: pdiv.simps list.set ball_simps) blast
  then have "\<forall>c \<in> set (d # cs). c mod q = 0" by (rule "3.IH"[OF t])
  moreover have "c mod q = 0"
  proof -
    have "q dvd c + r * pval (d # cs) r"
      using "3.prems"(1) by (simp only: pval.simps(2)[of c] mod_eq_0_iff_dvd)
    moreover have "q dvd r * pval (d # cs) r" using t by (simp only: mod_eq_0_iff_dvd dvd_mult)
    ultimately have "q dvd (c + r * pval (d # cs) r) - r * pval (d # cs) r" by (rule dvd_diff)
    then show ?thesis by (simp only: add_diff_cancel_right' mod_eq_0_iff_dvd)
  qed
  ultimately show ?case by (simp only: list.set(2)[of c] ball_simps)
qed auto

text \<open>Over a prime modulus a coefficient list no longer than its number of distinct
  roots is zero.\<close>

lemma pval_roots_zero:
  assumes "prime_mod q" "distinct (map (\<lambda>x. x mod q) xs)" "length cs \<le> length xs"
    and "\<And>x. x \<in> set xs \<Longrightarrow> pval cs x mod q = 0"
  shows "\<forall>c \<in> set cs. c mod q = 0"
  using assms(2-)
proof (induction xs arbitrary: cs)
  case (Cons r xs)
  have "pval (pdiv cs r) x mod q = 0" if x: "x \<in> set xs" for x
  proof -
    have "(pval cs x - pval cs r) mod q = 0"
      using Cons.prems(3)[of x] Cons.prems(3)[of r] x by (metis diff_self list.set_intros mod_diff_eq mod_0)
    then have "q dvd (x - r) * pval (pdiv cs r) x"
      by (simp add: pdiv_spec mod_eq_0_iff_dvd)
    moreover have "\<not> q dvd (x - r)"
    proof
      assume "q dvd (x - r)"
      then have "x mod q = r mod q" by (simp add: mod_eq_dvd_iff)
      then show False using Cons.prems(1) x by (auto simp: image_iff)
    qed
    ultimately show ?thesis
      using prime_mod_dvd_mult[OF assms(1)] by (auto simp: mod_eq_0_iff_dvd)
  qed
  then have "\<forall>c \<in> set (pdiv cs r). c mod q = 0"
    using Cons.IH[of "pdiv cs r"] Cons.prems(1,2) by simp
  moreover have "pval cs r mod q = 0" using Cons.prems(3) by simp
  ultimately show ?case by (rule pdiv_zero_coeffs[rotated])
qed simp

lemma pval_zero_coeffs: "\<forall>c \<in> set cs. c mod q = 0 \<Longrightarrow> pval cs x mod (q::int) = 0"
proof (induction cs)
  case (Cons c cs)
  then have "q dvd c" "q dvd pval cs x" by (auto simp: mod_eq_0_iff_dvd)
  then show ?case by (simp add: mod_eq_0_iff_dvd)
qed simp

section \<open>Lagrange interpolation at zero\<close>

text \<open>
  The basis coefficient of point \<open>x\<close> among the other points \<open>others\<close>:
  \<open>lag_num\<close> is the product of the negated other points, \<open>lag_den\<close> that of the
  differences. A weight list is a Lagrange basis when every weight times its
  denominator is its numerator.
\<close>

definition lag_num :: "int list \<Rightarrow> int" where
  "lag_num others = prod_list (map uminus others)"

definition lag_den :: "int \<Rightarrow> int list \<Rightarrow> int" where
  "lag_den x others = prod_list (map (\<lambda>y. x - y) others)"

definition lagrange_weights :: "int \<Rightarrow> int list \<Rightarrow> (int \<Rightarrow> int) \<Rightarrow> bool" where
  "lagrange_weights q xs w \<longleftrightarrow>
     (\<forall>x \<in> set xs. (w x * lag_den x (remove1 x xs)) mod q = lag_num (remove1 x xs) mod q)"

lemma lag_den_not_dvd:
  assumes "prime_mod q" "distinct (map (\<lambda>x. x mod q) xs)" "x \<in> set xs"
  shows "\<not> q dvd lag_den x (remove1 x xs)"
proof
  assume "q dvd lag_den x (remove1 x xs)"
  then obtain y where y: "y \<in> set (remove1 x xs)" "q dvd x - y"
    unfolding lag_den_def using prime_mod_dvd_prod[OF assms(1)] by force
  have d: "distinct xs" using assms(2) by (simp add: distinct_map)
  then have "y \<in> set xs" "y \<noteq> x" using y(1) by auto
  moreover have "x mod q = y mod q" using y(2) by (simp add: mod_eq_dvd_iff)
  ultimately show False using assms(2,3) by (auto simp: distinct_map inj_on_def)
qed

text \<open>The interpolating coefficient list through the points \<open>(x, y x)\<close>, given inverses
  of the denominators.\<close>

definition interp :: "int list \<Rightarrow> (int \<Rightarrow> int) \<Rightarrow> (int \<Rightarrow> int) \<Rightarrow> int list" where
  "interp xs dinv y = foldr (\<lambda>x acc. padd (psmult (y x * dinv x) (proots (remove1 x xs))) acc) xs []"

lemma pval_interp:
  "pval (interp xs dinv y) X =
     sum_list (map (\<lambda>x. y x * dinv x * prod_list (map (\<lambda>a. X - a) (remove1 x xs))) xs)"
proof -
  have "pval (foldr (\<lambda>x acc. padd (psmult (y x * dinv x) (proots (remove1 x zs))) acc) xs []) X =
     sum_list (map (\<lambda>x. y x * dinv x * prod_list (map (\<lambda>a. X - a) (remove1 x zs))) xs)" for zs
    by (induction xs) (auto simp: pval_proots)
  then show ?thesis by (simp add: interp_def)
qed

lemma length_interp: "length (interp xs dinv y) \<le> length xs"
proof -
  have "set xs \<subseteq> set zs \<Longrightarrow>
    length (foldr (\<lambda>x acc. padd (psmult (y x * dinv x) (proots (remove1 x zs))) acc) xs []) \<le> length zs"
    for zs
  proof (induction xs)
    case (Cons x xs)
    have "Suc (length (remove1 x zs)) \<le> length zs"
      using Cons.prems by (simp add: length_remove1) (metis length_pos_if_in_set Suc_pred order_refl)
    with Cons show ?case by simp
  qed simp
  then show ?thesis by (simp add: interp_def)
qed

lemma prod_list_zero_mem: "x \<in> set xs \<Longrightarrow> prod_list (map (\<lambda>a. x - a) xs) = (0::int)"
  by (induction xs) auto

lemma sum_list_single:
  assumes "distinct xs" "x \<in> set xs" "\<And>z. z \<in> set xs \<Longrightarrow> z \<noteq> x \<Longrightarrow> f z = (0::int)"
  shows "sum_list (map f xs) = f x"
proof -
  have "sum_list (map f xs) = (\<Sum>z \<in> set xs. f z)" using assms(1) by (simp add: sum_list_distinct_conv_sum_set)
  also have "\<dots> = f x" using assms(2,3) by (subst sum.remove[of _ x]) (auto intro: sum.neutral)
  finally show ?thesis .
qed

lemma pval_interp_at:
  assumes "distinct xs" "x \<in> set xs" "(dinv x * lag_den x (remove1 x xs)) mod q = 1 mod q"
  shows "pval (interp xs dinv y) x mod q = y x mod q"
proof -
  let ?f = "\<lambda>z. y z * dinv z * prod_list (map (\<lambda>a. x - a) (remove1 z xs))"
  have "?f z = 0" if "z \<in> set xs" "z \<noteq> x" for z
  proof -
    have "x \<in> set (remove1 z xs)" using that assms(2) by simp
    then show ?thesis by (simp only: prod_list_zero_mem mult_zero_right)
  qed
  then have "sum_list (map ?f xs) = ?f x" by (rule sum_list_single[OF assms(1,2)])
  then have "pval (interp xs dinv y) x = y x * dinv x * lag_den x (remove1 x xs)"
    by (simp only: pval_interp lag_den_def)
  also have "\<dots> mod q = (y x * (dinv x * lag_den x (remove1 x xs))) mod q" by (simp add: mult.assoc)
  also have "\<dots> = (y x * 1) mod q" using assms(3) by (metis mod_mult_right_eq)
  finally show ?thesis by simp
qed

theorem lagrange_at_zero:
  assumes q: "prime_mod q" and d: "distinct (map (\<lambda>x. x mod q) xs)"
    and w: "lagrange_weights q xs w" and len: "length cs \<le> length xs"
  shows "sum_list (map (\<lambda>x. w x * pval cs x) xs) mod q = pval cs 0 mod q"
proof -
  have dx: "distinct xs" using d by (simp add: distinct_map)
  have cop: "coprime (lag_den x (remove1 x xs)) q" if "x \<in> set xs" for x
    using lag_den_not_dvd[OF q d that] prime_mod_coprime[OF q] by blast
  define dinv where "dinv x = the (ModInverse (lag_den x (remove1 x xs)) q)" for x
  have dinv: "(dinv x * lag_den x (remove1 x xs)) mod q = 1" if "x \<in> set xs" for x
    using ModInverse_exists[OF prime_modD[OF q] cop[OF that]] ModInverse_Some(3)[OF prime_modD[OF q]]
    by (auto simp: dinv_def mult.commute)
  let ?L = "interp xs dinv (pval cs)"
  let ?d = "padd ?L (psmult (- 1) cs)"
  have "pval ?d x mod q = 0" if "x \<in> set xs" for x
    using pval_interp_at[OF dx that, of dinv q "pval cs"] dinv[OF that] prime_modD[OF q]
    by (simp add: mod_eq_dvd_iff)
  then have "\<forall>c \<in> set ?d. c mod q = 0"
    using pval_roots_zero[OF q d, of ?d] length_interp[of xs dinv "pval cs"] len by simp
  then have "pval ?d 0 mod q = 0" by (rule pval_zero_coeffs)
  then have L0: "pval ?L 0 mod q = pval cs 0 mod q"
    by (simp only: pval_padd pval_psmult) (simp add: mod_eq_dvd_iff mod_eq_0_iff_dvd)
  have "(w x * pval cs x) mod q =
      (pval cs x * dinv x * prod_list (map (\<lambda>a. 0 - a) (remove1 x xs))) mod q" if x: "x \<in> set xs" for x
  proof -
    let ?D = "lag_den x (remove1 x xs)" and ?n = "lag_num (remove1 x xs)"
    have "w x mod q = (w x * (dinv x * ?D)) mod q"
      using dinv[OF x] by (metis mod_mult_right_eq mult.right_neutral)
    also have "\<dots> = ((w x * ?D) * dinv x) mod q" by (simp add: mult_ac)
    also have "\<dots> = (?n * dinv x) mod q"
      using w x unfolding lagrange_weights_def by (metis mod_mult_left_eq)
    finally have "(w x * pval cs x) mod q = (?n * dinv x * pval cs x) mod q"
      by (metis mod_mult_left_eq)
    moreover have "?n = prod_list (map (\<lambda>a. 0 - a) (remove1 x xs))" by (simp add: lag_num_def)
    ultimately show ?thesis by (simp add: mult_ac)
  qed
  then have "map (\<lambda>x. (w x * pval cs x) mod q) xs =
      map (\<lambda>x. (pval cs x * dinv x * prod_list (map (\<lambda>a. 0 - a) (remove1 x xs))) mod q) xs" by simp
  then have "sum_list (map (\<lambda>x. w x * pval cs x) xs) mod q = pval ?L 0 mod q"
    unfolding pval_interp
    by (subst (1 2) sum_list_mod[symmetric]) (simp only:)
  with L0 show ?thesis by simp
qed

end
