(* ===== verification/Corona_Prime.thy ===== *)
theory Corona_Prime
  imports Modular_Arith
begin

text \<open>
  The modulus of the scheme, \<^verbatim>\<open>sign.Q = 0x1000000004A01\<close>, is prime. The proof is a
  Pocklington certificate: with \<open>q - 1 = 115200 * 14621 * 167113\<close>, the order of \<open>3\<close>
  modulo any divisor \<open>d > 1\<close> of \<open>q\<close> is a multiple of \<open>14621 * 167113\<close>, which
  exceeds the square root of \<open>q\<close>, and the order is below \<open>d\<close>. The packages rely on
  this fact silently whenever they call \<^verbatim>\<open>big.Int.ModInverse\<close>.
\<close>

section \<open>Modular exponentiation\<close>

function powmod :: "int \<Rightarrow> nat \<Rightarrow> int \<Rightarrow> int" where
  "powmod a n q = (if n = 0 then 1 mod q
     else (let h = powmod a (n div 2) q; s = (h * h) mod q
           in if even n then s else (s * a) mod q))"
  by pat_completeness auto
termination
  by (relation "measure (\<lambda>(a, n, q). n)") auto

declare powmod.simps [simp del]

lemma powmod_eq: "powmod a n q = a ^ n mod q"
proof (induction a n q rule: powmod.induct)
  case (1 a n q)
  show ?case
  proof (cases "n = 0")
    case True
    then show ?thesis by (simp add: powmod.simps)
  next
    case False
    let ?h = "a ^ (n div 2)"
    have ih: "powmod a (n div 2) q = ?h mod q" using "1.IH"[OF False] by simp
    have sq: "((?h mod q) * (?h mod q)) mod q = (?h * ?h) mod q" by (simp add: mod_mult_eq)
    show ?thesis
    proof (cases "even n")
      case True
      then obtain m where m: "n = m + m" by (metis evenE mult_2)
      then have "a ^ n = ?h * ?h" by (simp add: power_add)
      with True False ih sq show ?thesis by (simp add: powmod.simps[of a n q] Let_def)
    next
      case odd: False
      then obtain m where m: "n = m + m + 1" by (metis oddE mult_2)
      then have "a ^ n = ?h * ?h * a" by (simp add: power_add)
      moreover have "powmod a n q = ((?h * ?h) mod q * a) mod q"
        using odd False ih sq by (simp only: powmod.simps[of a n q] Let_def if_False)
      ultimately show ?thesis by (simp only: mod_mult_left_eq)
    qed
  qed
qed

text \<open>One step of the square-and-multiply chain, rewritten on numerals only, so that
  the simplifier works from the inside out.\<close>

definition sqmul :: "int \<Rightarrow> int \<Rightarrow> int \<Rightarrow> int" where
  "sqmul c q h = (h * h * c) mod q"

lemma sqmul_numeral:
  "sqmul (numeral c) (numeral q) (numeral h) = (numeral h * numeral h * numeral c) mod numeral q"
  "sqmul 1 (numeral q) (numeral h) = (numeral h * numeral h) mod numeral q"
  "sqmul 1 (numeral q) 1 = 1 mod numeral q"
  by (simp_all add: sqmul_def)

lemma powmod_numeral:
  "powmod a 1 q = a mod q" "powmod a (Suc 0) q = a mod q"
  "powmod a (numeral (num.Bit0 n)) q = sqmul 1 q (powmod a (numeral n) q)"
  "powmod a (numeral (num.Bit1 n)) q = sqmul a q (powmod a (numeral n) q)"
proof -
  show "powmod a 1 q = a mod q" "powmod a (Suc 0) q = a mod q" by (simp_all add: powmod_eq)
  have sq: "sqmul c q (x mod q) = (x * x * c) mod q" for c x
    unfolding sqmul_def by (metis mod_mult_left_eq mod_mult_eq)
  have 0: "numeral (num.Bit0 n) = numeral n + (numeral n :: nat)" by (rule numeral_Bit0)
  show "powmod a (numeral (num.Bit0 n)) q = sqmul 1 q (powmod a (numeral n) q)"
    by (simp only: powmod_eq 0 power_add sq mult_1_right)
  have 1: "numeral (num.Bit1 n) = numeral n + (numeral n :: nat) + 1" by (rule numeral_Bit1)
  show "powmod a (numeral (num.Bit1 n)) q = sqmul a q (powmod a (numeral n) q)"
    by (simp only: powmod_eq 1 power_add power_one_right sq)
qed

lemma pow_mod_one:
  assumes "1 < (d::int)" "b mod d = 1" shows "b ^ k mod d = 1"
proof -
  have "b ^ k mod d = (b mod d) ^ k mod d" by (simp only: power_mod)
  also have "\<dots> = 1" using assms by simp
  finally show ?thesis .
qed

section \<open>The order of a unit\<close>

definition is_order :: "int \<Rightarrow> int \<Rightarrow> nat \<Rightarrow> bool" where
  "is_order a d e \<longleftrightarrow> 0 < e \<and> a ^ e mod d = 1 \<and> (\<forall>k. 0 < k \<and> k < e \<longrightarrow> a ^ k mod d \<noteq> 1)"

lemma pow_repeats:
  assumes "1 < d" "coprime a d"
  shows "\<exists>k. 0 < k \<and> k < nat d \<and> a ^ k mod d = 1"
proof -
  let ?f = "\<lambda>k. a ^ k mod d"
  have "?f ` {..<nat d} \<subseteq> {1..<d}"
  proof
    fix y assume "y \<in> ?f ` {..<nat d}"
    then obtain k where y: "y = a ^ k mod d" by auto
    have "coprime (a ^ k) d" using assms(2) by (simp add: coprime_power_left_iff)
    then have "\<not> d dvd a ^ k" using assms(1) by (auto dest: coprime_absorb_right)
    then have "y \<noteq> 0" using y by (simp add: dvd_eq_mod_eq_0)
    moreover have "0 \<le> y" "y < d" using y assms(1) by auto
    ultimately show "y \<in> {1..<d}" by auto
  qed
  moreover have "card {1..<d} < card {..<nat d}" using assms(1) by simp
  ultimately have "\<not> inj_on ?f {..<nat d}"
    by (metis card_inj_on_le finite_atLeastLessThan_int linorder_not_less)
  then obtain i j where ij: "i < j" "j < nat d" "a ^ i mod d = a ^ j mod d"
    unfolding inj_on_def by (metis lessThan_iff linorder_neqE_nat)
  have "d dvd a ^ j - a ^ i" using ij(3)[symmetric] by (simp add: mod_eq_dvd_iff)
  moreover have "a ^ j - a ^ i = a ^ i * (a ^ (j - i) - 1)"
    using ij(1) by (simp add: right_diff_distrib power_add[symmetric])
  ultimately have "d dvd a ^ (j - i) - 1"
    using assms(2) by (metis coprime_commute coprime_dvd_mult_right_iff coprime_power_left_iff)
  then have "a ^ (j - i) mod d = 1 mod d" by (simp add: mod_eq_dvd_iff)
  then have "a ^ (j - i) mod d = 1" using assms(1) by simp
  moreover have "0 < j - i" "j - i < nat d" using ij by auto
  ultimately show ?thesis by blast
qed

lemma order_exists:
  assumes "1 < d" "coprime a d" shows "\<exists>e. is_order a d e \<and> e < nat d"
proof -
  let ?P = "\<lambda>k. 0 < k \<and> k < nat d \<and> a ^ k mod d = 1"
  obtain k where k: "?P k" using pow_repeats[OF assms] by blast
  have P: "?P (LEAST k. ?P k)" by (rule LeastI[of ?P, OF k])
  moreover have "\<not> ?P j" if "j < (LEAST k. ?P k)" for j using that by (rule not_less_Least)
  ultimately have "is_order a d (LEAST k. ?P k)"
    unfolding is_order_def by auto
  with P show ?thesis by blast
qed

lemma order_dvd:
  assumes "1 < d" "is_order a d e" "a ^ n mod d = 1" shows "e dvd n"
proof -
  have e: "0 < e" "a ^ e mod d = 1" using assms(2) by (auto simp: is_order_def)
  have split: "a ^ n = (a ^ e) ^ (n div e) * a ^ (n mod e)"
    by (simp add: power_mult[symmetric] power_add[symmetric])
  have one: "(a ^ e) ^ (n div e) mod d = 1"
    by (rule pow_mod_one[OF assms(1) e(2)])
  have "a ^ n mod d = ((a ^ e) ^ (n div e) mod d * a ^ (n mod e)) mod d"
    unfolding split by (rule mod_mult_left_eq[symmetric])
  then have "a ^ (n mod e) mod d = 1"
    unfolding one mult_1_left assms(3) by (rule sym)
  moreover have "n mod e < e" using e(1) by simp
  ultimately have "n mod e = 0" using assms(2) unfolding is_order_def by (metis gr0I)
  then show ?thesis by (simp add: mod_eq_0_iff_dvd)
qed

section \<open>The certificate\<close>

lemma prime_dvd_order:
  fixes m p :: nat
  assumes d: "1 < d" "d dvd q" and o: "is_order a d e"
    and one: "a ^ (p * m) mod q = 1" and g: "gcd (a ^ m - 1) q = 1"
    and p: "\<And>k. k dvd p \<Longrightarrow> k = 1 \<or> k = p"
  shows "p dvd e"
proof -
  have "a ^ (p * m) mod d = 1"
    using one d by (metis mod_mod_cancel mod_pos_pos_trivial zero_le_one)
  then have e: "e dvd p * m" using order_dvd[OF d(1) o] by blast
  have "\<not> e dvd m"
  proof
    assume "e dvd m"
    then obtain k where k: "m = e * k" ..
    have "a ^ m mod d = 1"
      unfolding k power_mult using o by (simp add: is_order_def pow_mod_one[OF d(1)])
    then have "d dvd a ^ m - 1" using d(1)
      by (metis mod_eq_dvd_iff mod_pos_pos_trivial zero_le_one)
    then have "d dvd 1" using g d(2) by (metis gcd_greatest)
    then show False using d(1) by simp
  qed
  then have "\<not> coprime e p" using e by (metis coprime_dvd_mult_right_iff)
  then have "gcd e p \<noteq> 1" by (simp add: coprime_iff_gcd_eq_1)
  then have "gcd e p = p" using p[of "gcd e p"] by simp
  then show ?thesis by (metis gcd_dvd1)
qed

theorem pocklington:
  fixes q a :: int and p1 p2 m :: nat
  assumes q: "1 < q" "a ^ (p1 * p2 * m) mod q = 1"
    and g: "gcd (a ^ (p2 * m) - 1) q = 1" "gcd (a ^ (p1 * m) - 1) q = 1"
    and p: "\<And>k. k dvd p1 \<Longrightarrow> k = 1 \<or> k = p1" "\<And>k. k dvd p2 \<Longrightarrow> k = 1 \<or> k = p2"
    and big: "coprime p1 p2" "q < int (p1 * p2) * int (p1 * p2)" "0 < p1 * p2 * m"
  shows "prime_mod q"
proof -
  have cop: "coprime a q"
  proof -
    have "coprime (a ^ (p1 * p2 * m)) q"
      using q by (metis coprime_iff_gcd_eq_1 gcd_1_int gcd.commute gcd_red_int)
    then show ?thesis using big(3) by (simp add: coprime_power_left_iff)
  qed
  have large: "int (p1 * p2) < d" if d: "1 < d" "d dvd q" for d
  proof -
    have "coprime a d" using cop d(2) by (metis coprime_divisors dvd_refl)
    then obtain e where e: "is_order a d e" "e < nat d" using order_exists[OF d(1)] by blast
    have "p1 dvd e" using prime_dvd_order[OF d e(1), of p1 "p2 * m"] q(2) g(1) p(1) by (simp add: mult.assoc)
    moreover have "p2 dvd e"
      using prime_dvd_order[OF d e(1), of p2 "p1 * m"] q(2) g(2) p(2) by (simp add: mult_ac)
    ultimately have "p1 * p2 dvd e" using big(1) by (simp add: divides_mult)
    then have "p1 * p2 \<le> e" using e(1) by (auto simp: is_order_def dest: dvd_imp_le)
    with e(2) show ?thesis by linarith
  qed
  have "d = 1 \<or> d = q" if d: "0 < d" "d dvd q" for d
  proof (rule ccontr)
    assume n: "\<not> (d = 1 \<or> d = q)"
    obtain k where k: "q = d * k" using d(2) ..
    then have "0 < k" using q(1) d(1) by (metis less_trans zero_less_mult_pos zero_less_one)
    then have "1 < k" "1 < d" using n k d(1) by (cases "k = 1", auto)
    then have "int (p1 * p2) < d" "int (p1 * p2) < k" using large k by auto
    then have "int (p1 * p2) * int (p1 * p2) < d * k"
      using \<open>1 < d\<close> by (intro mult_strict_mono) auto
    with k big(2) show False by simp
  qed
  then show ?thesis using q(1) by (simp add: prime_mod_def)
qed

text \<open>Trial division for the two small primes.\<close>

fun trial :: "nat \<Rightarrow> int \<Rightarrow> int \<Rightarrow> bool" where
  "trial 0 j p \<longleftrightarrow> True"
| "trial (Suc n) j p \<longleftrightarrow> p mod j \<noteq> 0 \<and> trial n (j + 1) p"

lemma trial_spec: "trial n j p \<Longrightarrow> j \<le> i \<Longrightarrow> i < j + int n \<Longrightarrow> \<not> i dvd p"
proof (induction n arbitrary: j)
  case (Suc n)
  then show ?case by (cases "i = j") (auto simp: dvd_eq_mod_eq_0)
qed simp

lemma small_prime:
  fixes p r k :: nat
  assumes "p < r * r" "trial (r - 2) 2 (int p)" "k dvd p" "1 < p"
  shows "k = 1 \<or> k = p"
proof (rule ccontr)
  assume n: "\<not> (k = 1 \<or> k = p)"
  obtain l where l: "p = k * l" using assms(3) ..
  have k: "1 < k" "1 < l" using n l assms(4) by (cases k; cases l; auto)+
  have big: "r \<le> j" if "1 < j" "j dvd p" for j
  proof (rule ccontr)
    assume "\<not> r \<le> j"
    then have "\<not> int j dvd int p" using that(1) by (intro trial_spec[OF assms(2)]) auto
    then show False using that(2) by simp
  qed
  have "r \<le> k" "r \<le> l" using big k l by auto
  then have "r * r \<le> k * l" by (rule mult_le_mono)
  with l assms(1) show False by simp
qed

lemma prime_14621: "k dvd (14621::nat) \<Longrightarrow> k = 1 \<or> k = 14621"
proof (rule small_prime[where r = 121])
  have "trial 119 2 14621" by code_simp
  then show "trial (121 - 2) 2 (int 14621)" by simp
qed simp_all

lemma prime_167113: "k dvd (167113::nat) \<Longrightarrow> k = 1 \<or> k = 167113"
proof (rule small_prime[where r = 409])
  have "trial 407 2 167113" by code_simp
  then show "trial (409 - 2) 2 (int 167113)" by simp
qed simp_all

definition corona_q :: int where
  "corona_q = 0x1000000004A01"

lemma corona_q_prime: "prime_mod corona_q"
proof -
  have p: "powmod 3 281474976729600 281474976729601 = 1"
    by (simp add: powmod_numeral sqmul_numeral)
  have g1: "gcd (powmod 3 19251417600 281474976729601 - 1) 281474976729601 = 1"
    by (simp add: powmod_numeral sqmul_numeral) code_simp
  have g2: "gcd (powmod 3 1684339200 281474976729601 - 1) 281474976729601 = 1"
    by (simp add: powmod_numeral sqmul_numeral) code_simp
  have gred: "gcd (x mod q - 1) q = gcd (x - 1) (q::int)" for x q
    by (metis gcd.commute gcd_red_int mod_diff_left_eq)
  have "prime_mod (281474976729601 :: int)"
  proof (rule pocklington[where a = 3 and ?p1.0 = 14621 and ?p2.0 = 167113 and m = 115200])
    show "3 ^ (14621 * 167113 * 115200) mod (281474976729601::int) = 1"
      using p[unfolded powmod_eq] by (simp only: arith_simps)
    show "gcd (3 ^ (167113 * 115200) - 1) (281474976729601::int) = 1"
      using g1[unfolded powmod_eq gred] by (simp only: arith_simps)
    show "gcd (3 ^ (14621 * 115200) - 1) (281474976729601::int) = 1"
      using g2[unfolded powmod_eq gred] by (simp only: arith_simps)
    have "gcd 14621 (167113::int) = 1" by code_simp
    then show "coprime 14621 (167113::nat)"
      using gcd_int_int_eq[of 14621 167113] by (simp add: coprime_iff_gcd_eq_1)
  qed (use prime_14621 prime_167113 in simp_all)
  then show ?thesis by (simp add: corona_q_def)
qed

end
