(* ===== verification/Lattice_Ring.thy ===== *)
theory Lattice_Ring
  imports Corona_Prime
begin

text \<open>
  The ring \<^verbatim>\<open>*ring.Ring\<close> of \<^verbatim>\<open>github.com/luxfi/lattice/v7/ring\<close> is not part of the
  repository: it is a parameter, the record of the operations the packages call.
  What the code relies on are the laws of the locales below: \<open>coeff_ring\<close> for a
  ring used coefficient by coefficient (\<^verbatim>\<open>NewPoly\<close>, \<^verbatim>\<open>Add\<close>, \<^verbatim>\<open>Sub\<close>,
  \<^verbatim>\<open>PolyToBigint\<close>, \<^verbatim>\<open>SetCoefficientsBigint\<close>), and \<open>lattice_ring\<close>, which adds the
  Montgomery form (\<^verbatim>\<open>R = 2^64\<close>) and the number-theoretic transform. Both hold of a
  concrete ring, given at the end.
\<close>

section \<open>The interface\<close>

record ring_ops =
  rN :: nat
  rModulus :: int
  rNewPoly :: poly
  rAdd :: "poly \<Rightarrow> poly \<Rightarrow> poly"
  rSub :: "poly \<Rightarrow> poly \<Rightarrow> poly"
  rPolyToBigint :: "poly \<Rightarrow> int list"
  rSetCoefficientsBigint :: "int list \<Rightarrow> poly"
  rNTT :: "poly \<Rightarrow> poly"
  rINTT :: "poly \<Rightarrow> poly"
  rMForm :: "poly \<Rightarrow> poly"
  rIMForm :: "poly \<Rightarrow> poly"
  rMulCoeffsMontgomery :: "poly \<Rightarrow> poly \<Rightarrow> poly"
  rMulCoeffsMontgomeryThenAdd :: "poly \<Rightarrow> poly \<Rightarrow> poly \<Rightarrow> poly"
  rEqual :: "poly \<Rightarrow> poly \<Rightarrow> bool"
  rNewMonomialXi :: "nat \<Rightarrow> poly"

text \<open>A polynomial of a ring with one modulus: one level, \<open>N\<close> coefficients below \<open>q\<close>.
  \<open>pcoef\<close> reads a coefficient, \<open>pbuild\<close> makes a polynomial of reduced coefficients.\<close>

definition pvalid :: "int \<Rightarrow> nat \<Rightarrow> poly \<Rightarrow> bool" where
  "pvalid q N p \<longleftrightarrow> length p = 1 \<and> length (hd p) = N \<and> (\<forall>c \<in> set (hd p). uint c < q)"

definition pcoef :: "poly \<Rightarrow> nat \<Rightarrow> int" where
  "pcoef p k = uint (hd p ! k)"

definition pbuild :: "int \<Rightarrow> nat \<Rightarrow> (nat \<Rightarrow> int) \<Rightarrow> poly" where
  "pbuild q N f = [map (\<lambda>k. word_of_int (f k mod q)) [0..<N]]"

lemma uint_word_of_int_small: "0 \<le> x \<Longrightarrow> x < 2 ^ 64 \<Longrightarrow> uint (word_of_int x :: u64) = x"
  by (simp add: uint_word_of_int take_bit_int_eq_self)

lemma uint_mod_q:
  "1 < q \<Longrightarrow> q \<le> 2 ^ 64 \<Longrightarrow> uint (word_of_int (x mod q) :: u64) = x mod q"
  by (rule uint_word_of_int_small) (auto intro: order.strict_trans2[OF pos_mod_bound])

lemma length_pbuild [simp]: "length (pbuild q N f) = 1" "length (hd (pbuild q N f)) = N"
  by (simp_all add: pbuild_def)

lemma pcoef_pbuild [simp]:
  "1 < q \<Longrightarrow> q \<le> 2 ^ 64 \<Longrightarrow> k < N \<Longrightarrow> pcoef (pbuild q N f) k = f k mod q"
  by (simp add: pcoef_def pbuild_def uint_mod_q)

lemma pvalid_pbuild [simp]: "1 < q \<Longrightarrow> q \<le> 2 ^ 64 \<Longrightarrow> pvalid q N (pbuild q N f)"
  by (auto simp: pvalid_def pbuild_def uint_mod_q)

lemma pcoef_range: "pvalid q N p \<Longrightarrow> k < N \<Longrightarrow> 0 \<le> pcoef p k \<and> pcoef p k < q"
  by (auto simp: pvalid_def pcoef_def)

lemma pcoef_mod [simp]: "pvalid q N p \<Longrightarrow> k < N \<Longrightarrow> pcoef p k mod q = pcoef p k"
  using pcoef_range by simp

lemma poly_eqI:
  assumes "length a = 1" "length b = 1" "length (hd a) = N" "length (hd b) = N"
    and "\<And>k. k < N \<Longrightarrow> pcoef a k = pcoef b k"
  shows "a = b"
proof -
  have "hd a = hd b"
    by (rule nth_equalityI) (use assms in \<open>auto simp: pcoef_def word_uint_eq_iff\<close>)
  then show ?thesis using assms(1,2) by (cases a; cases b; auto)
qed

lemma pvalid_eqI:
  "pvalid q N a \<Longrightarrow> pvalid q N b \<Longrightarrow> (\<And>k. k < N \<Longrightarrow> pcoef a k = pcoef b k) \<Longrightarrow> a = b"
  by (rule poly_eqI[of _ _ N]) (auto simp: pvalid_def)

lemma pvalid_eq_pbuild: "1 < q \<Longrightarrow> q \<le> 2 ^ 64 \<Longrightarrow> pvalid q N a \<Longrightarrow> pbuild q N (pcoef a) = a"
  by (rule pvalid_eqI) auto

lemma pbuild_cong: "(\<And>k. k < N \<Longrightarrow> f k mod q = g k mod q) \<Longrightarrow> pbuild q N f = pbuild q N g"
  by (simp add: pbuild_def)

section \<open>Rings used coefficient by coefficient\<close>

locale coeff_ring =
  fixes rg :: ring_ops
  assumes modulus: "1 < rModulus rg" "rModulus rg < 2 ^ 62"
    and degree: "0 < rN rg"
    and NewPoly: "rNewPoly rg = [replicate (rN rg) 0]"
    and Add: "pvalid (rModulus rg) (rN rg) a \<Longrightarrow> pvalid (rModulus rg) (rN rg) b \<Longrightarrow>
      rAdd rg a b = pbuild (rModulus rg) (rN rg) (\<lambda>k. pcoef a k + pcoef b k)"
    and Sub: "pvalid (rModulus rg) (rN rg) a \<Longrightarrow> pvalid (rModulus rg) (rN rg) b \<Longrightarrow>
      rSub rg a b = pbuild (rModulus rg) (rN rg) (\<lambda>k. pcoef a k - pcoef b k)"
    and PolyToBigint: "pvalid (rModulus rg) (rN rg) a \<Longrightarrow>
      rPolyToBigint rg a = map (pcoef a) [0..<rN rg]"
    and SetCoefficientsBigint: "length cs \<le> rN rg \<Longrightarrow>
      rSetCoefficientsBigint rg cs =
        pbuild (rModulus rg) (rN rg) (\<lambda>k. if k < length cs then cs ! k else 0)"
    and Equal: "pvalid (rModulus rg) (rN rg) a \<Longrightarrow> pvalid (rModulus rg) (rN rg) b \<Longrightarrow>
      rEqual rg a b \<longleftrightarrow> a = b"
    and NewMonomialXi: "i < rN rg \<Longrightarrow>
      rNewMonomialXi rg i = pbuild (rModulus rg) (rN rg) (\<lambda>k. if k = i then 1 else 0)"
begin

lemma modulus_le64: "rModulus rg \<le> 2 ^ 64"
  using modulus(2) by simp

lemmas q_simps = modulus(1) modulus_le64

lemma NewPoly_pbuild: "rNewPoly rg = pbuild (rModulus rg) (rN rg) (\<lambda>k. 0)"
  by (simp add: NewPoly pbuild_def map_replicate_const)

lemma valid_NewPoly: "pvalid (rModulus rg) (rN rg) (rNewPoly rg)"
  using q_simps by (simp add: NewPoly_pbuild)

lemma valid_Add:
  "pvalid (rModulus rg) (rN rg) a \<Longrightarrow> pvalid (rModulus rg) (rN rg) b \<Longrightarrow>
   pvalid (rModulus rg) (rN rg) (rAdd rg a b)"
  using q_simps by (simp add: Add)

lemma valid_Sub:
  "pvalid (rModulus rg) (rN rg) a \<Longrightarrow> pvalid (rModulus rg) (rN rg) b \<Longrightarrow>
   pvalid (rModulus rg) (rN rg) (rSub rg a b)"
  using q_simps by (simp add: Sub)

lemma bigint_roundtrip:
  "pvalid (rModulus rg) (rN rg) a \<Longrightarrow> rSetCoefficientsBigint rg (rPolyToBigint rg a) = a"
  using q_simps
  by (intro pvalid_eqI[of "rModulus rg" "rN rg"])
     (auto simp: PolyToBigint SetCoefficientsBigint)

end

section \<open>Rings with the Montgomery form and the transform\<close>

locale lattice_ring = coeff_ring +
  assumes odd_modulus: "coprime (2 ^ 64) (rModulus rg)"
    and MForm: "pvalid (rModulus rg) (rN rg) a \<Longrightarrow>
      rMForm rg a = pbuild (rModulus rg) (rN rg) (\<lambda>k. pcoef a k * 2 ^ 64)"
    and IMForm: "pvalid (rModulus rg) (rN rg) a \<Longrightarrow>
      pvalid (rModulus rg) (rN rg) (rIMForm rg a) \<and> rMForm rg (rIMForm rg a) = a"
    and MulCoeffsMontgomery: "pvalid (rModulus rg) (rN rg) a \<Longrightarrow> pvalid (rModulus rg) (rN rg) b \<Longrightarrow>
      rMulCoeffsMontgomery rg a b =
        rIMForm rg (pbuild (rModulus rg) (rN rg) (\<lambda>k. pcoef a k * pcoef b k))"
    and MulCoeffsMontgomeryThenAdd: "pvalid (rModulus rg) (rN rg) a \<Longrightarrow>
      pvalid (rModulus rg) (rN rg) b \<Longrightarrow> pvalid (rModulus rg) (rN rg) c \<Longrightarrow>
      rMulCoeffsMontgomeryThenAdd rg a b c = rAdd rg c (rMulCoeffsMontgomery rg a b)"
    and valid_NTT: "pvalid (rModulus rg) (rN rg) a \<Longrightarrow> pvalid (rModulus rg) (rN rg) (rNTT rg a)"
    and valid_INTT: "pvalid (rModulus rg) (rN rg) a \<Longrightarrow> pvalid (rModulus rg) (rN rg) (rINTT rg a)"
    and INTT_NTT: "pvalid (rModulus rg) (rN rg) a \<Longrightarrow> rINTT rg (rNTT rg a) = a"
    and NTT_INTT: "pvalid (rModulus rg) (rN rg) a \<Longrightarrow> rNTT rg (rINTT rg a) = a"
    and NTT_Add: "pvalid (rModulus rg) (rN rg) a \<Longrightarrow> pvalid (rModulus rg) (rN rg) b \<Longrightarrow>
      rNTT rg (rAdd rg a b) = rAdd rg (rNTT rg a) (rNTT rg b)"
begin

text \<open>The inverse of the Montgomery constant.\<close>

definition Rinv :: int where
  "Rinv = the (ModInverse (2 ^ 64) (rModulus rg))"

lemma Rinv: "(2 ^ 64 * Rinv) mod rModulus rg = 1"
  using ModInverse_exists[OF modulus(1) odd_modulus] ModInverse_Some(3)[OF modulus(1)]
  by (auto simp: Rinv_def)

lemma cancel_R:
  assumes "(x * 2 ^ 64) mod rModulus rg = y mod rModulus rg"
  shows "x mod rModulus rg = (y * Rinv) mod rModulus rg"
proof -
  let ?q = "rModulus rg"
  have "x mod ?q = (x * (2 ^ 64 * Rinv)) mod ?q"
    using Rinv by (metis mod_mult_right_eq mult.right_neutral)
  also have "\<dots> = ((x * 2 ^ 64) * Rinv) mod ?q" by (simp only: mult.assoc)
  also have "\<dots> = (y * Rinv) mod ?q" using assms by (metis mod_mult_left_eq)
  finally show ?thesis .
qed

lemma IMForm_pbuild:
  assumes a: "pvalid (rModulus rg) (rN rg) a"
  shows "rIMForm rg a = pbuild (rModulus rg) (rN rg) (\<lambda>k. pcoef a k * Rinv)"
proof (rule pvalid_eqI)
  show v: "pvalid (rModulus rg) (rN rg) (rIMForm rg a)" using IMForm[OF a] by simp
  show "pvalid (rModulus rg) (rN rg) (pbuild (rModulus rg) (rN rg) (\<lambda>k. pcoef a k * Rinv))"
    using q_simps by simp
  fix k assume k: "k < rN rg"
  have "pcoef (rMForm rg (rIMForm rg a)) k = pcoef a k" using IMForm[OF a] by simp
  then have "(pcoef (rIMForm rg a) k * 2 ^ 64) mod rModulus rg = pcoef a k mod rModulus rg"
    using MForm[OF v] k q_simps a by simp
  from cancel_R[OF this] show "pcoef (rIMForm rg a) k =
      pcoef (pbuild (rModulus rg) (rN rg) (\<lambda>k. pcoef a k * Rinv)) k"
    using v k q_simps by simp
qed

lemma valid_MForm:
  "pvalid (rModulus rg) (rN rg) a \<Longrightarrow> pvalid (rModulus rg) (rN rg) (rMForm rg a)"
  using q_simps by (simp add: MForm)

lemma valid_IMForm:
  "pvalid (rModulus rg) (rN rg) a \<Longrightarrow> pvalid (rModulus rg) (rN rg) (rIMForm rg a)"
  using IMForm by simp

lemma Mul_pbuild:
  assumes "pvalid (rModulus rg) (rN rg) a" "pvalid (rModulus rg) (rN rg) b"
  shows "rMulCoeffsMontgomery rg a b =
    pbuild (rModulus rg) (rN rg) (\<lambda>k. pcoef a k * pcoef b k * Rinv)"
proof -
  have v: "pvalid (rModulus rg) (rN rg) (pbuild (rModulus rg) (rN rg) (\<lambda>k. pcoef a k * pcoef b k))"
    using q_simps by simp
  show ?thesis
    unfolding MulCoeffsMontgomery[OF assms] IMForm_pbuild[OF v]
    using q_simps by (intro pbuild_cong) (simp add: mod_mult_left_eq)
qed

lemma valid_Mul:
  "pvalid (rModulus rg) (rN rg) a \<Longrightarrow> pvalid (rModulus rg) (rN rg) b \<Longrightarrow>
   pvalid (rModulus rg) (rN rg) (rMulCoeffsMontgomery rg a b)"
  using q_simps by (simp add: Mul_pbuild)

lemma MulAdd_pbuild:
  assumes "pvalid (rModulus rg) (rN rg) a" "pvalid (rModulus rg) (rN rg) b"
    and "pvalid (rModulus rg) (rN rg) c"
  shows "rMulCoeffsMontgomeryThenAdd rg a b c =
    pbuild (rModulus rg) (rN rg) (\<lambda>k. pcoef c k + pcoef a k * pcoef b k * Rinv)"
  unfolding MulCoeffsMontgomeryThenAdd[OF assms] Add[OF assms(3) valid_Mul[OF assms(1,2)]]
  using q_simps by (intro pbuild_cong) (simp add: Mul_pbuild[OF assms(1,2)] mod_add_right_eq)

lemma IMForm_MForm: "pvalid (rModulus rg) (rN rg) a \<Longrightarrow> rIMForm rg (rMForm rg a) = a"
proof (rule pvalid_eqI[of "rModulus rg" "rN rg"])
  assume a: "pvalid (rModulus rg) (rN rg) a"
  show "pvalid (rModulus rg) (rN rg) (rIMForm rg (rMForm rg a))" by (intro valid_IMForm valid_MForm a)
  show "pvalid (rModulus rg) (rN rg) a" by (rule a)
  fix k assume k: "k < rN rg"
  have "pcoef (rIMForm rg (rMForm rg a)) k =
      ((pcoef a k * 2 ^ 64) mod rModulus rg * Rinv) mod rModulus rg"
    using k q_simps a by (simp add: IMForm_pbuild valid_MForm MForm)
  also have "\<dots> = (pcoef a k * (2 ^ 64 * Rinv)) mod rModulus rg"
    by (simp only: mod_mult_left_eq mult.assoc)
  also have "\<dots> = pcoef a k"
    using Rinv a k by (metis mod_mult_right_eq mult.right_neutral pcoef_mod)
  finally show "pcoef (rIMForm rg (rMForm rg a)) k = pcoef a k" .
qed

lemma INTT_Add:
  assumes a: "pvalid (rModulus rg) (rN rg) a" and b: "pvalid (rModulus rg) (rN rg) b"
  shows "rINTT rg (rAdd rg a b) = rAdd rg (rINTT rg a) (rINTT rg b)"
proof -
  have "rNTT rg (rAdd rg (rINTT rg a) (rINTT rg b)) = rAdd rg a b"
    by (simp add: NTT_Add valid_INTT NTT_INTT a b)
  then show ?thesis by (metis INTT_NTT valid_Add valid_INTT a b)
qed

end

end
