(* ===== verification/Reference_Ring.thy ===== *)
theory Reference_Ring
  imports Lattice_Ring
begin

text \<open>
  A concrete ring that satisfies the laws of \<open>coeff_ring\<close> and \<open>lattice_ring\<close>: degree
  2 over Corona's modulus, with the two-point negacyclic transform
  \<open>(a0 + psi a1, a0 - psi a1)\<close>, \<open>psi * psi = - 1\<close>. It is what the witnesses of the
  development instantiate the third-party ring with.
\<close>

definition ref_psi :: int where
  "ref_psi = 201661491647113"

definition ref_rinv :: int where
  "ref_rinv = 276329993804611"

definition ref_half :: int where
  "ref_half = 140737488364801"

definition pc2 :: "(int \<Rightarrow> int \<Rightarrow> int) \<Rightarrow> (int \<Rightarrow> int \<Rightarrow> int) \<Rightarrow> poly \<Rightarrow> poly" where
  "pc2 f g a = pbuild corona_q 2 (\<lambda>k. if k = 0 then f (pcoef a 0) (pcoef a 1) else g (pcoef a 0) (pcoef a 1))"

definition ref_IMForm :: "poly \<Rightarrow> poly" where
  "ref_IMForm a = pbuild corona_q 2 (\<lambda>k. pcoef a k * ref_rinv)"

definition ref_Add :: "poly \<Rightarrow> poly \<Rightarrow> poly" where
  "ref_Add a b = pbuild corona_q 2 (\<lambda>k. pcoef a k + pcoef b k)"

definition ref_Mul :: "poly \<Rightarrow> poly \<Rightarrow> poly" where
  "ref_Mul a b = ref_IMForm (pbuild corona_q 2 (\<lambda>k. pcoef a k * pcoef b k))"

definition ref_ring :: ring_ops where
  "ref_ring = \<lparr> rN = 2, rModulus = corona_q, rNewPoly = [[0, 0]],
     rAdd = ref_Add,
     rSub = (\<lambda>a b. pbuild corona_q 2 (\<lambda>k. pcoef a k - pcoef b k)),
     rPolyToBigint = (\<lambda>a. map (pcoef a) [0..<2]),
     rSetCoefficientsBigint = (\<lambda>cs. pbuild corona_q 2 (\<lambda>k. if k < length cs then cs ! k else 0)),
     rNTT = pc2 (\<lambda>a0 a1. a0 + ref_psi * a1) (\<lambda>a0 a1. a0 - ref_psi * a1),
     rINTT = pc2 (\<lambda>b0 b1. (b0 + b1) * ref_half) (\<lambda>b0 b1. (b1 - b0) * (ref_half * ref_psi)),
     rMForm = (\<lambda>a. pbuild corona_q 2 (\<lambda>k. pcoef a k * 2 ^ 64)),
     rIMForm = ref_IMForm,
     rMulCoeffsMontgomery = ref_Mul,
     rMulCoeffsMontgomeryThenAdd = (\<lambda>a b c. ref_Add c (ref_Mul a b)),
     rEqual = (=),
     rNewMonomialXi = (\<lambda>i. pbuild corona_q 2 (\<lambda>k. if k = i then 1 else 0)) \<rparr>"

lemma ref_consts:
  "(ref_psi * ref_psi) mod corona_q = (- 1) mod corona_q"
  "(2 * ref_half) mod corona_q = 1" "(ref_rinv * 2 ^ 64) mod corona_q = 1"
  by (simp_all add: ref_psi_def ref_half_def ref_rinv_def corona_q_def)

lemma corona_q_bounds [simp]: "1 < corona_q" "corona_q \<le> 0x10000000000000000" "corona_q < 0x4000000000000000"
  by (simp_all add: corona_q_def)

lemma corona_q_pos [simp]: "0 < corona_q"
  by (simp add: corona_q_def)

lemma pcoef_pc2 [simp]:
  "pcoef (pc2 f g a) 0 = f (pcoef a 0) (pcoef a 1) mod corona_q"
  "pcoef (pc2 f g a) (Suc 0) = g (pcoef a 0) (pcoef a 1) mod corona_q"
  by (simp_all add: pc2_def)

lemma pvalid_pc2 [simp]: "pvalid corona_q 2 (pc2 f g a)"
  by (simp add: pc2_def)

lemma pcoef_ref_Add [simp]:
  "k < 2 \<Longrightarrow> pcoef (ref_Add a b) k = (pcoef a k + pcoef b k) mod corona_q"
  by (simp add: ref_Add_def)

lemma pvalid2_eqI:
  "pvalid corona_q 2 a \<Longrightarrow> pvalid corona_q 2 b \<Longrightarrow> pcoef a 0 = pcoef b 0 \<Longrightarrow>
   pcoef a (Suc 0) = pcoef b (Suc 0) \<Longrightarrow> a = b"
  by (rule pvalid_eqI) (auto dest!: less_2_cases)

text \<open>Congruences: replacing a factor known modulo \<open>q\<close>.\<close>

lemma mod_const: "c mod q = d mod q \<Longrightarrow> (x * c) mod q = (x * d) mod (q::int)"
  by (metis mod_mult_right_eq)

lemma ref_INTT_NTT:
  assumes "pvalid corona_q 2 a"
  shows "rINTT ref_ring (rNTT ref_ring a) = a"
proof (rule pvalid2_eqI)
  show "pvalid corona_q 2 (rINTT ref_ring (rNTT ref_ring a))" by (simp add: ref_ring_def)
  let ?x = "pcoef a 0" and ?y = "pcoef a 1"
  have "((?x + ref_psi * ?y) mod corona_q + (?x - ref_psi * ?y) mod corona_q) * ref_half mod corona_q
      = (((?x + ref_psi * ?y) + (?x - ref_psi * ?y)) * ref_half) mod corona_q"
    by (metis mod_add_eq mod_mult_left_eq)
  also have "((?x + ref_psi * ?y) + (?x - ref_psi * ?y)) * ref_half = ?x * (2 * ref_half)"
    by (simp add: algebra_simps)
  also have "(?x * (2 * ref_half)) mod corona_q = (?x * 1) mod corona_q"
    by (rule mod_const) (simp add: ref_consts)
  finally show "pcoef (rINTT ref_ring (rNTT ref_ring a)) 0 = pcoef a 0"
    using assms by (simp add: ref_ring_def)
  have "((?x - ref_psi * ?y) mod corona_q - (?x + ref_psi * ?y) mod corona_q) * (ref_half * ref_psi) mod corona_q
      = (((?x - ref_psi * ?y) - (?x + ref_psi * ?y)) * (ref_half * ref_psi)) mod corona_q"
    by (metis mod_diff_eq mod_mult_left_eq)
  also have "((?x - ref_psi * ?y) - (?x + ref_psi * ?y)) * (ref_half * ref_psi)
      = (- ?y * (2 * ref_half)) * (ref_psi * ref_psi)"
    by (simp add: algebra_simps)
  also have "\<dots> mod corona_q = ((- ?y * (2 * ref_half)) * (- 1)) mod corona_q"
    by (rule mod_const) (simp add: ref_consts)
  also have "(- ?y * (2 * ref_half)) * (- 1) = ?y * (2 * ref_half)" by simp
  also have "(?y * (2 * ref_half)) mod corona_q = (?y * 1) mod corona_q"
    by (rule mod_const) (simp add: ref_consts)
  finally show "pcoef (rINTT ref_ring (rNTT ref_ring a)) (Suc 0) = pcoef a (Suc 0)"
    using assms by (simp add: ref_ring_def)
qed (rule assms)

lemma ref_NTT_INTT:
  assumes "pvalid corona_q 2 a"
  shows "rNTT ref_ring (rINTT ref_ring a) = a"
proof (rule pvalid2_eqI)
  show "pvalid corona_q 2 (rNTT ref_ring (rINTT ref_ring a))" by (simp add: ref_ring_def)
  let ?x = "pcoef a 0" and ?y = "pcoef a 1"
  let ?u = "(?x + ?y) * ref_half" and ?v = "(?y - ?x) * (ref_half * ref_psi)"
  have sq: "(t * (ref_psi * ref_psi)) mod corona_q = (- t) mod corona_q" for t
    using mod_const[OF ref_consts(1), of t] by simp
  have two: "(t * (2 * ref_half)) mod corona_q = t mod corona_q" for t
    using mod_const[of "2 * ref_half" corona_q 1 t] by (simp add: ref_consts)
  have "(?u mod corona_q + ref_psi * (?v mod corona_q)) mod corona_q = (?u + ref_psi * ?v) mod corona_q"
    by (rule mod_add_cong[OF mod_mod_trivial mod_mult_right_eq])
  also have "?u + ref_psi * ?v = ?u + ((?y - ?x) * ref_half) * (ref_psi * ref_psi)" by (simp add: algebra_simps)
  also have "\<dots> mod corona_q = (?u + - ((?y - ?x) * ref_half)) mod corona_q"
    by (rule mod_add_cong[OF refl sq])
  also have "?u + - ((?y - ?x) * ref_half) = ?x * (2 * ref_half)" by (simp add: algebra_simps)
  also have "(?x * (2 * ref_half)) mod corona_q = ?x" using two[of ?x] assms by simp
  finally show "pcoef (rNTT ref_ring (rINTT ref_ring a)) 0 = pcoef a 0"
    by (simp add: ref_ring_def)
  have "(?u mod corona_q - ref_psi * (?v mod corona_q)) mod corona_q = (?u - ref_psi * ?v) mod corona_q"
    by (rule mod_diff_cong[OF mod_mod_trivial mod_mult_right_eq])
  also have "?u - ref_psi * ?v = ?u - ((?y - ?x) * ref_half) * (ref_psi * ref_psi)" by (simp add: algebra_simps)
  also have "\<dots> mod corona_q = (?u - - ((?y - ?x) * ref_half)) mod corona_q"
    by (rule mod_diff_cong[OF refl sq])
  also have "?u - - ((?y - ?x) * ref_half) = ?y * (2 * ref_half)" by (simp add: algebra_simps)
  also have "(?y * (2 * ref_half)) mod corona_q = ?y" using two[of ?y] assms by simp
  finally show "pcoef (rNTT ref_ring (rINTT ref_ring a)) (Suc 0) = pcoef a (Suc 0)"
    by (simp add: ref_ring_def)
qed (rule assms)

lemma ref_NTT_Add:
  "rNTT ref_ring (rAdd ref_ring a b) = rAdd ref_ring (rNTT ref_ring a) (rNTT ref_ring b)"
proof (rule pvalid2_eqI)
  have 0: "((x + y) mod q + p * ((z + w) mod q)) mod q = ((x + p * z) mod q + (y + p * w) mod q) mod q"
    for x y z w p q :: int
  proof -
    have "((x + y) mod q + p * ((z + w) mod q)) mod q = ((x + y) + p * (z + w)) mod q"
      by (rule mod_add_cong[OF mod_mod_trivial mod_mult_right_eq])
    also have "(x + y) + p * (z + w) = (x + p * z) + (y + p * w)" by (simp add: algebra_simps)
    finally show ?thesis by (simp only: mod_add_eq)
  qed
  have 1: "((x + y) mod q - p * ((z + w) mod q)) mod q = ((x - p * z) mod q + (y - p * w) mod q) mod q"
    for x y z w p q :: int
    using 0[of x y q "- p" z w] by simp
  show "pcoef (rNTT ref_ring (rAdd ref_ring a b)) 0 =
      pcoef (rAdd ref_ring (rNTT ref_ring a) (rNTT ref_ring b)) 0"
    by (simp add: ref_ring_def 0)
  show "pcoef (rNTT ref_ring (rAdd ref_ring a b)) (Suc 0) =
      pcoef (rAdd ref_ring (rNTT ref_ring a) (rNTT ref_ring b)) (Suc 0)"
    by (simp add: ref_ring_def 1)
qed (simp_all add: ref_ring_def ref_Add_def)

lemma ref_MForm_IMForm:
  assumes "pvalid corona_q 2 a" shows "rMForm ref_ring (rIMForm ref_ring a) = a"
proof (rule pvalid_eqI)
  show "pvalid corona_q 2 (rMForm ref_ring (rIMForm ref_ring a))" by (simp add: ref_ring_def)
  fix k assume k: "k < (2::nat)"
  have "(pcoef a k * ref_rinv mod corona_q) * 2 ^ 64 mod corona_q = (pcoef a k * (ref_rinv * 2 ^ 64)) mod corona_q"
    by (simp only: mod_mult_left_eq mult.assoc)
  also have "\<dots> = (pcoef a k * 1) mod corona_q"
    by (rule mod_const) (simp add: ref_rinv_def corona_q_def)
  finally show "pcoef (rMForm ref_ring (rIMForm ref_ring a)) k = pcoef a k"
    using k assms by (simp add: ref_ring_def ref_IMForm_def)
qed (rule assms)

lemma corona_q_odd: "coprime (2 ^ 64) corona_q"
proof -
  have "odd corona_q" by (simp add: corona_q_def)
  then have "coprime 2 corona_q" by simp
  then show ?thesis by (rule coprime_power_left_iff[THEN iffD2, OF disjI1])
qed

lemma ref_ring_sel [simp]:
  "rN ref_ring = 2" "rModulus ref_ring = corona_q" "rNewPoly ref_ring = [[0, 0]]"
  by (simp_all add: ref_ring_def)

interpretation ref: coeff_ring ref_ring
  by unfold_locales (auto simp: ref_ring_def ref_Add_def numeral_2_eq_2)

interpretation ref: lattice_ring ref_ring
proof unfold_locales
  fix a b c
  show "rMForm ref_ring a = pbuild (rModulus ref_ring) (rN ref_ring) (\<lambda>k. pcoef a k * 2 ^ 64)"
    by (simp add: ref_ring_def)
  show "rMulCoeffsMontgomery ref_ring a b =
      rIMForm ref_ring (pbuild (rModulus ref_ring) (rN ref_ring) (\<lambda>k. pcoef a k * pcoef b k))"
    by (simp add: ref_ring_def ref_Mul_def)
  show "rMulCoeffsMontgomeryThenAdd ref_ring a b c = rAdd ref_ring c (rMulCoeffsMontgomery ref_ring a b)"
    by (simp add: ref_ring_def)
  show "pvalid (rModulus ref_ring) (rN ref_ring) (rNTT ref_ring a)"
    "pvalid (rModulus ref_ring) (rN ref_ring) (rINTT ref_ring a)"
    by (simp_all add: ref_ring_def)
  assume "pvalid (rModulus ref_ring) (rN ref_ring) a"
  then show "pvalid (rModulus ref_ring) (rN ref_ring) (rIMForm ref_ring a) \<and>
      rMForm ref_ring (rIMForm ref_ring a) = a"
    by (simp add: ref_MForm_IMForm) (simp add: ref_ring_def ref_IMForm_def)
qed (simp_all add: ref_NTT_Add ref_NTT_INTT ref_INTT_NTT corona_q_odd[simplified])

text \<open>Rings of any modulus and degree without a transform, for the rounded moduli.\<close>

definition coeff_ops :: "int \<Rightarrow> nat \<Rightarrow> ring_ops" where
  "coeff_ops q n = ref_ring \<lparr> rN := n, rModulus := q, rNewPoly := [replicate n 0],
     rAdd := (\<lambda>a b. pbuild q n (\<lambda>k. pcoef a k + pcoef b k)),
     rSub := (\<lambda>a b. pbuild q n (\<lambda>k. pcoef a k - pcoef b k)),
     rPolyToBigint := (\<lambda>a. map (pcoef a) [0..<n]),
     rSetCoefficientsBigint := (\<lambda>cs. pbuild q n (\<lambda>k. if k < length cs then cs ! k else 0)),
     rNewMonomialXi := (\<lambda>i. pbuild q n (\<lambda>k. if k = i then 1 else 0)) \<rparr>"

lemma coeff_ring_coeff_ops: "1 < q \<Longrightarrow> q < 2 ^ 62 \<Longrightarrow> 0 < n \<Longrightarrow> coeff_ring (coeff_ops q n)"
  by unfold_locales (auto simp: coeff_ops_def ref_ring_def)

text \<open>Corona's modulus at any degree, in the transform domain throughout: products are
  taken slot by slot.\<close>

definition slot_IMForm :: "nat \<Rightarrow> poly \<Rightarrow> poly" where
  "slot_IMForm n a = pbuild corona_q n (\<lambda>k. pcoef a k * ref_rinv)"

definition slot_Mul :: "nat \<Rightarrow> poly \<Rightarrow> poly \<Rightarrow> poly" where
  "slot_Mul n a b = slot_IMForm n (pbuild corona_q n (\<lambda>k. pcoef a k * pcoef b k))"

definition slot_ring :: "nat \<Rightarrow> ring_ops" where
  "slot_ring n = coeff_ops corona_q n \<lparr> rNTT := (\<lambda>a. a), rINTT := (\<lambda>a. a),
     rMForm := (\<lambda>a. pbuild corona_q n (\<lambda>k. pcoef a k * 2 ^ 64)), rIMForm := slot_IMForm n,
     rMulCoeffsMontgomery := slot_Mul n,
     rMulCoeffsMontgomeryThenAdd := (\<lambda>a b c. pbuild corona_q n (\<lambda>k. pcoef c k + pcoef (slot_Mul n a b) k)) \<rparr>"

lemma slot_ring_simps [simp]: "rN (slot_ring n) = n" "rModulus (slot_ring n) = corona_q"
  by (simp_all add: slot_ring_def coeff_ops_def ref_ring_def slot_Mul_def)

lemma coeff_ring_slot_ring: "0 < n \<Longrightarrow> coeff_ring (slot_ring n)"
  by unfold_locales (auto simp: slot_ring_def coeff_ops_def ref_ring_def)

lemma slot_MForm_IMForm:
  assumes "pvalid corona_q n a"
  shows "pbuild corona_q n (\<lambda>k. pcoef (slot_IMForm n a) k * 2 ^ 64) = a"
proof (rule pvalid_eqI[of corona_q n])
  fix k assume k: "k < n"
  have "(pcoef a k * ref_rinv) mod corona_q * 2 ^ 64 mod corona_q = pcoef a k * (ref_rinv * 2 ^ 64) mod corona_q"
    by (simp only: mod_mult_left_eq mult.assoc)
  also have "\<dots> = pcoef a k * 1 mod corona_q"
    by (rule mod_mult_cong[OF refl]) (use ref_consts in simp)
  finally show "pcoef (pbuild corona_q n (\<lambda>k. pcoef (slot_IMForm n a) k * 2 ^ 64)) k = pcoef a k"
    using k assms by (simp add: slot_IMForm_def)
qed (use assms in simp_all)

lemma pvalid_slot_IMForm [simp]: "pvalid corona_q n (slot_IMForm n a)"
  by (simp add: slot_IMForm_def)

lemma lattice_ring_slot_ring: "0 < n \<Longrightarrow> lattice_ring (slot_ring n)"
  using coeff_ring_slot_ring slot_MForm_IMForm ref.odd_modulus
  by (intro lattice_ring.intro lattice_ring_axioms.intro)
     (simp_all add: slot_ring_def coeff_ops_def ref_ring_def slot_Mul_def)

interpretation ref_nu: coeff_ring "coeff_ops 524288 2"
  by (rule coeff_ring_coeff_ops) simp_all

interpretation ref_xi: coeff_ring "coeff_ops 262144 2"
  by (rule coeff_ring_coeff_ops) simp_all

end
