(* ===== verification/Sharing.thy ===== *)
theory Sharing
  imports Reference_Ring
begin

text \<open>
  Shamir sharings of vectors of ring elements: the relation that \<^verbatim>\<open>primitives\<close>
  establishes, \<^verbatim>\<open>reshare\<close> keeps and \<^verbatim>\<open>sign\<close> and \<^verbatim>\<open>keyera\<close> rely on, and the reads
  and writes of coefficient level 0 the packages share.
\<close>

type_synonym Share = vec

type_synonym shares = "(int, Share) gomap"

section \<open>Coefficients\<close>

text \<open>\<^verbatim>\<open>p.Coeffs[0][k]\<close> can be read for all \<open>k < N\<close>.\<close>

definition poly_has :: "nat \<Rightarrow> poly \<Rightarrow> bool" where
  "poly_has N p \<longleftrightarrow> p \<noteq> [] \<and> N \<le> length (hd p)"

text \<open>Assigning the first coefficients of level 0.\<close>

definition set_level0 :: "poly \<Rightarrow> u64 list \<Rightarrow> poly" where
  "set_level0 p cs = (cs @ drop (length cs) (hd p)) # tl p"

section \<open>Sharings\<close>

text \<open>A share of \<open>nVec\<close> reduced polynomials; a share map all of whose entries are; and
  the relation the kernel keeps: for every coordinate there is one polynomial of
  \<open>t\<close> coefficients whose value at \<open>0\<close> is the secret and whose value at each id is
  the share held under that id.\<close>

definition share_ok :: "int \<Rightarrow> nat \<Rightarrow> nat \<Rightarrow> Share \<Rightarrow> bool" where
  "share_ok q N nVec sh \<longleftrightarrow> length sh = nVec \<and> (\<forall>p < nVec. pvalid q N (sh ! p))"

definition shares_ok :: "int \<Rightarrow> nat \<Rightarrow> nat \<Rightarrow> shares \<Rightarrow> bool" where
  "shares_ok q N nVec m \<longleftrightarrow> (\<forall>(j, sh) \<in> set m. share_ok q N nVec sh)"

definition is_sharing :: "int \<Rightarrow> nat \<Rightarrow> nat \<Rightarrow> nat \<Rightarrow> shares \<Rightarrow> (nat \<Rightarrow> nat \<Rightarrow> int) \<Rightarrow> bool" where
  "is_sharing q N nVec t m s \<longleftrightarrow>
     (\<forall>p < nVec. \<forall>k < N. \<exists>cs. length cs = t \<and> pval cs 0 mod q = s p k \<and>
        (\<forall>(j, sh) \<in> set m. pcoef (sh ! p) k = pval cs j mod q))"

lemma hd_set_level0 [simp]: "length cs = length (hd p) \<Longrightarrow> set_level0 p cs = cs # tl p"
  by (simp add: set_level0_def)

lemma pvalid_has [simp]: "pvalid q N p \<Longrightarrow> poly_has N p"
  by (auto simp: pvalid_def poly_has_def)

lemma set_level0_pbuild:
  "length p = 1 \<Longrightarrow> length (hd p) = N \<Longrightarrow>
   set_level0 p (map (\<lambda>k. word_of_int (f k mod q)) [0..<N]) = pbuild q N f"
  by (cases p) (auto simp: pbuild_def)

lemma set_level0_NewPoly:
  assumes "coeff_ring rg"
  shows "set_level0 (rNewPoly rg) (map (\<lambda>k. word_of_int (f k mod q)) [0..<rN rg]) = pbuild q (rN rg) f"
  using coeff_ring.NewPoly[OF assms] by (intro set_level0_pbuild) auto

lemma is_sharing_add:
  assumes "is_sharing q N nVec t m (\<lambda>p k. S p k mod q)"
    and "\<And>p k. p < nVec \<Longrightarrow> k < N \<Longrightarrow> length (F p k) = t"
    and "\<And>p k j sh. p < nVec \<Longrightarrow> k < N \<Longrightarrow> (j, sh) \<in> set m \<Longrightarrow>
      pcoef (g j sh ! p) k = (pcoef (sh ! p) k + pval (F p k) j) mod q"
  shows "is_sharing q N nVec t (map (\<lambda>(j, sh). (j, g j sh)) m) (\<lambda>p k. (S p k + pval (F p k) 0) mod q)"
  unfolding is_sharing_def
proof (intro allI impI)
  fix p k assume pk: "p < nVec" "k < N"
  then obtain cs where cs: "length cs = t" "pval cs 0 mod q = S p k mod q"
    "\<And>j sh. (j, sh) \<in> set m \<Longrightarrow> pcoef (sh ! p) k = pval cs j mod q"
    using assms(1) unfolding is_sharing_def by fast
  let ?cs = "padd cs (F p k)"
  have "pval ?cs 0 mod q = (S p k + pval (F p k) 0) mod q"
    using cs(2) unfolding pval_padd by (rule mod_add_cong) simp
  moreover have "pcoef (g j sh ! p) k = pval ?cs j mod q" if "(j, sh) \<in> set m" for j sh
    using assms(3)[OF pk that] cs(3)[OF that] by (simp only: pval_padd mod_add_left_eq)
  ultimately show "\<exists>cs. length cs = t \<and> pval cs 0 mod q = (S p k + pval (F p k) 0) mod q \<and>
      (\<forall>(j, sh) \<in> set (map (\<lambda>(j, sh). (j, g j sh)) m). pcoef (sh ! p) k = pval cs j mod q)"
    using cs(1) assms(2)[OF pk] by (intro exI[of _ ?cs]) auto
qed

lemma is_sharing_cong:
  "is_sharing q N nVec t m s \<Longrightarrow> (\<And>p k. p < nVec \<Longrightarrow> k < N \<Longrightarrow> s p k = s' p k) \<Longrightarrow>
   is_sharing q N nVec t m s'"
  by (simp add: is_sharing_def)

end
