(* ===== verification/Utils.thy ===== *)
theory Utils
  imports Reference_Ring
begin

text \<open>
  \<^verbatim>\<open>utils/utils.go\<close>: vectors and matrices of ring elements, transforms, rounding, the
  constant-time comparison, the precomputed-randomness buffer and the rank check. A
  routine that fills a \<^verbatim>\<open>result\<close> argument returns its new value; one that also
  transforms its inputs in place returns those too.
\<close>

unbundle bit_operations_syntax

section \<open>Comparison\<close>

definition uint64SliceToBytes :: "u64 list \<Rightarrow> bytes" where
  "uint64SliceToBytes s = concat (map le64 s)"

text \<open>\<^verbatim>\<open>crypto/subtle.ConstantTimeCompare\<close>.\<close>

definition ConstantTimeCompare :: "bytes \<Rightarrow> bytes \<Rightarrow> int" where
  "ConstantTimeCompare x y =
     (if length x \<noteq> length y then 0
      else if foldl (\<lambda>v (a, b). v OR (a XOR b)) 0 (zip x y) = 0 then 1 else 0)"

definition ConstantTimePolyEqual :: "poly \<Rightarrow> poly \<Rightarrow> int" where
  "ConstantTimePolyEqual a b =
     (if length a \<noteq> length b then 0
      else foldl (\<lambda>eq (al, bl).
             if length al \<noteq> length bl then 0
             else eq AND ConstantTimeCompare (uint64SliceToBytes al) (uint64SliceToBytes bl))
           1 (zip a b))"

section \<open>Transforms and initialisation\<close>

definition ConvertVectorToNTT :: "ring_ops \<Rightarrow> vec \<Rightarrow> vec" where
  "ConvertVectorToNTT rg v = map (\<lambda>p. rMForm rg (rNTT rg p)) v"

definition ConvertVectorFromNTT :: "ring_ops \<Rightarrow> vec \<Rightarrow> vec" where
  "ConvertVectorFromNTT rg v = map (\<lambda>p. rINTT rg (rIMForm rg p)) v"

definition ConvertMatrixToNTT :: "ring_ops \<Rightarrow> matrix \<Rightarrow> matrix" where
  "ConvertMatrixToNTT rg M = map (map (\<lambda>p. rMForm rg (rNTT rg p))) M"

definition ConvertMatrixFromNTT :: "ring_ops \<Rightarrow> matrix \<Rightarrow> matrix" where
  "ConvertMatrixFromNTT rg M = map (map (\<lambda>p. rINTT rg (rIMForm rg p))) M"

definition InitializeVector :: "ring_ops \<Rightarrow> nat \<Rightarrow> vec" where
  "InitializeVector rg len = replicate len (rNewPoly rg)"

definition InitializeMatrix :: "ring_ops \<Rightarrow> nat \<Rightarrow> nat \<Rightarrow> matrix" where
  "InitializeMatrix rg rows cols = replicate rows (replicate cols (rNewPoly rg))"

section \<open>Products and sums\<close>

text \<open>One row of a product, accumulated into \<open>acc\<close>.\<close>

definition row_mul :: "ring_ops \<Rightarrow> vec \<Rightarrow> vec \<Rightarrow> poly \<Rightarrow> poly" where
  "row_mul rg row v acc = foldl (\<lambda>a (m, x). rMulCoeffsMontgomeryThenAdd rg m x a) acc (zip row v)"

definition MatrixVectorMul :: "ring_ops \<Rightarrow> matrix \<Rightarrow> vec \<Rightarrow> vec \<Rightarrow> vec res" where
  "MatrixVectorMul rg M v result =
     (if \<forall>i < length M. M ! i = [] \<or> (i < length result \<and> length (M ! i) \<le> length v)
      then Inr (map (\<lambda>i. if i < length M then row_mul rg (M ! i) v (result ! i) else result ! i)
                 [0..<length result])
      else Inl Panic)"

definition MatrixVectorMulNTT :: "ring_ops \<Rightarrow> matrix \<Rightarrow> vec \<Rightarrow> vec \<Rightarrow> (vec \<times> matrix \<times> vec) res" where
  "MatrixVectorMulNTT rg M v result =
     (let M1 = ConvertMatrixToNTT rg M; v1 = ConvertVectorToNTT rg v in
      if length M \<le> length result \<and> (\<forall>row \<in> set M1. length row \<le> length v1)
      then Inr (ConvertVectorFromNTT rg
                  (map (\<lambda>row. row_mul rg row v1 (rNewPoly rg)) M1 @ drop (length M) result),
                ConvertMatrixFromNTT rg M1, ConvertVectorFromNTT rg v1)
      else Inl Panic)"

definition shapes_multiply :: "matrix \<Rightarrow> matrix \<Rightarrow> bool" where
  "shapes_multiply M1 M2 \<longleftrightarrow> M1 \<noteq> [] \<and> M2 \<noteq> [] \<and> length (hd M1) = length M2"

text \<open>Reads of \<open>M1[i][k]\<close>, \<open>M2[k][j]\<close> and \<open>result[i][j]\<close> in the triple loop.\<close>

definition mm_in_range :: "nat \<Rightarrow> nat \<Rightarrow> nat \<Rightarrow> matrix \<Rightarrow> matrix \<Rightarrow> bool" where
  "mm_in_range m p n M1 M2 \<longleftrightarrow>
     n = 0 \<or> p = 0 \<or> ((\<forall>i < m. p \<le> length (M1 ! i)) \<and> (\<forall>k < p. n \<le> length (M2 ! k)))"

definition MatrixMatrixMul :: "ring_ops \<Rightarrow> matrix \<Rightarrow> matrix \<Rightarrow> matrix \<Rightarrow> matrix res" where
  "MatrixMatrixMul rg M1 M2 result =
     (if \<not> shapes_multiply M1 M2 then Inl ErrShapeMismatch
      else let m = length M1; p = length (hd M1); n = length (hd M2) in
        if mm_in_range m p n M1 M2 \<and>
           (n = 0 \<or> p = 0 \<or> (m \<le> length result \<and> (\<forall>i < m. n \<le> length (result ! i))))
        then Inr (map (\<lambda>i. if i < m then
                     map (\<lambda>j. if j < n then
                            foldl (\<lambda>acc k. rMulCoeffsMontgomeryThenAdd rg (M1 ! i ! k) (M2 ! k ! j) acc)
                              (result ! i ! j) [0..<p]
                          else result ! i ! j) [0..<length (result ! i)]
                   else result ! i) [0..<length result])
        else Inl Panic)"

text \<open>\<^verbatim>\<open>MatrixMatrixMulNTT\<close>: the Montgomery conversion of \<open>M1[i][k]\<close> into \<open>temp\<close> is
  commented out in the source, so every product is taken with the zero polynomial
  \<open>temp\<close> was allocated as.\<close>

definition MatrixMatrixMulNTT ::
  "ring_ops \<Rightarrow> matrix \<Rightarrow> matrix \<Rightarrow> matrix \<Rightarrow> (matrix \<times> matrix \<times> matrix) res" where
  "MatrixMatrixMulNTT rg M1 M2 result =
     (if \<not> shapes_multiply M1 M2 then Inl ErrShapeMismatch
      else let m = length M1; p = length (hd M1); n = length (hd M2);
               A1 = ConvertMatrixToNTT rg M1; A2 = ConvertMatrixToNTT rg M2;
               temp = rNewPoly rg in
        if m \<le> length result \<and> (n = 0 \<or> (\<forall>k < p. n \<le> length (A2 ! k)))
        then Inr (ConvertMatrixFromNTT rg
                   (map (\<lambda>i. map (\<lambda>j. foldl (\<lambda>acc k. rMulCoeffsMontgomeryThenAdd rg temp (A2 ! k ! j) acc)
                                         (rNewPoly rg) [0..<p]) [0..<n]) [0..<m] @ drop m result),
                 ConvertMatrixFromNTT rg A1, ConvertMatrixFromNTT rg A2)
        else Inl Panic)"

definition VectorPolyMul :: "ring_ops \<Rightarrow> vec \<Rightarrow> poly \<Rightarrow> vec \<Rightarrow> vec res" where
  "VectorPolyMul rg v p result =
     (if length v \<le> length result
      then Inr (map (\<lambda>x. rMulCoeffsMontgomery rg x p) v @ drop (length v) result)
      else Inl Panic)"

definition VectorPolyMulNTT :: "ring_ops \<Rightarrow> vec \<Rightarrow> poly \<Rightarrow> vec \<Rightarrow> (vec \<times> vec \<times> poly) res" where
  "VectorPolyMulNTT rg v p result =
     (let p1 = rNTT rg p; v1 = ConvertVectorToNTT rg v; r1 = ConvertVectorToNTT rg result;
          temp = rNewPoly rg in
      if length v \<le> length result
      then Inr (ConvertVectorFromNTT rg (map (\<lambda>x. rMulCoeffsMontgomery rg temp p1) v1 @ drop (length v) r1),
                ConvertVectorFromNTT rg v1, rINTT rg p1)
      else Inl Panic)"

definition vector_op :: "(poly \<Rightarrow> poly \<Rightarrow> poly) \<Rightarrow> vec \<Rightarrow> vec \<Rightarrow> vec \<Rightarrow> vec res" where
  "vector_op f v1 v2 result =
     (if length v1 \<le> length v2 \<and> length v1 \<le> length result
      then Inr (map2 f v1 v2 @ drop (length v1) result)
      else Inl Panic)"

definition VectorAdd :: "ring_ops \<Rightarrow> vec \<Rightarrow> vec \<Rightarrow> vec \<Rightarrow> vec res" where
  "VectorAdd rg v1 v2 result = vector_op (rAdd rg) v1 v2 result"

definition VectorSub :: "ring_ops \<Rightarrow> vec \<Rightarrow> vec \<Rightarrow> vec \<Rightarrow> vec res" where
  "VectorSub rg v1 v2 result = vector_op (rSub rg) v1 v2 result"

definition MatrixAdd :: "ring_ops \<Rightarrow> matrix \<Rightarrow> matrix \<Rightarrow> matrix \<Rightarrow> matrix res" where
  "MatrixAdd rg M1 M2 result =
     (if M1 = [] \<or> M2 = [] \<or> length M1 \<noteq> length M2 \<or> length (hd M1) \<noteq> length (hd M2)
      then Inl (ErrMsg ''corona: matrix dimensions must match for element-wise addition'')
      else let m = length M1; n = length (hd M1) in
        if n = 0 \<or> ((\<forall>row \<in> set M1. n \<le> length row) \<and> (\<forall>row \<in> set M2. n \<le> length row) \<and>
             m \<le> length result \<and> (\<forall>i < m. n \<le> length (result ! i)))
        then Inr (map (\<lambda>i. if i < m \<and> 0 < n then
                       map (\<lambda>j. if j < n then rAdd rg (M1 ! i ! j) (M2 ! i ! j) else result ! i ! j)
                         [0..<length (result ! i)]
                     else result ! i) [0..<length result])
        else Inl Panic)"

section \<open>Samplers\<close>

text \<open>\<^verbatim>\<open>ring.Sampler\<close> is third-party: a function that draws a polynomial and moves its
  own state on.\<close>

type_synonym 's sampler = "'s \<Rightarrow> poly \<times> 's"

definition sample_poly :: "ring_ops \<Rightarrow> 's sampler \<Rightarrow> bool \<Rightarrow> bool \<Rightarrow> 's \<Rightarrow> poly \<times> 's" where
  "sample_poly rg sampler NTT montgomery st =
     (case sampler st of (p, st') \<Rightarrow>
        let p1 = (if NTT then rNTT rg p else p);
            p2 = (if montgomery then rMForm rg p1 else p1) in (p2, st'))"

fun SamplePolyVector :: "ring_ops \<Rightarrow> nat \<Rightarrow> 's sampler \<Rightarrow> bool \<Rightarrow> bool \<Rightarrow> 's \<Rightarrow> vec \<times> 's" where
  "SamplePolyVector rg 0 sampler NTT montgomery st = ([], st)"
| "SamplePolyVector rg (Suc len) sampler NTT montgomery st =
     (case sample_poly rg sampler NTT montgomery st of (p, st1) \<Rightarrow>
        case SamplePolyVector rg len sampler NTT montgomery st1 of (v, st2) \<Rightarrow> (p # v, st2))"

fun SamplePolyMatrix :: "ring_ops \<Rightarrow> nat \<Rightarrow> nat \<Rightarrow> 's sampler \<Rightarrow> bool \<Rightarrow> bool \<Rightarrow> 's \<Rightarrow> matrix \<times> 's" where
  "SamplePolyMatrix rg 0 cols sampler NTT montgomery st = ([], st)"
| "SamplePolyMatrix rg (Suc rows) cols sampler NTT montgomery st =
     (case SamplePolyVector rg cols sampler NTT montgomery st of (row, st1) \<Rightarrow>
        case SamplePolyMatrix rg rows cols sampler NTT montgomery st1 of (M, st2) \<Rightarrow> (row # M, st2))"

section \<open>Secrets and maps\<close>

fun CompareSecrets :: "ring_ops \<Rightarrow> vec \<Rightarrow> vec \<Rightarrow> bool res" where
  "CompareSecrets rg [] original = Inr True"
| "CompareSecrets rg (x # xs) [] = Inl Panic"
| "CompareSecrets rg (x # xs) (y # ys) = (if \<not> rEqual rg x y then Inr False else CompareSecrets rg xs ys)"

text \<open>The copies are shallow: keys and values are kept.\<close>

definition CopyMatrixMap :: "(int, matrix) gomap \<Rightarrow> (int, matrix) gomap" where
  "CopyMatrixMap original = foldl (\<lambda>copy (key, value). AList.update key value copy) [] original"

definition CopyVectorMap :: "(int, vec) gomap \<Rightarrow> (int, vec) gomap" where
  "CopyVectorMap original = foldl (\<lambda>copy (key, value). AList.update key value copy) [] original"

section \<open>Rounding\<close>

text \<open>\<^verbatim>\<open>1 << (roundingVal - 1)\<close> on an unsigned shift count: at \<open>0\<close> the count wraps to
  the largest one and the shift gives \<open>0\<close>.\<close>

definition round_half :: "nat \<Rightarrow> u64" where
  "round_half v = (if v = 0 then 0 else push_bit (v - 1) 1)"

definition round_coeff :: "nat \<Rightarrow> u64 \<Rightarrow> u64" where
  "round_coeff v c = drop_bit v (c + round_half v)"

definition RoundCoefficients :: "ring_ops \<Rightarrow> poly \<Rightarrow> nat \<Rightarrow> poly res" where
  "RoundCoefficients newRing p v =
     (let r0 = rNewPoly newRing in
      if p = [] \<or> (hd p \<noteq> [] \<and> (r0 = [] \<or> length (hd r0) < length (hd p))) then Inl Panic
      else if hd p = [] then Inr r0
      else Inr ((map (round_coeff v) (hd p) @ drop (length (hd p)) (hd r0)) # tl r0))"

definition RoundVector :: "ring_ops \<Rightarrow> vec \<Rightarrow> nat \<Rightarrow> vec res" where
  "RoundVector newRing v roundingVal = mapM (\<lambda>p. RoundCoefficients newRing p roundingVal) v"

definition RestoreCoefficients :: "ring_ops \<Rightarrow> poly \<Rightarrow> nat \<Rightarrow> poly res" where
  "RestoreCoefficients rg p v =
     (let r0 = rNewPoly rg in
      if p = [] \<or> (hd p \<noteq> [] \<and> (r0 = [] \<or> length (hd r0) < length (hd p))) then Inl Panic
      else if hd p = [] then Inr r0
      else Inr ((map (push_bit v) (hd p) @ drop (length (hd p)) (hd r0)) # tl r0))"

definition RestoreVector :: "ring_ops \<Rightarrow> vec \<Rightarrow> nat \<Rightarrow> vec res" where
  "RestoreVector rg v roundingVal = mapM (\<lambda>p. RestoreCoefficients rg p roundingVal) v"

section \<open>Precomputed randomness\<close>

record rand_state =
  PrecomputedRandomness :: bytes
  RandomnessIndex :: int

text \<open>\<^verbatim>\<open>blake3x key n\<close> stands for the first \<open>n\<close> bytes of the BLAKE3 output stream.\<close>

definition PrecomputeRandomness :: "(bytes \<Rightarrow> nat \<Rightarrow> bytes) \<Rightarrow> int \<Rightarrow> bytes \<Rightarrow> rand_state res" where
  "PrecomputeRandomness blake3x sz key =
     (if sz < 0 then Inl Panic
      else Inr \<lparr> PrecomputedRandomness = blake3x key (nat sz), RandomnessIndex = 0 \<rparr>)"

definition GetRandomBytes :: "rand_state \<Rightarrow> int \<Rightarrow> (bytes \<times> rand_state) res" where
  "GetRandomBytes st n =
     (let i = RandomnessIndex st; b = PrecomputedRandomness st in
      if 0 \<le> i \<and> i \<le> i + n \<and> i + n \<le> int (length b)
      then Inr (take (nat n) (drop (nat i) b), st \<lparr> RandomnessIndex := i + n \<rparr>)
      else Inl Panic)"

definition GetRandomInt :: "rand_state \<Rightarrow> int \<Rightarrow> (int \<times> rand_state) res" where
  "GetRandomInt st q =
     rbind (GetRandomBytes st (int (byte_len q))) (\<lambda>(b, st').
     if q = 0 then Inl Panic else Inr (int (be_val b) mod q, st'))"

section \<open>Signed representatives and rank\<close>

definition SignedRepresentation :: "int list \<Rightarrow> int \<Rightarrow> int list" where
  "SignedRepresentation coeffs Q = map (\<lambda>c. if c > Q div 2 then c - Q else c) coeffs"

text \<open>\<^verbatim>\<open>copyMat\<close> reads the first row's length from every row.\<close>

definition copyMat :: "int list list \<Rightarrow> int list list res" where
  "copyMat mat =
     (if mat = [] then Inl Panic
      else if \<forall>row \<in> set mat. length (hd mat) \<le> length row
      then Inr (map (take (length (hd mat))) mat)
      else Inl Panic)"

fun first_nonzero :: "nat \<Rightarrow> int list \<Rightarrow> nat option" where
  "first_nonzero j [] = None"
| "first_nonzero j (x # xs) = (if x \<noteq> 0 then Some j else first_nonzero (Suc j) xs)"

definition eliminate :: "int \<Rightarrow> nat \<Rightarrow> int list \<Rightarrow> int list \<Rightarrow> int list" where
  "eliminate q pivotIdx mi mk =
     (if mk ! pivotIdx \<noteq> 0
      then map2 (\<lambda>x y. (x - mk ! pivotIdx * y) mod q) mk mi
      else mk)"

text \<open>The outer loop: row \<open>i\<close> is normalised and removed from the rows below it. A pivot
  without inverse is a nil dereference.\<close>

function gauss_rows :: "int \<Rightarrow> int list list \<Rightarrow> bool res" where
  "gauss_rows q [] = Inr True"
| "gauss_rows q (mi # rest) =
     (case first_nonzero 0 mi of
        None \<Rightarrow> Inr False
      | Some pivotIdx \<Rightarrow>
          (case ModInverse (mi ! pivotIdx) q of
             None \<Rightarrow> Inl Panic
           | Some invPivot \<Rightarrow>
               let mi' = map (\<lambda>x. (x * invPivot) mod q) mi
               in gauss_rows q (map (eliminate q pivotIdx mi') rest)))"
  by pat_completeness auto
termination
  by (relation "measure (\<lambda>(q, rows). length rows)") auto

definition GaussianEliminationModQ :: "int list list \<Rightarrow> int \<Rightarrow> bool res" where
  "GaussianEliminationModQ mat q = rbind (copyMat mat) (gauss_rows q)"

section \<open>Comparison is equality\<close>

lemma xor_zero_iff: "a XOR b = 0 \<longleftrightarrow> a = (b :: 'a::len word)"
  by (auto simp: bit_eq_iff bit_xor_iff)

lemma or_fold_zero:
  "foldl (\<lambda>v (a, b). v OR (a XOR b)) (v0 :: u8) (zip x y) = 0 \<longleftrightarrow>
     v0 = 0 \<and> (\<forall>(a, b) \<in> set (zip x y). a = b)"
proof (induction x arbitrary: y v0)
  case (Cons a x)
  show ?case
  proof (cases y)
    case (Cons b y')
    then show ?thesis by (auto simp: Cons.IH or_eq_0_iff xor_zero_iff)
  qed simp
qed simp

lemma zip_all_eq: "length x = length y \<Longrightarrow> (\<forall>(a, b) \<in> set (zip x y). a = b) \<longleftrightarrow> x = y"
  by (induction x y rule: list_induct2) auto

lemma ConstantTimeCompare_eq: "ConstantTimeCompare x y = (if x = y then 1 else 0)"
  by (auto simp: ConstantTimeCompare_def or_fold_zero zip_all_eq)

lemma uint64SliceToBytes_inj: "length a = length b \<Longrightarrow> uint64SliceToBytes a = uint64SliceToBytes b \<longleftrightarrow> a = b"
  unfolding uint64SliceToBytes_def
  by (induction a b rule: list_induct2) auto

lemma ConstantTimePolyEqual_fold:
  assumes "length a = length b" "e \<in> {0, 1 :: int}"
  shows "foldl (\<lambda>eq (al, bl). if length al \<noteq> length bl then 0
             else eq AND ConstantTimeCompare (uint64SliceToBytes al) (uint64SliceToBytes bl)) e (zip a b)
     = (if a = b then e else 0)"
  using assms
proof (induction a b arbitrary: e rule: list_induct2)
  case (Cons x xs y ys)
  have step: "(if length x \<noteq> length y then 0
      else e AND ConstantTimeCompare (uint64SliceToBytes x) (uint64SliceToBytes y)) = (if x = y then e else 0)"
    using Cons.prems by (auto simp: ConstantTimeCompare_eq uint64SliceToBytes_inj)
  show ?case using Cons.IH[of "if x = y then e else 0"] Cons.prems step by auto
qed simp

section \<open>Rounding\<close>

lemma round_coeff_unat:
  assumes "1 \<le> v" "v \<le> 63" "unat c < 2 ^ 63"
  shows "unat (round_coeff v c) = (unat c + 2 ^ (v - 1)) div 2 ^ v"
proof -
  have h: "unat (round_half v) = 2 ^ (v - 1)"
  proof -
    have "(2::nat) ^ (v - 1) < 2 ^ 64" using assms(2) by (intro power_strict_increasing) auto
    then have "unat (word_of_nat (2 ^ (v - 1)) :: u64) = 2 ^ (v - 1)"
      unfolding unat_of_nat by simp
    then show ?thesis using assms(1) by (simp add: round_half_def)
  qed
  have "(2::nat) ^ (v - 1) \<le> 2 ^ 62" using assms(2) by (intro power_increasing) auto
  then have "unat (c + round_half v) = unat c + 2 ^ (v - 1)"
    using assms(3) h by (simp add: unat_word_ariths)
  then show ?thesis unfolding round_coeff_def unat_drop_bit_eq by (simp add: drop_bit_eq_div)
qed

lemma round_distance:
  "0 < h \<Longrightarrow> abs (int ((n + h) div (2 * h) * (2 * h)) - int n) \<le> int h"
proof -
  assume h: "0 < h"
  have "(n + h) div (2 * h) * (2 * h) + (n + h) mod (2 * h) = n + h" by (rule div_mult_mod_eq)
  moreover have "(n + h) mod (2 * h) < 2 * h" using h by simp
  ultimately show ?thesis by linarith
qed

section \<open>Precomputed randomness\<close>

lemma GetRandomBytes_append:
  assumes "GetRandomBytes st a = Inr (x, st1)" "GetRandomBytes st1 b = Inr (y, st2)"
  shows "GetRandomBytes st (a + b) = Inr (x @ y, st2)"
proof -
  let ?i = "RandomnessIndex st" and ?b = "PrecomputedRandomness st"
  from assms(1) have a: "0 \<le> ?i" "0 \<le> a" "?i + a \<le> int (length ?b)"
    and x: "x = take (nat a) (drop (nat ?i) ?b)" and st1: "st1 = st \<lparr> RandomnessIndex := ?i + a \<rparr>"
    by (auto simp: GetRandomBytes_def Let_def split: if_splits)
  from assms(2) have b: "0 \<le> b" "?i + a + b \<le> int (length ?b)"
    and y: "y = take (nat b) (drop (nat (?i + a)) ?b)" and st2: "st2 = st \<lparr> RandomnessIndex := ?i + a + b \<rparr>"
    by (auto simp: GetRandomBytes_def Let_def st1 split: if_splits)
  have "take (nat (a + b)) (drop (nat ?i) ?b) = x @ y"
    using a b by (simp add: x y nat_add_distrib take_add add.commute)
  then show ?thesis using a b by (simp add: GetRandomBytes_def Let_def st2 add.assoc)
qed

section \<open>Products\<close>

definition vvalid :: "ring_ops \<Rightarrow> vec \<Rightarrow> bool" where
  "vvalid rg v \<longleftrightarrow> (\<forall>p \<in> set v. pvalid (rModulus rg) (rN rg) p)"

definition mvalid :: "ring_ops \<Rightarrow> matrix \<Rightarrow> bool" where
  "mvalid rg M \<longleftrightarrow> (\<forall>row \<in> set M. vvalid rg row)"

text \<open>The sum of coefficient-wise products of two vectors held in the transform domain,
  the inner product of the ring.\<close>

definition ntt_sum :: "ring_ops \<Rightarrow> vec \<Rightarrow> vec \<Rightarrow> poly" where
  "ntt_sum rg row v = pbuild (rModulus rg) (rN rg)
     (\<lambda>k. sum_list (map (\<lambda>(m, x). pcoef m k * pcoef x k) (zip row v)))"

definition ring_dot :: "ring_ops \<Rightarrow> vec \<Rightarrow> vec \<Rightarrow> poly" where
  "ring_dot rg row v = rINTT rg (ntt_sum rg (map (rNTT rg) row) (map (rNTT rg) v))"

lemma vvalid_Nil [simp]: "vvalid rg []"
  by (simp add: vvalid_def)

lemma vvalid_Cons [simp]: "vvalid rg (p # v) \<longleftrightarrow> pvalid (rModulus rg) (rN rg) p \<and> vvalid rg v"
  by (simp add: vvalid_def)

lemma vvalid_nth: "vvalid rg v \<Longrightarrow> i < length v \<Longrightarrow> pvalid (rModulus rg) (rN rg) (v ! i)"
  by (simp add: vvalid_def)

context lattice_ring
begin

lemma row_mul_spec:
  assumes "vvalid rg row" "vvalid rg v" "pvalid (rModulus rg) (rN rg) acc"
  shows "row_mul rg row v acc = pbuild (rModulus rg) (rN rg)
    (\<lambda>k. pcoef acc k + sum_list (map (\<lambda>(m, x). pcoef m k * pcoef x k) (zip row v)) * Rinv)"
  using assms
proof (induction row arbitrary: v acc)
  case Nil
  then show ?case using q_simps by (simp add: row_mul_def pvalid_eq_pbuild)
next
  case (Cons m row)
  show ?case
  proof (cases v)
    case Nil
    then show ?thesis using Cons.prems q_simps by (simp add: row_mul_def pvalid_eq_pbuild)
  next
    case (Cons x v')
    let ?acc = "rMulCoeffsMontgomeryThenAdd rg m x acc"
    have e: "?acc = pbuild (rModulus rg) (rN rg) (\<lambda>k. pcoef acc k + pcoef m k * pcoef x k * Rinv)"
      using Cons Cons.prems by (simp add: MulAdd_pbuild)
    have "row_mul rg (m # row) v acc = row_mul rg row v' ?acc"
      by (simp add: row_mul_def Cons)
    also have "\<dots> = pbuild (rModulus rg) (rN rg)
      (\<lambda>k. pcoef ?acc k + sum_list (map (\<lambda>(m, x). pcoef m k * pcoef x k) (zip row v')) * Rinv)"
      using Cons.prems Cons q_simps by (intro Cons.IH) (simp_all add: e)
    also have "\<dots> = pbuild (rModulus rg) (rN rg) (\<lambda>k. pcoef acc k +
      sum_list (map (\<lambda>(m, x). pcoef m k * pcoef x k) (zip (m # row) v)) * Rinv)"
      using q_simps by (intro pbuild_cong) (simp add: e Cons mod_add_left_eq algebra_simps)
    finally show ?thesis .
  qed
qed

lemma vvalid_map: "vvalid rg v \<Longrightarrow> (\<And>p. pvalid (rModulus rg) (rN rg) p \<Longrightarrow> pvalid (rModulus rg) (rN rg) (f p)) \<Longrightarrow> vvalid rg (map f v)"
  by (auto simp: vvalid_def)

lemma From_To_NTT: "pvalid (rModulus rg) (rN rg) p \<Longrightarrow> rINTT rg (rIMForm rg (rMForm rg (rNTT rg p))) = p"
  by (simp add: IMForm_MForm valid_NTT INTT_NTT)

lemma ConvertVector_roundtrip: "vvalid rg v \<Longrightarrow> ConvertVectorFromNTT rg (ConvertVectorToNTT rg v) = v"
  by (auto simp: ConvertVectorFromNTT_def ConvertVectorToNTT_def vvalid_def From_To_NTT intro: map_idI)

lemma ConvertMatrix_roundtrip: "mvalid rg M \<Longrightarrow> ConvertMatrixFromNTT rg (ConvertMatrixToNTT rg M) = M"
  by (auto simp: ConvertMatrixFromNTT_def ConvertMatrixToNTT_def mvalid_def vvalid_def From_To_NTT intro!: map_idI)

text \<open>Both factors in Montgomery form: the product is again in Montgomery form.\<close>

lemma mform_dot:
  assumes "vvalid rg row" "vvalid rg v" "k < rN rg"
  shows "(sum_list (map (\<lambda>(m, x). pcoef m k * pcoef x k) (zip (map (rMForm rg) row) (map (rMForm rg) v))) * Rinv) mod rModulus rg
    = (sum_list (map (\<lambda>(m, x). pcoef m k * pcoef x k) (zip row v)) * 2 ^ 64) mod rModulus rg"
  using assms
proof (induction row arbitrary: v)
  case (Cons m row)
  show ?case
  proof (cases v)
    case v: (Cons x v')
    let ?q = "rModulus rg" and ?R = "2 ^ 64 :: int"
    let ?a = "pcoef m k" and ?b = "pcoef x k"
    let ?s = "sum_list (map (\<lambda>(m, x). pcoef m k * pcoef x k) (zip (map (rMForm rg) row) (map (rMForm rg) v')))"
    let ?t = "sum_list (map (\<lambda>(m, x). pcoef m k * pcoef x k) (zip row v'))"
    have c: "pcoef (rMForm rg m) k = (?a * ?R) mod ?q" "pcoef (rMForm rg x) k = (?b * ?R) mod ?q"
      using Cons.prems v q_simps by (simp_all add: MForm)
    have "((?a * ?R) mod ?q * ((?b * ?R) mod ?q) * Rinv) mod ?q = (?a * ?R * (?b * ?R) * Rinv) mod ?q"
      by (metis mod_mult_eq mod_mult_left_eq)
    also have "?a * ?R * (?b * ?R) * Rinv = (?a * ?b * ?R) * (?R * Rinv)" by (simp add: mult_ac)
    also have "\<dots> mod ?q = (?a * ?b * ?R) mod ?q"
      using Rinv by (metis mod_mult_right_eq mult.right_neutral)
    finally have h: "(pcoef (rMForm rg m) k * pcoef (rMForm rg x) k * Rinv) mod ?q = (?a * ?b * ?R) mod ?q"
      by (simp only: c)
    have t: "(?s * Rinv) mod ?q = (?t * ?R) mod ?q" using Cons v by simp
    have "((pcoef (rMForm rg m) k * pcoef (rMForm rg x) k + ?s) * Rinv) mod ?q = ((?a * ?b + ?t) * ?R) mod ?q"
      unfolding distrib_right by (rule mod_add_cong[OF h t])
    then show ?thesis by (simp add: v)
  qed simp
qed simp

lemma valid_ntt_sum: "pvalid (rModulus rg) (rN rg) (ntt_sum rg row v)"
  using q_simps by (simp add: ntt_sum_def)

lemma row_mul_ring_dot:
  assumes "vvalid rg row" "vvalid rg v"
  shows "rINTT rg (rIMForm rg (row_mul rg (map (\<lambda>p. rMForm rg (rNTT rg p)) row)
    (map (\<lambda>p. rMForm rg (rNTT rg p)) v) (rNewPoly rg))) = ring_dot rg row v"
proof -
  let ?r = "map (rNTT rg) row" and ?v = "map (rNTT rg) v"
  have val: "vvalid rg ?r" "vvalid rg ?v" using assms valid_NTT by (auto intro: vvalid_map)
  have valM: "vvalid rg (map (rMForm rg) ?r)" "vvalid rg (map (rMForm rg) ?v)"
    by (intro vvalid_map val valid_MForm; assumption)+
  have z: "pcoef (rNewPoly rg) k = 0" if "k < rN rg" for k using that by (simp add: NewPoly pcoef_def)
  have "row_mul rg (map (rMForm rg) ?r) (map (rMForm rg) ?v) (rNewPoly rg) = rMForm rg (ntt_sum rg ?r ?v)"
    unfolding row_mul_spec[OF valM valid_NewPoly] MForm[OF valid_ntt_sum]
  proof (rule pbuild_cong)
    fix k assume k: "k < rN rg"
    have "pcoef (ntt_sum rg ?r ?v) k * 2 ^ 64 mod rModulus rg
        = (sum_list (map (\<lambda>(m, x). pcoef m k * pcoef x k) (zip ?r ?v)) * 2 ^ 64) mod rModulus rg"
      using k q_simps by (simp add: ntt_sum_def mod_mult_left_eq)
    then show "(pcoef (rNewPoly rg) k + sum_list (map (\<lambda>(m, x). pcoef m k * pcoef x k)
        (zip (map (rMForm rg) ?r) (map (rMForm rg) ?v))) * Rinv) mod rModulus rg
      = pcoef (ntt_sum rg ?r ?v) k * 2 ^ 64 mod rModulus rg"
      unfolding z[OF k] add_0 mform_dot[OF val k] by (rule sym)
  qed
  then show ?thesis
    by (simp add: ring_dot_def comp_def IMForm_MForm valid_ntt_sum)
qed

lemma MatrixVectorMulNTT_spec:
  assumes "mvalid rg M" "vvalid rg v" "\<forall>row \<in> set M. length row \<le> length v" "length result = length M"
  shows "MatrixVectorMulNTT rg M v result = Inr (map (\<lambda>row. ring_dot rg row v) M, M, v)"
proof -
  have "ConvertVectorFromNTT rg (map (\<lambda>row. row_mul rg row (ConvertVectorToNTT rg v) (rNewPoly rg)) (ConvertMatrixToNTT rg M))
      = map (\<lambda>row. ring_dot rg row v) M"
    using assms(1,2) row_mul_ring_dot
    by (auto simp: ConvertVectorFromNTT_def ConvertVectorToNTT_def ConvertMatrixToNTT_def mvalid_def)
  moreover have "\<forall>row \<in> set (ConvertMatrixToNTT rg M). length row \<le> length (ConvertVectorToNTT rg v)"
    using assms(3) by (auto simp: ConvertMatrixToNTT_def ConvertVectorToNTT_def)
  ultimately show ?thesis
    using assms by (simp add: MatrixVectorMulNTT_def Let_def ConvertVector_roundtrip ConvertMatrix_roundtrip)
qed

end

section \<open>Products with the zero polynomial\<close>

context lattice_ring
begin

lemma INTT_zero: "rINTT rg (rNewPoly rg) = rNewPoly rg"
proof -
  let ?q = "rModulus rg" and ?z = "rNewPoly rg"
  have z: "pcoef ?z k = 0" if "k < rN rg" for k using that by (simp add: NewPoly pcoef_def)
  have zz: "rAdd rg ?z ?z = ?z"
  proof -
    have "rAdd rg ?z ?z = pbuild ?q (rN rg) (\<lambda>k. pcoef ?z k + pcoef ?z k)"
      by (rule Add[OF valid_NewPoly valid_NewPoly])
    also have "\<dots> = pbuild ?q (rN rg) (\<lambda>k. 0)" by (rule pbuild_cong) (simp add: z)
    finally show ?thesis by (simp only: NewPoly_pbuild)
  qed
  have v: "pvalid ?q (rN rg) (rINTT rg ?z)" by (intro valid_INTT valid_NewPoly)
  have e: "rINTT rg ?z = rAdd rg (rINTT rg ?z) (rINTT rg ?z)"
    using INTT_Add[OF valid_NewPoly valid_NewPoly] zz by simp
  have "pcoef (rINTT rg ?z) k = 0" if k: "k < rN rg" for k
  proof -
    let ?x = "pcoef (rINTT rg ?z) k"
    have "?x = (?x + ?x) mod ?q"
      using arg_cong[OF e, of "\<lambda>p. pcoef p k"] k q_simps by (simp add: Add[OF v v])
    then have "(?x + ?x) mod ?q = ?x mod ?q" using v k by simp
    then have "?q dvd ?x" by (simp add: mod_eq_dvd_iff)
    then show ?thesis using pcoef_range[OF v k] by (metis zdvd_not_zless order.order_iff_strict)
  qed
  then show ?thesis
    by (intro pvalid_eqI[OF v valid_NewPoly]) (simp add: NewPoly pcoef_def)
qed

lemma From_zero: "rINTT rg (rIMForm rg (rNewPoly rg)) = rNewPoly rg"
proof -
  have "rIMForm rg (rNewPoly rg) = rNewPoly rg"
    unfolding IMForm_pbuild[OF valid_NewPoly]
    using q_simps by (auto simp: NewPoly_pbuild intro!: pbuild_cong)
  then show ?thesis by (simp add: INTT_zero)
qed

lemma MulAdd_zero:
  assumes "pvalid (rModulus rg) (rN rg) a"
  shows "rMulCoeffsMontgomeryThenAdd rg (rNewPoly rg) a (rNewPoly rg) = rNewPoly rg"
  unfolding MulAdd_pbuild[OF valid_NewPoly assms valid_NewPoly]
  using q_simps by (auto simp: NewPoly_pbuild intro!: pbuild_cong)

lemma Mul_zero:
  assumes "pvalid (rModulus rg) (rN rg) a"
  shows "rMulCoeffsMontgomery rg (rNewPoly rg) a = rNewPoly rg"
  unfolding Mul_pbuild[OF valid_NewPoly assms]
  using q_simps by (auto simp: NewPoly_pbuild intro!: pbuild_cong)

lemma valid_ToNTT: "pvalid (rModulus rg) (rN rg) p \<Longrightarrow> pvalid (rModulus rg) (rN rg) (rMForm rg (rNTT rg p))"
  by (intro valid_MForm valid_NTT)

lemma MatrixMatrixMulNTT_zero:
  assumes M1: "mvalid rg M1" and M2: "mvalid rg M2" and sh: "shapes_multiply M1 M2"
    and rect: "\<forall>row \<in> set M2. length row = length (hd M2)" and len: "length result = length M1"
  shows "MatrixMatrixMulNTT rg M1 M2 result =
    Inr (InitializeMatrix rg (length M1) (length (hd M2)), M1, M2)"
proof -
  let ?A2 = "ConvertMatrixToNTT rg M2" and ?n = "length (hd M2)" and ?p = "length (hd M1)"
  have p: "?p = length M2" using sh by (simp add: shapes_multiply_def)
  have A2: "length (?A2 ! k) = ?n" "j < ?n \<Longrightarrow> pvalid (rModulus rg) (rN rg) (?A2 ! k ! j)" if "k < ?p" for k j
  proof -
    have k: "M2 ! k \<in> set M2" using that p by simp
    then show "length (?A2 ! k) = ?n" using that p bspec[OF rect k] by (simp add: ConvertMatrixToNTT_def)
    then show "pvalid (rModulus rg) (rN rg) (?A2 ! k ! j)" if "j < ?n"
    proof -
      have j: "j < length (M2 ! k)" using that bspec[OF rect k] by simp
      then have "pvalid (rModulus rg) (rN rg) (M2 ! k ! j)" using M2 k by (simp add: mvalid_def vvalid_def)
      then show ?thesis using j \<open>k < ?p\<close> p by (simp add: ConvertMatrixToNTT_def valid_ToNTT)
    qed
  qed
  have "foldl (\<lambda>acc k. rMulCoeffsMontgomeryThenAdd rg (rNewPoly rg) (?A2 ! k ! j) acc) (rNewPoly rg) ks = rNewPoly rg"
    if "set ks \<subseteq> {..<?p}" "j < ?n" for ks j
    using that by (induction ks) (auto simp: MulAdd_zero A2)
  then have "map (\<lambda>j. foldl (\<lambda>acc k. rMulCoeffsMontgomeryThenAdd rg (rNewPoly rg) (?A2 ! k ! j) acc)
      (rNewPoly rg) [0..<?p]) [0..<?n] = replicate ?n (rNewPoly rg)"
    by (intro nth_equalityI) (simp_all add: lessThan_atLeast0)
  then have "map (\<lambda>i. map (\<lambda>j. foldl (\<lambda>acc k. rMulCoeffsMontgomeryThenAdd rg (rNewPoly rg) (?A2 ! k ! j) acc)
      (rNewPoly rg) [0..<?p]) [0..<?n]) [0..<length M1] = InitializeMatrix rg (length M1) ?n"
    by (simp only: InitializeMatrix_def map_replicate_const length_upt diff_zero)
  moreover have "ConvertMatrixFromNTT rg (InitializeMatrix rg a b) = InitializeMatrix rg a b" for a b
    by (simp add: ConvertMatrixFromNTT_def InitializeMatrix_def From_zero)
  ultimately show ?thesis
    using sh len A2(1) M1 M2 by (simp add: MatrixMatrixMulNTT_def Let_def ConvertMatrix_roundtrip)
qed

lemma VectorPolyMulNTT_zero:
  assumes "vvalid rg v" "pvalid (rModulus rg) (rN rg) p" "length w = length v"
  shows "VectorPolyMulNTT rg v p w = Inr (InitializeVector rg (length v), v, p)"
proof -
  have "map (\<lambda>x. rMulCoeffsMontgomery rg (rNewPoly rg) (rNTT rg p)) (ConvertVectorToNTT rg v) = InitializeVector rg (length v)"
    using assms by (simp add: Mul_zero valid_NTT ConvertVectorToNTT_def InitializeVector_def map_replicate_const)
  moreover have "ConvertVectorFromNTT rg (InitializeVector rg a) = InitializeVector rg a" for a
    by (simp add: ConvertVectorFromNTT_def InitializeVector_def From_zero)
  ultimately show ?thesis
    using assms ConvertVector_roundtrip[OF assms(1)]
    by (simp add: VectorPolyMulNTT_def Let_def INTT_NTT) (simp add: ConvertVectorToNTT_def)
qed

end

section \<open>Rank\<close>

text \<open>The linear combination of rows with coefficients \<open>cs\<close>, at column \<open>j\<close>; rows are
  independent modulo \<open>q\<close> when only the zero combination vanishes.\<close>

definition lincomb :: "int list \<Rightarrow> int list list \<Rightarrow> nat \<Rightarrow> int" where
  "lincomb cs rows j = sum_list (map2 (\<lambda>c row. c * row ! j) cs rows)"

definition vanishes :: "int \<Rightarrow> nat \<Rightarrow> int list \<Rightarrow> int list list \<Rightarrow> bool" where
  "vanishes q cols cs rows \<longleftrightarrow> length cs = length rows \<and> (\<forall>j < cols. lincomb cs rows j mod q = 0)"

definition independent :: "int \<Rightarrow> nat \<Rightarrow> int list list \<Rightarrow> bool" where
  "independent q cols rows \<longleftrightarrow> (\<forall>cs. vanishes q cols cs rows \<longrightarrow> (\<forall>c \<in> set cs. c mod q = 0))"

definition reduced :: "int \<Rightarrow> nat \<Rightarrow> int list \<Rightarrow> bool" where
  "reduced q cols row \<longleftrightarrow> length row = cols \<and> (\<forall>x \<in> set row. 0 \<le> x \<and> x < q)"

lemma first_nonzero_None: "first_nonzero j xs = None \<longleftrightarrow> (\<forall>x \<in> set xs. x = 0)"
  by (induction xs arbitrary: j) auto

lemma first_nonzero_Some: "first_nonzero j xs = Some p \<Longrightarrow> j \<le> p \<and> p - j < length xs \<and> xs ! (p - j) \<noteq> 0"
proof (induction xs arbitrary: j)
  case (Cons x xs)
  show ?case
  proof (cases "x = 0")
    case True
    then have "Suc j \<le> p \<and> p - Suc j < length xs \<and> xs ! (p - Suc j) \<noteq> 0" using Cons by auto
    moreover from this have "p - j = Suc (p - Suc j)" by arith
    ultimately show ?thesis by simp
  qed (use Cons in auto)
qed simp

lemma lincomb_Cons [simp]: "lincomb (c # cs) (r # rs) j = c * r ! j + lincomb cs rs j"
  by (simp add: lincomb_def)

lemma lincomb_Nil [simp]: "lincomb cs [] j = 0" "lincomb [] rs j = 0"
  by (simp_all add: lincomb_def)

lemma eliminate_nth:
  assumes "reduced q cols mk" "length mi = cols" "j < cols"
  shows "(eliminate q p mi mk ! j) mod q = (mk ! j - mk ! p * mi ! j) mod q"
  using assms by (auto simp: eliminate_def reduced_def)

lemma reduced_eliminate: "0 < q \<Longrightarrow> reduced q cols mk \<Longrightarrow> length mi = cols \<Longrightarrow> reduced q cols (eliminate q p mi mk)"
  by (auto simp: eliminate_def reduced_def set_zip)

lemma lincomb_eliminate:
  assumes "\<forall>mk \<in> set rows. reduced q cols mk" "length mi = cols" "j < cols" "length cs = length rows"
  shows "lincomb cs (map (eliminate q p mi) rows) j mod q
    = (lincomb cs rows j - lincomb cs rows p * mi ! j) mod q"
  using assms(4,1)
proof (induction cs rows rule: list_induct2)
  case (Cons c cs r rs)
  have "(c * (eliminate q p mi r ! j)) mod q = (c * (r ! j - r ! p * mi ! j)) mod q"
    using eliminate_nth[of q cols r mi j p] Cons.prems assms(2,3) by (metis list.set_intros(1) mod_mult_right_eq)
  then have "(c * (eliminate q p mi r ! j) + lincomb cs (map (eliminate q p mi) rs) j) mod q
      = (c * (r ! j - r ! p * mi ! j) + (lincomb cs rs j - lincomb cs rs p * mi ! j)) mod q"
    by (rule mod_add_cong) (use Cons in simp)
  then show ?case by (simp add: algebra_simps)
qed simp

lemma prime_mod_unit_cancel:
  assumes "1 < q" "(g * i) mod q = 1" "(x * g) mod q = 0" shows "x mod (q::int) = 0"
proof -
  have "x mod q = (x * (g * i)) mod q" using assms(2) by (metis mod_mult_right_eq mult.right_neutral)
  also have "\<dots> = ((x * g) mod q * i) mod q" by (simp add: mod_mult_left_eq mult.assoc)
  also have "\<dots> = 0" using assms(3) by simp
  finally show ?thesis .
qed

text \<open>One elimination step keeps independence, in both directions.\<close>

lemma pivot_mul:
  assumes "length r = cols" "mi = map (\<lambda>x. (x * i) mod q) r" "j < cols"
  shows "(x * mi ! j) mod q = (x * i * r ! j) mod (q :: int)"
proof -
  have "mi ! j mod q = (r ! j * i) mod q" using assms by simp
  then show ?thesis by (metis mod_mult_right_eq mult.assoc mult.commute)
qed

lemma independent_eliminate:
  assumes q: "1 < q" and rows: "\<forall>mk \<in> set rows. reduced q cols mk" and r: "length r = cols"
    and p: "p < cols" and inv: "(r ! p * i) mod q = 1" and mi_def: "mi = map (\<lambda>x. (x * i) mod q) r"
    and ind: "independent q cols (r # rows)"
  shows "independent q cols (map (eliminate q p mi) rows)"
  unfolding independent_def
proof (intro allI impI)
  note mul = pivot_mul[OF r mi_def]
  have mi: "length mi = cols" by (simp add: mi_def r)
  fix cs assume v: "vanishes q cols cs (map (eliminate q p mi) rows)"
  then have l: "length cs = length rows" by (simp add: vanishes_def)
  let ?c = "- (lincomb cs rows p * i)"
  have "lincomb (?c # cs) (r # rows) j mod q = 0" if j: "j < cols" for j
  proof -
    have "0 = (lincomb cs rows j - lincomb cs rows p * mi ! j) mod q"
      unfolding lincomb_eliminate[OF rows mi j l, of p, symmetric] using v j by (simp add: vanishes_def)
    also have "\<dots> = (lincomb cs rows j - lincomb cs rows p * i * r ! j) mod q"
      by (rule mod_diff_cong[OF refl mul[OF j]])
    finally show ?thesis by simp
  qed
  then have "vanishes q cols (?c # cs) (r # rows)" using l by (simp add: vanishes_def)
  then show "\<forall>c \<in> set cs. c mod q = 0" using ind unfolding independent_def by (metis list.set_intros(2))
qed

lemma independent_eliminated:
  assumes q: "1 < q" and rows: "\<forall>mk \<in> set rows. reduced q cols mk" and r: "length r = cols"
    and p: "p < cols" and inv: "(r ! p * i) mod q = 1" and mi_def: "mi = map (\<lambda>x. (x * i) mod q) r"
    and ind: "independent q cols (map (eliminate q p mi) rows)"
  shows "independent q cols (r # rows)"
  unfolding independent_def
proof (intro allI impI)
  note mul = pivot_mul[OF r mi_def]
  have mi: "length mi = cols" by (simp add: mi_def r)
  fix cs assume v: "vanishes q cols cs (r # rows)"
  then obtain c cs' where cs: "cs = c # cs'" "length cs' = length rows"
    by (cases cs) (auto simp: vanishes_def)
  have z: "(c * r ! j + lincomb cs' rows j) mod q = 0" if "j < cols" for j
    using v that by (simp add: vanishes_def cs)
  have at_p: "(lincomb cs' rows p * mi ! j) mod q = (- (c * r ! j)) mod q" if j: "j < cols" for j
  proof -
    have "(lincomb cs' rows p) mod q = (- (c * r ! p)) mod q"
      using z[OF p] by (simp add: mod_eq_dvd_iff mod_eq_0_iff_dvd add.commute)
    then have "(lincomb cs' rows p * mi ! j) mod q = (- (c * r ! p) * mi ! j) mod q"
      by (metis mod_mult_left_eq)
    also have "\<dots> = (- (c * r ! p) * i * r ! j) mod q" by (rule mul[OF j])
    also have "- (c * r ! p) * i * r ! j = - (c * r ! j) * (r ! p * i)" by (simp add: mult_ac)
    also have "\<dots> mod q = (- (c * r ! j) * 1) mod q" using inv q by (metis mod_mult_right_eq)
    finally show ?thesis by simp
  qed
  have "lincomb cs' (map (eliminate q p mi) rows) j mod q = 0" if j: "j < cols" for j
  proof -
    have "lincomb cs' (map (eliminate q p mi) rows) j mod q = (lincomb cs' rows j - lincomb cs' rows p * mi ! j) mod q"
      by (rule lincomb_eliminate[OF rows mi j cs(2)])
    also have "\<dots> = (lincomb cs' rows j - - (c * r ! j)) mod q"
      by (rule mod_diff_cong[OF refl at_p[OF j]])
    also have "\<dots> = 0" using z[OF j] by (simp add: add.commute)
    finally show ?thesis .
  qed
  then have "vanishes q cols cs' (map (eliminate q p mi) rows)" using cs(2) by (simp add: vanishes_def)
  then have c0: "\<forall>c \<in> set cs'. c mod q = 0" using ind by (simp add: independent_def)
  have "lincomb cs' rows p mod q = 0"
    using cs(2) c0
  proof (induction cs' rows rule: list_induct2)
    case (Cons c cs r rs)
    then have "q dvd c" "q dvd lincomb cs rs p" by (auto simp: mod_eq_0_iff_dvd)
    then show ?case by (simp add: mod_eq_0_iff_dvd)
  qed simp
  then have "(c * r ! p) mod q = 0"
    using z[OF p] by (simp add: mod_eq_0_iff_dvd dvd_add_left_iff)
  then have "c mod q = 0" by (rule prime_mod_unit_cancel[OF q inv])
  then show "\<forall>c \<in> set cs. c mod q = 0" using c0 cs by simp
qed

lemma independent_step:
  assumes "1 < q" "\<forall>mk \<in> set rows. reduced q cols mk" "length r = cols" "p < cols" "(r ! p * i) mod q = 1"
  defines "mi \<equiv> map (\<lambda>x. (x * i) mod q) r"
  shows "independent q cols (r # rows) \<longleftrightarrow> independent q cols (map (eliminate q p mi) rows)"
  using independent_eliminate[OF assms(1-5) refl] independent_eliminated[OF assms(1-5) refl] unfolding mi_def by blast

lemma independent_zero_row:
  assumes "1 < q" "\<forall>x \<in> set r. x = 0" "length r = cols"
  shows "\<not> independent q cols (r # rows)"
proof
  assume ind: "independent q cols (r # rows)"
  let ?cs = "1 # replicate (length rows) 0"
  have z: "lincomb (replicate n 0) rs j = 0" for n rs j
    by (induction n arbitrary: rs) (simp, metis add_0 lincomb_Cons lincomb_Nil(1) list.exhaust mult_zero_left replicate_Suc)
  have "r ! j = 0" if "j < cols" for j using assms(2,3) that by (metis nth_mem)
  then have "vanishes q cols ?cs (r # rows)" using z by (simp add: vanishes_def)
  then have "(1::int) mod q = 0" using ind unfolding independent_def by (metis list.set_intros(1))
  then show False using assms(1) by simp
qed

lemma gauss_rows_spec:
  assumes "prime_mod q" "\<forall>row \<in> set rows. reduced q cols row"
  shows "gauss_rows q rows = Inr (independent q cols rows)"
  using assms(2)
proof (induction "length rows" arbitrary: rows)
  case 0
  then show ?case by (auto simp: independent_def vanishes_def)
next
  case (Suc n)
  obtain r rest where rows: "rows = r # rest" using Suc.hyps(2) by (cases rows) auto
  have q: "1 < q" by (rule prime_modD[OF assms(1)])
  have r: "length r = cols" "\<forall>x \<in> set r. 0 \<le> x \<and> x < q" using Suc.prems rows by (auto simp: reduced_def)
  show ?case
  proof (cases "first_nonzero 0 r")
    case None
    then have "\<forall>x \<in> set r. x = 0" by (simp only: first_nonzero_None)
    then show ?thesis using None independent_zero_row[OF q _ r(1)] by (simp add: rows)
  next
    case (Some p)
    then have p: "p < cols" "r ! p \<noteq> 0" using first_nonzero_Some[OF Some] r by auto
    then have "0 < r ! p" "r ! p < q" using r by (auto simp: order.order_iff_strict)
    then have "\<not> q dvd r ! p" by (simp add: zdvd_not_zless)
    then obtain i where i: "ModInverse (r ! p) q = Some i"
      using ModInverse_exists[OF q prime_mod_coprime[OF assms(1)]] by blast
    let ?mi = "map (\<lambda>x. (x * i) mod q) r"
    have red: "\<forall>row \<in> set (map (eliminate q p ?mi) rest). reduced q cols row"
      using Suc.prems rows r q by (auto intro!: reduced_eliminate)
    have "gauss_rows q rows = gauss_rows q (map (eliminate q p ?mi) rest)"
      by (simp add: rows Some i Let_def)
    also have "\<dots> = Inr (independent q cols (map (eliminate q p ?mi) rest))"
      by (rule Suc.hyps(1)[OF _ red]) (use Suc.hyps(2) rows in simp)
    also have "independent q cols (map (eliminate q p ?mi) rest) = independent q cols rows"
      unfolding rows using Suc.prems rows p(1) r(1) ModInverse_Some(3)[OF q i]
      by (intro independent_step[symmetric, OF q]) auto
    finally show ?thesis .
  qed
qed

section \<open>Properties\<close>

lemma GaussianEliminationModQ_rank:
  assumes "prime_mod q" "mat \<noteq> []" "\<forall>row \<in> set mat. reduced q (length (hd mat)) row"
  shows "GaussianEliminationModQ mat q = Inr (independent q (length (hd mat)) mat)"
proof -
  have len: "length row = length (hd mat)" if "row \<in> set mat" for row
    using assms(3) that by (simp add: reduced_def)
  have "map (take (length (hd mat))) mat = mat" by (intro map_idI) (metis len take_all order_refl)
  moreover have "\<forall>row \<in> set mat. length (hd mat) \<le> length row" by (metis len order_refl)
  ultimately have "copyMat mat = Inr mat" unfolding copyMat_def using assms(2) by presburger
  then show ?thesis using gauss_rows_spec[OF assms(1,3)] by (simp add: GaussianEliminationModQ_def)
qed

text \<open>
  C21: the rank check is exact. For a non-empty matrix whose rows all have the length of
  the first and entries in \<open>[0, q)\<close>, \<^verbatim>\<open>GaussianEliminationModQ\<close> over a prime \<open>q\<close>
  never dereferences a nil inverse and returns true exactly when the rows are linearly
  independent modulo \<open>q\<close>.
\<close>

theorem gaussian_elimination_rank:
  assumes "prime_mod q" "mat \<noteq> []" "\<forall>row \<in> set mat. reduced q (length (hd mat)) row"
  shows "GaussianEliminationModQ mat q = Inr (independent q (length (hd mat)) mat)"
  by (rule GaussianEliminationModQ_rank[OF assms])

theorem gaussian_elimination_rank_witness:
  "GaussianEliminationModQ [[1, 2], [3, 4]] corona_q = Inr (independent corona_q 2 [[1, 2], [3, 4]])"
  using gaussian_elimination_rank[OF corona_q_prime, of "[[1, 2], [3, 4]]"]
  by (simp add: reduced_def corona_q_def numeral_2_eq_2)

text \<open>The constant-time comparison returns 1 exactly on equal polynomials, shapes
  included, and 0 otherwise.\<close>

lemma ConstantTimePolyEqual_eq:
  "ConstantTimePolyEqual a b = (if a = b then 1 else 0)"
  using ConstantTimePolyEqual_fold[of a b 1] by (auto simp: ConstantTimePolyEqual_def)

text \<open>
  The transform-based matrix-vector product. On reduced inputs of matching shapes
  \<^verbatim>\<open>MatrixVectorMulNTT\<close> fills the result with the inner products of the rows with the
  vector in the ring and leaves the matrix and the vector, which it transforms in place
  and back, as they were.
\<close>

theorem matrix_vector_mul_ntt:
  assumes "lattice_ring rg" "mvalid rg M" "vvalid rg v"
    and "\<forall>row \<in> set M. length row \<le> length v" "length result = length M"
  shows "MatrixVectorMulNTT rg M v result = Inr (map (\<lambda>row. ring_dot rg row v) M, M, v)"
  by (rule lattice_ring.MatrixVectorMulNTT_spec[OF assms])

theorem matrix_vector_mul_ntt_witness:
  "MatrixVectorMulNTT ref_ring [[[[2, 0]], [[0, 1]]]] [[[3, 4]], [[1, 1]]] [[[0, 0]]] =
     Inr ([ring_dot ref_ring [[[2, 0]], [[0, 1]]] [[[3, 4]], [[1, 1]]]],
          [[[[2, 0]], [[0, 1]]]], [[[3, 4]], [[1, 1]]])"
  using matrix_vector_mul_ntt[of ref_ring "[[[[2, 0]], [[0, 1]]]]" "[[[3, 4]], [[1, 1]]]" "[[[0, 0]]]"]
  by (simp add: ref.lattice_ring_axioms mvalid_def pvalid_def corona_q_def)

lemma RestoreCoefficients_ok:
  assumes "coeff_ring r" "length p = 1" "length (hd p) = rN r"
  shows "RestoreCoefficients r p v = Inr [map (push_bit v) (hd p)]"
  using assms(2,3) coeff_ring.degree[OF assms(1)]
  by (auto simp: RestoreCoefficients_def Let_def coeff_ring.NewPoly[OF assms(1)])

lemma RoundCoefficients_ok:
  assumes "coeff_ring r" "length p = 1" "length (hd p) = rN r"
  shows "RoundCoefficients r p v = Inr [map (round_coeff v) (hd p)]"
  using assms(2,3) coeff_ring.degree[OF assms(1)]
  by (auto simp: RoundCoefficients_def Let_def coeff_ring.NewPoly[OF assms(1)])

lemma rounding_core:
  fixes c :: u64
  assumes "uint c < corona_q" "v \<in> {29, 30}"
  shows "unat (round_coeff v c) = (unat c + 2 ^ (v - 1)) div 2 ^ v \<and>
    unat (round_coeff v c) \<le> 2 ^ (48 - v) \<and>
    (unat (round_coeff v c) = 2 ^ (48 - v) \<longleftrightarrow> 2 ^ 48 - 2 ^ (v - 1) \<le> unat c) \<and>
    unat (push_bit v (round_coeff v c)) = unat (round_coeff v c) * 2 ^ v \<and>
    abs (int (unat (push_bit v (round_coeff v c))) - int (unat c)) \<le> 2 ^ (v - 1)"
proof -
  have c: "unat c < 281474976729601"
  proof -
    have "int (unat c) < int 281474976729601" using assms(1) by (simp add: corona_q_def)
    then show ?thesis by (simp only: of_nat_less_iff)
  qed
  have r: "unat (round_coeff v c) = (unat c + 2 ^ (v - 1)) div 2 ^ v"
    using assms(2) c by (intro round_coeff_unat) auto
  have b: "unat (round_coeff v c) \<le> 2 ^ (48 - v)"
    unfolding r using assms(2) c by auto
  have "unat (push_bit v (round_coeff v c)) = unat (round_coeff v c) * 2 ^ v"
    using b assms(2) by (auto simp: push_bit_eq_mult unat_word_ariths)
  moreover have "unat (round_coeff v c) = 2 ^ (48 - v) \<longleftrightarrow> 2 ^ 48 - 2 ^ (v - 1) \<le> unat c"
    unfolding r using assms(2) c by auto
  moreover have "abs (int (unat (round_coeff v c) * 2 ^ v) - int (unat c)) \<le> 2 ^ (v - 1)"
    unfolding r using assms(2) round_distance[of "2 ^ 28" "unat c"] round_distance[of "2 ^ 29" "unat c"] by auto
  ultimately show ?thesis using r b by simp
qed

text \<open>What rounding by \<open>v\<close> bits to \<open>y\<close> and restoring to \<open>z\<close> make of a coefficient \<open>c\<close>.\<close>

definition round_restored :: "nat \<Rightarrow> u64 \<Rightarrow> u64 \<Rightarrow> u64 \<Rightarrow> bool" where
  "round_restored v c y z \<longleftrightarrow>
     unat y = (unat c + 2 ^ (v - 1)) div 2 ^ v \<and> unat y \<le> 2 ^ (48 - v) \<and>
     (unat y = 2 ^ (48 - v) \<longleftrightarrow> 2 ^ 48 - 2 ^ (v - 1) \<le> unat c) \<and>
     unat z = unat y * 2 ^ v \<and> abs (int (unat z) - int (unat c)) \<le> 2 ^ (v - 1)"

lemma rounding_restored:
  "uint c < corona_q \<Longrightarrow> v \<in> {29, 30} \<Longrightarrow>
    round_restored v c (round_coeff v c) (push_bit v (round_coeff v c))"
  unfolding round_restored_def using rounding_core[of c v] by blast

text \<open>
  C22: rounding. For a polynomial over the scheme's modulus and the two rounding widths (29 and
  30 bits), \<^verbatim>\<open>RoundCoefficients\<close> followed by \<^verbatim>\<open>RestoreCoefficients\<close> returns, on any two rings of
  that degree, and at every coefficient the 64-bit addition does not wrap, the rounded value is
  the quotient rounded to nearest, and the restored coefficient is that value times \<open>2 ^ v\<close>,
  which differs from the original one by at most half a step. The rounded value is at most
  \<open>2 ^ (48 - v)\<close>, and this bound is reached: exactly the coefficients from
  \<open>2 ^ 48 - 2 ^ (v - 1)\<close> on round to \<open>2 ^ (48 - v)\<close> itself, which is not a residue modulo
  \<open>QNu = 2 ^ 19\<close> (respectively \<open>QXi = 2 ^ 18\<close>).
\<close>

theorem rounding_bounds:
  assumes "coeff_ring newRing" "coeff_ring rg" "rN newRing = N" "rN rg = N"
    and "pvalid corona_q N p" "v \<in> {29, 30}"
  shows "\<exists>ys zs. RoundCoefficients newRing p v = Inr [ys] \<and> RestoreCoefficients rg [ys] v = Inr [zs] \<and>
    length ys = N \<and> length zs = N \<and>
    (\<forall>k < N. round_restored v (hd p ! k) (ys ! k) (zs ! k))"
proof -
  have p: "length p = 1" "length (hd p) = N" "\<And>k. k < N \<Longrightarrow> uint (hd p ! k) < corona_q"
    using assms(5) by (auto simp: pvalid_def)
  define ys zs where "ys = map (round_coeff v) (hd p)" and "zs = map (push_bit v) ys"
  have "RoundCoefficients newRing p v = Inr [ys]"
    using RoundCoefficients_ok[OF assms(1) p(1)] p(2) assms(3) by (simp add: ys_def)
  moreover have "RestoreCoefficients rg [ys] v = Inr [zs]"
    using RestoreCoefficients_ok[OF assms(2), of "[ys]"] p(2) assms(4) by (simp add: ys_def zs_def)
  moreover have "round_restored v (hd p ! k) (ys ! k) (zs ! k)" if "k < N" for k
    using rounding_restored[OF p(3)[OF that] assms(6)] that p(2) by (simp only: ys_def zs_def nth_map length_map)
  ultimately show ?thesis using p(2) ys_def zs_def by auto
qed

lemma round_restore_top:
  "RoundCoefficients (coeff_ops 524288 2) [[281474976710655, 5]] 29 = Inr [[524288, 0]]"
  "RestoreCoefficients ref_ring [[524288, 0]] 29 = Inr [[281474976710656, 0]]"
proof -
  have "round_coeff 29 281474976710655 = 524288" "round_coeff 29 5 = 0"
    by (simp_all add: round_coeff_def round_half_def push_bit_eq_mult drop_bit_eq_div)
  then show "RoundCoefficients (coeff_ops 524288 2) [[281474976710655, 5]] 29 = Inr [[524288, 0]]"
    using RoundCoefficients_ok[OF ref_nu.coeff_ring_axioms, of "[[281474976710655, 5]]" 29]
    by (simp add: coeff_ops_def)
  show "RestoreCoefficients ref_ring [[524288, 0]] 29 = Inr [[281474976710656, 0]]"
    using RestoreCoefficients_ok[OF ref.coeff_ring_axioms, of "[[524288, 0]]" 29] by (simp add: push_bit_eq_mult)
qed

theorem rounding_bounds_witness:
  "pvalid corona_q 2 [[281474976710655, 5]] \<and>
   RoundCoefficients (coeff_ops 524288 2) [[281474976710655, 5]] 29 = Inr [[524288, 0]] \<and>
   RestoreCoefficients ref_ring [[524288, 0]] 29 = Inr [[281474976710656, 0]] \<and>
   round_restored 29 281474976710655 524288 281474976710656 \<and> round_restored 29 5 0 0"
proof -
  have p: "pvalid corona_q 2 [[281474976710655, 5]]" by (simp add: pvalid_def corona_q_def)
  have n: "rN (coeff_ops 524288 2) = 2" "rN ref_ring = 2" by (simp_all add: coeff_ops_def)
  obtain ys zs where yz: "RoundCoefficients (coeff_ops 524288 2) [[281474976710655, 5]] 29 = Inr [ys]"
      "RestoreCoefficients ref_ring [ys] 29 = Inr [zs]"
      "\<And>k. k < 2 \<Longrightarrow> round_restored 29 (hd [[281474976710655, 5]] ! k) (ys ! k) (zs ! k)"
    using rounding_bounds[OF ref_nu.coeff_ring_axioms ref.coeff_ring_axioms n p, of 29] by auto
  have "ys = [524288, 0]" "zs = [281474976710656, 0]" using yz(1,2) round_restore_top by auto
  then show ?thesis using p round_restore_top yz(3)[of 0] yz(3)[of 1] by simp
qed

text \<open>
  The two remaining transform-based products do not multiply. On reduced inputs of
  matching shapes \<^verbatim>\<open>MatrixMatrixMulNTT\<close> and \<^verbatim>\<open>VectorPolyMulNTT\<close> return zero, whatever
  their factors are: the Montgomery conversion of the left factor into the scratch
  polynomial is commented out, and the scratch polynomial is zero.
\<close>

theorem ntt_products_are_zero:
  assumes "lattice_ring rg" "mvalid rg M1" "mvalid rg M2" "shapes_multiply M1 M2"
    and "\<forall>row \<in> set M2. length row = length (hd M2)" "length result = length M1"
    and "vvalid rg v" "pvalid (rModulus rg) (rN rg) p" "length w = length v"
  shows "MatrixMatrixMulNTT rg M1 M2 result =
      Inr (InitializeMatrix rg (length M1) (length (hd M2)), M1, M2) \<and>
    VectorPolyMulNTT rg v p w = Inr (InitializeVector rg (length v), v, p)"
  using lattice_ring.MatrixMatrixMulNTT_zero[OF assms(1-6)] lattice_ring.VectorPolyMulNTT_zero[OF assms(1,7-9)]
  by simp

theorem ntt_products_are_zero_witness:
  "MatrixMatrixMulNTT ref_ring [[[[2, 0]]]] [[[[3, 1]]]] [[]] = Inr ([[[[0, 0]]]], [[[[2, 0]]]], [[[[3, 1]]]]) \<and>
   VectorPolyMulNTT ref_ring [[[2, 0]]] [[3, 1]] [[[9, 9]]] = Inr ([[[0, 0]]], [[[2, 0]]], [[3, 1]])"
  using ntt_products_are_zero[of ref_ring "[[[[2, 0]]]]" "[[[[3, 1]]]]" "[[]]" "[[[2, 0]]]" "[[3, 1]]" "[[[9, 9]]]"]
  by (simp add: ref.lattice_ring_axioms mvalid_def pvalid_def corona_q_def shapes_multiply_def
      InitializeMatrix_def InitializeVector_def)

end
