(* ===== verification/Stream_Codec.thy ===== *)
theory Stream_Codec
  imports Corona_Prelude
begin

text \<open>
  The contract of an encoder whose output can be followed by more bytes: the decoder
  consumes exactly what the encoder wrote. Clients of the contract get injectivity and
  the absence of ambiguous concatenations, once, for every frame format of the
  packages. The formats themselves interpret \<open>stream_codec\<close> in their own theories.
\<close>

locale stream_codec =
  fixes valid :: "'a \<Rightarrow> bool" and enc :: "'a \<Rightarrow> bytes" and dec :: "bytes \<Rightarrow> ('a \<times> bytes) res"
  assumes dec_enc: "valid x \<Longrightarrow> dec (enc x @ rest) = Inr (x, rest)"
begin

lemma enc_append_inj:
  assumes "valid x" "valid y" "enc x @ r = enc y @ r'" shows "x = y \<and> r = r'"
proof -
  have "Inr (x, r) = dec (enc x @ r)" by (rule dec_enc[OF assms(1), symmetric])
  also have "\<dots> = Inr (y, r')" unfolding assms(3) by (rule dec_enc[OF assms(2)])
  finally show ?thesis by simp
qed

lemma enc_inj: "valid x \<Longrightarrow> valid y \<Longrightarrow> enc x = enc y \<Longrightarrow> x = y"
  using enc_append_inj[of x y "[]" "[]"] by simp

text \<open>A counted sequence of frames.\<close>

lemma repM_enc:
  "\<forall>x \<in> set xs. valid x \<Longrightarrow> repM dec (length xs) (concat (map enc xs) @ rest) = Inr (xs, rest)"
  by (induction xs) (auto simp: dec_enc)

lemma concat_enc_inj:
  assumes "\<forall>x \<in> set xs. valid x" "\<forall>y \<in> set ys. valid y" "length xs = length ys"
    and "concat (map enc xs) @ r = concat (map enc ys) @ r'"
  shows "xs = ys \<and> r = r'"
proof -
  have "Inr (xs, r) = repM dec (length xs) (concat (map enc xs) @ r)"
    by (rule repM_enc[OF assms(1), symmetric])
  also have "\<dots> = Inr (ys, r')" unfolding assms(3,4) by (rule repM_enc[OF assms(2)])
  finally show ?thesis by simp
qed

text \<open>Frames that are never empty need no count.\<close>

lemma frames_inj:
  assumes "\<forall>x \<in> set xs. valid x" "\<forall>y \<in> set ys. valid y" "\<And>x. valid x \<Longrightarrow> enc x \<noteq> []"
    and "concat (map enc xs) = concat (map enc ys)"
  shows "xs = ys"
  using assms(1,2,4)
proof (induction xs arbitrary: ys)
  case Nil
  then show ?case using assms(3) by (cases ys) auto
next
  case (Cons x xs)
  have "enc x \<noteq> []" using Cons.prems(1) by (intro assms(3)) simp
  then have "concat (map enc ys) \<noteq> []" unfolding Cons.prems(3)[symmetric] by simp
  then obtain y ys' where ys: "ys = y # ys'" by (cases ys) simp_all
  have v: "valid x" "valid y" using Cons.prems(1,2) ys by simp_all
  have "enc x @ concat (map enc xs) = enc y @ concat (map enc ys')" using Cons.prems(3) ys by simp
  then have e: "x = y \<and> concat (map enc xs) = concat (map enc ys')" by (rule enc_append_inj[OF v])
  have "xs = ys'"
    by (rule Cons.IH) (use Cons.prems(1,2) ys e in simp_all)
  then show ?case using e ys by simp
qed

end

text \<open>An encoder of fixed-width words.\<close>

definition dec_le64 :: "bytes \<Rightarrow> (u64 \<times> bytes) res" where
  "dec_le64 bs = rbind (ReadFull bs 8) (\<lambda>(b, rest). Inr (word_of_nat (le_val b), rest))"

definition dec_be32 :: "bytes \<Rightarrow> (u32 \<times> bytes) res" where
  "dec_be32 bs = rbind (ReadFull bs 4) (\<lambda>(b, rest). Inr (word_of_nat (be_val b), rest))"

definition dec_be64 :: "bytes \<Rightarrow> (u64 \<times> bytes) res" where
  "dec_be64 bs = rbind (ReadFull bs 8) (\<lambda>(b, rest). Inr (word_of_nat (be_val b), rest))"

interpretation le64c: stream_codec "\<lambda>_. True" le64 dec_le64
  by unfold_locales (simp add: dec_le64_def le_val_le64)

interpretation be32c: stream_codec "\<lambda>_. True" be32 dec_be32
  by unfold_locales (simp add: dec_be32_def be_val_be32)

interpretation be64c: stream_codec "\<lambda>_. True" be64 dec_be64
  by unfold_locales (simp add: dec_be64_def be_val_be64)

text \<open>Every block of eight bytes is the encoding of a word.\<close>

lemma le64_of_bytes: "length b = 8 \<Longrightarrow> le64 (word_of_nat (le_val b)) = b"
proof -
  assume b: "length b = 8"
  have "le_val b < 2 ^ 64" using le_val_bound[of b] b by simp
  then have "unat (word_of_nat (le_val b) :: u64) = le_val b"
    by (simp add: unat_of_nat)
  then show ?thesis using le_bytes_le_val[of b] b by (simp add: le64_def)
qed

lemma bytes_as_words:
  "length b = 8 * m \<Longrightarrow> \<exists>ws. length ws = m \<and> b = concat (map le64 ws)"
proof (induction m arbitrary: b)
  case (Suc m)
  then obtain ws where ws: "length ws = m" "drop 8 b = concat (map le64 ws)"
    using Suc.IH[of "drop 8 b"] Suc.prems by (metis diff_add_inverse length_drop mult_Suc_right)
  have "le64 (word_of_nat (le_val (take 8 b))) = take 8 b"
    using Suc.prems by (intro le64_of_bytes) simp
  then have "b = concat (map le64 (word_of_nat (le_val (take 8 b)) # ws))"
    using ws(2) by (metis append_take_drop_id concat.simps(2) list.simps(9))
  with ws(1) show ?case by (metis length_Cons)
qed simp

lemma words_as_rows:
  "length ws = m * n \<Longrightarrow> \<exists>rows. length rows = m \<and> (\<forall>row \<in> set rows. length row = n) \<and> ws = concat rows"
proof (induction m arbitrary: ws)
  case (Suc m)
  then obtain rows where r: "length rows = m" "\<forall>row \<in> set rows. length row = n" "drop n ws = concat rows"
    using Suc.IH[of "drop n ws"] Suc.prems by (metis diff_add_inverse length_drop mult_Suc)
  then have "ws = concat (take n ws # rows)" by (metis append_take_drop_id concat.simps(2))
  moreover have "length (take n ws) = n" using Suc.prems by simp
  ultimately show ?case using r by (metis length_Cons set_ConsD)
qed simp

lemma length_concat_le64 [simp]: "length (concat (map le64 ws)) = 8 * length ws"
  by (induction ws) auto

text \<open>A big-endian 32-bit length followed by that many bytes.\<close>

definition len_prefixed :: "bytes \<Rightarrow> bytes" where
  "len_prefixed p = be32 (word_of_nat (length p)) @ p"

definition dec_len_prefixed :: "bytes \<Rightarrow> (bytes \<times> bytes) res" where
  "dec_len_prefixed bs = rbind (dec_be32 bs) (\<lambda>(l, rest). ReadFull rest (unat l))"

lemma unat_length32: "length p < 2 ^ 32 \<Longrightarrow> unat (word_of_nat (length p) :: u32) = length p"
  unfolding unat_of_nat by simp

interpretation lenp: stream_codec "\<lambda>p. length p < 2 ^ 32" len_prefixed dec_len_prefixed
proof unfold_locales
  fix x rest :: bytes
  assume x: "length x < 2 ^ 32"
  have "dec_be32 (be32 (word_of_nat (length x)) @ x @ rest) = Inr (word_of_nat (length x), x @ rest)"
    by (rule be32c.dec_enc) simp
  then show "dec_len_prefixed (len_prefixed x @ rest) = Inr (x, rest)"
    using unat_length32[OF x] by (simp add: len_prefixed_def dec_len_prefixed_def)
qed

lemma len_prefixed_nonempty: "len_prefixed p \<noteq> []"
proof -
  have "length (len_prefixed p) \<ge> 4" by (simp add: len_prefixed_def)
  then show ?thesis by auto
qed

end
