(* ===== verification/Hash_Suite.thy ===== *)
theory Hash_Suite
  imports Stream_Codec
begin

text \<open>
  \<^verbatim>\<open>hash/\<close>: the hash profile every protocol package takes as an argument. The
  primitives (cSHAKE256, KMAC256, TupleHash256 and \<^verbatim>\<open>EncodeString\<close> of
  \<^verbatim>\<open>luxfi/mlwe/transcript\<close>, BLAKE3 of \<^verbatim>\<open>zeebo/blake3\<close>) are third-party and are the
  fields of \<open>xof\<close>; what the package owns is the domain tags and the layout of what is
  hashed.
\<close>

record xof =
  CShake256 :: "string \<Rightarrow> string \<Rightarrow> bytes \<Rightarrow> nat \<Rightarrow> bytes"
  TupleHash256 :: "bytes list \<Rightarrow> nat \<Rightarrow> string \<Rightarrow> bytes"
  KMAC256 :: "bytes \<Rightarrow> bytes \<Rightarrow> nat \<Rightarrow> string \<Rightarrow> bytes"
  EncodeString :: "bytes \<Rightarrow> bytes"
  blake3 :: "bytes \<Rightarrow> nat \<Rightarrow> bytes"
  blake3_keyed :: "bytes \<Rightarrow> bytes \<Rightarrow> nat \<Rightarrow> bytes"

text \<open>The interface \<^verbatim>\<open>HashSuite\<close>.\<close>

record hash_suite =
  hsID :: string
  hsHc :: "bytes \<Rightarrow> bytes"
  hsHu :: "bytes \<Rightarrow> nat \<Rightarrow> bytes"
  hsTranscriptHash :: "bytes list \<Rightarrow> bytes"
  hsPRF :: "bytes \<Rightarrow> bytes \<Rightarrow> nat \<Rightarrow> bytes"
  hsMAC :: "bytes \<Rightarrow> bytes \<Rightarrow> nat \<Rightarrow> bytes"
  hsDerivePairwise :: "bytes \<Rightarrow> bytes \<Rightarrow> bytes \<Rightarrow> u64 \<Rightarrow> u64 \<Rightarrow> int \<Rightarrow> int \<Rightarrow> nat \<Rightarrow> bytes"

text \<open>\<^verbatim>\<open>copy\<close> into a zeroed 32-byte array.\<close>

definition fixed32 :: "bytes \<Rightarrow> bytes" where
  "fixed32 b = take 32 b @ replicate (32 - length b) 0"

lemma length_fixed32 [simp]: "length (fixed32 b) = 32"
  by (simp add: fixed32_def)

lemma fixed32_id: "length b = 32 \<Longrightarrow> fixed32 b = b"
  by (simp add: fixed32_def)

text \<open>The smaller id first.\<close>

definition canon_pair :: "int \<Rightarrow> int \<Rightarrow> int \<times> int" where
  "canon_pair i j = (if i > j then (j, i) else (i, j))"

section \<open>Corona-SHA3\<close>

definition sha3_pairwise_msg :: "xof \<Rightarrow> bytes \<Rightarrow> bytes \<Rightarrow> u64 \<Rightarrow> u64 \<Rightarrow> int \<Rightarrow> int \<Rightarrow> bytes" where
  "sha3_pairwise_msg x chainID groupID eraID generation i j =
     (case canon_pair i j of (a, b) \<Rightarrow>
        EncodeString x chainID @ EncodeString x groupID @
        EncodeString x (be64 eraID) @ EncodeString x (be64 generation) @
        EncodeString x (be32 (word_of_int a)) @ EncodeString x (be32 (word_of_int b)))"

definition NewCoronaSHA3 :: "xof \<Rightarrow> hash_suite" where
  "NewCoronaSHA3 x = \<lparr>
     hsID = ''Corona-SHA3'',
     hsHc = (\<lambda>tr. CShake256 x '''' ''CORONA-HC-v1'' tr 32),
     hsHu = (\<lambda>tr outLen. CShake256 x '''' ''CORONA-HU-v1'' tr outLen),
     hsTranscriptHash = (\<lambda>parts. fixed32 (TupleHash256 x parts 32 ''CORONA-TRANSCRIPT-v1'')),
     hsPRF = (\<lambda>key msg outLen. KMAC256 x key msg outLen ''CORONA-PRF-v1''),
     hsMAC = (\<lambda>key msg outLen. KMAC256 x key msg outLen ''CORONA-MAC-v1''),
     hsDerivePairwise = (\<lambda>kex chainID groupID eraID generation i j outLen.
       KMAC256 x kex (sha3_pairwise_msg x chainID groupID eraID generation i j) outLen ''CORONA-PAIRWISE-v1'') \<rparr>"

section \<open>Corona-BLAKE3\<close>

definition blake3SizedKey :: "xof \<Rightarrow> bytes \<Rightarrow> bytes" where
  "blake3SizedKey x kex =
     (if length kex = 32 then kex
      else fixed32 (take 32 (blake3 x (str_bytes ''CORONA-KDF-KEY-v1'' @ kex) 32)))"

definition writeLen :: "bytes \<Rightarrow> bytes" where
  "writeLen d = be32 (word_of_nat (length d)) @ d"

definition blake3_transcript_msg :: "bytes list \<Rightarrow> bytes" where
  "blake3_transcript_msg parts = str_bytes ''CORONA-TRANSCRIPT-v1'' @
     concat (map (\<lambda>p. be32 (word_of_nat (length p)) @ p) parts)"

definition blake3_pairwise_msg :: "bytes \<Rightarrow> bytes \<Rightarrow> u64 \<Rightarrow> u64 \<Rightarrow> int \<Rightarrow> int \<Rightarrow> bytes" where
  "blake3_pairwise_msg chainID groupID eraID generation i j =
     (case canon_pair i j of (a, b) \<Rightarrow>
        str_bytes ''CORONA-PAIRWISE-v1'' @ writeLen chainID @ writeLen groupID @
        be64 eraID @ be64 generation @ be32 (word_of_int a) @ be32 (word_of_int b))"

definition NewCoronaBLAKE3 :: "xof \<Rightarrow> hash_suite" where
  "NewCoronaBLAKE3 x = \<lparr>
     hsID = ''Corona-BLAKE3'',
     hsHc = (\<lambda>tr. take 32 (blake3 x (str_bytes ''CORONA-HC-v1'' @ tr) 32)),
     hsHu = (\<lambda>tr outLen. blake3 x (str_bytes ''CORONA-HU-v1'' @ tr) outLen),
     hsTranscriptHash = (\<lambda>parts. fixed32 (take 32 (blake3 x (blake3_transcript_msg parts) 32))),
     hsPRF = (\<lambda>key msg outLen. blake3_keyed x (blake3SizedKey x key) (str_bytes ''CORONA-PRF-v1'' @ msg) outLen),
     hsMAC = (\<lambda>key msg outLen. blake3_keyed x (blake3SizedKey x key) (str_bytes ''CORONA-MAC-v1'' @ msg) outLen),
     hsDerivePairwise = (\<lambda>kex chainID groupID eraID generation i j outLen.
       blake3_keyed x (blake3SizedKey x kex) (blake3_pairwise_msg chainID groupID eraID generation i j) outLen) \<rparr>"

section \<open>Default and resolution\<close>

definition DefaultID :: string where
  "DefaultID = ''Corona-SHA3''"

definition LegacyBLAKE3ID :: string where
  "LegacyBLAKE3ID = ''Corona-BLAKE3''"

definition Default :: "xof \<Rightarrow> hash_suite" where
  "Default x = NewCoronaSHA3 x"

text \<open>A nil suite resolves to the default.\<close>

definition Resolve :: "xof \<Rightarrow> hash_suite option \<Rightarrow> hash_suite" where
  "Resolve x s = (case s of None \<Rightarrow> Default x | Some h \<Rightarrow> h)"

section \<open>The contract of a suite\<close>

text \<open>What the protocol packages rely on: a 32-byte transcript hash and a pairwise
  derivation that does not depend on who of the pair calls it.\<close>

locale suite_contract =
  fixes s :: hash_suite
  assumes transcript_len: "length (hsTranscriptHash s parts) = 32"
    and pairwise_sym: "hsDerivePairwise s kex c g e n i j L = hsDerivePairwise s kex c g e n j i L"
begin

text \<open>Two parties that share the key-exchange secret derive the same material.\<close>

lemma pairwise_agree: "kex = kex' \<Longrightarrow> hsDerivePairwise s kex c g e n i j L = hsDerivePairwise s kex' c g e n j i L"
  using pairwise_sym by simp

end

lemma canon_pair_commute: "canon_pair i j = canon_pair j i"
  by (auto simp: canon_pair_def)

interpretation sha3: suite_contract "NewCoronaSHA3 x" for x
  by unfold_locales (simp_all add: NewCoronaSHA3_def sha3_pairwise_msg_def canon_pair_commute)

interpretation blake3: suite_contract "NewCoronaBLAKE3 x" for x
  by unfold_locales (simp_all add: NewCoronaBLAKE3_def blake3_pairwise_msg_def canon_pair_commute)

section \<open>Injectivity of what is hashed\<close>

lemma writeLen_eq: "writeLen = len_prefixed"
  by (simp add: fun_eq_iff writeLen_def len_prefixed_def)

lemma u32_int_inj:
  "0 \<le> a \<Longrightarrow> a < 2 ^ 32 \<Longrightarrow> 0 \<le> b \<Longrightarrow> b < 2 ^ 32 \<Longrightarrow> (word_of_int a :: u32) = word_of_int b \<longleftrightarrow> a = b"
proof -
  assume r: "0 \<le> a" "a < 2 ^ 32" "0 \<le> b" "b < 2 ^ 32"
  have "uint (word_of_int a :: u32) = a" "uint (word_of_int b :: u32) = b"
    using r by (simp_all add: uint_word_of_int take_bit_int_eq_self)
  then show ?thesis by metis
qed

lemma append_len_inj: "length a = length c \<Longrightarrow> a @ b = c @ d \<longleftrightarrow> a = c \<and> b = d"
  by simp

lemma len_prefixed_append_inj:
  assumes "length a < 2 ^ 32" "length b < 2 ^ 32"
  shows "len_prefixed a @ r = len_prefixed b @ r' \<longleftrightarrow> a = b \<and> r = r'"
  using lenp.enc_append_inj[OF assms] by auto

section \<open>Properties\<close>

text \<open>
  C25: nothing is ambiguous in what the BLAKE3 suite hashes. Two lists of transcript
  parts (each below 4 GiB) with the same framed bytes are equal, and two pairwise
  derivations with the same keyed message agree in chain, group, era, generation and in
  the unordered pair of ids (ids as 32-bit values).
\<close>

theorem blake3_framing_injective:
  assumes "\<forall>p \<in> set ps. length p < 2 ^ 32" "\<forall>p \<in> set ps'. length p < 2 ^ 32"
    and "\<forall>b \<in> {c, c', g, g'}. length b < 2 ^ 32"
    and "\<forall>a \<in> {i, j, i', j'}. 0 \<le> a \<and> a < (2::int) ^ 32"
  shows "(blake3_transcript_msg ps = blake3_transcript_msg ps' \<longleftrightarrow> ps = ps') \<and>
    (blake3_pairwise_msg c g e n i j = blake3_pairwise_msg c' g' e' n' i' j' \<longleftrightarrow>
       c = c' \<and> g = g' \<and> e = e' \<and> n = n' \<and> {i, j} = {i', j'})"
proof
  have "concat (map len_prefixed ps) = concat (map len_prefixed ps') \<longleftrightarrow> ps = ps'"
    using lenp.frames_inj[OF assms(1,2) len_prefixed_nonempty] by blast
  then show "blake3_transcript_msg ps = blake3_transcript_msg ps' \<longleftrightarrow> ps = ps'"
    unfolding blake3_transcript_msg_def same_append_eq
    by (simp add: len_prefixed_def[abs_def])
  have l: "length c < 2 ^ 32" "length c' < 2 ^ 32" "length g < 2 ^ 32" "length g' < 2 ^ 32" using assms(3) by auto
  have r: "0 \<le> i" "i < 2 ^ 32" "0 \<le> j" "j < 2 ^ 32" "0 \<le> i'" "i' < 2 ^ 32" "0 \<le> j'" "j' < 2 ^ 32"
    using assms(4) by auto
  show "blake3_pairwise_msg c g e n i j = blake3_pairwise_msg c' g' e' n' i' j' \<longleftrightarrow>
       c = c' \<and> g = g' \<and> e = e' \<and> n = n' \<and> {i, j} = {i', j'}"
    unfolding blake3_pairwise_msg_def writeLen_eq canon_pair_def
    by (simp add: len_prefixed_append_inj[OF l(1,2)] len_prefixed_append_inj[OF l(3,4)] doubleton_eq_iff
        u32_int_inj[OF r(1,2,5,6)] u32_int_inj[OF r(1,2,7,8)] u32_int_inj[OF r(3,4,5,6)] u32_int_inj[OF r(3,4,7,8)])
       auto
qed

theorem blake3_framing_injective_witness:
  "blake3_transcript_msg [[1], [2, 3]] \<noteq> blake3_transcript_msg [[1, 2], [3]] \<and>
   blake3_pairwise_msg [1] [2] 3 4 5 6 = blake3_pairwise_msg [1] [2] 3 4 6 5"
  using blake3_framing_injective[of "[[1], [2, 3]]" "[[1, 2], [3]]" "[1]" "[1]" "[2]" "[2]" 5 6 6 5 3 4 3 4]
  by (simp add: doubleton_eq_iff)

text \<open>
  A nil suite is the production profile, and the two profiles cannot be confused by
  their identifiers; in either profile both members of a pair derive the same pairwise
  material, and transcript hashes are 32 bytes whatever the primitive returns.
\<close>

theorem suite_contract_holds:
  "Resolve x None = NewCoronaSHA3 x \<and> hsID (Resolve x None) = DefaultID \<and>
   hsID (NewCoronaBLAKE3 x) = LegacyBLAKE3ID \<and> DefaultID \<noteq> LegacyBLAKE3ID \<and>
   hsDerivePairwise (NewCoronaSHA3 x) kex c g e n i j L = hsDerivePairwise (NewCoronaSHA3 x) kex c g e n j i L \<and>
   hsDerivePairwise (NewCoronaBLAKE3 x) kex c g e n i j L = hsDerivePairwise (NewCoronaBLAKE3 x) kex c g e n j i L \<and>
   length (hsTranscriptHash (NewCoronaSHA3 x) parts) = 32 \<and> length (hsTranscriptHash (NewCoronaBLAKE3 x) parts) = 32"
  using sha3.pairwise_sym blake3.pairwise_sym sha3.transcript_len blake3.transcript_len
  by (auto simp: Resolve_def Default_def NewCoronaSHA3_def NewCoronaBLAKE3_def DefaultID_def LegacyBLAKE3ID_def)

end
