(* ===== verification/Wire.thy ===== *)
theory Wire
  imports Stream_Codec
begin

text \<open>
  \<^verbatim>\<open>wire/wire.go\<close>: the bounded walk over a lattice frame sent by a peer, before it is
  decoded. Counts are read as 64-bit words and the arithmetic on them is word
  arithmetic, as in the source. The grammar of the frames is the one the package
  documents.
\<close>

section \<open>The walk\<close>

definition MaxLatticeUintSliceLen :: nat where
  "MaxLatticeUintSliceLen = 4096"

definition MaxFrameBytes :: nat where
  "MaxFrameBytes = 16 * 1024 * 1024"

definition frameFits :: "bytes \<Rightarrow> unit res" where
  "frameFits frame = (if MaxFrameBytes < length frame then Inl ErrLimitExceeded else Inr ())"

definition noTrailing :: "bytes \<Rightarrow> unit res" where
  "noTrailing rest = (if length rest \<noteq> 0 then Inl ErrLimitExceeded else Inr ())"

definition takeCount :: "bytes \<Rightarrow> (u64 \<times> bytes) res" where
  "takeCount b =
     (if length b < 8 then Inl ErrLimitExceeded
      else let n = word_of_nat (le_val (take 8 b)); rest = drop 8 b in
        if n > word_of_nat (length rest) then Inl ErrLimitExceeded
        else if n > word_of_nat MaxLatticeUintSliceLen then Inl ErrLimitExceeded
        else Inr (n, rest))"

text \<open>\<^verbatim>\<open>walkPoly\<close>: the product is bounded by a division; slicing past the end panics.\<close>

definition walkPoly :: "bytes \<Rightarrow> bytes res" where
  "walkPoly b =
     rbind (takeCount b) (\<lambda>(levels, rest).
     rbind (takeCount rest) (\<lambda>(n, rest).
     let room = (word_of_nat (length rest) :: u64) div 8 in
     if n \<noteq> 0 \<and> levels > room div n then Inl ErrLimitExceeded
     else let off = levels * n * 8 in
       if length rest < unat off then Inl Panic else Inr (drop (unat off) rest)))"

fun walk_times :: "(bytes \<Rightarrow> bytes res) \<Rightarrow> nat \<Rightarrow> bytes \<Rightarrow> bytes res" where
  "walk_times f 0 rest = Inr rest"
| "walk_times f (Suc n) rest = rbind (f rest) (walk_times f n)"

definition walkVector :: "bytes \<Rightarrow> bytes res" where
  "walkVector b = rbind (takeCount b) (\<lambda>(count, rest). walk_times walkPoly (unat count) rest)"

definition ValidateVectorPolyFrame :: "bytes \<Rightarrow> unit res" where
  "ValidateVectorPolyFrame frame =
     rbind (frameFits frame) (\<lambda>_. rbind (walkVector frame) noTrailing)"

definition ValidatePolyFrame :: "bytes \<Rightarrow> unit res" where
  "ValidatePolyFrame frame =
     rbind (frameFits frame) (\<lambda>_. rbind (walkPoly frame) noTrailing)"

definition ValidateMatrixPolyFrame :: "bytes \<Rightarrow> unit res" where
  "ValidateMatrixPolyFrame frame =
     rbind (frameFits frame) (\<lambda>_.
     rbind (takeCount frame) (\<lambda>(rows, rest).
     rbind (walk_times walkVector (unat rows) rest) noTrailing))"

section \<open>The documented grammar\<close>

text \<open>A polynomial of \<open>length rows\<close> levels with \<open>n\<close> coefficients each; a vector; a
  matrix.\<close>

definition poly_frame :: "nat \<Rightarrow> u64 list list \<Rightarrow> bytes" where
  "poly_frame n rows = le64 (word_of_nat (length rows)) @ le64 (word_of_nat n) @ concat (map le64 (concat rows))"

definition poly_shape :: "nat \<times> u64 list list \<Rightarrow> bool" where
  "poly_shape = (\<lambda>(n, rows). n \<le> MaxLatticeUintSliceLen \<and> length rows \<le> MaxLatticeUintSliceLen \<and>
     (\<forall>row \<in> set rows. length row = n))"

definition vector_frame :: "(nat \<times> u64 list list) list \<Rightarrow> bytes" where
  "vector_frame ps = le64 (word_of_nat (length ps)) @ concat (map (\<lambda>(n, rows). poly_frame n rows) ps)"

definition vector_shape :: "(nat \<times> u64 list list) list \<Rightarrow> bool" where
  "vector_shape ps \<longleftrightarrow> length ps \<le> MaxLatticeUintSliceLen \<and> (\<forall>p \<in> set ps. poly_shape p)"

definition matrix_frame :: "(nat \<times> u64 list list) list list \<Rightarrow> bytes" where
  "matrix_frame vs = le64 (word_of_nat (length vs)) @ concat (map vector_frame vs)"

definition matrix_shape :: "(nat \<times> u64 list list) list list \<Rightarrow> bool" where
  "matrix_shape vs \<longleftrightarrow> length vs \<le> MaxLatticeUintSliceLen \<and> (\<forall>v \<in> set vs. vector_shape v)"

section \<open>What one count means\<close>

lemma max_word: "unat (word_of_nat MaxLatticeUintSliceLen :: u64) = 4096"
  by (simp add: MaxLatticeUintSliceLen_def)

lemma takeCount_Inr_iff:
  assumes "length b < 2 ^ 64"
  shows "takeCount b = Inr (n, rest) \<longleftrightarrow>
    b = le64 n @ rest \<and> unat n \<le> length rest \<and> unat n \<le> MaxLatticeUintSliceLen"
proof -
  have l: "unat (word_of_nat (length (drop 8 b)) :: u64) = length (drop 8 b)"
    using assms by (simp add: unat_of_nat)
  show ?thesis
  proof
    assume r: "takeCount b = Inr (n, rest)"
    then have b8: "8 \<le> length b" and n: "n = word_of_nat (le_val (take 8 b))" "rest = drop 8 b"
      and c: "n \<le> word_of_nat (length (drop 8 b))" "n \<le> word_of_nat MaxLatticeUintSliceLen"
      by (auto simp: takeCount_def Let_def not_less split: if_splits)
    have "le64 n = take 8 b" using b8 n(1) by (simp add: le64_of_bytes)
    then have "b = le64 n @ rest" using n(2) by simp
    then show "b = le64 n @ rest \<and> unat n \<le> length rest \<and> unat n \<le> MaxLatticeUintSliceLen"
      using c l n(2) max_word by (auto simp: word_le_nat_alt MaxLatticeUintSliceLen_def)
  next
    assume r: "b = le64 n @ rest \<and> unat n \<le> length rest \<and> unat n \<le> MaxLatticeUintSliceLen"
    have "word_of_nat (le_val (take 8 b)) = n" using r by (simp add: le_val_le64)
    then show "takeCount b = Inr (n, rest)"
      using r l max_word by (simp add: takeCount_def Let_def word_less_nat_alt MaxLatticeUintSliceLen_def)
  qed
qed

lemma takeCount_error: "takeCount b = Inl e \<Longrightarrow> e = ErrLimitExceeded"
  by (auto simp: takeCount_def Let_def split: if_splits)

text \<open>The division test: the product of two accepted counts does not wrap and fits.\<close>

lemma walk_room:
  fixes levels n :: u64
  assumes "unat levels \<le> 4096" "unat n \<le> 4096" "len < 2 ^ 64"
  shows "unat (levels * n * 8) = unat levels * unat n * 8"
    and "(n \<noteq> 0 \<and> levels > (word_of_nat len div 8) div n) \<longleftrightarrow> len < unat levels * unat n * 8"
proof -
  have m: "unat levels * unat n \<le> 4096 * 4096" using assms(1,2) by (rule mult_le_mono)
  then have "unat (levels * n) = unat levels * unat n"
    by (simp add: unat_word_ariths)
  then show u: "unat (levels * n * 8) = unat levels * unat n * 8"
    using m by (simp add: unat_word_ariths)
  have l: "unat (word_of_nat len :: u64) = len" using assms(3) by (simp add: unat_of_nat)
  have "levels > (word_of_nat len div 8) div n \<longleftrightarrow> unat levels > (len div 8) div unat n"
    using l by (simp add: word_less_nat_alt unat_div)
  moreover have "(len div 8) div unat n < unat levels \<longleftrightarrow> len < unat levels * unat n * 8" if "n \<noteq> 0"
  proof -
    have "0 < unat n" using that by (simp add: unat_gt_0)
    then have "(len div 8) div unat n < unat levels \<longleftrightarrow> len < unat levels * (unat n * 8)"
      by (simp add: div_mult2_eq[symmetric] mult.commute div_less_iff_less_mult)
    then show ?thesis by (simp add: mult.assoc)
  qed
  ultimately show "(n \<noteq> 0 \<and> levels > (word_of_nat len div 8) div n) \<longleftrightarrow> len < unat levels * unat n * 8"
    by (cases "n = 0") auto
qed

section \<open>The walk recognises the grammar\<close>

lemma length_poly_frame: "length (poly_frame n rows) = 16 + 8 * length (concat rows)"
  by (simp add: poly_frame_def)

lemma length_concat_rows: "\<forall>row \<in> set rows. length row = n \<Longrightarrow> length (concat rows) = length rows * n"
  by (induction rows) auto

lemma walkPoly_cases:
  assumes len: "length b < 2 ^ 64"
  shows "(\<exists>levels n rest. b = le64 levels @ le64 n @ rest \<and> unat levels \<le> 8 + length rest \<and>
        unat levels \<le> 4096 \<and> unat n \<le> length rest \<and> unat n \<le> 4096 \<and>
        unat levels * unat n * 8 \<le> length rest \<and>
        walkPoly b = Inr (drop (unat levels * unat n * 8) rest))
    \<or> walkPoly b = Inl ErrLimitExceeded"
proof (cases "takeCount b")
  case (Inl e)
  then show ?thesis using takeCount_error by (auto simp: walkPoly_def)
next
  case (Inr lr)
  then obtain levels r1 where t1: "takeCount b = Inr (levels, r1)" by (cases lr) auto
  then have b: "b = le64 levels @ r1" "unat levels \<le> length r1" "unat levels \<le> 4096"
    using takeCount_Inr_iff[OF len] by (auto simp: MaxLatticeUintSliceLen_def)
  show ?thesis
  proof (cases "takeCount r1")
    case (Inl e)
    then show ?thesis using t1 takeCount_error by (auto simp: walkPoly_def)
  next
    case (Inr nr)
    then obtain n rest where t2: "takeCount r1 = Inr (n, rest)" by (cases nr) auto
    have len1: "length r1 < 2 ^ 64" using len b(1) by simp
    then have r1: "r1 = le64 n @ rest" "unat n \<le> length rest" "unat n \<le> 4096"
      using takeCount_Inr_iff[OF len1] t2 by (auto simp: MaxLatticeUintSliceLen_def)
    have "length rest < 2 ^ 64" using len1 r1(1) by simp
    note room = walk_room[OF b(3) r1(3) this]
    show ?thesis
    proof (cases "length rest < unat levels * unat n * 8")
      case True
      then show ?thesis using t1 t2 room by (simp add: walkPoly_def)
    next
      case False
      then have "walkPoly b = Inr (drop (unat levels * unat n * 8) rest)"
        using t1 t2 room by (simp add: walkPoly_def Let_def)
      then show ?thesis using b r1 False
        by (intro disjI1 exI[of _ levels] exI[of _ n] exI[of _ rest]) auto
    qed
  qed
qed

lemma walkPoly_sound:
  assumes "length b < 2 ^ 64" "walkPoly b = Inr rest"
  shows "\<exists>n rows. poly_shape (n, rows) \<and> b = poly_frame n rows @ rest"
proof -
  obtain levels n r where w: "b = le64 levels @ le64 n @ r" "unat levels \<le> 4096" "unat n \<le> 4096"
    "unat levels * unat n * 8 \<le> length r" "rest = drop (unat levels * unat n * 8) r"
    using walkPoly_cases[OF assms(1)] unfolding assms(2) by (elim disjE exE conjE) simp_all
  let ?m = "unat levels * unat n"
  obtain ws where ws: "length ws = ?m" "take (?m * 8) r = concat (map le64 ws)"
    using bytes_as_words[of "take (?m * 8) r" ?m] w(4) by auto
  obtain rows where rows: "length rows = unat levels" "\<forall>row \<in> set rows. length row = unat n" "ws = concat rows"
    using words_as_rows[OF ws(1)] by auto
  have "r = concat (map le64 (concat rows)) @ rest"
    using ws(2) rows(3) w(5) by (metis append_take_drop_id)
  then have "b = poly_frame (unat n) rows @ rest" using w(1) rows(1) by (simp add: poly_frame_def)
  moreover have "poly_shape (unat n, rows)"
    using rows w(2,3) by (simp add: poly_shape_def MaxLatticeUintSliceLen_def)
  ultimately show ?thesis by blast
qed

lemma takeCount_frame:
  assumes "length (le64 (word_of_nat m) @ rest) < 2 ^ 64" "m \<le> MaxLatticeUintSliceLen" "m \<le> length rest"
  shows "takeCount (le64 (word_of_nat m) @ rest) = Inr (word_of_nat m, rest)"
    and "unat (word_of_nat m :: u64) = m"
proof -
  show u: "unat (word_of_nat m :: u64) = m"
    using assms(2) by (simp add: unat_of_nat MaxLatticeUintSliceLen_def)
  show "takeCount (le64 (word_of_nat m) @ rest) = Inr (word_of_nat m, rest)"
    unfolding takeCount_Inr_iff[OF assms(1)] u using assms by simp
qed

lemma walkPoly_complete:
  assumes "poly_shape (n, rows)" "rows \<noteq> []" "0 < n" "length (poly_frame n rows @ rest) < 2 ^ 64"
  shows "walkPoly (poly_frame n rows @ rest) = Inr rest"
proof -
  let ?b = "poly_frame n rows @ rest"
  let ?c = "concat (map le64 (concat rows)) @ rest"
  have sh: "n \<le> 4096" "length rows \<le> 4096" "\<forall>row \<in> set rows. length row = n"
    using assms(1) by (auto simp: poly_shape_def MaxLatticeUintSliceLen_def)
  have u: "unat (word_of_nat n :: u64) = n" "unat (word_of_nat (length rows) :: u64) = length rows"
    using sh(1,2) by (simp_all add: unat_of_nat)
  have lc: "length (concat (map le64 (concat rows))) = length rows * n * 8"
    by (simp add: length_concat_rows[OF sh(3)])
  have big: "n \<le> length rows * n * 8" "length rows \<le> length rows * n * 8"
  proof -
    have "1 \<le> length rows" "1 \<le> n" using assms(2,3) by (simp_all add: Suc_le_eq)
    then have "1 * n \<le> length rows * n" "length rows * 1 \<le> length rows * n" by (intro mult_le_mono order_refl; simp)+
    then show "n \<le> length rows * n * 8" "length rows \<le> length rows * n * 8" by simp_all
  qed
  have b: "?b = le64 (word_of_nat (length rows)) @ le64 (word_of_nat n) @ ?c" by (simp add: poly_frame_def)
  have t1: "takeCount ?b = Inr (word_of_nat (length rows), le64 (word_of_nat n) @ ?c)"
    unfolding b
  proof (rule takeCount_frame(1))
    show "length rows \<le> length (le64 (word_of_nat n) @ ?c)"
      using big(2) unfolding length_append lc by linarith
  qed (use assms(4) sh in \<open>simp_all only: b MaxLatticeUintSliceLen_def\<close>)
  have lt: "length (le64 (word_of_nat n) @ ?c) < 2 ^ 64" using assms(4) b by simp
  have t2: "takeCount (le64 (word_of_nat n) @ ?c) = Inr (word_of_nat n, ?c)"
  proof (rule takeCount_frame(1))
    show "n \<le> length ?c" using big(1) unfolding length_append lc by linarith
  qed (use lt sh in \<open>simp_all only: MaxLatticeUintSliceLen_def\<close>)
  have "length ?c < 2 ^ 64" using lt by simp
  note room = walk_room[of "word_of_nat (length rows)" "word_of_nat n", unfolded u, OF sh(2,1) this]
  have ge: "\<not> length ?c < length rows * n * 8" using lc by simp
  have "drop (length rows * n * 8) ?c = rest" using lc by simp
  then show ?thesis
    unfolding walkPoly_def t1 rbind.simps prod.case t2 Let_def room(2) room(1)
    using ge by (simp only: if_False)
qed

text \<open>Walking a counted sequence.\<close>

lemma walk_times_sound:
  assumes "walk_times f n b = Inr rest" "length b < L"
    and "\<And>b rest. length b < L \<Longrightarrow> f b = Inr rest \<Longrightarrow> \<exists>x. S x \<and> b = E x @ rest"
  shows "\<exists>xs. length xs = n \<and> (\<forall>x \<in> set xs. S x) \<and> b = concat (map E xs) @ rest"
  using assms(1,2)
proof (induction n arbitrary: b)
  case (Suc n)
  obtain b1 where b1: "f b = Inr b1" "walk_times f n b1 = Inr rest"
    using Suc.prems(1) by (auto simp: res_simps)
  obtain x where x: "S x" "b = E x @ b1" using assms(3)[OF Suc.prems(2) b1(1)] by blast
  have "length b1 < L" using x(2) Suc.prems(2) by simp
  from Suc.IH[OF b1(2) this] obtain xs where xs: "length xs = n" "\<forall>x \<in> set xs. S x" "b1 = concat (map E xs) @ rest"
    by blast
  show ?case by (rule exI[of _ "x # xs"]) (use x xs in auto)
qed simp

lemma walk_times_complete:
  assumes "length (concat (map E xs) @ rest) < L"
    and "\<And>x r. x \<in> set xs \<Longrightarrow> length (E x @ r) < L \<Longrightarrow> f (E x @ r) = Inr r"
  shows "walk_times f (length xs) (concat (map E xs) @ rest) = Inr rest"
  using assms by (induction xs) auto

lemma walk_times_error:
  assumes "walk_times f n b = Inl e" "length b < L"
    and "\<And>b. length b < L \<Longrightarrow> (\<exists>rest. f b = Inr rest \<and> length rest \<le> length b) \<or> f b = Inl e0"
  shows "e = e0"
  using assms(1,2)
proof (induction n arbitrary: b)
  case (Suc n)
  from assms(3)[OF Suc.prems(2)] show ?case
  proof (elim disjE exE conjE)
    fix rest assume r: "f b = Inr rest" "length rest \<le> length b"
    then show "e = e0" using Suc.IH[of rest] Suc.prems by simp
  next
    assume "f b = Inl e0"
    then show "e = e0" using Suc.prems by simp
  qed
qed simp

lemma walkPoly_total:
  "length b < 2 ^ 64 \<Longrightarrow> (\<exists>rest. walkPoly b = Inr rest \<and> length rest \<le> length b) \<or> walkPoly b = Inl ErrLimitExceeded"
  using walkPoly_cases[of b] by fastforce

lemma walkVector_sound:
  assumes "length b < 2 ^ 64" "walkVector b = Inr rest"
  shows "\<exists>ps. vector_shape ps \<and> b = vector_frame ps @ rest"
proof -
  obtain c r where t: "takeCount b = Inr (c, r)" and w: "walk_times walkPoly (unat c) r = Inr rest"
    using assms(2) by (auto simp: walkVector_def res_simps)
  have b: "b = le64 c @ r" "unat c \<le> 4096"
    using t takeCount_Inr_iff[OF assms(1)] by (auto simp: MaxLatticeUintSliceLen_def)
  have "\<exists>xs. length xs = unat c \<and> (\<forall>x \<in> set xs. poly_shape x) \<and> r = concat (map (\<lambda>(n, rows). poly_frame n rows) xs) @ rest"
    using w
  proof (rule walk_times_sound[where L = "2 ^ 64"])
    show "length r < 2 ^ 64" using assms(1) b by simp
    show "\<exists>x. poly_shape x \<and> b = (case x of (n, rows) \<Rightarrow> poly_frame n rows) @ rest"
      if "length b < 2 ^ 64" "walkPoly b = Inr rest" for b rest
      using walkPoly_sound[OF that] by force
  qed
  then obtain xs where xs: "length xs = unat c" "\<forall>x \<in> set xs. poly_shape x"
    "r = concat (map (\<lambda>(n, rows). poly_frame n rows) xs) @ rest" by blast
  have "b = vector_frame xs @ rest" using b xs by (simp add: vector_frame_def)
  moreover have "vector_shape xs" using xs b by (simp add: vector_shape_def MaxLatticeUintSliceLen_def)
  ultimately show ?thesis by blast
qed

text \<open>Honest frames have at least one level and one coefficient.\<close>

definition poly_honest :: "nat \<times> u64 list list \<Rightarrow> bool" where
  "poly_honest = (\<lambda>(n, rows). poly_shape (n, rows) \<and> rows \<noteq> [] \<and> 0 < n)"

definition vector_honest :: "(nat \<times> u64 list list) list \<Rightarrow> bool" where
  "vector_honest ps \<longleftrightarrow> length ps \<le> MaxLatticeUintSliceLen \<and> (\<forall>p \<in> set ps. poly_honest p)"

definition matrix_honest :: "(nat \<times> u64 list list) list list \<Rightarrow> bool" where
  "matrix_honest vs \<longleftrightarrow> length vs \<le> MaxLatticeUintSliceLen \<and> (\<forall>v \<in> set vs. vector_honest v)"

lemma length_concat_ge: "\<forall>x \<in> set xs. 1 \<le> length (E x) \<Longrightarrow> length xs \<le> length (concat (map E xs))"
  by (induction xs) auto

lemma walkVector_complete:
  assumes "vector_honest ps" "length (vector_frame ps @ rest) < 2 ^ 64"
  shows "walkVector (vector_frame ps @ rest) = Inr rest"
proof -
  let ?E = "\<lambda>(n, rows). poly_frame n rows" and ?c = "word_of_nat (length ps) :: u64"
  let ?r = "concat (map ?E ps) @ rest"
  have b: "vector_frame ps @ rest = le64 ?c @ ?r" by (simp add: vector_frame_def)
  have "length ps \<le> length (concat (map ?E ps))"
    by (rule length_concat_ge) (auto simp: length_poly_frame)
  then have t: "takeCount (le64 ?c @ ?r) = Inr (?c, ?r)" "unat ?c = length ps"
    using takeCount_frame[of "length ps" ?r] assms b by (auto simp: vector_honest_def)
  have "walk_times walkPoly (length ps) ?r = Inr rest"
  proof (rule walk_times_complete[where L = "2 ^ 64"])
    show "length ?r < 2 ^ 64" using assms(2) b by simp
    show "walkPoly (?E x @ r) = Inr r" if "x \<in> set ps" "length (?E x @ r) < 2 ^ 64" for x r
      using assms(1) that by (cases x) (auto simp: vector_honest_def poly_honest_def intro!: walkPoly_complete)
  qed
  then show ?thesis unfolding walkVector_def b t(1) by (simp add: t(2))
qed

lemma walkVector_total:
  assumes "length b < 2 ^ 64"
  shows "(\<exists>rest. walkVector b = Inr rest \<and> length rest \<le> length b) \<or> walkVector b = Inl ErrLimitExceeded"
proof (cases "walkVector b")
  case (Inr rest)
  then obtain ps where "b = vector_frame ps @ rest" using walkVector_sound[OF assms] by blast
  then show ?thesis using Inr by simp
next
  case (Inl e)
  show ?thesis
  proof (cases "takeCount b")
    case (Inl e)
    then show ?thesis using takeCount_error by (auto simp: walkVector_def)
  next
    case (Inr cr)
    then obtain c r where t: "takeCount b = Inr (c, r)" by (cases cr) auto
    then have "length r < 2 ^ 64" using takeCount_Inr_iff[OF assms] assms by auto
    moreover have "walk_times walkPoly (unat c) r = Inl e" using \<open>walkVector b = Inl e\<close> t by (simp add: walkVector_def)
    ultimately have "e = ErrLimitExceeded" using walk_times_error walkPoly_total by blast
    then show ?thesis using \<open>walkVector b = Inl e\<close> by simp
  qed
qed

section \<open>Properties\<close>

text \<open>
  C23: the frame validators are sound. A frame they accept is, byte for byte, the
  documented encoding of a polynomial, vector or matrix whose counts are all at most
  4096 and all backed by bytes of the frame, with no trailing bytes.
\<close>

theorem validate_frame_sound:
  "(ValidatePolyFrame frame = Inr () \<longrightarrow>
     length frame \<le> 16777216 \<and> (\<exists>n rows. poly_shape (n, rows) \<and> frame = poly_frame n rows)) \<and>
   (ValidateVectorPolyFrame frame = Inr () \<longrightarrow>
     length frame \<le> 16777216 \<and> (\<exists>ps. vector_shape ps \<and> frame = vector_frame ps)) \<and>
   (ValidateMatrixPolyFrame frame = Inr () \<longrightarrow>
     length frame \<le> 16777216 \<and> (\<exists>vs. matrix_shape vs \<and> frame = matrix_frame vs))"
proof (intro conjI impI)
  have fits: "length frame \<le> 16777216 \<and> length frame < 2 ^ 64" if "frameFits frame = Inr ()"
    using that by (auto simp: frameFits_def MaxFrameBytes_def split: if_splits)
  have nt: "noTrailing r = Inr () \<longleftrightarrow> r = []" for r by (simp add: noTrailing_def)
  {
    assume "ValidatePolyFrame frame = Inr ()"
    then have f: "frameFits frame = Inr ()" "walkPoly frame = Inr []"
      by (auto simp: ValidatePolyFrame_def res_simps nt)
    show "length frame \<le> 16777216" using fits[OF f(1)] by simp
    show "\<exists>n rows. poly_shape (n, rows) \<and> frame = poly_frame n rows"
      using walkPoly_sound[OF _ f(2)] fits[OF f(1)] by simp
  next
    assume "ValidateVectorPolyFrame frame = Inr ()"
    then have f: "frameFits frame = Inr ()" "walkVector frame = Inr []"
      by (auto simp: ValidateVectorPolyFrame_def res_simps nt)
    show "length frame \<le> 16777216" using fits[OF f(1)] by simp
    show "\<exists>ps. vector_shape ps \<and> frame = vector_frame ps"
      using walkVector_sound[OF _ f(2)] fits[OF f(1)] by simp
  next
    assume "ValidateMatrixPolyFrame frame = Inr ()"
    then obtain c r where f: "frameFits frame = Inr ()" "takeCount frame = Inr (c, r)"
      "walk_times walkVector (unat c) r = Inr []"
      by (auto simp: ValidateMatrixPolyFrame_def res_simps nt)
    show "length frame \<le> 16777216" using fits[OF f(1)] by simp
    have len: "length frame < 2 ^ 64" using fits[OF f(1)] by simp
    have b: "frame = le64 c @ r" "unat c \<le> MaxLatticeUintSliceLen"
      using f(2) takeCount_Inr_iff[OF len] by auto
    obtain vs where vs: "length vs = unat c" "\<forall>v \<in> set vs. vector_shape v" "r = concat (map vector_frame vs) @ []"
      using walk_times_sound[OF f(3), of "2 ^ 64" vector_shape vector_frame] len b(1) walkVector_sound by auto
    have "matrix_shape vs \<and> frame = matrix_frame vs"
      using vs b by (simp add: matrix_shape_def matrix_frame_def)
    then show "\<exists>vs. matrix_shape vs \<and> frame = matrix_frame vs" ..
  }
qed

definition ex_poly_frame :: bytes where
  "ex_poly_frame = poly_frame 2 [[7, 265]]"

theorem validate_frame_sound_witness:
  "ValidatePolyFrame ex_poly_frame = Inr () \<and>
   length ex_poly_frame \<le> 16777216 \<and> (\<exists>n rows. poly_shape (n, rows) \<and> ex_poly_frame = poly_frame n rows)"
proof -
  have "walkPoly (ex_poly_frame @ []) = Inr []"
    unfolding ex_poly_frame_def
    by (rule walkPoly_complete) (simp_all add: poly_shape_def MaxLatticeUintSliceLen_def length_poly_frame)
  then have "ValidatePolyFrame ex_poly_frame = Inr ()"
    by (simp add: ValidatePolyFrame_def frameFits_def MaxFrameBytes_def noTrailing_def ex_poly_frame_def length_poly_frame)
  with validate_frame_sound[of ex_poly_frame] show ?thesis by blast
qed

lemma validate_frames:
  "(poly_honest (n, rows) \<and> length (poly_frame n rows) \<le> 16777216 \<longrightarrow>
      ValidatePolyFrame (poly_frame n rows) = Inr ()) \<and>
   (vector_honest ps \<and> length (vector_frame ps) \<le> 16777216 \<longrightarrow>
      ValidateVectorPolyFrame (vector_frame ps) = Inr ()) \<and>
   (matrix_honest vs \<and> length (matrix_frame vs) \<le> 16777216 \<longrightarrow>
      ValidateMatrixPolyFrame (matrix_frame vs) = Inr ()) \<and>
   ValidatePolyFrame frame \<in> {Inr (), Inl ErrLimitExceeded} \<and>
   ValidateVectorPolyFrame frame \<in> {Inr (), Inl ErrLimitExceeded} \<and>
   ValidateMatrixPolyFrame frame \<in> {Inr (), Inl ErrLimitExceeded}"
proof (intro conjI impI)
  assume "poly_honest (n, rows) \<and> length (poly_frame n rows) \<le> 16777216"
  then show "ValidatePolyFrame (poly_frame n rows) = Inr ()"
    using walkPoly_complete[of n rows "[]"]
    by (simp add: ValidatePolyFrame_def frameFits_def MaxFrameBytes_def noTrailing_def poly_honest_def)
next
  assume "vector_honest ps \<and> length (vector_frame ps) \<le> 16777216"
  then show "ValidateVectorPolyFrame (vector_frame ps) = Inr ()"
    using walkVector_complete[of ps "[]"]
    by (simp add: ValidateVectorPolyFrame_def frameFits_def MaxFrameBytes_def noTrailing_def)
next
  assume h: "matrix_honest vs \<and> length (matrix_frame vs) \<le> 16777216"
  let ?r = "concat (map vector_frame vs)"
  have "length vs \<le> length ?r"
    by (rule length_concat_ge) (auto simp: vector_frame_def)
  then have t: "takeCount (matrix_frame vs) = Inr (word_of_nat (length vs), ?r)"
    "unat (word_of_nat (length vs) :: u64) = length vs"
    using takeCount_frame[of "length vs" ?r] h by (auto simp: matrix_honest_def matrix_frame_def)
  have "walk_times walkVector (length vs) (?r @ []) = Inr []"
    by (rule walk_times_complete[where L = "2 ^ 64"])
       (use h in \<open>auto simp: matrix_honest_def matrix_frame_def intro!: walkVector_complete\<close>)
  then show "ValidateMatrixPolyFrame (matrix_frame vs) = Inr ()"
    using h t by (simp add: ValidateMatrixPolyFrame_def frameFits_def MaxFrameBytes_def noTrailing_def)
next
  show "ValidatePolyFrame frame \<in> {Inr (), Inl ErrLimitExceeded}"
    using walkPoly_total[of frame]
    by (auto simp: ValidatePolyFrame_def frameFits_def MaxFrameBytes_def noTrailing_def split: if_splits)
  show "ValidateVectorPolyFrame frame \<in> {Inr (), Inl ErrLimitExceeded}"
    using walkVector_total[of frame]
    by (auto simp: ValidateVectorPolyFrame_def frameFits_def MaxFrameBytes_def noTrailing_def split: if_splits)
  show "ValidateMatrixPolyFrame frame \<in> {Inr (), Inl ErrLimitExceeded}"
  proof (cases "16777216 < length frame")
    case False
    then have len: "length frame < 2 ^ 64" by simp
    show ?thesis
    proof (cases "takeCount frame")
      case (Inl e)
      then show ?thesis using takeCount_error False
        by (auto simp: ValidateMatrixPolyFrame_def frameFits_def MaxFrameBytes_def)
    next
      case (Inr cr)
      obtain c r where cr: "cr = (c, r)" by fastforce
      then have r: "length r < 2 ^ 64" using Inr takeCount_Inr_iff[OF len] len by auto
      show ?thesis
        using walk_times_error[of walkVector "unat c" r _ "2 ^ 64" ErrLimitExceeded, OF _ r walkVector_total] Inr cr False
        by (cases "walk_times walkVector (unat c) r")
           (auto simp: ValidateMatrixPolyFrame_def frameFits_def MaxFrameBytes_def noTrailing_def split: if_splits)
    qed
  qed (simp add: ValidateMatrixPolyFrame_def frameFits_def MaxFrameBytes_def)
qed

text \<open>
  C24: the frame validators are complete and total. Every frame within the 16 MiB limit
  that encodes an honest polynomial, vector or matrix (counts at most 4096, at least one
  level and one coefficient per polynomial) is accepted; and on any frame at all the
  validators either accept or report \<^verbatim>\<open>ErrLimitExceeded\<close>: they never slice out of
  range and the products of counts never wrap.
\<close>

theorem validate_frame_complete:
  "(poly_honest (n, rows) \<and> length (poly_frame n rows) \<le> 16777216 \<longrightarrow>
      ValidatePolyFrame (poly_frame n rows) = Inr ()) \<and>
   (vector_honest ps \<and> length (vector_frame ps) \<le> 16777216 \<longrightarrow>
      ValidateVectorPolyFrame (vector_frame ps) = Inr ()) \<and>
   (matrix_honest vs \<and> length (matrix_frame vs) \<le> 16777216 \<longrightarrow>
      ValidateMatrixPolyFrame (matrix_frame vs) = Inr ()) \<and>
   ValidatePolyFrame frame \<in> {Inr (), Inl ErrLimitExceeded} \<and>
   ValidateVectorPolyFrame frame \<in> {Inr (), Inl ErrLimitExceeded} \<and>
   ValidateMatrixPolyFrame frame \<in> {Inr (), Inl ErrLimitExceeded}"
  by (rule validate_frames)

theorem validate_frame_complete_witness:
  "ValidateVectorPolyFrame (vector_frame [(2, [[7, 265]])]) = Inr ()"
  using validate_frame_complete[of 2 "[[7, 265]]" "[(2, [[7, 265]])]" "[]" "[]"]
  by (simp add: vector_honest_def poly_honest_def poly_shape_def MaxLatticeUintSliceLen_def
      vector_frame_def poly_frame_def)

end
