(* ===== verification/Lattice_Codec.thy ===== *)
theory Lattice_Codec
  imports Wire
begin

text \<open>
  The serialisation of lattice polynomials (\<^verbatim>\<open>WriteTo\<close>, \<^verbatim>\<open>MarshalBinary\<close> and
  \<^verbatim>\<open>UnmarshalBinary\<close> of \<^verbatim>\<open>ring.Poly\<close>, \<^verbatim>\<open>structs.Vector\<close> and \<^verbatim>\<open>structs.Matrix\<close>) is
  third-party code: the record \<open>lat_codec\<close>. Its documented format is the grammar of
  \<^verbatim>\<open>wire/wire.go\<close>; the locale \<open>lattice_codec\<close> says so, and a decoder written from the
  grammar satisfies it.
\<close>

record lat_codec =
  encPoly :: "poly \<Rightarrow> bytes res"
  encVector :: "vec \<Rightarrow> bytes res"
  encMatrix :: "matrix \<Rightarrow> bytes res"
  decPoly :: "bytes \<Rightarrow> poly res"
  decVector :: "bytes \<Rightarrow> vec res"
  decMatrix :: "bytes \<Rightarrow> matrix res"

text \<open>A polynomial with at least one level and one coefficient, all levels of one
  length.\<close>

definition poly_rect :: "poly \<Rightarrow> bool" where
  "poly_rect p \<longleftrightarrow> p \<noteq> [] \<and> hd p \<noteq> [] \<and> (\<forall>row \<in> set p. length row = length (hd p)) \<and>
     length p < 2 ^ 64 \<and> length (hd p) < 2 ^ 64"

definition vec_rect :: "vec \<Rightarrow> bool" where
  "vec_rect v \<longleftrightarrow> (\<forall>p \<in> set v. poly_rect p) \<and> length v < 2 ^ 64"

definition mat_rect :: "matrix \<Rightarrow> bool" where
  "mat_rect M \<longleftrightarrow> (\<forall>v \<in> set M. vec_rect v) \<and> length M < 2 ^ 64"

definition poly_shape_of :: "poly \<Rightarrow> nat \<times> u64 list list" where
  "poly_shape_of p = (length (hd p), p)"

definition poly_bytes :: "poly \<Rightarrow> bytes" where
  "poly_bytes p = poly_frame (length (hd p)) p"

definition vec_bytes :: "vec \<Rightarrow> bytes" where
  "vec_bytes v = vector_frame (map poly_shape_of v)"

definition mat_bytes :: "matrix \<Rightarrow> bytes" where
  "mat_bytes M = matrix_frame (map (map poly_shape_of) M)"

locale lattice_codec =
  fixes lc :: lat_codec
  assumes encPoly: "poly_rect p \<Longrightarrow> encPoly lc p = Inr (poly_bytes p)"
    and encVector: "vec_rect v \<Longrightarrow> encVector lc v = Inr (vec_bytes v)"
    and encMatrix: "mat_rect M \<Longrightarrow> encMatrix lc M = Inr (mat_bytes M)"
    and decPoly: "poly_rect p \<Longrightarrow> decPoly lc (poly_bytes p) = Inr p"
    and decVector: "vec_rect v \<Longrightarrow> decVector lc (vec_bytes v) = Inr v"
    and decMatrix: "mat_rect M \<Longrightarrow> decMatrix lc (mat_bytes M) = Inr M"
begin

lemma encVector_inj: "vec_rect v \<Longrightarrow> vec_rect w \<Longrightarrow> encVector lc v = encVector lc w \<Longrightarrow> v = w"
  using encVector decVector by (metis Inr_inject)

lemma encMatrix_inj: "mat_rect v \<Longrightarrow> mat_rect w \<Longrightarrow> encMatrix lc v = encMatrix lc w \<Longrightarrow> v = w"
  using encMatrix decMatrix by (metis Inr_inject)

end

section \<open>Decoders written from the grammar\<close>

definition dec_poly_frame :: "bytes \<Rightarrow> (poly \<times> bytes) res" where
  "dec_poly_frame bs =
     rbind (dec_le64 bs) (\<lambda>(levels, r1). rbind (dec_le64 r1) (\<lambda>(n, r2).
       repM (repM dec_le64 (unat n)) (unat levels) r2))"

definition dec_vector_frame :: "bytes \<Rightarrow> (vec \<times> bytes) res" where
  "dec_vector_frame bs = rbind (dec_le64 bs) (\<lambda>(c, r). repM dec_poly_frame (unat c) r)"

definition dec_matrix_frame :: "bytes \<Rightarrow> (matrix \<times> bytes) res" where
  "dec_matrix_frame bs = rbind (dec_le64 bs) (\<lambda>(c, r). repM dec_vector_frame (unat c) r)"

lemma unat_small64: "n < 2 ^ 64 \<Longrightarrow> unat (word_of_nat n :: u64) = n"
  unfolding unat_of_nat by simp

text \<open>Rows of \<open>n\<close> words are a codec of their own.\<close>

lemma row_codec: "stream_codec (\<lambda>row. length row = n) (\<lambda>row. concat (map le64 row)) (repM dec_le64 n)"
  by (unfold_locales) (use le64c.repM_enc in auto)

interpretation polyc: stream_codec poly_rect poly_bytes dec_poly_frame
proof unfold_locales
  fix p rest assume p: "poly_rect p"
  let ?n = "length (hd p)"
  have len: "\<forall>row \<in> set p. length row = ?n" using p unfolding poly_rect_def by blast
  have "repM (repM dec_le64 ?n) (length p) (concat (map (\<lambda>row. concat (map le64 row)) p) @ rest) = Inr (p, rest)"
    by (rule stream_codec.repM_enc[OF row_codec len])
  moreover have "concat (map (\<lambda>row. concat (map le64 row)) p) = concat (map le64 (concat p))"
    by (induction p) auto
  moreover have "unat (word_of_nat ?n :: u64) = ?n" "unat (word_of_nat (length p) :: u64) = length p"
    using p unfolding poly_rect_def by (blast intro: unat_small64)+
  ultimately show "dec_poly_frame (poly_bytes p @ rest) = Inr (p, rest)"
    by (simp add: dec_poly_frame_def poly_bytes_def poly_frame_def le64c.dec_enc)
qed

lemma vec_bytes_alt: "vec_bytes v = le64 (word_of_nat (length v)) @ concat (map poly_bytes v)"
  by (simp add: vec_bytes_def vector_frame_def comp_def poly_shape_of_def poly_bytes_def[abs_def])

lemma mat_bytes_alt: "mat_bytes M = le64 (word_of_nat (length M)) @ concat (map vec_bytes M)"
  by (simp add: mat_bytes_def matrix_frame_def comp_def vec_bytes_def[abs_def])

interpretation vecc: stream_codec vec_rect vec_bytes dec_vector_frame
proof unfold_locales
  fix v rest assume v: "vec_rect v"
  then have "repM dec_poly_frame (length v) (concat (map poly_bytes v) @ rest) = Inr (v, rest)"
    by (intro polyc.repM_enc) (simp add: vec_rect_def)
  moreover have "unat (word_of_nat (length v) :: u64) = length v"
    using v by (intro unat_small64) (simp add: vec_rect_def)
  ultimately show "dec_vector_frame (vec_bytes v @ rest) = Inr (v, rest)"
    by (simp add: dec_vector_frame_def vec_bytes_alt le64c.dec_enc)
qed

interpretation matc: stream_codec mat_rect mat_bytes dec_matrix_frame
proof unfold_locales
  fix M rest assume M: "mat_rect M"
  then have "repM dec_vector_frame (length M) (concat (map vec_bytes M) @ rest) = Inr (M, rest)"
    by (intro vecc.repM_enc) (simp add: mat_rect_def)
  moreover have "unat (word_of_nat (length M) :: u64) = length M"
    using M by (intro unat_small64) (simp add: mat_rect_def)
  ultimately show "dec_matrix_frame (mat_bytes M @ rest) = Inr (M, rest)"
    by (simp add: dec_matrix_frame_def mat_bytes_alt le64c.dec_enc)
qed

definition whole :: "(bytes \<Rightarrow> ('a \<times> bytes) res) \<Rightarrow> bytes \<Rightarrow> 'a res" where
  "whole d bs = rbind (d bs) (\<lambda>(x, rest). if rest = [] then Inr x else Inl ErrEOF)"

definition ref_codec :: lat_codec where
  "ref_codec = \<lparr> encPoly = (\<lambda>p. Inr (poly_bytes p)), encVector = (\<lambda>v. Inr (vec_bytes v)),
     encMatrix = (\<lambda>M. Inr (mat_bytes M)), decPoly = whole dec_poly_frame,
     decVector = whole dec_vector_frame, decMatrix = whole dec_matrix_frame \<rparr>"

interpretation refc: lattice_codec ref_codec
  using polyc.dec_enc[of _ "[]"] vecc.dec_enc[of _ "[]"] matc.dec_enc[of _ "[]"]
  by unfold_locales (simp_all add: ref_codec_def whole_def)

end
