(* ===== verification/Primitives.thy ===== *)
theory Primitives
  imports Sharing Utils Hash_Suite Lattice_Codec
begin

text \<open>
  \<^verbatim>\<open>primitives/hash.go\<close> and \<^verbatim>\<open>primitives/shamir.go\<close>: the byte layouts of everything the
  signing protocol hashes, authenticates or keys a sampler with, and the three Shamir
  dealers. The samplers, their keyed generators and \<^verbatim>\<open>share.Lagrange\<close> are third-party
  and are parameters.
\<close>

section \<open>Samplers\<close>

text \<open>The parameter sets of the discrete Gaussians the protocol uses.\<close>

datatype gauss_params = GaussE | GaussStar | GaussU | GaussFlood nat

text \<open>A keyed generator and the samplers built on it, with one state type. \<open>gaussPRNG\<close> and
  \<open>uniformPRNG\<close> give the generator a sampler leaves to the next one that shares it.\<close>

record 's sampling =
  NewKeyedPRNG :: "bytes \<Rightarrow> 's"
  NewGaussianSampler :: "ring_ops \<Rightarrow> gauss_params \<Rightarrow> 's \<Rightarrow> 's"
  gaussRead :: "'s \<Rightarrow> poly \<times> 's"
  gaussPRNG :: "'s \<Rightarrow> 's"
  NewUniformSampler :: "ring_ops \<Rightarrow> 's \<Rightarrow> 's"
  uniformRead :: "'s \<Rightarrow> poly \<times> 's"
  uniformPRNG :: "'s \<Rightarrow> 's"
  NewTernarySampler :: "ring_ops \<Rightarrow> nat \<Rightarrow> 's \<Rightarrow> 's res"
  ternaryRead :: "'s \<Rightarrow> poly \<times> 's"

text \<open>What every call shares: the hash primitives, the serialisation, the samplers.\<close>

record 's env =
  envXof :: xof
  envCodec :: lat_codec
  envSampling :: "'s sampling"

section \<open>Byte layouts\<close>

definition keySize :: nat where
  "keySize = 32"

text \<open>\<^verbatim>\<open>must\<close> turns a write error into a panic.\<close>

definition must :: "'a res \<Rightarrow> 'a res" where
  "must x = (case x of Inl e \<Rightarrow> Inl Panic | Inr y \<Rightarrow> Inr y)"

definition i64 :: "int \<Rightarrow> bytes" where
  "i64 x = be64 (word_of_int x)"

definition i32 :: "int \<Rightarrow> bytes" where
  "i32 x = be32 (word_of_int x)"

text \<open>The signer set: its length and its members as 32-bit integers.\<close>

definition T_bytes :: "int list \<Rightarrow> bytes" where
  "T_bytes T = i32 (int (length T)) @ concat (map i32 T)"

definition PRNGKey :: "'s env \<Rightarrow> hash_suite option \<Rightarrow> vec \<Rightarrow> bytes res" where
  "PRNGKey en suite skShare =
     rbind (must (encVector (envCodec en) skShare)) (\<lambda>sk.
     Inr (hsPRF (Resolve (envXof en) suite) sk [] keySize))"

definition DeriveSessionID :: "'s env \<Rightarrow> hash_suite option \<Rightarrow> int \<Rightarrow> int list \<Rightarrow> bytes" where
  "DeriveSessionID en suite sid T =
     hsTranscriptHash (Resolve (envXof en) suite)
       [str_bytes ''corona.sign.session-id.v1'', i64 sid @ T_bytes T]"

definition nonce_msg :: "bytes \<Rightarrow> bytes \<Rightarrow> bytes" where
  "nonce_msg sessionID salt = str_bytes ''CoronaNonceV3'' @ sessionID @ salt"

definition PRNGKeyForRound ::
  "'s env \<Rightarrow> hash_suite option \<Rightarrow> vec \<Rightarrow> bytes \<Rightarrow> bytes \<Rightarrow> bytes res" where
  "PRNGKeyForRound en suite skShare sessionID salt =
     rbind (must (encVector (envCodec en) skShare)) (\<lambda>sk.
     Inr (hsPRF (Resolve (envXof en) suite) sk (nonce_msg sessionID salt) keySize))"

definition GenerateMAC ::
  "'s env \<Rightarrow> hash_suite option \<Rightarrow> matrix \<Rightarrow> bytes \<Rightarrow> int \<Rightarrow> int \<Rightarrow> int list \<Rightarrow> int \<Rightarrow> bool \<Rightarrow> bytes res" where
  "GenerateMAC en suite TildeD MACKey partyID sid T otherParty verify =
     rbind (must (encMatrix (envCodec en) TildeD)) (\<lambda>d.
     Inr (hsMAC (Resolve (envXof en) suite) MACKey
       ((if verify then i64 otherParty else i64 partyID) @ d @ i64 sid @ T_bytes T) keySize))"

definition GaussianHash ::
  "'s env \<Rightarrow> hash_suite option \<Rightarrow> ring_ops \<Rightarrow> bytes \<Rightarrow> string \<Rightarrow> nat \<Rightarrow> vec" where
  "GaussianHash en suite rg hashIn mu len =
     (let sm = envSampling en;
          seed = hsHu (Resolve (envXof en) suite) (hashIn @ str_bytes mu) keySize;
          smp = NewGaussianSampler sm rg GaussU (NewKeyedPRNG sm seed)
      in fst (SamplePolyVector rg len (gaussRead sm) True True smp))"

definition PRF ::
  "'s env \<Rightarrow> hash_suite option \<Rightarrow> ring_ops \<Rightarrow> bytes \<Rightarrow> bytes \<Rightarrow> string \<Rightarrow> bytes \<Rightarrow> nat \<Rightarrow> vec" where
  "PRF en suite rg sd_ij PRFKey mu hashIn n =
     (let sm = envSampling en;
          seed = hsPRF (Resolve (envXof en) suite) PRFKey (sd_ij @ hashIn @ str_bytes mu) keySize;
          smp = NewUniformSampler sm rg (NewKeyedPRNG sm seed)
      in fst (SamplePolyVector rg n (uniformRead sm) True True smp))"

text \<open>\<^verbatim>\<open>D[id]\<close> of an absent id is a nil matrix.\<close>

definition hash_preimage ::
  "'s env \<Rightarrow> matrix \<Rightarrow> vec \<Rightarrow> (int, matrix) gomap \<Rightarrow> int \<Rightarrow> int list \<Rightarrow> bytes res" where
  "hash_preimage en A b D sid T =
     rbind (must (encMatrix (envCodec en) A)) (\<lambda>ab.
     rbind (must (encVector (envCodec en) b)) (\<lambda>bb.
     rbind (mapM (\<lambda>i. must (encMatrix (envCodec en) (case map_of D i of None \<Rightarrow> [] | Some m \<Rightarrow> m))) T) (\<lambda>ds.
     Inr (ab @ bb @ i64 sid @ T_bytes T @ concat ds))))"

definition Hash ::
  "'s env \<Rightarrow> hash_suite option \<Rightarrow> matrix \<Rightarrow> vec \<Rightarrow> (int, matrix) gomap \<Rightarrow> int \<Rightarrow> int list \<Rightarrow> bytes res" where
  "Hash en suite A b D sid T =
     rbind (hash_preimage en A b D sid T) (\<lambda>buf. Inr (hsTranscriptHash (Resolve (envXof en) suite) [buf]))"

definition LowNormHash ::
  "'s env \<Rightarrow> hash_suite option \<Rightarrow> ring_ops \<Rightarrow> matrix \<Rightarrow> vec \<Rightarrow> vec \<Rightarrow> string \<Rightarrow> nat \<Rightarrow> poly res" where
  "LowNormHash en suite rg A b h mu kappa =
     rbind (must (encMatrix (envCodec en) A)) (\<lambda>ab.
     rbind (must (encVector (envCodec en) b)) (\<lambda>bb.
     rbind (must (encVector (envCodec en) h)) (\<lambda>hb.
     let sm = envSampling en;
         seed = hsHu (Resolve (envXof en) suite) (ab @ bb @ hb @ str_bytes mu) keySize in
     rbind (must (NewTernarySampler sm rg kappa (NewKeyedPRNG sm seed))) (\<lambda>smp.
     Inr (rMForm rg (rNTT rg (fst (ternaryRead sm smp))))))))"

definition GenerateRandomSeed :: "rand_state \<Rightarrow> (bytes \<times> rand_state) res" where
  "GenerateRandomSeed st = GetRandomBytes st (int keySize)"

section \<open>Shamir dealers\<close>

text \<open>\<^verbatim>\<open>crypto/rand.Int\<close>: mask the surplus bits of the first byte and reject values
  that are too large. The caller drops its error, so a failed read leaves a nil
  coefficient, and the multiplication with it panics.\<close>

function bit_len :: "int \<Rightarrow> nat" where
  "bit_len n = (if n \<le> 0 then 0 else Suc (bit_len (n div 2)))"
  by pat_completeness auto
termination
  by (relation "measure nat") (auto simp: nat_less_eq_zless int_div_less_self)

declare bit_len.simps [simp del]

definition mask_first :: "nat \<Rightarrow> bytes \<Rightarrow> bytes" where
  "mask_first b bs = (case bs of [] \<Rightarrow> [] | x # xs \<Rightarrow> take_bit b x # xs)"

function rand_Int :: "nat \<Rightarrow> bytes \<Rightarrow> int \<Rightarrow> (int \<times> bytes) res" where
  "rand_Int n rs q =
     (if q \<le> 0 then Inl Panic
      else if n = 0 then Inr (0, rs)
      else if length rs < (n + 7) div 8 then Inl Panic
      else (let k = (n + 7) div 8; b = (if n mod 8 = 0 then 8 else n mod 8);
                v = int (be_val (mask_first b (take k rs))); rs' = drop k rs
            in if v < q then Inr (v, rs') else rand_Int n rs' q))"
  by pat_completeness auto
termination
  by (relation "measure (\<lambda>(n, rs, q). length rs)") auto

declare rand_Int.simps [simp del]

text \<open>The share of point \<open>x\<close>: the powers of \<open>x\<close> grow unreduced, the sum is reduced.\<close>

definition shamir_eval :: "int \<Rightarrow> int list \<Rightarrow> int \<Rightarrow> int" where
  "shamir_eval q polyCoeffs x =
     fst (foldl (\<lambda>(shareValue, xPow) coeff. ((shareValue + coeff * xPow) mod q, xPow * x))
           (0, 1) polyCoeffs)"

text \<open>One coordinate: \<open>t - 1\<close> draws, then the shares of points \<open>1 .. k\<close>. A threshold
  below 1 makes the write of \<open>polyCoeffs[0]\<close> panic.\<close>

definition shamir_coord ::
  "('r \<Rightarrow> (int \<times> 'r) res) \<Rightarrow> int \<Rightarrow> int \<Rightarrow> nat \<Rightarrow> int \<Rightarrow> 'r \<Rightarrow> (int list \<times> 'r) res" where
  "shamir_coord draw q t k secret st =
     (if t < 1 then Inl Panic
      else rbind (repM draw (nat t - 1) st) (\<lambda>(rands, st').
        Inr (map (\<lambda>i. shamir_eval q (secret # rands) (int i)) [1..<Suc k], st')))"

definition shamir_shares :: "ring_ops \<Rightarrow> nat \<Rightarrow> int list list list \<Rightarrow> shares" where
  "shamir_shares rg k vals =
     map (\<lambda>i. (int i, map (\<lambda>pv. set_level0 (rNewPoly rg) (map (\<lambda>cv. word_of_int (cv ! i)) pv)) vals)) [0..<k]"

definition shamir_deal ::
  "('r \<Rightarrow> (int \<times> 'r) res) \<Rightarrow> ring_ops \<Rightarrow> vec \<Rightarrow> int \<Rightarrow> nat \<Rightarrow> 'r \<Rightarrow> (shares \<times> 'r) res" where
  "shamir_deal draw rg s t k st =
     rbind (mapSt (\<lambda>p. mapSt (shamir_coord draw (rModulus rg) t k) (rPolyToBigint rg p)) s st) (\<lambda>(vals, st').
     Inr (shamir_shares rg k vals, st'))"

definition ShamirSecretSharingGeneral :: "ring_ops \<Rightarrow> vec \<Rightarrow> int \<Rightarrow> int \<Rightarrow> bytes \<Rightarrow> (shares \<times> bytes) res" where
  "ShamirSecretSharingGeneral rg s t k rs =
     shamir_deal (\<lambda>rs. rand_Int (bit_len (rModulus rg - 1)) rs (rModulus rg)) rg s t (nat k) rs"

text \<open>\<^verbatim>\<open>pullBig\<close>: the next bytes of the BLAKE3 stream, reduced. The stream is given as
  the bytes it will yield.\<close>

definition pullBig :: "int \<Rightarrow> bytes \<Rightarrow> (int \<times> bytes) res" where
  "pullBig q stream =
     rbind (must (ReadFull stream (byte_len q))) (\<lambda>(b, stream').
     if q = 0 then Inl Panic else Inr (int (be_val b) mod q, stream'))"

definition ShamirSecretSharingGeneralWithSeed ::
  "(bytes \<Rightarrow> bytes) \<Rightarrow> ring_ops \<Rightarrow> vec \<Rightarrow> int \<Rightarrow> int \<Rightarrow> bytes \<Rightarrow> shares res" where
  "ShamirSecretSharingGeneralWithSeed blake3_stream rg s t k seed =
     rbind (shamir_deal (pullBig (rModulus rg)) rg s t (nat k) (blake3_stream seed)) (\<lambda>(sh, _). Inr sh)"

text \<open>The \<open>t = k\<close> dealer: \<open>k - 1\<close> random shares and a last one that makes the weighted
  sum the secret.\<close>

definition shamir_full_coord ::
  "int \<Rightarrow> vec \<Rightarrow> int \<Rightarrow> int \<Rightarrow> rand_state \<Rightarrow> (int list \<times> rand_state) res" where
  "shamir_full_coord q lambdas k secret st =
     (if k < 1 then Inl Panic
      else rbind (repM (\<lambda>st. GetRandomInt st q) (nat k - 1) st) (\<lambda>(rands, st').
        if length lambdas < nat k \<or> (\<exists>i < nat k. lambdas ! i = [] \<or> hd (lambdas ! i) = []) then Inl Panic
        else
          let lam = (\<lambda>i. uint (hd (hd (lambdas ! i))));
              acc = foldl (\<lambda>acc i. (acc + rands ! i * lam i) mod q) 0 [0..<nat k - 1] in
          (case ModInverse (lam (nat k - 1)) q of
             None \<Rightarrow> Inl Panic
           | Some li \<Rightarrow> Inr (rands @ [((secret - acc) * li) mod q], st'))))"

definition ShamirSecretSharing ::
  "ring_ops \<Rightarrow> vec \<Rightarrow> int \<Rightarrow> vec \<Rightarrow> rand_state \<Rightarrow> (shares \<times> rand_state) res" where
  "ShamirSecretSharing rg s k lambdas st =
     rbind (mapSt (\<lambda>p. mapSt (shamir_full_coord (rModulus rg) lambdas k) (rPolyToBigint rg p)) s st) (\<lambda>(vals, st').
     Inr (shamir_shares rg (nat k) vals, st'))"

text \<open>\<^verbatim>\<open>ComputeLagrangeCoefficients\<close>: \<open>isPrime\<close> stands for \<^verbatim>\<open>share.NewPrimeField\<close> and
  \<open>lagr\<close> for \<^verbatim>\<open>share.Lagrange\<close> at the point 0.\<close>

definition ComputeLagrangeCoefficients ::
  "(u64 \<Rightarrow> bool) \<Rightarrow> (u64 list \<Rightarrow> u64 \<Rightarrow> u64 list res) \<Rightarrow> ring_ops \<Rightarrow> int list \<Rightarrow> int \<Rightarrow> vec res" where
  "ComputeLagrangeCoefficients isPrime lagr rg T modulus =
     (if \<not> isPrime (word_of_int modulus) then Inl Panic
      else rbind (must (lagr (map (\<lambda>ti. word_of_int (ti + 1)) T) (word_of_int modulus))) (\<lambda>lambda.
        if length lambda < length T then Inl Panic
        else Inr (map (\<lambda>i. rSetCoefficientsBigint rg [uint (lambda ! i)]) [0..<length T])))"

section \<open>The dealers share the secret\<close>

lemma shamir_eval_fold:
  "cs \<noteq> [] \<Longrightarrow> fst (foldl (\<lambda>(sv, xp) c. ((sv + c * xp) mod q, xp * x)) (sv, xp) cs)
     = (sv + xp * pval cs x) mod (q::int)"
proof (induction cs arbitrary: sv xp)
  case (Cons c cs)
  show ?case
  proof (cases "cs = []")
    case False
    then have "fst (foldl (\<lambda>(sv, xp) c. ((sv + c * xp) mod q, xp * x)) (sv, xp) (c # cs))
        = ((sv + c * xp) mod q + xp * x * pval cs x) mod q"
      using Cons.IH[of "(sv + c * xp) mod q" "xp * x"] by simp
    also have "\<dots> = ((sv + c * xp) + xp * x * pval cs x) mod q" by (simp only: mod_add_left_eq)
    finally show ?thesis by (simp add: algebra_simps)
  qed (simp add: mult.commute)
qed simp

lemma shamir_eval_spec: "cs \<noteq> [] \<Longrightarrow> shamir_eval q cs x = pval cs x mod q"
  unfolding shamir_eval_def using shamir_eval_fold[of cs q x 0 1] by simp

text \<open>A draw is good when it returns reduced values.\<close>

definition good_draw :: "int \<Rightarrow> ('r \<Rightarrow> (int \<times> 'r) res) \<Rightarrow> bool" where
  "good_draw q draw \<longleftrightarrow> (\<forall>st v st'. draw st = Inr (v, st') \<longrightarrow> 0 \<le> v \<and> v < q)"

lemma rand_Int_range: "rand_Int n rs q = Inr (v, rs') \<Longrightarrow> 0 \<le> v \<and> v < q"
proof (induction n rs q rule: rand_Int.induct)
  case (1 n rs q)
  from "1.prems" show ?case
    using "1.IH" by (subst (asm) rand_Int.simps) (auto simp: Let_def split: if_splits)
qed

lemma pullBig_range: "0 < q \<Longrightarrow> pullBig q st = Inr (v, st') \<Longrightarrow> 0 \<le> v \<and> v < q"
  by (auto simp: pullBig_def must_def res_simps split: sum.splits if_splits)

lemma share_pcoef:
  assumes cr: "coeff_ring rg" and "length pv = rN rg" "k < rN rg" "0 \<le> pv ! k ! i" "pv ! k ! i < rModulus rg"
  shows "pcoef (set_level0 (rNewPoly rg) (map (\<lambda>cv. word_of_int (cv ! i)) pv)) k = pv ! k ! i"
proof -
  have "set_level0 (rNewPoly rg) (map (\<lambda>cv. word_of_int (cv ! i)) pv) = [map (\<lambda>cv. word_of_int (cv ! i)) pv]"
    using assms(2) by (simp add: coeff_ring.NewPoly[OF cr])
  moreover have "uint (word_of_int (pv ! k ! i) :: u64) = pv ! k ! i"
    using assms(4,5) coeff_ring.modulus(2)[OF cr] by (intro uint_word_of_int_small) auto
  ultimately show ?thesis using assms(2,3) by (simp add: pcoef_def)
qed

lemma share_pvalid:
  assumes cr: "coeff_ring rg" and "length pv = rN rg" "\<forall>k < rN rg. 0 \<le> pv ! k ! i \<and> pv ! k ! i < rModulus rg"
  shows "pvalid (rModulus rg) (rN rg) (set_level0 (rNewPoly rg) (map (\<lambda>cv. word_of_int (cv ! i)) pv))"
proof -
  let ?P = "set_level0 (rNewPoly rg) (map (\<lambda>cv. word_of_int (cv ! i)) pv)"
  have e: "?P = [map (\<lambda>cv. word_of_int (cv ! i)) pv]"
    using assms(2) by (simp add: coeff_ring.NewPoly[OF cr])
  have "uint (hd ?P ! k) < rModulus rg" if "k < rN rg" for k
    using share_pcoef[OF cr assms(2) that, of i] assms(3) that by (simp add: pcoef_def)
  then show ?thesis using assms(2) by (simp add: pvalid_def e all_set_nth_iff)
qed

text \<open>The structure of what a dealer of one of the two kinds computed: per vector index
  and coordinate a list of share values, one per party.\<close>

lemma shamir_vals:
  assumes cr: "coeff_ring rg" and s: "vvalid rg s"
    and run: "mapSt (\<lambda>p. mapSt f (rPolyToBigint rg p)) s st = Inr (vals, st')"
    and step: "\<And>c st ys st'. f c st = Inr (ys, st') \<Longrightarrow> P c ys"
  shows "length vals = length s \<and> (\<forall>p < length s. length (vals ! p) = rN rg \<and>
    (\<forall>k < rN rg. P (pcoef (s ! p) k) (vals ! p ! k)))"
proof -
  have len: "length vals = length s" by (rule mapSt_length[OF run])
  have "length (vals ! p) = rN rg \<and> (\<forall>k < rN rg. P (pcoef (s ! p) k) (vals ! p ! k))" if p: "p < length s" for p
    using run p
  proof (rule mapSt_nth[where P = "\<lambda>x y. length y = rN rg \<and> (\<forall>k < rN rg. P (pcoef x k) (y ! k))"])
    fix x st y st' assume x: "x \<in> set s" and r: "mapSt f (rPolyToBigint rg x) st = Inr (y, st')"
    have big: "rPolyToBigint rg x = map (pcoef x) [0..<rN rg]"
      using s x coeff_ring.PolyToBigint[OF cr] by (simp add: vvalid_def)
    have "length y = rN rg" using mapSt_length[OF r] big by simp
    moreover have "P (pcoef x k) (y ! k)" if "k < rN rg" for k
      using mapSt_nth[OF r, of k P] step that big by simp
    ultimately show "length y = rN rg \<and> (\<forall>k < rN rg. P (pcoef x k) (y ! k))" by blast
  qed
  with len show ?thesis by blast
qed

lemma shamir_deal_sharing:
  assumes cr: "coeff_ring rg" and s: "vvalid rg s" and t: "1 \<le> t"
    and run: "shamir_deal draw rg s t k st = Inr (sh, st')"
  shows "gokeys sh = map int [0..<k] \<and>
    shares_ok (rModulus rg) (rN rg) (length s) sh \<and>
    is_sharing (rModulus rg) (rN rg) (length s) (nat t) (map (\<lambda>(i, v). (i + 1, v)) sh) (\<lambda>p k. pcoef (s ! p) k)"
proof -
  let ?q = "rModulus rg" and ?N = "rN rg"
  have q: "1 < ?q" using coeff_ring.modulus(1)[OF cr] .
  obtain vals where run2: "mapSt (\<lambda>p. mapSt (shamir_coord draw ?q t k) (rPolyToBigint rg p)) s st = Inr (vals, st')"
    and sh: "sh = shamir_shares rg k vals"
    using run by (auto simp: shamir_deal_def res_simps)
  have "length vals = length s \<and> (\<forall>p < length s. length (vals ! p) = ?N \<and> (\<forall>j < ?N.
      \<exists>cs. length cs = nat t \<and> hd cs = pcoef (s ! p) j \<and> vals ! p ! j = map (\<lambda>i. pval cs (int i) mod ?q) [1..<Suc k]))"
  proof (rule shamir_vals[OF cr s run2])
    fix c st ys st' assume "shamir_coord draw ?q t k c st = Inr (ys, st')"
    then obtain rands where r: "repM draw (nat t - 1) st = Inr (rands, st')"
      "ys = map (\<lambda>i. shamir_eval ?q (c # rands) (int i)) [1..<Suc k]"
      by (auto simp: shamir_coord_def res_simps split: if_splits)
    then show "\<exists>cs. length cs = nat t \<and> hd cs = c \<and> ys = map (\<lambda>i. pval cs (int i) mod ?q) [1..<Suc k]"
      using repM_length[OF r(1)] t
      by (intro exI[of _ "c # rands"]) (simp add: shamir_eval_spec Suc_diff_Suc del: upt_Suc)
  qed
  note vals = conjunct1[OF this] conjunct2[OF this]
  have val: "\<exists>cs. length cs = nat t \<and> hd cs = pcoef (s ! p) j \<and> (\<forall>i < k. vals ! p ! j ! i = pval cs (int i + 1) mod ?q)"
    if pj: "p < length s" "j < ?N" for p j
  proof -
    obtain cs where cs: "length cs = nat t" "hd cs = pcoef (s ! p) j"
      "vals ! p ! j = map (\<lambda>i. pval cs (int i) mod ?q) [1..<Suc k]" using vals(2) pj by blast
    have "vals ! p ! j ! i = pval cs (int i + 1) mod ?q" if "i < k" for i
      using that by (simp add: cs(3) add.commute del: upt_Suc)
    with cs show ?thesis by blast
  qed
  have range: "0 \<le> vals ! p ! j ! i \<and> vals ! p ! j ! i < ?q" if "p < length s" "j < ?N" "i < k" for p j i
    using val[OF that(1,2)] that(3) q by auto
  have len: "length vals = length s" "\<And>p. p < length s \<Longrightarrow> length (vals ! p) = ?N" using vals by auto
  have "gokeys sh = map int [0..<k]" by (simp add: sh shamir_shares_def comp_def)
  moreover have "shares_ok ?q ?N (length s) sh"
    using len range by (auto simp: sh shamir_shares_def shares_ok_def share_ok_def intro!: share_pvalid[OF cr])
  moreover have "is_sharing ?q ?N (length s) (nat t) (map (\<lambda>(i, v). (i + 1, v)) sh) (\<lambda>p k. pcoef (s ! p) k)"
    unfolding is_sharing_def
  proof (intro allI impI)
    fix p j assume pj: "p < length s" "j < ?N"
    obtain cs where cs: "length cs = nat t" "hd cs = pcoef (s ! p) j"
      "\<And>i. i < k \<Longrightarrow> vals ! p ! j ! i = pval cs (int i + 1) mod ?q" using val[OF pj] by blast
    have "cs \<noteq> []" using cs(1) t by auto
    then have "pval cs 0 mod ?q = pcoef (s ! p) j"
      using cs(2) pcoef_mod[OF vvalid_nth[OF s pj(1)] pj(2)] by simp
    moreover have "pcoef (v ! p) j = pval cs i mod ?q"
      if mem: "(i, v) \<in> set (map (\<lambda>(i, v). (i + 1, v)) sh)" for i v
    proof -
      obtain n where n: "n < k" "i = int n + 1"
        "v = map (\<lambda>pv. set_level0 (rNewPoly rg) (map (\<lambda>cv. word_of_int (cv ! n)) pv)) vals"
        using mem by (auto simp: sh shamir_shares_def)
      have "pcoef (v ! p) j = vals ! p ! j ! n"
        using share_pcoef[OF cr len(2)[OF pj(1)] pj(2), of n] range[OF pj n(1)] pj len(1) by (simp add: n(3))
      then show ?thesis using cs(3)[OF n(1)] n(2) by simp
    qed
    ultimately show "\<exists>cs. length cs = nat t \<and> pval cs 0 mod ?q = pcoef (s ! p) j \<and>
        (\<forall>(i, v) \<in> set (map (\<lambda>(i, v). (i + 1, v)) sh). pcoef (v ! p) j = pval cs i mod ?q)"
      using cs(1) by blast
  qed
  ultimately show ?thesis by blast
qed

section \<open>The full-threshold dealer\<close>

lemma foldl_weighted:
  "foldl (\<lambda>acc i. (acc + f i) mod q) a xs mod q = (a + sum_list (map f xs)) mod (q::int)"
proof (induction xs arbitrary: a)
  case (Cons x xs)
  have "foldl (\<lambda>acc i. (acc + f i) mod q) a (x # xs) mod q = ((a + f x) mod q + sum_list (map f xs)) mod q"
    using Cons.IH by simp
  also have "\<dots> = (a + f x + sum_list (map f xs)) mod q" by (simp only: mod_add_left_eq)
  finally show ?case by (simp add: add.assoc)
qed simp

lemma mod_scale: "(x * y) mod q * z mod q = x * (z * y) mod (q :: int)"
  by (simp add: mod_mult_left_eq mult.assoc mult.commute[of y])

lemma GetRandomInt_range: "0 < q \<Longrightarrow> GetRandomInt st q = Inr (v, st') \<Longrightarrow> 0 \<le> v \<and> v < q"
  by (auto simp: GetRandomInt_def res_simps split: if_splits)

lemma shamir_full_coord_spec:
  assumes q: "1 < q" and run: "shamir_full_coord q lambdas k c st = Inr (ys, st')"
  shows "length ys = nat k \<and> (\<forall>y \<in> set ys. 0 \<le> y \<and> y < q) \<and>
    sum_list (map (\<lambda>i. ys ! i * uint (hd (hd (lambdas ! i)))) [0..<nat k]) mod q = c mod q"
proof -
  let ?lam = "\<lambda>i. uint (hd (hd (lambdas ! i)))"
  obtain rands li where k: "1 \<le> k" and r: "repM (\<lambda>st. GetRandomInt st q) (nat k - 1) st = Inr (rands, st')"
    and li: "ModInverse (?lam (nat k - 1)) q = Some li"
    and ys: "ys = rands @ [((c - foldl (\<lambda>acc i. (acc + rands ! i * ?lam i) mod q) 0 [0..<nat k - 1]) * li) mod q]"
    using run by (auto simp: shamir_full_coord_def res_simps Let_def split: if_splits option.splits)
  let ?A = "foldl (\<lambda>acc i. (acc + rands ! i * ?lam i) mod q) 0 [0..<nat k - 1]"
  let ?S = "sum_list (map (\<lambda>i. rands ! i * ?lam i) [0..<nat k - 1])"
  have lr: "length rands = nat k - 1" by (rule repM_length[OF r])
  have rr: "0 \<le> v \<and> v < q" if "v \<in> set rands" for v
    by (rule repM_all[OF r _ that]) (use q in \<open>auto dest!: GetRandomInt_range[rotated]\<close>)
  obtain n where n: "nat k = Suc n" using k by (cases "nat k") auto
  have A: "?A mod q = ?S mod q" using foldl_weighted[of "\<lambda>i. rands ! i * ?lam i" q 0] by simp
  have "map (\<lambda>i. ys ! i * ?lam i) [0..<nat k] = map (\<lambda>i. rands ! i * ?lam i) [0..<n] @ [((c - ?A) * li) mod q * ?lam n]"
    using lr n by (auto simp: ys nth_append)
  then have "sum_list (map (\<lambda>i. ys ! i * ?lam i) [0..<nat k])
      = sum_list (map (\<lambda>i. rands ! i * ?lam i) [0..<n] @ [((c - ?A) * li) mod q * ?lam n])"
    by (rule arg_cong)
  also have "\<dots> = ?S + ((c - ?A) * li) mod q * ?lam n" using n by simp
  finally have "sum_list (map (\<lambda>i. ys ! i * ?lam i) [0..<nat k]) mod q = (?S + ((c - ?A) * li) mod q * ?lam n) mod q"
    by (rule arg_cong)
  also have "\<dots> = (?S + (c - ?A) * (?lam n * li)) mod q"
    by (rule mod_add_cong[OF refl mod_scale])
  also have "\<dots> = (?S + (c - ?A) * 1) mod q"
  proof (rule mod_add_cong[OF refl])
    have "?lam n * li mod q = 1 mod q" using ModInverse_Some(3)[OF q li] n q by simp
    then show "(c - ?A) * (?lam n * li) mod q = (c - ?A) * 1 mod q" by (rule mod_mult_cong[OF refl])
  qed
  also have "\<dots> = (?S + (c - ?S)) mod q"
  proof (rule mod_add_cong[OF refl])
    show "(c - ?A) * 1 mod q = (c - ?S) mod q" unfolding mult_1_right by (rule mod_diff_cong[OF refl A])
  qed
  finally have "sum_list (map (\<lambda>i. ys ! i * ?lam i) [0..<nat k]) mod q = c mod q" by simp
  moreover have "length ys = nat k" using lr n by (simp add: ys)
  moreover have "\<forall>y \<in> set ys. 0 \<le> y \<and> y < q" using rr q by (auto simp: ys)
  ultimately show ?thesis by blast
qed

lemma ShamirSecretSharing_spec:
  assumes cr: "coeff_ring rg" and s: "vvalid rg s"
    and run: "ShamirSecretSharing rg s k lambdas st = Inr (sh, st')"
  shows "gokeys sh = map int [0..<nat k] \<and> shares_ok (rModulus rg) (rN rg) (length s) sh \<and>
    (\<forall>p < length s. \<forall>j < rN rg.
      sum_list (map (\<lambda>i. pcoef (snd (sh ! i) ! p) j * uint (hd (hd (lambdas ! i)))) [0..<nat k]) mod rModulus rg
        = pcoef (s ! p) j)"
proof -
  let ?q = "rModulus rg" and ?N = "rN rg"
  have q: "1 < ?q" using coeff_ring.modulus(1)[OF cr] .
  obtain vals where run2: "mapSt (\<lambda>p. mapSt (shamir_full_coord ?q lambdas k) (rPolyToBigint rg p)) s st = Inr (vals, st')"
    and sh: "sh = shamir_shares rg (nat k) vals"
    using run by (auto simp: ShamirSecretSharing_def res_simps)
  note all = shamir_vals[OF cr s run2, of "\<lambda>c ys. length ys = nat k \<and> (\<forall>y \<in> set ys. 0 \<le> y \<and> y < ?q) \<and>
    sum_list (map (\<lambda>i. ys ! i * uint (hd (hd (lambdas ! i)))) [0..<nat k]) mod ?q = c mod ?q",
    OF shamir_full_coord_spec[OF q]]
  have len: "length vals = length s" "\<And>p. p < length s \<Longrightarrow> length (vals ! p) = ?N" using all by auto
  have cell: "length (vals ! p ! j) = nat k" "\<forall>y \<in> set (vals ! p ! j). 0 \<le> y \<and> y < ?q"
    "sum_list (map (\<lambda>i. vals ! p ! j ! i * uint (hd (hd (lambdas ! i)))) [0..<nat k]) mod ?q = pcoef (s ! p) j mod ?q"
    if "p < length s" "j < ?N" for p j using all that by auto
  have range: "0 \<le> vals ! p ! j ! i \<and> vals ! p ! j ! i < ?q" if "p < length s" "j < ?N" "i < nat k" for p j i
    using cell(1,2)[OF that(1,2)] that(3) by simp
  have coef: "pcoef (snd (sh ! i) ! p) j = vals ! p ! j ! i" if "p < length s" "j < ?N" "i < nat k" for p j i
    using share_pcoef[OF cr len(2)[OF that(1)] that(2), of i] range[OF that] that len(1)
    by (simp add: sh shamir_shares_def)
  have "gokeys sh = map int [0..<nat k]" by (simp add: sh shamir_shares_def comp_def)
  moreover have "shares_ok ?q ?N (length s) sh"
    using len range by (auto simp: sh shamir_shares_def shares_ok_def share_ok_def intro!: share_pvalid[OF cr])
  moreover have "sum_list (map (\<lambda>i. pcoef (snd (sh ! i) ! p) j * uint (hd (hd (lambdas ! i)))) [0..<nat k]) mod ?q
      = pcoef (s ! p) j" if pj: "p < length s" "j < ?N" for p j
  proof -
    have "map (\<lambda>i. pcoef (snd (sh ! i) ! p) j * uint (hd (hd (lambdas ! i)))) [0..<nat k]
        = map (\<lambda>i. vals ! p ! j ! i * uint (hd (hd (lambdas ! i)))) [0..<nat k]"
      by (rule map_cong[OF refl]) (simp add: coef[OF pj])
    then show ?thesis using cell(3)[OF pj] pcoef_mod[OF vvalid_nth[OF s pj(1)] pj(2)] by (simp only:)
  qed
  ultimately show ?thesis by blast
qed

section \<open>Termination of the seeded dealer\<close>

lemma mapSt_consumes:
  assumes "\<And>x (s :: 'c list). x \<in> set xs \<Longrightarrow> c \<le> length s \<Longrightarrow> \<exists>y. f x s = Inr (y, drop c s)"
    and "length xs * c \<le> length s"
  shows "\<exists>ys. mapSt f xs s = Inr (ys, drop (length xs * c) s)"
  using assms
proof (induction xs arbitrary: s)
  case (Cons x xs)
  have c: "c \<le> length s" "length xs * c \<le> length (drop c s)" using Cons.prems(2) by simp_all
  obtain y where y: "f x s = Inr (y, drop c s)" using Cons.prems(1)[of x s] c(1) by auto
  obtain ys where ys: "mapSt f xs (drop c s) = Inr (ys, drop (length xs * c) (drop c s))"
    using Cons.IH[OF _ c(2)] Cons.prems(1) by auto
  show ?case using y ys by (simp add: add.commute)
qed simp

lemma repM_mapSt: "repM f n s = mapSt (\<lambda>_. f) (replicate n ()) s"
  by (induction n arbitrary: s) auto

lemma pullBig_consumes: "0 < q \<Longrightarrow> byte_len q \<le> length s \<Longrightarrow> \<exists>v. pullBig q s = Inr (v, drop (byte_len q) s)"
  by (simp add: pullBig_def must_def ReadFull_def)

lemma shamir_coord_consumes:
  assumes "0 < q" "1 \<le> t" "(nat t - 1) * byte_len q \<le> length s"
  shows "\<exists>ys. shamir_coord (pullBig q) q t k c s = Inr (ys, drop ((nat t - 1) * byte_len q) s)"
proof -
  obtain vs where "repM (pullBig q) (nat t - 1) s = Inr (vs, drop ((nat t - 1) * byte_len q) s)"
    using mapSt_consumes[of "replicate (nat t - 1) ()" "byte_len q" "\<lambda>_. pullBig q" s] pullBig_consumes[OF assms(1)] assms(3)
    by (auto simp: repM_mapSt)
  then show ?thesis using assms(2) by (simp add: shamir_coord_def)
qed

lemma shamir_deal_total:
  assumes cr: "coeff_ring rg" and s: "vvalid rg s" and t: "1 \<le> t"
    and enough: "length s * (rN rg * ((nat t - 1) * byte_len (rModulus rg))) \<le> length stream"
  shows "\<exists>sh st'. shamir_deal (pullBig (rModulus rg)) rg s t k stream = Inr (sh, st')"
proof -
  let ?c = "(nat t - 1) * byte_len (rModulus rg)"
  have q: "0 < rModulus rg" using coeff_ring.modulus(1)[OF cr] by simp
  have "\<exists>vals. mapSt (\<lambda>p. mapSt (shamir_coord (pullBig (rModulus rg)) (rModulus rg) t k) (rPolyToBigint rg p)) s stream
      = Inr (vals, drop (length s * (rN rg * ?c)) stream)"
  proof (rule mapSt_consumes[OF _ enough])
    fix p and st :: bytes assume p: "p \<in> set s" and l: "rN rg * ?c \<le> length st"
    have "length (rPolyToBigint rg p) = rN rg"
      using s p coeff_ring.PolyToBigint[OF cr] by (simp add: vvalid_def)
    then show "\<exists>y. mapSt (shamir_coord (pullBig (rModulus rg)) (rModulus rg) t k) (rPolyToBigint rg p) st
        = Inr (y, drop (rN rg * ?c) st)"
      using mapSt_consumes[of "rPolyToBigint rg p" ?c "shamir_coord (pullBig (rModulus rg)) (rModulus rg) t k" st]
        shamir_coord_consumes[OF q t] l by simp
  qed
  then show ?thesis by (auto simp: shamir_deal_def)
qed

section \<open>Layouts are injective\<close>

lemma i64_inj: "- (2 ^ 63) \<le> a \<Longrightarrow> a < 2 ^ 63 \<Longrightarrow> - (2 ^ 63) \<le> b \<Longrightarrow> b < 2 ^ 63 \<Longrightarrow> i64 a = i64 b \<longleftrightarrow> a = b"
proof -
  assume r: "- (2 ^ 63) \<le> a" "a < 2 ^ 63" "- (2 ^ 63) \<le> b" "b < 2 ^ 63"
  have "sint (word_of_int a :: u64) = a" "sint (word_of_int b :: u64) = b"
    using r by (simp_all add: signed_of_int signed_take_bit_int_eq_self)
  then show ?thesis by (metis be64_inj i64_def)
qed

lemma i32_inj: "- (2 ^ 31) \<le> a \<Longrightarrow> a < 2 ^ 31 \<Longrightarrow> - (2 ^ 31) \<le> b \<Longrightarrow> b < 2 ^ 31 \<Longrightarrow> i32 a = i32 b \<longleftrightarrow> a = b"
proof -
  assume r: "- (2 ^ 31) \<le> a" "a < 2 ^ 31" "- (2 ^ 31) \<le> b" "b < 2 ^ 31"
  have "sint (word_of_int a :: u32) = a" "sint (word_of_int b :: u32) = b"
    using r by (simp_all add: signed_of_int signed_take_bit_int_eq_self)
  then show ?thesis by (metis be32_inj i32_def)
qed

definition int32s :: "int list \<Rightarrow> bool" where
  "int32s T \<longleftrightarrow> length T < 2 ^ 31 \<and> (\<forall>x \<in> set T. - (2 ^ 31) \<le> x \<and> x < 2 ^ 31)"

lemma length_i32 [simp]: "length (i32 x) = 4"
  by (simp add: i32_def)

lemma length_i64 [simp]: "length (i64 x) = 8"
  by (simp add: i64_def)

lemma concat_i32_inj:
  "length T = length T' \<Longrightarrow> \<forall>x \<in> set T. - (2 ^ 31) \<le> x \<and> x < 2 ^ 31 \<Longrightarrow>
   \<forall>x \<in> set T'. - (2 ^ 31) \<le> x \<and> x < 2 ^ 31 \<Longrightarrow>
   concat (map i32 T) @ r = concat (map i32 T') @ r' \<Longrightarrow> T = T' \<and> r = r'"
  by (induction T T' rule: list_induct2) (auto simp: i32_inj)

lemma T_bytes_append_inj:
  assumes "int32s T" "int32s T'" "T_bytes T @ r = T_bytes T' @ r'"
  shows "T = T' \<and> r = r'"
proof -
  have "i32 (int (length T)) = i32 (int (length T'))"
    and c: "concat (map i32 T) @ r = concat (map i32 T') @ r'"
    using assms(3) by (auto simp: T_bytes_def)
  then have "length T = length T'" using assms(1,2) by (simp add: i32_inj int32s_def)
  from concat_i32_inj[OF this _ _ c] show ?thesis using assms(1,2) by (simp add: int32s_def)
qed

text \<open>The signing transcript: everything in it is self-delimiting.\<close>

definition transcript_ok :: "matrix \<Rightarrow> vec \<Rightarrow> (int, matrix) gomap \<Rightarrow> int \<Rightarrow> int list \<Rightarrow> bool" where
  "transcript_ok A b D sid T \<longleftrightarrow> mat_rect A \<and> vec_rect b \<and> int32s T \<and> - (2 ^ 63) \<le> sid \<and> sid < 2 ^ 63 \<and>
     (\<forall>j \<in> set T. \<exists>m. map_of D j = Some m \<and> mat_rect m)"

lemma hash_preimage_eq:
  assumes lc: "lattice_codec (envCodec en)" and ok: "transcript_ok A b D sid T"
  shows "hash_preimage en A b D sid T =
    Inr (mat_bytes A @ vec_bytes b @ i64 sid @ T_bytes T @ concat (map mat_bytes (map (\<lambda>j. the (map_of D j)) T)))"
proof -
  have "mapM (\<lambda>i. must (encMatrix (envCodec en) (case map_of D i of None \<Rightarrow> [] | Some m \<Rightarrow> m))) T
      = Inr (map (\<lambda>j. mat_bytes (the (map_of D j))) T)"
    using ok by (intro mapM_all_Inr) (auto simp: transcript_ok_def must_def lattice_codec.encMatrix[OF lc])
  then show ?thesis
    using ok by (simp add: hash_preimage_def transcript_ok_def must_def comp_def
        lattice_codec.encMatrix[OF lc] lattice_codec.encVector[OF lc])
qed

lemma hash_preimage_inj:
  assumes lc: "lattice_codec (envCodec en)" and ok: "transcript_ok A b D sid T" "transcript_ok A' b' D' sid' T'"
    and eq: "hash_preimage en A b D sid T = hash_preimage en A' b' D' sid' T'"
  shows "A = A' \<and> b = b' \<and> sid = sid' \<and> T = T' \<and> (\<forall>j \<in> set T. map_of D j = map_of D' j)"
proof -
  let ?ms = "map (\<lambda>j. the (map_of D j)) T" and ?ms' = "map (\<lambda>j. the (map_of D' j)) T'"
  have e: "mat_bytes A @ vec_bytes b @ i64 sid @ T_bytes T @ concat (map mat_bytes ?ms)
      = mat_bytes A' @ vec_bytes b' @ i64 sid' @ T_bytes T' @ concat (map mat_bytes ?ms')"
    using eq unfolding hash_preimage_eq[OF lc ok(1)] hash_preimage_eq[OF lc ok(2)] by blast
  have v: "mat_rect A" "mat_rect A'" "vec_rect b" "vec_rect b'" "int32s T" "int32s T'"
    "- (2 ^ 63) \<le> sid" "sid < 2 ^ 63" "- (2 ^ 63) \<le> sid'" "sid' < 2 ^ 63"
    and D: "\<And>j. j \<in> set T \<Longrightarrow> \<exists>m. map_of D j = Some m \<and> mat_rect m"
    and D': "\<And>j. j \<in> set T' \<Longrightarrow> \<exists>m. map_of D' j = Some m \<and> mat_rect m"
    using ok unfolding transcript_ok_def by blast+
  have A: "A = A'" and e1: "vec_bytes b @ i64 sid @ T_bytes T @ concat (map mat_bytes ?ms)
      = vec_bytes b' @ i64 sid' @ T_bytes T' @ concat (map mat_bytes ?ms')"
    using matc.enc_append_inj[OF v(1,2) e] by blast+
  have b: "b = b'" and e2: "i64 sid @ T_bytes T @ concat (map mat_bytes ?ms) = i64 sid' @ T_bytes T' @ concat (map mat_bytes ?ms')"
    using vecc.enc_append_inj[OF v(3,4) e1] by blast+
  have s: "i64 sid = i64 sid'" and e3: "T_bytes T @ concat (map mat_bytes ?ms) = T_bytes T' @ concat (map mat_bytes ?ms')"
    using append_len_inj[of "i64 sid" "i64 sid'"] e2 by simp_all
  have sid: "sid = sid'" using s i64_inj[OF v(7-10)] by blast
  have T: "T = T'" and e4: "concat (map mat_bytes ?ms) = concat (map mat_bytes ?ms')"
    using T_bytes_append_inj[OF v(5,6) e3] by blast+
  have "\<forall>m \<in> set ?ms. mat_rect m" "\<forall>m \<in> set ?ms'. mat_rect m" using D D' by fastforce+
  then have "?ms = ?ms'" using matc.concat_enc_inj[of ?ms ?ms' "[]" "[]"] e4 T by simp
  then have "\<forall>j \<in> set T. the (map_of D j) = the (map_of D' j)" using T by simp
  then have "\<forall>j \<in> set T. map_of D j = map_of D' j" using D D' T by fastforce
  with A b sid T show ?thesis by blast
qed

section \<open>Properties\<close>

text \<open>
  The seeded dealer shares the secret. When the BLAKE3 stream holds the bytes the
  draws take, \<^verbatim>\<open>ShamirSecretSharingGeneralWithSeed\<close> returns one share of reduced
  polynomials for each of the ids \<open>0 .. k - 1\<close>, and these are, under the points
  \<open>id + 1\<close>, a \<open>t\<close>-sharing of the secret vector.
\<close>

theorem shamir_seeded_dealer:
  assumes "coeff_ring rg" "vvalid rg s" "1 \<le> t"
    and "length s * (rN rg * ((nat t - 1) * byte_len (rModulus rg))) \<le> length (blake3_stream seed)"
  shows "\<exists>sh. ShamirSecretSharingGeneralWithSeed blake3_stream rg s t k seed = Inr sh \<and>
    gokeys sh = map int [0..<nat k] \<and> shares_ok (rModulus rg) (rN rg) (length s) sh \<and>
    is_sharing (rModulus rg) (rN rg) (length s) (nat t) (map (\<lambda>(i, v). (i + 1, v)) sh) (\<lambda>p k. pcoef (s ! p) k)"
proof -
  obtain sh st' where run: "shamir_deal (pullBig (rModulus rg)) rg s t (nat k) (blake3_stream seed) = Inr (sh, st')"
    using shamir_deal_total[OF assms] by blast
  then show ?thesis
    using shamir_deal_sharing[OF assms(1,2) _ run] assms(3)
    by (simp add: ShamirSecretSharingGeneralWithSeed_def)
qed

theorem shamir_seeded_dealer_witness:
  "\<exists>sh. ShamirSecretSharingGeneralWithSeed (\<lambda>_. replicate 14 1) ref_ring [[[5, 7]]] 2 3 [] = Inr sh \<and>
    gokeys sh = map int [0..<3] \<and> shares_ok corona_q 2 1 sh \<and>
    is_sharing corona_q 2 1 2 (map (\<lambda>(i, v). (i + 1, v)) sh) (\<lambda>p k. pcoef ([[[5, 7]]] ! p) k)"
  using shamir_seeded_dealer[of ref_ring "[[[5, 7]]]" 2 "\<lambda>_. replicate 14 1" "[]" 3, OF ref.coeff_ring_axioms]
  by (simp add: ref_ring_def pvalid_def corona_q_def byte_len.simps)

text \<open>
  The full-threshold dealer. Whenever \<^verbatim>\<open>ShamirSecretSharing\<close> returns, it has dealt
  reduced shares to the ids \<open>0 .. k - 1\<close>, and the sum of the shares weighted with the
  Lagrange coefficients it was given is the secret, in every coordinate.
\<close>

theorem shamir_full_dealer:
  assumes "coeff_ring rg" "vvalid rg s" "ShamirSecretSharing rg s k lambdas st = Inr (sh, st')"
  shows "gokeys sh = map int [0..<nat k] \<and> shares_ok (rModulus rg) (rN rg) (length s) sh \<and>
    (\<forall>p < length s. \<forall>j < rN rg.
      sum_list (map (\<lambda>i. pcoef (snd (sh ! i) ! p) j * uint (hd (hd (lambdas ! i)))) [0..<nat k]) mod rModulus rg
        = pcoef (s ! p) j)"
  by (rule ShamirSecretSharing_spec[OF assms])

definition ex_rand :: rand_state where
  "ex_rand = \<lparr> PrecomputedRandomness = replicate 14 1, RandomnessIndex = 0 \<rparr>"

theorem shamir_full_dealer_witness:
  "\<exists>sh st'. ShamirSecretSharing ref_ring [[[5, 7]]] 2 [[[2]], [[1]]] ex_rand = Inr (sh, st') \<and>
     gokeys sh = [0, 1] \<and>
     (pcoef (snd (sh ! 0) ! 0) 0 * 2 + pcoef (snd (sh ! 1) ! 0) 0 * 1) mod corona_q = 5"
proof -
  have inv: "ModInverse 1 corona_q = Some 1" by code_simp
  have bl: "byte_len corona_q = 7" by (simp add: byte_len.simps corona_q_def)
  have c: "[0..<2] = [0, 1 :: nat]" by (simp add: upt_rec)
  have lam: "\<not> (\<exists>i < Suc (Suc 0). [[[2]], [[1 :: u64]]] ! i = [] \<or> hd ([[[2]], [[1 :: u64]]] ! i) = [])"
    by (auto simp: nth_Cons split: nat.splits)
  have step: "\<exists>ys. shamir_full_coord corona_q [[[2]], [[1]]] 2 x \<lparr> PrecomputedRandomness = replicate 14 1, RandomnessIndex = i \<rparr>
      = Inr (ys, \<lparr> PrecomputedRandomness = replicate 14 1, RandomnessIndex = i + 7 \<rparr>)" if "0 \<le> i" "i \<le> 7" for x i
    using that lam corona_q_pos inv
    by (simp add: shamir_full_coord_def GetRandomInt_def GetRandomBytes_def bl Let_def numeral_2_eq_2 del: corona_q_pos)
  obtain y z where "shamir_full_coord corona_q [[[2]], [[1]]] 2 (pcoef [[5, 7]] 0) ex_rand
      = Inr (y, \<lparr> PrecomputedRandomness = replicate 14 1, RandomnessIndex = 7 \<rparr>)"
    "shamir_full_coord corona_q [[[2]], [[1]]] 2 (pcoef [[5, 7]] 1) \<lparr> PrecomputedRandomness = replicate 14 1, RandomnessIndex = 7 \<rparr>
      = Inr (z, \<lparr> PrecomputedRandomness = replicate 14 1, RandomnessIndex = 14 \<rparr>)"
    using step[of 0 "pcoef [[5, 7]] 0"] step[of 7 "pcoef [[5, 7]] 1"] by (auto simp: ex_rand_def)
  then obtain sh st' where run: "ShamirSecretSharing ref_ring [[[5, 7]]] 2 [[[2]], [[1]]] ex_rand = Inr (sh, st')"
    by (simp add: ShamirSecretSharing_def ref_ring_def c)
  have "vvalid ref_ring [[[5, 7]]]" by (simp add: ref_ring_def pvalid_def corona_q_def)
  note * = shamir_full_dealer[OF ref.coeff_ring_axioms this run]
  have "gokeys sh = [0, 1]" using * by (simp add: upt_rec)
  moreover have "sum_list (map (\<lambda>i. pcoef (snd (sh ! i) ! 0) 0 * uint (hd (hd ([[[2]], [[1 :: u64]]] ! i)))) [0..<2])
      mod corona_q = 5"
    using * by (simp add: ref_ring_def pcoef_def)
  ultimately show ?thesis using run by (auto simp: upt_rec)
qed

text \<open>
  C20: the signing transcript binds. If the transcript hash of two sessions (public matrix,
  rounded key, commitments of the signers, session number, signer set) is the same, then
  the sessions agree in all of these, or the two different byte strings that were hashed
  are a collision of the suite's transcript hash.
\<close>

theorem signing_transcript_binds:
  assumes "lattice_codec (envCodec en)" "transcript_ok A b D sid T" "transcript_ok A' b' D' sid' T'"
    and "Hash en suite A b D sid T = Hash en suite A' b' D' sid' T'"
  shows "(A = A' \<and> b = b' \<and> sid = sid' \<and> T = T' \<and> (\<forall>j \<in> set T. map_of D j = map_of D' j)) \<or>
    (\<exists>x x'. hash_preimage en A b D sid T = Inr x \<and> hash_preimage en A' b' D' sid' T' = Inr x' \<and> x \<noteq> x' \<and>
       hsTranscriptHash (Resolve (envXof en) suite) [x] = hsTranscriptHash (Resolve (envXof en) suite) [x'])"
proof -
  obtain x x' where x: "hash_preimage en A b D sid T = Inr x" "hash_preimage en A' b' D' sid' T' = Inr x'"
    using hash_preimage_eq[OF assms(1,2)] hash_preimage_eq[OF assms(1,3)] by blast
  have h: "hsTranscriptHash (Resolve (envXof en) suite) [x] = hsTranscriptHash (Resolve (envXof en) suite) [x']"
    using assms(4) x by (simp add: Hash_def)
  show ?thesis
  proof (cases "x = x'")
    case True
    then show ?thesis using hash_preimage_inj[OF assms(1-3)] x by simp
  qed (use x h in blast)
qed

text \<open>A small instance of the third-party primitives, for examples.\<close>

definition ex_xof :: xof where
  "ex_xof = \<lparr> CShake256 = (\<lambda>_ _ m n. take n (m @ replicate n 1)), TupleHash256 = (\<lambda>ps n _. take n (concat ps @ replicate n 1)),
     KMAC256 = (\<lambda>k m n _. take n (k @ m @ replicate n 1)), EncodeString = len_prefixed,
     blake3 = (\<lambda>m n. take n (m @ replicate n 1)), blake3_keyed = (\<lambda>k m n. take n (k @ m @ replicate n 1)) \<rparr>"

definition ex_sampling :: "nat sampling" where
  "ex_sampling = \<lparr> NewKeyedPRNG = (\<lambda>_. 0), NewGaussianSampler = (\<lambda>_ _ s. s), gaussRead = (\<lambda>s. ([[1, word_of_nat s]], Suc s)),
     gaussPRNG = (\<lambda>s. s), NewUniformSampler = (\<lambda>_ s. s), uniformRead = (\<lambda>s. ([[3, word_of_nat s]], Suc s)),
     uniformPRNG = (\<lambda>s. s),
     NewTernarySampler = (\<lambda>_ _ s. Inr s), ternaryRead = (\<lambda>s. ([[1, 0]], Suc s)) \<rparr>"

definition ex_env :: "nat env" where
  "ex_env = \<lparr> envXof = ex_xof, envCodec = ref_codec, envSampling = ex_sampling \<rparr>"

lemma ex_env_codec: "lattice_codec (envCodec ex_env)"
  using refc.lattice_codec_axioms by (simp add: ex_env_def)

theorem signing_transcript_binds_witness:
  "Hash ex_env None [[[[1, 2]]]] [[[3, 4]]] [(0, [[[[5, 6]]]])] 7 [0] =
     Hash ex_env None [[[[1, 2]]]] [[[3, 4]]] [(1, []), (0, [[[[5, 6]]]])] 7 [0] \<and>
   ((\<forall>j \<in> set [0]. map_of [(0, [[[[5, 6 :: u64]]]])] j = map_of [(1, []), (0 :: int, [[[[5, 6]]]])] j) \<or>
    (\<exists>x x'. x \<noteq> x' \<and> hsTranscriptHash (Resolve ex_xof None) [x] = hsTranscriptHash (Resolve ex_xof None) [x']))"
proof -
  have "Hash ex_env None [[[[1, 2]]]] [[[3, 4]]] [(0, [[[[5, 6]]]])] 7 [0] =
     Hash ex_env None [[[[1, 2]]]] [[[3, 4]]] [(1, []), (0, [[[[5, 6]]]])] 7 [0]"
    by (simp add: Hash_def hash_preimage_def)
  then show ?thesis
    using signing_transcript_binds[OF ex_env_codec, of "[[[[1, 2]]]]" "[[[3, 4]]]" "[(0, [[[[5, 6]]]])]" 7 "[0]"
        "[[[[1, 2]]]]" "[[[3, 4]]]" "[(1, []), (0, [[[[5, 6]]]])]" 7 "[0]" None]
    by (auto simp: transcript_ok_def mat_rect_def vec_rect_def poly_rect_def int32s_def ex_env_def)
qed

end
