(* ===== verification/Vector_Lemmas.thy ===== *)
theory Vector_Lemmas
  imports Utils
begin

text \<open>
  The vector and matrix routines of \<^verbatim>\<open>utils/utils.go\<close> on well-formed arguments: they do
  not panic, keep well-formedness, and act coefficient by coefficient. Shared by the
  signing, threshold, DKG and resharing components.
\<close>

definition vec_ok :: "ring_ops \<Rightarrow> nat \<Rightarrow> vec \<Rightarrow> bool" where
  "vec_ok rg n v \<longleftrightarrow> length v = n \<and> vvalid rg v"

definition mat_ok :: "ring_ops \<Rightarrow> nat \<Rightarrow> nat \<Rightarrow> matrix \<Rightarrow> bool" where
  "mat_ok rg m n M \<longleftrightarrow> length M = m \<and> (\<forall>row \<in> set M. vec_ok rg n row)"

lemma vec_ok_nth: "vec_ok rg n v \<Longrightarrow> i < n \<Longrightarrow> pvalid (rModulus rg) (rN rg) (v ! i)"
  by (simp add: vec_ok_def vvalid_nth)

lemma mat_ok_nth: "mat_ok rg m n M \<Longrightarrow> i < m \<Longrightarrow> vec_ok rg n (M ! i)"
  by (simp add: mat_ok_def)

lemma vec_ok_replicate: "pvalid (rModulus rg) (rN rg) p \<Longrightarrow> vec_ok rg n (replicate n p)"
  by (auto simp: vec_ok_def vvalid_def)

lemma vec_ok_mapI:
  "length xs = n \<Longrightarrow> (\<And>x. x \<in> set xs \<Longrightarrow> pvalid (rModulus rg) (rN rg) (f x)) \<Longrightarrow> vec_ok rg n (map f xs)"
  by (auto simp: vec_ok_def vvalid_def)

lemma vec_ok_eqI:
  assumes "vec_ok rg n a" "vec_ok rg n b"
    and "\<And>i k. i < n \<Longrightarrow> k < rN rg \<Longrightarrow> pcoef (a ! i) k = pcoef (b ! i) k"
  shows "a = b"
  by (rule nth_equalityI)
     (use assms in \<open>auto simp: vec_ok_def intro!: pvalid_eqI[OF vec_ok_nth[OF assms(1)] vec_ok_nth[OF assms(2)]]\<close>)

context coeff_ring
begin

lemma vec_ok_InitializeVector: "vec_ok rg n (InitializeVector rg n)"
  by (simp add: InitializeVector_def vec_ok_replicate valid_NewPoly)

lemma mat_ok_InitializeMatrix: "mat_ok rg m n (InitializeMatrix rg m n)"
  by (auto simp: InitializeMatrix_def mat_ok_def intro: vec_ok_replicate valid_NewPoly)

lemma pcoef_NewPoly [simp]: "k < rN rg \<Longrightarrow> pcoef (rNewPoly rg) k = 0"
  by (simp add: NewPoly pcoef_def)

lemma pcoef_Initialize [simp]: "i < n \<Longrightarrow> k < rN rg \<Longrightarrow> pcoef (InitializeVector rg n ! i) k = 0"
  by (simp add: InitializeVector_def)

lemma vec_ok_map2:
  assumes "vec_ok rg n a" "vec_ok rg n b"
    and "\<And>x y. pvalid (rModulus rg) (rN rg) x \<Longrightarrow> pvalid (rModulus rg) (rN rg) y \<Longrightarrow> pvalid (rModulus rg) (rN rg) (f x y)"
  shows "vec_ok rg n (map2 f a b)"
  using assms(1,2) by (auto simp: vec_ok_def vvalid_def intro!: assms(3) dest: set_zip_leftD set_zip_rightD)

lemma VectorAdd_ok:
  assumes "vec_ok rg n a" "vec_ok rg n b" "length res = n"
  shows "VectorAdd rg a b res = Inr (map2 (rAdd rg) a b)" "vec_ok rg n (map2 (rAdd rg) a b)"
  using assms vec_ok_map2[OF assms(1,2) valid_Add] by (simp_all add: VectorAdd_def vector_op_def vec_ok_def)

lemma VectorSub_ok:
  assumes "vec_ok rg n a" "vec_ok rg n b" "length res = n"
  shows "VectorSub rg a b res = Inr (map2 (rSub rg) a b)" "vec_ok rg n (map2 (rSub rg) a b)"
  using assms vec_ok_map2[OF assms(1,2) valid_Sub] by (simp_all add: VectorSub_def vector_op_def vec_ok_def)

lemma pcoef_Add: "pvalid (rModulus rg) (rN rg) a \<Longrightarrow> pvalid (rModulus rg) (rN rg) b \<Longrightarrow> k < rN rg \<Longrightarrow>
    pcoef (rAdd rg a b) k = (pcoef a k + pcoef b k) mod rModulus rg"
  using q_simps by (simp add: Add)

lemma pcoef_Sub: "pvalid (rModulus rg) (rN rg) a \<Longrightarrow> pvalid (rModulus rg) (rN rg) b \<Longrightarrow> k < rN rg \<Longrightarrow>
    pcoef (rSub rg a b) k = (pcoef a k - pcoef b k) mod rModulus rg"
  using q_simps by (simp add: Sub)

lemma pcoef_VectorAdd:
  assumes "vec_ok rg n a" "vec_ok rg n b" "i < n" "k < rN rg"
  shows "pcoef (map2 (rAdd rg) a b ! i) k = (pcoef (a ! i) k + pcoef (b ! i) k) mod rModulus rg"
  using assms vec_ok_nth[OF assms(1,3)] vec_ok_nth[OF assms(2,3)] by (simp add: pcoef_Add vec_ok_def)

lemma pcoef_VectorSub:
  assumes "vec_ok rg n a" "vec_ok rg n b" "i < n" "k < rN rg"
  shows "pcoef (map2 (rSub rg) a b ! i) k = (pcoef (a ! i) k - pcoef (b ! i) k) mod rModulus rg"
  using assms vec_ok_nth[OF assms(1,3)] vec_ok_nth[OF assms(2,3)] by (simp add: pcoef_Sub vec_ok_def)

text \<open>Adding back what was subtracted.\<close>

lemma Add_Sub_cancel:
  assumes a: "pvalid (rModulus rg) (rN rg) a" and b: "pvalid (rModulus rg) (rN rg) b"
  shows "rAdd rg a (rSub rg b a) = b"
proof (rule pvalid_eqI[OF valid_Add[OF a valid_Sub[OF b a]] b])
  fix k assume k: "k < rN rg"
  have "pcoef (rAdd rg a (rSub rg b a)) k = (pcoef a k + (pcoef b k - pcoef a k) mod rModulus rg) mod rModulus rg"
    using k by (simp add: pcoef_Add pcoef_Sub a b valid_Sub)
  also have "\<dots> = pcoef b k" using pcoef_mod[OF b k] by (simp add: mod_add_right_eq)
  finally show "pcoef (rAdd rg a (rSub rg b a)) k = pcoef b k" .
qed

lemma map2_Add_Sub_cancel:
  "vec_ok rg n a \<Longrightarrow> vec_ok rg n b \<Longrightarrow> map2 (rAdd rg) a (map2 (rSub rg) b a) = b"
  by (rule nth_equalityI) (auto simp: vec_ok_def intro!: Add_Sub_cancel vvalid_nth)

text \<open>A loop that adds vectors into an accumulator.\<close>

lemma foldM_VectorAdd:
  assumes "vec_ok rg n acc" "\<forall>x \<in> set xs. vec_ok rg n (f x)"
  shows "\<exists>v. foldM (\<lambda>a x. VectorAdd rg a (f x) a) acc xs = Inr v \<and> vec_ok rg n v \<and>
    (\<forall>i < n. \<forall>k < rN rg. pcoef (v ! i) k = (pcoef (acc ! i) k + (\<Sum>x\<leftarrow>xs. pcoef (f x ! i) k)) mod rModulus rg)"
  using assms
proof (induction xs arbitrary: acc)
  case Nil
  then show ?case using pcoef_mod[OF vec_ok_nth] by (auto simp: vec_ok_nth)
next
  case (Cons x xs)
  let ?acc = "map2 (rAdd rg) acc (f x)"
  have fx: "vec_ok rg n (f x)" using Cons.prems by simp
  have len: "length acc = n" using Cons.prems(1) by (simp add: vec_ok_def)
  note add = VectorAdd_ok[OF Cons.prems(1) fx len]
  have IH: "\<exists>v. foldM (\<lambda>a x. VectorAdd rg a (f x) a) ?acc xs = Inr v \<and> vec_ok rg n v \<and>
    (\<forall>i < n. \<forall>k < rN rg. pcoef (v ! i) k = (pcoef (?acc ! i) k + (\<Sum>x\<leftarrow>xs. pcoef (f x ! i) k)) mod rModulus rg)"
    by (rule Cons.IH[OF add(2)]) (use Cons.prems(2) in simp)
  have "(pcoef (?acc ! i) k + (\<Sum>x\<leftarrow>xs. pcoef (f x ! i) k)) mod rModulus rg
      = (pcoef (acc ! i) k + (\<Sum>x\<leftarrow>x # xs. pcoef (f x ! i) k)) mod rModulus rg" if "i < n" "k < rN rg" for i k
    unfolding pcoef_VectorAdd[OF Cons.prems(1) fx that] by (simp add: mod_add_left_eq add.assoc)
  then show ?case using IH add(1) by fastforce
qed

end

context lattice_ring
begin

lemma valid_row_mul:
  "vvalid rg row \<Longrightarrow> vvalid rg v \<Longrightarrow> pvalid (rModulus rg) (rN rg) acc \<Longrightarrow>
   pvalid (rModulus rg) (rN rg) (row_mul rg row v acc)"
  using q_simps by (simp add: row_mul_spec)

lemma MatrixVectorMul_ok:
  assumes M: "mat_ok rg m n M" and v: "vec_ok rg n v" and res: "vec_ok rg m res"
  shows "MatrixVectorMul rg M v res = Inr (map2 (\<lambda>row acc. row_mul rg row v acc) M res)"
    and "vec_ok rg m (map2 (\<lambda>row acc. row_mul rg row v acc) M res)"
proof -
  have len: "length M = m" "length res = m" "length v = n" "\<And>i. i < m \<Longrightarrow> length (M ! i) = n"
    using M v res mat_ok_nth[OF M] by (auto simp: mat_ok_def vec_ok_def)
  have "map (\<lambda>i. if i < length M then row_mul rg (M ! i) v (res ! i) else res ! i) [0..<length res]
      = map2 (\<lambda>row acc. row_mul rg row v acc) M res"
    by (rule nth_equalityI) (simp_all add: len)
  then show "MatrixVectorMul rg M v res = Inr (map2 (\<lambda>row acc. row_mul rg row v acc) M res)"
    by (simp add: MatrixVectorMul_def len)
  show "vec_ok rg m (map2 (\<lambda>row acc. row_mul rg row v acc) M res)"
    using len mat_ok_nth[OF M] vec_ok_nth[OF res] v
    by (auto simp: vec_ok_def vvalid_def[of _ "map2 _ _ _"] set_zip intro!: valid_row_mul)
qed

lemma VectorPolyMul_ok:
  assumes v: "vec_ok rg n v" and p: "pvalid (rModulus rg) (rN rg) p" and res: "length res = n"
  shows "VectorPolyMul rg v p res = Inr (map (\<lambda>x. rMulCoeffsMontgomery rg x p) v)"
    and "vec_ok rg n (map (\<lambda>x. rMulCoeffsMontgomery rg x p) v)"
  using v res p by (auto simp: VectorPolyMul_def vec_ok_def vvalid_def intro: valid_Mul)

lemma ConvertVectorFromNTT_ok: "vec_ok rg n v \<Longrightarrow> vec_ok rg n (ConvertVectorFromNTT rg v)"
  by (auto simp: ConvertVectorFromNTT_def vec_ok_def vvalid_def intro: valid_INTT valid_IMForm)

lemma ConvertVectorToNTT_ok: "vec_ok rg n v \<Longrightarrow> vec_ok rg n (ConvertVectorToNTT rg v)"
  by (auto simp: ConvertVectorToNTT_def vec_ok_def vvalid_def intro: valid_NTT valid_MForm)

end

end
