(* ===== verification/Sign.thy ===== *)
theory Sign
  imports Primitives Vector_Lemmas
begin

text \<open>
  \<^verbatim>\<open>sign/sign.go\<close> and \<^verbatim>\<open>sign/config.go\<close>: key generation by a trusted dealer, the two
  signing rounds, combination and verification. A \<^verbatim>\<open>Party\<close> is a record; a method that
  changes it returns the changed record beside its result.
\<close>

section \<open>Parameters\<close>

definition dimM :: nat where "dimM = 8"
definition dimN :: nat where "dimN = 7"
definition Dbar :: nat where "Dbar = 48"
definition Bsquare :: int where "Bsquare = 184960669042442604975662780477"
definition Kappa :: nat where "Kappa = 23"
definition LogN :: nat where "LogN = 8"
definition KeySize :: nat where "KeySize = 32"
definition Xi :: nat where "Xi = 30"
definition Nu :: nat where "Nu = 29"
definition QNu :: int where "QNu = 0x80000"
definition QXi :: int where "QXi = 0x40000"

section \<open>The party\<close>

text \<open>\<open>pRand\<close> is what is left of the party's own randomness source; \<open>None\<close> is a nil
  reader, for which the system source is read.\<close>

record Party =
  pID :: int
  pRing :: ring_ops
  pRingXi :: ring_ops
  pRingNu :: ring_ops
  pSkShare :: vec
  pSeed :: "(int, bytes list) gomap"
  pR :: matrix
  pC :: poly
  pH :: vec
  pLambda :: poly
  pD :: matrix
  pMACKeys :: "(int, bytes) gomap"
  pMACs :: "(int, bytes) gomap"
  pSuite :: "hash_suite option"
  pRand :: "bytes option"

definition NewPartyWithSuite ::
  "xof \<Rightarrow> bytes \<Rightarrow> int \<Rightarrow> ring_ops \<Rightarrow> ring_ops \<Rightarrow> ring_ops \<Rightarrow> hash_suite option \<Rightarrow> Party" where
  "NewPartyWithSuite x rand_Reader ident r r_xi r_nu suite =
     \<lparr> pID = ident, pRing = r, pRingXi = r_xi, pRingNu = r_nu, pSkShare = [], pSeed = [], pR = [],
       pC = [], pH = [], pLambda = [], pD = [], pMACKeys = [], pMACs = [],
       pSuite = Some (Resolve x suite), pRand = Some rand_Reader \<rparr>"

definition NewParty :: "xof \<Rightarrow> bytes \<Rightarrow> int \<Rightarrow> ring_ops \<Rightarrow> ring_ops \<Rightarrow> ring_ops \<Rightarrow> Party" where
  "NewParty x rand_Reader ident r r_xi r_nu =
     NewPartyWithSuite x rand_Reader ident r r_xi r_nu (Some (Default x))"

section \<open>Key generation\<close>

definition gomap_at :: "('k, 'v list) gomap \<Rightarrow> 'k \<Rightarrow> 'v list" where
  "gomap_at m k = (case map_of m k of None \<Rightarrow> [] | Some v \<Rightarrow> v)"

text \<open>One pass of the inner loop over \<open>j\<close>: a seed, and a MAC key for a pair that has
  none. The maps are \<open>seeds\<close> and \<open>MACKeys\<close>; a write through a missing \<open>MACKeys[i]\<close>
  panics.\<close>

type_synonym mac_table = "(int, (int, bytes) gomap) gomap"

definition mac_get :: "mac_table \<Rightarrow> int \<Rightarrow> int \<Rightarrow> bytes option" where
  "mac_get mk i j = (case map_of mk i of None \<Rightarrow> None | Some row \<Rightarrow> map_of row j)"

definition mac_set :: "mac_table \<Rightarrow> int \<Rightarrow> int \<Rightarrow> bytes \<Rightarrow> mac_table res" where
  "mac_set mk i j b =
     (case map_of mk i of None \<Rightarrow> Inl Panic | Some row \<Rightarrow> Inr (AList.update i (AList.update j b row) mk))"

definition fresh_row :: "mac_table \<Rightarrow> int \<Rightarrow> mac_table" where
  "fresh_row mk j = (if map_of mk j = None then AList.update j [] mk else mk)"

definition gen_pair ::
  "int \<Rightarrow> bytes list \<times> mac_table \<times> rand_state \<Rightarrow> int \<Rightarrow> (bytes list \<times> mac_table \<times> rand_state) res" where
  "gen_pair i = (\<lambda>(row, mk, st) j.
     rbind (GetRandomBytes st (int KeySize)) (\<lambda>(seed, st1).
     if i = j then Inr (row @ [seed], mk, st1)
     else let mk1 = fresh_row mk j in
       if mac_get mk1 i j = None \<and> mac_get mk1 j i = None
       then rbind (GetRandomBytes st1 (int KeySize)) (\<lambda>(key, st2).
            rbind (mac_set mk1 i j key) (\<lambda>mk2.
            rbind (mac_set mk2 j i key) (\<lambda>mk3.
            Inr (row @ [seed], mk3, st2))))
       else Inr (row @ [seed], mk1, st1)))"

definition gen_row ::
  "nat \<Rightarrow> (int, bytes list) gomap \<times> mac_table \<times> rand_state \<Rightarrow> int \<Rightarrow>
   ((int, bytes list) gomap \<times> mac_table \<times> rand_state) res" where
  "gen_row K = (\<lambda>(seeds, mk, st) i.
     rbind (foldM (gen_pair i) ([], mk, st) (map int [0..<K])) (\<lambda>(row, mk', st').
     Inr (AList.update i row seeds, mk', st')))"

definition gen_tables ::
  "nat \<Rightarrow> rand_state \<Rightarrow> ((int, bytes list) gomap \<times> mac_table \<times> rand_state) res" where
  "gen_tables K st = foldM (gen_row K) ([], [(0, [])], st) (map int [0..<K])"

text \<open>\<^verbatim>\<open>Gen\<close>. \<open>K\<close> and \<open>Threshold\<close> are package variables; \<open>us\<close> is the state of the uniform
  sampler. The last component of \<open>Gen_state\<close> is what \<^verbatim>\<open>Gen\<close> leaves of the precomputed
  randomness, another package variable.\<close>

definition Gen_state ::
  "'s env \<Rightarrow> int \<Rightarrow> int \<Rightarrow> ring_ops \<Rightarrow> ring_ops \<Rightarrow> 's \<Rightarrow> bytes \<Rightarrow> vec \<Rightarrow>
   (matrix \<times> shares \<times> (int, bytes list) gomap \<times> mac_table \<times> vec \<times> rand_state) res" where
  "Gen_state en K Threshold r r_xi us trustedDealerKey lagrangeCoefficients =
     (let sm = envSampling en;
          (A, us') = SamplePolyMatrix r dimM dimN (uniformRead sm) True True us;
          precomputeSize = K * K * int KeySize
            + int (rN r) * int dimN * (K - 1) * int (byte_len (rModulus r)) + K * (K - 1) * int KeySize in
      rbind (PrecomputeRandomness (blake3 (envXof en)) precomputeSize trustedDealerKey) (\<lambda>st.
      let gs = NewGaussianSampler sm r GaussE (NewKeyedPRNG sm trustedDealerKey);
          (s, gs1) = SamplePolyVector r dimN (gaussRead sm) False False gs in
      rbind (ShamirSecretSharing r s Threshold lagrangeCoefficients st) (\<lambda>(sh, st1).
      let skShares = map (\<lambda>(i, v). (i, ConvertVectorToNTT r v)) sh;
          s1 = ConvertVectorToNTT r s;
          (e, gs2) = SamplePolyVector r dimM (gaussRead sm) True True gs1 in
      rbind (MatrixVectorMul r A s1 (InitializeVector r dimM)) (\<lambda>b0.
      rbind (VectorAdd r b0 e b0) (\<lambda>b1.
      rbind (RoundVector r_xi (ConvertVectorFromNTT r b1) Xi) (\<lambda>bTilde.
      rbind (gen_tables (nat K) st1) (\<lambda>(seeds, MACKeys, st2).
      Inr (A, skShares, seeds, MACKeys, bTilde, st2))))))))"

definition Gen ::
  "'s env \<Rightarrow> int \<Rightarrow> int \<Rightarrow> ring_ops \<Rightarrow> ring_ops \<Rightarrow> 's \<Rightarrow> bytes \<Rightarrow> vec \<Rightarrow>
   (matrix \<times> shares \<times> (int, bytes list) gomap \<times> mac_table \<times> vec) res" where
  "Gen en K Threshold r r_xi us trustedDealerKey lagrangeCoefficients =
     rbind (Gen_state en K Threshold r r_xi us trustedDealerKey lagrangeCoefficients)
       (\<lambda>(A, skShares, seeds, MACKeys, bTilde, _). Inr (A, skShares, seeds, MACKeys, bTilde))"

section \<open>Round 1\<close>

definition isZero32 :: "bytes \<Rightarrow> bool" where
  "isZero32 b \<longleftrightarrow> ConstantTimeCompare b (replicate 32 0) = 1"

text \<open>The nonce matrices \<open>r* | R\<close> and \<open>e* | E\<close> sampled from one keyed generator.\<close>

definition round1_nonces :: "'s env \<Rightarrow> ring_ops \<Rightarrow> bytes \<Rightarrow> matrix \<times> matrix" where
  "round1_nonces en r skHash =
     (let sm = envSampling en;
          g0 = NewGaussianSampler sm r GaussStar (NewKeyedPRNG sm skHash);
          (r_star, g1) = SamplePolyVector r dimN (gaussRead sm) True True g0;
          (e_star, g2) = SamplePolyVector r dimM (gaussRead sm) True True g1;
          h0 = NewGaussianSampler sm r GaussE (gaussPRNG sm g2);
          (R_i, h1) = SamplePolyMatrix r dimN Dbar (gaussRead sm) True True h0;
          (E_i, h2) = SamplePolyMatrix r dimM Dbar (gaussRead sm) True True h1
      in (map2 (#) r_star R_i, map2 (#) e_star E_i))"

definition round1_MACs :: "'s env \<Rightarrow> Party \<Rightarrow> matrix \<Rightarrow> int \<Rightarrow> int list \<Rightarrow> (int, bytes) gomap res" where
  "round1_MACs en party D sid T =
     foldM (\<lambda>MACs j. if j = pID party then Inr MACs
       else rbind (GenerateMAC en (pSuite party) D (gomap_at (pMACKeys party) j) (pID party) sid T j False) (\<lambda>m.
         Inr (AList.update j m MACs))) [] T"

definition SignRound1 ::
  "'s env \<Rightarrow> bytes \<Rightarrow> Party \<Rightarrow> matrix \<Rightarrow> int \<Rightarrow> bytes \<Rightarrow> int list \<Rightarrow>
   Party \<times> (matrix \<times> (int, bytes) gomap) res" where
  "SignRound1 en rand_Reader party A sid PRFKey T =
     (let r = pRing party;
          sessionID = DeriveSessionID en (pSuite party) sid T in
      if isZero32 sessionID then (party, Inl ErrDegenerateSession)
      else case ReadFull (case pRand party of None \<Rightarrow> rand_Reader | Some src \<Rightarrow> src) 32 of
        Inl e \<Rightarrow> (party \<lparr> pRand := map_option (\<lambda>_. []) (pRand party) \<rparr>, Inl e)
      | Inr (salt, rest) \<Rightarrow>
          let party1 = party \<lparr> pRand := map_option (\<lambda>_. rest) (pRand party) \<rparr> in
          if isZero32 salt then (party1, Inl ErrDegenerateSession)
          else case PRNGKeyForRound en (pSuite party) (pSkShare party) sessionID salt of
            Inl e \<Rightarrow> (party1, Inl e)
          | Inr skHash \<Rightarrow>
              let (R, E) = round1_nonces en r skHash; party2 = party1 \<lparr> pR := R \<rparr> in
              case rbind (MatrixMatrixMul r A R (InitializeMatrix r dimM (Dbar + 1))) (\<lambda>D0. MatrixAdd r E D0 D0) of
                Inl e \<Rightarrow> (party2, Inl e)
              | Inr D \<Rightarrow>
                  let party3 = party2 \<lparr> pD := D \<rparr> in
                  (party3, rbind (round1_MACs en party3 D sid T) (\<lambda>MACs. Inr (D, MACs))))"

text \<open>\<^verbatim>\<open>DeterministicNonceSource\<close>: \<open>keyed\<close> is the stream of the keyed generator.\<close>

definition nonce_source_key :: "bytes \<Rightarrow> int \<Rightarrow> bytes" where
  "nonce_source_key seed partyIndex = seed @ str_bytes ''corona.sign.nonce-salt.v1'' @ i32 partyIndex"

definition DeterministicNonceSource :: "(bytes \<Rightarrow> bytes) \<Rightarrow> bytes \<Rightarrow> int \<Rightarrow> bytes" where
  "DeterministicNonceSource keyed seed partyIndex = keyed (nonce_source_key seed partyIndex)"

section \<open>Rank and norm\<close>

text \<open>Slot \<open>i\<close> of the matrix without its first column.\<close>

definition slot_matrix :: "ring_ops \<Rightarrow> matrix \<Rightarrow> nat \<Rightarrow> int list list" where
  "slot_matrix r D i = map (\<lambda>row. map (\<lambda>p. rPolyToBigint r p ! i mod rModulus r) (tl row)) D"

fun all_full_rank :: "ring_ops \<Rightarrow> matrix \<Rightarrow> nat list \<Rightarrow> bool res" where
  "all_full_rank r D [] = Inr True"
| "all_full_rank r D (i # is) =
     rbind (GaussianEliminationModQ (slot_matrix r D i) (rModulus r)) (\<lambda>ok.
     if ok then all_full_rank r D is else Inr False)"

text \<open>An empty first row makes a negative allocation; rows of another length than the
  first leave nil entries or index past the allocation.\<close>

definition FullRankCheck :: "matrix \<Rightarrow> ring_ops \<Rightarrow> bool res" where
  "FullRankCheck D r =
     (if rN r = 0 then Inr True
      else if D \<noteq> [] \<and> (hd D = [] \<or> (\<exists>row \<in> set D. length row \<noteq> length (hd D))) then Inl Panic
      else all_full_rank r D [0..<rN r])"

definition centered :: "int \<Rightarrow> int" where
  "centered c = (if c > corona_q div 2 then c - corona_q else c)"

definition sum_squares :: "ring_ops \<Rightarrow> vec \<Rightarrow> int" where
  "sum_squares r v = sum_list (map (\<lambda>p. sum_list (map (\<lambda>c. centered c * centered c) (rPolyToBigint r p))) v)"

text \<open>The coefficient buffers have \<open>N\<close> entries, one per polynomial of the vector.\<close>

definition CheckL2Norm :: "ring_ops \<Rightarrow> vec \<Rightarrow> vec \<Rightarrow> bool res" where
  "CheckL2Norm r Delta z =
     (if rN r < length Delta \<or> rN r < length z then Inl Panic
      else Inr (sum_squares r Delta + sum_squares r z \<le> Bsquare))"

section \<open>Round 2\<close>

fun check_MACs ::
  "'s env \<Rightarrow> Party \<Rightarrow> (int, matrix) gomap \<Rightarrow> mac_table \<Rightarrow> int \<Rightarrow> int list \<Rightarrow> int list \<Rightarrow> bool res" where
  "check_MACs en party D MACs sid T [] = Inr True"
| "check_MACs en party D MACs sid T (j # js) =
     (if j = pID party then check_MACs en party D MACs sid T js
      else rbind (GenerateMAC en (pSuite party) (gomap_at D j) (gomap_at (pMACKeys party) j) (pID party) sid T j True)
        (\<lambda>expectedMAC.
          if ConstantTimeCompare (gomap_at (gomap_at MACs j) (pID party)) expectedMAC \<noteq> 1 then Inr False
          else check_MACs en party D MACs sid T js))"

text \<open>The sum of the commitments of \<open>T\<close>; \<open>None\<close> is the early \<^verbatim>\<open>return false\<close>.\<close>

fun sum_D :: "ring_ops \<Rightarrow> (int, matrix) gomap \<Rightarrow> matrix \<Rightarrow> int list \<Rightarrow> matrix option res" where
  "sum_D r D DSum [] = Inr (Some DSum)"
| "sum_D r D DSum (j # js) =
     (case map_of D j of None \<Rightarrow> Inr None
      | Some D_j \<Rightarrow> (case MatrixAdd r D_j DSum DSum of
           Inr DSum' \<Rightarrow> sum_D r D DSum' js
         | Inl e \<Rightarrow> if e = Panic then Inl Panic else Inr None))"

definition SignRound2Preprocess ::
  "'s env \<Rightarrow> Party \<Rightarrow> matrix \<Rightarrow> vec \<Rightarrow> (int, matrix) gomap \<Rightarrow> mac_table \<Rightarrow> int \<Rightarrow> int list \<Rightarrow>
   (matrix \<times> bytes) option res" where
  "SignRound2Preprocess en party A b D MACs sid T =
     rbind (Hash en (pSuite party) A b D sid T) (\<lambda>transcriptHash.
     rbind (check_MACs en party D MACs sid T T) (\<lambda>ok.
     if \<not> ok then Inr None
     else rbind (sum_D (pRing party) D (InitializeMatrix (pRing party) dimM (Dbar + 1)) T) (\<lambda>s.
       (case s of None \<Rightarrow> Inr None
        | Some DSum \<Rightarrow>
            rbind (FullRankCheck DSum (pRing party)) (\<lambda>full.
            if \<not> full then Inr None else Inr (Some (DSum, transcriptHash)))))))"

definition seed_at :: "(int, bytes list) gomap \<Rightarrow> int \<Rightarrow> int \<Rightarrow> bytes res" where
  "seed_at seeds i j =
     (let row = gomap_at seeds i in
      if 0 \<le> j \<and> nat j < length row then Inr (row ! nat j) else Inl Panic)"

text \<open>The sum of the masks of a list of seeds.\<close>

definition mask_sum ::
  "'s env \<Rightarrow> Party \<Rightarrow> bytes \<Rightarrow> string \<Rightarrow> bytes \<Rightarrow> (int \<Rightarrow> bytes res) \<Rightarrow> int list \<Rightarrow> vec res" where
  "mask_sum en party PRFKey mu transcriptHash seed T =
     foldM (\<lambda>mask j. rbind (seed j) (\<lambda>sd.
       VectorAdd (pRing party) mask (PRF en (pSuite party) (pRing party) sd PRFKey mu transcriptHash dimN) mask))
       (InitializeVector (pRing party) dimN) T"

definition round2_u :: "'s env \<Rightarrow> Party \<Rightarrow> bytes \<Rightarrow> string \<Rightarrow> vec" where
  "round2_u en party transcriptHash mu =
     rMForm (pRing party) (rNTT (pRing party) (rNewMonomialXi (pRing party) 0)) #
       GaussianHash en (pSuite party) (pRing party) transcriptHash mu Dbar"

definition round2_challenge ::
  "'s env \<Rightarrow> Party \<Rightarrow> matrix \<Rightarrow> vec \<Rightarrow> matrix \<Rightarrow> string \<Rightarrow> vec \<Rightarrow> (vec \<times> poly) res" where
  "round2_challenge en party A bTilde DSum mu u =
     (let r = pRing party in
      rbind (MatrixVectorMul r DSum u (InitializeVector r dimM)) (\<lambda>h.
      rbind (RoundVector (pRingNu party) (ConvertVectorFromNTT r h) Nu) (\<lambda>roundedH.
      rbind (LowNormHash en (pSuite party) r A bTilde roundedH mu Kappa) (\<lambda>c.
      Inr (roundedH, c)))))"

definition round2_response ::
  "'s env \<Rightarrow> Party \<Rightarrow> string \<Rightarrow> int list \<Rightarrow> bytes \<Rightarrow> bytes \<Rightarrow> vec \<Rightarrow> poly \<Rightarrow> vec res" where
  "round2_response en party mu T PRFKey transcriptHash u c =
     (let r = pRing party in
      rbind (mask_sum en party PRFKey mu transcriptHash (\<lambda>j. seed_at (pSeed party) (pID party) j) T) (\<lambda>mask.
      rbind (mask_sum en party PRFKey mu transcriptHash (\<lambda>j. seed_at (pSeed party) j (pID party)) T) (\<lambda>maskPrime.
      rbind (MatrixVectorMul r (pR party) u (InitializeVector r dimN)) (\<lambda>z0.
      rbind (VectorAdd r z0 maskPrime z0) (\<lambda>z1.
      rbind (VectorPolyMul r (pSkShare party) (pLambda party) (InitializeVector r dimN)) (\<lambda>sl.
      rbind (VectorPolyMul r sl c sl) (\<lambda>scl.
      rbind (VectorAdd r z1 scl z1) (\<lambda>z2.
      VectorSub r z2 mask z2))))))))"

definition SignRound2 ::
  "'s env \<Rightarrow> Party \<Rightarrow> matrix \<Rightarrow> vec \<Rightarrow> matrix \<Rightarrow> int \<Rightarrow> string \<Rightarrow> int list \<Rightarrow> bytes \<Rightarrow> bytes \<Rightarrow>
   (Party \<times> vec) res" where
  "SignRound2 en party A bTilde DSum sid mu T PRFKey transcriptHash =
     (let u = round2_u en party transcriptHash mu in
      rbind (round2_challenge en party A bTilde DSum mu u) (\<lambda>(roundedH, c).
      rbind (round2_response en party mu T PRFKey transcriptHash u c) (\<lambda>z_i.
      Inr (party \<lparr> pH := roundedH, pC := c \<rparr>, z_i))))"

section \<open>Combination and verification\<close>

text \<open>\<^verbatim>\<open>round(A z - b c)\<close>, shared by the combiner and the verifier.\<close>

definition rounded_Az_bc ::
  "ring_ops \<Rightarrow> ring_ops \<Rightarrow> ring_ops \<Rightarrow> matrix \<Rightarrow> vec \<Rightarrow> vec \<Rightarrow> poly \<Rightarrow> vec res" where
  "rounded_Az_bc r r_xi r_nu A z bTilde c =
     rbind (MatrixVectorMul r A z (InitializeVector r dimM)) (\<lambda>Az.
     rbind (RestoreVector r bTilde Xi) (\<lambda>b.
     rbind (VectorPolyMul r (ConvertVectorToNTT r b) c (InitializeVector r dimM)) (\<lambda>bc.
     rbind (VectorSub r Az bc Az) (\<lambda>Az_bc.
     RoundVector r_nu (ConvertVectorFromNTT r Az_bc) Nu))))"

definition SignFinalize ::
  "Party \<Rightarrow> (int, vec) gomap \<Rightarrow> matrix \<Rightarrow> vec \<Rightarrow> (poly \<times> vec \<times> vec) res" where
  "SignFinalize party z A bTilde =
     (let r = pRing party; r_nu = pRingNu party in
      rbind (foldM (\<lambda>z_sum (j, z_j). VectorAdd r z_sum z_j z_sum) (InitializeVector r dimN) z) (\<lambda>z_sum.
      rbind (rounded_Az_bc r (pRingXi party) r_nu A z_sum bTilde (pC party)) (\<lambda>roundedAz_bc.
      rbind (VectorSub r_nu (pH party) roundedAz_bc (InitializeVector r_nu dimM)) (\<lambda>Delta.
      Inr (pC party, z_sum, Delta)))))"

definition VerifyWithSuite ::
  "'s env \<Rightarrow> hash_suite option \<Rightarrow> ring_ops \<Rightarrow> ring_ops \<Rightarrow> ring_ops \<Rightarrow> vec \<Rightarrow> matrix \<Rightarrow> string \<Rightarrow> vec \<Rightarrow>
   poly \<Rightarrow> vec \<Rightarrow> bool res" where
  "VerifyWithSuite en suite r r_xi r_nu z A mu bTilde c roundedDelta =
     (if length A \<noteq> dimM \<or> length roundedDelta \<noteq> dimM then Inr False
      else if \<exists>row \<in> set A. length row \<noteq> length (hd A) then Inr False
      else if length z \<noteq> length (hd A) then Inr False
      else
        rbind (rounded_Az_bc r r_xi r_nu A z bTilde c) (\<lambda>roundedAz_bc.
        rbind (VectorAdd r_nu roundedAz_bc roundedDelta (InitializeVector r_nu dimM)) (\<lambda>Az_bc_Delta.
        rbind (LowNormHash en suite r A bTilde Az_bc_Delta mu Kappa) (\<lambda>computedC.
        if \<not> rEqual r c computedC then Inr False
        else rbind (RestoreVector r roundedDelta Nu) (\<lambda>Delta.
          CheckL2Norm r Delta (ConvertVectorFromNTT r z))))))"

definition Verify ::
  "'s env \<Rightarrow> ring_ops \<Rightarrow> ring_ops \<Rightarrow> ring_ops \<Rightarrow> vec \<Rightarrow> matrix \<Rightarrow> string \<Rightarrow> vec \<Rightarrow> poly \<Rightarrow> vec \<Rightarrow> bool res" where
  "Verify en r r_xi r_nu z A mu bTilde c roundedDelta =
     VerifyWithSuite en None r r_xi r_nu z A mu bTilde c roundedDelta"

section \<open>Rounding between rings of one degree\<close>

lemma hd_level: "length p = 1 \<Longrightarrow> p = [hd p]"
  by (cases p) auto

definition shape_ok :: "nat \<Rightarrow> vec \<Rightarrow> bool" where
  "shape_ok N v \<longleftrightarrow> (\<forall>p \<in> set v. length p = 1 \<and> length (hd p) = N)"

lemma vec_ok_shape: "vec_ok r n v \<Longrightarrow> shape_ok (rN r) v"
  by (auto simp: vec_ok_def vvalid_def pvalid_def shape_ok_def)

lemma RestoreVector_ok:
  "coeff_ring r \<Longrightarrow> shape_ok (rN r) v \<Longrightarrow> RestoreVector r v rv = Inr (map (\<lambda>p. [map (push_bit rv) (hd p)]) v)"
  unfolding RestoreVector_def by (rule mapM_all_Inr) (auto simp: shape_ok_def intro: RestoreCoefficients_ok)

lemma RoundVector_ok:
  "coeff_ring r \<Longrightarrow> shape_ok (rN r) v \<Longrightarrow> RoundVector r v rv = Inr (map (\<lambda>p. [map (round_coeff rv) (hd p)]) v)"
  unfolding RoundVector_def by (rule mapM_all_Inr) (auto simp: shape_ok_def intro: RoundCoefficients_ok)

lemma RoundVector_length: "RoundVector r v rv = Inr w \<Longrightarrow> length w = length v"
  by (simp add: RoundVector_def mapM_Inr_iff)

section \<open>Combination, then verification\<close>

lemma vector_op_length: "vector_op f a b res = Inr v \<Longrightarrow> length v = length res"
  by (auto simp: vector_op_def split: if_splits)

lemma MatrixVectorMul_length: "MatrixVectorMul r M v res = Inr w \<Longrightarrow> length w = length res"
  by (auto simp: MatrixVectorMul_def split: if_splits)

lemma rounded_Az_bc_length: "rounded_Az_bc r r_xi r_nu A z bTilde c = Inr w \<Longrightarrow> length w = dimM"
  by (auto simp: rounded_Az_bc_def res_simps VectorSub_def InitializeVector_def ConvertVectorFromNTT_def
      dest!: RoundVector_length vector_op_length MatrixVectorMul_length)

lemma SignFinalize_Inr:
  assumes "SignFinalize party zs A bTilde = Inr (c, z, Delta)"
  shows "c = pC party \<and> length z = dimN \<and> length Delta = dimM \<and>
    foldM (\<lambda>z_sum (j, z_j). VectorAdd (pRing party) z_sum z_j z_sum) (InitializeVector (pRing party) dimN) zs = Inr z \<and>
    (\<exists>w. rounded_Az_bc (pRing party) (pRingXi party) (pRingNu party) A z bTilde c = Inr w \<and>
       VectorSub (pRingNu party) (pH party) w (InitializeVector (pRingNu party) dimM) = Inr Delta)"
proof -
  obtain w where f: "foldM (\<lambda>z_sum (j, z_j). VectorAdd (pRing party) z_sum z_j z_sum) (InitializeVector (pRing party) dimN) zs = Inr z"
    and w: "rounded_Az_bc (pRing party) (pRingXi party) (pRingNu party) A z bTilde (pC party) = Inr w"
      "VectorSub (pRingNu party) (pH party) w (InitializeVector (pRingNu party) dimM) = Inr Delta"
    and c: "c = pC party"
    using assms by (auto simp: SignFinalize_def Let_def res_simps)
  have "length z = dimN"
    by (rule foldM_inv[OF f, where P = "\<lambda>v. length v = dimN"])
       (auto simp: InitializeVector_def VectorAdd_def dest: vector_op_length)
  moreover have "length Delta = dimM" using vector_op_length[OF w(2)[unfolded VectorSub_def]] by (simp add: InitializeVector_def)
  ultimately show ?thesis using f w c by blast
qed

lemma finalize_verify_core:
  assumes r: "coeff_ring (pRing party)" and nu: "coeff_ring (pRingNu party)"
    and N: "rN (pRingNu party) = rN (pRing party)" "dimM \<le> rN (pRing party)"
    and A: "length A = dimM" "\<forall>row \<in> set A. length row = dimN"
    and fin: "SignFinalize party zs A bTilde = Inr (c, z, Delta)"
    and h: "LowNormHash en suite (pRing party) A bTilde (pH party) mu Kappa = Inr (pC party)"
    and H: "vec_ok (pRingNu party) dimM (pH party)"
    and C: "pvalid (rModulus (pRing party)) (rN (pRing party)) (pC party)"
    and w: "rounded_Az_bc (pRing party) (pRingXi party) (pRingNu party) A z bTilde c = Inr w" "vec_ok (pRingNu party) dimM w"
  shows "VerifyWithSuite en suite (pRing party) (pRingXi party) (pRingNu party) z A mu bTilde c Delta =
    Inr (sum_squares (pRing party) (map (\<lambda>p. [map (push_bit Nu) (hd p)]) Delta)
       + sum_squares (pRing party) (ConvertVectorFromNTT (pRing party) z) \<le> Bsquare)"
proof -
  have dims: "dimM = Suc 7" "dimN < dimM" by (simp_all add: dimM_def dimN_def)
  have f: "c = pC party" "length z = dimN" "length Delta = dimM"
    "VectorSub (pRingNu party) (pH party) w (InitializeVector (pRingNu party) dimM) = Inr Delta"
    using SignFinalize_Inr[OF fin] w(1) by auto
  have D: "Delta = map2 (rSub (pRingNu party)) (pH party) w" "vec_ok (pRingNu party) dimM Delta"
    using coeff_ring.VectorSub_ok[OF nu H w(2), of "InitializeVector (pRingNu party) dimM"] f(4)
    by (simp_all add: InitializeVector_def)
  have add: "VectorAdd (pRingNu party) w Delta (InitializeVector (pRingNu party) dimM) = Inr (pH party)"
    using coeff_ring.VectorAdd_ok(1)[OF nu w(2) D(2), of "InitializeVector (pRingNu party) dimM"]
      coeff_ring.map2_Add_Sub_cancel[OF nu w(2) H] D(1) by (simp add: InitializeVector_def)
  have eq: "rEqual (pRing party) c (pC party)" using coeff_ring.Equal[OF r C C] f(1) by simp
  have "shape_ok (rN (pRing party)) Delta" using vec_ok_shape[OF D(2)] N by simp
  note rest = RestoreVector_ok[OF r this, of Nu]
  have hdA: "length (hd A) = dimN" "\<not> (\<exists>row \<in> set A. length row \<noteq> length (hd A))" using A dims by (cases A; simp)+
  have "CheckL2Norm (pRing party) (map (\<lambda>p. [map (push_bit Nu) (hd p)]) Delta) (ConvertVectorFromNTT (pRing party) z)
      = Inr (sum_squares (pRing party) (map (\<lambda>p. [map (push_bit Nu) (hd p)]) Delta)
         + sum_squares (pRing party) (ConvertVectorFromNTT (pRing party) z) \<le> Bsquare)"
    using N dims f(2,3) by (simp add: CheckL2Norm_def ConvertVectorFromNTT_def)
  then show ?thesis
    using A f(2,3) hdA w(1) add h eq rest by (simp add: VerifyWithSuite_def)
qed

section \<open>Zero vectors\<close>

context lattice_ring
begin

lemma row_mul_zero:
  assumes "vvalid rg v"
  shows "row_mul rg (replicate n (rNewPoly rg)) v (rNewPoly rg) = rNewPoly rg"
proof -
  have z: "vvalid rg (replicate n (rNewPoly rg))" using valid_NewPoly by (auto simp: vvalid_def)
  have "sum_list (map (\<lambda>(m, x). pcoef m k * pcoef x k) (zip (replicate n (rNewPoly rg)) v)) = 0" if "k < rN rg" for k
  proof -
    have "map (\<lambda>(m, x). pcoef m k * pcoef x k) (zip (replicate n (rNewPoly rg)) v)
        = map (\<lambda>_. 0) (zip (replicate n (rNewPoly rg)) v)"
      using that by (intro map_cong[OF refl]) (auto dest!: set_zip_leftD)
    then show ?thesis by (simp only: sum_list_0)
  qed
  then show ?thesis
    using row_mul_spec[OF z assms valid_NewPoly] pbuild_cong[of "rN rg" _ "rModulus rg" "\<lambda>k. 0"]
    by (simp add: NewPoly_pbuild[symmetric])
qed

lemma Sub_zero: "rSub rg (rNewPoly rg) (rNewPoly rg) = rNewPoly rg"
  using Sub[OF valid_NewPoly valid_NewPoly] pbuild_cong[of "rN rg" _ "rModulus rg" "\<lambda>k. 0"]
  by (simp add: NewPoly_pbuild[symmetric])

lemma NTT_zero: "rNTT rg (rNewPoly rg) = rNewPoly rg"
  using NTT_INTT[OF valid_NewPoly] by (simp add: INTT_zero)

lemma MForm_zero: "rMForm rg (rNewPoly rg) = rNewPoly rg"
  using MForm[OF valid_NewPoly] pbuild_cong[of "rN rg" _ "rModulus rg" "\<lambda>k. 0"]
  by (simp add: NewPoly_pbuild[symmetric])

lemma rounded_Az_bc_zero:
  assumes nu: "coeff_ring r_nu" "rN r_nu = rN rg" and z: "vec_ok rg n z" and c: "pvalid (rModulus rg) (rN rg) c"
  shows "rounded_Az_bc rg r_xi r_nu (replicate dimM (replicate n (rNewPoly rg))) z (replicate dimM (rNewPoly rg)) c
    = Inr (replicate dimM (rNewPoly r_nu))"
proof -
  let ?z = "replicate dimM (rNewPoly rg)"
  have A: "mat_ok rg dimM n (replicate dimM (replicate n (rNewPoly rg)))"
    by (auto simp: mat_ok_def intro: vec_ok_replicate valid_NewPoly)
  have zz: "vec_ok rg dimM ?z" by (rule vec_ok_replicate[OF valid_NewPoly])
  have m: "MatrixVectorMul rg (replicate dimM (replicate n (rNewPoly rg))) z (InitializeVector rg dimM) = Inr ?z"
    unfolding MatrixVectorMul_ok(1)[OF A z vec_ok_InitializeVector]
    using z by (simp add: InitializeVector_def zip_replicate row_mul_zero vec_ok_def)
  have "map (push_bit Xi) (replicate (rN rg) (0 :: u64)) = replicate (rN rg) 0" by simp
  then have b: "RestoreVector rg ?z Xi = Inr ?z"
    using RestoreVector_ok[OF coeff_ring_axioms, of ?z Xi] by (simp add: shape_ok_def NewPoly)
  have t: "ConvertVectorToNTT rg ?z = ?z" "ConvertVectorFromNTT rg ?z = ?z"
    by (simp_all add: ConvertVectorToNTT_def ConvertVectorFromNTT_def NTT_zero MForm_zero From_zero)
  have p: "VectorPolyMul rg ?z c (InitializeVector rg dimM) = Inr ?z"
    using VectorPolyMul_ok(1)[OF zz c, of "InitializeVector rg dimM"] by (simp add: InitializeVector_def Mul_zero[OF c])
  have s: "VectorSub rg ?z ?z ?z = Inr ?z"
    using VectorSub_ok(1)[OF zz zz, of ?z] by (simp add: zip_replicate Sub_zero)
  have "round_coeff Nu 0 = 0" by (simp add: round_coeff_def round_half_def Nu_def)
  then have "RoundVector r_nu ?z Nu = Inr (replicate dimM (rNewPoly r_nu))"
    using RoundVector_ok[OF nu(1), of ?z Nu] nu(2)
    by (simp add: shape_ok_def NewPoly coeff_ring.NewPoly[OF nu(1)])
  then show ?thesis using m b t p s by (simp add: rounded_Az_bc_def)
qed

end

section \<open>Masks\<close>

text \<open>Documented behaviour of the samplers: they fill a polynomial of the ring with
  reduced coefficients.\<close>

definition sampling_ok :: "'s sampling \<Rightarrow> ring_ops \<Rightarrow> bool" where
  "sampling_ok sm rg \<longleftrightarrow>
     (\<forall>st. pvalid (rModulus rg) (rN rg) (fst (uniformRead sm st))) \<and>
     (\<forall>st. pvalid (rModulus rg) (rN rg) (fst (gaussRead sm st))) \<and>
     (\<forall>st. pvalid (rModulus rg) (rN rg) (fst (ternaryRead sm st)))"

text \<open>What one signer contributes to the sum: its nonce part and its share of the secret
  times the challenge.\<close>

definition resp_core :: "ring_ops \<Rightarrow> Party \<Rightarrow> vec \<Rightarrow> poly \<Rightarrow> nat \<Rightarrow> nat \<Rightarrow> int" where
  "resp_core rg p u c i k = pcoef (row_mul rg (pR p ! i) u (rNewPoly rg)) k
     + pcoef (rMulCoeffsMontgomery rg (rMulCoeffsMontgomery rg (pSkShare p ! i) (pLambda p)) c) k"

definition signer_ok :: "ring_ops \<Rightarrow> Party \<Rightarrow> bool" where
  "signer_ok rg p \<longleftrightarrow> pRing p = rg \<and> mat_ok rg dimN (Suc Dbar) (pR p) \<and> vec_ok rg dimN (pSkShare p) \<and>
     pvalid (rModulus rg) (rN rg) (pLambda p)"

definition seed_of :: "bytes res \<Rightarrow> bytes" where
  "seed_of x = (case x of Inr s \<Rightarrow> s | Inl _ \<Rightarrow> [])"

lemma sum_list_swap: "(\<Sum>a\<leftarrow>xs. \<Sum>b\<leftarrow>ys. f a b) = (\<Sum>b\<leftarrow>ys. \<Sum>a\<leftarrow>xs. f a b :: int)"
  by (induction xs) (simp_all add: sum_list_addf)

lemma LowNormHash_Inr:
  assumes "LowNormHash en su rg A b h mu kappa = Inr c"
  shows "\<exists>st. c = rMForm rg (rNTT rg (fst (ternaryRead (envSampling en) st)))"
  using assms by (auto simp: LowNormHash_def Let_def res_simps)

context lattice_ring
begin

lemma SamplePolyVector_ok:
  "\<forall>st. pvalid (rModulus rg) (rN rg) (fst (smp st)) \<Longrightarrow>
   vec_ok rg n (fst (SamplePolyVector rg n smp ntt mont st))"
proof (induction n arbitrary: st)
  case (Suc n)
  have "pvalid (rModulus rg) (rN rg) (fst (sample_poly rg smp ntt mont st))"
    using Suc.prems[rule_format, of st]
    by (auto simp: sample_poly_def Let_def split: prod.splits intro!: valid_MForm valid_NTT)
  then show ?case using Suc by (auto simp: vec_ok_def split: prod.splits) (metis fst_conv)+
qed (simp add: vec_ok_def)

lemma PRF_ok: "sampling_ok (envSampling en) rg \<Longrightarrow> vec_ok rg n (PRF en su rg sd key mu h n)"
  by (simp add: PRF_def Let_def sampling_ok_def SamplePolyVector_ok)

lemma GaussianHash_ok: "sampling_ok (envSampling en) rg \<Longrightarrow> vec_ok rg n (GaussianHash en su rg h mu n)"
  by (simp add: GaussianHash_def Let_def sampling_ok_def SamplePolyVector_ok)

lemma LowNormHash_ok:
  "sampling_ok (envSampling en) rg \<Longrightarrow> LowNormHash en su rg A b h mu kappa = Inr c \<Longrightarrow> pvalid (rModulus rg) (rN rg) c"
  using LowNormHash_Inr by (metis sampling_ok_def valid_MForm valid_NTT)

lemma round2_u_ok:
  assumes "sampling_ok (envSampling en) rg" "pRing party = rg"
  shows "vec_ok rg (Suc Dbar) (round2_u en party h mu)"
proof -
  have "pvalid (rModulus rg) (rN rg) (rNewMonomialXi rg 0)" using NewMonomialXi degree q_simps by simp
  then show ?thesis
    using GaussianHash_ok[OF assms(1), of Dbar "pSuite party" h mu] assms(2)
    by (simp add: round2_u_def vec_ok_def valid_MForm valid_NTT)
qed

lemma mask_sum_spec:
  assumes sm: "sampling_ok (envSampling en) rg" and r: "pRing party = rg"
    and run: "mask_sum en party key mu h seed T = Inr v"
  shows "vec_ok rg dimN v \<and> (\<forall>i < dimN. \<forall>k < rN rg.
    pcoef (v ! i) k = (\<Sum>j\<leftarrow>T. pcoef (PRF en (pSuite party) rg (seed_of (seed j)) key mu h dimN ! i) k) mod rModulus rg)"
proof -
  let ?f = "\<lambda>j. PRF en (pSuite party) rg (seed_of (seed j)) key mu h dimN"
  have "foldM (\<lambda>mask j. rbind (seed j) (\<lambda>sd. VectorAdd rg mask (PRF en (pSuite party) rg sd key mu h dimN) mask)) a T = Inr w
      \<Longrightarrow> foldM (\<lambda>a x. VectorAdd rg a (?f x) a) a T = Inr w" for a w
    by (induction T arbitrary: a) (auto simp: res_simps seed_of_def)
  then have "foldM (\<lambda>a x. VectorAdd rg a (?f x) a) (InitializeVector rg dimN) T = Inr v"
    using run r by (simp add: mask_sum_def)
  moreover have "\<forall>x \<in> set T. vec_ok rg dimN (?f x)" using PRF_ok[OF sm] by blast
  ultimately show ?thesis
    using foldM_VectorAdd[OF vec_ok_InitializeVector, of T dimN ?f] by auto
qed

lemma round2_response_spec:
  assumes sm: "sampling_ok (envSampling en) rg" and r: "pRing p = rg"
    and R: "mat_ok rg dimN n (pR p)" and s: "vec_ok rg dimN (pSkShare p)"
    and la: "pvalid (rModulus rg) (rN rg) (pLambda p)" and u: "vec_ok rg n u" and c: "pvalid (rModulus rg) (rN rg) c"
    and run: "round2_response en p mu T key h u c = Inr z"
  shows "vec_ok rg dimN z \<and> (\<forall>i < dimN. \<forall>k < rN rg.
    pcoef (z ! i) k = (resp_core rg p u c i k
      + (\<Sum>j\<leftarrow>T. pcoef (PRF en (pSuite p) rg (seed_of (seed_at (pSeed p) j (pID p))) key mu h dimN ! i) k)
      - (\<Sum>j\<leftarrow>T. pcoef (PRF en (pSuite p) rg (seed_of (seed_at (pSeed p) (pID p) j)) key mu h dimN ! i) k)) mod rModulus rg)"
proof -
  let ?q = "rModulus rg" and ?N = "rN rg" and ?ini = "InitializeVector rg dimN"
  let ?Ru = "map2 (\<lambda>row acc. row_mul rg row u acc) (pR p) ?ini"
  let ?sl = "map (\<lambda>x. rMulCoeffsMontgomery rg x (pLambda p)) (pSkShare p)"
  let ?scl = "map (\<lambda>x. rMulCoeffsMontgomery rg x c) ?sl"
  have Ru: "MatrixVectorMul rg (pR p) u ?ini = Inr ?Ru" "vec_ok rg dimN ?Ru"
    by (rule MatrixVectorMul_ok[OF R u vec_ok_InitializeVector])+
  have li: "length ?ini = dimN" by (simp add: InitializeVector_def)
  have sl: "VectorPolyMul rg (pSkShare p) (pLambda p) ?ini = Inr ?sl" "vec_ok rg dimN ?sl"
    by (rule VectorPolyMul_ok[OF s la li])+
  have "length ?sl = dimN" using sl(2) by (simp add: vec_ok_def)
  note scl = VectorPolyMul_ok[OF sl(2) c this]
  obtain mask mask' where m: "mask_sum en p key mu h (\<lambda>j. seed_at (pSeed p) (pID p) j) T = Inr mask"
    and m': "mask_sum en p key mu h (\<lambda>j. seed_at (pSeed p) j (pID p)) T = Inr mask'"
    and z: "rbind (VectorAdd rg ?Ru mask' ?Ru) (\<lambda>z1. rbind (VectorAdd rg z1 ?scl z1) (\<lambda>z2. VectorSub rg z2 mask z2)) = Inr z"
    using run r Ru(1) sl(1) scl(1) by (auto simp: round2_response_def Let_def res_simps)
  note M = mask_sum_spec[OF sm r m] and M' = mask_sum_spec[OF sm r m']
  have ok: "vec_ok rg dimN mask" "vec_ok rg dimN mask'" using M M' by blast+
  let ?z1 = "map2 (rAdd rg) ?Ru mask'" let ?z2 = "map2 (rAdd rg) ?z1 ?scl"
  have l: "length ?Ru = dimN" using Ru(2) by (simp add: vec_ok_def)
  have z1: "VectorAdd rg ?Ru mask' ?Ru = Inr ?z1" "vec_ok rg dimN ?z1" by (rule VectorAdd_ok[OF Ru(2) ok(2) l])+
  then have "length ?z1 = dimN" by (simp only: vec_ok_def)
  note z2 = VectorAdd_ok[OF z1(2) scl(2) this]
  then have "length ?z2 = dimN" by (simp only: vec_ok_def)
  note z3 = VectorSub_ok[OF z2(2) ok(1) this]
  have zz: "z = map2 (rSub rg) ?z2 mask" using z z1(1) z2(1) z3(1) by simp
  have "pcoef (z ! i) k = (resp_core rg p u c i k + pcoef (mask' ! i) k - pcoef (mask ! i) k) mod ?q"
    if ik: "i < dimN" "k < ?N" for i k
  proof -
    have e: "pcoef (?Ru ! i) k + pcoef (?scl ! i) k = resp_core rg p u c i k"
      using ik R s by (simp add: resp_core_def mat_ok_def vec_ok_def InitializeVector_def)
    have "pcoef (z ! i) k = (((pcoef (?Ru ! i) k + pcoef (mask' ! i) k) mod ?q + pcoef (?scl ! i) k) mod ?q - pcoef (mask ! i) k) mod ?q"
      unfolding zz pcoef_VectorSub[OF z2(2) ok(1) ik] pcoef_VectorAdd[OF z1(2) scl(2) ik] pcoef_VectorAdd[OF Ru(2) ok(2) ik] ..
    also have "\<dots> = (pcoef (?Ru ! i) k + pcoef (mask' ! i) k + pcoef (?scl ! i) k - pcoef (mask ! i) k) mod ?q"
      by (simp only: mod_diff_left_eq mod_add_left_eq)
    also have "\<dots> = (resp_core rg p u c i k + pcoef (mask' ! i) k - pcoef (mask ! i) k) mod ?q"
      unfolding e[symmetric] by (simp add: algebra_simps)
    finally show ?thesis .
  qed
  moreover have "(x + a mod ?q - b mod ?q) mod ?q = (x + a - b) mod ?q" for x a b
    by (rule mod_diff_cong) (simp_all add: mod_add_right_eq)
  ultimately show ?thesis using z3(2) zz M M' by fastforce
qed

lemma mask_sum_total:
  assumes sm: "sampling_ok (envSampling en) rg" and r: "pRing party = rg" and sd: "\<forall>j \<in> set T. \<exists>b. seed j = Inr b"
  shows "\<exists>v. mask_sum en party key mu h seed T = Inr v"
proof -
  let ?f = "\<lambda>j. PRF en (pSuite party) rg (seed_of (seed j)) key mu h dimN"
  have "mask_sum en party key mu h seed T = foldM (\<lambda>a x. VectorAdd rg a (?f x) a) (InitializeVector rg dimN) T"
    unfolding mask_sum_def r by (rule foldM_cong) (use sd in \<open>auto simp: seed_of_def\<close>)
  moreover have "\<forall>x \<in> set T. vec_ok rg dimN (?f x)" using PRF_ok[OF sm] by blast
  ultimately show ?thesis using foldM_VectorAdd[OF vec_ok_InitializeVector, of T dimN ?f] by fastforce
qed

lemma round2_response_total:
  assumes sm: "sampling_ok (envSampling en) rg" and p: "signer_ok rg p"
    and u: "vec_ok rg (Suc Dbar) u" and c: "pvalid (rModulus rg) (rN rg) c"
    and sd: "\<forall>j \<in> set T. (\<exists>b. seed_at (pSeed p) (pID p) j = Inr b) \<and> (\<exists>b. seed_at (pSeed p) j (pID p) = Inr b)"
  shows "\<exists>z. round2_response en p mu T key h u c = Inr z"
proof -
  have r: "pRing p = rg" and R: "mat_ok rg dimN (Suc Dbar) (pR p)" and s: "vec_ok rg dimN (pSkShare p)"
    and la: "pvalid (rModulus rg) (rN rg) (pLambda p)" using p by (simp_all add: signer_ok_def)
  obtain mask where m: "mask_sum en p key mu h (\<lambda>j. seed_at (pSeed p) (pID p) j) T = Inr mask"
    using mask_sum_total[OF sm r, of T "\<lambda>j. seed_at (pSeed p) (pID p) j"] sd by blast
  obtain mask' where m': "mask_sum en p key mu h (\<lambda>j. seed_at (pSeed p) j (pID p)) T = Inr mask'"
    using mask_sum_total[OF sm r, of T "\<lambda>j. seed_at (pSeed p) j (pID p)"] sd by blast
  note M = conjunct1[OF mask_sum_spec[OF sm r m]] conjunct1[OF mask_sum_spec[OF sm r m']]
  note Ru = MatrixVectorMul_ok[OF R u vec_ok_InitializeVector]
  have li: "length (InitializeVector rg dimN) = dimN" by (simp add: InitializeVector_def)
  note sl = VectorPolyMul_ok[OF s la li]
  note scl = VectorPolyMul_ok[OF sl(2) c sl(2)[unfolded vec_ok_def, THEN conjunct1]]
  note z1 = VectorAdd_ok[OF Ru(2) M(2) Ru(2)[unfolded vec_ok_def, THEN conjunct1]]
  note z2 = VectorAdd_ok[OF z1(2) scl(2) z1(2)[unfolded vec_ok_def, THEN conjunct1]]
  note z3 = VectorSub_ok[OF z2(2) M(1) z2(2)[unfolded vec_ok_def, THEN conjunct1]]
  show ?thesis
    unfolding round2_response_def Let_def r m m' rbind.simps Ru(1) sl(1) scl(1) z1(1) z2(1) z3(1) by blast
qed

end

lemma foldM_map: "foldM f a (map g xs) = foldM (\<lambda>a x. f a (g x)) a xs"
  by (induction xs arbitrary: a) (auto intro!: rbind_cong)

lemma SignRound2_Inr:
  assumes "SignRound2 en p A bTilde DSum sid mu T key h = Inr (p', z)"
  shows "p' = p \<lparr> pH := pH p', pC := pC p' \<rparr> \<and>
    round2_challenge en p A bTilde DSum mu (round2_u en p h mu) = Inr (pH p', pC p') \<and>
    round2_response en p mu T key h (round2_u en p h mu) (pC p') = Inr z"
  using assms by (auto simp: SignRound2_def Let_def res_simps)

lemma round2_challenge_Inr:
  "round2_challenge en p A bTilde DSum mu u = Inr (rh, c) \<Longrightarrow> LowNormHash en (pSuite p) (pRing p) A bTilde rh mu Kappa = Inr c"
  by (auto simp: round2_challenge_def Let_def res_simps)

context lattice_ring
begin

lemma SignRound2_vec_ok:
  assumes sm: "sampling_ok (envSampling en) rg" and p: "signer_ok rg p"
    and run: "SignRound2 en p A bTilde DSum sid mu T key h = Inr (p', z)"
  shows "vec_ok rg dimN z"
proof -
  have r: "pRing p = rg" and R: "mat_ok rg dimN (Suc Dbar) (pR p)" and s: "vec_ok rg dimN (pSkShare p)"
    and la: "pvalid (rModulus rg) (rN rg) (pLambda p)" using p by (simp_all add: signer_ok_def)
  note I = SignRound2_Inr[OF run]
  have c: "pvalid (rModulus rg) (rN rg) (pC p')" using LowNormHash_ok[OF sm] round2_challenge_Inr I r by metis
  show ?thesis using round2_response_spec[OF sm r R s la round2_u_ok[OF sm r] c conjunct2[OF conjunct2[OF I]]] by blast
qed

lemma round2_challenge_total:
  assumes r: "pRing p = rg" and nu: "coeff_ring (pRingNu p)" "rN (pRingNu p) = rN rg"
    and u: "vec_ok rg (Suc Dbar) u" and D: "mat_ok rg dimM (Suc Dbar) D"
    and h: "\<And>rh. \<exists>c. LowNormHash en (pSuite p) rg A b rh mu Kappa = Inr c"
  shows "\<exists>rh c. round2_challenge en p A b D mu u = Inr (rh, c)"
proof -
  let ?h = "map2 (\<lambda>row acc. row_mul rg row u acc) D (InitializeVector rg dimM)"
  note m = MatrixVectorMul_ok[OF D u vec_ok_InitializeVector]
  have "shape_ok (rN (pRingNu p)) (ConvertVectorFromNTT rg ?h)"
    using vec_ok_shape[OF ConvertVectorFromNTT_ok[OF m(2)]] nu(2) by simp
  from RoundVector_ok[OF nu(1) this, of Nu] obtain rh where "RoundVector (pRingNu p) (ConvertVectorFromNTT rg ?h) Nu = Inr rh" by blast
  moreover obtain c where "LowNormHash en (pSuite p) rg A b rh mu Kappa = Inr c" using h by blast
  ultimately show ?thesis unfolding round2_challenge_def Let_def r m(1) rbind.simps by simp
qed

lemma SignRound2_total:
  assumes sm: "sampling_ok (envSampling en) rg" and p: "signer_ok rg p"
    and nu: "coeff_ring (pRingNu p)" "rN (pRingNu p) = rN rg" and D: "mat_ok rg dimM (Suc Dbar) D"
    and h: "\<And>rh. \<exists>c. LowNormHash en (pSuite p) rg A b rh mu Kappa = Inr c"
    and sd: "\<forall>j \<in> set T. (\<exists>b. seed_at (pSeed p) (pID p) j = Inr b) \<and> (\<exists>b. seed_at (pSeed p) j (pID p) = Inr b)"
  shows "\<exists>p' z. SignRound2 en p A b D sid mu T key hs = Inr (p', z)"
proof -
  have r: "pRing p = rg" using p by (simp add: signer_ok_def)
  have u: "vec_ok rg (Suc Dbar) (round2_u en p hs mu)" by (rule round2_u_ok[OF sm r])
  obtain rh c where ch: "round2_challenge en p A b D mu (round2_u en p hs mu) = Inr (rh, c)"
    using round2_challenge_total[OF r nu u D h] by blast
  have c: "pvalid (rModulus rg) (rN rg) c" using LowNormHash_ok[OF sm] round2_challenge_Inr[OF ch] r by metis
  obtain z where "round2_response en p mu T key hs (round2_u en p hs mu) c = Inr z"
    using round2_response_total[OF sm p u c sd] by blast
  then show ?thesis using ch by (simp add: SignRound2_def)
qed

end

lemma masks_cancel_core:
  assumes lr: "lattice_ring rg" and sm: "sampling_ok (envSampling en) rg"
    and runs: "\<forall>(p, p', z) \<in> set rs. signer_ok rg p \<and> pSuite p = su \<and> pSeed p = seeds \<and>
      SignRound2 en p A bTilde DSum sid mu (map (\<lambda>(p, p', z). pID p) rs) key h = Inr (p', z)"
    and comb: "pRing comb = rg" and fin: "SignFinalize comb (map (\<lambda>(p, p', z). (pID p, z)) rs) A bTilde = Inr (c, zsum, Delta)"
    and ik: "i < dimN" "k < rN rg"
  shows "pcoef (zsum ! i) k = (\<Sum>(p, p', z)\<leftarrow>rs. resp_core rg p (round2_u en p h mu) (pC p') i k) mod rModulus rg"
proof -
  let ?T = "map (\<lambda>(p, p', z). pID p) rs" and ?q = "rModulus rg"
  let ?m = "\<lambda>a b. pcoef (PRF en su rg (seed_of (seed_at seeds a b)) key mu h dimN ! i) k"
  let ?core = "\<lambda>(p, p', z). resp_core rg p (round2_u en p h mu) (pC p') i k"
  let ?id = "\<lambda>(p :: Party, p' :: Party, z :: vec). pID p"
  have sp: "vec_ok rg dimN (snd (snd x)) \<and> pcoef (snd (snd x) ! i) k =
      (?core x + (\<Sum>y\<leftarrow>rs. ?m (?id y) (?id x)) - (\<Sum>y\<leftarrow>rs. ?m (?id x) (?id y))) mod ?q" if "x \<in> set rs" for x
  proof -
    obtain p p' z where x: "x = (p, p', z)" by (cases x)
    have ok: "signer_ok rg p" "pSuite p = su" "pSeed p = seeds"
      and run: "SignRound2 en p A bTilde DSum sid mu ?T key h = Inr (p', z)" using runs that x by auto
    have r: "pRing p = rg" and R: "mat_ok rg dimN (Suc Dbar) (pR p)" and s: "vec_ok rg dimN (pSkShare p)"
      and la: "pvalid ?q (rN rg) (pLambda p)" using ok(1) by (simp_all add: signer_ok_def)
    note I = SignRound2_Inr[OF run]
    have c: "pvalid ?q (rN rg) (pC p')"
      using lattice_ring.LowNormHash_ok[OF lr sm] round2_challenge_Inr I r by metis
    note * = lattice_ring.round2_response_spec[OF lr sm r R s la lattice_ring.round2_u_ok[OF lr sm r] c conjunct2[OF conjunct2[OF I]]]
    show ?thesis using * ik ok(2,3) by (simp add: x comp_def case_prod_unfold)
  qed
  have f: "foldM (\<lambda>a x. VectorAdd rg a (snd (snd x)) a) (InitializeVector rg dimN) rs = Inr zsum"
    using SignFinalize_Inr[OF fin] comb by (simp add: foldM_map case_prod_unfold)
  have cr: "coeff_ring rg" using lr lattice_ring_def by blast
  have ok: "\<forall>x \<in> set rs. vec_ok rg dimN (snd (snd x))" using sp by blast
  have "pcoef (zsum ! i) k = (0 + (\<Sum>x\<leftarrow>rs. pcoef (snd (snd x) ! i) k)) mod ?q"
    using coeff_ring.foldM_VectorAdd[OF cr coeff_ring.vec_ok_InitializeVector[OF cr] ok] f ik coeff_ring.pcoef_Initialize[OF cr ik]
    by auto
  also have "map (\<lambda>x. pcoef (snd (snd x) ! i) k) rs = map (\<lambda>x.
      (?core x + (\<Sum>y\<leftarrow>rs. ?m (?id y) (?id x)) - (\<Sum>y\<leftarrow>rs. ?m (?id x) (?id y))) mod ?q) rs"
    using sp by (intro map_cong) auto
  also have "(0 + sum_list \<dots>) mod ?q =
      (\<Sum>x\<leftarrow>rs. ?core x + (\<Sum>y\<leftarrow>rs. ?m (?id y) (?id x)) - (\<Sum>y\<leftarrow>rs. ?m (?id x) (?id y))) mod ?q"
    unfolding add_0 by (rule sum_list_mod)
  also have "\<dots> = ((\<Sum>x\<leftarrow>rs. ?core x) + (\<Sum>x\<leftarrow>rs. \<Sum>y\<leftarrow>rs. ?m (?id y) (?id x))
      - (\<Sum>x\<leftarrow>rs. \<Sum>y\<leftarrow>rs. ?m (?id x) (?id y))) mod ?q"
    by (simp add: sum_list_addf sum_list_subtractf)
  also have "(\<Sum>x\<leftarrow>rs. \<Sum>y\<leftarrow>rs. ?m (?id y) (?id x)) = (\<Sum>x\<leftarrow>rs. \<Sum>y\<leftarrow>rs. ?m (?id x) (?id y))"
    by (rule sum_list_swap)
  finally show ?thesis by (simp only: add_diff_cancel_right')
qed

end
