(* ===== verification/Sign_Keys.thy ===== *)
theory Sign_Keys
  imports Sign
begin

text \<open>
  The seed and MAC-key tables of \<^verbatim>\<open>Gen\<close>: the double loop of \<^verbatim>\<open>sign/sign.go\<close> gives every
  ordered pair of parties a seed and every unordered pair one MAC key, held under both
  orders, and the randomness \<^verbatim>\<open>Gen\<close> precomputes for it is enough.
\<close>

section \<open>Lookups\<close>

lemma mac_get_fresh_row: "map_of mk j = None \<Longrightarrow> mac_get (AList.update j [] mk) a b = mac_get mk a b"
  by (auto simp: mac_get_def update_conv split: option.splits)

lemma mac_set_get:
  "mac_set mk i j key = Inr mk' \<Longrightarrow> mac_get mk' a b = (if a = i \<and> b = j then Some key else mac_get mk a b)"
  by (auto simp: mac_set_def mac_get_def update_conv split: option.splits if_splits)

lemma mac_set_rows: "mac_set mk i j key = Inr mk' \<Longrightarrow> map_of mk' a \<noteq> None \<longleftrightarrow> map_of mk a \<noteq> None"
  by (auto simp: mac_set_def update_conv split: option.splits if_splits)

text \<open>The key table is symmetric, has no diagonal, and every key has 32 bytes.\<close>

definition mac_sym :: "mac_table \<Rightarrow> bool" where
  "mac_sym mk \<longleftrightarrow> (\<forall>a b. mac_get mk a b = mac_get mk b a) \<and> (\<forall>a. mac_get mk a a = None) \<and>
     (\<forall>a b key. mac_get mk a b = Some key \<longrightarrow> length key = 32)"

definition mac_extends :: "mac_table \<Rightarrow> mac_table \<Rightarrow> bool" where
  "mac_extends mk mk' \<longleftrightarrow> (\<forall>a b. mac_get mk a b \<noteq> None \<longrightarrow> mac_get mk' a b = mac_get mk a b) \<and>
     (\<forall>a. map_of mk a \<noteq> None \<longrightarrow> map_of mk' a \<noteq> None)"

lemma mac_extends_refl [simp]: "mac_extends mk mk"
  by (simp add: mac_extends_def)

lemma mac_extends_trans: "mac_extends a b \<Longrightarrow> mac_extends b c \<Longrightarrow> mac_extends a c"
  by (simp add: mac_extends_def)

lemma mac_extends_get: "mac_extends mk mk' \<Longrightarrow> mac_get mk a b \<noteq> None \<Longrightarrow> mac_get mk' a b \<noteq> None"
  by (simp add: mac_extends_def)

lemma GetRandomBytes_32: "GetRandomBytes st (int KeySize) = Inr (b, st') \<Longrightarrow> length b = 32"
  by (auto simp: GetRandomBytes_def Let_def KeySize_def split: if_splits)

section \<open>One pass of the inner loop\<close>

lemma fresh_row_get [simp]: "mac_get (fresh_row mk j) a b = mac_get mk a b"
  by (simp add: fresh_row_def mac_get_fresh_row)

lemma fresh_row_rows: "map_of (fresh_row mk j) a \<noteq> None \<longleftrightarrow> a = j \<or> map_of mk a \<noteq> None"
  by (auto simp: fresh_row_def update_conv)

lemma gen_pair_cases:
  assumes "gen_pair i (row, mk, st) j = Inr (row', mk', st')"
  obtains (diag) seed where "i = j" "length seed = 32" "row' = row @ [seed]" "mk' = mk"
  | (fresh) seed key mk1 where "i \<noteq> j" "length seed = 32" "length key = 32" "row' = row @ [seed]"
      "mac_get mk i j = None" "mac_get mk j i = None" "mac_set (fresh_row mk j) i j key = Inr mk1" "mac_set mk1 j i key = Inr mk'"
  | (old) seed where "i \<noteq> j" "length seed = 32" "row' = row @ [seed]" "mk' = fresh_row mk j"
      "mac_get mk i j \<noteq> None \<or> mac_get mk j i \<noteq> None"
proof -
  obtain seed st1 where s: "GetRandomBytes st (int KeySize) = Inr (seed, st1)" using assms by (auto simp: gen_pair_def res_simps)
  note l = GetRandomBytes_32[OF s]
  consider "i = j" | "i \<noteq> j" "mac_get mk i j = None" "mac_get mk j i = None"
    | "i \<noteq> j" "\<not> (mac_get mk i j = None \<and> mac_get mk j i = None)" by metis
  then show thesis
  proof cases
    case 1
    then show thesis using assms s by (intro diag[OF _ l]) (simp_all add: gen_pair_def)
  next
    case 2
    then obtain key st2 mk1 where k: "GetRandomBytes st1 (int KeySize) = Inr (key, st2)" "row' = row @ [seed]"
      "mac_set (fresh_row mk j) i j key = Inr mk1" "mac_set mk1 j i key = Inr mk'"
      using assms s by (auto simp: gen_pair_def res_simps Let_def)
    show thesis by (rule fresh[OF 2(1) l GetRandomBytes_32[OF k(1)] k(2) 2(2,3) k(3,4)])
  next
    case 3
    then show thesis using assms s by (intro old[OF 3(1) l]) (auto simp: gen_pair_def Let_def)
  qed
qed

lemma gen_pair_spec:
  assumes run: "gen_pair i (row, mk, st) j = Inr (row', mk', st')" and sym: "mac_sym mk"
  shows "mac_sym mk' \<and> mac_extends mk mk' \<and> (i \<noteq> j \<longrightarrow> mac_get mk' i j \<noteq> None \<and> map_of mk' j \<noteq> None) \<and>
    (\<exists>seed. length seed = 32 \<and> row' = row @ [seed])"
  using run
proof (cases rule: gen_pair_cases)
  case (diag seed)
  then show ?thesis using sym by simp
next
  case (fresh seed key mk1)
  have get: "mac_get mk' a b = (if a = j \<and> b = i \<or> a = i \<and> b = j then Some key else mac_get mk a b)" for a b
    unfolding mac_set_get[OF fresh(8)] mac_set_get[OF fresh(7)] fresh_row_get by argo
  have rows: "map_of mk' a \<noteq> None \<longleftrightarrow> a = j \<or> map_of mk a \<noteq> None" for a
    unfolding mac_set_rows[OF fresh(8)] mac_set_rows[OF fresh(7)] fresh_row_rows ..
  have sy: "\<And>a b. mac_get mk a b = mac_get mk b a" "\<And>a. mac_get mk a a = None"
    "\<And>a b key. mac_get mk a b = Some key \<Longrightarrow> length key = 32" using sym unfolding mac_sym_def by blast+
  have "mac_sym mk'"
    unfolding mac_sym_def get using fresh(1,3) sy(2,3) by (intro conjI allI impI) (auto simp: sy(1) split: if_splits)
  moreover have "mac_extends mk mk'" using fresh(5,6) rows by (auto simp: mac_extends_def get)
  ultimately show ?thesis using fresh(2,4) rows[of j] get[of i j] by auto
next
  case (old seed)
  have "mac_get mk i j = mac_get mk j i" using sym unfolding mac_sym_def by blast
  then have "mac_get mk' i j \<noteq> None" using old(4,5) by auto
  moreover have "mac_sym mk'" using sym unfolding old(4) mac_sym_def fresh_row_get .
  moreover have "mac_extends mk mk'" "map_of mk' j \<noteq> None"
    using fresh_row_rows[of mk j] unfolding old(4) mac_extends_def fresh_row_get by blast+
  ultimately show ?thesis using old(2,3) by blast
qed

lemma gen_pairs_spec:
  assumes "foldM (gen_pair i) (row, mk, st) js = Inr (row', mk', st')" "mac_sym mk"
  shows "mac_sym mk' \<and> mac_extends mk mk' \<and> (\<forall>j \<in> set js. j \<noteq> i \<longrightarrow> mac_get mk' i j \<noteq> None \<and> map_of mk' j \<noteq> None) \<and>
    (\<exists>seeds. length seeds = length js \<and> (\<forall>s \<in> set seeds. length s = 32) \<and> row' = row @ seeds)"
  using assms
proof (induction js arbitrary: row mk st)
  case (Cons j js)
  obtain row1 mk1 st1 where s: "gen_pair i (row, mk, st) j = Inr (row1, mk1, st1)"
    "foldM (gen_pair i) (row1, mk1, st1) js = Inr (row', mk', st')"
    using Cons.prems(1) by (auto simp: res_simps)
  note a = gen_pair_spec[OF s(1) Cons.prems(2)]
  note b = Cons.IH[OF s(2) conjunct1[OF a]]
  obtain seed seeds where "length seed = 32" "row1 = row @ [seed]" "length seeds = length js"
    "\<forall>s \<in> set seeds. length s = 32" "row' = row1 @ seeds" using a b by blast
  then have "\<exists>seeds. length seeds = length (j # js) \<and> (\<forall>s \<in> set seeds. length s = 32) \<and> row' = row @ seeds"
    by (intro exI[of _ "seed # seeds"]) simp
  moreover have "mac_extends mk mk'" using a b mac_extends_trans by blast
  moreover have "j \<noteq> i \<longrightarrow> mac_get mk' i j \<noteq> None \<and> map_of mk' j \<noteq> None"
    using a b unfolding mac_extends_def by metis
  ultimately show ?case using b by auto
qed simp

section \<open>The whole table\<close>

definition seeds_ok :: "nat \<Rightarrow> int set \<Rightarrow> (int, bytes list) gomap \<Rightarrow> bool" where
  "seeds_ok K I seeds \<longleftrightarrow> (\<forall>i \<in> I. \<exists>row. map_of seeds i = Some row \<and> length row = K \<and> (\<forall>s \<in> set row. length s = 32))"

lemma gen_rows_spec:
  assumes "foldM (gen_row K) (seeds, mk, st) is = Inr (seeds', mk', st')" "mac_sym mk" "seeds_ok K I seeds"
  shows "mac_sym mk' \<and> mac_extends mk mk' \<and> seeds_ok K (I \<union> set is) seeds' \<and>
    (\<forall>i \<in> set is. \<forall>j \<in> int ` {0..<K}. j \<noteq> i \<longrightarrow> mac_get mk' i j \<noteq> None)"
  using assms
proof (induction "is" arbitrary: seeds mk st I)
  case (Cons i "is")
  obtain row mk1 st1 where s: "foldM (gen_pair i) ([], mk, st) (map int [0..<K]) = Inr (row, mk1, st1)"
    "foldM (gen_row K) (AList.update i row seeds, mk1, st1) is = Inr (seeds', mk', st')"
    using Cons.prems(1) by (auto simp: gen_row_def res_simps)
  note a = gen_pairs_spec[OF s(1) Cons.prems(2)]
  have "length row = K" "\<forall>s \<in> set row. length s = 32" using a by auto
  then have "seeds_ok K (insert i I) (AList.update i row seeds)"
    using Cons.prems(3) by (auto simp: seeds_ok_def update_conv)
  note b = Cons.IH[OF s(2) conjunct1[OF a] this]
  have "mac_get mk' i j \<noteq> None" if "j \<in> int ` {0..<K}" "j \<noteq> i" for j
    using a b that mac_extends_get[of mk1 mk' i j] by auto
  moreover have "mac_extends mk mk'" using a b mac_extends_trans by blast
  ultimately show ?case using b by auto
qed auto

lemma gen_tables_spec:
  assumes "gen_tables K st = Inr (seeds, mk, st')"
  shows "mac_sym mk \<and> seeds_ok K (int ` {0..<K}) seeds \<and>
    (\<forall>i \<in> int ` {0..<K}. \<forall>j \<in> int ` {0..<K}. i \<noteq> j \<longrightarrow> mac_get mk i j \<noteq> None)"
proof -
  have "mac_sym [(0, [])]" by (auto simp: mac_sym_def mac_get_def split: option.splits)
  then show ?thesis
    using gen_rows_spec[OF assms[unfolded gen_tables_def], of "{}"] by (force simp: seeds_ok_def)
qed

section \<open>The randomness is enough\<close>

text \<open>Bytes left in the buffer; an index never runs backwards.\<close>

definition rand_left :: "rand_state \<Rightarrow> int" where
  "rand_left st = (if 0 \<le> RandomnessIndex st then int (length (PrecomputedRandomness st)) - RandomnessIndex st else -1)"

lemma GetRandomBytes_left:
  assumes "int n \<le> rand_left st"
  shows "\<exists>b st'. GetRandomBytes st (int n) = Inr (b, st') \<and> rand_left st' = rand_left st - int n"
  using assms by (auto simp: GetRandomBytes_def Let_def rand_left_def split: if_splits)

text \<open>In row \<open>i\<close> a key is drawn for the parties after \<open>i\<close> only: the others got theirs in an
  earlier row.\<close>

definition pair_cost :: "int \<Rightarrow> int \<Rightarrow> int" where
  "pair_cost i j = (if i < j then 64 else 32)"

definition earlier_keys :: "int \<Rightarrow> mac_table \<Rightarrow> bool" where
  "earlier_keys i mk \<longleftrightarrow> (\<forall>j. 0 \<le> j \<and> j < i \<longrightarrow> mac_get mk i j \<noteq> None)"

lemma gen_pair_total:
  assumes "pair_cost i j \<le> rand_left st" "map_of mk i \<noteq> None" "earlier_keys i mk" "0 \<le> j"
  shows "\<exists>row' mk' st'. gen_pair i (row, mk, st) j = Inr (row', mk', st') \<and> rand_left st - pair_cost i j \<le> rand_left st'"
proof -
  have "int KeySize \<le> rand_left st" using assms(1) by (auto simp: pair_cost_def KeySize_def split: if_splits)
  then obtain seed st1 where s: "GetRandomBytes st (int KeySize) = Inr (seed, st1)" "rand_left st1 = rand_left st - 32"
    using GetRandomBytes_left[of KeySize st] by (auto simp: KeySize_def)
  show ?thesis
  proof (cases "i = j \<or> \<not> (mac_get mk i j = None \<and> mac_get mk j i = None)")
    case True
    then show ?thesis using s by (auto simp: gen_pair_def Let_def pair_cost_def)
  next
    case False
    then have "i < j" using assms(3,4) by (auto simp: earlier_keys_def)
    then have c: "pair_cost i j = 64" by (simp add: pair_cost_def)
    then have "int KeySize \<le> rand_left st1" using assms(1) s(2) by (simp add: KeySize_def)
    then obtain key st2 where k: "GetRandomBytes st1 (int KeySize) = Inr (key, st2)" "rand_left st2 = rand_left st1 - 32"
      using GetRandomBytes_left[of KeySize st1] by (auto simp: KeySize_def)
    have "map_of (fresh_row mk j) i \<noteq> None" "map_of (fresh_row mk j) j \<noteq> None" using assms(2) fresh_row_rows by blast+
    then obtain mk1 where m1: "mac_set (fresh_row mk j) i j key = Inr mk1" "map_of mk1 j \<noteq> None"
      by (auto simp: mac_set_def update_conv)
    then obtain mk2 where "mac_set mk1 j i key = Inr mk2" by (auto simp: mac_set_def)
    then show ?thesis using False s k m1 c by (simp add: gen_pair_def Let_def)
  qed
qed

lemma pair_cost_nonneg: "0 \<le> (\<Sum>j\<leftarrow>js. pair_cost i j)"
  by (rule sum_list_nonneg) (auto simp: pair_cost_def)

lemma gen_pairs_total:
  assumes "(\<Sum>j\<leftarrow>js. pair_cost i j) \<le> rand_left st" "map_of mk i \<noteq> None" "mac_sym mk" "earlier_keys i mk" "\<forall>j \<in> set js. 0 \<le> j"
  shows "\<exists>row' mk' st'. foldM (gen_pair i) (row, mk, st) js = Inr (row', mk', st') \<and>
    rand_left st - (\<Sum>j\<leftarrow>js. pair_cost i j) \<le> rand_left st'"
  using assms
proof (induction js arbitrary: row mk st)
  case (Cons j js)
  have "pair_cost i j \<le> rand_left st" using Cons.prems(1) pair_cost_nonneg[of i js] by simp
  from gen_pair_total[OF this Cons.prems(2,4)] Cons.prems(5) obtain row1 mk1 st1 where
    s: "gen_pair i (row, mk, st) j = Inr (row1, mk1, st1)" "rand_left st - pair_cost i j \<le> rand_left st1" by fastforce
  have e: "mac_sym mk1" "mac_extends mk mk1" using gen_pair_spec[OF s(1) Cons.prems(3)] by blast+
  have "map_of mk1 i \<noteq> None" using e(2) Cons.prems(2) unfolding mac_extends_def by blast
  moreover have "earlier_keys i mk1" using e(2) Cons.prems(4) mac_extends_get unfolding earlier_keys_def by blast
  moreover have "(\<Sum>j\<leftarrow>js. pair_cost i j) \<le> rand_left st1" using s(2) Cons.prems(1) by simp
  ultimately obtain row' mk' st' where "foldM (gen_pair i) (row1, mk1, st1) js = Inr (row', mk', st')"
    "rand_left st1 - (\<Sum>j\<leftarrow>js. pair_cost i j) \<le> rand_left st'" using Cons.IH[OF _ _ e(1)] Cons.prems(5) by fastforce
  then show ?case using s by fastforce
qed simp

lemma gen_row_total:
  assumes "(\<Sum>j\<leftarrow>map int [0..<K]. pair_cost i j) \<le> rand_left st" "map_of mk i \<noteq> None" "mac_sym mk" "earlier_keys i mk"
  shows "\<exists>seeds' mk' st'. gen_row K (seeds, mk, st) i = Inr (seeds', mk', st') \<and> mac_sym mk' \<and> mac_extends mk mk' \<and>
    (\<forall>j \<in> int ` {0..<K}. j \<noteq> i \<longrightarrow> mac_get mk' i j \<noteq> None \<and> map_of mk' j \<noteq> None) \<and>
    rand_left st - (\<Sum>j\<leftarrow>map int [0..<K]. pair_cost i j) \<le> rand_left st'"
proof -
  obtain row mk' st' where s: "foldM (gen_pair i) ([], mk, st) (map int [0..<K]) = Inr (row, mk', st')"
    "rand_left st - (\<Sum>j\<leftarrow>map int [0..<K]. pair_cost i j) \<le> rand_left st'"
    using gen_pairs_total[OF assms, of "[]"] by auto
  then show ?thesis using gen_pairs_spec[OF s(1) assms(3)] by (simp add: gen_row_def)
qed

lemma pair_cost_row: "i < K \<Longrightarrow> (\<Sum>j\<leftarrow>map int [0..<K]. pair_cost (int i) j) = 32 * int K + 32 * (int K - int i - 1)"
proof (induction K)
  case (Suc K)
  have "(\<Sum>j\<leftarrow>map int [0..<i]. pair_cost (int i) j) = (\<Sum>j\<leftarrow>[0..<i]. 32)"
    unfolding map_map comp_def by (rule arg_cong[OF map_cong]) (auto simp: pair_cost_def)
  then have "(\<Sum>j\<leftarrow>map int [0..<i]. pair_cost (int i) j) = 32 * int i" by (simp add: sum_list_triv)
  then show ?case using Suc by (cases "i = K") (simp_all add: pair_cost_def)
qed simp

lemma gen_rows_total:
  assumes "a \<le> K" "1 \<le> K" "(\<Sum>i\<leftarrow>map int [a..<K]. \<Sum>j\<leftarrow>map int [0..<K]. pair_cost i j) \<le> rand_left st" "mac_sym mk"
    and "a = 0 \<Longrightarrow> map_of mk 0 \<noteq> None"
    and "\<forall>i < a. \<forall>j < K. i \<noteq> j \<longrightarrow> mac_get mk (int i) (int j) \<noteq> None \<and> map_of mk (int j) \<noteq> None"
  shows "\<exists>seeds' mk' st'. foldM (gen_row K) (seeds, mk, st) (map int [a..<K]) = Inr (seeds', mk', st') \<and>
    rand_left st - (\<Sum>i\<leftarrow>map int [a..<K]. \<Sum>j\<leftarrow>map int [0..<K]. pair_cost i j) \<le> rand_left st'"
  using assms
proof (induction "K - a" arbitrary: a seeds mk st)
  case (Suc d)
  let ?c = "\<lambda>i. \<Sum>j\<leftarrow>map int [0..<K]. pair_cost i j"
  have lt: "a < K" and d: "d = K - Suc a" using Suc.hyps(2) by simp_all
  then have up: "map int [a..<K] = int a # map int [Suc a..<K]" by (simp add: upt_conv_Cons)
  have "0 \<le> (\<Sum>i\<leftarrow>map int [Suc a..<K]. ?c i)" using pair_cost_nonneg by (intro sum_list_nonneg) (auto simp del: map_map)
  then have b: "?c (int a) \<le> rand_left st" using Suc.prems(3) unfolding up by simp
  have row: "map_of mk (int a) \<noteq> None" using Suc.prems(5,6) lt by (cases a) (simp, metis lessI less_not_refl)
  have ek: "earlier_keys (int a) mk" unfolding earlier_keys_def
  proof (intro allI impI)
    fix j assume j: "0 \<le> j \<and> j < int a"
    then have "mac_get mk (int (nat j)) (int a) \<noteq> None" using Suc.prems(6) lt by (metis nat_less_iff less_not_refl)
    then show "mac_get mk (int a) j \<noteq> None" using j Suc.prems(4) unfolding mac_sym_def by (metis int_nat_eq)
  qed
  from gen_row_total[OF b row Suc.prems(4) ek, of seeds] obtain seeds1 mk1 st1 where
    s: "gen_row K (seeds, mk, st) (int a) = Inr (seeds1, mk1, st1)" "mac_sym mk1" "mac_extends mk mk1"
      "\<forall>j \<in> int ` {0..<K}. j \<noteq> int a \<longrightarrow> mac_get mk1 (int a) j \<noteq> None \<and> map_of mk1 j \<noteq> None"
      "rand_left st - ?c (int a) \<le> rand_left st1" by blast
  have old: "\<forall>i < Suc a. \<forall>j < K. i \<noteq> j \<longrightarrow> mac_get mk1 (int i) (int j) \<noteq> None \<and> map_of mk1 (int j) \<noteq> None"
  proof (intro allI impI)
    fix i j assume ij: "i < Suc a" "j < K" "i \<noteq> j"
    show "mac_get mk1 (int i) (int j) \<noteq> None \<and> map_of mk1 (int j) \<noteq> None"
    proof (cases "i = a")
      case True
      then show ?thesis using s(4) ij by auto
    next
      case False
      then show ?thesis using Suc.prems(6) ij s(3) unfolding mac_extends_def by (metis less_SucE)
    qed
  qed
  have "(\<Sum>i\<leftarrow>map int [Suc a..<K]. ?c i) \<le> rand_left st1" using s(5) Suc.prems(3) unfolding up by simp
  then obtain seeds' mk' st' where "foldM (gen_row K) (seeds1, mk1, st1) (map int [Suc a..<K]) = Inr (seeds', mk', st')"
    "rand_left st1 - (\<Sum>i\<leftarrow>map int [Suc a..<K]. ?c i) \<le> rand_left st'"
    using Suc.hyps(1)[of "Suc a" st1 mk1 seeds1, OF d _ Suc.prems(2) _ s(2) _ old] lt by auto
  then show ?case using s(1,5) unfolding up by fastforce
qed simp

lemma table_cost: "(\<Sum>i\<leftarrow>map int [0..<K]. \<Sum>j\<leftarrow>map int [0..<K]. pair_cost i j) = 32 * int K * int K + 16 * int K * (int K - 1)"
proof -
  have tri: "(\<Sum>i = 0..<n. int K - int i - 1) * 2 = int n * (2 * int K - int n - 1)" for n
    by (induction n) (simp_all add: algebra_simps)
  have lin: "(\<Sum>i = 0..<n. c + 32 * f i) = int n * c + 32 * (\<Sum>i = 0..<n. f i)" for n c and f :: "nat \<Rightarrow> int"
    by (induction n) (simp_all add: algebra_simps)
  have "(\<Sum>i\<leftarrow>map int [0..<K]. \<Sum>j\<leftarrow>map int [0..<K]. pair_cost i j) = (\<Sum>i\<leftarrow>[0..<K]. 32 * int K + 32 * (int K - int i - 1))"
    unfolding map_map[of _ int "[0..<K]"] comp_def
    by (intro arg_cong[of _ _ sum_list] map_cong refl) (use pair_cost_row in \<open>simp add: comp_def\<close>)
  also have "\<dots> = (\<Sum>i = 0..<K. 32 * int K + 32 * (int K - int i - 1))" by (simp add: interv_sum_list_conv_sum_set_nat)
  also have "\<dots> = 32 * int K * int K + 16 * ((\<Sum>i = 0..<K. int K - int i - 1) * 2)"
    unfolding lin by simp
  finally show ?thesis unfolding tri by (simp add: algebra_simps)
qed

lemma gen_tables_left:
  assumes "32 * int K * int K + 16 * int K * (int K - 1) \<le> rand_left st"
  shows "\<exists>seeds mk st'. gen_tables K st = Inr (seeds, mk, st') \<and>
    rand_left st - (32 * int K * int K + 16 * int K * (int K - 1)) \<le> rand_left st'"
proof (cases "K = 0")
  case False
  have "mac_sym [(0, [])]" by (auto simp: mac_sym_def mac_get_def split: option.splits)
  then show ?thesis
    using gen_rows_total[of 0 K st "[(0, [])]" "[]"] assms False unfolding table_cost gen_tables_def by simp
qed (simp add: gen_tables_def)

lemma gen_tables_total:
  assumes "32 * int K * int K + 32 * int K * (int K - 1) \<le> rand_left st"
  shows "\<exists>r. gen_tables K st = Inr r"
proof -
  have "16 * int K * (int K - 1) \<le> 32 * int K * (int K - 1)" by (cases K) (auto intro!: mult_right_mono)
  then show ?thesis using gen_tables_left[of K st] assms by auto
qed

section \<open>Property\<close>

text \<open>
  Pairwise keys. If the buffer still holds the bytes \<^verbatim>\<open>Gen\<close> precomputes for seeds and
  keys, the table loops return: every ordered pair of parties has a 32-byte seed, and
  every pair of different parties holds one 32-byte MAC key that both find under the
  other's id; no party has a key with itself.
\<close>

theorem gen_pairwise_keys:
  assumes "0 \<le> RandomnessIndex st"
    and "RandomnessIndex st + 32 * int K * int K + 32 * int K * (int K - 1) \<le> int (length (PrecomputedRandomness st))"
  shows "\<exists>seeds mk st'. gen_tables K st = Inr (seeds, mk, st') \<and> (\<forall>i < K. \<forall>j < K.
    (\<exists>sd. seed_at seeds (int i) (int j) = Inr sd \<and> length sd = 32) \<and> mac_get mk (int i) (int i) = None \<and>
    (i \<noteq> j \<longrightarrow> (\<exists>key. mac_get mk (int i) (int j) = Some key \<and> mac_get mk (int j) (int i) = Some key \<and> length key = 32)))"
proof -
  have "32 * int K * int K + 32 * int K * (int K - 1) \<le> rand_left st" using assms by (simp add: rand_left_def)
  then obtain seeds mk st' where r: "gen_tables K st = Inr (seeds, mk, st')" using gen_tables_total by (metis prod_cases3)
  note g = gen_tables_spec[OF r]
  have sd: "\<exists>sd. seed_at seeds (int i) (int j) = Inr sd \<and> length sd = 32" if lt: "i < K" "j < K" for i j
  proof -
    obtain row where "map_of seeds (int i) = Some row" "length row = K" "\<forall>s \<in> set row. length s = 32"
      using bspec[OF conjunct1[OF conjunct2[OF g], unfolded seeds_ok_def], of "int i"] lt(1) by auto
    then show ?thesis using lt(2) by (simp add: seed_at_def gomap_at_def)
  qed
  have key: "\<exists>key. mac_get mk (int i) (int j) = Some key \<and> mac_get mk (int j) (int i) = Some key \<and> length key = 32"
    if lt: "i < K" "j < K" "i \<noteq> j" for i j
  proof -
    obtain key where "mac_get mk (int i) (int j) = Some key" using g lt by fastforce
    then show ?thesis using g unfolding mac_sym_def by metis
  qed
  have diag: "mac_get mk a a = None" for a using g unfolding mac_sym_def by blast
  show ?thesis
    using r sd key diag by (intro exI[of _ seeds] exI[of _ mk] exI[of _ st'] conjI[OF r] allI impI conjI) blast+
qed

theorem gen_pairwise_keys_witness:
  "\<exists>seeds mk st'. gen_tables 2 \<lparr> PrecomputedRandomness = replicate 192 1, RandomnessIndex = 0 \<rparr> = Inr (seeds, mk, st') \<and>
    (\<exists>key. mac_get mk 0 1 = Some key \<and> mac_get mk 1 0 = Some key \<and> length key = 32)"
proof -
  obtain seeds mk st' where r: "gen_tables 2 \<lparr> PrecomputedRandomness = replicate 192 1, RandomnessIndex = 0 \<rparr> = Inr (seeds, mk, st')"
    and all: "\<forall>i < 2. \<forall>j < 2. (\<exists>sd. seed_at seeds (int i) (int j) = Inr sd \<and> length sd = 32) \<and> mac_get mk (int i) (int i) = None \<and>
      (i \<noteq> j \<longrightarrow> (\<exists>key. mac_get mk (int i) (int j) = Some key \<and> mac_get mk (int j) (int i) = Some key \<and> length key = 32))"
    using gen_pairwise_keys[of "\<lparr> PrecomputedRandomness = replicate 192 1, RandomnessIndex = 0 \<rparr>" 2] by auto
  have "\<exists>key. mac_get mk (int 0) (int 1) = Some key \<and> mac_get mk (int 1) (int 0) = Some key \<and> length key = 32"
    using all[rule_format, of 0 1] by simp
  then show ?thesis using r by auto
qed

end
