(* ===== verification/Sign_Correctness.thy ===== *)
theory Sign_Correctness
  imports Sign Sign_Keys
begin

text \<open>
  What the signing protocol of \<^verbatim>\<open>sign/sign.go\<close> guarantees: round 1 fails closed, honest MACs
  are accepted and no unauthenticated commitment enters the sum, the masks cancel in the
  combined response, the rank and norm checks decide what they are named after, and an
  honestly combined signature verifies exactly when its norm is within the bound.
\<close>

section \<open>Round 1\<close>

lemma MAC_loop:
  assumes "foldM (\<lambda>m j. if j = me then Inr m else rbind (g j) (\<lambda>v. Inr (AList.update j v m))) m0 T = Inr m"
  shows "map_of m j = (if j \<in> set T \<and> j \<noteq> me then (case g j of Inr v \<Rightarrow> Some v | Inl _ \<Rightarrow> None) else map_of m0 j) \<and>
    (\<forall>j \<in> set T. j \<noteq> me \<longrightarrow> (\<exists>v. g j = Inr v))"
  using assms
proof (induction T arbitrary: m0)
  case (Cons t T)
  show ?case
  proof (cases "t = me")
    case True
    then show ?thesis using Cons.IH[of m0] Cons.prems by auto
  next
    case False
    then obtain v where v: "g t = Inr v"
      "foldM (\<lambda>m j. if j = me then Inr m else rbind (g j) (\<lambda>v. Inr (AList.update j v m))) (AList.update t v m0) T = Inr m"
      using Cons.prems by (auto simp: res_simps)
    from Cons.IH[OF this(2)] show ?thesis using False v(1) by (auto simp: update_conv)
  qed
qed simp

lemma round1_MACs_spec:
  assumes "round1_MACs en party D sid T = Inr MACs" "j \<in> set T" "j \<noteq> pID party"
  shows "\<exists>m. map_of MACs j = Some m \<and>
    GenerateMAC en (pSuite party) D (gomap_at (pMACKeys party) j) (pID party) sid T j False = Inr m"
  using MAC_loop[OF assms(1)[unfolded round1_MACs_def], of j] assms(2,3) by (auto split: sum.splits)

lemma round1_MACs_dom: "round1_MACs en party D sid T = Inr MACs \<Longrightarrow> map_of MACs j \<noteq> None \<longleftrightarrow> j \<in> set T \<and> j \<noteq> pID party"
  using MAC_loop[of "pID party" _ "[]" T MACs j] by (fastforce simp: round1_MACs_def split: sum.splits if_splits)

lemma SignRound1_Inr:
  assumes "SignRound1 en sys party A sid key T = (party', Inr (D, MACs))"
  shows "\<exists>salt rest skHash R E D0.
    \<not> isZero32 (DeriveSessionID en (pSuite party) sid T) \<and>
    (case pRand party of None \<Rightarrow> sys | Some src \<Rightarrow> src) = salt @ rest \<and> length salt = 32 \<and> \<not> isZero32 salt \<and>
    PRNGKeyForRound en (pSuite party) (pSkShare party) (DeriveSessionID en (pSuite party) sid T) salt = Inr skHash \<and>
    round1_nonces en (pRing party) skHash = (R, E) \<and>
    MatrixMatrixMul (pRing party) A R (InitializeMatrix (pRing party) dimM (Dbar + 1)) = Inr D0 \<and>
    MatrixAdd (pRing party) E D0 D0 = Inr D \<and>
    party' = party \<lparr> pRand := map_option (\<lambda>_. rest) (pRand party), pR := R, pD := D \<rparr> \<and>
    round1_MACs en party' D sid T = Inr MACs"
  using assms
  by (auto simp: SignRound1_def Let_def res_simps rbind_Inr_iff split: if_splits sum.splits prod.splits) blast

text \<open>
  Round 1 fails closed. A zero session identifier, or a zero salt, gives
  \<^verbatim>\<open>ErrDegenerateSession\<close>, leaves the nonce matrix and the commitment of the party as they
  were and releases nothing. When round 1 does return a commitment, the session identifier
  and the 32 bytes taken from the party's randomness source were not all zero, the
  commitment is \<open>A R + E\<close> for the nonces keyed by them, and there is a MAC for exactly the
  other members of the signer set.
\<close>

theorem round1_fail_closed:
  "(isZero32 (DeriveSessionID en (pSuite party) sid T) \<longrightarrow>
      SignRound1 en sys party A sid key T = (party, Inl ErrDegenerateSession)) \<and>
   (length salt = 32 \<and> isZero32 salt \<and> pRand party = Some (salt @ rest) \<longrightarrow>
      (\<exists>party'. SignRound1 en sys party A sid key T = (party', Inl ErrDegenerateSession) \<and>
         pR party' = pR party \<and> pD party' = pD party)) \<and>
   (\<forall>party' D MACs. SignRound1 en sys party A sid key T = (party', Inr (D, MACs)) \<longrightarrow>
      \<not> isZero32 (DeriveSessionID en (pSuite party) sid T) \<and> pD party' = D \<and>
      (\<exists>salt rest skHash E D0. (case pRand party of None \<Rightarrow> sys | Some src \<Rightarrow> src) = salt @ rest \<and> length salt = 32 \<and>
         salt \<noteq> replicate 32 0 \<and> pRand party' = map_option (\<lambda>_. rest) (pRand party) \<and>
         PRNGKeyForRound en (pSuite party) (pSkShare party) (DeriveSessionID en (pSuite party) sid T) salt = Inr skHash \<and>
         round1_nonces en (pRing party) skHash = (pR party', E) \<and>
         MatrixMatrixMul (pRing party) A (pR party') (InitializeMatrix (pRing party) dimM (Dbar + 1)) = Inr D0 \<and>
         MatrixAdd (pRing party) E D0 D0 = Inr D) \<and>
      (\<forall>j. map_of MACs j \<noteq> None \<longleftrightarrow> j \<in> set T \<and> j \<noteq> pID party))"
proof (intro conjI allI impI)
  fix party' D MACs assume run: "SignRound1 en sys party A sid key T = (party', Inr (D, MACs))"
  note I = SignRound1_Inr[OF run]
  then have id: "pID party' = pID party" by auto
  show "\<not> isZero32 (DeriveSessionID en (pSuite party) sid T)" "pD party' = D" using I by auto
  show "\<exists>salt rest skHash E D0. (case pRand party of None \<Rightarrow> sys | Some src \<Rightarrow> src) = salt @ rest \<and> length salt = 32 \<and>
         salt \<noteq> replicate 32 0 \<and> pRand party' = map_option (\<lambda>_. rest) (pRand party) \<and>
         PRNGKeyForRound en (pSuite party) (pSkShare party) (DeriveSessionID en (pSuite party) sid T) salt = Inr skHash \<and>
         round1_nonces en (pRing party) skHash = (pR party', E) \<and>
         MatrixMatrixMul (pRing party) A (pR party') (InitializeMatrix (pRing party) dimM (Dbar + 1)) = Inr D0 \<and>
         MatrixAdd (pRing party) E D0 D0 = Inr D"
  proof -
    obtain salt rest skHash R E D0 where o: "(case pRand party of None \<Rightarrow> sys | Some src \<Rightarrow> src) = salt @ rest" "length salt = 32"
      "\<not> isZero32 salt" "PRNGKeyForRound en (pSuite party) (pSkShare party) (DeriveSessionID en (pSuite party) sid T) salt = Inr skHash"
      "round1_nonces en (pRing party) skHash = (R, E)"
      "MatrixMatrixMul (pRing party) A R (InitializeMatrix (pRing party) dimM (Dbar + 1)) = Inr D0"
      "MatrixAdd (pRing party) E D0 D0 = Inr D"
      "party' = party \<lparr> pRand := map_option (\<lambda>_. rest) (pRand party), pR := R, pD := D \<rparr>"
      using I by blast
    have "salt \<noteq> replicate 32 0" using o(3) by (auto simp: isZero32_def ConstantTimeCompare_eq)
    then show ?thesis
      by (intro exI[of _ salt] exI[of _ rest] exI[of _ skHash] exI[of _ E] exI[of _ D0]) (use o in simp)
  qed
  fix j show "map_of MACs j \<noteq> None \<longleftrightarrow> j \<in> set T \<and> j \<noteq> pID party" using I round1_MACs_dom[of en party' D sid T MACs j] id by auto
qed (auto simp: SignRound1_def Let_def)

definition ex_party :: Party where
  "ex_party = NewParty ex_xof [] 0 (slot_ring 1) (coeff_ops 262144 1) (coeff_ops 524288 1)"

theorem round1_fail_closed_witness:
  "\<exists>party'. SignRound1 ex_env [] (ex_party \<lparr> pRand := Some (replicate 32 0) \<rparr>) [] 1 [] [0, 1] = (party', Inl ErrDegenerateSession) \<and>
     pD party' = []"
  using conjunct1[OF conjunct2[OF round1_fail_closed[of ex_env "ex_party \<lparr> pRand := Some (replicate 32 0) \<rparr>" 1 "[0, 1]" "[]" "[]" "[]" "replicate 32 0" "[]"]]]
  by (auto simp: isZero32_def ConstantTimeCompare_eq ex_party_def NewParty_def NewPartyWithSuite_def)

section \<open>Authentication in round 2\<close>

lemma GenerateMAC_agree:
  "GenerateMAC en su D key i sid T j False = GenerateMAC en su D key j sid T i True"
  by (simp add: GenerateMAC_def)

lemma check_MACs_True:
  "check_MACs en party D MACs sid T js = Inr True \<longleftrightarrow> (\<forall>j \<in> set js. j \<noteq> pID party \<longrightarrow>
     GenerateMAC en (pSuite party) (gomap_at D j) (gomap_at (pMACKeys party) j) (pID party) sid T j True
       = Inr (gomap_at (gomap_at MACs j) (pID party)))"
  by (induction js) (auto simp: ConstantTimeCompare_eq rbind_Inr_iff split: if_splits)

lemma check_MACs_restrict:
  "\<forall>j \<in> set js. map_of D j = map_of D' j \<and> map_of MACs j = map_of MACs' j \<Longrightarrow>
   check_MACs en party D MACs sid T js = check_MACs en party D' MACs' sid T js"
  by (induction js) (auto simp: gomap_at_def cong: if_cong)

lemma sum_D_restrict: "\<forall>j \<in> set js. map_of D j = map_of D' j \<Longrightarrow> sum_D r D s js = sum_D r D' s js"
  by (induction js arbitrary: s) (auto split: option.splits sum.splits)

lemma sum_D_Some: "sum_D r D s js = Inr (Some m) \<Longrightarrow> j \<in> set js \<Longrightarrow> map_of D j \<noteq> None"
  by (induction js arbitrary: s) (auto split: option.splits sum.splits if_splits)

lemma Hash_restrict:
  "\<forall>j \<in> set T. map_of D j = map_of D' j \<Longrightarrow> Hash en su A b D sid T = Hash en su A b D' sid T"
  unfolding Hash_def hash_preimage_def by (simp cong: mapM_cong)

lemma honest_macs_core:
  assumes "pID i \<in> set T"
    and "\<forall>j \<in> set T. j \<noteq> pID i \<longrightarrow> (\<exists>sys p p' A key Dj Mj.
      SignRound1 en sys p A sid key T = (p', Inr (Dj, Mj)) \<and> pID p = j \<and> pSuite p = pSuite i \<and>
      gomap_at (pMACKeys p) (pID i) = gomap_at (pMACKeys i) j \<and> map_of D j = Some Dj \<and> map_of MACs j = Some Mj)"
  shows "check_MACs en i D MACs sid T T = Inr True"
  unfolding check_MACs_True
proof (intro ballI impI)
  fix j assume j: "j \<in> set T" "j \<noteq> pID i"
  then obtain sys p p' A key Dj Mj where h: "SignRound1 en sys p A sid key T = (p', Inr (Dj, Mj))" "pID p = j" "pSuite p = pSuite i"
    "gomap_at (pMACKeys p) (pID i) = gomap_at (pMACKeys i) j" "map_of D j = Some Dj" "map_of MACs j = Some Mj"
    using assms(2) by blast
  note I = SignRound1_Inr[OF h(1)]
  have p': "pID p' = j" "pSuite p' = pSuite i" "pMACKeys p' = pMACKeys p" and run: "round1_MACs en p' Dj sid T = Inr Mj"
    using I h(2,3) by auto
  obtain m where m: "map_of Mj (pID i) = Some m"
    "GenerateMAC en (pSuite p') Dj (gomap_at (pMACKeys p') (pID i)) (pID p') sid T (pID i) False = Inr m"
    using round1_MACs_spec[OF run assms(1)] j(2) p'(1) by auto
  have "GenerateMAC en (pSuite i) Dj (gomap_at (pMACKeys i) j) (pID i) sid T j True = Inr m"
    using m(2) p' h(4) GenerateMAC_agree by metis
  then show "GenerateMAC en (pSuite i) (gomap_at D j) (gomap_at (pMACKeys i) j) (pID i) sid T j True
      = Inr (gomap_at (gomap_at MACs j) (pID i))"
    using h(5,6) m(1) by (simp add: gomap_at_def)
qed

text \<open>
  An honest run passes authentication. If every other member of the signer set sends
  party \<open>i\<close> what its own round 1 returned for this session, and shares its MAC key with \<open>i\<close>,
  then \<open>i\<close>'s check of all MACs succeeds.
\<close>

theorem honest_macs_accepted:
  assumes "pID i \<in> set T"
    and "\<forall>j \<in> set T. j \<noteq> pID i \<longrightarrow> (\<exists>sys p p' A key Dj Mj.
      SignRound1 en sys p A sid key T = (p', Inr (Dj, Mj)) \<and> pID p = j \<and> pSuite p = pSuite i \<and>
      gomap_at (pMACKeys p) (pID i) = gomap_at (pMACKeys i) j \<and> map_of D j = Some Dj \<and> map_of MACs j = Some Mj)"
  shows "check_MACs en i D MACs sid T T = Inr True"
  by (rule honest_macs_core[OF assms])

text \<open>What the sender \<open>j\<close> of a commitment, serialised to \<open>d\<close>, authenticates in a session.\<close>

definition mac_input :: "int \<Rightarrow> bytes \<Rightarrow> int \<Rightarrow> int list \<Rightarrow> bytes" where
  "mac_input j d sid T = i64 j @ d @ i64 sid @ T_bytes T"

lemma mac_input_eq [simp]: "mac_input j d sid T = mac_input j d' sid T \<longleftrightarrow> d = d'"
  by (simp add: mac_input_def)

lemma GenerateMAC_Inr_iff:
  "GenerateMAC en su D key i sid T j v = Inr m \<longleftrightarrow> (\<exists>d. encMatrix (envCodec en) D = Inr d \<and>
     m = hsMAC (Resolve (envXof en) su) key (mac_input (if v then j else i) d sid T) keySize)"
  by (auto simp: GenerateMAC_def mac_input_def res_simps must_def split: sum.splits)

text \<open>A tag computed by the sender's round 1 and accepted by the recipient for another
  commitment is a collision of the MAC under their key.\<close>

lemma accepted_tag_binds:
  assumes "GenerateMAC en (pSuite i) D' (gomap_at (pMACKeys i) j) (pID i) sid T j True = Inr (gomap_at M (pID i))"
    and "SignRound1 en sys p A sid key T = (p', Inr (Dj, M))" "pID p = j" "pSuite p = pSuite i"
    and "gomap_at (pMACKeys p) (pID i) = gomap_at (pMACKeys i) j" "pID i \<in> set T" "j \<noteq> pID i"
  shows "\<exists>d d'. encMatrix (envCodec en) Dj = Inr d \<and> encMatrix (envCodec en) D' = Inr d' \<and> (d' = d \<or>
    mac_input j d' sid T \<noteq> mac_input j d sid T \<and>
    hsMAC (Resolve (envXof en) (pSuite i)) (gomap_at (pMACKeys i) j) (mac_input j d' sid T) keySize =
    hsMAC (Resolve (envXof en) (pSuite i)) (gomap_at (pMACKeys i) j) (mac_input j d sid T) keySize)"
proof -
  have p': "pID p' = j" "pSuite p' = pSuite i" "pMACKeys p' = pMACKeys p" "round1_MACs en p' Dj sid T = Inr M"
    using SignRound1_Inr[OF assms(2)] assms(3,4) by auto
  obtain m where "map_of M (pID i) = Some m"
    "GenerateMAC en (pSuite p') Dj (gomap_at (pMACKeys p') (pID i)) (pID p') sid T (pID i) False = Inr m"
    using round1_MACs_spec[OF p'(4) assms(6)] assms(7) p'(1) by auto
  then have "GenerateMAC en (pSuite i) Dj (gomap_at (pMACKeys i) j) j sid T (pID i) False = Inr (gomap_at M (pID i))"
    using p' assms(5) by (simp add: gomap_at_def)
  then show ?thesis using assms(1) by (auto simp: GenerateMAC_Inr_iff)
qed

text \<open>
  C37: nothing unauthenticated is summed. Suppose the preprocessing of round 2 hands a member of
  the signer set the sum \<open>DSum\<close> of the commitments. Then the sum has full rank, it is the sum of the
  commitments received from all members of the set, the transcript hash is the one over them, and
  the entries that either map holds for others do not matter. And each commitment that was summed is
  the one its sender committed to: if the MAC received from \<open>j\<close> is the one that \<open>j\<close>'s own round 1
  computed for this member under their common key, the commitment received has the serialisation of
  the commitment that \<open>j\<close>'s round 1 returned, or the two named messages are a collision of the MAC.
\<close>

theorem preprocess_authenticated:
  assumes "SignRound2Preprocess en party A b D MACs sid T = Inr (Some (DSum, h))" "pID party \<in> set T"
    and "\<forall>j \<in> set T. map_of D j = map_of D' j \<and> map_of MACs j = map_of MACs' j"
  shows "SignRound2Preprocess en party A b D' MACs' sid T = Inr (Some (DSum, h)) \<and>
    Hash en (pSuite party) A b D sid T = Inr h \<and> FullRankCheck DSum (pRing party) = Inr True \<and>
    sum_D (pRing party) D (InitializeMatrix (pRing party) dimM (Dbar + 1)) T = Inr (Some DSum) \<and>
    (\<forall>j \<in> set T. map_of D j \<noteq> None) \<and>
    (\<forall>j \<in> set T. \<forall>sys p p' A' key Dj Mj. j \<noteq> pID party \<and> SignRound1 en sys p A' sid key T = (p', Inr (Dj, Mj)) \<and>
      pID p = j \<and> pSuite p = pSuite party \<and> gomap_at (pMACKeys p) (pID party) = gomap_at (pMACKeys party) j \<and>
      map_of MACs j = Some Mj \<longrightarrow>
      (\<exists>d d'. encMatrix (envCodec en) Dj = Inr d \<and> encMatrix (envCodec en) (gomap_at D j) = Inr d' \<and> (d' = d \<or>
        mac_input j d' sid T \<noteq> mac_input j d sid T \<and>
        hsMAC (Resolve (envXof en) (pSuite party)) (gomap_at (pMACKeys party) j) (mac_input j d' sid T) keySize =
        hsMAC (Resolve (envXof en) (pSuite party)) (gomap_at (pMACKeys party) j) (mac_input j d sid T) keySize)))"
proof (intro conjI ballI allI impI)
  have d: "\<forall>j \<in> set T. map_of D j = map_of D' j" using assms(3) by blast
  show "SignRound2Preprocess en party A b D' MACs' sid T = Inr (Some (DSum, h))"
    using assms(1) unfolding SignRound2Preprocess_def Hash_restrict[OF d] check_MACs_restrict[OF assms(3)] sum_D_restrict[OF d] .
  have *: "Hash en (pSuite party) A b D sid T = Inr h" "check_MACs en party D MACs sid T T = Inr True"
    "sum_D (pRing party) D (InitializeMatrix (pRing party) dimM (Dbar + 1)) T = Inr (Some DSum)"
    "FullRankCheck DSum (pRing party) = Inr True"
    using assms(1) by (auto simp: SignRound2Preprocess_def res_simps split: if_splits option.splits)
  show "Hash en (pSuite party) A b D sid T = Inr h" "FullRankCheck DSum (pRing party) = Inr True"
    "sum_D (pRing party) D (InitializeMatrix (pRing party) dimM (Dbar + 1)) T = Inr (Some DSum)" by fact+
  fix j assume j: "j \<in> set T"
  show "map_of D j \<noteq> None" using sum_D_Some[OF *(3) j] .
  fix sys p p' A' key Dj Mj
  assume h: "j \<noteq> pID party \<and> SignRound1 en sys p A' sid key T = (p', Inr (Dj, Mj)) \<and> pID p = j \<and> pSuite p = pSuite party \<and>
    gomap_at (pMACKeys p) (pID party) = gomap_at (pMACKeys party) j \<and> map_of MACs j = Some Mj"
  then have "GenerateMAC en (pSuite party) (gomap_at D j) (gomap_at (pMACKeys party) j) (pID party) sid T j True
      = Inr (gomap_at Mj (pID party))"
    using *(2) j by (auto simp: check_MACs_True gomap_at_def)
  then show "\<exists>d d'. encMatrix (envCodec en) Dj = Inr d \<and> encMatrix (envCodec en) (gomap_at D j) = Inr d' \<and> (d' = d \<or>
      mac_input j d' sid T \<noteq> mac_input j d sid T \<and>
      hsMAC (Resolve (envXof en) (pSuite party)) (gomap_at (pMACKeys party) j) (mac_input j d' sid T) keySize =
      hsMAC (Resolve (envXof en) (pSuite party)) (gomap_at (pMACKeys party) j) (mac_input j d sid T) keySize)"
    using h assms(2) by (intro accepted_tag_binds) blast+
qed

section \<open>The rank check\<close>

lemma all_full_rank_eq:
  assumes q: "prime_mod (rModulus r)" and D: "D \<noteq> []" "\<forall>row \<in> set D. length row = Suc n"
  shows "all_full_rank r D is = Inr (\<forall>i \<in> set is. independent (rModulus r) n (slot_matrix r D i))"
proof (induction "is")
  case (Cons i "is")
  let ?m = "slot_matrix r D i"
  have pos: "0 < rModulus r" using prime_modD[OF q] by simp
  have len: "length row = n" if "row \<in> set ?m" for row using that D(2) by (auto simp: slot_matrix_def)
  have ne: "?m \<noteq> []" using D(1) by (simp add: slot_matrix_def)
  then have hd: "length (hd ?m) = n" using len hd_in_set by blast
  have "\<forall>row \<in> set ?m. reduced (rModulus r) (length (hd ?m)) row"
    using len hd pos by (auto simp: reduced_def) (auto simp: slot_matrix_def)
  then have "GaussianEliminationModQ ?m (rModulus r) = Inr (independent (rModulus r) n ?m)"
    using GaussianEliminationModQ_rank[OF q ne] hd by simp
  then show ?case using Cons.IH by simp
qed simp

text \<open>
  The rank check. On a matrix of equally long rows over a prime modulus
  \<^verbatim>\<open>FullRankCheck\<close> returns, and returns true exactly when in every slot of the transform
  domain the rows without their first entry are linearly independent.
\<close>

theorem full_rank_check:
  assumes "prime_mod (rModulus r)" "D \<noteq> []" "\<forall>row \<in> set D. length row = Suc n"
  shows "FullRankCheck D r = Inr (\<forall>i < rN r. independent (rModulus r) n (slot_matrix r D i))"
proof -
  have "hd D \<noteq> []" "\<not> (\<exists>row \<in> set D. length row \<noteq> length (hd D))" using assms(2,3) by (cases D; fastforce)+
  then show ?thesis using all_full_rank_eq[OF assms, of "[0..<rN r]"] by (auto simp: FullRankCheck_def)
qed

section \<open>The norm check\<close>

lemma centered_mod: "0 \<le> c \<Longrightarrow> c < corona_q \<Longrightarrow> centered c mod corona_q = c"
  by (simp add: centered_def)

lemma centered_least:
  assumes "0 \<le> c" "c < corona_q" "x mod corona_q = c"
  shows "centered c * centered c \<le> x * x"
proof -
  define t where "t = (x - centered c) div corona_q"
  have "x mod corona_q = centered c mod corona_q" using assms centered_mod by simp
  then have "corona_q dvd x - centered c" by (simp add: mod_eq_dvd_iff)
  then have x: "x = centered c + corona_q * t" by (simp add: t_def)
  have h: "2 * abs (centered c) \<le> corona_q" using assms(1,2) by (auto simp: centered_def corona_q_def)
  have "abs (centered c) \<le> abs x"
  proof (cases "t = 0")
    case False
    then have "1 \<le> abs t" by linarith
    then have "corona_q * 1 \<le> corona_q * abs t" by (rule mult_left_mono) (simp add: corona_q_def)
    then have "corona_q \<le> corona_q * abs t" by simp
    also have "\<dots> = abs (corona_q * t)" by (simp add: abs_mult corona_q_def)
    finally show ?thesis using x h by linarith
  qed (simp add: x)
  then show ?thesis by (metis abs_le_square_iff power2_eq_square)
qed

lemma sum_squares_eq:
  assumes "coeff_ring r" "vec_ok r n v"
  shows "sum_squares r v = (\<Sum>i<n. \<Sum>k<rN r. centered (pcoef (v ! i) k) * centered (pcoef (v ! i) k))"
proof -
  have "sum_list (map (\<lambda>c. centered c * centered c) (rPolyToBigint r (v ! i)))
      = (\<Sum>k<rN r. centered (pcoef (v ! i) k) * centered (pcoef (v ! i) k))" if "i < n" for i
    unfolding coeff_ring.PolyToBigint[OF assms(1) vec_ok_nth[OF assms(2) that]] map_map comp_def
      interv_sum_list_conv_sum_set_nat set_upt by (simp add: lessThan_atLeast0)
  then show ?thesis
    using assms(2) unfolding sum_squares_def sum_list_sum_nth
    by (intro sum.cong) (auto simp: vec_ok_def lessThan_atLeast0)
qed

text \<open>
  The norm check decides shortness. For vectors of ring elements with at most \<open>N\<close>
  entries \<^verbatim>\<open>CheckL2Norm\<close> returns, and returns true exactly when the residues have some
  integer representatives whose squares sum to at most \<open>B^2\<close>: the signed representatives
  it sums are the smallest ones.
\<close>

theorem l2_norm_decides_shortness:
  assumes "coeff_ring r" "rModulus r = corona_q" "vec_ok r a Delta" "vec_ok r b z" "a \<le> rN r" "b \<le> rN r"
  shows "\<exists>ok. CheckL2Norm r Delta z = Inr ok \<and> (ok \<longleftrightarrow> (\<exists>f g.
    (\<forall>i < a. \<forall>k < rN r. f i k mod corona_q = pcoef (Delta ! i) k) \<and>
    (\<forall>i < b. \<forall>k < rN r. g i k mod corona_q = pcoef (z ! i) k) \<and>
    (\<Sum>i<a. \<Sum>k<rN r. f i k * f i k) + (\<Sum>i<b. \<Sum>k<rN r. g i k * g i k) \<le> Bsquare))"
proof -
  let ?sq = "\<lambda>v i k. centered (pcoef (v ! i) k) * centered (pcoef (v ! i) k)"
  have run: "CheckL2Norm r Delta z = Inr ((\<Sum>i<a. \<Sum>k<rN r. ?sq Delta i k) + (\<Sum>i<b. \<Sum>k<rN r. ?sq z i k) \<le> Bsquare)"
    using assms(3-6) sum_squares_eq[OF assms(1,3)] sum_squares_eq[OF assms(1,4)] by (simp add: CheckL2Norm_def vec_ok_def)
  have rng: "0 \<le> pcoef (v ! i) k \<and> pcoef (v ! i) k < corona_q" if "vec_ok r n v" "i < n" "k < rN r" for v n i k
    using pcoef_range[OF vec_ok_nth[OF that(1,2)] that(3)] assms(2) by simp
  have least: "(\<Sum>i<n. \<Sum>k<rN r. ?sq v i k) \<le> (\<Sum>i<n. \<Sum>k<rN r. f i k * f i k)"
    if v: "vec_ok r n v" and f: "\<forall>i < n. \<forall>k < rN r. f i k mod corona_q = pcoef (v ! i) k" for v n f
    by (intro sum_mono centered_least) (use rng[OF v] f in auto)
  have rep: "\<forall>i < n. \<forall>k < rN r. centered (pcoef (v ! i) k) mod corona_q = pcoef (v ! i) k" if "vec_ok r n v" for v n
    using rng[OF that] by (simp add: centered_mod)
  show ?thesis
  proof (intro exI conjI, rule run, rule iffI)
    assume "(\<Sum>i<a. \<Sum>k<rN r. ?sq Delta i k) + (\<Sum>i<b. \<Sum>k<rN r. ?sq z i k) \<le> Bsquare"
    then show "\<exists>f g. (\<forall>i < a. \<forall>k < rN r. f i k mod corona_q = pcoef (Delta ! i) k) \<and>
      (\<forall>i < b. \<forall>k < rN r. g i k mod corona_q = pcoef (z ! i) k) \<and>
      (\<Sum>i<a. \<Sum>k<rN r. f i k * f i k) + (\<Sum>i<b. \<Sum>k<rN r. g i k * g i k) \<le> Bsquare"
      using rep[OF assms(3)] rep[OF assms(4)]
      by (intro exI[of _ "\<lambda>i k. centered (pcoef (Delta ! i) k)"] exI[of _ "\<lambda>i k. centered (pcoef (z ! i) k)"] conjI) assumption+
  next
    assume "\<exists>f g. (\<forall>i < a. \<forall>k < rN r. f i k mod corona_q = pcoef (Delta ! i) k) \<and>
      (\<forall>i < b. \<forall>k < rN r. g i k mod corona_q = pcoef (z ! i) k) \<and>
      (\<Sum>i<a. \<Sum>k<rN r. f i k * f i k) + (\<Sum>i<b. \<Sum>k<rN r. g i k * g i k) \<le> Bsquare"
    then obtain f g where f: "\<forall>i < a. \<forall>k < rN r. f i k mod corona_q = pcoef (Delta ! i) k"
      and g: "\<forall>i < b. \<forall>k < rN r. g i k mod corona_q = pcoef (z ! i) k"
      and "(\<Sum>i<a. \<Sum>k<rN r. f i k * f i k) + (\<Sum>i<b. \<Sum>k<rN r. g i k * g i k) \<le> Bsquare" by blast
    then show "(\<Sum>i<a. \<Sum>k<rN r. ?sq Delta i k) + (\<Sum>i<b. \<Sum>k<rN r. ?sq z i k) \<le> Bsquare"
      using least[OF assms(3) f] least[OF assms(4) g] by linarith
  qed
qed

theorem l2_norm_decides_shortness_witness:
  "\<exists>ok. CheckL2Norm ref_ring [[[5, 7]]] [[[1, 2]]] = Inr ok \<and> (ok \<longleftrightarrow> (\<exists>f g.
    (\<forall>i < 1. \<forall>k < 2. f i k mod corona_q = pcoef ([[[5, 7]]] ! i) k) \<and>
    (\<forall>i < 1. \<forall>k < 2. g i k mod corona_q = pcoef ([[[1, 2]]] ! i) k) \<and>
    (\<Sum>i<(1::nat). \<Sum>k<(2::nat). f i k * f i k) + (\<Sum>i<(1::nat). \<Sum>k<(2::nat). g i k * g i k) \<le> Bsquare))"
proof -
  have v: "vec_ok ref_ring 1 [[[5, 7]]]" "vec_ok ref_ring 1 [[[1, 2]]]"
    by (simp_all add: vec_ok_def ref_ring_def pvalid_def corona_q_def)
  have "rModulus ref_ring = corona_q" "rN ref_ring = 2" by (simp_all add: ref_ring_def)
  with l2_norm_decides_shortness[OF ref.coeff_ring_axioms _ v] show ?thesis by (simp only:)
qed

section \<open>Masks and combination\<close>

text \<open>
  The masks cancel. If every signer of the set ran round 2 in the same session (same
  rings, suite and seed table) and the combiner adds their responses, each coordinate of the
  combined response is the sum of the signers' own contributions, the nonce part
  \<open>R_i u\<close> plus \<open>s_i lambda_i c\<close>; no mask is left.
\<close>

theorem masks_cancel:
  assumes "lattice_ring rg" "sampling_ok (envSampling en) rg"
    and "\<forall>(p, p', z) \<in> set rs. signer_ok rg p \<and> pSuite p = su \<and> pSeed p = seeds \<and>
      SignRound2 en p A bTilde DSum sid mu (map (\<lambda>(p, p', z). pID p) rs) key h = Inr (p', z)"
    and "pRing comb = rg" "SignFinalize comb (map (\<lambda>(p, p', z). (pID p, z)) rs) A bTilde = Inr (c, zsum, Delta)"
  shows "\<forall>i < dimN. \<forall>k < rN rg.
    pcoef (zsum ! i) k = (\<Sum>(p, p', z)\<leftarrow>rs. resp_core rg p (round2_u en p h mu) (pC p') i k) mod rModulus rg"
  using masks_cancel_core[OF assms] by blast

text \<open>
  C3: an honest signature verifies up to its norm. Let the combiner hold a rounded commitment
  with reduced coefficients and the challenge hashed from it, and let the rounded
  \<open>A z - b c\<close> have reduced coefficients. Then verification of what \<^verbatim>\<open>SignFinalize\<close> returned
  recomputes the same commitment and challenge and never panics: its answer is the norm
  bound on the restored hint and the response.
\<close>

theorem finalize_verifies:
  assumes "coeff_ring (pRing party)" "coeff_ring (pRingNu party)"
    and "rN (pRingNu party) = rN (pRing party)" "dimM \<le> rN (pRing party)"
    and "length A = dimM" "\<forall>row \<in> set A. length row = dimN"
    and "SignFinalize party zs A bTilde = Inr (c, z, Delta)"
    and "LowNormHash en suite (pRing party) A bTilde (pH party) mu Kappa = Inr (pC party)"
    and "vec_ok (pRingNu party) dimM (pH party)"
    and "pvalid (rModulus (pRing party)) (rN (pRing party)) (pC party)"
    and "rounded_Az_bc (pRing party) (pRingXi party) (pRingNu party) A z bTilde c = Inr w" "vec_ok (pRingNu party) dimM w"
  shows "VerifyWithSuite en suite (pRing party) (pRingXi party) (pRingNu party) z A mu bTilde c Delta =
    Inr (sum_squares (pRing party) (map (\<lambda>p. [map (push_bit Nu) (hd p)]) Delta)
       + sum_squares (pRing party) (ConvertVectorFromNTT (pRing party) z) \<le> Bsquare)"
  by (rule finalize_verify_core[OF assms])

text \<open>
  The shape of a signature is fixed. Verification of a response or a hint of any other
  length than the key implies returns false, without a panic: once a signature is accepted,
  nothing can be appended to it or cut off from it.
\<close>

theorem verify_rejects_other_shapes:
  assumes "VerifyWithSuite en suite r r_xi r_nu z A mu bTilde c Delta = Inr True"
    and "length z' \<noteq> length z \<or> length Delta' \<noteq> length Delta"
  shows "VerifyWithSuite en suite r r_xi r_nu z' A mu' bTilde c' Delta' = Inr False"
  using assms by (auto simp: VerifyWithSuite_def split: if_splits)

section \<open>A small session\<close>

text \<open>Two signers over the slot ring of degree 8 with zero shares and nonces: small enough
  to run through the model, with masks that are not zero.\<close>

abbreviation ex8 :: ring_ops where "ex8 \<equiv> slot_ring 8"
abbreviation ex8nu :: ring_ops where "ex8nu \<equiv> coeff_ops 524288 8"

interpretation ex8: lattice_ring "slot_ring 8"
  by (rule lattice_ring_slot_ring) simp

interpretation ex8nu: coeff_ring "coeff_ops 524288 8"
  by (rule coeff_ring_coeff_ops) simp_all

definition ex8_sampling :: "nat sampling" where
  "ex8_sampling = ex_sampling \<lparr> uniformRead := (\<lambda>s. ([replicate 8 (if even s then 3 else 5)], Suc s)),
     gaussRead := (\<lambda>s. ([replicate 8 1], Suc s)), ternaryRead := (\<lambda>s. ([replicate 8 1], Suc s)) \<rparr>"

definition ex8_env :: "nat env" where
  "ex8_env = ex_env \<lparr> envSampling := ex8_sampling \<rparr>"

definition ex8_signer :: "int \<Rightarrow> Party" where
  "ex8_signer i = (NewParty ex_xof [] i ex8 (coeff_ops 262144 8) ex8nu)
     \<lparr> pSeed := [(0, [[1], [2]]), (1, [[3], [4]])], pR := replicate dimN (replicate (Suc Dbar) (rNewPoly ex8)),
       pSkShare := replicate dimN (rNewPoly ex8), pLambda := rNewPoly ex8 \<rparr>"

abbreviation ex8_A :: matrix where "ex8_A \<equiv> replicate dimM (replicate dimN (rNewPoly (slot_ring 8)))"
abbreviation ex8_b :: vec where "ex8_b \<equiv> replicate dimM (rNewPoly (slot_ring 8))"

lemma ex8_simps [simp]:
  "pRing (ex8_signer i) = ex8" "pRingNu (ex8_signer i) = ex8nu" "pID (ex8_signer i) = i"
  "pSeed (ex8_signer i) = [(0, [[1], [2]]), (1, [[3], [4]])]" "pSuite (ex8_signer i) = Some (Default ex_xof)"
  by (simp_all add: ex8_signer_def NewParty_def NewPartyWithSuite_def Resolve_def)

lemma ex8nu_simps [simp]: "rN ex8nu = 8" "rModulus ex8nu = 524288" "rNewPoly ex8nu = [replicate 8 0]"
  by (simp_all add: coeff_ops_def)

lemma ex8_sampling_ok: "sampling_ok (envSampling ex8_env) ex8"
  by (simp add: sampling_ok_def ex8_env_def ex8_sampling_def pvalid_def corona_q_def)

lemma mat_ok_zero: "mat_ok ex8 m n (replicate m (replicate n (rNewPoly ex8)))"
proof -
  have "vec_ok ex8 n (replicate n (rNewPoly ex8))" by (rule vec_ok_replicate[OF ex8.valid_NewPoly])
  then show ?thesis by (simp add: mat_ok_def)
qed

lemma ex8_signer_ok: "signer_ok ex8 (ex8_signer i)"
  unfolding signer_ok_def
  using ex8.valid_NewPoly mat_ok_zero[of dimN "Suc Dbar"] vec_ok_replicate[OF ex8.valid_NewPoly, of dimN]
  by (simp add: ex8_signer_def NewParty_def NewPartyWithSuite_def del: replicate_Suc)

lemma ex8_hash: "\<exists>c. LowNormHash ex8_env su ex8 A b h mu kappa = Inr c"
  by (simp add: LowNormHash_def ex8_env_def ex_env_def ref_codec_def must_def ex8_sampling_def ex_sampling_def Let_def)

lemma ex8_round2:
  assumes "i \<in> {0, 1}"
  shows "\<exists>p' z. SignRound2 ex8_env (ex8_signer i) ex8_A ex8_b (replicate dimM (replicate (Suc Dbar) (rNewPoly ex8))) 1 mu [0, 1] key h
    = Inr (p', z)"
  using assms
  by (intro ex8.SignRound2_total[OF ex8_sampling_ok ex8_signer_ok _ _ mat_ok_zero])
     (auto simp: ex8_hash ex8nu.coeff_ring_axioms seed_at_def gomap_at_def)

definition ex8_comb :: "poly \<Rightarrow> Party" where
  "ex8_comb c = (ex8_signer 0) \<lparr> pC := c, pH := replicate dimM (rNewPoly ex8nu) \<rparr>"

lemma ex8_comb_simps [simp]:
  "pRing (ex8_comb c) = ex8" "pRingNu (ex8_comb c) = ex8nu" "pC (ex8_comb c) = c" "pH (ex8_comb c) = replicate dimM (rNewPoly ex8nu)"
  by (simp_all add: ex8_comb_def ex8_signer_def NewParty_def NewPartyWithSuite_def)

lemma ex8_finalize:
  assumes c: "pvalid corona_q 8 c" and zs: "\<forall>x \<in> set zs. vec_ok ex8 dimN (snd x)"
  shows "\<exists>z Delta. SignFinalize (ex8_comb c) zs ex8_A ex8_b = Inr (c, z, Delta) \<and>
    rounded_Az_bc ex8 (pRingXi (ex8_comb c)) ex8nu ex8_A z ex8_b c = Inr (replicate dimM (rNewPoly ex8nu))"
proof -
  obtain z where z: "foldM (\<lambda>a x. VectorAdd ex8 a (snd x) a) (InitializeVector ex8 dimN) zs = Inr z" "vec_ok ex8 dimN z"
    using ex8.foldM_VectorAdd[OF ex8.vec_ok_InitializeVector zs] by blast
  have cc: "pvalid (rModulus ex8) (rN ex8) c" using c by simp
  have n: "rN ex8nu = rN ex8" by simp
  have w: "rounded_Az_bc ex8 (pRingXi (ex8_comb c)) ex8nu ex8_A z ex8_b c = Inr (replicate dimM (rNewPoly ex8nu))"
    by (rule ex8.rounded_Az_bc_zero[OF ex8nu.coeff_ring_axioms n z(2) cc])
  have h: "vec_ok ex8nu dimM (replicate dimM (rNewPoly ex8nu))" by (rule vec_ok_replicate[OF ex8nu.valid_NewPoly])
  obtain Delta where D: "VectorSub ex8nu (replicate dimM (rNewPoly ex8nu)) (replicate dimM (rNewPoly ex8nu)) (InitializeVector ex8nu dimM) = Inr Delta"
    using ex8nu.VectorSub_ok(1)[OF h h] by (simp add: InitializeVector_def)
  have "SignFinalize (ex8_comb c) zs ex8_A ex8_b = Inr (c, z, Delta)"
    unfolding SignFinalize_def Let_def case_prod_unfold ex8_comb_simps z(1) rbind.simps w D ..
  then show ?thesis using w by blast
qed

theorem masks_cancel_witness:
  "\<exists>p0 z0 p1 z1 c z Delta.
    SignRound2 ex8_env (ex8_signer 0) ex8_A ex8_b (replicate dimM (replicate (Suc Dbar) (rNewPoly ex8))) 1 ''m'' [0, 1] [9] [7] = Inr (p0, z0) \<and>
    SignRound2 ex8_env (ex8_signer 1) ex8_A ex8_b (replicate dimM (replicate (Suc Dbar) (rNewPoly ex8))) 1 ''m'' [0, 1] [9] [7] = Inr (p1, z1) \<and>
    SignFinalize (ex8_comb [replicate 8 0]) [(0, z0), (1, z1)] ex8_A ex8_b = Inr (c, z, Delta) \<and>
    (\<forall>i < dimN. \<forall>k < 8. pcoef (z ! i) k =
       (resp_core ex8 (ex8_signer 0) (round2_u ex8_env (ex8_signer 0) [7] ''m'') (pC p0) i k
        + resp_core ex8 (ex8_signer 1) (round2_u ex8_env (ex8_signer 1) [7] ''m'') (pC p1) i k) mod corona_q)"
proof -
  let ?D = "replicate dimM (replicate (Suc Dbar) (rNewPoly ex8))"
  obtain p0 z0 where 0: "SignRound2 ex8_env (ex8_signer 0) ex8_A ex8_b ?D 1 ''m'' [0, 1] [9] [7] = Inr (p0, z0)" using ex8_round2 by blast
  obtain p1 z1 where 1: "SignRound2 ex8_env (ex8_signer 1) ex8_A ex8_b ?D 1 ''m'' [0, 1] [9] [7] = Inr (p1, z1)" using ex8_round2 by blast
  have ok: "vec_ok ex8 dimN z" if "SignRound2 ex8_env (ex8_signer i) ex8_A ex8_b ?D 1 ''m'' [0, 1] [9] [7] = Inr (p, z)" for i p z
    using ex8.SignRound2_vec_ok[OF ex8_sampling_ok ex8_signer_ok that] .
  have "\<forall>x \<in> set [(0 :: int, z0), (1, z1)]. vec_ok ex8 dimN (snd x)" using ok[OF 0] ok[OF 1] by simp
  then obtain z Delta where f: "SignFinalize (ex8_comb [replicate 8 0]) [(0, z0), (1, z1)] ex8_A ex8_b = Inr ([replicate 8 0], z, Delta)"
    using ex8_finalize[of "[replicate 8 0]" "[(0, z0), (1, z1)]"] by (auto simp: pvalid_def)
  have "\<forall>i < dimN. \<forall>k < rN ex8. pcoef (z ! i) k =
      (\<Sum>(p, p', z)\<leftarrow>[(ex8_signer 0, p0, z0), (ex8_signer 1, p1, z1)]. resp_core ex8 p (round2_u ex8_env p [7] ''m'') (pC p') i k) mod rModulus ex8"
    by (rule masks_cancel[OF ex8.lattice_ring_axioms ex8_sampling_ok, of "[(ex8_signer 0, p0, z0), (ex8_signer 1, p1, z1)]"
          "Some (Default ex_xof)" "[(0, [[1], [2]]), (1, [[3], [4]])]" ex8_A ex8_b ?D 1 "''m''" "[9]" "[7]" "ex8_comb [replicate 8 0]"])
       (use 0 1 f ex8_signer_ok in simp_all)
  then show ?thesis using 0 1 f by (intro exI conjI) (assumption, assumption, assumption, simp)
qed

lemma ex8_finalize_verify:
  obtains c z Delta where "pvalid corona_q 8 c"
    "LowNormHash ex8_env None ex8 ex8_A ex8_b (replicate dimM (rNewPoly ex8nu)) mu Kappa = Inr c"
    "SignFinalize (ex8_comb c) [] ex8_A ex8_b = Inr (c, z, Delta)"
    "rounded_Az_bc ex8 (pRingXi (ex8_comb c)) ex8nu ex8_A z ex8_b c = Inr (replicate dimM (rNewPoly ex8nu))"
    "vec_ok ex8nu dimM (replicate dimM (rNewPoly ex8nu))"
proof -
  obtain c where c: "LowNormHash ex8_env None ex8 ex8_A ex8_b (replicate dimM (rNewPoly ex8nu)) mu Kappa = Inr c"
    using ex8_hash by blast
  have v: "pvalid corona_q 8 c" using ex8.LowNormHash_ok[OF ex8_sampling_ok c] by simp
  obtain z Delta where "SignFinalize (ex8_comb c) [] ex8_A ex8_b = Inr (c, z, Delta)"
    "rounded_Az_bc ex8 (pRingXi (ex8_comb c)) ex8nu ex8_A z ex8_b c = Inr (replicate dimM (rNewPoly ex8nu))"
    using ex8_finalize[OF v, of "[]"] by auto
  then show thesis using that c v vec_ok_replicate[OF ex8nu.valid_NewPoly] by blast
qed

theorem finalize_verifies_witness:
  "\<exists>c z Delta ok. SignFinalize (ex8_comb c) [] ex8_A ex8_b = Inr (c, z, Delta) \<and>
    VerifyWithSuite ex8_env None ex8 (pRingXi (ex8_comb c)) ex8nu z ex8_A ''m'' ex8_b c Delta = Inr ok"
proof -
  obtain c z Delta where *: "pvalid corona_q 8 c"
    "LowNormHash ex8_env None ex8 ex8_A ex8_b (replicate dimM (rNewPoly ex8nu)) ''m'' Kappa = Inr c"
    "SignFinalize (ex8_comb c) [] ex8_A ex8_b = Inr (c, z, Delta)"
    "rounded_Az_bc ex8 (pRingXi (ex8_comb c)) ex8nu ex8_A z ex8_b c = Inr (replicate dimM (rNewPoly ex8nu))"
    "vec_ok ex8nu dimM (replicate dimM (rNewPoly ex8nu))" by (rule ex8_finalize_verify)
  have "VerifyWithSuite ex8_env None (pRing (ex8_comb c)) (pRingXi (ex8_comb c)) (pRingNu (ex8_comb c)) z ex8_A ''m'' ex8_b c Delta =
    Inr (sum_squares (pRing (ex8_comb c)) (map (\<lambda>p. [map (push_bit Nu) (hd p)]) Delta)
       + sum_squares (pRing (ex8_comb c)) (ConvertVectorFromNTT (pRing (ex8_comb c)) z) \<le> Bsquare)"
    by (rule finalize_verifies[where w = "replicate dimM (rNewPoly ex8nu)"])
       (use * ex8.coeff_ring_axioms ex8nu.coeff_ring_axioms in \<open>simp_all add: dimM_def\<close>)
  then show ?thesis using *(3) by auto
qed

theorem verify_rejects_other_shapes_witness:
  "\<exists>c z Delta. VerifyWithSuite ex8_env None ex8 (pRingXi (ex8_comb c)) ex8nu z ex8_A ''m'' ex8_b c Delta = Inr True \<and>
    VerifyWithSuite ex8_env None ex8 (pRingXi (ex8_comb c)) ex8nu (z @ [[]]) ex8_A ''m'' ex8_b c Delta = Inr False"
proof -
  obtain c z Delta where *: "pvalid corona_q 8 c"
    "LowNormHash ex8_env None ex8 ex8_A ex8_b (replicate dimM (rNewPoly ex8nu)) ''m'' Kappa = Inr c"
    "SignFinalize (ex8_comb c) [] ex8_A ex8_b = Inr (c, z, Delta)"
    "rounded_Az_bc ex8 (pRingXi (ex8_comb c)) ex8nu ex8_A z ex8_b c = Inr (replicate dimM (rNewPoly ex8nu))"
    "vec_ok ex8nu dimM (replicate dimM (rNewPoly ex8nu))" by (rule ex8_finalize_verify)
  have v: "VerifyWithSuite ex8_env None (pRing (ex8_comb c)) (pRingXi (ex8_comb c)) (pRingNu (ex8_comb c)) z ex8_A ''m'' ex8_b c Delta =
    Inr (sum_squares (pRing (ex8_comb c)) (map (\<lambda>p. [map (push_bit Nu) (hd p)]) Delta)
       + sum_squares (pRing (ex8_comb c)) (ConvertVectorFromNTT (pRing (ex8_comb c)) z) \<le> Bsquare)"
    by (rule finalize_verify_core[where w = "replicate dimM (rNewPoly ex8nu)"])
       (use * ex8.coeff_ring_axioms ex8nu.coeff_ring_axioms in \<open>simp_all add: dimM_def\<close>)
  have F: "z = InitializeVector ex8 dimN"
    "VectorSub ex8nu (replicate dimM (rNewPoly ex8nu)) (replicate dimM (rNewPoly ex8nu)) (InitializeVector ex8nu dimM) = Inr Delta"
    using SignFinalize_Inr[OF *(3)] *(4) by auto
  have "Delta = replicate dimM (rNewPoly ex8nu)"
    using F(2) ex8nu.VectorSub_ok(1)[OF *(5,5), of "InitializeVector ex8nu dimM"]
    by (simp add: InitializeVector_def zip_replicate) (simp add: coeff_ops_def pbuild_def pcoef_def map_replicate_const)
  then have D: "map (\<lambda>p. [map (push_bit Nu) (hd p)]) Delta = replicate dimM (rNewPoly ex8)" by (simp add: ex8.NewPoly)
  have Z: "ConvertVectorFromNTT ex8 z = replicate dimN (rNewPoly ex8)"
    unfolding F(1) by (simp add: ConvertVectorFromNTT_def InitializeVector_def ex8.From_zero)
  have "sum_squares ex8 (replicate n (rNewPoly ex8)) = 0" for n
    unfolding sum_squares_eq[OF ex8.coeff_ring_axioms vec_ok_replicate[OF ex8.valid_NewPoly]]
    by (simp add: ex8.NewPoly pcoef_def centered_def corona_q_def)
  then have ok: "VerifyWithSuite ex8_env None ex8 (pRingXi (ex8_comb c)) ex8nu z ex8_A ''m'' ex8_b c Delta = Inr True"
    using v by (simp add: D Z Bsquare_def)
  have "VerifyWithSuite ex8_env None ex8 (pRingXi (ex8_comb c)) ex8nu (z @ [[]]) ex8_A ''m'' ex8_b c Delta = Inr False"
    by (rule verify_rejects_other_shapes[OF ok]) simp
  with ok show ?thesis by blast
qed

theorem full_rank_check_witness:
  "FullRankCheck [[[[5]], [[1]], [[2]]]] (slot_ring 1) =
     Inr (\<forall>i < 1. independent corona_q 2 (slot_matrix (slot_ring 1) [[[[5]], [[1]], [[2]]]] i))"
  using full_rank_check[of "slot_ring 1" "[[[[5]], [[1]], [[2]]]]" 2] corona_q_prime by simp

section \<open>Round 1 returns\<close>

lemma length_SamplePolyVector: "length (fst (SamplePolyVector r n smp a b st)) = n"
  by (induction n arbitrary: st) (auto split: prod.splits, metis fst_conv)

lemma SamplePolyMatrix_shape:
  "length (fst (SamplePolyMatrix r m n smp a b st)) = m \<and> (\<forall>row \<in> set (fst (SamplePolyMatrix r m n smp a b st)). length row = n)"
proof (induction m arbitrary: st)
  case (Suc m)
  then show ?case
    using length_SamplePolyVector[of r n smp a b st] by (auto split: prod.splits) (metis fst_conv)+
qed simp

lemma round1_nonces_shape:
  assumes "round1_nonces en r sk = (R, E)"
  shows "length R = dimN \<and> (\<forall>row \<in> set R. length row = Suc Dbar) \<and> length E = dimM \<and> (\<forall>row \<in> set E. length row = Suc Dbar)"
proof -
  let ?sm = "envSampling en"
  obtain r_star g1 e_star g2 R_i h1 E_i h2 where
    s: "SamplePolyVector r dimN (gaussRead ?sm) True True (NewGaussianSampler ?sm r GaussStar (NewKeyedPRNG ?sm sk)) = (r_star, g1)"
      "SamplePolyVector r dimM (gaussRead ?sm) True True g1 = (e_star, g2)"
      "SamplePolyMatrix r dimN Dbar (gaussRead ?sm) True True (NewGaussianSampler ?sm r GaussE (gaussPRNG ?sm g2)) = (R_i, h1)"
      "SamplePolyMatrix r dimM Dbar (gaussRead ?sm) True True h1 = (E_i, h2)" by (metis surj_pair)
  have RE: "R = map2 (#) r_star R_i" "E = map2 (#) e_star E_i"
    using assms s by (simp_all add: round1_nonces_def Let_def)
  have l: "length r_star = dimN" "length e_star = dimM" "length R_i = dimN" "length E_i = dimM"
    "\<forall>row \<in> set R_i. length row = Dbar" "\<forall>row \<in> set E_i. length row = Dbar"
    using s length_SamplePolyVector SamplePolyMatrix_shape by (metis fst_conv)+
  show ?thesis using l by (auto simp: RE dest!: set_zip_rightD)
qed

lemma MatrixMatrixMul_shape:
  assumes "length A = dimM" "\<forall>row \<in> set A. length row = dimN" "length R = dimN" "\<forall>row \<in> set R. length row = n"
  shows "\<exists>D0. MatrixMatrixMul r A R (InitializeMatrix r dimM n) = Inr D0 \<and> length D0 = dimM \<and> (\<forall>row \<in> set D0. length row = n)"
proof -
  have ne: "A \<noteq> []" "R \<noteq> []" using assms(1,3) by (auto simp: dimM_def dimN_def)
  have h: "length (hd A) = dimN" "length (hd R) = n" using ne assms(2,4) by simp_all
  have "\<forall>i < dimM. dimN \<le> length (A ! i)" "\<forall>k < dimN. n \<le> length (R ! k)" using assms by simp_all
  then show ?thesis using assms ne h by (auto simp: MatrixMatrixMul_def shapes_multiply_def mm_in_range_def Let_def InitializeMatrix_def)
qed

lemma MatrixAdd_shape:
  assumes "length E = dimM" "\<forall>row \<in> set E. length row = n" "length D = dimM" "\<forall>row \<in> set D. length row = n"
  shows "\<exists>S. MatrixAdd r E D D = Inr S"
proof -
  have ne: "E \<noteq> []" "D \<noteq> []" using assms(1,3) by (auto simp: dimM_def)
  then have "length (hd E) = n" "length (hd D) = n" using assms(2,4) by simp_all
  then show ?thesis using assms ne by (auto simp: MatrixAdd_def Let_def)
qed

lemma round1_MACs_total:
  assumes "\<And>M. \<exists>b. encMatrix (envCodec en) M = Inr b"
  shows "\<exists>MACs. round1_MACs en party D sid T = Inr MACs"
proof -
  obtain d where d: "encMatrix (envCodec en) D = Inr d" using assms by blast
  have "\<exists>m. foldM (\<lambda>MACs j. if j = pID party then Inr MACs
       else rbind (GenerateMAC en (pSuite party) D (gomap_at (pMACKeys party) j) (pID party) sid T' j False) (\<lambda>m.
         Inr (AList.update j m MACs))) m0 js = Inr m" for T' m0 js
    by (induction js arbitrary: m0) (auto simp: GenerateMAC_def must_def d)
  then show ?thesis by (simp add: round1_MACs_def)
qed

lemma SignRound1_total:
  assumes enc: "\<And>M. \<exists>b. encMatrix (envCodec en) M = Inr b" "\<exists>b. encVector (envCodec en) (pSkShare party) = Inr b"
    and A: "length A = dimM" "\<forall>row \<in> set A. length row = dimN"
    and nz: "\<not> isZero32 (DeriveSessionID en (pSuite party) sid T)" "\<not> isZero32 salt" "length salt = 32" "pRand party = Some (salt @ rest)"
  shows "\<exists>party' D MACs. SignRound1 en sys party A sid key T = (party', Inr (D, MACs))"
proof -
  obtain sk where sk: "PRNGKeyForRound en (pSuite party) (pSkShare party) (DeriveSessionID en (pSuite party) sid T) salt = Inr sk"
    using enc(2) by (auto simp: PRNGKeyForRound_def must_def)
  obtain R E where RE: "round1_nonces en (pRing party) sk = (R, E)" by (metis surj_pair)
  note sh = round1_nonces_shape[OF RE]
  obtain D0 where D0: "MatrixMatrixMul (pRing party) A R (InitializeMatrix (pRing party) dimM (Dbar + 1)) = Inr D0"
    "length D0 = dimM" "\<forall>row \<in> set D0. length row = Suc Dbar"
    using MatrixMatrixMul_shape[OF A, of R "Suc Dbar" "pRing party"] sh by auto
  obtain D where D: "MatrixAdd (pRing party) E D0 D0 = Inr D" using MatrixAdd_shape[of E "Suc Dbar" D0] sh D0(2,3) by blast
  obtain MACs where "round1_MACs en (party \<lparr> pRand := map_option (\<lambda>_. rest) (pRand party), pR := R, pD := D \<rparr>) D sid T = Inr MACs"
    using round1_MACs_total[OF enc(1)] by blast
  then show ?thesis using nz sk RE D0(1) D by (simp add: SignRound1_def Let_def)
qed

text \<open>
  Round 1 returns. With a public matrix of the protocol's shape, a serialiser that
  accepts the values it is given, a session identifier that is not zero and 32 salt bytes
  that are not all zero in the party's source, round 1 returns a commitment and its MACs.
\<close>

theorem round1_returns:
  assumes "\<And>M. \<exists>b. encMatrix (envCodec en) M = Inr b" "\<exists>b. encVector (envCodec en) (pSkShare party) = Inr b"
    and "length A = dimM" "\<forall>row \<in> set A. length row = dimN"
    and "\<not> isZero32 (DeriveSessionID en (pSuite party) sid T)" "\<not> isZero32 salt" "length salt = 32" "pRand party = Some (salt @ rest)"
  shows "\<exists>party' D MACs. SignRound1 en sys party A sid key T = (party', Inr (D, MACs))"
  by (rule SignRound1_total[OF assms])

lemma ex8_encodes: "\<exists>b. encMatrix (envCodec ex8_env) M = Inr b" "\<exists>b. encVector (envCodec ex8_env) v = Inr b"
  by (simp_all add: ex8_env_def ex_env_def ref_codec_def)

lemma hd_fixed32: "hd (fixed32 (take 32 (a # r))) = a"
  by (simp add: fixed32_def)

lemma ex8_session: "\<not> isZero32 (DeriveSessionID ex8_env (Some (Default ex_xof)) 1 [0, 1])"
proof -
  define X where "X = i64 1 @ T_bytes [0, 1]"
  define tag where "tag = ''orona.sign.session-id.v1''"
  have "DeriveSessionID ex8_env (Some (Default ex_xof)) 1 [0, 1] = fixed32 (take 32 (str_bytes (CHR ''c'' # tag) @ X @ replicate 32 1))"
    unfolding DeriveSessionID_def X_def[symmetric] tag_def[symmetric]
    by (simp only: Resolve_def option.case Default_def NewCoronaSHA3_def hash_suite.select_convs ex_xof_def xof.select_convs
        concat.simps append_Nil2 append.assoc)
  also have "hd \<dots> = word_of_nat (of_char CHR ''c'')"
    unfolding str_bytes_def list.map append_Cons by (rule hd_fixed32)
  finally have hd: "hd (DeriveSessionID ex8_env (Some (Default ex_xof)) 1 [0, 1]) = (word_of_nat (of_char CHR ''c'') :: u8)" .
  have "DeriveSessionID ex8_env (Some (Default ex_xof)) 1 [0, 1] \<noteq> replicate 32 0"
  proof
    assume "DeriveSessionID ex8_env (Some (Default ex_xof)) 1 [0, 1] = replicate 32 0"
    then have "hd (DeriveSessionID ex8_env (Some (Default ex_xof)) 1 [0, 1]) = hd (replicate 32 0)" by (rule arg_cong)
    then show False unfolding hd by simp
  qed
  then show ?thesis by (simp add: isZero32_def ConstantTimeCompare_eq)
qed

definition ex8_salted :: "int \<Rightarrow> Party" where
  "ex8_salted i = (ex8_signer i) \<lparr> pRand := Some (replicate 32 1 @ []), pMACKeys := [(1 - i, [42])] \<rparr>"

lemma ex8_salted_simps [simp]:
  "pID (ex8_salted i) = i" "pSuite (ex8_salted i) = Some (Default ex_xof)" "pRand (ex8_salted i) = Some (replicate 32 1 @ [])"
  "pMACKeys (ex8_salted i) = [(1 - i, [42])]"
  by (simp_all add: ex8_salted_def)

theorem round1_returns_witness:
  "\<exists>party' D MACs. SignRound1 ex8_env [] (ex8_salted 1) ex8_A 1 [9] [0, 1] = (party', Inr (D, MACs))"
  by (rule round1_returns[where salt = "replicate 32 1" and rest = "[]", OF ex8_encodes])
     (use ex8_session in \<open>auto simp: isZero32_def ConstantTimeCompare_eq\<close>)

theorem honest_macs_accepted_witness:
  "\<exists>party' Dj Mj. SignRound1 ex8_env [] (ex8_salted 1) ex8_A 1 [9] [0, 1] = (party', Inr (Dj, Mj)) \<and>
     check_MACs ex8_env (ex8_salted 0) [(1, Dj)] [(1, Mj)] 1 [0, 1] [0, 1] = Inr True"
proof -
  have "\<exists>party' D MACs. SignRound1 ex8_env [] (ex8_salted 1) ex8_A 1 [9] [0, 1] = (party', Inr (D, MACs))"
    by (rule SignRound1_total[where salt = "replicate 32 1" and rest = "[]", OF ex8_encodes])
       (use ex8_session in \<open>auto simp: isZero32_def ConstantTimeCompare_eq\<close>)
  then obtain party' Dj Mj where r: "SignRound1 ex8_env [] (ex8_salted 1) ex8_A 1 [9] [0, 1] = (party', Inr (Dj, Mj))" by blast
  have "check_MACs ex8_env (ex8_salted 0) [(1, Dj)] [(1, Mj)] 1 [0, 1] [0, 1] = Inr True"
  proof (rule honest_macs_accepted)
    show "\<forall>j \<in> set [0, 1]. j \<noteq> pID (ex8_salted 0) \<longrightarrow> (\<exists>sys p p' A key Dj' Mj'.
      SignRound1 ex8_env sys p A 1 key [0, 1] = (p', Inr (Dj', Mj')) \<and> pID p = j \<and> pSuite p = pSuite (ex8_salted 0) \<and>
      gomap_at (pMACKeys p) (pID (ex8_salted 0)) = gomap_at (pMACKeys (ex8_salted 0)) j \<and>
      map_of [(1, Dj)] j = Some Dj' \<and> map_of [(1, Mj)] j = Some Mj')"
    proof (intro ballI impI)
      fix j :: int assume "j \<in> set [0, 1]" "j \<noteq> pID (ex8_salted 0)"
      then have j: "j = 1" by simp
      show "\<exists>sys p p' A key Dj' Mj'.
        SignRound1 ex8_env sys p A 1 key [0, 1] = (p', Inr (Dj', Mj')) \<and> pID p = j \<and> pSuite p = pSuite (ex8_salted 0) \<and>
        gomap_at (pMACKeys p) (pID (ex8_salted 0)) = gomap_at (pMACKeys (ex8_salted 0)) j \<and>
        map_of [(1, Dj)] j = Some Dj' \<and> map_of [(1, Mj)] j = Some Mj'"
        by (intro exI[of _ "[]"] exI[of _ "ex8_salted 1"] exI[of _ party'] exI[of _ ex8_A] exI[of _ "[9]"] exI[of _ Dj] exI[of _ Mj])
           (use r j in \<open>simp add: gomap_at_def\<close>)
    qed
  qed simp
  with r show ?thesis by blast
qed

end
