(* ===== verification/Threshold.thy ===== *)
theory Threshold
  imports Sign_Correctness
begin

text \<open>
  \<^verbatim>\<open>threshold/threshold.go\<close> and \<^verbatim>\<open>threshold/wire.go\<close>: the group key, key shares and the signer
  object around \<^verbatim>\<open>sign.Party\<close>, and the byte forms of signatures and group keys. A pointer
  that may be nil is an option; \<^verbatim>\<open>ring.NewRing\<close> is a parameter that returns the ring and
  whether it was built without an error; \<^verbatim>\<open>sha256\<close> is a parameter.
\<close>

section \<open>Data\<close>

record Params =
  paR :: ring_ops
  paRXi :: ring_ops
  paRNu :: ring_ops

type_synonym ring_maker = "nat \<Rightarrow> int \<Rightarrow> ring_ops \<times> bool"

definition NewParams :: "ring_maker \<Rightarrow> Params res" where
  "NewParams newRing =
     (case newRing (2 ^ LogN) corona_q of (r, ok) \<Rightarrow>
        if \<not> ok then Inl (ErrMsg ''ring.NewRing'')
        else Inr \<lparr> paR = r, paRXi = fst (newRing (2 ^ LogN) QXi), paRNu = fst (newRing (2 ^ LogN) QNu) \<rparr>)"

text \<open>A nil \<^verbatim>\<open>BTilde\<close> is \<open>None\<close>; it is read as an empty vector.\<close>

record GroupKey =
  gkA :: matrix
  gkBTilde :: "vec option"
  gkParams :: Params

definition gkB :: "GroupKey \<Rightarrow> vec" where
  "gkB gk = (case gkBTilde gk of None \<Rightarrow> [] | Some v \<Rightarrow> v)"

record KeyShare =
  ksIndex :: int
  ksSkShare :: vec
  ksSeeds :: "(int, bytes list) gomap"
  ksMACKeys :: "(int, bytes) gomap"
  ksLambda :: poly
  ksGroupKey :: GroupKey

record Round1Data =
  r1PartyID :: int
  r1D :: matrix
  r1MACs :: "(int, bytes) gomap"

record Round2Data =
  r2PartyID :: int
  r2Z :: vec

record Signature =
  sgC :: poly
  sgZ :: vec
  sgDelta :: vec

record Signer =
  snShare :: KeyShare
  snParty :: Party
  snParams :: Params

section \<open>Key generation by a trusted dealer\<close>

text \<open>The package variables \<^verbatim>\<open>sign.K\<close> and \<^verbatim>\<open>sign.Threshold\<close> are the first component of the
  result.\<close>

definition dealer_share ::
  "ring_ops \<Rightarrow> GroupKey \<Rightarrow> shares \<Rightarrow> (int, bytes list) gomap \<Rightarrow> mac_table \<Rightarrow> vec \<Rightarrow> nat \<Rightarrow> KeyShare res" where
  "dealer_share r gk skShares seeds macKeys lagrangeCoeffs i =
     (if length lagrangeCoeffs \<le> i then Inl Panic
      else Inr \<lparr> ksIndex = int i, ksSkShare = gomap_at skShares (int i), ksSeeds = seeds,
             ksMACKeys = gomap_at macKeys (int i), ksLambda = rMForm r (rNTT r (lagrangeCoeffs ! i)), ksGroupKey = gk \<rparr>)"

definition GenerateKeysTrustedDealer ::
  "'s env \<Rightarrow> ring_maker \<Rightarrow> (u64 \<Rightarrow> bool) \<Rightarrow> (u64 list \<Rightarrow> u64 \<Rightarrow> u64 list res) \<Rightarrow> bytes \<Rightarrow> int \<times> int \<Rightarrow> int \<Rightarrow> int \<Rightarrow>
   bytes option \<Rightarrow> (int \<times> int) \<times> (KeyShare list \<times> GroupKey) res" where
  "GenerateKeysTrustedDealer en newRing isPrime lagr rand_Reader globals t n randSource =
     (if n < 2 then (globals, Inl ErrInvalidPartyCount)
      else if t < 1 \<or> t \<ge> n then (globals, Inl ErrInvalidThreshold)
      else ((n, t),
        rbind (NewParams newRing) (\<lambda>params.
        rbind (ReadFull (case randSource of None \<Rightarrow> rand_Reader | Some rs \<Rightarrow> rs) KeySize) (\<lambda>(trustedDealerKey, _).
        let sm = envSampling en; r = paR params;
            us = NewUniformSampler sm r (NewKeyedPRNG sm trustedDealerKey) in
        rbind (ComputeLagrangeCoefficients isPrime lagr r (map int [0..<nat n]) corona_q) (\<lambda>lagrangeCoeffs.
        rbind (Gen en n t r (paRXi params) us trustedDealerKey lagrangeCoeffs) (\<lambda>(A, skShares, seeds, macKeys, bTilde).
        let gk = \<lparr> gkA = A, gkBTilde = Some bTilde, gkParams = params \<rparr> in
        rbind (mapM (dealer_share r gk skShares seeds macKeys lagrangeCoeffs) [0..<nat n]) (\<lambda>shs.
        Inr (shs, gk))))))))"

section \<open>The signer\<close>

definition NewSigner :: "xof \<Rightarrow> bytes \<Rightarrow> KeyShare \<Rightarrow> Signer" where
  "NewSigner x rand_Reader share =
     (let params = gkParams (ksGroupKey share);
          party = NewParty x rand_Reader (ksIndex share) (paR params) (paRXi params) (paRNu params) in
      \<lparr> snShare = share,
        snParty = party \<lparr> pSkShare := ksSkShare share, pSeed := ksSeeds share,
                          pMACKeys := ksMACKeys share, pLambda := ksLambda share \<rparr>,
        snParams = params \<rparr>)"

definition SetNonceRand :: "Signer \<Rightarrow> bytes option \<Rightarrow> Signer" where
  "SetNonceRand s r = s \<lparr> snParty := (snParty s) \<lparr> pRand := r \<rparr> \<rparr>"

definition Round1 :: "'s env \<Rightarrow> bytes \<Rightarrow> Signer \<Rightarrow> int \<Rightarrow> bytes \<Rightarrow> int list \<Rightarrow> Signer \<times> Round1Data res" where
  "Round1 en rand_Reader s sessionID prfKey signers =
     (case SignRound1 en rand_Reader (snParty s) (gkA (ksGroupKey (snShare s))) sessionID prfKey signers of
        (party', r) \<Rightarrow> (s \<lparr> snParty := party' \<rparr>,
          rbind r (\<lambda>(D, MACs). Inr \<lparr> r1PartyID = ksIndex (snShare s), r1D = D, r1MACs = MACs \<rparr>)))"

text \<open>The collection loop of round 2: first membership, then duplicates.\<close>

definition collect1 ::
  "int list \<Rightarrow> (int, matrix) gomap \<times> mac_table \<Rightarrow> Round1Data option \<Rightarrow> ((int, matrix) gomap \<times> mac_table) res" where
  "collect1 signers = (\<lambda>(D, MACs) data.
     (case data of None \<Rightarrow> Inl Panic
      | Some d \<Rightarrow>
          if r1PartyID d \<notin> set signers then Inl (ErrMsg ''corona: round-1 message from a party outside the signing set'')
          else if map_of D (r1PartyID d) \<noteq> None then Inl ErrDuplicateSigner
          else Inr (AList.update (r1PartyID d) (r1D d) D, AList.update (r1PartyID d) (r1MACs d) MACs)))"

definition Round2 ::
  "'s env \<Rightarrow> Signer \<Rightarrow> int \<Rightarrow> string \<Rightarrow> bytes \<Rightarrow> int list \<Rightarrow> (int, Round1Data option) gomap \<Rightarrow> (Signer \<times> Round2Data) res" where
  "Round2 en s sessionID message prfKey signers round1Data =
     (if length round1Data < length signers then Inl ErrInsufficientData
      else rbind (foldM (collect1 signers) ([], []) (map snd round1Data)) (\<lambda>(D, MACs).
        let gk = ksGroupKey (snShare s) in
        rbind (SignRound2Preprocess en (snParty s) (gkA gk) (gkB gk) D MACs sessionID signers) (\<lambda>r.
        (case r of None \<Rightarrow> Inl ErrMACVerifyFailed
         | Some (DSum, hash) \<Rightarrow>
             rbind (SignRound2 en (snParty s) (gkA gk) (gkB gk) DSum sessionID message signers prfKey hash) (\<lambda>(party', z).
             Inr (s \<lparr> snParty := party' \<rparr>, \<lparr> r2PartyID = ksIndex (snShare s), r2Z = z \<rparr>))))))"

definition collect2 :: "(int, vec) gomap \<Rightarrow> Round2Data option \<Rightarrow> (int, vec) gomap res" where
  "collect2 z data =
     (case data of None \<Rightarrow> Inl Panic
      | Some d \<Rightarrow> if map_of z (r2PartyID d) \<noteq> None then Inl ErrDuplicateSigner
                 else Inr (AList.update (r2PartyID d) (r2Z d) z))"

text \<open>The sum ranges over the freshly built map, in an order \<open>ord\<close> of its own.\<close>

definition Finalize ::
  "((int, vec) gomap \<Rightarrow> (int, vec) gomap) \<Rightarrow> Signer \<Rightarrow> (int, Round2Data option) gomap \<Rightarrow> Signature res" where
  "Finalize ord s round2Data =
     (if round2Data = [] then Inl ErrInsufficientData
      else rbind (foldM collect2 [] (map snd round2Data)) (\<lambda>z.
        let gk = ksGroupKey (snShare s) in
        rbind (SignFinalize (snParty s) (ord z) (gkA gk) (gkB gk)) (\<lambda>(c, zSum, delta).
        Inr \<lparr> sgC = c, sgZ = zSum, sgDelta = delta \<rparr>)))"

definition threshold_Verify :: "'s env \<Rightarrow> GroupKey option \<Rightarrow> string \<Rightarrow> Signature option \<Rightarrow> bool res" where
  "threshold_Verify en groupKey message sig =
     (case (groupKey, sig) of
        (Some gk, Some s) \<Rightarrow>
          Verify en (paR (gkParams gk)) (paRXi (gkParams gk)) (paRNu (gkParams gk)) (sgZ s) (gkA gk) message (gkB gk) (sgC s) (sgDelta s)
      | _ \<Rightarrow> Inr False)"

section \<open>Byte forms\<close>

definition be16 :: "u16 \<Rightarrow> bytes" where
  "be16 w = be_bytes 2 (unat w)"

definition wireMagicSig :: u32 where "wireMagicSig = 0x434F5253"
definition wireMagicGroupKey :: u32 where "wireMagicGroupKey = 0x434F5247"
definition wireVersionV1 :: u16 where "wireVersionV1 = 1"

definition Signature_MarshalBinary :: "lat_codec \<Rightarrow> Signature option \<Rightarrow> bytes res" where
  "Signature_MarshalBinary lc sig =
     (case sig of None \<Rightarrow> Inl (ErrMsg ''corona: nil Signature'')
      | Some s \<Rightarrow>
          rbind (encPoly lc (sgC s)) (\<lambda>cb. rbind (encVector lc (sgZ s)) (\<lambda>zb. rbind (encVector lc (sgDelta s)) (\<lambda>db.
          Inr (be32 wireMagicSig @ be16 wireVersionV1 @ len_prefixed cb @ len_prefixed zb @ len_prefixed db)))))"

text \<open>\<^verbatim>\<open>bytes.Reader.Read\<close> reports the end of the data even for an empty buffer.\<close>

definition readLenPrefixed :: "bytes \<Rightarrow> (bytes \<times> bytes) res" where
  "readLenPrefixed r =
     rbind (dec_be32 r) (\<lambda>(l, rest).
     if unat l > length rest then Inl (ErrMsg ''declared length exceeds remaining'')
     else if rest = [] then Inl ErrEOF
     else Inr (take (unat l) rest, drop (unat l) rest))"

definition readHeader :: "u32 \<Rightarrow> nat \<Rightarrow> bytes \<Rightarrow> bytes res" where
  "readHeader magic minLen b =
     (if length b < minLen then Inl ErrWireFrameTooShort
      else rbind (dec_be32 b) (\<lambda>(m, r1).
        if m \<noteq> magic then Inl ErrWireMagicMismatch
        else rbind (ReadFull r1 2) (\<lambda>(v, r2).
          if word_of_nat (be_val v) \<noteq> wireVersionV1 then Inl ErrWireVersionMismatch
          else Inr r2)))"

text \<open>An error a caller sees, as opposed to a panic or a call that does not return.\<close>

definition go_error :: "goerr \<Rightarrow> bool" where
  "go_error e \<longleftrightarrow> e \<noteq> Panic \<and> e \<noteq> Diverge"

text \<open>A frame the walker refuses is \<^verbatim>\<open>ErrWireFrameRejected\<close>.\<close>

definition rejected :: "unit res \<Rightarrow> unit res" where
  "rejected x = (case x of Inl e \<Rightarrow> Inl (if go_error e then ErrWireFrameRejected else e) | Inr u \<Rightarrow> Inr u)"

definition Signature_UnmarshalBinary :: "lat_codec \<Rightarrow> bytes \<Rightarrow> Signature res" where
  "Signature_UnmarshalBinary lc b =
     rbind (readHeader wireMagicSig 18 b) (\<lambda>r0.
     rbind (readLenPrefixed r0) (\<lambda>(cb, r1).
     rbind (readLenPrefixed r1) (\<lambda>(zb, r2).
     rbind (readLenPrefixed r2) (\<lambda>(db, r3).
     if r3 \<noteq> [] then Inl (ErrMsg ''corona/wire: trailing bytes after Signature'')
     else
       rbind (rejected (ValidatePolyFrame cb)) (\<lambda>_.
       rbind (rejected (ValidateVectorPolyFrame zb)) (\<lambda>_.
       rbind (rejected (ValidateVectorPolyFrame db)) (\<lambda>_.
       rbind (decPoly lc cb) (\<lambda>c. rbind (decVector lc zb) (\<lambda>z. rbind (decVector lc db) (\<lambda>delta.
       Inr \<lparr> sgC = c, sgZ = z, sgDelta = delta \<rparr>))))))))))"

definition GroupKey_MarshalBinary :: "lat_codec \<Rightarrow> GroupKey option \<Rightarrow> bytes res" where
  "GroupKey_MarshalBinary lc groupKey =
     (case groupKey of None \<Rightarrow> Inl (ErrMsg ''corona: nil GroupKey'')
      | Some gk \<Rightarrow>
          rbind (encMatrix lc (gkA gk)) (\<lambda>ab. rbind (encVector lc (gkB gk)) (\<lambda>bb.
          Inr (be32 wireMagicGroupKey @ be16 wireVersionV1 @ len_prefixed ab @ len_prefixed bb))))"

definition GroupKey_UnmarshalBinary :: "lat_codec \<Rightarrow> ring_maker \<Rightarrow> bytes \<Rightarrow> GroupKey res" where
  "GroupKey_UnmarshalBinary lc newRing b =
     rbind (readHeader wireMagicGroupKey 14 b) (\<lambda>r0.
     rbind (readLenPrefixed r0) (\<lambda>(ab, r1).
     rbind (readLenPrefixed r1) (\<lambda>(bb, r2).
     if r2 \<noteq> [] then Inl (ErrMsg ''corona/wire: trailing bytes after GroupKey'')
     else
       rbind (rejected (ValidateMatrixPolyFrame ab)) (\<lambda>_.
       rbind (rejected (ValidateVectorPolyFrame bb)) (\<lambda>_.
       rbind (decMatrix lc ab) (\<lambda>a. rbind (decVector lc bb) (\<lambda>bTilde.
       rbind (NewParams newRing) (\<lambda>params.
       Inr \<lparr> gkA = a, gkBTilde = Some bTilde, gkParams = params \<rparr>))))))))"

definition GroupKey_Bytes :: "(bytes \<Rightarrow> bytes) \<Rightarrow> lat_codec \<Rightarrow> GroupKey option \<Rightarrow> bytes option" where
  "GroupKey_Bytes sha256 lc groupKey =
     (case groupKey of None \<Rightarrow> None
      | Some gk \<Rightarrow>
          if gkBTilde gk = None then None
          else (case GroupKey_MarshalBinary lc (Some gk) of Inl _ \<Rightarrow> None | Inr canonical \<Rightarrow> Some (sha256 canonical)))"

definition VerifyBytes :: "'s env \<Rightarrow> ring_maker \<Rightarrow> bytes \<Rightarrow> string \<Rightarrow> bytes \<Rightarrow> bool res" where
  "VerifyBytes en newRing gkBytes message sigBytes =
     (case GroupKey_UnmarshalBinary (envCodec en) newRing gkBytes of Inl e \<Rightarrow> if go_error e then Inr False else Inl e
      | Inr gk \<Rightarrow> (case Signature_UnmarshalBinary (envCodec en) sigBytes of Inl e \<Rightarrow> if go_error e then Inr False else Inl e
         | Inr sig \<Rightarrow> threshold_Verify en (Some gk) message (Some sig)))"

end
