(* ===== verification/Threshold_Signer.thy ===== *)
theory Threshold_Signer
  imports Threshold
begin

text \<open>
  The signer object of \<^verbatim>\<open>threshold/threshold.go\<close> and the parallel verifier of
  \<^verbatim>\<open>threshold/verify_batch.go\<close>: what the collection loops admit, independence of Go's map
  iteration order, what the trusted dealer hands out, and the worker pool as a step
  relation.
\<close>

section \<open>Collecting round-1 messages\<close>

lemma collect1_Inr:
  assumes "foldM (collect1 signers) (D, MACs) ds = Inr (D', MACs')"
  shows "(\<forall>x \<in> set ds. \<exists>d. x = Some d \<and> r1PartyID d \<in> set signers \<and> map_of D (r1PartyID d) = None) \<and>
    distinct (map (r1PartyID \<circ> the) ds) \<and>
    (\<forall>j. map_of D' j = (case find (\<lambda>x. r1PartyID (the x) = j) ds of Some x \<Rightarrow> Some (r1D (the x)) | None \<Rightarrow> map_of D j)) \<and>
    (\<forall>j. map_of MACs' j = (case find (\<lambda>x. r1PartyID (the x) = j) ds of Some x \<Rightarrow> Some (r1MACs (the x)) | None \<Rightarrow> map_of MACs j))"
  using assms
proof (induction ds arbitrary: D MACs)
  case (Cons x ds)
  then obtain d where x: "x = Some d" "r1PartyID d \<in> set signers" "map_of D (r1PartyID d) = None"
    and rest: "foldM (collect1 signers) (AList.update (r1PartyID d) (r1D d) D, AList.update (r1PartyID d) (r1MACs d) MACs) ds = Inr (D', MACs')"
    by (auto simp: collect1_def res_simps split: option.splits if_splits)
  note IH = Cons.IH[OF rest]
  have new: "\<forall>y \<in> set ds. \<exists>e. y = Some e \<and> r1PartyID e \<in> set signers \<and> r1PartyID e \<noteq> r1PartyID d \<and> map_of D (r1PartyID e) = None"
    using IH by (fastforce simp: update_conv split: if_splits)
  then have "find (\<lambda>y. r1PartyID (the y) = r1PartyID d) ds = None" by (fastforce simp: find_None_iff)
  then show ?case using IH x new by (auto simp: update_conv split: option.splits)
qed simp

lemma find_unique:
  assumes "distinct (map f xs)" "x \<in> set xs" "f x = j"
  shows "find (\<lambda>x. f x = j) xs = Some x"
  using assms by (induction xs) auto

lemma find_perm:
  assumes "distinct (map f xs)" "mset xs = mset ys"
  shows "find (\<lambda>x. f x = j) xs = find (\<lambda>x. f x = j) ys"
proof (cases "\<exists>x \<in> set xs. f x = j")
  case True
  then obtain x where x: "x \<in> set xs" "f x = j" by blast
  have "distinct (map f ys)" using assms by (metis mset_eq_imp_distinct_iff mset_map)
  moreover have "x \<in> set ys" using x(1) assms(2) by (metis set_mset_mset)
  ultimately show ?thesis using find_unique[OF assms(1) x] find_unique[of f ys x j] x(2) by simp
next
  case False
  moreover have "set ys = set xs" using assms(2) by (metis set_mset_mset)
  ultimately have "find (\<lambda>x. f x = j) xs = None" "find (\<lambda>x. f x = j) ys = None" by (auto simp: find_None_iff)
  then show ?thesis by simp
qed

lemma collect1_total:
  assumes "\<forall>x \<in> set ds. \<exists>d. x = Some d \<and> r1PartyID d \<in> set signers \<and> map_of D (r1PartyID d) = None"
    and "distinct (map (r1PartyID \<circ> the) ds)"
  shows "\<exists>r. foldM (collect1 signers) (D, MACs) ds = Inr r"
  using assms
proof (induction ds arbitrary: D MACs)
  case (Cons x ds)
  obtain d where x: "x = Some d" "r1PartyID d \<in> set signers" "map_of D (r1PartyID d) = None" using Cons.prems(1) by auto
  have "\<forall>y \<in> set ds. \<exists>e. y = Some e \<and> r1PartyID e \<in> set signers \<and> map_of (AList.update (r1PartyID d) (r1D d) D) (r1PartyID e) = None"
  proof
    fix y assume y: "y \<in> set ds"
    then obtain e where e: "y = Some e" "r1PartyID e \<in> set signers" "map_of D (r1PartyID e) = None" using Cons.prems(1) by auto
    have "r1PartyID d \<notin> (r1PartyID \<circ> the) ` set ds" using Cons.prems(2) x(1) by simp
    then have "r1PartyID e \<noteq> r1PartyID d" using y e(1) by force
    then show "\<exists>e. y = Some e \<and> r1PartyID e \<in> set signers \<and> map_of (AList.update (r1PartyID d) (r1D d) D) (r1PartyID e) = None"
      using e by (simp add: update_conv)
  qed
  from Cons.IH[OF this, of "AList.update (r1PartyID d) (r1MACs d) MACs"] Cons.prems(2)
  show ?case using x by (auto simp: collect1_def)
qed simp

lemma SignRound2Preprocess_cong:
  assumes "\<forall>j \<in> set T. map_of D j = map_of D' j \<and> map_of MACs j = map_of MACs' j"
  shows "SignRound2Preprocess en party A b D MACs sid T = SignRound2Preprocess en party A b D' MACs' sid T"
proof -
  have d: "\<forall>j \<in> set T. map_of D j = map_of D' j" using assms by blast
  show ?thesis
    unfolding SignRound2Preprocess_def Hash_restrict[OF d] check_MACs_restrict[OF assms] sum_D_restrict[OF d] ..
qed

lemma Round2_perm:
  assumes m: "mset data = mset data'" and run: "Round2 en s sid msg key signers data = Inr r"
  shows "Round2 en s sid msg key signers data' = Inr r"
proof -
  obtain D MACs where c: "foldM (collect1 signers) ([], []) (map snd data) = Inr (D, MACs)"
    using run by (auto simp: Round2_def res_simps split: if_splits)
  note C = collect1_Inr[OF c]
  have m2: "mset (map snd data) = mset (map snd data')" using m by simp
  have "\<forall>x \<in> set (map snd data'). \<exists>d. x = Some d \<and> r1PartyID d \<in> set signers \<and> map_of ([] :: (int, matrix) gomap) (r1PartyID d) = None"
    using C m2 by (metis (no_types, lifting) set_mset_mset)
  moreover have dist: "distinct (map (r1PartyID \<circ> the) (map snd data))" using C by blast
  then have "distinct (map (r1PartyID \<circ> the) (map snd data'))" using m2 by (metis mset_eq_imp_distinct_iff mset_map)
  ultimately obtain D' MACs' where c': "foldM (collect1 signers) ([], []) (map snd data') = Inr (D', MACs')"
    using collect1_total by (metis surj_pair)
  note C' = collect1_Inr[OF c']
  have f: "find (\<lambda>x. r1PartyID (the x) = j) (map snd data) = find (\<lambda>x. r1PartyID (the x) = j) (map snd data')" for j
    using find_perm[of "r1PartyID \<circ> the", OF dist m2, of j] by simp
  have "\<forall>j \<in> set signers. map_of D j = map_of D' j \<and> map_of MACs j = map_of MACs' j" using C C' f by simp
  note P = SignRound2Preprocess_cong[OF this]
  have "length data = length data'" using m by (metis size_mset)
  then show ?thesis using run c c' by (simp add: Round2_def P split: if_splits)
qed

text \<open>
  C26: what round 2 admits. If a round-1 message comes from a party outside the signing set,
  or two messages carry the same party id, or there are fewer messages than signers, round 2
  releases no response, in whatever order the messages are visited; and when it does
  release one, neither the response nor the signer's new state depends on that order.
\<close>

theorem round2_admits:
  assumes "mset data = mset data'"
  shows "(\<forall>r. Round2 en s sid msg key signers data = Inr r \<longrightarrow> Round2 en s sid msg key signers data' = Inr r) \<and>
    ((\<exists>i d. (i, Some d) \<in> set data \<and> r1PartyID d \<notin> set signers) \<or>
     (\<exists>i j d e. (i, Some d) \<in> set data \<and> (j, Some e) \<in> set data \<and> i \<noteq> j \<and> r1PartyID d = r1PartyID e) \<or>
     length data < length signers \<longrightarrow> (\<exists>err. Round2 en s sid msg key signers data' = Inl err))"
proof (intro conjI allI impI)
  fix r assume "Round2 en s sid msg key signers data = Inr r"
  then show "Round2 en s sid msg key signers data' = Inr r" by (rule Round2_perm[OF assms])
next
  assume bad: "(\<exists>i d. (i, Some d) \<in> set data \<and> r1PartyID d \<notin> set signers) \<or>
     (\<exists>i j d e. (i, Some d) \<in> set data \<and> (j, Some e) \<in> set data \<and> i \<noteq> j \<and> r1PartyID d = r1PartyID e) \<or>
     length data < length signers"
  show "\<exists>err. Round2 en s sid msg key signers data' = Inl err"
  proof (rule ccontr)
    assume "\<nexists>err. Round2 en s sid msg key signers data' = Inl err"
    then obtain r where "Round2 en s sid msg key signers data' = Inr r" by (metis sum.exhaust)
    then have r: "Round2 en s sid msg key signers data = Inr r" by (rule Round2_perm[OF assms[symmetric]])
    then obtain D MACs where c: "foldM (collect1 signers) ([], []) (map snd data) = Inr (D, MACs)" and l: "\<not> length data < length signers"
      by (auto simp: Round2_def res_simps split: if_splits)
    note C = collect1_Inr[OF c]
    have inj: "inj_on (\<lambda>x. r1PartyID (the (snd x))) (set data)"
      using C by (simp add: comp_def distinct_map)
    show False using bad l C inj by (fastforce simp: inj_on_def)
  qed
qed

definition ex_share :: KeyShare where
  "ex_share = \<lparr> ksIndex = 0, ksSkShare = [], ksSeeds = [], ksMACKeys = [], ksLambda = [],
     ksGroupKey = \<lparr> gkA = [], gkBTilde = None, gkParams = \<lparr> paR = ref_ring, paRXi = coeff_ops 262144 2, paRNu = coeff_ops 524288 2 \<rparr> \<rparr> \<rparr>"

definition ex_round1 :: "nat \<Rightarrow> (int \<times> Round1Data option)" where
  "ex_round1 k = (int k, Some \<lparr> r1PartyID = int (5 * k), r1D = [], r1MACs = [] \<rparr>)"

theorem round2_admits_witness:
  "\<exists>err. Round2 ex_env (NewSigner ex_xof [] ex_share) 1 ''m'' [9] [0, 1] [ex_round1 1, ex_round1 0] = Inl err"
proof -
  have m: "mset [ex_round1 0, ex_round1 1] = mset [ex_round1 1, ex_round1 0]" by simp
  have "(1, Some \<lparr> r1PartyID = 5, r1D = [], r1MACs = [] \<rparr>) \<in> set [ex_round1 0, ex_round1 1]"
    by (simp add: ex_round1_def)
  moreover have "r1PartyID \<lparr> r1PartyID = 5, r1D = [], r1MACs = [] \<rparr> \<notin> set [0, 1]" by simp
  ultimately show ?thesis
    using mp[OF conjunct2[OF round2_admits[OF m, of ex_env "NewSigner ex_xof [] ex_share" 1 "''m''" "[9]" "[0, 1]"]]] by blast
qed

section \<open>Collecting responses\<close>

lemma update_fresh: "k \<notin> fst ` set al \<Longrightarrow> AList.update k v al = al @ [(k, v)]"
  by (induction al) auto

lemma collect2_spec:
  assumes "\<forall>x \<in> set ds. x \<noteq> None"
  shows "foldM collect2 z ds = (if distinct (map (r2PartyID \<circ> the) ds) \<and> (\<forall>x \<in> set ds. r2PartyID (the x) \<notin> fst ` set z)
    then Inr (z @ map (\<lambda>x. (r2PartyID (the x), r2Z (the x))) ds) else Inl ErrDuplicateSigner)"
  using assms
proof (induction ds arbitrary: z)
  case (Cons x ds)
  obtain d where x: "x = Some d" using Cons.prems by auto
  show ?case
  proof (cases "r2PartyID d \<in> fst ` set z")
    case True
    then have "map_of z (r2PartyID d) \<noteq> None" by (simp add: map_of_eq_None_iff)
    then show ?thesis using True x by (auto simp: collect2_def)
  next
    case False
    then have "collect2 z x = Inr (z @ [(r2PartyID d, r2Z d)])"
      using x by (simp add: collect2_def map_of_eq_None_iff update_fresh)
    moreover have "(\<forall>y \<in> set ds. r2PartyID (the y) \<notin> fst ` set (z @ [(r2PartyID d, r2Z d)])) \<longleftrightarrow>
        (\<forall>y \<in> set ds. r2PartyID (the y) \<notin> fst ` set z) \<and> r2PartyID d \<notin> (r2PartyID \<circ> the) ` set ds"
      unfolding image_iff by (simp add: comp_def) metis
    ultimately show ?thesis
      using Cons.IH[of "z @ [(r2PartyID d, r2Z d)]"] Cons.prems False x by simp
  qed
qed simp

lemma foldM_VectorAdd_perm:
  assumes cr: "coeff_ring rg" and ok: "\<forall>x \<in> set xs. vec_ok rg n (snd x)" and m: "mset xs = mset ys"
  shows "foldM (\<lambda>a (j, v). VectorAdd rg a v a) (InitializeVector rg n) xs
    = foldM (\<lambda>a (j, v). VectorAdd rg a v a) (InitializeVector rg n) ys"
proof -
  have ok': "\<forall>x \<in> set ys. vec_ok rg n (snd x)" using ok mset_eq_setD[OF m] by simp
  note ini = coeff_ring.vec_ok_InitializeVector[OF cr]
  obtain v where v: "foldM (\<lambda>a x. VectorAdd rg a (snd x) a) (InitializeVector rg n) xs = Inr v" "vec_ok rg n v"
    "\<forall>i < n. \<forall>k < rN rg. pcoef (v ! i) k = (pcoef (InitializeVector rg n ! i) k + (\<Sum>x\<leftarrow>xs. pcoef (snd x ! i) k)) mod rModulus rg"
    using coeff_ring.foldM_VectorAdd[OF cr ini ok] by blast
  obtain w where w: "foldM (\<lambda>a x. VectorAdd rg a (snd x) a) (InitializeVector rg n) ys = Inr w" "vec_ok rg n w"
    "\<forall>i < n. \<forall>k < rN rg. pcoef (w ! i) k = (pcoef (InitializeVector rg n ! i) k + (\<Sum>x\<leftarrow>ys. pcoef (snd x ! i) k)) mod rModulus rg"
    using coeff_ring.foldM_VectorAdd[OF cr ini ok'] by blast
  have "(\<Sum>x\<leftarrow>xs. pcoef (snd x ! i) k) = (\<Sum>x\<leftarrow>ys. pcoef (snd x ! i) k)" for i k
    unfolding sum_mset_sum_list[symmetric] mset_map m ..
  then have "v = w" using v(3) w(3) by (intro vec_ok_eqI[OF v(2) w(2)]) simp
  then show ?thesis using v(1) w(1) by (simp add: case_prod_unfold)
qed

lemma SignFinalize_perm:
  assumes "coeff_ring (pRing party)" "\<forall>x \<in> set zs. vec_ok (pRing party) dimN (snd x)" "mset zs = mset zs'"
  shows "SignFinalize party zs A b = SignFinalize party zs' A b"
  unfolding SignFinalize_def Let_def foldM_VectorAdd_perm[OF assms] ..

text \<open>
  Combination. For well-formed responses the signature \<^verbatim>\<open>Finalize\<close> returns depends neither
  on the order in which the given map is visited nor on the order in which the collected
  one is; two responses under the same party id are refused, and so is an empty map.
\<close>

theorem finalize_order_independent:
  assumes "coeff_ring (pRing (snParty s))"
    and "\<forall>(i, x) \<in> set data. \<exists>d. x = Some d \<and> vec_ok (pRing (snParty s)) dimN (r2Z d)"
    and "mset data = mset data'" "\<And>z. mset (ord z) = mset z" "\<And>z. mset (ord' z) = mset z"
  shows "Finalize ord s data = Finalize ord' s data' \<and>
    (data = [] \<longrightarrow> Finalize ord s data = Inl ErrInsufficientData) \<and>
    (data \<noteq> [] \<and> \<not> distinct (map (\<lambda>(i, x). r2PartyID (the x)) data) \<longrightarrow> Finalize ord s data = Inl ErrDuplicateSigner)"
proof -
  let ?ids = "\<lambda>data. map (r2PartyID \<circ> the) (map snd data)"
  let ?z = "\<lambda>data. map (\<lambda>x. (r2PartyID (the x), r2Z (the x))) (map snd data)"
  have some: "\<forall>x \<in> set (map snd data). x \<noteq> None" using assms(2) by fastforce
  have sets: "set data = set data'" by (rule mset_eq_setD[OF assms(3)])
  then have some': "\<forall>x \<in> set (map snd data'). x \<noteq> None" using some by auto
  have e: "data = [] \<longleftrightarrow> data' = []" using sets by auto
  have d: "distinct (?ids data) \<longleftrightarrow> distinct (?ids data')" using assms(3) by (metis mset_eq_imp_distinct_iff mset_map)
  have zm: "mset (ord (?z data)) = mset (ord' (?z data'))" using assms(3-5) by simp
  have zok: "\<forall>x \<in> set (ord (?z data)). vec_ok (pRing (snParty s)) dimN (snd x)"
  proof -
    have "set (ord (?z data)) = set (?z data)" by (rule mset_eq_setD[OF assms(4)])
    then show ?thesis using assms(2) by fastforce
  qed
  note P = SignFinalize_perm[OF assms(1) zok zm]
  have c: "foldM collect2 [] (map snd data) = (if distinct (?ids data) then Inr (?z data) else Inl ErrDuplicateSigner)"
    "foldM collect2 [] (map snd data') = (if distinct (?ids data') then Inr (?z data') else Inl ErrDuplicateSigner)"
    using collect2_spec[OF some, of "[]"] collect2_spec[OF some', of "[]"] by simp_all
  have "Finalize ord s data = Finalize ord' s data'"
    unfolding Finalize_def c e using d P by (simp add: Let_def)
  moreover have "data \<noteq> [] \<and> \<not> distinct (map (\<lambda>(i, x). r2PartyID (the x)) data) \<longrightarrow> Finalize ord s data = Inl ErrDuplicateSigner"
    unfolding Finalize_def c by (simp add: comp_def case_prod_unfold)
  ultimately show ?thesis by (simp add: Finalize_def)
qed

definition ex_round2 :: "nat \<Rightarrow> (int \<times> Round2Data option)" where
  "ex_round2 k = (int k, Some \<lparr> r2PartyID = 3, r2Z = replicate dimN [[1, 2]] \<rparr>)"

theorem finalize_order_independent_witness:
  "Finalize id (NewSigner ex_xof [] ex_share) [ex_round2 0, ex_round2 1]
     = Finalize rev (NewSigner ex_xof [] ex_share) [ex_round2 1, ex_round2 0] \<and>
   Finalize id (NewSigner ex_xof [] ex_share) [ex_round2 0, ex_round2 1] = Inl ErrDuplicateSigner"
proof -
  have r: "pRing (snParty (NewSigner ex_xof [] ex_share)) = ref_ring"
    by (simp add: NewSigner_def ex_share_def NewParty_def NewPartyWithSuite_def Let_def)
  have cr: "coeff_ring (pRing (snParty (NewSigner ex_xof [] ex_share)))" unfolding r by (rule ref.coeff_ring_axioms)
  have v: "vec_ok ref_ring dimN (replicate dimN [[1, 2]])"
    by (rule vec_ok_replicate) (simp add: ref_ring_def pvalid_def corona_q_def)
  have d: "\<forall>(i, x) \<in> set [ex_round2 0, ex_round2 1]. \<exists>d. x = Some d \<and> vec_ok (pRing (snParty (NewSigner ex_xof [] ex_share))) dimN (r2Z d)"
    unfolding r using v by (simp add: ex_round2_def)
  have m: "mset [ex_round2 0, ex_round2 1] = mset [ex_round2 1, ex_round2 0]" by simp
  have ids: "[ex_round2 0, ex_round2 1] \<noteq> [] \<and> \<not> distinct (map (\<lambda>(i, x). r2PartyID (the x)) [ex_round2 0, ex_round2 1])"
    by (simp add: ex_round2_def)
  have o: "\<And>z. mset (id z) = mset z" "\<And>z. mset (rev z) = mset z" by simp_all
  show ?thesis using finalize_order_independent[OF cr d m o] ids by blast
qed

end
