(* ===== verification/Transform_Lemmas.thy ===== *)
theory Transform_Lemmas
  imports Vector_Lemmas
begin

text \<open>
  The transform of the ring on linear combinations and on constants. The laws of
  \<open>lattice_ring\<close> only say that the transform is additive and invertible; scaling follows from
  them, the transform of the constant one does not and is a hypothesis where it is used.
\<close>

lemma double_mod_zero:
  assumes "x = (x + x) mod (q :: int)" "0 \<le> x" "x < q"
  shows "x = 0"
proof (rule ccontr)
  assume "x \<noteq> 0"
  then have "x + x - q < x" "q dvd x + x - x" using assms mod_eq_dvd_iff[of "x + x" q x] by auto
  then show False using assms zdvd_imp_le[of q x] \<open>x \<noteq> 0\<close> by auto
qed

context lattice_ring
begin

abbreviation (input) valid :: "poly \<Rightarrow> bool" where
  "valid \<equiv> pvalid (rModulus rg) (rN rg)"

lemma Add_pbuild:
  "valid a \<Longrightarrow> rAdd rg a (pbuild (rModulus rg) (rN rg) f) = pbuild (rModulus rg) (rN rg) (\<lambda>k. pcoef a k + f k)"
  using q_simps by (simp add: Add) (intro pbuild_cong, simp add: mod_add_right_eq)

lemma NTT_scale_nat:
  assumes "valid a"
  shows "rNTT rg (pbuild (rModulus rg) (rN rg) (\<lambda>k. int n * pcoef a k)) = pbuild (rModulus rg) (rN rg) (\<lambda>k. int n * pcoef (rNTT rg a) k)"
proof (induction n)
  case 0
  let ?z = "pbuild (rModulus rg) (rN rg) (\<lambda>k. 0)"
  have z: "valid ?z" using q_simps by simp
  have "rAdd rg ?z ?z = ?z" unfolding Add[OF z z] using q_simps by (intro pbuild_cong) simp
  then have e: "rNTT rg ?z = rAdd rg (rNTT rg ?z) (rNTT rg ?z)" using NTT_Add[OF z z] by simp
  have "rNTT rg ?z = ?z"
  proof (rule pvalid_eqI[OF valid_NTT[OF z] z])
    fix k assume k: "k < rN rg"
    have "pcoef (rNTT rg ?z) k = (pcoef (rNTT rg ?z) k + pcoef (rNTT rg ?z) k) mod rModulus rg"
      using arg_cong[OF e, of "\<lambda>p. pcoef p k"] pcoef_Add[OF valid_NTT[OF z] valid_NTT[OF z] k] by simp
    then have "pcoef (rNTT rg ?z) k = 0" using pcoef_range[OF valid_NTT[OF z] k] by (intro double_mod_zero) auto
    then show "pcoef (rNTT rg ?z) k = pcoef ?z k" using q_simps k by simp
  qed
  then show ?case by simp
next
  case (Suc n)
  let ?b = "pbuild (rModulus rg) (rN rg) (\<lambda>k. int n * pcoef a k)"
  have b: "valid ?b" using q_simps by simp
  have "pbuild (rModulus rg) (rN rg) (\<lambda>k. int (Suc n) * pcoef a k) = rAdd rg a ?b"
    by (simp add: Add_pbuild assms distrib_right)
  then have "rNTT rg (pbuild (rModulus rg) (rN rg) (\<lambda>k. int (Suc n) * pcoef a k)) = rAdd rg (rNTT rg a) (rNTT rg ?b)"
    by (simp add: NTT_Add assms b)
  also have "\<dots> = pbuild (rModulus rg) (rN rg) (\<lambda>k. int (Suc n) * pcoef (rNTT rg a) k)"
    unfolding Suc.IH by (simp add: Add_pbuild valid_NTT assms distrib_right)
  finally show ?case .
qed

lemma NTT_scale:
  assumes "valid a"
  shows "rNTT rg (pbuild (rModulus rg) (rN rg) (\<lambda>k. x * pcoef a k)) = pbuild (rModulus rg) (rN rg) (\<lambda>k. x * pcoef (rNTT rg a) k)"
proof -
  have pos: "0 \<le> x mod rModulus rg" using modulus(1) by simp
  have "pbuild (rModulus rg) (rN rg) (\<lambda>k. x * f k) = pbuild (rModulus rg) (rN rg) (\<lambda>k. int (nat (x mod rModulus rg)) * f k)" for f
    using pos by (intro pbuild_cong) (simp add: mod_mult_left_eq)
  then show ?thesis using NTT_scale_nat[OF assms, of "nat (x mod rModulus rg)"] by simp
qed

lemma NTT_combination:
  assumes "\<And>j. j < (n :: nat) \<Longrightarrow> valid (a j)"
  shows "rNTT rg (pbuild (rModulus rg) (rN rg) (\<lambda>k. \<Sum>j<n. w j * pcoef (a j) k))
    = pbuild (rModulus rg) (rN rg) (\<lambda>k. \<Sum>j<n. w j * pcoef (rNTT rg (a j)) k)"
  using assms
proof (induction n)
  case 0
  show ?case using NTT_scale_nat[OF valid_NewPoly, of 0] by simp
next
  case (Suc n)
  let ?s = "pbuild (rModulus rg) (rN rg) (\<lambda>k. \<Sum>j<n. w j * pcoef (a j) k)"
  let ?t = "pbuild (rModulus rg) (rN rg) (\<lambda>k. w n * pcoef (a n) k)"
  have v: "valid ?s" "valid ?t" "valid (a n)" using Suc.prems q_simps by simp_all
  have "pbuild (rModulus rg) (rN rg) (\<lambda>k. \<Sum>j<Suc n. w j * pcoef (a j) k) = rAdd rg ?s ?t"
    unfolding Add[OF v(1,2)] using q_simps by (intro pbuild_cong) (simp add: mod_add_eq)
  then have "rNTT rg (pbuild (rModulus rg) (rN rg) (\<lambda>k. \<Sum>j<Suc n. w j * pcoef (a j) k)) = rAdd rg (rNTT rg ?s) (rNTT rg ?t)"
    by (simp add: NTT_Add v)
  also have "\<dots> = pbuild (rModulus rg) (rN rg) (\<lambda>k. \<Sum>j<Suc n. w j * pcoef (rNTT rg (a j)) k)"
  proof -
    have IH: "rNTT rg ?s = pbuild (rModulus rg) (rN rg) (\<lambda>k. \<Sum>j<n. w j * pcoef (rNTT rg (a j)) k)" using Suc by simp
    have "valid (pbuild (rModulus rg) (rN rg) f)" for f using q_simps by simp
    then show ?thesis unfolding IH NTT_scale[OF v(3)] using q_simps by (simp add: Add) (intro pbuild_cong, simp add: mod_add_eq)
  qed
  finally show ?case .
qed

lemma const_poly:
  "rSetCoefficientsBigint rg [w] = pbuild (rModulus rg) (rN rg) (\<lambda>k. w * pcoef (rSetCoefficientsBigint rg [1]) k)" (is "_ = ?r")
  and const_valid: "valid (rSetCoefficientsBigint rg [w])"
proof -
  have d: "length [x] \<le> rN rg" for x :: int using degree by simp
  show "rSetCoefficientsBigint rg [w] = ?r"
    unfolding SetCoefficientsBigint[OF d] using q_simps by (intro pbuild_cong) (simp add: mod_mult_right_eq)
  show "valid (rSetCoefficientsBigint rg [w])" unfolding SetCoefficientsBigint[OF d] using q_simps by simp
qed

lemma NTT_const:
  assumes "rNTT rg (rSetCoefficientsBigint rg [1]) = pbuild (rModulus rg) (rN rg) (\<lambda>k. 1)"
  shows "rNTT rg (rSetCoefficientsBigint rg [w]) = pbuild (rModulus rg) (rN rg) (\<lambda>k. w)"
  unfolding const_poly[of w] NTT_scale[OF const_valid] assms using q_simps by (intro pbuild_cong) (simp add: mod_mult_right_eq)

lemma Mul_const_slot:
  assumes one: "rNTT rg (rSetCoefficientsBigint rg [1]) = pbuild (rModulus rg) (rN rg) (\<lambda>k. 1)"
    and p: "valid p" and k: "k < rN rg"
  shows "pcoef (rMulCoeffsMontgomery rg (rMForm rg (rNTT rg p)) (rMForm rg (rNTT rg (rSetCoefficientsBigint rg [w])))) k
    = (w * 2 ^ 64 * pcoef (rNTT rg p) k) mod rModulus rg"
proof -
  let ?lam = "rMForm rg (rNTT rg (rSetCoefficientsBigint rg [w]))"
  have lam: "valid ?lam" by (intro valid_MForm valid_NTT const_valid)
  have "pcoef (rMulCoeffsMontgomery rg (rMForm rg (rNTT rg p)) ?lam) k
      = (pcoef (rNTT rg p) k * 2 ^ 64) mod rModulus rg * ((w mod rModulus rg * 2 ^ 64) mod rModulus rg) * Rinv mod rModulus rg"
    using k q_simps valid_MForm[OF valid_NTT[OF p]] lam valid_NTT[OF p] valid_NTT[OF const_valid] unfolding NTT_const[OF one, of w]
    by (simp add: Mul_pbuild MForm)
  also have "\<dots> = (pcoef (rNTT rg p) k * 2 ^ 64) * (w * 2 ^ 64) * Rinv mod rModulus rg"
    by (intro mod_mult_cong) (simp_all add: mod_mult_left_eq)
  also have "\<dots> = (w * 2 ^ 64 * pcoef (rNTT rg p) k) * (2 ^ 64 * Rinv) mod rModulus rg" by (simp only: ac_simps)
  also have "\<dots> = (w * 2 ^ 64 * pcoef (rNTT rg p) k) mod rModulus rg"
    using Rinv by (metis mod_mult_right_eq mult.right_neutral)
  finally show ?thesis .
qed

end

end
