(* ===== verification/Signing_Equation.thy ===== *)
theory Signing_Equation
  imports Sign_Correctness Transform_Lemmas
begin

text \<open>
  The algebra of a signing session of \<^verbatim>\<open>sign/sign.go\<close>: what the matrices of round 1, the responses of round 2 and
  the key have to do with each other. The signing equation says that the combined response and
  the public commitment differ by the small terms alone.
\<close>

section \<open>Products slot by slot\<close>

lemma sum_list_cong_mod: "(\<And>x. x \<in> set xs \<Longrightarrow> f x mod q = g x mod (q :: int)) \<Longrightarrow> (\<Sum>x\<leftarrow>xs. f x) mod q = (\<Sum>x\<leftarrow>xs. g x) mod q"
  by (induction xs) (auto intro: mod_add_cong)

lemma sum_mod_cong: "(\<And>j. j < n \<Longrightarrow> f j mod q = g j mod (q :: int)) \<Longrightarrow> (\<Sum>j<(n :: nat). f j) mod q = (\<Sum>j<n. g j) mod q"
  by (induction n) (auto intro: mod_add_cong)

lemma sum_sum_list: "(\<Sum>j<(n :: nat). \<Sum>x\<leftarrow>xs. f j x) = (\<Sum>x\<leftarrow>xs. \<Sum>j<n. (f j x :: int))"
  by (induction xs) (simp_all add: sum.distrib)

context lattice_ring
begin

lemma pcoef_row_mul:
  assumes "vec_ok rg n row" "vec_ok rg n v" "k < rN rg"
  shows "pcoef (row_mul rg row v (rNewPoly rg)) k = (\<Sum>j<n. pcoef (row ! j) k * pcoef (v ! j) k) * Rinv mod rModulus rg"
proof -
  have "sum_list (map (\<lambda>(m, x). pcoef m k * pcoef x k) (zip row v)) = (\<Sum>j<n. pcoef (row ! j) k * pcoef (v ! j) k)"
    using assms(1,2) by (subst sum_list_sum_nth) (auto simp: vec_ok_def lessThan_atLeast0 intro: sum.cong)
  then show ?thesis using assms q_simps by (simp add: row_mul_spec vec_ok_def valid_NewPoly)
qed

lemma pcoef_Mul:
  assumes "pvalid (rModulus rg) (rN rg) a" "pvalid (rModulus rg) (rN rg) b" "k < rN rg"
  shows "pcoef (rMulCoeffsMontgomery rg a b) k = pcoef a k * pcoef b k * Rinv mod rModulus rg"
proof -
  have v: "pvalid (rModulus rg) (rN rg) (pbuild (rModulus rg) (rN rg) (\<lambda>k. pcoef a k * pcoef b k))" using q_simps by simp
  show ?thesis unfolding MulCoeffsMontgomery[OF assms(1,2)] IMForm_pbuild[OF v] using assms(3) q_simps by (simp add: mod_mult_left_eq)
qed

lemma MatrixMatrixMul_slot:
  assumes A: "mat_ok rg m p A" and B: "mat_ok rg p n B" and pos: "0 < m" "0 < p" "0 < n"
    and run: "MatrixMatrixMul rg A B (InitializeMatrix rg m n) = Inr C"
  shows "mat_ok rg m n C \<and> (\<forall>i < m. \<forall>j < n. \<forall>k < rN rg.
    pcoef (C ! i ! j) k = (\<Sum>l<p. pcoef (A ! i ! l) k * pcoef (B ! l ! j) k) * Rinv mod rModulus rg)"
proof -
  have la: "length A = m" "length (hd A) = p" "length B = p" "length (hd B) = n"
    using A B pos mat_ok_nth[OF A pos(1)] mat_ok_nth[OF B pos(2)] by (auto simp: mat_ok_def vec_ok_def hd_conv_nth)
  let ?col = "\<lambda>j. map (\<lambda>l. B ! l ! j) [0..<p]"
  have col: "vec_ok rg p (?col j)" if "j < n" for j
    by (rule vec_ok_mapI) (use vec_ok_nth[OF mat_ok_nth[OF B]] that in auto)
  have cell: "foldl (\<lambda>acc l. rMulCoeffsMontgomeryThenAdd rg (A ! i ! l) (B ! l ! j) acc) x [0..<p] = row_mul rg (A ! i) (?col j) x" if i: "i < m" for i j x
  proof -
    have "zip (A ! i) (?col j) = map (\<lambda>l. (A ! i ! l, B ! l ! j)) [0..<p]"
      by (rule nth_equalityI) (use mat_ok_nth[OF A i] in \<open>auto simp: vec_ok_def\<close>)
    then show ?thesis by (simp add: row_mul_def foldl_map)
  qed
  have "C = map (\<lambda>i. map (\<lambda>j. foldl (\<lambda>acc l. rMulCoeffsMontgomeryThenAdd rg (A ! i ! l) (B ! l ! j) acc) (InitializeMatrix rg m n ! i ! j) [0..<p]) [0..<n]) [0..<m]"
    using run la by (auto simp: MatrixMatrixMul_def Let_def InitializeMatrix_def split: if_splits intro!: nth_equalityI)
  then have C: "C ! i ! j = row_mul rg (A ! i) (?col j) (rNewPoly rg)" "length C = m" "length (C ! i) = n" if "i < m" "j < n" for i j
    using that cell[OF that(1), of j] by (simp_all add: InitializeMatrix_def)
  have len: "length C = m" "\<And>i. i < m \<Longrightarrow> length (C ! i) = n" using C pos by blast+
  have "pvalid (rModulus rg) (rN rg) (C ! i ! j)" if "i < m" "j < n" for i j
    unfolding C(1)[OF that] using mat_ok_nth[OF A that(1)] col[OF that(2)] by (intro valid_row_mul valid_NewPoly) (simp_all add: vec_ok_def)
  then have "mat_ok rg m n C" using len by (auto simp: mat_ok_def vec_ok_def vvalid_def in_set_conv_nth)
  moreover have "pcoef (C ! i ! j) k = (\<Sum>l<p. pcoef (A ! i ! l) k * pcoef (B ! l ! j) k) * Rinv mod rModulus rg" if "i < m" "j < n" "k < rN rg" for i j k
    unfolding C(1)[OF that(1,2)] pcoef_row_mul[OF mat_ok_nth[OF A that(1)] col[OF that(2)] that(3)] by simp
  ultimately show ?thesis by blast
qed

lemma MatrixAdd_slot:
  assumes A: "mat_ok rg m n A" and B: "mat_ok rg m n B" and pos: "0 < m" "0 < n" and run: "MatrixAdd rg A B B = Inr C"
  shows "mat_ok rg m n C \<and> (\<forall>i < m. \<forall>j < n. \<forall>k < rN rg. pcoef (C ! i ! j) k = (pcoef (A ! i ! j) k + pcoef (B ! i ! j) k) mod rModulus rg)"
proof -
  have la: "length A = m" "length B = m" "length (hd A) = n"
    using A B pos mat_ok_nth[OF A pos(1)] by (auto simp: mat_ok_def vec_ok_def hd_conv_nth)
  have lb: "\<And>i. i < m \<Longrightarrow> length (B ! i) = n" using mat_ok_nth[OF B] by (simp add: vec_ok_def)
  have "C = map (\<lambda>i. if i < m \<and> 0 < n then map (\<lambda>j. if j < n then rAdd rg (A ! i ! j) (B ! i ! j) else B ! i ! j) [0..<length (B ! i)] else B ! i) [0..<m]"
    using run unfolding MatrixAdd_def Let_def la by (simp split: if_split_asm)
  also have "\<dots> = map (\<lambda>i. map (\<lambda>j. rAdd rg (A ! i ! j) (B ! i ! j)) [0..<n]) [0..<m]"
    by (intro map_cong refl) (use lb pos in simp)
  finally have "C = map (\<lambda>i. map (\<lambda>j. rAdd rg (A ! i ! j) (B ! i ! j)) [0..<n]) [0..<m]" .
  then have C: "C ! i ! j = rAdd rg (A ! i ! j) (B ! i ! j)" "length C = m" "length (C ! i) = n" if "i < m" "j < n" for i j using that by simp_all
  have v: "pvalid (rModulus rg) (rN rg) (A ! i ! j)" "pvalid (rModulus rg) (rN rg) (B ! i ! j)" if "i < m" "j < n" for i j
    using vec_ok_nth[OF mat_ok_nth[OF A that(1)] that(2)] vec_ok_nth[OF mat_ok_nth[OF B that(1)] that(2)] .
  have len: "length C = m" "\<And>i. i < m \<Longrightarrow> length (C ! i) = n" using C pos by blast+
  have "mat_ok rg m n C" using len C(1) v by (auto simp: mat_ok_def vec_ok_def vvalid_def in_set_conv_nth intro!: valid_Add)
  then show ?thesis using C(1) v pcoef_Add by simp
qed

lemma sum_D_slot:
  assumes "mat_ok rg m n D0" "\<forall>j \<in> set T. mat_ok rg m n (Df j) \<and> map_of D j = Some (Df j)" "0 < m" "0 < n"
    and "sum_D rg D D0 T = Inr (Some DSum)"
  shows "mat_ok rg m n DSum \<and> (\<forall>i < m. \<forall>l < n. \<forall>k < rN rg.
    pcoef (DSum ! i ! l) k = (pcoef (D0 ! i ! l) k + (\<Sum>j\<leftarrow>T. pcoef (Df j ! i ! l) k)) mod rModulus rg)"
  using assms
proof (induction T arbitrary: D0)
  case Nil
  then show ?case using pcoef_mod[OF vec_ok_nth[OF mat_ok_nth]] by simp
next
  case (Cons j T)
  obtain D1 where D1: "MatrixAdd rg (Df j) D0 D0 = Inr D1" "sum_D rg D D1 T = Inr (Some DSum)"
    using Cons.prems(2,5) by (auto split: sum.splits if_splits)
  have s: "mat_ok rg m n D1 \<and> (\<forall>i < m. \<forall>l < n. \<forall>k < rN rg. pcoef (D1 ! i ! l) k = (pcoef (Df j ! i ! l) k + pcoef (D0 ! i ! l) k) mod rModulus rg)"
    by (rule MatrixAdd_slot[OF _ Cons.prems(1) Cons.prems(3,4) D1(1)]) (use Cons.prems(2) in simp)
  have IH: "mat_ok rg m n DSum \<and> (\<forall>i < m. \<forall>l < n. \<forall>k < rN rg.
    pcoef (DSum ! i ! l) k = (pcoef (D1 ! i ! l) k + (\<Sum>j\<leftarrow>T. pcoef (Df j ! i ! l) k)) mod rModulus rg)"
    by (rule Cons.IH) (use s D1(2) Cons.prems in auto)
  have "pcoef (DSum ! i ! l) k = (pcoef (D0 ! i ! l) k + (\<Sum>j\<leftarrow>j # T. pcoef (Df j ! i ! l) k)) mod rModulus rg" if "i < m" "l < n" "k < rN rg" for i l k
    using IH s that by (simp add: mod_add_left_eq add.assoc add.left_commute)
  then show ?case using IH by blast
qed

end

section \<open>The algebra\<close>

lemma sum_split: "(\<Sum>j<n. a j * (S j * v + \<sigma> j * c * v)) = (\<Sum>j<(n :: nat). a j * S j) * v + (\<Sum>j<n. a j * \<sigma> j) * c * (v :: int)"
  by (induction n) (simp_all add: algebra_simps)

lemma response_row:
  fixes a :: "nat \<Rightarrow> int"
  shows "(\<Sum>j<n. a j * ((\<Sum>l<m. R j l * u l) * v + \<sigma> j * c * v)) * v = (\<Sum>l<m. (\<Sum>j<n. a j * R j l) * v * u l) * v + (\<Sum>j<n. a j * \<sigma> j) * v * c * v"
proof -
  have "(\<Sum>j<n. a j * (\<Sum>l<m. R j l * u l)) = (\<Sum>l<m. (\<Sum>j<n. a j * R j l) * u l)"
    unfolding sum_distrib_left sum_distrib_right by (subst sum.swap) (simp add: mult.assoc)
  moreover have "(\<Sum>l<m. (\<Sum>j<n. a j * R j l) * v * u l) = (\<Sum>l<m. (\<Sum>j<n. a j * R j l) * u l) * v"
    unfolding sum_distrib_right by (intro sum.cong refl) (simp add: algebra_simps)
  ultimately show ?thesis unfolding sum_split by (simp add: algebra_simps)
qed

lemma response_sum:
  fixes a :: "nat \<Rightarrow> int"
  shows "(\<Sum>j<n. a j * (\<Sum>p\<leftarrow>ps. (\<Sum>l<m. R p j l * u l) * v + \<sigma> p j * c * v)) * v
    = (\<Sum>p\<leftarrow>ps. (\<Sum>l<m. (\<Sum>j<n. a j * R p j l) * v * u l) * v) + (\<Sum>j<n. a j * (\<Sum>p\<leftarrow>ps. \<sigma> p j)) * v * c * v"
proof (induction ps)
  case (Cons p ps)
  have "(\<Sum>j<n. a j * (\<Sum>p\<leftarrow>p # ps. (\<Sum>l<m. R p j l * u l) * v + \<sigma> p j * c * v)) * v
      = (\<Sum>j<n. a j * ((\<Sum>l<m. R p j l * u l) * v + \<sigma> p j * c * v)) * v + (\<Sum>j<n. a j * (\<Sum>p\<leftarrow>ps. (\<Sum>l<m. R p j l * u l) * v + \<sigma> p j * c * v)) * v"
    by (simp only: list.map sum_list.Cons distrib_left sum.distrib distrib_right)
  then show ?case unfolding Cons.IH response_row by (simp add: distrib_left sum.distrib distrib_right)
qed simp

lemma signing_algebra:
  fixes q :: int
  assumes z: "\<And>j. j < n \<Longrightarrow> z j mod q = (\<Sum>p\<leftarrow>ps. (\<Sum>l<m. R p j l * u l) * v + \<sigma> p j * c * v) mod q"
    and D: "\<And>p l. p \<in> set ps \<Longrightarrow> l < m \<Longrightarrow> D p l mod q = (E p l + (\<Sum>j<n. a j * R p j l) * v) mod q"
    and DS: "\<And>l. l < m \<Longrightarrow> DS l mod q = (\<Sum>p\<leftarrow>ps. D p l) mod q"
    and S: "\<And>j. j < n \<Longrightarrow> (\<Sum>p\<leftarrow>ps. \<sigma> p j) mod q = s j mod q"
    and b: "b mod q = ((\<Sum>j<n. a j * s j) * v + e) mod q"
  shows "(\<Sum>j<(n :: nat). a j * z j) * v mod q
    = ((\<Sum>l<(m :: nat). DS l * u l) * v - (\<Sum>p\<leftarrow>ps. (\<Sum>l<m. E p l * u l) * v) + b * c * v - e * c * v) mod q"
proof -
  have "(\<Sum>j<n. a j * z j) * v mod q = (\<Sum>j<n. a j * (\<Sum>p\<leftarrow>ps. (\<Sum>l<m. R p j l * u l) * v + \<sigma> p j * c * v)) * v mod q"
    by (intro mod_mult_cong sum_mod_cong refl z)
  also have "\<dots> = ((\<Sum>p\<leftarrow>ps. (\<Sum>l<m. (\<Sum>j<n. a j * R p j l) * v * u l) * v) + (\<Sum>j<n. a j * (\<Sum>p\<leftarrow>ps. \<sigma> p j)) * v * c * v) mod q"
    unfolding response_sum ..
  also have "\<dots> = ((\<Sum>p\<leftarrow>ps. (\<Sum>l<m. (D p l - E p l) * u l) * v) + (b - e) * c * v) mod q"
  proof (intro mod_add_cong mod_mult_cong refl sum_list_cong_mod sum_mod_cong)
    fix p l assume "p \<in> set ps" "l < m"
    then have "(D p l - E p l) mod q = (E p l + (\<Sum>j<n. a j * R p j l) * v - E p l) mod q" by (intro mod_diff_cong D refl)
    then show "(\<Sum>j<n. a j * R p j l) * v mod q = (D p l - E p l) mod q" by simp
  next
    have "(\<Sum>j<n. a j * (\<Sum>p\<leftarrow>ps. \<sigma> p j)) * v mod q = (\<Sum>j<n. a j * s j) * v mod q" by (intro mod_mult_cong sum_mod_cong refl S)
    also have "\<dots> = ((\<Sum>j<n. a j * s j) * v + e - e) mod q" by simp
    also have "\<dots> = (b - e) mod q" by (intro mod_diff_cong b[symmetric] refl)
    finally show "(\<Sum>j<n. a j * (\<Sum>p\<leftarrow>ps. \<sigma> p j)) * v mod q = (b - e) mod q" .
  qed
  also have "(\<Sum>p\<leftarrow>ps. (\<Sum>l<m. (D p l - E p l) * u l) * v) = (\<Sum>l<m. (\<Sum>p\<leftarrow>ps. D p l) * u l) * v - (\<Sum>p\<leftarrow>ps. (\<Sum>l<m. E p l * u l) * v)"
    by (induction ps) (simp_all add: left_diff_distrib distrib_right sum.distrib sum_subtractf)
  also have "((\<Sum>l<m. (\<Sum>p\<leftarrow>ps. D p l) * u l) * v - (\<Sum>p\<leftarrow>ps. (\<Sum>l<m. E p l * u l) * v) + (b - e) * c * v) mod q
      = ((\<Sum>l<m. DS l * u l) * v - (\<Sum>p\<leftarrow>ps. (\<Sum>l<m. E p l * u l) * v) + (b - e) * c * v) mod q"
    by (intro mod_add_cong mod_diff_cong mod_mult_cong sum_mod_cong refl DS[symmetric])
  finally show ?thesis by (simp add: left_diff_distrib add_diff_eq)
qed

section \<open>The equation\<close>

text \<open>\<open>A z = D u + b c - (sum of the E u + e c)\<close>, coefficient by coefficient. \<open>b\<close> is the public
  vector before rounding.\<close>

definition signing_eq :: "ring_ops \<Rightarrow> matrix \<Rightarrow> vec \<Rightarrow> matrix \<Rightarrow> vec \<Rightarrow> matrix list \<Rightarrow> vec \<Rightarrow> vec \<Rightarrow> poly \<Rightarrow> bool" where
  "signing_eq rg A z D u Es b e c \<longleftrightarrow> (\<forall>i < dimM. \<forall>k < rN rg. pcoef (row_mul rg (A ! i) z (rNewPoly rg)) k =
    (pcoef (row_mul rg (D ! i) u (rNewPoly rg)) k - (\<Sum>E\<leftarrow>Es. pcoef (row_mul rg (E ! i) u (rNewPoly rg)) k)
     + pcoef (rMulCoeffsMontgomery rg (b ! i) c) k - pcoef (rMulCoeffsMontgomery rg (e ! i) c) k) mod rModulus rg)"

section \<open>One transcript for all signers\<close>

lemma round2_u_cong: "pRing p = pRing p2 \<Longrightarrow> pSuite p = pSuite p2 \<Longrightarrow> round2_u en p h mu = round2_u en p2 h mu"
  by (simp add: round2_u_def)

lemma round2_challenge_cong:
  "pRing p = pRing p2 \<Longrightarrow> pSuite p = pSuite p2 \<Longrightarrow> pRingNu p = pRingNu p2 \<Longrightarrow>
   round2_challenge en p A b D mu u = round2_challenge en p2 A b D mu u"
  by (simp add: round2_challenge_def)

lemma signers_agree:
  assumes "SignRound2 en p A b DSum sid mu T key h = Inr (p', z)" "SignRound2 en p2 A b DSum sid2 mu T2 key2 h = Inr (p2', z2)"
    and "pRing p = pRing p2" "pSuite p = pSuite p2" "pRingNu p = pRingNu p2"
  shows "round2_u en p h mu = round2_u en p2 h mu \<and> pH p' = pH p2' \<and> pC p' = pC p2'"
proof -
  have u: "round2_u en p h mu = round2_u en p2 h mu" by (rule round2_u_cong[OF assms(3,4)])
  have "Inr (pH p', pC p') = (Inr (pH p2', pC p2') :: (vec \<times> poly) res)"
    using SignRound2_Inr[OF assms(1)] SignRound2_Inr[OF assms(2)] round2_challenge_cong[OF assms(3-5), of en A b DSum mu "round2_u en p2 h mu"] u
    by metis
  then show ?thesis using u by simp
qed

context lattice_ring
begin

lemma resp_core_slot:
  assumes "signer_ok rg p" "vec_ok rg (Suc Dbar) u" "pvalid (rModulus rg) (rN rg) c" "i < dimN" "k < rN rg"
  shows "resp_core rg p u c i k mod rModulus rg = ((\<Sum>l<Suc Dbar. pcoef (pR p ! i ! l) k * pcoef (u ! l) k) * Rinv
    + pcoef (rMulCoeffsMontgomery rg (pSkShare p ! i) (pLambda p)) k * pcoef c k * Rinv) mod rModulus rg"
proof -
  have p: "vec_ok rg (Suc Dbar) (pR p ! i)" "pvalid (rModulus rg) (rN rg) (pSkShare p ! i)" "pvalid (rModulus rg) (rN rg) (pLambda p)"
    using assms(1,4) by (auto simp: signer_ok_def intro: mat_ok_nth vec_ok_nth)
  show ?thesis
    unfolding resp_core_def pcoef_row_mul[OF p(1) assms(2,5)] pcoef_Mul[OF valid_Mul[OF p(2,3)] assms(3,5)]
    by (rule mod_add_eq)
qed

text \<open>The public vector \<open>b = A s + e\<close> and a commitment \<open>D = A R + E\<close>, coefficient by coefficient.\<close>

lemma public_key_slot:
  assumes A: "mat_ok rg dimM dimN A"
    and s: "vec_ok rg dimN s" "vec_ok rg dimM e" "MatrixVectorMul rg A s (InitializeVector rg dimM) = Inr b0" "VectorAdd rg b0 e b0 = Inr b"
  shows "vec_ok rg dimM b \<and> (\<forall>i < dimM. \<forall>k < rN rg.
    pcoef (b ! i) k mod rModulus rg = ((\<Sum>j<dimN. pcoef (A ! i ! j) k * pcoef (s ! j) k) * Rinv + pcoef (e ! i) k) mod rModulus rg)"
proof -
  have b0: "vec_ok rg dimM b0" "\<And>i. i < dimM \<Longrightarrow> b0 ! i = row_mul rg (A ! i) s (rNewPoly rg)"
    using MatrixVectorMul_ok[OF A s(1) vec_ok_InitializeVector] s(3) A by (auto simp: InitializeVector_def mat_ok_def)
  have "length b0 = dimM" using b0(1) by (simp add: vec_ok_def)
  note a = VectorAdd_ok[OF b0(1) s(2) this]
  have "pcoef (b ! i) k mod rModulus rg = ((\<Sum>j<dimN. pcoef (A ! i ! j) k * pcoef (s ! j) k) * Rinv + pcoef (e ! i) k) mod rModulus rg"
    if ik: "i < dimM" "k < rN rg" for i k
  proof -
    have "pcoef (b ! i) k = (pcoef (row_mul rg (A ! i) s (rNewPoly rg)) k + pcoef (e ! i) k) mod rModulus rg"
      using a(1) s(4) pcoef_VectorAdd[OF b0(1) s(2) ik] b0(2)[OF ik(1)] by simp
    then show ?thesis unfolding pcoef_row_mul[OF mat_ok_nth[OF A ik(1)] s(1) ik(2)] by (simp add: mod_add_left_eq)
  qed
  then show ?thesis using a s(4) by auto
qed

lemma commitment_slot:
  assumes A: "mat_ok rg dimM dimN A" and R: "mat_ok rg dimN (Suc Dbar) R" and E: "mat_ok rg dimM (Suc Dbar) E"
    and run: "MatrixMatrixMul rg A R (InitializeMatrix rg dimM (Suc Dbar)) = Inr D0" "MatrixAdd rg E D0 D0 = Inr D"
  shows "mat_ok rg dimM (Suc Dbar) D \<and> (\<forall>i < dimM. \<forall>l < Suc Dbar. \<forall>k < rN rg.
    pcoef (D ! i ! l) k mod rModulus rg = (pcoef (E ! i ! l) k + (\<Sum>j<dimN. pcoef (A ! i ! j) k * pcoef (R ! j ! l) k) * Rinv) mod rModulus rg)"
proof -
  have pos: "0 < dimM" "0 < dimN" by (simp_all add: dimM_def dimN_def)
  note m = MatrixMatrixMul_slot[OF A R pos zero_less_Suc run(1)]
  show ?thesis using MatrixAdd_slot[OF E conjunct1[OF m] pos(1) zero_less_Suc run(2)] m by (simp add: mod_add_right_eq)
qed

lemma signing_equation_core:
  assumes sm: "sampling_ok (envSampling en) rg"
    and runs: "\<forall>(p, p', z) \<in> set rs. signer_ok rg p \<and> pSuite p = su \<and> pSeed p = seeds \<and> pRingNu p = rnu \<and>
      SignRound2 en p A bT DSum sid mu (map (\<lambda>(p, p', z). pID p) rs) key h = Inr (p', z)"
    and comb: "pRing comb = rg" "SignFinalize comb (map (\<lambda>(p, p', z). (pID p, z)) rs) A bT = Inr (c, zsum, Delta)"
    and A: "mat_ok rg dimM dimN A"
    and D: "\<forall>(p, p', z) \<in> set rs. mat_ok rg dimM (Suc Dbar) (E (pID p)) \<and> (\<exists>D0 Dp. map_of D (pID p) = Some Dp \<and>
      MatrixMatrixMul rg A (pR p) (InitializeMatrix rg dimM (Dbar + 1)) = Inr D0 \<and> MatrixAdd rg (E (pID p)) D0 D0 = Inr Dp)"
    and DSum: "sum_D rg D (InitializeMatrix rg dimM (Dbar + 1)) (map (\<lambda>(p, p', z). pID p) rs) = Inr (Some DSum)"
    and s: "vec_ok rg dimN s" "vec_ok rg dimM e" "MatrixVectorMul rg A s (InitializeVector rg dimM) = Inr b0" "VectorAdd rg b0 e b0 = Inr b"
    and share: "\<forall>j < dimN. \<forall>k < rN rg. (\<Sum>(p, p', z)\<leftarrow>rs. pcoef (rMulCoeffsMontgomery rg (pSkShare p ! j) (pLambda p)) k) mod rModulus rg
      = pcoef (s ! j) k"
    and x: "(p0, p0', z0) \<in> set rs"
  shows "signing_eq rg A zsum DSum (round2_u en p0 h mu) (map (\<lambda>(p, p', z). E (pID p)) rs) b e (pC p0')"
  unfolding signing_eq_def
proof (intro allI impI)
  fix i k assume ik: "i < dimM" "k < rN rg"
  let ?q = "rModulus rg" and ?u = "round2_u en p0 h mu" and ?c = "pC p0'" and ?v = Rinv and ?id = "\<lambda>(p :: Party, p' :: Party, z :: vec). pID p"
  define R where "R x j l = pcoef (pR (fst x) ! j ! l) k" for x :: "Party \<times> Party \<times> vec" and j l
  define S where "S x j = pcoef (rMulCoeffsMontgomery rg (pSkShare (fst x) ! j) (pLambda (fst x))) k" for x :: "Party \<times> Party \<times> vec" and j
  have 0: "signer_ok rg p0" "pSuite p0 = su" "pRingNu p0 = rnu" "SignRound2 en p0 A bT DSum sid mu (map ?id rs) key h = Inr (p0', z0)"
    using runs x by auto
  then have r0: "pRing p0 = rg" by (simp add: signer_ok_def)
  have u: "vec_ok rg (Suc Dbar) ?u" by (rule round2_u_ok[OF sm r0])
  have c: "pvalid ?q (rN rg) ?c" using LowNormHash_ok[OF sm] round2_challenge_Inr SignRound2_Inr[OF 0(4)] r0 by metis
  have same: "round2_u en (fst y) h mu = ?u \<and> pC (fst (snd y)) = ?c" if "y \<in> set rs" for y
    using signers_agree[of en "fst y" A bT DSum sid mu "map ?id rs" key h "fst (snd y)" "snd (snd y)", OF _ 0(4)] runs that r0 0(2,3)
    by (cases y) (auto simp: signer_ok_def)
  have "\<exists>v. foldM (\<lambda>a x. VectorAdd rg a (snd (snd x)) a) (InitializeVector rg dimN) rs = Inr v \<and> vec_ok rg dimN v"
    by (rule exE[OF foldM_VectorAdd[OF vec_ok_InitializeVector, of rs dimN "\<lambda>x. snd (snd x)"]])
       (use SignRound2_vec_ok[OF sm] runs in fastforce)+
  then have zs: "vec_ok rg dimN zsum" using SignFinalize_Inr[OF comb(2)] comb(1) by (auto simp: foldM_map case_prod_unfold)
  have z: "pcoef (zsum ! j) k mod ?q = (\<Sum>x\<leftarrow>rs. (\<Sum>l<Suc Dbar. R x j l * pcoef (?u ! l) k) * ?v + S x j * pcoef ?c k * ?v) mod ?q"
    if j: "j < dimN" for j
  proof -
    have "pcoef (zsum ! j) k = (\<Sum>(p, p', z)\<leftarrow>rs. resp_core rg p (round2_u en p h mu) (pC p') j k) mod ?q"
      by (rule masks_cancel_core[OF lattice_ring_axioms sm _ comb j ik(2)]) (use runs in blast)
    then have "pcoef (zsum ! j) k mod ?q = (\<Sum>x\<leftarrow>rs. resp_core rg (fst x) (round2_u en (fst x) h mu) (pC (fst (snd x))) j k) mod ?q"
      by (simp add: case_prod_unfold)
    also have "\<dots> = (\<Sum>x\<leftarrow>rs. (\<Sum>l<Suc Dbar. R x j l * pcoef (?u ! l) k) * ?v + S x j * pcoef ?c k * ?v) mod ?q"
      unfolding R_def S_def by (rule sum_list_cong_mod) (use same resp_core_slot[OF _ u c j ik(2)] runs in auto)
    finally show ?thesis .
  qed
  define Dm where "Dm y = the (map_of D y)" for y
  have Dp: "mat_ok rg dimM (Suc Dbar) (Dm (?id y)) \<and> map_of D (?id y) = Some (Dm (?id y)) \<and> (\<forall>l < Suc Dbar. pcoef (Dm (?id y) ! i ! l) k mod ?q =
      (pcoef (E (?id y) ! i ! l) k + (\<Sum>j<dimN. pcoef (A ! i ! j) k * R y j l) * ?v) mod ?q)" if mem: "y \<in> set rs" for y
  proof -
    obtain p p' z where y: "y = (p, p', z)" by (cases y)
    have mem': "(p, p', z) \<in> set rs" using mem y by simp
    obtain D0 Dp where o: "mat_ok rg dimM (Suc Dbar) (E (pID p))" "map_of D (pID p) = Some Dp"
      "MatrixMatrixMul rg A (pR p) (InitializeMatrix rg dimM (Suc Dbar)) = Inr D0" "MatrixAdd rg (E (pID p)) D0 D0 = Inr Dp"
      "mat_ok rg dimN (Suc Dbar) (pR p)"
      using bspec[OF D mem'] bspec[OF runs mem'] by (auto simp: signer_ok_def)
    show ?thesis using commitment_slot[OF A o(5,1,3,4)] o(2) ik by (simp add: y Dm_def R_def)
  qed
  have dpos: "0 < dimM" by (simp add: dimM_def)
  have DS: "mat_ok rg dimM (Suc Dbar) DSum \<and> (\<forall>i < dimM. \<forall>l < Suc Dbar. \<forall>k < rN rg.
    pcoef (DSum ! i ! l) k = (pcoef (InitializeMatrix rg dimM (Suc Dbar) ! i ! l) k + (\<Sum>j\<leftarrow>map ?id rs. pcoef (Dm j ! i ! l) k)) mod ?q)"
    by (rule sum_D_slot[OF mat_ok_InitializeMatrix _ dpos zero_less_Suc DSum[unfolded Suc_eq_plus1[symmetric]]]) (use Dp in auto)
  note b = conjunct1[OF public_key_slot[OF A s]]
  have bik: "pcoef (b ! i) k mod ?q = ((\<Sum>j<dimN. pcoef (A ! i ! j) k * pcoef (s ! j) k) * ?v + pcoef (e ! i) k) mod ?q"
    using public_key_slot[OF A s] ik by simp
  have alg: "(\<Sum>j<dimN. pcoef (A ! i ! j) k * pcoef (zsum ! j) k) * ?v mod ?q
    = ((\<Sum>l<Suc Dbar. pcoef (DSum ! i ! l) k * pcoef (?u ! l) k) * ?v - (\<Sum>x\<leftarrow>rs. (\<Sum>l<Suc Dbar. pcoef (E (?id x) ! i ! l) k * pcoef (?u ! l) k) * ?v)
      + pcoef (b ! i) k * pcoef ?c k * ?v - pcoef (e ! i) k * pcoef ?c k * ?v) mod ?q"
  proof (rule signing_algebra[OF z _ _ _ bik])
    fix x l assume "x \<in> set rs" "l < Suc Dbar"
    then show "pcoef (Dm (?id x) ! i ! l) k mod ?q = (pcoef (E (?id x) ! i ! l) k + (\<Sum>j<dimN. pcoef (A ! i ! j) k * R x j l) * ?v) mod ?q"
      using Dp by blast
  next
    fix l assume "l < Suc Dbar"
    then show "pcoef (DSum ! i ! l) k mod ?q = (\<Sum>x\<leftarrow>rs. pcoef (Dm (?id x) ! i ! l) k) mod ?q"
      using DS ik by (simp add: InitializeMatrix_def comp_def del: replicate_Suc)
  next
    fix j assume "j < dimN"
    then show "(\<Sum>x\<leftarrow>rs. S x j) mod ?q = pcoef (s ! j) k mod ?q"
      using share ik(2) pcoef_mod[OF vec_ok_nth[OF s(1)]] by (simp add: S_def case_prod_unfold)
  qed
  have E: "(\<Sum>E'\<leftarrow>map (\<lambda>(p, p', z). E (pID p)) rs. pcoef (row_mul rg (E' ! i) ?u (rNewPoly rg)) k) mod ?q
      = (\<Sum>x\<leftarrow>rs. (\<Sum>l<Suc Dbar. pcoef (E (?id x) ! i ! l) k * pcoef (?u ! l) k) * ?v) mod ?q"
    unfolding case_prod_unfold map_map comp_def
  proof (rule sum_list_cong_mod)
    fix x assume "x \<in> set rs"
    then have "mat_ok rg dimM (Suc Dbar) (E (pID (fst x)))" using D by auto
    from pcoef_row_mul[OF mat_ok_nth[OF this ik(1)] u ik(2)]
    show "pcoef (row_mul rg (E (pID (fst x)) ! i) ?u (rNewPoly rg)) k mod ?q
        = (\<Sum>l<Suc Dbar. pcoef (E (pID (fst x)) ! i ! l) k * pcoef (?u ! l) k) * ?v mod ?q" by simp
  qed
  have "pcoef (row_mul rg (A ! i) zsum (rNewPoly rg)) k mod ?q = (\<Sum>j<dimN. pcoef (A ! i ! j) k * pcoef (zsum ! j) k) * ?v mod ?q"
    unfolding pcoef_row_mul[OF mat_ok_nth[OF A ik(1)] zs ik(2)] by simp
  have row: "pcoef (row_mul rg (A ! i) zsum (rNewPoly rg)) k = (\<Sum>j<dimN. pcoef (A ! i ! j) k * pcoef (zsum ! j) k) * ?v mod ?q"
    "pcoef (row_mul rg (DSum ! i) ?u (rNewPoly rg)) k = (\<Sum>l<Suc Dbar. pcoef (DSum ! i ! l) k * pcoef (?u ! l) k) * ?v mod ?q"
    "pcoef (rMulCoeffsMontgomery rg (b ! i) ?c) k = pcoef (b ! i) k * pcoef ?c k * ?v mod ?q"
    "pcoef (rMulCoeffsMontgomery rg (e ! i) ?c) k = pcoef (e ! i) k * pcoef ?c k * ?v mod ?q"
    by (rule pcoef_row_mul[OF mat_ok_nth[OF A ik(1)] zs ik(2)] pcoef_row_mul[OF mat_ok_nth[OF conjunct1[OF DS] ik(1)] u ik(2)]
        pcoef_Mul[OF vec_ok_nth[OF b ik(1)] c ik(2)] pcoef_Mul[OF vec_ok_nth[OF s(2) ik(1)] c ik(2)])+
  show "pcoef (row_mul rg (A ! i) zsum (rNewPoly rg)) k = (pcoef (row_mul rg (DSum ! i) ?u (rNewPoly rg)) k
     - (\<Sum>E'\<leftarrow>map (\<lambda>(p, p', z). E (pID p)) rs. pcoef (row_mul rg (E' ! i) ?u (rNewPoly rg)) k)
     + pcoef (rMulCoeffsMontgomery rg (b ! i) ?c) k - pcoef (rMulCoeffsMontgomery rg (e ! i) ?c) k) mod rModulus rg"
    unfolding row alg by (intro mod_diff_cong mod_add_cong refl) (simp_all only: E mod_mod_trivial)
qed

end

section \<open>The signing equation\<close>

text \<open>
  C5: the signing equation. Let every signer of the set have run round 2 in the same session on the
  sum \<open>D\<close> of the commitments \<open>D_i = A R_i + E_i\<close> of round 1, let \<open>b = A s + e\<close> be the public
  vector before it was rounded and let the shares, scaled by their Lagrange coefficients, add
  up to the secret \<open>s\<close>. Then all signers use the same \<open>u\<close> and the same challenge \<open>c\<close>, and the
  response the combiner adds up satisfies \<open>A z = D u + b c - (sum of the E_i u + e c)\<close> in every
  coefficient: \<open>A z - b c\<close> differs from the commitment \<open>D u\<close>, which was rounded and hashed, by
  the error terms alone.
\<close>

theorem signing_equation:
  assumes "lattice_ring rg" "sampling_ok (envSampling en) rg"
    and "\<forall>(p, p', z) \<in> set rs. signer_ok rg p \<and> pSuite p = su \<and> pSeed p = seeds \<and> pRingNu p = rnu \<and>
      SignRound2 en p A bT DSum sid mu (map (\<lambda>(p, p', z). pID p) rs) key h = Inr (p', z)"
    and "pRing comb = rg" "SignFinalize comb (map (\<lambda>(p, p', z). (pID p, z)) rs) A bT = Inr (c, zsum, Delta)"
    and "mat_ok rg dimM dimN A"
    and "\<forall>(p, p', z) \<in> set rs. mat_ok rg dimM (Suc Dbar) (E (pID p)) \<and> (\<exists>D0 Dp. map_of D (pID p) = Some Dp \<and>
      MatrixMatrixMul rg A (pR p) (InitializeMatrix rg dimM (Dbar + 1)) = Inr D0 \<and> MatrixAdd rg (E (pID p)) D0 D0 = Inr Dp)"
    and "sum_D rg D (InitializeMatrix rg dimM (Dbar + 1)) (map (\<lambda>(p, p', z). pID p) rs) = Inr (Some DSum)"
    and "vec_ok rg dimN s" "vec_ok rg dimM e" "MatrixVectorMul rg A s (InitializeVector rg dimM) = Inr b0" "VectorAdd rg b0 e b0 = Inr b"
    and "\<forall>j < dimN. \<forall>k < rN rg. (\<Sum>(p, p', z)\<leftarrow>rs. pcoef (rMulCoeffsMontgomery rg (pSkShare p ! j) (pLambda p)) k) mod rModulus rg
      = pcoef (s ! j) k"
    and "rs \<noteq> []"
  shows "\<exists>u ch. (\<forall>(p, p', z) \<in> set rs. round2_u en p h mu = u \<and> pC p' = ch) \<and>
    signing_eq rg A zsum DSum u (map (\<lambda>(p, p', z). E (pID p)) rs) b e ch"
proof -
  obtain p0 p0' z0 where x: "(p0, p0', z0) \<in> set rs" using assms(14) by (cases rs) auto
  have same: "\<forall>(p, p', z) \<in> set rs. round2_u en p h mu = round2_u en p0 h mu \<and> pC p' = pC p0'"
  proof (intro ballI, clarify)
    fix p p' z assume y: "(p, p', z) \<in> set rs"
    show "round2_u en p h mu = round2_u en p0 h mu \<and> pC p' = pC p0'"
      using bspec[OF assms(3) y] bspec[OF assms(3) x]
        signers_agree[of en p A bT DSum sid mu "map (\<lambda>(p, p', z). pID p) rs" key h p' z p0 sid "map (\<lambda>(p, p', z). pID p) rs" key p0' z0]
      by (auto simp: signer_ok_def)
  qed
  show ?thesis
    by (rule exI[of _ "round2_u en p0 h mu"], rule exI[of _ "pC p0'"], rule conjI[OF same])
       (rule lattice_ring.signing_equation_core[OF assms(1-13) x])
qed

lemma zero_mat:
  assumes "mat_ok ex8 m n M" "\<forall>i < m. \<forall>j < n. \<forall>k < rN ex8. pcoef (M ! i ! j) k = 0"
  shows "M = replicate m (replicate n (rNewPoly ex8))"
proof (rule nth_equalityI)
  show "length M = length (replicate m (replicate n (rNewPoly ex8)))" using assms(1) by (simp add: mat_ok_def)
  fix i assume "i < length M"
  then have i: "i < m" using assms(1) by (simp add: mat_ok_def)
  note row = mat_ok_nth[OF assms(1) i]
  have "M ! i ! j = rNewPoly ex8" if "j < n" for j
    by (rule pvalid_eqI[OF vec_ok_nth[OF row that] ex8.valid_NewPoly]) (use assms(2) i that in simp)
  then show "M ! i = replicate m (replicate n (rNewPoly ex8)) ! i"
    using row i by (auto simp: vec_ok_def intro: nth_equalityI)
qed

abbreviation ex8_D :: matrix where "ex8_D \<equiv> replicate dimM (replicate (Suc Dbar) (rNewPoly (slot_ring 8)))"

lemma ex8_pos: "0 < dimM" "0 < dimN"
  by (simp_all add: dimM_def dimN_def)

lemma ex8_add: "MatrixAdd ex8 ex8_D ex8_D ex8_D = Inr ex8_D"
proof -
  obtain S where S: "MatrixAdd ex8 ex8_D ex8_D ex8_D = Inr S"
    using MatrixAdd_shape[of ex8_D "Suc Dbar" ex8_D ex8] by (auto simp del: replicate_Suc)
  note m = ex8.MatrixAdd_slot[OF mat_ok_zero mat_ok_zero ex8_pos(1) zero_less_Suc S]
  have "S = ex8_D" by (rule zero_mat) (use m in \<open>simp_all del: replicate_Suc\<close>)
  then show ?thesis using S by simp
qed

lemma ex8_mul: "MatrixMatrixMul ex8 ex8_A (replicate dimN (replicate (Suc Dbar) (rNewPoly ex8))) (InitializeMatrix ex8 dimM (Suc Dbar)) = Inr ex8_D"
proof -
  let ?R = "replicate dimN (replicate (Suc Dbar) (rNewPoly ex8))"
  obtain S where S: "MatrixMatrixMul ex8 ex8_A ?R (InitializeMatrix ex8 dimM (Suc Dbar)) = Inr S"
    using MatrixMatrixMul_shape[of ex8_A ?R "Suc Dbar" ex8] by (auto simp del: replicate_Suc)
  note m = ex8.MatrixMatrixMul_slot[OF mat_ok_zero mat_ok_zero ex8_pos zero_less_Suc S]
  have "S = ex8_D" by (rule zero_mat) (use m in \<open>simp_all del: replicate_Suc\<close>)
  then show ?thesis using S by simp
qed

lemma ex8_sum: "sum_D ex8 [(0, ex8_D), (1, ex8_D)] (InitializeMatrix ex8 dimM (Suc Dbar)) [0, 1] = Inr (Some ex8_D)"
  by (simp add: InitializeMatrix_def ex8_add del: replicate_Suc)

lemma ex8_public: "MatrixVectorMul ex8 ex8_A (replicate dimN (rNewPoly ex8)) (InitializeVector ex8 dimM) = Inr ex8_b"
    "VectorAdd ex8 ex8_b ex8_b ex8_b = Inr ex8_b"
proof -
  have v: "vec_ok ex8 n (replicate n (rNewPoly ex8))" for n by (rule vec_ok_replicate[OF ex8.valid_NewPoly])
  show "MatrixVectorMul ex8 ex8_A (replicate dimN (rNewPoly ex8)) (InitializeVector ex8 dimM) = Inr ex8_b"
    unfolding ex8.MatrixVectorMul_ok(1)[OF mat_ok_zero v ex8.vec_ok_InitializeVector]
    using v[of dimN] by (simp add: InitializeVector_def zip_replicate ex8.row_mul_zero vec_ok_def)
  have "rAdd ex8 (rNewPoly ex8) (rNewPoly ex8) = rNewPoly ex8"
    by (rule pvalid_eqI[OF ex8.valid_Add[OF ex8.valid_NewPoly ex8.valid_NewPoly] ex8.valid_NewPoly])
       (simp add: ex8.pcoef_Add[OF ex8.valid_NewPoly ex8.valid_NewPoly])
  then show "VectorAdd ex8 ex8_b ex8_b ex8_b = Inr ex8_b"
    using ex8.VectorAdd_ok(1)[OF v v, of ex8_b dimM] by (simp add: zip_replicate)
qed

theorem signing_equation_witness:
  "\<exists>p0 z0 p1 z1 zsum Delta u ch.
    SignRound2 ex8_env (ex8_signer 0) ex8_A ex8_b ex8_D 1 ''m'' [0, 1] [9] [7] = Inr (p0, z0) \<and>
    SignRound2 ex8_env (ex8_signer 1) ex8_A ex8_b ex8_D 1 ''m'' [0, 1] [9] [7] = Inr (p1, z1) \<and>
    SignFinalize (ex8_comb [replicate 8 0]) [(0, z0), (1, z1)] ex8_A ex8_b = Inr ([replicate 8 0], zsum, Delta) \<and>
    signing_eq ex8 ex8_A zsum ex8_D u [ex8_D, ex8_D] ex8_b ex8_b ch"
proof -
  obtain p0 z0 where 0: "SignRound2 ex8_env (ex8_signer 0) ex8_A ex8_b ex8_D 1 ''m'' [0, 1] [9] [7] = Inr (p0, z0)" using ex8_round2 by blast
  obtain p1 z1 where 1: "SignRound2 ex8_env (ex8_signer 1) ex8_A ex8_b ex8_D 1 ''m'' [0, 1] [9] [7] = Inr (p1, z1)" using ex8_round2 by blast
  have ok: "vec_ok ex8 dimN z" if "SignRound2 ex8_env (ex8_signer i) ex8_A ex8_b ex8_D 1 ''m'' [0, 1] [9] [7] = Inr (p, z)" for i p z
    using ex8.SignRound2_vec_ok[OF ex8_sampling_ok ex8_signer_ok that] .
  have "\<forall>x \<in> set [(0 :: int, z0), (1, z1)]. vec_ok ex8 dimN (snd x)" using ok[OF 0] ok[OF 1] by simp
  then obtain z Delta where f: "SignFinalize (ex8_comb [replicate 8 0]) [(0, z0), (1, z1)] ex8_A ex8_b = Inr ([replicate 8 0], z, Delta)"
    using ex8_finalize[of "[replicate 8 0]" "[(0, z0), (1, z1)]"] by (auto simp: pvalid_def)
  have v: "vec_ok ex8 n (replicate n (rNewPoly ex8))" for n by (rule vec_ok_replicate[OF ex8.valid_NewPoly])
  have R: "pR (ex8_signer i) = replicate dimN (replicate (Suc Dbar) (rNewPoly ex8))" "pSkShare (ex8_signer i) = replicate dimN (rNewPoly ex8)"
    "pLambda (ex8_signer i) = rNewPoly ex8" for i
    by (simp_all add: ex8_signer_def NewParty_def NewPartyWithSuite_def del: replicate_Suc)
  let ?rs = "[(ex8_signer 0, p0, z0), (ex8_signer 1, p1, z1)]"
  have "\<exists>u ch. (\<forall>(p, p', z) \<in> set ?rs. round2_u ex8_env p [7] ''m'' = u \<and> pC p' = ch) \<and>
      signing_eq ex8 ex8_A z ex8_D u (map (\<lambda>(p, p', z). ex8_D) ?rs) ex8_b ex8_b ch"
    by (rule signing_equation[OF ex8.lattice_ring_axioms ex8_sampling_ok, of ?rs
          "Some (Default ex_xof)" "[(0, [[1], [2]]), (1, [[3], [4]])]" ex8nu ex8_A ex8_b ex8_D 1 "''m''" "[9]" "[7]" "ex8_comb [replicate 8 0]"
          "[replicate 8 0]" z Delta "\<lambda>_. ex8_D" "[(0, ex8_D), (1, ex8_D)]" "replicate dimN (rNewPoly ex8)" ex8_b ex8_b])
       (use 0 1 f ex8_signer_ok mat_ok_zero v ex8_mul ex8_add ex8_sum ex8_public ex8.Mul_zero[OF ex8.valid_NewPoly]
         in \<open>simp_all add: R del: replicate_Suc\<close>)
  then show ?thesis using 0 1 f by auto
qed

end
