(* ===== verification/Local_Run.thy ===== *)
theory Local_Run
  imports Threshold_Signer Signing_Equation
begin

text \<open>
  \<^verbatim>\<open>sign/local.go\<close>: the whole protocol in one process. A dealer generates the keys, every party
  runs both rounds, party 0 combines and the result is verified. Timing and its statistics are
  left out.
\<close>

section \<open>One run\<close>

definition local_party ::
  "'s env \<Rightarrow> ring_ops \<Rightarrow> ring_ops \<Rightarrow> ring_ops \<Rightarrow> (nat \<Rightarrow> bytes) \<Rightarrow> shares \<Rightarrow> (int, bytes list) gomap \<Rightarrow> mac_table \<Rightarrow> nat \<Rightarrow> Party" where
  "local_party en r r_xi r_nu rnd skShares seeds MACKeys i =
     (NewParty (envXof en) (rnd i) (int i) r r_xi r_nu)
       \<lparr> pSkShare := gomap_at skShares (int i), pSeed := seeds, pMACKeys := gomap_at MACKeys (int i) \<rparr>"

text \<open>A pass of the two loops reads and writes the entries of its own party only, so each
  loop is a \<open>mapM\<close> over the parties; the first error ends the run.\<close>

definition local_round1 ::
  "'s env \<Rightarrow> matrix \<Rightarrow> vec \<Rightarrow> (int, bytes list) gomap \<Rightarrow> bytes \<Rightarrow> int list \<Rightarrow> Party \<Rightarrow> (Party \<times> matrix \<times> (int, bytes) gomap) res" where
  "local_round1 en A lagrangeCoeffs seeds PRFKey T p =
     (let i = nat (pID p); r = pRing p in
      if length lagrangeCoeffs \<le> i then Inl Panic
      else case SignRound1 en [] (p \<lparr> pLambda := rMForm r (rNTT r (lagrangeCoeffs ! i)), pSeed := seeds \<rparr>) A 1 PRFKey T of
        (p', res) \<Rightarrow> rbind res (\<lambda>(D, MACs). Inr (p', D, MACs)))"

definition local_round2 ::
  "'s env \<Rightarrow> matrix \<Rightarrow> vec \<Rightarrow> (int, matrix) gomap \<Rightarrow> mac_table \<Rightarrow> bytes \<Rightarrow> int list \<Rightarrow> string \<Rightarrow> Party \<Rightarrow> (Party \<times> vec) res" where
  "local_round2 en A b D MACs PRFKey T mu p =
     rbind (SignRound2Preprocess en p A b D MACs 1 T) (\<lambda>r.
     (case r of None \<Rightarrow> Inl (ErrMsg ''MAC did not verify'')
      | Some (DSum, hash) \<Rightarrow> SignRound2 en p A b DSum 1 mu T PRFKey hash))"

text \<open>The errors of \<^verbatim>\<open>ring.NewRing\<close> are dropped. \<open>rnd i\<close> is what the system source hands to
  party \<open>i\<close>, \<open>ord\<close> the iteration order of the map of responses. The result is the boolean the
  run prints.\<close>

definition local_once ::
  "'s env \<Rightarrow> (u64 \<Rightarrow> bool) \<Rightarrow> (u64 list \<Rightarrow> u64 \<Rightarrow> u64 list res) \<Rightarrow> ring_maker \<Rightarrow> ((int, vec) gomap \<Rightarrow> (int, vec) gomap) \<Rightarrow>
   int \<Rightarrow> int \<Rightarrow> (nat \<Rightarrow> bytes) \<Rightarrow> bool res" where
  "local_once en isPrime lagr newRing ord K Threshold rnd =
     (if K < 0 then Inl Panic
      else let r = fst (newRing (2 ^ LogN) corona_q); r_xi = fst (newRing (2 ^ LogN) QXi); r_nu = fst (newRing (2 ^ LogN) QNu);
          sm = envSampling en; randomKey = replicate KeySize 0;
          uniformSampler = NewUniformSampler sm r (NewKeyedPRNG sm randomKey);
          T = map int [0..<nat K]; mu = ''Message'' in
      rbind (ComputeLagrangeCoefficients isPrime lagr r T corona_q) (\<lambda>lagrangeCoeffs.
      rbind (Gen_state en K Threshold r r_xi uniformSampler randomKey lagrangeCoeffs) (\<lambda>(A, skShares, seeds, MACKeys, b, st).
      rbind (GenerateRandomSeed st) (\<lambda>(PRFKey, _).
      rbind (mapM (local_round1 en A lagrangeCoeffs seeds PRFKey T)
               (map (local_party en r r_xi r_nu rnd skShares seeds MACKeys) [0..<nat K])) (\<lambda>r1.
      let D = map (\<lambda>(p, D, M). (pID p, D)) r1; MACs = map (\<lambda>(p, D, M). (pID p, M)) r1 in
      rbind (mapM (local_round2 en A b D MACs PRFKey T mu) (map fst r1)) (\<lambda>r2.
      (case r2 of [] \<Rightarrow> Inl Panic
       | (finalParty, _) # _ \<Rightarrow>
           rbind (SignFinalize finalParty (ord (map (\<lambda>(p, z). (pID p, z)) r2)) A b) (\<lambda>(_, sig, Delta).
           Verify en r r_xi r_nu sig A mu b (pC finalParty) Delta))))))))"

text \<open>\<^verbatim>\<open>LocalRun\<close>: the results of \<open>x\<close> runs, up to the first that fails; \<^verbatim>\<open>main\<close> starts it
  with as many parties as the threshold.\<close>

definition LocalRun ::
  "'s env \<Rightarrow> (u64 \<Rightarrow> bool) \<Rightarrow> (u64 list \<Rightarrow> u64 \<Rightarrow> u64 list res) \<Rightarrow> ring_maker \<Rightarrow> ((int, vec) gomap \<Rightarrow> (int, vec) gomap) \<Rightarrow>
   int \<Rightarrow> int \<Rightarrow> (nat \<Rightarrow> nat \<Rightarrow> bytes) \<Rightarrow> int \<Rightarrow> bool list res" where
  "LocalRun en isPrime lagr newRing ord K Threshold rnds x =
     mapM (\<lambda>run. local_once en isPrime lagr newRing ord K Threshold (rnds run)) [0..<nat x]"

definition main_local ::
  "'s env \<Rightarrow> (u64 \<Rightarrow> bool) \<Rightarrow> (u64 list \<Rightarrow> u64 \<Rightarrow> u64 list res) \<Rightarrow> ring_maker \<Rightarrow> ((int, vec) gomap \<Rightarrow> (int, vec) gomap) \<Rightarrow>
   (nat \<Rightarrow> nat \<Rightarrow> bytes) \<Rightarrow> int \<Rightarrow> int \<Rightarrow> bool list res" where
  "main_local en isPrime lagr newRing ord rnds iters parties = LocalRun en isPrime lagr newRing ord parties parties rnds iters"

section \<open>Key generation returns\<close>

lemma shamir_full_coord_total:
  assumes q: "0 < q" and k: "1 \<le> k" and lam: "nat k \<le> length lambdas" "\<forall>l \<in> set lambdas. l \<noteq> [] \<and> hd l \<noteq> []"
    and inv: "ModInverse (uint (hd (hd (lambdas ! (nat k - 1))))) q \<noteq> None"
    and left: "(k - 1) * int (byte_len q) \<le> rand_left st"
  shows "\<exists>ys st'. shamir_full_coord q lambdas k c st = Inr (ys, st') \<and> rand_left st' = rand_left st - (k - 1) * int (byte_len q)"
proof -
  have rep: "\<exists>rs st'. repM (\<lambda>st. GetRandomInt st q) n st = Inr (rs, st') \<and> rand_left st' = rand_left st - int n * int (byte_len q)"
    if "int n * int (byte_len q) \<le> rand_left st" for n st
    using that
  proof (induction n arbitrary: st)
    case (Suc n)
    have e: "int (Suc n) * int (byte_len q) = int (byte_len q) + int n * int (byte_len q)" by (simp add: algebra_simps)
    have "0 \<le> int n * int (byte_len q)" by simp
    then have b: "int (byte_len q) \<le> rand_left st" using Suc.prems e by linarith
    obtain b st1 where s: "GetRandomBytes st (int (byte_len q)) = Inr (b, st1)" "rand_left st1 = rand_left st - int (byte_len q)"
      using GetRandomBytes_left[OF b] by blast
    then have "GetRandomInt st q = Inr (int (be_val b) mod q, st1)" using q by (simp add: GetRandomInt_def)
    moreover have "int n * int (byte_len q) \<le> rand_left st1" using s(2) Suc.prems e by linarith
    then obtain rs st' where "repM (\<lambda>st. GetRandomInt st q) n st1 = Inr (rs, st')"
      "rand_left st' = rand_left st1 - int n * int (byte_len q)" using Suc.IH by blast
    ultimately show ?case using s(2) e by simp
  qed simp
  have n: "int (nat k - 1) = k - 1" using k by simp
  obtain rs st' where r: "repM (\<lambda>st. GetRandomInt st q) (nat k - 1) st = Inr (rs, st')"
    "rand_left st' = rand_left st - (k - 1) * int (byte_len q)"
    using rep[of "nat k - 1" st] left n by metis
  have ok: "\<not> (\<exists>i < nat k. lambdas ! i = [] \<or> hd (lambdas ! i) = [])" using lam by auto
  obtain li where "ModInverse (uint (hd (hd (lambdas ! (nat k - 1))))) q = Some li" using inv by blast
  then show ?thesis using r k lam(1) ok by (simp add: shamir_full_coord_def Let_def)
qed

lemma mapSt_left:
  assumes "\<And>x st. x \<in> set xs \<Longrightarrow> c \<le> rand_left st \<Longrightarrow> \<exists>y st'. f x st = Inr (y, st') \<and> rand_left st' = rand_left st - c"
    and "0 \<le> c" "int (length xs) * c \<le> rand_left st"
  shows "\<exists>ys st'. mapSt f xs st = Inr (ys, st') \<and> rand_left st' = rand_left st - int (length xs) * c"
  using assms
proof (induction xs arbitrary: st)
  case (Cons x xs)
  have e: "int (length (x # xs)) * c = c + int (length xs) * c" by (simp add: algebra_simps)
  have "0 \<le> int (length xs) * c" using Cons.prems(2) by simp
  then have "c \<le> rand_left st" using Cons.prems(3) e by linarith
  then obtain y st1 where s: "f x st = Inr (y, st1)" "rand_left st1 = rand_left st - c" using Cons.prems(1)[of x st] by auto
  have "int (length xs) * c \<le> rand_left st1" using s(2) Cons.prems(3) e by linarith
  then obtain ys st' where "mapSt f xs st1 = Inr (ys, st')" "rand_left st' = rand_left st1 - int (length xs) * c"
    using Cons.IH[of st1] Cons.prems(1,2) by auto
  then show ?case using s e by simp
qed simp

text \<open>Coefficients for sharing among the first \<open>t\<close> parties: the dealer divides by the last of these.\<close>

definition lambdas_ok :: "ring_ops \<Rightarrow> nat \<Rightarrow> vec \<Rightarrow> bool" where
  "lambdas_ok rg t lambdas \<longleftrightarrow> t \<le> length lambdas \<and> (\<forall>l \<in> set lambdas. l \<noteq> [] \<and> hd l \<noteq> []) \<and>
     ModInverse (uint (hd (hd (lambdas ! (t - 1))))) (rModulus rg) \<noteq> None"

lemma ShamirSecretSharing_total:
  assumes cr: "coeff_ring rg" and s: "vvalid rg s" and n: "1 \<le> n" and lam: "lambdas_ok rg n lambdas"
    and left: "int (length s) * (int (rN rg) * ((int n - 1) * int (byte_len (rModulus rg)))) \<le> rand_left st"
  shows "\<exists>sh st'. ShamirSecretSharing rg s (int n) lambdas st = Inr (sh, st') \<and>
    rand_left st' = rand_left st - int (length s) * (int (rN rg) * ((int n - 1) * int (byte_len (rModulus rg))))"
proof -
  let ?c = "(int n - 1) * int (byte_len (rModulus rg))"
  have q: "0 < rModulus rg" using coeff_ring.modulus(1)[OF cr] by simp
  have c: "0 \<le> ?c" using n by simp
  have coord: "\<exists>ys st'. shamir_full_coord (rModulus rg) lambdas (int n) x st = Inr (ys, st') \<and> rand_left st' = rand_left st - ?c"
    if "?c \<le> rand_left st" for x st
    by (rule shamir_full_coord_total[OF q]) (use n lam that in \<open>simp_all add: lambdas_ok_def\<close>)
  have "\<exists>ys st'. mapSt (shamir_full_coord (rModulus rg) lambdas (int n)) (rPolyToBigint rg p) st = Inr (ys, st') \<and>
      rand_left st' = rand_left st - int (rN rg) * ?c" if p: "p \<in> set s" and l: "int (rN rg) * ?c \<le> rand_left st" for p st
  proof -
    have len: "length (rPolyToBigint rg p) = rN rg" using coeff_ring.PolyToBigint[OF cr] s p by (simp add: vvalid_def)
    show ?thesis
      using mapSt_left[of "rPolyToBigint rg p" ?c "shamir_full_coord (rModulus rg) lambdas (int n)" st, OF coord c] l unfolding len by blast
  qed
  from mapSt_left[of s "int (rN rg) * ?c" "\<lambda>p. mapSt (shamir_full_coord (rModulus rg) lambdas (int n)) (rPolyToBigint rg p)" st, OF this] c left
  show ?thesis by (force simp: ShamirSecretSharing_def)
qed

text \<open>The matrix, the secret and the error the dealer draws: the matrix from the uniform sampler, the
  secret and then the error from one Gaussian sampler keyed by the dealer's key.\<close>

definition dealer_matrix :: "'s env \<Rightarrow> ring_ops \<Rightarrow> 's \<Rightarrow> matrix" where
  "dealer_matrix en rg us = fst (SamplePolyMatrix rg dimM dimN (uniformRead (envSampling en)) True True us)"

definition dealer_draw :: "'s env \<Rightarrow> ring_ops \<Rightarrow> bytes \<Rightarrow> vec \<times> 's" where
  "dealer_draw en rg key = (let sm = envSampling en in
     SamplePolyVector rg dimN (gaussRead sm) False False (NewGaussianSampler sm rg GaussE (NewKeyedPRNG sm key)))"

definition dealer_secret :: "'s env \<Rightarrow> ring_ops \<Rightarrow> bytes \<Rightarrow> vec" where
  "dealer_secret en rg key = fst (dealer_draw en rg key)"

definition dealer_error :: "'s env \<Rightarrow> ring_ops \<Rightarrow> bytes \<Rightarrow> vec" where
  "dealer_error en rg key =
     fst (SamplePolyVector rg dimM (gaussRead (envSampling en)) True True (snd (dealer_draw en rg key)))"

text \<open>What a run of \<^verbatim>\<open>Gen\<close> with \<open>n\<close> parties and threshold \<open>t\<close> leaves behind.\<close>

definition gen_result ::
  "ring_ops \<Rightarrow> ring_ops \<Rightarrow> nat \<Rightarrow> nat \<Rightarrow> vec \<Rightarrow> matrix \<times> shares \<times> (int, bytes list) gomap \<times> mac_table \<times> vec \<times> rand_state \<Rightarrow> vec \<Rightarrow> vec \<Rightarrow> vec \<Rightarrow> bool" where
  "gen_result rg rx n t lambdas = (\<lambda>(A, sks, seeds, mk, bT, st) s e b.
     mat_ok rg dimM dimN A \<and> vec_ok rg dimN s \<and> vec_ok rg dimM e \<and> vec_ok rg dimM b \<and>
     (\<exists>b0. MatrixVectorMul rg A (ConvertVectorToNTT rg s) (InitializeVector rg dimM) = Inr b0 \<and> VectorAdd rg b0 e b0 = Inr b) \<and>
     RoundVector rx (ConvertVectorFromNTT rg b) Xi = Inr bT \<and> 16 * int n * (int n - 1) \<le> rand_left st \<and>
     (\<exists>sh st0 st1. ShamirSecretSharing rg s (int t) lambdas st0 = Inr (sh, st1) \<and>
        sks = map (\<lambda>(i, v). (i, ConvertVectorToNTT rg v)) sh \<and> gen_tables n st1 = Inr (seeds, mk, st) \<and>
        rand_left st1 = 32 * int n * int n + 32 * int n * (int n - 1) + int dimN * int (rN rg) * (int n - int t) * int (byte_len (rModulus rg))))"

context lattice_ring
begin

lemma SamplePolyMatrix_ok:
  "\<forall>st. pvalid (rModulus rg) (rN rg) (fst (smp st)) \<Longrightarrow> mat_ok rg m n (fst (SamplePolyMatrix rg m n smp ntt mont st))"
proof (induction m arbitrary: st)
  case (Suc m)
  then show ?case using SamplePolyVector_ok[OF Suc.prems, of n ntt mont]
    by (auto simp: mat_ok_def split: prod.splits) (metis fst_conv)+
qed (simp add: mat_ok_def)

lemma round1_nonces_ok:
  assumes "sampling_ok (envSampling en) rg" "round1_nonces en rg sk = (R, E)"
  shows "mat_ok rg dimN (Suc Dbar) R \<and> mat_ok rg dimM (Suc Dbar) E"
proof -
  let ?sm = "envSampling en"
  obtain r_star g1 e_star g2 R_i h1 E_i h2 where
    s: "SamplePolyVector rg dimN (gaussRead ?sm) True True (NewGaussianSampler ?sm rg GaussStar (NewKeyedPRNG ?sm sk)) = (r_star, g1)"
      "SamplePolyVector rg dimM (gaussRead ?sm) True True g1 = (e_star, g2)"
      "SamplePolyMatrix rg dimN Dbar (gaussRead ?sm) True True (NewGaussianSampler ?sm rg GaussE (gaussPRNG ?sm g2)) = (R_i, h1)"
      "SamplePolyMatrix rg dimM Dbar (gaussRead ?sm) True True h1 = (E_i, h2)" by (metis surj_pair)
  have RE: "R = map2 (#) r_star R_i" "E = map2 (#) e_star E_i"
    using assms(2) s by (simp_all add: round1_nonces_def Let_def)
  have g: "\<forall>st. pvalid (rModulus rg) (rN rg) (fst (gaussRead ?sm st))" using assms(1) by (simp add: sampling_ok_def)
  have v: "vec_ok rg dimN r_star" "vec_ok rg dimM e_star" "mat_ok rg dimN Dbar R_i" "mat_ok rg dimM Dbar E_i"
    using SamplePolyVector_ok[OF g] SamplePolyMatrix_ok[OF g] s by (metis fst_conv)+
  have "mat_ok rg m (Suc n) (map2 (#) x M)" if x: "vec_ok rg m x" and M: "mat_ok rg m n M" for m n x M
    unfolding mat_ok_def
  proof (intro conjI ballI)
    show "length (map2 (#) x M) = m" using x M by (simp add: vec_ok_def mat_ok_def)
    fix row assume "row \<in> set (map2 (#) x M)"
    then obtain a as where "row = a # as" "a \<in> set x" "as \<in> set M" by (auto dest: set_zip_leftD set_zip_rightD)
    then show "vec_ok rg (Suc n) row" using x M by (simp add: vec_ok_def mat_ok_def vvalid_def)
  qed
  then show ?thesis using v unfolding RE by blast
qed

lemma Gen_total:
  assumes sm: "sampling_ok (envSampling en) rg" and rx: "coeff_ring rx" "rN rx = rN rg" and t: "1 \<le> t" "t \<le> n"
    and lam: "lambdas_ok rg t lambdas" and b3: "\<And>m. length (blake3 (envXof en) key m) = m"
  shows "\<exists>sks seeds mk bT st b. Gen_state en (int n) (int t) rg rx us key lambdas = Inr (dealer_matrix en rg us, sks, seeds, mk, bT, st) \<and>
    gen_result rg rx n t lambdas (dealer_matrix en rg us, sks, seeds, mk, bT, st) (dealer_secret en rg key) (dealer_error en rg key) b"
proof -
  have n: "1 \<le> n" using t by simp
  let ?sm = "envSampling en" and ?bl = "int (byte_len (rModulus rg))"
  have g: "\<forall>st. pvalid (rModulus rg) (rN rg) (fst (gaussRead ?sm st))" "\<forall>st. pvalid (rModulus rg) (rN rg) (fst (uniformRead ?sm st))"
    using sm by (simp_all add: sampling_ok_def)
  define P where "P = int n * int n * 32 + int (rN rg) * int dimN * (int n - 1) * ?bl + int n * (int n - 1) * 32"
  define st0 where "st0 = \<lparr> PrecomputedRandomness = blake3 (envXof en) key (nat P), RandomnessIndex = 0 \<rparr>"
  have n1: "0 \<le> int n - 1" using n by simp
  have P0: "0 \<le> P" unfolding P_def using n1 by (intro add_nonneg_nonneg mult_nonneg_nonneg) simp_all
  have l0: "rand_left st0 = P" using P0 b3 by (simp add: st0_def rand_left_def)
  obtain A us' where A: "SamplePolyMatrix rg dimM dimN (uniformRead ?sm) True True us = (A, us')" by (metis surj_pair)
  obtain s gs1 where s: "SamplePolyVector rg dimN (gaussRead ?sm) False False (NewGaussianSampler ?sm rg GaussE (NewKeyedPRNG ?sm key)) = (s, gs1)"
    by (metis surj_pair)
  obtain e gs2 where e: "SamplePolyVector rg dimM (gaussRead ?sm) True True gs1 = (e, gs2)" by (metis surj_pair)
  have ok: "mat_ok rg dimM dimN A" "vec_ok rg dimN s" "vec_ok rg dimM e"
    using SamplePolyMatrix_ok[OF g(2)] SamplePolyVector_ok[OF g(1)] A s e by (metis fst_conv)+
  have ls: "length s = dimN" using ok(2) by (simp add: vec_ok_def)
  let ?S = "int (length s) * (int (rN rg) * ((int t - 1) * ?bl))" and ?D = "int dimN * int (rN rg) * (int n - int t) * ?bl"
  have PS: "P = ?S + (32 * int n * int n + 32 * int n * (int n - 1) + ?D)" by (simp add: P_def ls algebra_simps)
  have D0: "0 \<le> ?D" using t by (intro mult_nonneg_nonneg) simp_all
  have "0 \<le> 32 * int n * int n + 32 * int n * (int n - 1)" using n1 by (intro add_nonneg_nonneg mult_nonneg_nonneg) simp_all
  then have "?S \<le> rand_left st0" using l0 PS D0 by linarith
  then obtain sh st1 where sh: "ShamirSecretSharing rg s (int t) lambdas st0 = Inr (sh, st1)" "rand_left st1 = rand_left st0 - ?S"
    using ShamirSecretSharing_total[OF coeff_ring_axioms _ t(1) lam, of s st0] ok(2) unfolding vec_ok_def by blast
  have half: "16 * int n * (int n - 1) \<le> 32 * int n * (int n - 1)" using n1 by (intro mult_right_mono) simp_all
  have l1: "rand_left st1 = 32 * int n * int n + 32 * int n * (int n - 1) + ?D" using sh(2) l0 PS by linarith
  then have "32 * int n * int n + 16 * int n * (int n - 1) \<le> rand_left st1" using half D0 by linarith
  then obtain seeds mk st2 where tb: "gen_tables n st1 = Inr (seeds, mk, st2)"
    "rand_left st1 - (32 * int n * int n + 16 * int n * (int n - 1)) \<le> rand_left st2" using gen_tables_left by blast
  have l2: "16 * int n * (int n - 1) \<le> rand_left st2" using tb(2) l1 D0 by (simp add: algebra_simps)
  have s1: "vec_ok rg dimN (ConvertVectorToNTT rg s)" by (rule ConvertVectorToNTT_ok[OF ok(2)])
  note m = MatrixVectorMul_ok[OF ok(1) s1 vec_ok_InitializeVector]
  obtain b0 where b0: "MatrixVectorMul rg A (ConvertVectorToNTT rg s) (InitializeVector rg dimM) = Inr b0" "vec_ok rg dimM b0"
    using m by blast
  have "length b0 = dimM" using b0(2) by (simp add: vec_ok_def)
  from VectorAdd_ok[OF b0(2) ok(3) this] obtain b where b: "VectorAdd rg b0 e b0 = Inr b" "vec_ok rg dimM b" by blast
  have "shape_ok (rN rx) (ConvertVectorFromNTT rg b)" using vec_ok_shape[OF ConvertVectorFromNTT_ok[OF b(2)]] rx(2) by simp
  from RoundVector_ok[OF rx(1) this, of Xi] obtain bT where bT: "RoundVector rx (ConvertVectorFromNTT rg b) Xi = Inr bT" by blast
  have pre: "PrecomputeRandomness (blake3 (envXof en)) (int n * int n * int KeySize + int (rN rg) * int dimN * (int n - 1) * ?bl + int n * (int n - 1) * int KeySize) key
    = Inr st0"
    using P0 unfolding PrecomputeRandomness_def st0_def P_def KeySize_def by simp
  have "Gen_state en (int n) (int t) rg rx us key lambdas = Inr (A, map (\<lambda>(i, v). (i, ConvertVectorToNTT rg v)) sh, seeds, mk, bT, st2)"
    unfolding Gen_state_def Let_def A s e prod.case pre rbind.simps sh(1) b0(1) b(1) bT nat_int tb(1) ..
  moreover have "gen_result rg rx n t lambdas (A, map (\<lambda>(i, v). (i, ConvertVectorToNTT rg v)) sh, seeds, mk, bT, st2) s e b"
    unfolding gen_result_def prod.case using ok b(2) b0(1) b(1) bT l2 sh(1) tb(1) l1 by blast
  moreover have "dealer_matrix en rg us = A" "dealer_secret en rg key = s" "dealer_error en rg key = e"
    by (simp_all add: dealer_matrix_def dealer_secret_def dealer_error_def dealer_draw_def A s e)
  ultimately show ?thesis by blast
qed

end

section \<open>Property\<close>

text \<open>
  C13: key generation is total and its results have the documented types. Over the signing ring, with
  samplers that fill reduced polynomials, a hash that returns as many bytes as asked for and
  Lagrange coefficients of which the one at \<open>t - 1\<close> is invertible, \<^verbatim>\<open>Gen\<close> returns for any number \<open>n\<close> of parties and
  any threshold \<open>t\<close> up to it: a matrix of 8 by 7 reduced polynomials, one share of 7 reduced polynomials for each
  of the ids \<open>0 .. t - 1\<close>, a row of 32-byte seeds for each party, a symmetric table of 32-byte MAC keys with an
  entry for every two different parties and none on the diagonal, and as public key the
  rounding of \<open>A s + e\<close> for the matrix drawn from the given uniform sampler and the secret and the error
  drawn, in this order, from the Gaussian sampler that the dealer's key starts; both are reduced.
\<close>

theorem gen_well_formed:
  assumes "lattice_ring rg" "sampling_ok (envSampling en) rg" "coeff_ring rx" "rN rx = rN rg" "1 \<le> t" "t \<le> n" "lambdas_ok rg t lambdas"
    and "\<And>m. length (blake3 (envXof en) key m) = m"
  shows "\<exists>A sks seeds mk bT s e b0 b. Gen en (int n) (int t) rg rx us key lambdas = Inr (A, sks, seeds, mk, bT) \<and>
    A = dealer_matrix en rg us \<and> s = ConvertVectorToNTT rg (dealer_secret en rg key) \<and> e = dealer_error en rg key \<and>
    mat_ok rg dimM dimN A \<and> gokeys sks = map int [0..<t] \<and> (\<forall>v \<in> set (map snd sks). vec_ok rg dimN v) \<and>
    seeds_ok n (int ` {0..<n}) seeds \<and> mac_sym mk \<and> (\<forall>i < n. \<forall>j < n. i \<noteq> j \<longrightarrow> mac_get mk (int i) (int j) \<noteq> None) \<and>
    vec_ok rg dimN s \<and> vec_ok rg dimM e \<and> MatrixVectorMul rg A s (InitializeVector rg dimM) = Inr b0 \<and> VectorAdd rg b0 e b0 = Inr b \<and>
    bT = map (\<lambda>p. [map (round_coeff Xi) (hd p)]) (ConvertVectorFromNTT rg b)"
proof -
  define A s e where "A = dealer_matrix en rg us" and "s = dealer_secret en rg key" and "e = dealer_error en rg key"
  obtain sks seeds mk bT st b where gen: "Gen_state en (int n) (int t) rg rx us key lambdas = Inr (A, sks, seeds, mk, bT, st)"
    "gen_result rg rx n t lambdas (A, sks, seeds, mk, bT, st) s e b"
    using lattice_ring.Gen_total[OF assms] unfolding A_def s_def e_def by blast
  obtain b0 sh st0 st1 where G: "mat_ok rg dimM dimN A" "vec_ok rg dimN s" "vec_ok rg dimM e" "vec_ok rg dimM b"
    "MatrixVectorMul rg A (ConvertVectorToNTT rg s) (InitializeVector rg dimM) = Inr b0" "VectorAdd rg b0 e b0 = Inr b"
    "RoundVector rx (ConvertVectorFromNTT rg b) Xi = Inr bT" "ShamirSecretSharing rg s (int t) lambdas st0 = Inr (sh, st1)"
    "sks = map (\<lambda>(i, v). (i, ConvertVectorToNTT rg v)) sh" "gen_tables n st1 = Inr (seeds, mk, st)"
    using gen(2) unfolding gen_result_def prod.case by blast
  have cr: "coeff_ring rg" by (rule lattice_ring.axioms(1)[OF assms(1)])
  have s: "vvalid rg s" "length s = dimN" using G(2) by (simp_all add: vec_ok_def)
  note S = ShamirSecretSharing_spec[OF cr s(1) G(8)]
  have keys: "gokeys sks = map int [0..<t]" using S G(9) by (simp add: case_prod_unfold comp_def)
  have "vec_ok rg dimN v" if "(i, v) \<in> set sh" for i v
  proof -
    have "share_ok (rModulus rg) (rN rg) dimN v" using S that s(2) by (auto simp: shares_ok_def)
    then show ?thesis unfolding share_ok_def vec_ok_def vvalid_def by (metis in_set_conv_nth)
  qed
  then have shares: "\<forall>v \<in> set (map snd sks). vec_ok rg dimN v"
    unfolding G(9) using lattice_ring.ConvertVectorToNTT_ok[OF assms(1)] by auto
  have "shape_ok (rN rx) (ConvertVectorFromNTT rg b)"
    using vec_ok_shape[OF lattice_ring.ConvertVectorFromNTT_ok[OF assms(1) G(4)]] assms(4) by simp
  then have bT: "bT = map (\<lambda>p. [map (round_coeff Xi) (hd p)]) (ConvertVectorFromNTT rg b)"
    using RoundVector_ok[OF assms(3)] G(7) by simp
  have tab: "seeds_ok n (int ` {0..<n}) seeds" "mac_sym mk" "\<forall>i < n. \<forall>j < n. i \<noteq> j \<longrightarrow> mac_get mk (int i) (int j) \<noteq> None"
    using gen_tables_spec[OF G(10)] by auto
  have "Gen en (int n) (int t) rg rx us key lambdas = Inr (A, sks, seeds, mk, bT)" using gen(1) by (simp add: Gen_def)
  then show ?thesis
    using G(1,3,5,6) A_def arg_cong[OF s_def, of "ConvertVectorToNTT rg"] e_def keys shares tab bT lattice_ring.ConvertVectorToNTT_ok[OF assms(1) G(2)]
    by (intro exI[of _ A] exI[of _ sks] exI[of _ seeds] exI[of _ mk] exI[of _ bT] exI[of _ "ConvertVectorToNTT rg s"] exI[of _ e]
        exI[of _ b0] exI[of _ b] conjI) assumption+
qed

theorem gen_well_formed_witness:
  "\<exists>A sks seeds mk bT. Gen ex8_env 3 2 ex8 (coeff_ops 262144 8) 0 [] (replicate 3 [[1, 0, 0, 0, 0, 0, 0, 0]]) = Inr (A, sks, seeds, mk, bT) \<and>
    mat_ok ex8 dimM dimN A \<and> gokeys sks = [0, 1] \<and> mac_get mk 0 2 \<noteq> None \<and> mac_get mk 0 2 = mac_get mk 2 0 \<and> mac_get mk 1 1 = None"
proof -
  let ?lam = "replicate 3 [[1, 0, 0, 0, 0, 0, 0, 0 :: u64]]"
  have c: "coeff_ring (coeff_ops 262144 8)" "rN (coeff_ops 262144 8) = rN ex8" by (simp_all add: coeff_ring_coeff_ops) (simp add: coeff_ops_def)
  have "coprime 1 corona_q" by simp
  then have "ModInverse 1 corona_q \<noteq> None" using ModInverse_exists[of corona_q 1] by (fastforce simp: corona_q_def)
  then have lam: "lambdas_ok ex8 2 ?lam" by (simp add: lambdas_ok_def eval_nat_numeral)
  have two: "[0..<2] = [0, Suc 0]" by (simp add: upt_rec)
  have b3: "\<And>m. length (blake3 (envXof ex8_env) [] m) = m" by (simp add: ex8_env_def ex_env_def ex_xof_def)
  obtain A sks seeds mk bT where g: "Gen ex8_env (int 3) (int 2) ex8 (coeff_ops 262144 8) 0 [] ?lam = Inr (A, sks, seeds, mk, bT)"
    "mat_ok ex8 dimM dimN A" "gokeys sks = map int [0..<2]" "mac_sym mk" "\<forall>i < 3. \<forall>j < 3. i \<noteq> j \<longrightarrow> mac_get mk (int i) (int j) \<noteq> None"
    using gen_well_formed[OF ex8.lattice_ring_axioms ex8_sampling_ok c _ _ lam b3, of 3 0] by auto
  have "mac_get mk (int 0) (int 2) \<noteq> None" using g(5) by (metis less_numeral_extra(3) lessI numeral_2_eq_2 numeral_3_eq_3 zero_less_Suc zero_neq_numeral)
  moreover have "gokeys sks = [0, 1]" using g(3) by (simp add: two)
  ultimately show ?thesis using g(1,2,4) unfolding mac_sym_def by (auto intro!: exI)
qed

end
