(* ===== verification/Local_Session.thy ===== *)
theory Local_Session
  imports Local_Run
begin

text \<open>
  What one run of \<^verbatim>\<open>sign/local.go\<close> does, phase by phase: every party gets through round 1, the
  preprocessing accepts all MACs and stops only at the rank check, and after it all parties hold one
  challenge and the combined response satisfies the signing equation.
\<close>

section \<open>Documented behaviour of the surroundings\<close>

text \<open>Samplers that fill reduced polynomials and a ternary sampler that takes the weight \<open>Kappa\<close>, a
  serialiser that accepts what it is given, a BLAKE3 that returns as many bytes as asked for.\<close>

definition local_env_ok :: "'s env \<Rightarrow> ring_ops \<Rightarrow> bool" where
  "local_env_ok en rg \<longleftrightarrow> sampling_ok (envSampling en) rg \<and>
     (\<forall>prng. \<exists>smp. NewTernarySampler (envSampling en) rg Kappa prng = Inr smp) \<and>
     (\<forall>M. \<exists>b. encMatrix (envCodec en) M = Inr b) \<and> (\<forall>v. \<exists>b. encVector (envCodec en) v = Inr b) \<and>
     (\<forall>key m. length (blake3 (envXof en) key m) = m)"

text \<open>The three rings: the signing ring with a transform in which the constant one is one
  everywhere, and two rounding rings of the same degree.\<close>

definition local_rings :: "ring_maker \<Rightarrow> ring_ops \<Rightarrow> ring_ops \<Rightarrow> ring_ops \<Rightarrow> bool" where
  "local_rings newRing rg rx rn \<longleftrightarrow>
     fst (newRing (2 ^ LogN) corona_q) = rg \<and> fst (newRing (2 ^ LogN) QXi) = rx \<and> fst (newRing (2 ^ LogN) QNu) = rn \<and>
     lattice_ring rg \<and> rModulus rg = corona_q \<and> dimM \<le> rN rg \<and>
     rNTT rg (rSetCoefficientsBigint rg [1]) = pbuild (rModulus rg) (rN rg) (\<lambda>k. 1) \<and>
     coeff_ring rx \<and> rN rx = rN rg \<and> coeff_ring rn \<and> rN rn = rN rg"

text \<open>A session identifier that is not zero, and 32 bytes that are not all zero for every party.\<close>

definition local_rand :: "'s env \<Rightarrow> nat \<Rightarrow> (nat \<Rightarrow> bytes) \<Rightarrow> bool" where
  "local_rand en n rnd \<longleftrightarrow> \<not> isZero32 (DeriveSessionID en (Some (Default (envXof en))) 1 (map int [0..<n])) \<and>
     (\<forall>i < n. \<exists>salt rest. rnd i = salt @ rest \<and> length salt = 32 \<and> \<not> isZero32 salt)"

text \<open>\<^verbatim>\<open>share.Lagrange\<close> answers with one coefficient per point, none of them zero modulo \<open>q\<close>.\<close>

definition local_lagrange :: "(u64 \<Rightarrow> bool) \<Rightarrow> (u64 list \<Rightarrow> u64 \<Rightarrow> u64 list res) \<Rightarrow> nat \<Rightarrow> bool" where
  "local_lagrange isPrime lagr n \<longleftrightarrow> isPrime (word_of_int corona_q) \<and>
     (\<exists>ws. lagr (map (\<lambda>i. word_of_int (int i + 1)) [0..<n]) (word_of_int corona_q) = Inr ws \<and> length ws = n \<and>
        (\<forall>w \<in> set ws. \<not> corona_q dvd uint w))"

section \<open>Lagrange coefficients and shares\<close>

context lattice_ring
begin

lemma const_head: "uint (hd (hd (rSetCoefficientsBigint rg [w]))) = w mod rModulus rg" "rSetCoefficientsBigint rg [w] \<noteq> []"
  "hd (rSetCoefficientsBigint rg [w]) \<noteq> []"
proof -
  have d: "length [w] \<le> rN rg" using degree by simp
  have e: "rSetCoefficientsBigint rg [w] = pbuild (rModulus rg) (rN rg) (\<lambda>k. if k < 1 then w else 0)"
    unfolding SetCoefficientsBigint[OF d] by (intro pbuild_cong) simp
  show "rSetCoefficientsBigint rg [w] \<noteq> []" "hd (rSetCoefficientsBigint rg [w]) \<noteq> []"
    unfolding e using degree by (simp_all add: pbuild_def)
  have "uint (hd (hd (rSetCoefficientsBigint rg [w]))) = pcoef (rSetCoefficientsBigint rg [w]) 0"
    unfolding pcoef_def e using degree by (subst hd_conv_nth) (simp_all add: pbuild_def)
  then show "uint (hd (hd (rSetCoefficientsBigint rg [w]))) = w mod rModulus rg"
    unfolding e using degree q_simps by simp
qed

lemma lagrange_coefficients:
  assumes "local_lagrange isPrime lagr n" "rModulus rg = corona_q"
  shows "\<exists>w. ComputeLagrangeCoefficients isPrime lagr rg (map int [0..<n]) corona_q
      = Inr (map (\<lambda>i. rSetCoefficientsBigint rg [w i]) [0..<n]) \<and>
    (\<forall>t. 1 \<le> t \<and> t \<le> n \<longrightarrow> lambdas_ok rg t (map (\<lambda>i. rSetCoefficientsBigint rg [w i]) [0..<n]))"
proof -
  obtain ws where w: "isPrime (word_of_int corona_q)"
    "lagr (map (\<lambda>i. word_of_int (int i + 1)) [0..<n]) (word_of_int corona_q) = Inr ws" "length ws = n"
    "\<forall>w \<in> set ws. \<not> corona_q dvd uint w"
    using assms(1) unfolding local_lagrange_def by blast
  let ?w = "\<lambda>i. uint (ws ! i)" and ?lam = "map (\<lambda>i. rSetCoefficientsBigint rg [uint (ws ! i)]) [0..<n]"
  have run: "ComputeLagrangeCoefficients isPrime lagr rg (map int [0..<n]) corona_q = Inr ?lam"
    using w(1-3) by (simp add: ComputeLagrangeCoefficients_def must_def comp_def)
  have "lambdas_ok rg t ?lam" if t: "1 \<le> t" "t \<le> n" for t
  proof -
    have "\<not> corona_q dvd ?w (t - 1)" using w(3,4) t by simp
    then have "\<not> corona_q dvd ?w (t - 1) mod corona_q" by (simp add: dvd_mod_iff)
    then have "coprime (?w (t - 1) mod corona_q) corona_q" by (rule prime_mod_coprime[OF corona_q_prime])
    then have "ModInverse (?w (t - 1) mod corona_q) corona_q \<noteq> None" using ModInverse_exists[of corona_q] by fastforce
    then show ?thesis using t const_head by (auto simp: lambdas_ok_def assms(2))
  qed
  then show ?thesis using run by (intro exI[of _ ?w]) simp
qed

text \<open>The shares scaled by their coefficients add up to the secret, in the transform domain.\<close>

lemma shares_combine:
  assumes one: "rNTT rg (rSetCoefficientsBigint rg [1]) = pbuild (rModulus rg) (rN rg) (\<lambda>k. 1)"
    and s: "vec_ok rg dimN s" and run: "ShamirSecretSharing rg s (int n) (map (\<lambda>i. rSetCoefficientsBigint rg [w i]) [0..<m]) st = Inr (sh, st')"
    and m: "n \<le> m" and p: "p < dimN" and k: "k < rN rg"
  shows "(\<Sum>i\<leftarrow>[0..<n]. pcoef (rMulCoeffsMontgomery rg (ConvertVectorToNTT rg (snd (sh ! i)) ! p)
      (rMForm rg (rNTT rg (rSetCoefficientsBigint rg [w i])))) k) mod rModulus rg = pcoef (ConvertVectorToNTT rg s ! p) k"
proof -
  let ?q = "rModulus rg" and ?x = "\<lambda>i. snd (sh ! i) ! p"
  have vs: "vvalid rg s" and ls: "length s = dimN" using s by (auto simp: vec_ok_def)
  note S = ShamirSecretSharing_spec[OF coeff_ring_axioms vs run]
  have lsh: "length sh = n" using S by (metis length_map length_upt minus_nat.diff_0 nat_int)
  have sh: "length (snd (sh ! i)) = dimN" "valid (?x i)" if "i < n" for i
    using S nth_mem[of i sh] that lsh p ls by (auto simp: shares_ok_def share_ok_def split_beta)
  have coef: "(\<Sum>i<n. w i * pcoef (?x i) j) mod ?q = pcoef (s ! p) j" if j: "j < rN rg" for j
  proof -
    have "sum_list (map (\<lambda>i. pcoef (?x i) j * uint (hd (hd (map (\<lambda>i. rSetCoefficientsBigint rg [w i]) [0..<m] ! i)))) [0..<n]) mod ?q
        = pcoef (s ! p) j" using S p j ls by simp
    also have "map (\<lambda>i. pcoef (?x i) j * uint (hd (hd (map (\<lambda>i. rSetCoefficientsBigint rg [w i]) [0..<m] ! i)))) [0..<n]
        = map (\<lambda>i. pcoef (?x i) j * (w i mod ?q)) [0..<n]"
      by (rule map_cong[OF refl]) (use m in \<open>simp add: const_head\<close>)
    finally have "(\<Sum>i\<leftarrow>[0..<n]. pcoef (?x i) j * (w i mod ?q)) mod ?q = pcoef (s ! p) j" .
    moreover have "(\<Sum>i\<leftarrow>[0..<n]. pcoef (?x i) j * (w i mod ?q)) mod ?q = (\<Sum>i\<leftarrow>[0..<n]. w i * pcoef (?x i) j) mod ?q"
      by (rule sum_list_cong_mod) (simp add: mod_mult_right_eq mod_mult_left_eq mult.commute)
    ultimately show ?thesis by (simp add: interv_sum_list_conv_sum_set_nat lessThan_atLeast0)
  qed
  have vp: "valid (s ! p)" by (rule vec_ok_nth[OF s p])
  have "s ! p = pbuild ?q (rN rg) (\<lambda>j. \<Sum>i<n. w i * pcoef (?x i) j)"
    by (rule pvalid_eqI[OF vp]) (use coef q_simps in simp_all)
  then have ntt: "pcoef (rNTT rg (s ! p)) k = (\<Sum>i<n. w i * pcoef (rNTT rg (?x i)) k) mod ?q"
    using NTT_combination[of n ?x w] sh(2) k q_simps by simp
  have "(\<Sum>i\<leftarrow>[0..<n]. pcoef (rMulCoeffsMontgomery rg (ConvertVectorToNTT rg (snd (sh ! i)) ! p)
      (rMForm rg (rNTT rg (rSetCoefficientsBigint rg [w i])))) k) mod ?q = (\<Sum>i\<leftarrow>[0..<n]. (w i * pcoef (rNTT rg (?x i)) k) * 2 ^ 64) mod ?q"
    by (rule sum_list_cong_mod) (use sh p k in \<open>simp add: ConvertVectorToNTT_def Mul_const_slot[OF one] ac_simps\<close>)
  also have "\<dots> = (\<Sum>i<n. w i * pcoef (rNTT rg (?x i)) k) * 2 ^ 64 mod ?q"
    by (simp add: interv_sum_list_conv_sum_set_nat lessThan_atLeast0 sum_distrib_right)
  also have "\<dots> = pcoef (rNTT rg (s ! p)) k * 2 ^ 64 mod ?q" unfolding ntt by (simp add: mod_mult_left_eq)
  also have "\<dots> = pcoef (ConvertVectorToNTT rg s ! p) k"
    using valid_NTT[OF vp] k p ls q_simps by (simp add: ConvertVectorToNTT_def MForm)
  finally show ?thesis .
qed

end

section \<open>Round 1\<close>

lemma local_party_simps [simp]:
  "pID (local_party en r rx rn rnd sks seeds mk i) = int i" "pRing (local_party en r rx rn rnd sks seeds mk i) = r"
  "pRingXi (local_party en r rx rn rnd sks seeds mk i) = rx" "pRingNu (local_party en r rx rn rnd sks seeds mk i) = rn"
  "pSkShare (local_party en r rx rn rnd sks seeds mk i) = gomap_at sks (int i)" "pSeed (local_party en r rx rn rnd sks seeds mk i) = seeds"
  "pMACKeys (local_party en r rx rn rnd sks seeds mk i) = gomap_at mk (int i)"
  "pSuite (local_party en r rx rn rnd sks seeds mk i) = Some (Default (envXof en))"
  "pRand (local_party en r rx rn rnd sks seeds mk i) = Some (rnd i)"
  by (simp_all add: local_party_def NewParty_def NewPartyWithSuite_def Resolve_def)

text \<open>What party \<open>i\<close> is after its round 1, and what it has sent.\<close>

definition r1_sent :: "'s env \<Rightarrow> matrix \<Rightarrow> bytes \<Rightarrow> int list \<Rightarrow> mac_table \<Rightarrow> nat \<Rightarrow> Party \<times> matrix \<times> (int, bytes) gomap \<Rightarrow> bool" where
  "r1_sent en A key T mk i = (\<lambda>(p', D, M). \<exists>p. SignRound1 en [] p A 1 key T = (p', Inr (D, M)) \<and> pID p = int i \<and>
     pSuite p = Some (Default (envXof en)) \<and> pMACKeys p = gomap_at mk (int i))"

definition r1_commits :: "ring_ops \<Rightarrow> matrix \<Rightarrow> Party \<times> matrix \<times> (int, bytes) gomap \<Rightarrow> matrix \<Rightarrow> bool" where
  "r1_commits rg A = (\<lambda>(p', D, M) E. (\<exists>D0. MatrixMatrixMul rg A (pR p') (InitializeMatrix rg dimM (Dbar + 1)) = Inr D0 \<and>
       MatrixAdd rg E D0 D0 = Inr D) \<and> mat_ok rg dimN (Suc Dbar) (pR p') \<and> mat_ok rg dimM (Suc Dbar) E)"

definition r1_party ::
  "'s env \<Rightarrow> ring_ops \<Rightarrow> ring_ops \<Rightarrow> ring_ops \<Rightarrow> vec \<Rightarrow> shares \<Rightarrow> (int, bytes list) gomap \<Rightarrow> mac_table \<Rightarrow> nat \<Rightarrow> Party \<Rightarrow> bool" where
  "r1_party en rg rx rn lam sks seeds mk i p \<longleftrightarrow> pID p = int i \<and> pRing p = rg \<and> pRingXi p = rx \<and> pRingNu p = rn \<and>
     pSuite p = Some (Default (envXof en)) \<and> pSkShare p = gomap_at sks (int i) \<and> pLambda p = rMForm rg (rNTT rg (lam ! i)) \<and>
     pSeed p = seeds \<and> pMACKeys p = gomap_at mk (int i)"

text \<open>The nonces of party \<open>i\<close>: the generator is keyed by its share, the session and the first 32 bytes
  of its randomness.\<close>

definition local_nonces :: "'s env \<Rightarrow> ring_ops \<Rightarrow> nat \<Rightarrow> (nat \<Rightarrow> bytes) \<Rightarrow> shares \<Rightarrow> nat \<Rightarrow> (matrix \<times> matrix) res" where
  "local_nonces en rg n rnd sks i =
     rbind (PRNGKeyForRound en (Some (Default (envXof en))) (gomap_at sks (int i))
         (DeriveSessionID en (Some (Default (envXof en))) 1 (map int [0..<n])) (take 32 (rnd i)))
       (\<lambda>skHash. Inr (round1_nonces en rg skHash))"

lemma local_round1_total:
  assumes lr: "lattice_ring rg" and env: "local_env_ok en rg" and rand: "local_rand en n rnd" and i: "i < n"
    and lam: "length lam = n" and A: "mat_ok rg dimM dimN A"
  shows "\<exists>r E. local_round1 en A lam seeds key (map int [0..<n]) (local_party en rg rx rn rnd sks seeds mk i) = Inr r \<and>
    r1_sent en A key (map int [0..<n]) mk i r \<and> r1_commits rg A r E \<and> r1_party en rg rx rn lam sks seeds mk i (fst r) \<and>
    local_nonces en rg n rnd sks i = Inr (pR (fst r), E)"
proof -
  let ?T = "map int [0..<n]"
  define p where "p = local_party en rg rx rn rnd sks seeds mk i \<lparr> pLambda := rMForm rg (rNTT rg (lam ! i)), pSeed := seeds \<rparr>"
  have p: "pID p = int i" "pRing p = rg" "pRingXi p = rx" "pRingNu p = rn" "pSuite p = Some (Default (envXof en))"
    "pSkShare p = gomap_at sks (int i)" "pLambda p = rMForm rg (rNTT rg (lam ! i))" "pSeed p = seeds"
    "pMACKeys p = gomap_at mk (int i)" "pRand p = Some (rnd i)"
    by (simp_all add: p_def)
  obtain salt rest where salt: "rnd i = salt @ rest" "length salt = 32" "\<not> isZero32 salt" using rand i unfolding local_rand_def by blast
  have nz: "\<not> isZero32 (DeriveSessionID en (pSuite p) 1 ?T)" using rand unfolding local_rand_def p by blast
  have enc: "\<And>M. \<exists>b. encMatrix (envCodec en) M = Inr b" "\<exists>b. encVector (envCodec en) (pSkShare p) = Inr b"
    using env unfolding local_env_ok_def by blast+
  have sh: "length A = dimM" "\<forall>row \<in> set A. length row = dimN" using A by (auto simp: mat_ok_def vec_ok_def)
  obtain p' D M where run: "SignRound1 en [] p A 1 key ?T = (p', Inr (D, M))"
    using SignRound1_total[OF enc sh nz salt(3,2), of rest "[]" key] p(10) salt(1) by auto
  from SignRound1_Inr[OF run] p(2) obtain salt' rest' skHash R E D0 where o: "round1_nonces en rg skHash = (R, E)"
    "MatrixMatrixMul rg A R (InitializeMatrix rg dimM (Dbar + 1)) = Inr D0" "MatrixAdd rg E D0 D0 = Inr D"
    "p' = p \<lparr> pRand := map_option (\<lambda>_. rest') (pRand p), pR := R, pD := D \<rparr>"
    "rnd i = salt' @ rest'" "length salt' = 32"
    "PRNGKeyForRound en (pSuite p) (pSkShare p) (DeriveSessionID en (pSuite p) 1 ?T) salt' = Inr skHash"
    unfolding p(10) by auto
  have nonces: "local_nonces en rg n rnd sks i = Inr (R, E)" using o(1,5-7) p by (simp add: local_nonces_def)
  have sm: "sampling_ok (envSampling en) rg" using env by (simp add: local_env_ok_def)
  note RE = lattice_ring.round1_nonces_ok[OF lr sm o(1)]
  have "local_round1 en A lam seeds key ?T (local_party en rg rx rn rnd sks seeds mk i) = Inr (p', D, M)"
    using run i lam by (simp add: local_round1_def p_def)
  moreover have "r1_sent en A key ?T mk i (p', D, M)" unfolding r1_sent_def prod.case using run p by blast
  moreover have "r1_commits rg A (p', D, M) E" unfolding r1_commits_def prod.case using o RE by auto
  moreover have "r1_party en rg rx rn lam sks seeds mk i (fst (p', D, M))" unfolding r1_party_def o(4) using p by simp
  moreover have "local_nonces en rg n rnd sks i = Inr (pR (fst (p', D, M)), E)" using nonces o(4) by simp
  ultimately show ?thesis by blast
qed

lemma round1_all:
  assumes "lattice_ring rg" "local_env_ok en rg" "local_rand en n rnd" "length lam = n" "mat_ok rg dimM dimN A"
  shows "\<exists>f E. \<forall>i < n. local_round1 en A lam seeds key (map int [0..<n]) (local_party en rg rx rn rnd sks seeds mk i) = Inr (f i) \<and>
    r1_sent en A key (map int [0..<n]) mk i (f i) \<and> r1_commits rg A (f i) (E i) \<and>
    r1_party en rg rx rn lam sks seeds mk i (fst (f i)) \<and> local_nonces en rg n rnd sks i = Inr (pR (fst (f i)), E i)"
  using local_round1_total[OF assms(1-3) _ assms(4,5), of _ seeds key rx rn sks mk] by metis

section \<open>Preprocessing\<close>

lemma gomap_at_mac: "gomap_at (gomap_at mk i) j = (case mac_get mk i j of None \<Rightarrow> [] | Some key \<Rightarrow> key)"
  by (simp add: gomap_at_def mac_get_def split: option.splits)

lemma Hash_total:
  assumes "\<And>M. \<exists>b. encMatrix (envCodec en) M = Inr b" "\<And>v. \<exists>b. encVector (envCodec en) v = Inr b"
  shows "\<exists>h. Hash en su A b D sid T = Inr h"
proof -
  obtain ab bb where e: "encMatrix (envCodec en) A = Inr ab" "encVector (envCodec en) b = Inr bb" using assms by blast
  have "\<exists>ds. mapM (\<lambda>i. must (encMatrix (envCodec en) (case map_of D i of None \<Rightarrow> [] | Some m \<Rightarrow> m))) T = Inr ds"
  proof (induction T)
    case (Cons i T)
    obtain d where "encMatrix (envCodec en) (case map_of D i of None \<Rightarrow> [] | Some m \<Rightarrow> m) = Inr d" using assms(1) by blast
    then show ?case using Cons.IH by (auto simp: must_def)
  qed simp
  then show ?thesis using e by (auto simp: Hash_def hash_preimage_def must_def)
qed

context lattice_ring
begin

lemma sum_D_total:
  assumes "mat_ok rg dimM (Suc n) S" "\<forall>j \<in> set T. \<exists>M. map_of D j = Some M \<and> mat_ok rg dimM (Suc n) M"
  shows "\<exists>DSum. sum_D rg D S T = Inr (Some DSum) \<and> mat_ok rg dimM (Suc n) DSum"
  using assms
proof (induction T arbitrary: S)
  case (Cons j T)
  obtain M where M: "map_of D j = Some M" "mat_ok rg dimM (Suc n) M" using Cons.prems(2) by auto
  have sh: "length X = dimM" "\<forall>row \<in> set X. length row = Suc n" if "mat_ok rg dimM (Suc n) X" for X
    using that by (auto simp: mat_ok_def vec_ok_def)
  obtain S' where S': "MatrixAdd rg M S S = Inr S'" using MatrixAdd_shape[OF sh[OF M(2)] sh[OF Cons.prems(1)]] by blast
  have "0 < dimM" by (simp add: dimM_def)
  from MatrixAdd_slot[OF M(2) Cons.prems(1) this zero_less_Suc S'] have "mat_ok rg dimM (Suc n) S'" by blast
  then show ?case using Cons.IH[of S'] Cons.prems(2) M(1) S' by simp
qed simp

lemma FullRankCheck_total:
  assumes "rModulus rg = corona_q" "mat_ok rg dimM (Suc n) D"
  shows "\<exists>full. FullRankCheck D rg = Inr full"
proof -
  have D: "D \<noteq> []" "\<forall>row \<in> set D. length row = Suc n" using assms(2) by (auto simp: mat_ok_def vec_ok_def dimM_def)
  then have "hd D \<noteq> []" "\<not> (\<exists>row \<in> set D. length row \<noteq> length (hd D))" by (cases D; fastforce)+
  then show ?thesis
    using all_full_rank_eq[OF _ D, of rg "[0..<rN rg]"] corona_q_prime assms(1) degree by (simp add: FullRankCheck_def)
qed

end

lemma preprocess_all:
  assumes lr: "lattice_ring rg" and q: "rModulus rg = corona_q" and env: "local_env_ok en rg" and mk: "mac_sym mk" and A: "mat_ok rg dimM dimN A"
    and f: "\<And>i. i < n \<Longrightarrow> r1_sent en A key (map int [0..<n]) mk i (f i) \<and> r1_commits rg A (f i) (E i) \<and> r1_party en rg rx rn lam sks seeds mk i (fst (f i))"
    and D: "D = map (\<lambda>i. (int i, fst (snd (f i)))) [0..<n]" and MACs: "MACs = map (\<lambda>i. (int i, snd (snd (f i)))) [0..<n]"
  shows "\<exists>DSum h full. mat_ok rg dimM (Suc Dbar) DSum \<and> FullRankCheck DSum rg = Inr full \<and>
    sum_D rg D (InitializeMatrix rg dimM (Suc Dbar)) (map int [0..<n]) = Inr (Some DSum) \<and>
    (\<forall>i < n. map_of D (int i) = Some (fst (snd (f i)))) \<and>
    Hash en (Some (Default (envXof en))) A b D 1 (map int [0..<n]) = Inr h \<and>
    (\<forall>i < n. check_MACs en (fst (f i)) D MACs 1 (map int [0..<n]) (map int [0..<n]) = Inr True) \<and>
    (\<forall>i < n. SignRound2Preprocess en (fst (f i)) A b D MACs 1 (map int [0..<n]) = Inr (if full then Some (DSum, h) else None))"
proof -
  let ?T = "map int [0..<n]"
  have id: "pID (fst (f i)) = int i" "pRing (fst (f i)) = rg" "pSuite (fst (f i)) = Some (Default (envXof en))"
    "pMACKeys (fst (f i)) = gomap_at mk (int i)" if "i < n" for i
    using f[OF that] by (simp_all add: r1_party_def)
  have Di: "map_of D (int i) = Some (fst (snd (f i)))" and Mi: "map_of MACs (int i) = Some (snd (snd (f i)))" if "i < n" for i
    unfolding D MACs by (rule map_of_upt[OF that])+
  have pos: "0 < dimM" "0 < dimN" by (simp_all add: dimM_def dimN_def)
  have dm: "mat_ok rg dimM (Suc Dbar) (fst (snd (f i)))" if i: "i < n" for i
  proof -
    obtain D0 where o: "MatrixMatrixMul rg A (pR (fst (f i))) (InitializeMatrix rg dimM (Suc Dbar)) = Inr D0"
      "MatrixAdd rg (E i) D0 D0 = Inr (fst (snd (f i)))" "mat_ok rg dimN (Suc Dbar) (pR (fst (f i)))" "mat_ok rg dimM (Suc Dbar) (E i)"
      using f[OF i] by (auto simp: r1_commits_def case_prod_unfold)
    show ?thesis using lattice_ring.commitment_slot[OF lr A o(3,4,1,2)] by blast
  qed
  have cr: "coeff_ring rg" using lr lattice_ring_def by blast
  have "\<forall>j \<in> set ?T. \<exists>M. map_of D j = Some M \<and> mat_ok rg dimM (Suc Dbar) M" using Di dm by auto
  from lattice_ring.sum_D_total[OF lr coeff_ring.mat_ok_InitializeMatrix[OF cr] this] obtain DSum where
    S: "sum_D rg D (InitializeMatrix rg dimM (Suc Dbar)) ?T = Inr (Some DSum)" "mat_ok rg dimM (Suc Dbar) DSum" by blast
  obtain full where full: "FullRankCheck DSum rg = Inr full" using lattice_ring.FullRankCheck_total[OF lr q S(2)] by blast
  obtain h where h: "Hash en (Some (Default (envXof en))) A b D 1 ?T = Inr h"
    using Hash_total env unfolding local_env_ok_def by blast
  have mac: "check_MACs en (fst (f i)) D MACs 1 ?T ?T = Inr True" if i: "i < n" for i
  proof (rule honest_macs_core)
    show "pID (fst (f i)) \<in> set ?T" using i id by simp
    show "\<forall>j \<in> set ?T. j \<noteq> pID (fst (f i)) \<longrightarrow> (\<exists>sys p p' A key' Dj Mj.
      SignRound1 en sys p A 1 key' ?T = (p', Inr (Dj, Mj)) \<and> pID p = j \<and> pSuite p = pSuite (fst (f i)) \<and>
      gomap_at (pMACKeys p) (pID (fst (f i))) = gomap_at (pMACKeys (fst (f i))) j \<and> map_of D j = Some Dj \<and> map_of MACs j = Some Mj)"
    proof (intro ballI impI)
      fix j assume "j \<in> set ?T" "j \<noteq> pID (fst (f i))"
      then obtain l where l: "j = int l" "l < n" "l \<noteq> i" using id[OF i] by auto
      obtain p where p: "SignRound1 en [] p A 1 key ?T = (fst (f l), Inr (fst (snd (f l)), snd (snd (f l))))" "pID p = int l"
        "pSuite p = Some (Default (envXof en))" "pMACKeys p = gomap_at mk (int l)"
        using f[OF l(2)] by (auto simp: r1_sent_def case_prod_unfold)
      have "gomap_at (pMACKeys p) (int i) = gomap_at (pMACKeys (fst (f i))) (int l)"
        unfolding p(4) id(4)[OF i] gomap_at_mac using mk by (simp add: mac_sym_def)
      then show "\<exists>sys p p' A key' Dj Mj. SignRound1 en sys p A 1 key' ?T = (p', Inr (Dj, Mj)) \<and> pID p = j \<and> pSuite p = pSuite (fst (f i)) \<and>
          gomap_at (pMACKeys p) (pID (fst (f i))) = gomap_at (pMACKeys (fst (f i))) j \<and> map_of D j = Some Dj \<and> map_of MACs j = Some Mj"
        using p Di[OF l(2)] Mi[OF l(2)] id[OF i] l(1) by metis
    qed
  qed
  have "SignRound2Preprocess en (fst (f i)) A b D MACs 1 ?T = Inr (if full then Some (DSum, h) else None)" if "i < n" for i
    using mac[OF that] id[OF that] h S(1) full by (simp add: SignRound2Preprocess_def)
  then show ?thesis using S full Di h mac by blast
qed

section \<open>Round 2\<close>

lemma LowNormHash_total:
  assumes "local_env_ok en rg"
  shows "\<exists>c. LowNormHash en su rg A b h mu Kappa = Inr c"
proof -
  obtain ab bb hb where e: "encMatrix (envCodec en) A = Inr ab" "encVector (envCodec en) b = Inr bb" "encVector (envCodec en) h = Inr hb"
    using assms unfolding local_env_ok_def by blast
  define prng where "prng = NewKeyedPRNG (envSampling en) (hsHu (Resolve (envXof en) su) (ab @ bb @ hb @ str_bytes mu) keySize)"
  obtain smp where "NewTernarySampler (envSampling en) rg Kappa prng = Inr smp" using assms unfolding local_env_ok_def by blast
  then show ?thesis using e by (simp add: LowNormHash_def must_def Let_def prng_def)
qed

lemma dealt_share:
  assumes "gokeys sh = map int [0..<n]" "i < n"
  shows "gomap_at (map (\<lambda>(i, v). (i, ConvertVectorToNTT rg v)) sh) (int i) = ConvertVectorToNTT rg (snd (sh ! i))"
proof -
  have l: "length sh = n" using assms(1) by (metis length_map length_upt minus_nat.diff_0)
  have "sh ! j = (int j, snd (sh ! j))" if "j < n" for j
    using arg_cong[OF assms(1), of "\<lambda>xs. xs ! j"] that l by (cases "sh ! j") simp
  then have "map (\<lambda>(i, v). (i, ConvertVectorToNTT rg v)) sh = map (\<lambda>j. (int j, ConvertVectorToNTT rg (snd (sh ! j)))) [0..<n]"
    using l by (intro nth_equalityI) (simp_all add: case_prod_unfold, metis fst_conv)
  then show ?thesis using map_of_upt[OF assms(2), of "\<lambda>j. ConvertVectorToNTT rg (snd (sh ! j))"] by (simp add: gomap_at_def)
qed

lemma r1_signer_ok:
  assumes lr: "lattice_ring rg" and s: "vec_ok rg dimN s"
    and lam: "lam = map (\<lambda>i. rSetCoefficientsBigint rg [w i]) [0..<n]"
    and sh: "ShamirSecretSharing rg s (int n) lam st = Inr (sh, st')"
    and sks: "sks = map (\<lambda>(i, v). (i, ConvertVectorToNTT rg v)) sh" and i: "i < n"
    and f: "r1_commits rg A r E" "r1_party en rg rx rn lam sks seeds mk i (fst r)"
  shows "signer_ok rg (fst r) \<and> pSkShare (fst r) = ConvertVectorToNTT rg (snd (sh ! i))"
proof -
  have cr: "coeff_ring rg" using lr lattice_ring_def by blast
  have vs: "vvalid rg s" and ls: "length s = dimN" using s by (auto simp: vec_ok_def)
  note S = ShamirSecretSharing_spec[OF cr vs sh]
  have g: "gokeys sh = map int [0..<n]" using S by simp
  have "length sh = n" using g by (metis length_map length_upt minus_nat.diff_0)
  then have "length (snd (sh ! i)) = dimN \<and> (\<forall>p < dimN. pvalid (rModulus rg) (rN rg) (snd (sh ! i) ! p))"
    using S nth_mem[of i sh] i ls by (auto simp: shares_ok_def share_ok_def split_beta)
  then have "vec_ok rg dimN (snd (sh ! i))" by (auto simp: vec_ok_def vvalid_def in_set_conv_nth)
  then have v: "vec_ok rg dimN (ConvertVectorToNTT rg (snd (sh ! i)))" by (rule lattice_ring.ConvertVectorToNTT_ok[OF lr])
  have sk: "pSkShare (fst r) = ConvertVectorToNTT rg (snd (sh ! i))"
    using f(2) dealt_share[OF g i, of rg] by (simp add: r1_party_def sks)
  have "pvalid (rModulus rg) (rN rg) (pLambda (fst r))"
    using f(2) i by (simp add: r1_party_def lam lattice_ring.valid_MForm[OF lr] lattice_ring.valid_NTT[OF lr] lattice_ring.const_valid[OF lr])
  then show ?thesis using f sk v by (simp add: signer_ok_def r1_commits_def r1_party_def case_prod_unfold)
qed

lemma round2_all:
  assumes lr: "lattice_ring rg" and env: "local_env_ok en rg" and rn: "coeff_ring rn" "rN rn = rN rg"
    and D: "mat_ok rg dimM (Suc Dbar) DSum" and seeds: "seeds_ok n (int ` {0..<n}) seeds"
    and ok: "\<And>i. i < n \<Longrightarrow> signer_ok rg (fst (f i)) \<and> r1_party en rg rx rn lam sks seeds mk i (fst (f i))"
    and pre: "\<forall>i < n. SignRound2Preprocess en (fst (f i)) A b Dm MACs 1 (map int [0..<n]) = Inr (Some (DSum, h))"
  shows "\<exists>g. mapM (local_round2 en A b Dm MACs key (map int [0..<n]) mu) (map fst (map f [0..<n])) = Inr (map g [0..<n]) \<and>
    (\<forall>i < n. SignRound2 en (fst (f i)) A b DSum 1 mu (map int [0..<n]) key h = Inr (g i))"
proof -
  let ?T = "map int [0..<n]"
  have sm: "sampling_ok (envSampling en) rg" using env by (simp add: local_env_ok_def)
  have sd: "\<exists>b. seed_at seeds (int i) (int j) = Inr b" if ij: "i < n" "j < n" for i j
  proof -
    have "int i \<in> int ` {0..<n}" using ij(1) by simp
    then obtain row where "map_of seeds (int i) = Some row" "length row = n" using seeds unfolding seeds_ok_def by blast
    then show ?thesis using ij(2) by (simp add: seed_at_def gomap_at_def)
  qed
  have "\<exists>y. SignRound2 en (fst (f i)) A b DSum 1 mu ?T key h = Inr y" if i: "i < n" for i
  proof -
    have p: "pID (fst (f i)) = int i" "pSeed (fst (f i)) = seeds" "pRingNu (fst (f i)) = rn" using ok[OF i] by (simp_all add: r1_party_def)
    have nu: "coeff_ring (pRingNu (fst (f i)))" "rN (pRingNu (fst (f i))) = rN rg" using rn p(3) by simp_all
    have "\<forall>j \<in> set ?T. (\<exists>b. seed_at (pSeed (fst (f i))) (pID (fst (f i))) j = Inr b) \<and> (\<exists>b. seed_at (pSeed (fst (f i))) j (pID (fst (f i))) = Inr b)"
      using sd i unfolding p by auto
    from lattice_ring.SignRound2_total[OF lr sm conjunct1[OF ok[OF i]] nu D LowNormHash_total[OF env] this]
    show ?thesis by blast
  qed
  then obtain g where g: "\<And>i. i < n \<Longrightarrow> SignRound2 en (fst (f i)) A b DSum 1 mu ?T key h = Inr (g i)" by metis
  have "mapM (local_round2 en A b Dm MACs key ?T mu) (map fst (map f [0..<n])) = Inr (map g [0..<n])"
    unfolding mapM_Inr_iff using g pre by (simp add: local_round2_def)
  then show ?thesis using g by blast
qed

section \<open>Combination\<close>

lemma restore_rounded:
  assumes cr: "coeff_ring rg" "rModulus rg = corona_q" and rx: "coeff_ring rx" "rN rx = rN rg" and v: "vec_ok rg m v"
    and run: "RoundVector rx v Xi = Inr bT"
  shows "\<exists>b'. RestoreVector rg bT Xi = Inr b' \<and> vec_ok rg m b' \<and>
    (\<forall>i < m. \<forall>k < rN rg. abs (pcoef (b' ! i) k - pcoef (v ! i) k) \<le> 2 ^ 29)"
proof -
  have "shape_ok (rN rx) v" using vec_ok_shape[OF v] rx(2) by simp
  from RoundVector_ok[OF rx(1) this] run have bT: "bT = map (\<lambda>p. [map (round_coeff Xi) (hd p)]) v" by simp
  have "shape_ok (rN rg) bT" using vec_ok_shape[OF v] by (auto simp: bT shape_ok_def)
  note R = RestoreVector_ok[OF cr(1) this, of Xi]
  let ?b = "map (\<lambda>p. [map (push_bit Xi) (hd p)]) bT"
  have c: "uint (push_bit Xi (round_coeff Xi x)) < corona_q" "abs (uint (push_bit Xi (round_coeff Xi x)) - uint x) \<le> 2 ^ 29"
    if "uint x < corona_q" for x :: u64
  proof -
    have r: "unat (round_coeff 30 x) \<le> 2 ^ (48 - 30)" "unat (push_bit 30 (round_coeff 30 x)) = unat (round_coeff 30 x) * 2 ^ 30"
      "abs (int (unat (push_bit 30 (round_coeff 30 x))) - int (unat x)) \<le> 2 ^ (30 - 1)"
      using rounding_core[OF that, of 30] by blast+
    from r(3) show "abs (uint (push_bit Xi (round_coeff Xi x)) - uint x) \<le> 2 ^ 29" by (simp add: Xi_def)
    have "unat (push_bit 30 (round_coeff 30 x)) \<le> 2 ^ 48" unfolding r(2) using r(1) by simp
    then have "int (unat (push_bit 30 (round_coeff 30 x))) \<le> 2 ^ 48" by (metis of_nat_le_iff of_nat_numeral of_nat_power)
    then show "uint (push_bit Xi (round_coeff Xi x)) < corona_q" by (simp add: Xi_def corona_q_def)
  qed
  have p: "length (v ! i) = 1" "length (hd (v ! i)) = rN rg" "\<And>x. x \<in> set (hd (v ! i)) \<Longrightarrow> uint x < corona_q" if "i < m" for i
    using vec_ok_nth[OF v that] cr(2) by (auto simp: pvalid_def)
  have "vec_ok rg m ?b"
    using v c(1) cr(2) by (auto simp: bT vec_ok_def vvalid_def pvalid_def)
  moreover have "abs (pcoef (?b ! i) k - pcoef (v ! i) k) \<le> 2 ^ 29" if "i < m" "k < rN rg" for i k
    using that v p[OF that(1)] c(2)[OF p(3)[OF that(1) nth_mem]] by (simp add: bT pcoef_def vec_ok_def)
  ultimately show ?thesis using R by blast
qed

lemma rounded_Az_bc_total:
  assumes lr: "lattice_ring rg" and rn: "coeff_ring rn" "rN rn = rN rg" and A: "mat_ok rg dimM dimN A" and z: "vec_ok rg dimN z"
    and b: "RestoreVector rg bT Xi = Inr b'" "vec_ok rg dimM b'" and c: "pvalid (rModulus rg) (rN rg) c"
  shows "\<exists>w. rounded_Az_bc rg rx rn A z bT c = Inr w \<and> length w = dimM"
proof -
  have cr: "coeff_ring rg" using lr lattice_ring_def by blast
  note ini = coeff_ring.vec_ok_InitializeVector[OF cr]
  obtain Az where Az: "MatrixVectorMul rg A z (InitializeVector rg dimM) = Inr Az" "vec_ok rg dimM Az"
    using lattice_ring.MatrixVectorMul_ok[OF lr A z ini] by blast
  have li: "length (InitializeVector rg dimM) = dimM" by (simp add: InitializeVector_def)
  obtain bc where bc: "VectorPolyMul rg (ConvertVectorToNTT rg b') c (InitializeVector rg dimM) = Inr bc" "vec_ok rg dimM bc"
    using lattice_ring.VectorPolyMul_ok[OF lr lattice_ring.ConvertVectorToNTT_ok[OF lr b(2)] c li] by blast
  have "length Az = dimM" using Az(2) by (simp add: vec_ok_def)
  from coeff_ring.VectorSub_ok[OF cr Az(2) bc(2) this] obtain d where d: "VectorSub rg Az bc Az = Inr d" "vec_ok rg dimM d" by blast
  have "shape_ok (rN rn) (ConvertVectorFromNTT rg d)" using vec_ok_shape[OF lattice_ring.ConvertVectorFromNTT_ok[OF lr d(2)]] rn(2) by simp
  from RoundVector_ok[OF rn(1) this, of Nu] obtain w where w: "RoundVector rn (ConvertVectorFromNTT rg d) Nu = Inr w" by blast
  then have "rounded_Az_bc rg rx rn A z bT c = Inr w" unfolding rounded_Az_bc_def Az(1) b(1) rbind.simps bc(1) d(1) .
  then show ?thesis using rounded_Az_bc_length by blast
qed

lemma SignFinalize_total:
  assumes lr: "lattice_ring rg" and p: "pRing p = rg" "pRingNu p = rn" and rn: "coeff_ring rn" "rN rn = rN rg"
    and A: "mat_ok rg dimM dimN A" and zs: "\<forall>x \<in> set zs. vec_ok rg dimN (snd x)"
    and b: "RestoreVector rg bT Xi = Inr b'" "vec_ok rg dimM b'" and c: "pvalid (rModulus rg) (rN rg) (pC p)" and h: "length (pH p) = dimM"
  shows "\<exists>z w Delta. SignFinalize p zs A bT = Inr (pC p, z, Delta) \<and> vec_ok rg dimN z \<and>
    rounded_Az_bc rg (pRingXi p) rn A z bT (pC p) = Inr w"
proof -
  have cr: "coeff_ring rg" using lr lattice_ring_def by blast
  obtain z where z: "foldM (\<lambda>a x. VectorAdd rg a (snd x) a) (InitializeVector rg dimN) zs = Inr z" "vec_ok rg dimN z"
    using coeff_ring.foldM_VectorAdd[OF cr coeff_ring.vec_ok_InitializeVector[OF cr] zs] by blast
  obtain w where w: "rounded_Az_bc rg (pRingXi p) rn A z bT (pC p) = Inr w" "length w = dimM"
    using rounded_Az_bc_total[OF lr rn A z(2) b c] by blast
  obtain Delta where "VectorSub rn (pH p) w (InitializeVector rn dimM) = Inr Delta"
    using h w(2) by (simp add: VectorSub_def vector_op_def InitializeVector_def)
  then have "SignFinalize p zs A bT = Inr (pC p, z, Delta)"
    using z(1) w(1) p by (simp add: SignFinalize_def case_prod_unfold)
  then show ?thesis using z(2) w(1) by blast
qed

section \<open>The run\<close>

text \<open>\<open>h\<close> is the rounded \<open>D u\<close>, \<open>c\<close> the challenge hashed from it.\<close>

definition challenge_of ::
  "'s env \<Rightarrow> ring_ops \<Rightarrow> ring_ops \<Rightarrow> matrix \<Rightarrow> vec \<Rightarrow> matrix \<Rightarrow> string \<Rightarrow> vec \<Rightarrow> vec \<Rightarrow> poly \<Rightarrow> bool" where
  "challenge_of en rg rn A bT DSum mu u h c \<longleftrightarrow>
     (\<exists>y. MatrixVectorMul rg DSum u (InitializeVector rg dimM) = Inr y \<and> RoundVector rn (ConvertVectorFromNTT rg y) Nu = Inr h) \<and>
     LowNormHash en None rg A bT h mu Kappa = Inr c"

lemma round2_challenge_of:
  assumes "round2_challenge en p A bT DSum mu u = Inr (h, c)" "pRing p = rg" "pRingNu p = rn" "pSuite p = Some (Default (envXof en))"
  shows "challenge_of en rg rn A bT DSum mu u h c \<and> length h = dimM"
proof -
  obtain y where y: "MatrixVectorMul rg DSum u (InitializeVector rg dimM) = Inr y" "RoundVector rn (ConvertVectorFromNTT rg y) Nu = Inr h"
    "LowNormHash en (Some (Default (envXof en))) rg A bT h mu Kappa = Inr c"
    using assms by (auto simp: round2_challenge_def Let_def res_simps)
  have "LowNormHash en None rg A bT h mu Kappa = Inr c" using y(3) by (simp add: LowNormHash_def Resolve_def)
  moreover have "length h = dimM"
    using RoundVector_length[OF y(2)] MatrixVectorMul_length[OF y(1)] by (simp add: ConvertVectorFromNTT_def InitializeVector_def)
  ultimately show ?thesis using y(1,2) by (auto simp: challenge_of_def)
qed

lemma round2_party:
  assumes p: "r1_party en rg rx rn lam sks seeds mk i p" and run: "SignRound2 en p A bT DSum 1 mu T key h = Inr r"
  shows "pID (fst r) = int i \<and> pRing (fst r) = rg \<and> pRingXi (fst r) = rx \<and> pRingNu (fst r) = rn \<and>
    challenge_of en rg rn A bT DSum mu (round2_u en p h mu) (pH (fst r)) (pC (fst r)) \<and> length (pH (fst r)) = dimM"
proof -
  have I: "fst r = p \<lparr> pH := pH (fst r), pC := pC (fst r) \<rparr>"
    "round2_challenge en p A bT DSum mu (round2_u en p h mu) = Inr (pH (fst r), pC (fst r))"
    using SignRound2_Inr[of en p A bT DSum 1 mu T key h "fst r" "snd r"] run by simp_all
  show ?thesis
    using arg_cong[OF I(1), of pID] arg_cong[OF I(1), of pRing] arg_cong[OF I(1), of pRingXi] arg_cong[OF I(1), of pRingNu] p
      round2_challenge_of[OF I(2)] by (simp add: r1_party_def)
qed

lemma session_equation:
  assumes lr: "lattice_ring rg" and sm: "sampling_ok (envSampling en) rg" and n: "0 < n"
    and one: "rNTT rg (rSetCoefficientsBigint rg [1]) = pbuild (rModulus rg) (rN rg) (\<lambda>k. 1)"
    and G: "mat_ok rg dimM dimN A" "vec_ok rg dimN s" "vec_ok rg dimM e"
      "MatrixVectorMul rg A (ConvertVectorToNTT rg s) (InitializeVector rg dimM) = Inr b0" "VectorAdd rg b0 e b0 = Inr b"
    and lam: "lam = map (\<lambda>i. rSetCoefficientsBigint rg [w i]) [0..<n]" and sh: "ShamirSecretSharing rg s (int n) lam st0 = Inr (sh, st1)"
    and f: "\<forall>i < n. r1_commits rg A (f i) (E i) \<and> r1_party en rg rx rn lam sks seeds mk i (fst (f i)) \<and>
      signer_ok rg (fst (f i)) \<and> pSkShare (fst (f i)) = ConvertVectorToNTT rg (snd (sh ! i))"
    and D: "sum_D rg D (InitializeMatrix rg dimM (Suc Dbar)) (map int [0..<n]) = Inr (Some DSum)"
      "\<forall>i < n. map_of D (int i) = Some (fst (snd (f i)))"
    and g: "\<forall>i < n. SignRound2 en (fst (f i)) A bT DSum 1 mu (map int [0..<n]) key h = Inr (g i)"
    and fin: "SignFinalize (fst (g 0)) (map (\<lambda>i. (int i, snd (g i))) [0..<n]) A bT = Inr (c, z, Delta)"
  shows "signing_eq rg A z DSum (round2_u en (fst (f 0)) h mu) (map E [0..<n]) b e (pC (fst (g 0)))"
proof -
  let ?T = "map int [0..<n]" and ?zs = "map (\<lambda>i. (int i, snd (g i))) [0..<n]"
  define rs where "rs = map (\<lambda>i. (fst (f i), fst (g i), snd (g i))) [0..<n]"
  have P: "pID (fst (f i)) = int i" "pRingNu (fst (f i)) = rn" "pSuite (fst (f i)) = Some (Default (envXof en))"
    "pLambda (fst (f i)) = rMForm rg (rNTT rg (rSetCoefficientsBigint rg [w i]))" "pSeed (fst (f i)) = seeds" if "i < n" for i
    using f that by (simp_all add: r1_party_def lam)
  have ids: "map (\<lambda>(p, p', z). pID p) rs = ?T" "map (\<lambda>(p, p', z). (pID p, z)) rs = ?zs"
    "map (\<lambda>(p, p', z). E (nat (pID p))) rs = map E [0..<n]"
    using P by (simp_all add: rs_def case_prod_unfold)
  have ring: "pRing (fst (g 0)) = rg" using round2_party[of en rg rx rn lam sks seeds mk 0 "fst (f 0)"] f g n by blast
  have mem: "(fst (f 0), fst (g 0), snd (g 0)) \<in> set rs" using n by (simp add: rs_def)
  show ?thesis
    unfolding ids(3)[symmetric]
  proof (rule lattice_ring.signing_equation_core[OF lr sm _ ring _ G(1) _ _ lattice_ring.ConvertVectorToNTT_ok[OF lr G(2)] G(3-5) _ mem,
        where su = "Some (Default (envXof en))" and seeds = seeds and rnu = rn and sid = 1 and key = key and c = c and Delta = Delta and D = D])
    show "\<forall>(p, p', z) \<in> set rs. signer_ok rg p \<and> pSuite p = Some (Default (envXof en)) \<and> pSeed p = seeds \<and> pRingNu p = rn \<and>
        SignRound2 en p A bT DSum 1 mu (map (\<lambda>(p, p', z). pID p) rs) key h = Inr (p', z)"
      unfolding ids(1) using f P g by (auto simp: rs_def)
    show "SignFinalize (fst (g 0)) (map (\<lambda>(p, p', z). (pID p, z)) rs) A bT = Inr (c, z, Delta)" unfolding ids(2) by (rule fin)
    show "sum_D rg D (InitializeMatrix rg dimM (Dbar + 1)) (map (\<lambda>(p, p', z). pID p) rs) = Inr (Some DSum)"
      unfolding ids(1) using D(1) by simp
    show "\<forall>(p, p', z) \<in> set rs. mat_ok rg dimM (Suc Dbar) (E (nat (pID p))) \<and> (\<exists>D0 Dp. map_of D (pID p) = Some Dp \<and>
        MatrixMatrixMul rg A (pR p) (InitializeMatrix rg dimM (Dbar + 1)) = Inr D0 \<and> MatrixAdd rg (E (nat (pID p))) D0 D0 = Inr Dp)"
      using f D(2) P(1) by (fastforce simp: rs_def r1_commits_def case_prod_unfold)
    show "\<forall>j < dimN. \<forall>k < rN rg. (\<Sum>(p, p', z)\<leftarrow>rs. pcoef (rMulCoeffsMontgomery rg (pSkShare p ! j) (pLambda p)) k) mod rModulus rg
        = pcoef (ConvertVectorToNTT rg s ! j) k"
    proof (intro allI impI)
      fix j k assume jk: "j < dimN" "k < rN rg"
      have "map (\<lambda>(p, p', z). pcoef (rMulCoeffsMontgomery rg (pSkShare p ! j) (pLambda p)) k) rs
          = map (\<lambda>i. pcoef (rMulCoeffsMontgomery rg (ConvertVectorToNTT rg (snd (sh ! i)) ! j) (rMForm rg (rNTT rg (rSetCoefficientsBigint rg [w i])))) k) [0..<n]"
        using f P(4) by (simp add: rs_def)
      then show "(\<Sum>(p, p', z)\<leftarrow>rs. pcoef (rMulCoeffsMontgomery rg (pSkShare p ! j) (pLambda p)) k) mod rModulus rg
          = pcoef (ConvertVectorToNTT rg s ! j) k"
        using lattice_ring.shares_combine[OF lr one G(2) sh[unfolded lam] order.refl jk] by simp
    qed
  qed
qed

text \<open>The signing half of a run, from the state that round 1 leaves.\<close>

lemma signing_half:
  assumes rings: "local_rings newRing rg rx rn" and env: "local_env_ok en rg" and n: "1 \<le> n" and ord: "\<And>zs. mset (ord zs) = mset zs"
    and gen: "gen_result rg rx n n lam (A, sks, seeds, mk, bT, st) s e b"
    and lam: "lam = map (\<lambda>i. rSetCoefficientsBigint rg [w i]) [0..<n]"
    and f: "\<forall>i < n. r1_sent en A key (map int [0..<n]) mk i (f i) \<and> r1_commits rg A (f i) (E i) \<and>
      r1_party en rg rx rn lam sks seeds mk i (fst (f i))"
    and D: "sum_D rg D (InitializeMatrix rg dimM (Suc Dbar)) (map int [0..<n]) = Inr (Some DSum)"
      "\<forall>i < n. map_of D (int i) = Some (fst (snd (f i)))"
    and g: "\<forall>i < n. SignRound2 en (fst (f i)) A bT DSum 1 mu (map int [0..<n]) key h = Inr (g i)"
  shows "\<exists>z w Delta c. SignFinalize (fst (g 0)) (ord (map (\<lambda>i. (int i, snd (g i))) [0..<n])) A bT = Inr (c, z, Delta) \<and>
    (\<forall>i < n. pC (fst (g i)) = c \<and> pID (fst (g i)) = int i) \<and>
    challenge_of en rg rn A bT DSum mu (round2_u en (fst (f 0)) h mu) (pH (fst (g 0))) c \<and>
    signing_eq rg A z DSum (round2_u en (fst (f 0)) h mu) (map E [0..<n]) b e c \<and>
    rounded_Az_bc rg rx rn A z bT c = Inr w \<and> VectorSub rn (pH (fst (g 0))) w (InitializeVector rn dimM) = Inr Delta \<and>
    (vec_ok rn dimM (pH (fst (g 0))) \<and> vec_ok rn dimM w \<longrightarrow> Verify en rg rx rn z A mu bT c Delta =
      Inr (sum_squares rg (map (\<lambda>p. [map (push_bit Nu) (hd p)]) Delta) + sum_squares rg (ConvertVectorFromNTT rg z) \<le> Bsquare))"
proof -
  let ?T = "map int [0..<n]" and ?p0 = "fst (g 0)" and ?zs = "map (\<lambda>i. (int i, snd (g i))) [0..<n]"
  have lr: "lattice_ring rg" and q: "rModulus rg = corona_q" and N: "dimM \<le> rN rg"
    and one: "rNTT rg (rSetCoefficientsBigint rg [1]) = pbuild (rModulus rg) (rN rg) (\<lambda>k. 1)"
    and rx: "coeff_ring rx" "rN rx = rN rg" and rn: "coeff_ring rn" "rN rn = rN rg"
    using rings unfolding local_rings_def by blast+
  have cr: "coeff_ring rg" using lr lattice_ring_def by blast
  have sm: "sampling_ok (envSampling en) rg" using env by (simp add: local_env_ok_def)
  have z0: "0 < n" using n by simp
  obtain b0 sh st0 st1 where G: "mat_ok rg dimM dimN A" "vec_ok rg dimN s" "vec_ok rg dimM e" "vec_ok rg dimM b"
    "MatrixVectorMul rg A (ConvertVectorToNTT rg s) (InitializeVector rg dimM) = Inr b0" "VectorAdd rg b0 e b0 = Inr b"
    "RoundVector rx (ConvertVectorFromNTT rg b) Xi = Inr bT" "ShamirSecretSharing rg s (int n) lam st0 = Inr (sh, st1)"
    "sks = map (\<lambda>(i, v). (i, ConvertVectorToNTT rg v)) sh"
    using gen unfolding gen_result_def prod.case by blast
  have ok: "signer_ok rg (fst (f i)) \<and> pSkShare (fst (f i)) = ConvertVectorToNTT rg (snd (sh ! i))" if "i < n" for i
    using f that by (intro r1_signer_ok[OF lr G(2) lam G(8,9) that]) blast+
  have Q: "pID (fst (g i)) = int i" "pRing (fst (g i)) = rg" "pRingXi (fst (g i)) = rx" "pRingNu (fst (g i)) = rn"
    "challenge_of en rg rn A bT DSum mu (round2_u en (fst (f i)) h mu) (pH (fst (g i))) (pC (fst (g i)))" "length (pH (fst (g i))) = dimM"
    if "i < n" for i
    using round2_party[of en rg rx rn lam sks seeds mk i "fst (f i)" A bT DSum mu ?T key h "g i"] f g that by blast+
  have same: "pC (fst (g i)) = pC ?p0" if "i < n" for i
  proof -
    have "round2_u en (fst (f i)) h mu = round2_u en (fst (f 0)) h mu"
      using f that z0 by (simp add: round2_u_def r1_party_def)
    then show ?thesis using Q(5)[OF that] Q(5)[OF z0] unfolding challenge_of_def by auto
  qed
  have "vec_ok rg dimN (snd (g i))" if "i < n" for i
    using lattice_ring.SignRound2_vec_ok[OF lr sm conjunct1[OF ok[OF that]], of A bT DSum 1 mu ?T key h "fst (g i)" "snd (g i)"] g that by simp
  then have vzs: "\<forall>x \<in> set ?zs. vec_ok rg dimN (snd x)" by auto
  obtain b' where b': "RestoreVector rg bT Xi = Inr b'" "vec_ok rg dimM b'"
    using restore_rounded[OF cr q rx lattice_ring.ConvertVectorFromNTT_ok[OF lr G(4)] G(7)] by blast
  have c: "pvalid (rModulus rg) (rN rg) (pC ?p0)"
    using lattice_ring.LowNormHash_ok[OF lr sm] Q(5)[OF z0] unfolding challenge_of_def by blast
  obtain z wv Delta where fin: "SignFinalize ?p0 ?zs A bT = Inr (pC ?p0, z, Delta)" "rounded_Az_bc rg rx rn A z bT (pC ?p0) = Inr wv"
    using SignFinalize_total[OF lr Q(2,4)[OF z0] rn G(1) vzs b' c Q(6)[OF z0]] Q(3)[OF z0] by auto
  have fo: "SignFinalize ?p0 (ord ?zs) A bT = Inr (pC ?p0, z, Delta)"
    using SignFinalize_perm[of ?p0 ?zs "ord ?zs" A bT] Q(2)[OF z0] cr vzs ord fin(1) by simp
  have D': "VectorSub rn (pH ?p0) wv (InitializeVector rn dimM) = Inr Delta"
    using SignFinalize_Inr[OF fin(1)] Q(2-4)[OF z0] fin(2) by simp
  have eq: "signing_eq rg A z DSum (round2_u en (fst (f 0)) h mu) (map E [0..<n]) b e (pC ?p0)"
    by (rule session_equation[OF lr sm z0 one G(1-3,5,6) lam G(8) _ D g fin(1)]) (use f ok in blast)
  have A: "length A = dimM" "\<forall>row \<in> set A. length row = dimN" using G(1) by (auto simp: mat_ok_def vec_ok_def)
  have ver: "Verify en rg rx rn z A mu bT (pC ?p0) Delta =
      Inr (sum_squares rg (map (\<lambda>p. [map (push_bit Nu) (hd p)]) Delta) + sum_squares rg (ConvertVectorFromNTT rg z) \<le> Bsquare)"
    if range: "vec_ok rn dimM (pH ?p0)" "vec_ok rn dimM wv"
    using finalize_verify_core[of ?p0 A ?zs bT "pC ?p0" z Delta en None mu wv] Q[OF z0] cr rn N A fin range c
    by (simp add: Verify_def challenge_of_def)
  show ?thesis
    by (intro exI[of _ z] exI[of _ wv] exI[of _ Delta] exI[of _ "pC ?p0"]) (use fo Q(1) Q(5)[OF z0] same eq fin(2) D' ver in blast)
qed

text \<open>What one run computes, phase by phase: the coefficients, the dealt keys, the key of the
  pseudorandom function, and for each party its state after round 1 with what it sent.\<close>

record local_trace =
  ltLambda :: vec
  ltA :: matrix
  ltShares :: shares
  ltSeeds :: "(int, bytes list) gomap"
  ltMACKeys :: mac_table
  ltB :: vec
  ltKey :: bytes
  ltSent :: "nat \<Rightarrow> Party \<times> matrix \<times> (int, bytes) gomap"
  ltE :: "nat \<Rightarrow> matrix"

definition local_seed :: bytes where
  "local_seed = replicate KeySize 0"

definition local_source :: "'s env \<Rightarrow> ring_ops \<Rightarrow> 's" where
  "local_source en rg = NewUniformSampler (envSampling en) rg (NewKeyedPRNG (envSampling en) local_seed)"

definition trace_keys :: "'s env \<Rightarrow> (u64 \<Rightarrow> bool) \<Rightarrow> (u64 list \<Rightarrow> u64 \<Rightarrow> u64 list res) \<Rightarrow> ring_ops \<Rightarrow> ring_ops \<Rightarrow> nat \<Rightarrow> local_trace \<Rightarrow> bool" where
  "trace_keys en isPrime lagr rg rx n tr \<longleftrightarrow>
     ComputeLagrangeCoefficients isPrime lagr rg (map int [0..<n]) corona_q = Inr (ltLambda tr) \<and>
     (\<exists>st st'. Gen_state en (int n) (int n) rg rx (local_source en rg) local_seed (ltLambda tr)
         = Inr (ltA tr, ltShares tr, ltSeeds tr, ltMACKeys tr, ltB tr, st) \<and> GenerateRandomSeed st = Inr (ltKey tr, st'))"

text \<open>Every party returns from round 1, and its commitment is \<open>A R + E\<close> for the nonces it sampled.\<close>

definition trace_round1 :: "'s env \<Rightarrow> ring_ops \<Rightarrow> ring_ops \<Rightarrow> ring_ops \<Rightarrow> nat \<Rightarrow> (nat \<Rightarrow> bytes) \<Rightarrow> local_trace \<Rightarrow> bool" where
  "trace_round1 en rg rx rn n rnd tr \<longleftrightarrow> (\<forall>i < n.
     local_round1 en (ltA tr) (ltLambda tr) (ltSeeds tr) (ltKey tr) (map int [0..<n])
       (local_party en rg rx rn rnd (ltShares tr) (ltSeeds tr) (ltMACKeys tr) i) = Inr (ltSent tr i) \<and>
     local_nonces en rg n rnd (ltShares tr) i = Inr (pR (fst (ltSent tr i)), ltE tr i) \<and>
     r1_commits rg (ltA tr) (ltSent tr i) (ltE tr i))"

definition sent_D :: "nat \<Rightarrow> local_trace \<Rightarrow> (int, matrix) gomap" where
  "sent_D n tr = map (\<lambda>i. (int i, fst (snd (ltSent tr i)))) [0..<n]"

definition sent_MACs :: "nat \<Rightarrow> local_trace \<Rightarrow> mac_table" where
  "sent_MACs n tr = map (\<lambda>i. (int i, snd (snd (ltSent tr i)))) [0..<n]"

text \<open>What every party finds in the preprocessing: no MAC fails, the sum of the commitments, its rank
  and the transcript hash.\<close>

definition trace_sum :: "'s env \<Rightarrow> ring_ops \<Rightarrow> nat \<Rightarrow> local_trace \<Rightarrow> matrix \<Rightarrow> bytes \<Rightarrow> bool \<Rightarrow> bool" where
  "trace_sum en rg n tr DSum h full \<longleftrightarrow>
     (\<forall>i < n. check_MACs en (fst (ltSent tr i)) (sent_D n tr) (sent_MACs n tr) 1 (map int [0..<n]) (map int [0..<n]) = Inr True) \<and>
     sum_D rg (sent_D n tr) (InitializeMatrix rg dimM (Suc Dbar)) (map int [0..<n]) = Inr (Some DSum) \<and>
     FullRankCheck DSum rg = Inr full \<and>
     Hash en (Some (Default (envXof en))) (ltA tr) (ltB tr) (sent_D n tr) 1 (map int [0..<n]) = Inr h"

text \<open>Round 2 and the combination by party 0: every party returns a response, all hold the challenge \<open>c\<close>
  hashed from the rounded \<open>D u\<close>, and the combined response satisfies the signing equation.\<close>

definition trace_signed ::
  "'s env \<Rightarrow> ring_ops \<Rightarrow> ring_ops \<Rightarrow> ring_ops \<Rightarrow> ((int, vec) gomap \<Rightarrow> (int, vec) gomap) \<Rightarrow> nat \<Rightarrow> local_trace \<Rightarrow> matrix \<Rightarrow> bytes \<Rightarrow>
   vec \<Rightarrow> vec \<Rightarrow> (nat \<Rightarrow> Party \<times> vec) \<Rightarrow> poly \<Rightarrow> vec \<Rightarrow> vec \<Rightarrow> bool" where
  "trace_signed en rg rx rn ord n tr DSum h b e g c z Delta \<longleftrightarrow>
     (\<forall>i < n. local_round2 en (ltA tr) (ltB tr) (sent_D n tr) (sent_MACs n tr) (ltKey tr) (map int [0..<n]) ''Message'' (fst (ltSent tr i))
         = Inr (g i) \<and> pC (fst (g i)) = c) \<and>
     challenge_of en rg rn (ltA tr) (ltB tr) DSum ''Message'' (round2_u en (fst (ltSent tr 0)) h ''Message'') (pH (fst (g 0))) c \<and>
     SignFinalize (fst (g 0)) (ord (map (\<lambda>i. (int i, snd (g i))) [0..<n])) (ltA tr) (ltB tr) = Inr (c, z, Delta) \<and>
     signing_eq rg (ltA tr) z DSum (round2_u en (fst (ltSent tr 0)) h ''Message'') (map (ltE tr) [0..<n]) b e c"

text \<open>The verdict: hint and response are within the norm bound, where the two rounded vectors are in the
  range of the rounding ring.\<close>

definition trace_verdict :: "ring_ops \<Rightarrow> ring_ops \<Rightarrow> ring_ops \<Rightarrow> local_trace \<Rightarrow> vec \<Rightarrow> poly \<Rightarrow> vec \<Rightarrow> vec \<Rightarrow> bool res \<Rightarrow> bool" where
  "trace_verdict rg rx rn tr hr c z Delta run \<longleftrightarrow> (\<exists>w. rounded_Az_bc rg rx rn (ltA tr) z (ltB tr) c = Inr w \<and>
     VectorSub rn hr w (InitializeVector rn dimM) = Inr Delta \<and>
     (vec_ok rn dimM hr \<and> vec_ok rn dimM w \<longrightarrow> run =
        Inr (sum_squares rg (map (\<lambda>p. [map (push_bit Nu) (hd p)]) Delta) + sum_squares rg (ConvertVectorFromNTT rg z) \<le> Bsquare)))"

lemma local_once_trace:
  assumes "newRing (2 ^ LogN) corona_q = (rg, o1)" "newRing (2 ^ LogN) QXi = (rx, o2)" "newRing (2 ^ LogN) QNu = (rn, o3)"
    and keys: "trace_keys en isPrime lagr rg rx n tr" and r1: "trace_round1 en rg rx rn n rnd tr"
    and id: "\<forall>i < n. pID (fst (ltSent tr i)) = int i"
  shows "local_once en isPrime lagr newRing ord (int n) (int n) rnd =
    rbind (mapM (local_round2 en (ltA tr) (ltB tr) (sent_D n tr) (sent_MACs n tr) (ltKey tr) (map int [0..<n]) ''Message'')
        (map (\<lambda>i. fst (ltSent tr i)) [0..<n]))
      (\<lambda>r2. case r2 of [] \<Rightarrow> Inl Panic
       | (finalParty, _) # _ \<Rightarrow> rbind (SignFinalize finalParty (ord (map (\<lambda>(p, z). (pID p, z)) r2)) (ltA tr) (ltB tr)) (\<lambda>(_, sig, Delta).
           Verify en rg rx rn sig (ltA tr) ''Message'' (ltB tr) (pC finalParty) Delta))"
proof -
  obtain st st' where k: "ComputeLagrangeCoefficients isPrime lagr rg (map int [0..<n]) corona_q = Inr (ltLambda tr)"
    "Gen_state en (int n) (int n) rg rx (NewUniformSampler (envSampling en) rg (NewKeyedPRNG (envSampling en) (replicate KeySize 0)))
      (replicate KeySize 0) (ltLambda tr) = Inr (ltA tr, ltShares tr, ltSeeds tr, ltMACKeys tr, ltB tr, st)"
    "GenerateRandomSeed st = Inr (ltKey tr, st')"
    using keys unfolding trace_keys_def local_source_def local_seed_def by blast
  have m: "mapM (local_round1 en (ltA tr) (ltLambda tr) (ltSeeds tr) (ltKey tr) (map int [0..<n]))
      (map (local_party en rg rx rn rnd (ltShares tr) (ltSeeds tr) (ltMACKeys tr)) [0..<n]) = Inr (map (ltSent tr) [0..<n])"
    unfolding mapM_Inr_iff using r1 by (simp add: trace_round1_def)
  have D: "map (\<lambda>(p, D, M). (pID p, D)) (map (ltSent tr) [0..<n]) = sent_D n tr"
    "map (\<lambda>(p, D, M). (pID p, M)) (map (ltSent tr) [0..<n]) = sent_MACs n tr"
    "map fst (map (ltSent tr) [0..<n]) = map (\<lambda>i. fst (ltSent tr i)) [0..<n]"
    using id by (simp_all add: sent_D_def sent_MACs_def case_prod_unfold)
  show ?thesis unfolding local_once_def Let_def nat_int assms(1-3) k m fst_conv rbind.simps prod.case D by simp
qed

lemma gen_randomness:
  assumes "gen_result rg rx n n lam (A, sks, seeds, mk, bT, st) s e b" "2 \<le> n"
  shows "\<exists>key st'. GenerateRandomSeed st = Inr (key, st')"
proof -
  have "2 * 1 \<le> int n * (int n - 1)" using assms(2) by (intro mult_mono) auto
  then have "int keySize \<le> rand_left st" using assms(1) by (simp add: gen_result_def keySize_def)
  then show ?thesis using GetRandomBytes_left unfolding GenerateRandomSeed_def by blast
qed

text \<open>The first half of a run always goes through.\<close>

lemma trace_first_half:
  assumes "local_rings newRing rg rx rn" "local_env_ok en rg" "local_rand en n rnd" "local_lagrange isPrime lagr n" "2 \<le> n"
  shows "\<exists>tr w st b. trace_keys en isPrime lagr rg rx n tr \<and> trace_round1 en rg rx rn n rnd tr \<and>
    ltLambda tr = map (\<lambda>i. rSetCoefficientsBigint rg [w i]) [0..<n] \<and> ltA tr = dealer_matrix en rg (local_source en rg) \<and>
    gen_result rg rx n n (ltLambda tr) (ltA tr, ltShares tr, ltSeeds tr, ltMACKeys tr, ltB tr, st)
      (dealer_secret en rg local_seed) (dealer_error en rg local_seed) b \<and>
    (\<forall>i < n. r1_sent en (ltA tr) (ltKey tr) (map int [0..<n]) (ltMACKeys tr) i (ltSent tr i) \<and> r1_commits rg (ltA tr) (ltSent tr i) (ltE tr i) \<and>
       r1_party en rg rx rn (ltLambda tr) (ltShares tr) (ltSeeds tr) (ltMACKeys tr) i (fst (ltSent tr i)))"
proof -
  let ?T = "map int [0..<n]"
  have lr: "lattice_ring rg" and q: "rModulus rg = corona_q" and rx: "coeff_ring rx" "rN rx = rN rg"
    using assms(1) unfolding local_rings_def by blast+
  have n: "1 \<le> n" using assms(5) by simp
  have sm: "sampling_ok (envSampling en) rg" and b3: "\<And>key m. length (blake3 (envXof en) key m) = m"
    using assms(2) unfolding local_env_ok_def by blast+
  obtain w where "ComputeLagrangeCoefficients isPrime lagr rg ?T corona_q = Inr (map (\<lambda>i. rSetCoefficientsBigint rg [w i]) [0..<n])"
    "lambdas_ok rg n (map (\<lambda>i. rSetCoefficientsBigint rg [w i]) [0..<n])"
    using lattice_ring.lagrange_coefficients[OF lr assms(4) q] n by blast
  moreover define la where "la = map (\<lambda>i. rSetCoefficientsBigint rg [w i]) [0..<n]"
  ultimately have la: "ComputeLagrangeCoefficients isPrime lagr rg ?T corona_q = Inr la" "lambdas_ok rg n la" by simp_all
  define A where "A = dealer_matrix en rg (local_source en rg)"
  obtain sks seeds mk bT st b where g: "Gen_state en (int n) (int n) rg rx (local_source en rg) local_seed la = Inr (A, sks, seeds, mk, bT, st)"
    "gen_result rg rx n n la (A, sks, seeds, mk, bT, st) (dealer_secret en rg local_seed) (dealer_error en rg local_seed) b"
    using lattice_ring.Gen_total[OF lr sm rx n order.refl la(2) b3, of "local_source en rg" local_seed] unfolding A_def by blast
  obtain key st' where key: "GenerateRandomSeed st = Inr (key, st')" using gen_randomness[OF g(2) assms(5)] by blast
  have A: "mat_ok rg dimM dimN A" using g(2) by (simp add: gen_result_def)
  obtain f E where f: "\<forall>i < n. local_round1 en A la seeds key ?T (local_party en rg rx rn rnd sks seeds mk i) = Inr (f i) \<and>
      r1_sent en A key ?T mk i (f i) \<and> r1_commits rg A (f i) (E i) \<and>
      r1_party en rg rx rn la sks seeds mk i (fst (f i)) \<and> local_nonces en rg n rnd sks i = Inr (pR (fst (f i)), E i)"
    using round1_all[OF lr assms(2,3) _ A, of la seeds key rx rn sks mk] by (auto simp: la_def)
  define tr where "tr = \<lparr> ltLambda = la, ltA = A, ltShares = sks, ltSeeds = seeds, ltMACKeys = mk, ltB = bT, ltKey = key, ltSent = f, ltE = E \<rparr>"
  have "trace_keys en isPrime lagr rg rx n tr" using la(1) g(1) key by (simp add: trace_keys_def tr_def)
  moreover have "trace_round1 en rg rx rn n rnd tr" using f by (simp add: trace_round1_def tr_def)
  ultimately show ?thesis using f g(2) A_def
    by (intro exI[of _ tr] exI[of _ w] exI[of _ st] exI[of _ b]) (simp add: tr_def la_def)
qed

lemma trace_second_half:
  assumes rings: "local_rings newRing rg rx rn" and env: "local_env_ok en rg" and n: "1 \<le> n" and ord: "\<And>zs. mset (ord zs) = mset zs"
    and gen: "gen_result rg rx n n (ltLambda tr) (ltA tr, ltShares tr, ltSeeds tr, ltMACKeys tr, ltB tr, st) s e b"
    and lam: "ltLambda tr = map (\<lambda>i. rSetCoefficientsBigint rg [w i]) [0..<n]"
    and f: "\<forall>i < n. r1_sent en (ltA tr) (ltKey tr) (map int [0..<n]) (ltMACKeys tr) i (ltSent tr i) \<and> r1_commits rg (ltA tr) (ltSent tr i) (ltE tr i) \<and>
       r1_party en rg rx rn (ltLambda tr) (ltShares tr) (ltSeeds tr) (ltMACKeys tr) i (fst (ltSent tr i))"
    and D: "mat_ok rg dimM (Suc Dbar) DSum" "sum_D rg (sent_D n tr) (InitializeMatrix rg dimM (Suc Dbar)) (map int [0..<n]) = Inr (Some DSum)"
      "\<forall>i < n. map_of (sent_D n tr) (int i) = Some (fst (snd (ltSent tr i)))"
    and pre: "\<forall>i < n. SignRound2Preprocess en (fst (ltSent tr i)) (ltA tr) (ltB tr) (sent_D n tr) (sent_MACs n tr) 1 (map int [0..<n]) = Inr (Some (DSum, h))"
    and run: "run = rbind (mapM (local_round2 en (ltA tr) (ltB tr) (sent_D n tr) (sent_MACs n tr) (ltKey tr) (map int [0..<n]) ''Message'')
        (map (\<lambda>i. fst (ltSent tr i)) [0..<n]))
      (\<lambda>r2. case r2 of [] \<Rightarrow> Inl Panic
       | (finalParty, _) # _ \<Rightarrow> rbind (SignFinalize finalParty (ord (map (\<lambda>(p, z). (pID p, z)) r2)) (ltA tr) (ltB tr)) (\<lambda>(_, sig, Delta).
           Verify en rg rx rn sig (ltA tr) ''Message'' (ltB tr) (pC finalParty) Delta))"
  shows "\<exists>g c z Delta. trace_signed en rg rx rn ord n tr DSum h b e g c z Delta \<and>
    trace_verdict rg rx rn tr (pH (fst (g 0))) c z Delta run \<and> run = Verify en rg rx rn z (ltA tr) ''Message'' (ltB tr) c Delta"
proof -
  let ?T = "map int [0..<n]" and ?A = "ltA tr" and ?bT = "ltB tr" and ?f = "ltSent tr"
  have lr: "lattice_ring rg" and rn: "coeff_ring rn" "rN rn = rN rg" using rings unfolding local_rings_def by blast+
  obtain sh st0 st1 where G: "vec_ok rg dimN s" "ShamirSecretSharing rg s (int n) (ltLambda tr) st0 = Inr (sh, st1)"
    "ltShares tr = map (\<lambda>(i, v). (i, ConvertVectorToNTT rg v)) sh" "gen_tables n st1 = Inr (ltSeeds tr, ltMACKeys tr, st)"
    using gen unfolding gen_result_def prod.case by blast
  have ok: "signer_ok rg (fst (?f i)) \<and> r1_party en rg rx rn (ltLambda tr) (ltShares tr) (ltSeeds tr) (ltMACKeys tr) i (fst (?f i))" if i: "i < n" for i
    using r1_signer_ok[OF lr G(1) lam G(2,3) i] f i by blast
  obtain g where g: "mapM (local_round2 en ?A ?bT (sent_D n tr) (sent_MACs n tr) (ltKey tr) ?T ''Message'') (map fst (map ?f [0..<n])) = Inr (map g [0..<n])"
    "\<forall>i < n. SignRound2 en (fst (?f i)) ?A ?bT DSum 1 ''Message'' ?T (ltKey tr) h = Inr (g i)"
    using round2_all[OF lr env rn D(1) conjunct1[OF conjunct2[OF gen_tables_spec[OF G(4)]]] ok pre, of "ltKey tr" "''Message''"] by blast
  obtain z wv Delta c where H: "SignFinalize (fst (g 0)) (ord (map (\<lambda>i. (int i, snd (g i))) [0..<n])) ?A ?bT = Inr (c, z, Delta)"
    "\<forall>i < n. pC (fst (g i)) = c \<and> pID (fst (g i)) = int i"
    "challenge_of en rg rn ?A ?bT DSum ''Message'' (round2_u en (fst (?f 0)) h ''Message'') (pH (fst (g 0))) c"
    "signing_eq rg ?A z DSum (round2_u en (fst (?f 0)) h ''Message'') (map (ltE tr) [0..<n]) b e c"
    "rounded_Az_bc rg rx rn ?A z ?bT c = Inr wv" "VectorSub rn (pH (fst (g 0))) wv (InitializeVector rn dimM) = Inr Delta"
    "vec_ok rn dimM (pH (fst (g 0))) \<and> vec_ok rn dimM wv \<longrightarrow> Verify en rg rx rn z ?A ''Message'' ?bT c Delta =
      Inr (sum_squares rg (map (\<lambda>p. [map (push_bit Nu) (hd p)]) Delta) + sum_squares rg (ConvertVectorFromNTT rg z) \<le> Bsquare)"
    using signing_half[OF rings env n ord gen lam f D(2,3) g(2)] by blast
  have r2: "\<forall>i < n. local_round2 en ?A ?bT (sent_D n tr) (sent_MACs n tr) (ltKey tr) ?T ''Message'' (fst (?f i)) = Inr (g i)"
    using g(2) pre by (simp add: local_round2_def)
  have zs: "map (\<lambda>(p, z). (pID p, z)) (map g [0..<n]) = map (\<lambda>i. (int i, snd (g i))) [0..<n]" using H(2) by (simp add: case_prod_unfold)
  obtain gs where up: "map g [0..<n] = g 0 # gs" using n by (simp add: upt_conv_Cons)
  have m: "mapM (local_round2 en ?A ?bT (sent_D n tr) (sent_MACs n tr) (ltKey tr) ?T ''Message'') (map (\<lambda>i. fst (?f i)) [0..<n]) = Inr (g 0 # gs)"
    using g(1) up by (simp add: comp_def)
  have "run = Verify en rg rx rn z ?A ''Message'' ?bT c Delta"
    unfolding run m rbind.simps list.case using H(1,2) zs n unfolding up by (simp add: case_prod_unfold)
  moreover from this have "trace_verdict rg rx rn tr (pH (fst (g 0))) c z Delta run" using H(5-7) unfolding trace_verdict_def by blast
  moreover have "trace_signed en rg rx rn ord n tr DSum h b e g c z Delta" unfolding trace_signed_def using H(1-4) r2 by blast
  ultimately show ?thesis by blast
qed

text \<open>
  C4: one run of the protocol. With the rings of the library, samplers, serialiser and hash as
  documented, usable randomness for every party and two parties or more, key generation and round
  1 go through: the public key is the rounding of \<open>b = A s + e\<close> for the matrix, the secret and the error the
  dealer sampled, every party commits to \<open>A R + E\<close> for the nonces it sampled, and every party accepts
  every MAC. There are two outcomes. If the sum \<open>D\<close> of the commitments has full rank, every party returns
  a response from round 2, all hold one challenge \<open>c\<close>, hashed from the rounded \<open>D u\<close>, the
  combined response \<open>z\<close> satisfies \<open>A z = D u + b c - (sum of the E_i u + e c)\<close>, and the run prints
  what \<^verbatim>\<open>Verify\<close> says of it: whether hint and response are within the norm bound, provided
  the two rounded vectors are in the range of the rounding ring. If \<open>D\<close> has not, the run
  ends with the error that says a MAC did not verify, although all MACs did.
\<close>

theorem local_run:
  assumes "local_rings newRing rg rx rn" "local_env_ok en rg" "local_rand en n rnd" "local_lagrange isPrime lagr n" "2 \<le> n"
    and "\<And>zs. mset (ord zs) = mset zs"
  shows "\<exists>tr b0 b DSum h full. trace_keys en isPrime lagr rg rx n tr \<and> trace_round1 en rg rx rn n rnd tr \<and>
    ltA tr = dealer_matrix en rg (local_source en rg) \<and> MatrixVectorMul rg (ltA tr) (ConvertVectorToNTT rg (dealer_secret en rg local_seed)) (InitializeVector rg dimM) = Inr b0 \<and>
    VectorAdd rg b0 (dealer_error en rg local_seed) b0 = Inr b \<and> RoundVector rx (ConvertVectorFromNTT rg b) Xi = Inr (ltB tr) \<and>
    trace_sum en rg n tr DSum h full \<and>
    (if full then \<exists>g c z Delta. trace_signed en rg rx rn ord n tr DSum h b (dealer_error en rg local_seed) g c z Delta \<and>
        local_once en isPrime lagr newRing ord (int n) (int n) rnd = Verify en rg rx rn z (ltA tr) ''Message'' (ltB tr) c Delta \<and>
        trace_verdict rg rx rn tr (pH (fst (g 0))) c z Delta (local_once en isPrime lagr newRing ord (int n) (int n) rnd)
     else local_once en isPrime lagr newRing ord (int n) (int n) rnd = Inl (ErrMsg ''MAC did not verify''))"
proof -
  let ?T = "map int [0..<n]" and ?run = "local_once en isPrime lagr newRing ord (int n) (int n) rnd"
  obtain o1 o2 o3 where nr: "newRing (2 ^ LogN) corona_q = (rg, o1)" "newRing (2 ^ LogN) QXi = (rx, o2)" "newRing (2 ^ LogN) QNu = (rn, o3)"
    using assms(1) unfolding local_rings_def by (metis prod.collapse)
  have lr: "lattice_ring rg" and q: "rModulus rg = corona_q" using assms(1) unfolding local_rings_def by blast+
  have n: "1 \<le> n" using assms(5) by simp
  obtain tr w st b where tr: "trace_keys en isPrime lagr rg rx n tr" "trace_round1 en rg rx rn n rnd tr"
    "ltLambda tr = map (\<lambda>i. rSetCoefficientsBigint rg [w i]) [0..<n]" "ltA tr = dealer_matrix en rg (local_source en rg)"
    "gen_result rg rx n n (ltLambda tr) (ltA tr, ltShares tr, ltSeeds tr, ltMACKeys tr, ltB tr, st)
      (dealer_secret en rg local_seed) (dealer_error en rg local_seed) b"
    "\<forall>i < n. r1_sent en (ltA tr) (ltKey tr) ?T (ltMACKeys tr) i (ltSent tr i) \<and> r1_commits rg (ltA tr) (ltSent tr i) (ltE tr i) \<and>
       r1_party en rg rx rn (ltLambda tr) (ltShares tr) (ltSeeds tr) (ltMACKeys tr) i (fst (ltSent tr i))"
    using trace_first_half[OF assms(1-5)] by blast
  obtain b0 sh st0 st1 where G: "mat_ok rg dimM dimN (ltA tr)"
    "MatrixVectorMul rg (ltA tr) (ConvertVectorToNTT rg (dealer_secret en rg local_seed)) (InitializeVector rg dimM) = Inr b0"
    "VectorAdd rg b0 (dealer_error en rg local_seed) b0 = Inr b" "RoundVector rx (ConvertVectorFromNTT rg b) Xi = Inr (ltB tr)"
    "gen_tables n st1 = Inr (ltSeeds tr, ltMACKeys tr, st)"
    using tr(5) unfolding gen_result_def prod.case by blast
  have "\<forall>i < n. pID (fst (ltSent tr i)) = int i" using tr(6) by (simp add: r1_party_def)
  note once = local_once_trace[where newRing = newRing and ord = ord, OF nr tr(1,2) this]
  obtain DSum h full where P: "mat_ok rg dimM (Suc Dbar) DSum" "trace_sum en rg n tr DSum h full"
    "\<forall>i < n. map_of (sent_D n tr) (int i) = Some (fst (snd (ltSent tr i)))"
    "\<forall>i < n. SignRound2Preprocess en (fst (ltSent tr i)) (ltA tr) (ltB tr) (sent_D n tr) (sent_MACs n tr) 1 ?T = Inr (if full then Some (DSum, h) else None)"
    using preprocess_all[OF lr q assms(2) conjunct1[OF gen_tables_spec[OF G(5)]] G(1) tr(6)[rule_format] sent_D_def sent_MACs_def, of "ltB tr"]
    unfolding trace_sum_def by blast
  have "?run = Inl (ErrMsg ''MAC did not verify'')" if "\<not> full"
    using P(4) n that unfolding once by (simp add: upt_conv_Cons local_round2_def)
  moreover have "\<exists>g c z Delta. trace_signed en rg rx rn ord n tr DSum h b (dealer_error en rg local_seed) g c z Delta \<and>
      ?run = Verify en rg rx rn z (ltA tr) ''Message'' (ltB tr) c Delta \<and> trace_verdict rg rx rn tr (pH (fst (g 0))) c z Delta ?run" if full
    using trace_second_half[OF assms(1,2) n assms(6) tr(5,3,6) P(1) _ P(3) _ once, of h] P(2,4) that unfolding trace_sum_def by auto
  ultimately show ?thesis using tr(1,2,4) G(2-4) P(2)
    by (intro exI[of _ tr] exI[of _ b0] exI[of _ b] exI[of _ DSum] exI[of _ h] exI[of _ full]) (simp split: if_split)
qed

section \<open>A run of one party\<close>

text \<open>A single party has no MAC keys: its seed takes the last byte of the buffer.\<close>

lemma gen_tables_one:
  assumes "gen_tables 1 st = Inr (seeds, mk, st')"
  shows "rand_left st' = rand_left st - 32"
proof -
  obtain b st1 where s: "GetRandomBytes st (int KeySize) = Inr (b, st1)" "st' = st1"
    using assms by (auto simp: gen_tables_def gen_row_def gen_pair_def res_simps Let_def)
  then show ?thesis by (auto simp: GetRandomBytes_def rand_left_def KeySize_def Let_def split: if_splits)
qed

text \<open>
  C38: a run of one party ends the process. Key generation fills its buffer with 32 bytes for each
  ordered pair of parties and 32 for each MAC key and returns, but with one party nothing is left of
  it, and drawing the key of the pseudorandom function reads past its end.
\<close>

theorem local_run_alone:
  assumes "local_rings newRing rg rx rn" "local_env_ok en rg" "local_lagrange isPrime lagr 1"
  shows "local_once en isPrime lagr newRing ord 1 1 rnd = Inl Panic"
proof -
  let ?key0 = "replicate KeySize (0 :: u8)"
  let ?us = "NewUniformSampler (envSampling en) rg (NewKeyedPRNG (envSampling en) ?key0)"
  have nr: "fst (newRing (2 ^ LogN) corona_q) = rg" "fst (newRing (2 ^ LogN) QXi) = rx" "fst (newRing (2 ^ LogN) QNu) = rn"
    and lr: "lattice_ring rg" and q: "rModulus rg = corona_q" and rx: "coeff_ring rx" "rN rx = rN rg"
    using assms(1) unfolding local_rings_def by blast+
  have sm: "sampling_ok (envSampling en) rg" and b3: "\<And>key m. length (blake3 (envXof en) key m) = m"
    using assms(2) unfolding local_env_ok_def by blast+
  obtain la where lam: "ComputeLagrangeCoefficients isPrime lagr rg (map int [0..<1]) corona_q = Inr la" "lambdas_ok rg 1 la"
    using lattice_ring.lagrange_coefficients[OF lr assms(3) q] by blast
  obtain A sks seeds mk bT st s e b where gen: "Gen_state en (int 1) (int 1) rg rx ?us ?key0 la = Inr (A, sks, seeds, mk, bT, st)"
    "gen_result rg rx 1 1 la (A, sks, seeds, mk, bT, st) s e b"
    using lattice_ring.Gen_total[OF lr sm rx order.refl order.refl lam(2) b3, of ?us ?key0] by blast
  obtain st1 where tab: "gen_tables 1 st1 = Inr (seeds, mk, st)"
    and "rand_left st1 = 32 * int 1 * int 1 + 32 * int 1 * (int 1 - 1) + int dimN * int (rN rg) * (int 1 - int 1) * int (byte_len (rModulus rg))"
    using gen(2) unfolding gen_result_def prod.case by blast
  then have "rand_left st1 = 32" by simp
  then have "rand_left st = 0" using gen_tables_one[OF tab] by simp
  then have "GenerateRandomSeed st = Inl Panic"
    by (auto simp: GenerateRandomSeed_def GetRandomBytes_def rand_left_def keySize_def Let_def split: if_splits)
  then show ?thesis using lam(1) gen(1) by (simp add: local_once_def Let_def nr)
qed

section \<open>A run of two parties\<close>

text \<open>A ring of any degree with a transform that is not the identity and takes the constant one to
  ones everywhere: the first coefficient is added to all the others.\<close>

definition wide_ring :: "nat \<Rightarrow> ring_ops" where
  "wide_ring n = slot_ring n
     \<lparr> rNTT := (\<lambda>a. pbuild corona_q n (\<lambda>k. if k = 0 then pcoef a 0 else pcoef a k + pcoef a 0)),
       rINTT := (\<lambda>a. pbuild corona_q n (\<lambda>k. if k = 0 then pcoef a 0 else pcoef a k - pcoef a 0)) \<rparr>"

lemma wide_ring_simps [simp]: "rN (wide_ring n) = n" "rModulus (wide_ring n) = corona_q"
  by (simp_all add: wide_ring_def)

lemma lattice_ring_wide_ring:
  assumes n: "0 < n"
  shows "lattice_ring (wide_ring n)"
proof (rule lattice_ring.intro)
  show "coeff_ring (wide_ring n)"
    using n by unfold_locales (auto simp: wide_ring_def slot_ring_def coeff_ops_def ref_ring_def)
  have inv: "pbuild corona_q n (\<lambda>k. if k = 0 then pcoef (pbuild corona_q n (\<lambda>k. if k = 0 then pcoef a 0 else f k)) 0
      else g (pcoef (pbuild corona_q n (\<lambda>k. if k = 0 then pcoef a 0 else f k)) k)
             (pcoef (pbuild corona_q n (\<lambda>k. if k = 0 then pcoef a 0 else f k)) 0)) = a"
    if a: "pvalid corona_q n a" and fg: "\<And>k. k < n \<Longrightarrow> g (f k mod corona_q) (pcoef a 0) mod corona_q = pcoef a k" for a f g
    by (rule pvalid_eqI[of corona_q n]) (use a fg n in simp_all)
  show "lattice_ring_axioms (wide_ring n)"
  proof (rule lattice_ring_axioms.intro, goal_cases)
    case (8 a)
    then show ?case using inv[of a "\<lambda>x y. x - y" "\<lambda>k. pcoef a k + pcoef a 0"] by (simp add: wide_ring_def mod_diff_left_eq)
  next
    case (9 a)
    then show ?case using inv[of a "\<lambda>x y. x + y" "\<lambda>k. pcoef a k - pcoef a 0"] by (simp add: wide_ring_def mod_add_left_eq)
  next
    case (10 a b)
    then show ?case
      using n by (auto simp: wide_ring_def slot_ring_def coeff_ops_def ref_ring_def mod_add_eq algebra_simps intro!: pbuild_cong)
  qed (use slot_MForm_IMForm ref.odd_modulus in \<open>simp_all add: wide_ring_def slot_ring_def coeff_ops_def ref_ring_def slot_Mul_def\<close>)
qed

lemma wide_ring_one: "0 < n \<Longrightarrow> rNTT (wide_ring n) (rSetCoefficientsBigint (wide_ring n) [1]) = pbuild corona_q n (\<lambda>k. 1)"
  by (auto simp: wide_ring_def slot_ring_def coeff_ops_def intro!: pbuild_cong)

definition wide_rings :: ring_maker where
  "wide_rings n q = (if q = corona_q then (wide_ring 8, True) else (coeff_ops q 8, True))"

lemma wide_rings_ok: "local_rings wide_rings (wide_ring 8) (coeff_ops 262144 8) (coeff_ops 524288 8)"
proof -
  have c: "coeff_ring (coeff_ops 262144 8)" "coeff_ring (coeff_ops 524288 8)" "rN (coeff_ops x 8) = 8" for x
    by (simp_all add: coeff_ring_coeff_ops) (simp add: coeff_ops_def)
  have r: "fst (wide_rings m corona_q) = wide_ring 8" "fst (wide_rings m QXi) = coeff_ops 262144 8"
    "fst (wide_rings m QNu) = coeff_ops 524288 8" for m
    by (simp_all add: wide_rings_def corona_q_def QXi_def QNu_def)
  show ?thesis
    using lattice_ring_wide_ring[of 8] wide_ring_one[of 8] unfolding local_rings_def r by (simp add: c dimM_def)
qed

lemma ex8_local_env: "local_env_ok ex8_env (wide_ring 8)"
  using ex8_sampling_ok ex8_encodes
  by (auto simp: local_env_ok_def sampling_ok_def ex8_env_def ex_env_def ex8_sampling_def ex_sampling_def ex_xof_def)

text \<open>Two parties at the points 1 and 2: the coefficients are 2 and -1.\<close>

definition two_point_lagrange :: "u64 list \<Rightarrow> u64 \<Rightarrow> u64 list res" where
  "two_point_lagrange xs q = Inr [2, q - 1]"

theorem local_run_alone_witness:
  "local_once ex8_env (\<lambda>_. True) (\<lambda>xs q. Inr xs) wide_rings (\<lambda>zs. zs) 1 1 (\<lambda>_. []) = Inl Panic"
  using local_run_alone[OF wide_rings_ok ex8_local_env, of "\<lambda>_. True" "\<lambda>xs q. Inr xs"]
  by (simp add: local_lagrange_def corona_q_def)

end
