(* ===== verification/Session_Example.thy ===== *)
theory Session_Example
  imports Local_Session
begin

text \<open>
  A run of two parties that reaches the verification: samplers whose noise matrices are a unit
  matrix, so that the sum of the commitments has full rank. The properties of a run and of the
  preprocessing are applied to it.
\<close>

section \<open>Samplers that count\<close>

definition sampled :: "ring_ops \<Rightarrow> bool \<Rightarrow> bool \<Rightarrow> poly \<Rightarrow> poly" where
  "sampled rg ntt mont p = (let p1 = (if ntt then rNTT rg p else p) in if mont then rMForm rg p1 else p1)"

lemma SamplePolyVector_counter:
  assumes "\<And>st. smp st = (p st, Suc st)"
  shows "SamplePolyVector rg n smp ntt mont st = (map (\<lambda>j. sampled rg ntt mont (p (st + j))) [0..<n], st + n)"
proof (induction n arbitrary: st)
  case (Suc n)
  have "[0..<Suc n] = 0 # map Suc [0..<n]" by (simp add: upt_conv_Cons map_Suc_upt del: upt_Suc)
  then show ?case using Suc.IH[of "Suc st"] assms by (simp add: sample_poly_def sampled_def Let_def comp_def del: upt_Suc)
qed simp

lemma SamplePolyMatrix_counter:
  assumes "\<And>st. smp st = (p st, Suc st)"
  shows "SamplePolyMatrix rg m n smp ntt mont st =
    (map (\<lambda>i. map (\<lambda>j. sampled rg ntt mont (p (st + i * n + j))) [0..<n]) [0..<m], st + m * n)"
proof (induction m arbitrary: st)
  case (Suc m)
  have "[0..<Suc m] = 0 # map Suc [0..<m]" by (simp add: upt_conv_Cons map_Suc_upt del: upt_Suc)
  then show ?case
    using Suc.IH[of "st + n"] by (simp add: SamplePolyVector_counter[OF assms] comp_def ac_simps del: upt_Suc)
qed simp

text \<open>Ones for the secret, the error and the first nonces, a unit matrix for the noise of the others.\<close>

definition unit_at :: "nat \<Rightarrow> bool" where
  "unit_at s \<longleftrightarrow> s < 15 \<or> 351 \<le> s \<and> (s - 351) mod 49 = 0"

definition unit_noise :: "nat \<Rightarrow> poly" where
  "unit_noise s = [(if unit_at s then 1 else 0) # replicate 7 0]"

definition unit_env :: "nat env" where
  "unit_env = ex8_env \<lparr> envSampling := ex8_sampling \<lparr> gaussRead := (\<lambda>s. (unit_noise s, Suc s)) \<rparr> \<rparr>"

lemma unit_env_simps [simp]:
  "envXof unit_env = ex_xof" "envCodec unit_env = envCodec ex8_env" "gaussRead (envSampling unit_env) = (\<lambda>s. (unit_noise s, Suc s))"
  "NewKeyedPRNG (envSampling unit_env) key = 0" "NewGaussianSampler (envSampling unit_env) rg ps s = s" "gaussPRNG (envSampling unit_env) s = s"
  by (simp_all add: unit_env_def ex8_env_def ex_env_def ex8_sampling_def ex_sampling_def)

lemma unit_env_ok: "local_env_ok unit_env (wide_ring 8)"
  using ex8_sampling_ok ex8_encodes
  by (auto simp: local_env_ok_def sampling_ok_def unit_env_def unit_noise_def ex8_env_def ex_env_def ex8_sampling_def ex_sampling_def ex_xof_def
      pvalid_def corona_q_def)

lemma unit_noise_valid: "pvalid corona_q 8 (unit_noise s)"
  by (simp add: pvalid_def unit_noise_def corona_q_def)

lemma unit_noise_slot:
  assumes "k < 8"
  shows "pcoef (sampled (wide_ring 8) True True (unit_noise s)) k = (if unit_at s then 2 ^ 64 mod corona_q else 0)"
proof -
  have c: "pcoef (unit_noise s) j = (if j = 0 \<and> unit_at s then 1 else 0)" if "j < 8" for j
    using that by (auto simp: pcoef_def unit_noise_def nth_Cons split: nat.split)
  have t: "rNTT (wide_ring 8) a = pbuild corona_q 8 (\<lambda>k. if k = 0 then pcoef a 0 else pcoef a k + pcoef a 0)" for a
    by (simp add: wide_ring_def)
  have lr: "lattice_ring (wide_ring 8)" by (rule lattice_ring_wide_ring) simp
  have v: "pvalid corona_q 8 (rNTT (wide_ring 8) (unit_noise s))" by (simp add: t)
  have "pcoef (rNTT (wide_ring 8) (unit_noise s)) k = (if unit_at s then 1 else 0)"
    using assms c[of k] c[of 0] by (simp add: t corona_q_def)
  then show ?thesis using lattice_ring.MForm[OF lr, of "rNTT (wide_ring 8) (unit_noise s)"] v assms by (simp add: sampled_def Let_def)
qed

text \<open>The commitments: the nonces are zero and the noise is the unit matrix, the first column apart.\<close>

lemma unit_nonces:
  assumes "round1_nonces unit_env (wide_ring 8) sk = (R, E)"
  shows "j < dimN \<Longrightarrow> c < Dbar \<Longrightarrow> k < 8 \<Longrightarrow> pcoef (R ! j ! Suc c) k = 0"
    and "r < dimM \<Longrightarrow> c < Dbar \<Longrightarrow> k < 8 \<Longrightarrow> pcoef (E ! r ! Suc c) k = (if r = c then 2 ^ 64 mod corona_q else 0)"
proof -
  let ?p = "\<lambda>s. sampled (wide_ring 8) True True (unit_noise s)"
  note cv = SamplePolyVector_counter[of "\<lambda>s. (unit_noise s, Suc s)" unit_noise, OF refl]
  note cm = SamplePolyMatrix_counter[of "\<lambda>s. (unit_noise s, Suc s)" unit_noise, OF refl]
  have RE: "R = map2 (#) (map ?p [0..<dimN]) (map (\<lambda>i. map (\<lambda>j. ?p (dimN + dimM + i * Dbar + j)) [0..<Dbar]) [0..<dimN])"
    "E = map2 (#) (map (\<lambda>j. ?p (dimN + j)) [0..<dimM])
      (map (\<lambda>i. map (\<lambda>j. ?p (dimN + dimM + dimN * Dbar + i * Dbar + j)) [0..<Dbar]) [0..<dimM])"
    using assms by (simp_all add: round1_nonces_def Let_def cv cm)
  have u: "\<not> unit_at (dimN + dimM + j * Dbar + c)" if "j < dimN" "c < Dbar" for j c
    using that by (simp add: unit_at_def dimN_def dimM_def Dbar_def)
  have w: "unit_at (dimN + dimM + dimN * Dbar + r * Dbar + c) \<longleftrightarrow> r = c" if "r < dimM" "c < Dbar" for r c
  proof -
    have "r = c" if h: "(r * 48 + c) mod 49 = 0" "r < 48" "c < 48"
    proof -
      obtain d where d: "r * 48 + c = 49 * d" using h(1) unfolding mod_eq_0_iff_dvd by (auto elim: dvdE)
      then have "d = r" using h(2,3) by linarith
      then show ?thesis using d by simp
    qed
    moreover have "(c * 48 + c) mod 49 = 0" by (simp flip: mult_Suc_right)
    ultimately have "(r * 48 + c) mod 49 = 0 \<longleftrightarrow> r = c" using that unfolding dimM_def Dbar_def by auto
    then show ?thesis by (simp add: unit_at_def dimN_def dimM_def Dbar_def)
  qed
  show "pcoef (R ! j ! Suc c) k = 0" if "j < dimN" "c < Dbar" "k < 8"
    using that u by (simp add: RE(1) unit_noise_slot)
  show "pcoef (E ! r ! Suc c) k = (if r = c then 2 ^ 64 mod corona_q else 0)" if "r < dimM" "c < Dbar" "k < 8"
    using that w by (simp add: RE(2) unit_noise_slot)
qed

section \<open>Full rank\<close>

lemma diagonal_independent:
  assumes x: "coprime x q" and n: "length rows \<le> n"
    and rows: "\<And>r c. r < length rows \<Longrightarrow> c < n \<Longrightarrow> rows ! r ! c = (if r = c then x else 0)"
  shows "independent q n rows"
  unfolding independent_def
proof (intro allI impI ballI)
  fix cs c assume v: "vanishes q n cs rows" and c: "c \<in> set cs"
  then have len: "length cs = length rows" by (simp add: vanishes_def)
  obtain i where i: "i < length rows" "c = cs ! i" using c len by (auto simp: in_set_conv_nth)
  have "lincomb cs rows i = (\<Sum>j<length rows. cs ! j * rows ! j ! i)"
    by (simp add: lincomb_def sum_list_sum_nth len atLeast0LessThan)
  also have "\<dots> = (\<Sum>j<length rows. if j = i then cs ! i * x else 0)"
    by (rule sum.cong) (use rows n i in auto)
  also have "\<dots> = c * x" using i by simp
  finally have "(c * x) mod q = 0" using v i(1) n unfolding vanishes_def by (metis order_less_le_trans)
  then have "q dvd c * x" by presburger
  then show "c mod q = 0" using x by (simp add: coprime_commute coprime_dvd_mult_left_iff mod_eq_0_iff_dvd)
qed

section \<open>The session\<close>

lemma two_parties: "[0..<2] = [0, Suc 0]"
  by (simp add: upt_rec)

lemma unit_rand: "local_rand unit_env 2 (\<lambda>_. replicate 32 1)"
  unfolding local_rand_def
proof (intro conjI allI impI)
  show "\<not> isZero32 (DeriveSessionID unit_env (Some (Default (envXof unit_env))) 1 (map int [0..<2]))"
    using ex8_session by (simp add: two_parties DeriveSessionID_def) (simp add: ex8_env_def ex_env_def)
  show "\<exists>salt rest. replicate 32 (1 :: u8) = salt @ rest \<and> length salt = 32 \<and> \<not> isZero32 salt"
    by (rule exI[of _ "replicate 32 1"], rule exI[of _ "[]"]) (simp add: isZero32_def ConstantTimeCompare_eq)
qed

lemma two_point_lagrange_ok: "local_lagrange (\<lambda>_. True) two_point_lagrange 2"
  by (auto simp: local_lagrange_def two_point_lagrange_def corona_q_def)

lemma unit_commitment:
  assumes tr: "trace_round1 unit_env (wide_ring 8) rx rn n rnd tr" and i: "i < n" and A: "mat_ok (wide_ring 8) dimM dimN (ltA tr)"
  shows "mat_ok (wide_ring 8) dimM (Suc Dbar) (fst (snd (ltSent tr i))) \<and> (\<forall>r < dimM. \<forall>c < Dbar. \<forall>k < 8.
    pcoef (fst (snd (ltSent tr i)) ! r ! Suc c) k mod corona_q = (if r = c then 2 ^ 64 mod corona_q else 0))"
proof -
  let ?rg = "wide_ring 8" and ?D = "fst (snd (ltSent tr i))" and ?R = "pR (fst (ltSent tr i))"
  have lr: "lattice_ring ?rg" by (rule lattice_ring_wide_ring) simp
  obtain sk where n: "round1_nonces unit_env ?rg sk = (?R, ltE tr i)"
    using tr i by (auto simp: trace_round1_def local_nonces_def res_simps)
  obtain D0 where o: "MatrixMatrixMul ?rg (ltA tr) ?R (InitializeMatrix ?rg dimM (Suc Dbar)) = Inr D0" "MatrixAdd ?rg (ltE tr i) D0 D0 = Inr ?D"
    "mat_ok ?rg dimN (Suc Dbar) ?R" "mat_ok ?rg dimM (Suc Dbar) (ltE tr i)"
    using tr i by (auto simp: trace_round1_def r1_commits_def case_prod_unfold)
  note s = lattice_ring.commitment_slot[OF lr A o(3,4,1,2)]
  have "pcoef (?D ! r ! Suc c) k mod corona_q = (if r = c then 2 ^ 64 mod corona_q else 0)" if "r < dimM" "c < Dbar" "k < 8" for r c k
  proof -
    have "(\<Sum>j<dimN. pcoef (ltA tr ! r ! j) k * pcoef (?R ! j ! Suc c) k) = 0"
      by (rule sum.neutral) (use unit_nonces(1)[OF n] that in simp)
    then have "pcoef (?D ! r ! Suc c) k mod corona_q = pcoef (ltE tr i ! r ! Suc c) k mod corona_q"
      using s that by simp
    then show ?thesis using unit_nonces(2)[OF n that] by simp
  qed
  then show ?thesis using s by blast
qed

lemma unit_sum:
  assumes tr: "trace_round1 unit_env (wide_ring 8) rx rn 2 rnd tr" and A: "mat_ok (wide_ring 8) dimM dimN (ltA tr)"
    and S: "trace_sum unit_env (wide_ring 8) 2 tr DSum h full"
  shows full
proof -
  let ?rg = "wide_ring 8" and ?Df = "\<lambda>j. fst (snd (ltSent tr (nat j)))" and ?Z = "InitializeMatrix (wide_ring 8) dimM (Suc Dbar)"
  have lr: "lattice_ring ?rg" by (rule lattice_ring_wide_ring) simp
  have cr: "coeff_ring ?rg" using lr lattice_ring_def by blast
  have Z: "mat_ok ?rg dimM (Suc Dbar) ?Z" by (rule coeff_ring.mat_ok_InitializeMatrix[OF cr])
  have zero: "pcoef (?Z ! r ! l) k = 0" if "r < dimM" "l < Suc Dbar" "k < 8" for r l k
    using that by (simp add: InitializeMatrix_def coeff_ring.NewPoly[OF cr] pcoef_def del: replicate_Suc)
  have com: "mat_ok ?rg dimM (Suc Dbar) (?Df j)" "map_of (sent_D 2 tr) j = Some (?Df j)" if "j \<in> set (map int [0..<2])" for j
    using that unit_commitment[OF tr _ A] map_of_upt[of "nat j" 2 "\<lambda>i. fst (snd (ltSent tr i))"] by (auto simp: sent_D_def)
  have pos: "0 < dimM" by (simp add: dimM_def)
  have sum: "sum_D ?rg (sent_D 2 tr) ?Z (map int [0..<2]) = Inr (Some DSum)" "FullRankCheck DSum ?rg = Inr full"
    using S by (simp_all add: trace_sum_def)
  have slot: "mat_ok ?rg dimM (Suc Dbar) DSum \<and> (\<forall>r < dimM. \<forall>l < Suc Dbar. \<forall>k < rN ?rg.
      pcoef (DSum ! r ! l) k = (pcoef (?Z ! r ! l) k + (\<Sum>j\<leftarrow>map int [0..<2]. pcoef (?Df j ! r ! l) k)) mod rModulus ?rg)"
    by (rule lattice_ring.sum_D_slot[OF lr Z _ pos zero_less_Suc sum(1)]) (use com in blast)
  have cell: "pcoef (DSum ! r ! Suc c) k = (if r = c then 2 * 2 ^ 64 mod corona_q else 0)" if "r < dimM" "c < Dbar" "k < 8" for r c k
  proof -
    have "pcoef (DSum ! r ! Suc c) k = (pcoef (?Df 0 ! r ! Suc c) k + pcoef (?Df 1 ! r ! Suc c) k) mod corona_q"
      using slot that zero[of r "Suc c" k] by (simp add: two_parties)
    also have "\<dots> = (pcoef (?Df 0 ! r ! Suc c) k mod corona_q + pcoef (?Df 1 ! r ! Suc c) k mod corona_q) mod corona_q"
      by (simp add: mod_add_eq)
    also have "\<dots> = (if r = c then 2 * 2 ^ 64 mod corona_q else 0)"
      using unit_commitment[OF tr _ A, of 0] unit_commitment[OF tr _ A, of 1] that by (simp add: corona_q_def)
    finally show ?thesis .
  qed
  have D: "DSum \<noteq> []" "\<forall>row \<in> set DSum. length row = Suc Dbar" "length DSum = dimM"
    using slot pos by (auto simp: mat_ok_def vec_ok_def)
  have "independent corona_q Dbar (slot_matrix ?rg DSum k)" if k: "k < 8" for k
  proof (rule diagonal_independent)
    show "coprime (2 * 2 ^ 64 mod corona_q) corona_q" by (simp add: corona_q_def) code_simp
    show "length (slot_matrix ?rg DSum k) \<le> Dbar" using D by (simp add: slot_matrix_def dimM_def Dbar_def)
    fix r c assume rc: "r < length (slot_matrix ?rg DSum k)" "c < Dbar"
    then have r: "r < dimM" "length (DSum ! r) = Suc Dbar" using D by (auto simp: slot_matrix_def)
    have "pvalid corona_q 8 (DSum ! r ! Suc c)" using slot rc(2) r mat_ok_nth vec_ok_nth by fastforce
    then have "rPolyToBigint ?rg (DSum ! r ! Suc c) ! k = pcoef (DSum ! r ! Suc c) k"
      using coeff_ring.PolyToBigint[OF cr, of "DSum ! r ! Suc c"] k by simp
    then show "slot_matrix ?rg DSum k ! r ! c = (if r = c then 2 * 2 ^ 64 mod corona_q else 0)"
      using rc(2) r D(3) k cell[OF r(1) rc(2) k] by (simp add: slot_matrix_def nth_tl)
  qed
  moreover have "all_full_rank ?rg DSum [0..<8] = Inr (\<forall>i \<in> set [0..<8]. independent (rModulus ?rg) Dbar (slot_matrix ?rg DSum i))"
    by (rule all_full_rank_eq[OF _ D(1,2)]) (simp add: corona_q_prime)
  moreover have "hd DSum \<noteq> []" "\<not> (\<exists>row \<in> set DSum. length row \<noteq> length (hd DSum))" using D(1,2) by (cases DSum; fastforce)+
  ultimately show full using sum(2) by (simp add: FullRankCheck_def)
qed

text \<open>The run, and the state in which the preprocessing hands over the sum.\<close>

definition two_party_run :: "bool res" where
  "two_party_run = local_once unit_env (\<lambda>_. True) two_point_lagrange wide_rings (\<lambda>zs. zs) (int 2) (int 2) (\<lambda>_. replicate 32 1)"

abbreviation unit_keys :: "local_trace \<Rightarrow> bool" where
  "unit_keys \<equiv> trace_keys unit_env (\<lambda>_. True) two_point_lagrange (wide_ring 8) (coeff_ops 262144 8) 2"

abbreviation unit_round1 :: "local_trace \<Rightarrow> bool" where
  "unit_round1 \<equiv> trace_round1 unit_env (wide_ring 8) (coeff_ops 262144 8) (coeff_ops 524288 8) 2 (\<lambda>_. replicate 32 1)"

lemma unit_matrix_ok: "mat_ok (wide_ring 8) dimM dimN (dealer_matrix unit_env (wide_ring 8) us)"
proof -
  have "sampling_ok (envSampling unit_env) (wide_ring 8)" using unit_env_ok by (simp add: local_env_ok_def)
  then show ?thesis
    unfolding dealer_matrix_def
    using lattice_ring.SamplePolyMatrix_ok[OF lattice_ring_wide_ring[of 8], of "uniformRead (envSampling unit_env)"] by (simp add: sampling_ok_def)
qed

lemma unit_session:
  "\<exists>tr p DSum h. unit_keys tr \<and> unit_round1 tr \<and>
    SignRound2Preprocess unit_env (fst (ltSent tr 0)) (ltA tr) (ltB tr) (sent_D 2 tr) (sent_MACs 2 tr) 1 [0, 1] = Inr (Some (DSum, h)) \<and>
    SignRound1 unit_env [] p (ltA tr) 1 (ltKey tr) [0, 1] = (fst (ltSent tr 1), Inr (snd (ltSent tr 1))) \<and> pID p = 1 \<and>
    pID (fst (ltSent tr 0)) = 0 \<and> pSuite p = pSuite (fst (ltSent tr 0)) \<and>
    gomap_at (pMACKeys p) 0 = gomap_at (pMACKeys (fst (ltSent tr 0))) 1"
proof -
  let ?rg = "wide_ring 8" and ?T = "map int [0..<2]"
  have lr: "lattice_ring ?rg" by (rule lattice_ring_wide_ring) simp
  obtain tr st b where tr: "unit_keys tr" "unit_round1 tr" "ltA tr = dealer_matrix unit_env ?rg (local_source unit_env ?rg)"
    "gen_result ?rg (coeff_ops 262144 8) 2 2 (ltLambda tr) (ltA tr, ltShares tr, ltSeeds tr, ltMACKeys tr, ltB tr, st)
      (dealer_secret unit_env ?rg local_seed) (dealer_error unit_env ?rg local_seed) b"
    "\<forall>i < 2. r1_sent unit_env (ltA tr) (ltKey tr) ?T (ltMACKeys tr) i (ltSent tr i) \<and> r1_commits ?rg (ltA tr) (ltSent tr i) (ltE tr i) \<and>
       r1_party unit_env ?rg (coeff_ops 262144 8) (coeff_ops 524288 8) (ltLambda tr) (ltShares tr) (ltSeeds tr) (ltMACKeys tr) i (fst (ltSent tr i))"
    using trace_first_half[OF wide_rings_ok unit_env_ok unit_rand two_point_lagrange_ok] by auto
  obtain st1 where tab: "gen_tables 2 st1 = Inr (ltSeeds tr, ltMACKeys tr, st)" using tr(4) unfolding gen_result_def prod.case by blast
  note sym = conjunct1[OF gen_tables_spec[OF tab]]
  note A = unit_matrix_ok[of "local_source unit_env ?rg", folded tr(3)]
  obtain DSum h full where P: "FullRankCheck DSum ?rg = Inr full" "sum_D ?rg (sent_D 2 tr) (InitializeMatrix ?rg dimM (Suc Dbar)) ?T = Inr (Some DSum)"
    "Hash unit_env (Some (Default (envXof unit_env))) (ltA tr) (ltB tr) (sent_D 2 tr) 1 ?T = Inr h"
    "\<forall>i < 2. check_MACs unit_env (fst (ltSent tr i)) (sent_D 2 tr) (sent_MACs 2 tr) 1 ?T ?T = Inr True"
    "\<forall>i < 2. SignRound2Preprocess unit_env (fst (ltSent tr i)) (ltA tr) (ltB tr) (sent_D 2 tr) (sent_MACs 2 tr) 1 ?T = Inr (if full then Some (DSum, h) else None)"
    using preprocess_all[OF lr wide_ring_simps(2) unit_env_ok sym A tr(5)[rule_format] sent_D_def sent_MACs_def, of "ltB tr"] by blast
  have full by (rule unit_sum[OF tr(2) A, of DSum h]) (unfold trace_sum_def, intro conjI P(1-4))
  have p0: "pID (fst (ltSent tr 0)) = 0" "pSuite (fst (ltSent tr 0)) = Some (Default (envXof unit_env))" "pMACKeys (fst (ltSent tr 0)) = gomap_at (ltMACKeys tr) 0"
    using tr(5) by (auto simp: r1_party_def)
  obtain p where p: "SignRound1 unit_env [] p (ltA tr) 1 (ltKey tr) ?T = (fst (ltSent tr 1), Inr (snd (ltSent tr 1)))" "pID p = 1"
    "pSuite p = Some (Default (envXof unit_env))" "pMACKeys p = gomap_at (ltMACKeys tr) 1"
    using tr(5)[rule_format, of 1] by (auto simp: r1_sent_def case_prod_unfold)
  have "gomap_at (pMACKeys p) 0 = gomap_at (pMACKeys (fst (ltSent tr 0))) 1"
    unfolding p(4) p0(3) gomap_at_mac using sym by (simp add: mac_sym_def)
  moreover have T: "?T = [0, 1]" by (simp add: two_parties)
  moreover have "SignRound2Preprocess unit_env (fst (ltSent tr 0)) (ltA tr) (ltB tr) (sent_D 2 tr) (sent_MACs 2 tr) 1 [0, 1] = Inr (Some (DSum, h))"
    using P(5) \<open>full\<close> unfolding T by simp
  ultimately show ?thesis
    by (intro exI[of _ tr] exI[of _ p] exI[of _ DSum] exI[of _ h] conjI tr(1,2) p(1)[unfolded T] p(2) p0(1)) (simp_all add: p(3) p0(2))
qed

section \<open>Properties at this session\<close>

theorem local_run_witness:
  "\<exists>tr b DSum h g c z Delta. unit_keys tr \<and> unit_round1 tr \<and> trace_sum unit_env (wide_ring 8) 2 tr DSum h True \<and>
    trace_signed unit_env (wide_ring 8) (coeff_ops 262144 8) (coeff_ops 524288 8) (\<lambda>zs. zs) 2 tr DSum h b
      (dealer_error unit_env (wide_ring 8) local_seed) g c z Delta \<and>
    two_party_run = Verify unit_env (wide_ring 8) (coeff_ops 262144 8) (coeff_ops 524288 8) z (ltA tr) ''Message'' (ltB tr) c Delta \<and>
    trace_verdict (wide_ring 8) (coeff_ops 262144 8) (coeff_ops 524288 8) tr (pH (fst (g 0))) c z Delta two_party_run"
proof -
  obtain tr b DSum h full where tr: "unit_keys tr" "unit_round1 tr" "ltA tr = dealer_matrix unit_env (wide_ring 8) (local_source unit_env (wide_ring 8))"
    and S: "trace_sum unit_env (wide_ring 8) 2 tr DSum h full"
    and out: "if full then \<exists>g c z Delta. trace_signed unit_env (wide_ring 8) (coeff_ops 262144 8) (coeff_ops 524288 8) (\<lambda>zs. zs) 2 tr DSum h b
        (dealer_error unit_env (wide_ring 8) local_seed) g c z Delta \<and>
        two_party_run = Verify unit_env (wide_ring 8) (coeff_ops 262144 8) (coeff_ops 524288 8) z (ltA tr) ''Message'' (ltB tr) c Delta \<and>
        trace_verdict (wide_ring 8) (coeff_ops 262144 8) (coeff_ops 524288 8) tr (pH (fst (g 0))) c z Delta two_party_run
      else two_party_run = Inl (ErrMsg ''MAC did not verify'')"
    using local_run[OF wide_rings_ok unit_env_ok unit_rand two_point_lagrange_ok, of "\<lambda>zs. zs"] unfolding two_party_run_def by auto
  have f: full by (rule unit_sum[OF tr(2) _ S]) (simp add: tr(3) unit_matrix_ok)
  then obtain g c z Delta where o: "trace_signed unit_env (wide_ring 8) (coeff_ops 262144 8) (coeff_ops 524288 8) (\<lambda>zs. zs) 2 tr DSum h b
        (dealer_error unit_env (wide_ring 8) local_seed) g c z Delta"
      "two_party_run = Verify unit_env (wide_ring 8) (coeff_ops 262144 8) (coeff_ops 524288 8) z (ltA tr) ''Message'' (ltB tr) c Delta"
      "trace_verdict (wide_ring 8) (coeff_ops 262144 8) (coeff_ops 524288 8) tr (pH (fst (g 0))) c z Delta two_party_run"
    using out by auto
  have "trace_sum unit_env (wide_ring 8) 2 tr DSum h True" using S f by simp
  then show ?thesis
    by (intro exI[of _ tr] exI[of _ b] exI[of _ DSum] exI[of _ h] exI[of _ g] exI[of _ c] exI[of _ z] exI[of _ Delta] conjI tr(1,2) o)
qed

theorem preprocess_authenticated_witness:
  "\<exists>tr DSum h d. unit_round1 tr \<and>
    SignRound2Preprocess unit_env (fst (ltSent tr 0)) (ltA tr) (ltB tr) (sent_D 2 tr) (sent_MACs 2 tr) 1 [0, 1] = Inr (Some (DSum, h)) \<and>
    SignRound2Preprocess unit_env (fst (ltSent tr 0)) (ltA tr) (ltB tr) (sent_D 2 tr @ [(7, [])]) (sent_MACs 2 tr @ [(7, [(0, [1])])]) 1 [0, 1]
      = Inr (Some (DSum, h)) \<and>
    FullRankCheck DSum (pRing (fst (ltSent tr 0))) = Inr True \<and> encMatrix (envCodec unit_env) (fst (snd (ltSent tr 1))) = Inr d"
proof -
  obtain tr p DSum h where s: "unit_round1 tr"
    "SignRound2Preprocess unit_env (fst (ltSent tr 0)) (ltA tr) (ltB tr) (sent_D 2 tr) (sent_MACs 2 tr) 1 [0, 1] = Inr (Some (DSum, h))"
    "SignRound1 unit_env [] p (ltA tr) 1 (ltKey tr) [0, 1] = (fst (ltSent tr 1), Inr (snd (ltSent tr 1)))" "pID p = 1"
    "pID (fst (ltSent tr 0)) = 0" "pSuite p = pSuite (fst (ltSent tr 0))" "gomap_at (pMACKeys p) 0 = gomap_at (pMACKeys (fst (ltSent tr 0))) 1"
    using unit_session by blast
  obtain Dj Mj where sent: "snd (ltSent tr 1) = (Dj, Mj)" by (cases "snd (ltSent tr 1)")
  have maps: "map_of (sent_D 2 tr) 1 = Some Dj" "map_of (sent_MACs 2 tr) 1 = Some Mj"
    using sent by (simp_all add: sent_D_def sent_MACs_def two_parties)
  have same: "\<forall>j \<in> set [0, 1]. map_of (sent_D 2 tr) j = map_of (sent_D 2 tr @ [(7, [])]) j \<and>
      map_of (sent_MACs 2 tr) j = map_of (sent_MACs 2 tr @ [(7, [(0, [1])])]) j"
    by (simp add: sent_D_def sent_MACs_def two_parties)
  have me: "pID (fst (ltSent tr 0)) \<in> set [0, 1]" using s(5) by simp
  note pa = preprocess_authenticated[OF s(2) me same]
  have c1: "(1 :: int) \<in> set [0, 1]" by simp
  note bind = bspec[OF conjunct2[OF conjunct2[OF conjunct2[OF conjunct2[OF conjunct2[OF pa]]]]] c1, THEN spec, of "[]", THEN spec, of p,
      THEN spec, of "fst (ltSent tr 1)", THEN spec, of "ltA tr", THEN spec, of "ltKey tr", THEN spec, of Dj, THEN spec, of Mj]
  obtain d where d: "encMatrix (envCodec unit_env) Dj = Inr d" using bind s(3-7) sent maps(2) by auto
  have Dj: "fst (snd (ltSent tr 1)) = Dj" unfolding sent by (rule fst_conv)
  show ?thesis
    by (rule exI[of _ tr], rule exI[of _ DSum], rule exI[of _ h], rule exI[of _ d],
        intro conjI s(1,2) conjunct1[OF pa] conjunct1[OF conjunct2[OF conjunct2[OF pa]]]) (simp only: Dj d)
qed

end
