(* ===== verification/Threshold_Wire.thy ===== *)
theory Threshold_Wire
  imports Threshold
begin

text \<open>
  The byte forms of \<^verbatim>\<open>threshold/wire.go\<close>: signatures and group keys survive a round trip, an
  accepted encoding cannot be extended, and the stateless verifier agrees with the
  verifier on the values the bytes stand for.
\<close>

section \<open>Readers\<close>

lemma length_be16 [simp]: "length (be16 w) = 2"
  by (simp add: be16_def)

lemma be_val_be16: "word_of_nat (be_val (be16 w)) = w"
proof -
  have "unat w < 256 ^ 2" using unat_lt[of w] by simp
  then show ?thesis by (simp add: be16_def be_val_be_bytes)
qed

lemma readLenPrefixed_ok:
  assumes "length x < 2 ^ 32" "x @ r \<noteq> []"
  shows "readLenPrefixed (len_prefixed x @ r) = Inr (x, r)"
  using assms unat_length32[OF assms(1)] be32c.dec_enc[of "word_of_nat (length x)" "x @ r"]
  by (simp add: readLenPrefixed_def len_prefixed_def)

lemma readHeader_ok:
  assumes "minLen \<le> length r + 6"
  shows "readHeader magic minLen (be32 magic @ be16 wireVersionV1 @ r) = Inr r"
  using assms be32c.dec_enc[of magic "be16 wireVersionV1 @ r"] by (simp add: readHeader_def be_val_be16)

lemma length_len_prefixed: "length (len_prefixed x) = 4 + length x"
  by (simp add: len_prefixed_def)

text \<open>A reader that succeeds does the same with more bytes behind.\<close>

lemma dec_be32_more: "dec_be32 b = Inr (w, r) \<Longrightarrow> dec_be32 (b @ x) = Inr (w, r @ x)"
  by (auto simp: dec_be32_def res_simps)

lemma readLenPrefixed_more:
  assumes "readLenPrefixed b = Inr (v, r)" shows "readLenPrefixed (b @ x) = Inr (v, r @ x)"
proof -
  obtain l rest where d: "dec_be32 b = Inr (l, rest)" and c: "unat l \<le> length rest" "rest \<noteq> []"
    "v = take (unat l) rest" "r = drop (unat l) rest"
    using assms by (auto simp: readLenPrefixed_def rbind_Inr_iff split: if_splits)
  show ?thesis using c unfolding readLenPrefixed_def dec_be32_more[OF d] by simp
qed

lemma readHeader_more:
  assumes "readHeader magic n b = Inr r" shows "readHeader magic n (b @ x) = Inr (r @ x)"
proof -
  obtain r1 v where d: "dec_be32 b = Inr (magic, r1)" and c: "n \<le> length b" "r1 = v @ r" "length v = 2"
    "word_of_nat (be_val v) = wireVersionV1"
    using assms by (auto simp: readHeader_def rbind_Inr_iff ReadFull_Inr_iff split: if_splits)
  show ?thesis using c unfolding readHeader_def dec_be32_more[OF d] by simp
qed

section \<open>Values with an encoding\<close>

definition poly_wire :: "poly \<Rightarrow> bool" where
  "poly_wire p \<longleftrightarrow> poly_honest (poly_shape_of p) \<and> length (poly_bytes p) \<le> 16777216"

definition vec_wire :: "vec \<Rightarrow> bool" where
  "vec_wire v \<longleftrightarrow> vector_honest (map poly_shape_of v) \<and> length (vec_bytes v) \<le> 16777216"

definition mat_wire :: "matrix \<Rightarrow> bool" where
  "mat_wire M \<longleftrightarrow> matrix_honest (map (map poly_shape_of) M) \<and> length (mat_bytes M) \<le> 16777216"

lemma honest_rect:
  assumes "poly_honest (poly_shape_of p)" shows "poly_rect p"
proof -
  have h: "\<forall>row \<in> set p. length row = length (hd p)" "p \<noteq> []" "0 < length (hd p)" "length (hd p) \<le> 4096" "length p \<le> 4096"
    using assms unfolding poly_honest_def poly_shape_of_def poly_shape_def prod.case MaxLatticeUintSliceLen_def by blast+
  have "hd p \<noteq> []" using h(3) by blast
  moreover have "length (hd p) < 2 ^ 64" "length p < 2 ^ 64" using h(4,5) by simp_all
  ultimately show ?thesis using h(1,2) unfolding poly_rect_def by blast
qed

lemma vec_honest_rect: "vector_honest (map poly_shape_of v) \<Longrightarrow> vec_rect v"
  unfolding vec_rect_def vector_honest_def using honest_rect by (auto simp: MaxLatticeUintSliceLen_def)

lemma mat_honest_rect: "matrix_honest (map (map poly_shape_of) M) \<Longrightarrow> mat_rect M"
  unfolding mat_rect_def matrix_honest_def using vec_honest_rect by (auto simp: MaxLatticeUintSliceLen_def)

lemma wire_validates:
  "poly_wire p \<Longrightarrow> ValidatePolyFrame (poly_bytes p) = Inr ()"
  "vec_wire v \<Longrightarrow> ValidateVectorPolyFrame (vec_bytes v) = Inr ()"
  "mat_wire M \<Longrightarrow> ValidateMatrixPolyFrame (mat_bytes M) = Inr ()"
  using validate_frames[of "length (hd p)" p] validate_frames[of _ _ "map poly_shape_of v"]
    validate_frames[of _ _ _ "map (map poly_shape_of) M"]
  by (simp_all add: poly_wire_def vec_wire_def mat_wire_def poly_bytes_def vec_bytes_def mat_bytes_def poly_shape_of_def)

lemma vec_bytes_len: "8 \<le> length (vec_bytes v)"
  by (simp add: vec_bytes_alt)

lemma sig_roundtrip:
  assumes lc: "lattice_codec lc" and w: "poly_wire (sgC s)" "vec_wire (sgZ s)" "vec_wire (sgDelta s)"
  shows "\<exists>b. Signature_MarshalBinary lc (Some s) = Inr b \<and> Signature_UnmarshalBinary lc b = Inr s"
proof -
  let ?c = "poly_bytes (sgC s)" and ?z = "vec_bytes (sgZ s)" and ?d = "vec_bytes (sgDelta s)"
  have rect: "poly_rect (sgC s)" "vec_rect (sgZ s)" "vec_rect (sgDelta s)"
    using w honest_rect vec_honest_rect by (auto simp: poly_wire_def vec_wire_def)
  have m: "Signature_MarshalBinary lc (Some s)
      = Inr (be32 wireMagicSig @ be16 wireVersionV1 @ len_prefixed ?c @ len_prefixed ?z @ len_prefixed ?d)"
    using rect by (simp add: Signature_MarshalBinary_def lattice_codec.encPoly[OF lc] lattice_codec.encVector[OF lc])
  have len: "length ?c < 2 ^ 32" "length ?z < 2 ^ 32" "length ?d < 2 ^ 32" using w by (auto simp: poly_wire_def vec_wire_def)
  have ne: "len_prefixed ?z \<noteq> []" "len_prefixed ?d \<noteq> []" "?d \<noteq> []"
    using vec_bytes_len[of "sgDelta s"] len_prefixed_nonempty by auto
  have h: "readHeader wireMagicSig 18 (be32 wireMagicSig @ be16 wireVersionV1 @ len_prefixed ?c @ len_prefixed ?z @ len_prefixed ?d)
      = Inr (len_prefixed ?c @ len_prefixed ?z @ len_prefixed ?d)"
    by (rule readHeader_ok) (simp add: length_len_prefixed)
  have r: "readLenPrefixed (len_prefixed ?c @ len_prefixed ?z @ len_prefixed ?d) = Inr (?c, len_prefixed ?z @ len_prefixed ?d)"
    "readLenPrefixed (len_prefixed ?z @ len_prefixed ?d) = Inr (?z, len_prefixed ?d)"
    "readLenPrefixed (len_prefixed ?d) = Inr (?d, [])"
    using readLenPrefixed_ok[OF len(1)] readLenPrefixed_ok[OF len(2)] readLenPrefixed_ok[OF len(3), of "[]"] ne by simp_all
  have "Signature_UnmarshalBinary lc (be32 wireMagicSig @ be16 wireVersionV1 @ len_prefixed ?c @ len_prefixed ?z @ len_prefixed ?d) = Inr s"
    unfolding Signature_UnmarshalBinary_def h
    using wire_validates(1)[OF w(1)] wire_validates(2)[OF w(2)] wire_validates(2)[OF w(3)] rect r
    by (simp add: rejected_def lattice_codec.decPoly[OF lc] lattice_codec.decVector[OF lc])
  with m show ?thesis by blast
qed

lemma gk_roundtrip:
  assumes lc: "lattice_codec lc" and w: "mat_wire (gkA gk)" "vec_wire b" and b: "gkBTilde gk = Some b"
    and p: "NewParams newRing = Inr params"
  shows "\<exists>bs. GroupKey_MarshalBinary lc (Some gk) = Inr bs \<and>
    GroupKey_UnmarshalBinary lc newRing bs = Inr (gk \<lparr> gkParams := params \<rparr>)"
proof -
  let ?a = "mat_bytes (gkA gk)" and ?b = "vec_bytes b"
  have gb: "gkB gk = b" using b by (simp add: gkB_def)
  have rect: "mat_rect (gkA gk)" "vec_rect b" using w mat_honest_rect vec_honest_rect by (auto simp: mat_wire_def vec_wire_def)
  have m: "GroupKey_MarshalBinary lc (Some gk) = Inr (be32 wireMagicGroupKey @ be16 wireVersionV1 @ len_prefixed ?a @ len_prefixed ?b)"
    using rect by (simp add: GroupKey_MarshalBinary_def gb lattice_codec.encMatrix[OF lc] lattice_codec.encVector[OF lc])
  have len: "length ?a < 2 ^ 32" "length ?b < 2 ^ 32" using w by (auto simp: mat_wire_def vec_wire_def)
  have ne: "len_prefixed ?b \<noteq> []" "?b \<noteq> []" using vec_bytes_len[of b] len_prefixed_nonempty by auto
  have h: "readHeader wireMagicGroupKey 14 (be32 wireMagicGroupKey @ be16 wireVersionV1 @ len_prefixed ?a @ len_prefixed ?b)
      = Inr (len_prefixed ?a @ len_prefixed ?b)"
    by (rule readHeader_ok) (simp add: length_len_prefixed)
  have r: "readLenPrefixed (len_prefixed ?a @ len_prefixed ?b) = Inr (?a, len_prefixed ?b)"
    "readLenPrefixed (len_prefixed ?b) = Inr (?b, [])"
    using readLenPrefixed_ok[OF len(1)] readLenPrefixed_ok[OF len(2), of "[]"] ne by simp_all
  have "gk \<lparr> gkParams := params \<rparr> = \<lparr> gkA = gkA gk, gkBTilde = Some b, gkParams = params \<rparr>" using b by (cases gk) simp
  then have "GroupKey_UnmarshalBinary lc newRing (be32 wireMagicGroupKey @ be16 wireVersionV1 @ len_prefixed ?a @ len_prefixed ?b)
      = Inr (gk \<lparr> gkParams := params \<rparr>)"
    unfolding GroupKey_UnmarshalBinary_def h
    using wire_validates(3)[OF w(1)] wire_validates(2)[OF w(2)] rect r p
    by (simp add: rejected_def lattice_codec.decMatrix[OF lc] lattice_codec.decVector[OF lc])
  with m show ?thesis by blast
qed

section \<open>Properties\<close>

text \<open>
  C27: round trip. A signature or group key whose polynomials are of the shapes the wire
  accepts is marshalled, and what is unmarshalled from the bytes is the same signature,
  respectively the same group key over freshly built parameters.
\<close>

theorem wire_roundtrip:
  assumes "lattice_codec lc" "poly_wire (sgC s)" "vec_wire (sgZ s)" "vec_wire (sgDelta s)"
    and "mat_wire (gkA gk)" "vec_wire b" "gkBTilde gk = Some b" "NewParams newRing = Inr params"
  shows "(\<exists>bs. Signature_MarshalBinary lc (Some s) = Inr bs \<and> Signature_UnmarshalBinary lc bs = Inr s) \<and>
    (\<exists>bs. GroupKey_MarshalBinary lc (Some gk) = Inr bs \<and> GroupKey_UnmarshalBinary lc newRing bs = Inr (gk \<lparr> gkParams := params \<rparr>))"
  using sig_roundtrip[OF assms(1-4)] gk_roundtrip[OF assms(1,5-8)] by blast

definition ex_sig :: Signature where
  "ex_sig = \<lparr> sgC = [[1, 2]], sgZ = [[[3, 4]]], sgDelta = [[[5, 6]], [[7, 8]]] \<rparr>"

definition ex_params :: Params where
  "ex_params = \<lparr> paR = ref_ring, paRXi = coeff_ops 262144 2, paRNu = coeff_ops 524288 2 \<rparr>"

definition ex_rings :: ring_maker where
  "ex_rings n q = (if q = corona_q then (ref_ring, True) else (coeff_ops q 2, False))"

definition ex_gk :: GroupKey where
  "ex_gk = \<lparr> gkA = [[[[1, 2]]], [[[3, 4]]]], gkBTilde = Some [[[5, 6]]], gkParams = ex_params \<rparr>"

lemma ex_NewParams: "NewParams ex_rings = Inr ex_params"
  by (simp add: NewParams_def ex_rings_def ex_params_def QXi_def QNu_def corona_q_def)

lemmas wire_defs = poly_wire_def vec_wire_def mat_wire_def poly_honest_def vector_honest_def matrix_honest_def
  poly_shape_def poly_shape_of_def MaxLatticeUintSliceLen_def

lemma ex_wire: "poly_wire (sgC ex_sig)" "vec_wire (sgZ ex_sig)" "vec_wire (sgDelta ex_sig)"
  "mat_wire (gkA ex_gk)" "vec_wire [[[5, 6]]]"
  by (simp_all add: ex_sig_def ex_gk_def wire_defs poly_bytes_def poly_frame_def vec_bytes_alt mat_bytes_alt)

theorem wire_roundtrip_witness:
  "(\<exists>bs. Signature_MarshalBinary ref_codec (Some ex_sig) = Inr bs \<and> Signature_UnmarshalBinary ref_codec bs = Inr ex_sig) \<and>
   (\<exists>bs. GroupKey_MarshalBinary ref_codec (Some ex_gk) = Inr bs \<and> GroupKey_UnmarshalBinary ref_codec ex_rings bs = Inr ex_gk)"
proof -
  have b: "gkBTilde ex_gk = Some [[[5, 6]]]" "ex_gk \<lparr> gkParams := ex_params \<rparr> = ex_gk" by (simp_all add: ex_gk_def)
  show ?thesis
    using wire_roundtrip[OF refc.lattice_codec_axioms ex_wire b(1) ex_NewParams] b(2) by simp
qed

text \<open>
  C28: the stateless verifier. On the bytes of a signature and of a group key over the
  standard parameters, \<^verbatim>\<open>VerifyBytes\<close> answers what \<^verbatim>\<open>Verify\<close> answers on the values; on bytes
  either parser refuses with an error it answers false, and only a panic of the parser, or one that
  never returns, would show. The group key is parsed first.
\<close>

theorem verify_bytes_agrees:
  assumes "lattice_codec (envCodec en)" "poly_wire (sgC s)" "vec_wire (sgZ s)" "vec_wire (sgDelta s)"
    and "mat_wire (gkA gk)" "vec_wire b" "gkBTilde gk = Some b" "NewParams newRing = Inr (gkParams gk)"
    and "GroupKey_MarshalBinary (envCodec en) (Some gk) = Inr gkb" "Signature_MarshalBinary (envCodec en) (Some s) = Inr sb"
  shows "VerifyBytes en newRing gkb m sb = threshold_Verify en (Some gk) m (Some s) \<and>
    (GroupKey_UnmarshalBinary (envCodec en) newRing gkb' = Inl e \<longrightarrow>
      VerifyBytes en newRing gkb' m sb' = (if e \<noteq> Panic \<and> e \<noteq> Diverge then Inr False else Inl e)) \<and>
    (GroupKey_UnmarshalBinary (envCodec en) newRing gkb' = Inr gk' \<and> Signature_UnmarshalBinary (envCodec en) sb' = Inl e \<longrightarrow>
      VerifyBytes en newRing gkb' m sb' = (if e \<noteq> Panic \<and> e \<noteq> Diverge then Inr False else Inl e))"
proof -
  have "GroupKey_UnmarshalBinary (envCodec en) newRing gkb = Inr gk" using gk_roundtrip[OF assms(1,5-8)] assms(9) by simp
  moreover have "Signature_UnmarshalBinary (envCodec en) sb = Inr s" using sig_roundtrip[OF assms(1-4)] assms(10) by simp
  ultimately show ?thesis by (auto simp: VerifyBytes_def go_error_def split: sum.splits)
qed

theorem verify_bytes_agrees_witness:
  "\<exists>gkb sb. GroupKey_MarshalBinary ref_codec (Some ex_gk) = Inr gkb \<and> Signature_MarshalBinary ref_codec (Some ex_sig) = Inr sb \<and>
     VerifyBytes ex_env ex_rings gkb ''m'' sb = threshold_Verify ex_env (Some ex_gk) ''m'' (Some ex_sig)"
proof -
  have b: "gkBTilde ex_gk = Some [[[5, 6]]]" "NewParams ex_rings = Inr (gkParams ex_gk)" "envCodec ex_env = ref_codec"
    using ex_NewParams by (simp_all add: ex_gk_def ex_env_def)
  obtain gkb sb where m: "GroupKey_MarshalBinary ref_codec (Some ex_gk) = Inr gkb" "Signature_MarshalBinary ref_codec (Some ex_sig) = Inr sb"
    using gk_roundtrip[OF refc.lattice_codec_axioms ex_wire(4,5) b(1,2)] sig_roundtrip[OF refc.lattice_codec_axioms ex_wire(1-3)] by blast
  then show ?thesis
    using verify_bytes_agrees[OF ex_env_codec ex_wire b(1,2), of gkb sb] b(3) by simp
qed

text \<open>
  Accepted bytes cannot be extended. If a byte string parses as a signature or as a
  group key, then the same string with anything appended does not, and no byte string
  parses as both.
\<close>

theorem wire_no_extension:
  assumes "x \<noteq> []"
  shows "(Signature_UnmarshalBinary lc b = Inr s \<longrightarrow> (\<exists>e. Signature_UnmarshalBinary lc (b @ x) = Inl e)) \<and>
    (GroupKey_UnmarshalBinary lc newRing b = Inr gk \<longrightarrow> (\<exists>e. GroupKey_UnmarshalBinary lc newRing (b @ x) = Inl e)) \<and>
    \<not> (Signature_UnmarshalBinary lc b = Inr s \<and> GroupKey_UnmarshalBinary lc newRing b = Inr gk)"
proof (intro conjI impI)
  assume "Signature_UnmarshalBinary lc b = Inr s"
  then obtain r0 cb r1 zb r2 db where h: "readHeader wireMagicSig 18 b = Inr r0" "readLenPrefixed r0 = Inr (cb, r1)"
    "readLenPrefixed r1 = Inr (zb, r2)" "readLenPrefixed r2 = Inr (db, [])"
    by (auto simp: Signature_UnmarshalBinary_def res_simps split: if_splits)
  then show "\<exists>e. Signature_UnmarshalBinary lc (b @ x) = Inl e"
    using assms by (simp add: Signature_UnmarshalBinary_def readHeader_more readLenPrefixed_more)
next
  assume "GroupKey_UnmarshalBinary lc newRing b = Inr gk"
  then obtain r0 ab r1 bb where h: "readHeader wireMagicGroupKey 14 b = Inr r0" "readLenPrefixed r0 = Inr (ab, r1)"
    "readLenPrefixed r1 = Inr (bb, [])"
    by (auto simp: GroupKey_UnmarshalBinary_def res_simps split: if_splits)
  then show "\<exists>e. GroupKey_UnmarshalBinary lc newRing (b @ x) = Inl e"
    using assms by (simp add: GroupKey_UnmarshalBinary_def readHeader_more readLenPrefixed_more)
next
  have "wireMagicSig \<noteq> wireMagicGroupKey" by (simp add: wireMagicSig_def wireMagicGroupKey_def)
  then show "\<not> (Signature_UnmarshalBinary lc b = Inr s \<and> GroupKey_UnmarshalBinary lc newRing b = Inr gk)"
    by (auto simp: Signature_UnmarshalBinary_def GroupKey_UnmarshalBinary_def readHeader_def res_simps split: if_splits)
qed

theorem wire_no_extension_witness:
  "\<exists>bs. Signature_UnmarshalBinary ref_codec bs = Inr ex_sig \<and> (\<exists>e. Signature_UnmarshalBinary ref_codec (bs @ [0]) = Inl e)"
proof -
  obtain bs where "Signature_UnmarshalBinary ref_codec bs = Inr ex_sig" using sig_roundtrip[OF refc.lattice_codec_axioms ex_wire(1-3)] by blast
  then show ?thesis using wire_no_extension[of "[0]" ref_codec bs ex_sig ex_rings ex_gk] by auto
qed

end
