(* ===== verification/Verify_Batch.thy ===== *)
theory Verify_Batch
  imports Threshold
begin

text \<open>
  \<^verbatim>\<open>threshold/verify_batch.go\<close>: the parallel verifier. The goroutines of
  \<^verbatim>\<open>VerifyBatch\<close> are a step relation: the caller feeds indices into the buffered
  channel and closes it, each worker takes an index, verifies it and writes its slot,
  and leaves when the channel is closed and drained; \<^verbatim>\<open>wg.Wait\<close> returns when every worker
  has left. A verification that panics takes the process down; one that diverges gives its
  worker no step. The statements hold for every interleaving.
\<close>

section \<open>The worker pool\<close>

datatype worker = Idle | Busy nat | Exited

record pool =
  poNext :: nat
  poJobs :: "nat list"
  poClosed :: bool
  poWorkers :: "worker list"
  poResults :: "bool list"
  poPanicked :: bool

definition pool_start :: "nat \<Rightarrow> nat \<Rightarrow> pool" where
  "pool_start workers n = \<lparr> poNext = 0, poJobs = [], poClosed = False,
     poWorkers = replicate workers Idle, poResults = replicate n False, poPanicked = False \<rparr>"

inductive batch_step :: "(nat \<Rightarrow> bool res) \<Rightarrow> nat \<Rightarrow> pool \<Rightarrow> pool \<Rightarrow> bool" for v n where
  feed: "\<not> poPanicked p \<Longrightarrow> poNext p < n \<Longrightarrow> length (poJobs p) < n \<Longrightarrow>
    batch_step v n p (p \<lparr> poNext := poNext p + 1, poJobs := poJobs p @ [poNext p] \<rparr>)"
| close: "\<not> poPanicked p \<Longrightarrow> poNext p = n \<Longrightarrow> \<not> poClosed p \<Longrightarrow> batch_step v n p (p \<lparr> poClosed := True \<rparr>)"
| take: "\<not> poPanicked p \<Longrightarrow> w < length (poWorkers p) \<Longrightarrow> poWorkers p ! w = Idle \<Longrightarrow> poJobs p = i # js \<Longrightarrow>
    batch_step v n p (p \<lparr> poJobs := js, poWorkers := (poWorkers p)[w := Busy i] \<rparr>)"
| finish: "\<not> poPanicked p \<Longrightarrow> w < length (poWorkers p) \<Longrightarrow> poWorkers p ! w = Busy i \<Longrightarrow> v i = Inr b \<Longrightarrow>
    batch_step v n p (p \<lparr> poResults := (poResults p)[i := b], poWorkers := (poWorkers p)[w := Idle] \<rparr>)"
| crash: "\<not> poPanicked p \<Longrightarrow> w < length (poWorkers p) \<Longrightarrow> poWorkers p ! w = Busy i \<Longrightarrow> v i = Inl Panic \<Longrightarrow>
    batch_step v n p (p \<lparr> poPanicked := True \<rparr>)"
| exit: "\<not> poPanicked p \<Longrightarrow> w < length (poWorkers p) \<Longrightarrow> poWorkers p ! w = Idle \<Longrightarrow> poClosed p \<Longrightarrow> poJobs p = [] \<Longrightarrow>
    batch_step v n p (p \<lparr> poWorkers := (poWorkers p)[w := Exited] \<rparr>)"

inductive_cases batch_stepE: "batch_step v n p p'"

inductive pool_reachable :: "(nat \<Rightarrow> bool res) \<Rightarrow> nat \<Rightarrow> nat \<Rightarrow> pool \<Rightarrow> bool" for v n k where
  start: "pool_reachable v n k (pool_start k n)"
| step: "pool_reachable v n k p \<Longrightarrow> batch_step v n p p' \<Longrightarrow> pool_reachable v n k p'"

text \<open>\<^verbatim>\<open>wg.Wait\<close> has returned.\<close>

definition pool_done :: "pool \<Rightarrow> bool" where
  "pool_done p \<longleftrightarrow> \<not> poPanicked p \<and> poClosed p \<and> (\<forall>w \<in> set (poWorkers p). w = Exited)"

definition batch_verifies ::
  "'s env \<Rightarrow> GroupKey option list \<Rightarrow> string list \<Rightarrow> Signature option list \<Rightarrow> nat \<Rightarrow> bool res" where
  "batch_verifies en groupKeys messages sigs i = threshold_Verify en (groupKeys ! i) (messages ! i) (sigs ! i)"

text \<open>The outcomes some schedule gives; \<open>gomaxprocs\<close> is \<^verbatim>\<open>runtime.GOMAXPROCS(0)\<close>.\<close>

definition batch_workers :: "nat \<Rightarrow> nat \<Rightarrow> nat" where
  "batch_workers gomaxprocs n = (if gomaxprocs > n then n else gomaxprocs)"

inductive VerifyBatch ::
  "'s env \<Rightarrow> nat \<Rightarrow> GroupKey option list \<Rightarrow> string list \<Rightarrow> Signature option list \<Rightarrow> bool list res \<Rightarrow> bool"
  for en gomaxprocs groupKeys messages sigs where
  mismatch: "length sigs \<noteq> length groupKeys \<or> length sigs \<noteq> length messages \<Longrightarrow>
    VerifyBatch en gomaxprocs groupKeys messages sigs (Inl ErrBatchSizeMismatch)"
| empty: "length groupKeys = 0 \<Longrightarrow> length messages = 0 \<Longrightarrow> length sigs = 0 \<Longrightarrow>
    VerifyBatch en gomaxprocs groupKeys messages sigs (Inr [])"
| returns: "length sigs = length groupKeys \<Longrightarrow> length sigs = length messages \<Longrightarrow> length sigs \<noteq> 0 \<Longrightarrow>
    pool_reachable (batch_verifies en groupKeys messages sigs) (length sigs) (batch_workers gomaxprocs (length sigs)) p \<Longrightarrow>
    pool_done p \<Longrightarrow> VerifyBatch en gomaxprocs groupKeys messages sigs (Inr (poResults p))"
| panics: "length sigs = length groupKeys \<Longrightarrow> length sigs = length messages \<Longrightarrow> length sigs \<noteq> 0 \<Longrightarrow>
    pool_reachable (batch_verifies en groupKeys messages sigs) (length sigs) (batch_workers gomaxprocs (length sigs)) p \<Longrightarrow>
    poPanicked p \<Longrightarrow> VerifyBatch en gomaxprocs groupKeys messages sigs (Inl Panic)"

text \<open>\<^verbatim>\<open>VerifyBatchAll\<close> on the outcome of its call of \<^verbatim>\<open>VerifyBatch\<close>.\<close>

definition VerifyBatchAll :: "bool list res \<Rightarrow> bool res" where
  "VerifyBatchAll results = rbind results (\<lambda>rs. Inr (list_all id rs))"

section \<open>The invariant\<close>

text \<open>Every index fed so far waits in the channel, is held by a worker, or has its final
  result; no two workers hold the same index.\<close>

definition pool_inv :: "(nat \<Rightarrow> bool res) \<Rightarrow> nat \<Rightarrow> nat \<Rightarrow> pool \<Rightarrow> bool" where
  "pool_inv v n k p \<longleftrightarrow>
     poNext p \<le> n \<and> length (poResults p) = n \<and> length (poWorkers p) = k \<and>
     distinct (poJobs p) \<and> set (poJobs p) \<subseteq> {..<poNext p} \<and>
     (\<forall>w < k. \<forall>i. poWorkers p ! w = Busy i \<longrightarrow> i < poNext p \<and> i \<notin> set (poJobs p)) \<and>
     (\<forall>w < k. \<forall>w' < k. \<forall>i. poWorkers p ! w = Busy i \<longrightarrow> poWorkers p ! w' = Busy i \<longrightarrow> w = w') \<and>
     (poClosed p \<longrightarrow> poNext p = n) \<and>
     (\<forall>w < k. poWorkers p ! w = Exited \<longrightarrow> poClosed p \<and> poJobs p = []) \<and>
     (\<forall>i < poNext p. i \<in> set (poJobs p) \<or> (\<exists>w < k. poWorkers p ! w = Busy i) \<or> v i = Inr (poResults p ! i))"

lemma pool_inv_start: "pool_inv v n k (pool_start k n)"
  by (simp add: pool_inv_def pool_start_def)

lemma pool_inv_step:
  assumes "pool_inv v n k p" "batch_step v n p p'"
  shows "pool_inv v n k p'"
  using assms(2)
proof (cases rule: batch_step.cases)
  case feed
  then show ?thesis using assms(1) unfolding pool_inv_def by (auto simp: less_Suc_eq)
next
  case close
  then show ?thesis using assms(1) unfolding pool_inv_def by simp
next
  case (take w i js)
  have old: "i < poNext p" "i \<notin> set js" using take assms(1) by (auto simp: pool_inv_def)
  have free: "poWorkers p ! u \<noteq> Busy i" if "u < k" for u
    using take assms(1) that by (auto simp: pool_inv_def)
  show ?thesis using take assms(1) old free unfolding pool_inv_def
    by (auto simp: nth_list_update split: if_splits) (metis worker.distinct(1))+
next
  case (finish w i b)
  have len: "length (poResults p) = n" "i < n" using finish assms(1) by (auto simp: pool_inv_def)
  have cover: "\<forall>j < poNext p. j \<in> set (poJobs p) \<or> (\<exists>u < k. (poWorkers p)[w := Idle] ! u = Busy j) \<or> v j = Inr ((poResults p)[i := b] ! j)"
  proof (intro allI impI)
    fix j assume "j < poNext p"
    then consider "j \<in> set (poJobs p)" | u where "u < k" "poWorkers p ! u = Busy j" | "v j = Inr (poResults p ! j)"
      using assms(1) by (auto simp: pool_inv_def)
    then show "j \<in> set (poJobs p) \<or> (\<exists>u < k. (poWorkers p)[w := Idle] ! u = Busy j) \<or> v j = Inr ((poResults p)[i := b] ! j)"
    proof cases
      case (2 u)
      then show ?thesis using finish len by (cases "u = w") (auto intro!: exI[of _ u])
    next
      case 3
      then show ?thesis using finish len by (cases "i = j") auto
    qed simp
  qed
  have keep: "u \<noteq> w \<and> poWorkers p ! u = x" if "(poWorkers p)[w := Idle] ! u = x" "x \<noteq> Idle" for u x
    using that finish by (cases "u = w") auto
  show ?thesis using finish assms(1) cover unfolding pool_inv_def
    by (auto dest!: keep)
next
  case crash
  then show ?thesis using assms(1) unfolding pool_inv_def by simp
next
  case (exit w)
  then show ?thesis using assms(1) unfolding pool_inv_def
    by (auto simp: nth_list_update split: if_splits) (metis worker.distinct(1))
qed

lemma pool_inv_reachable: "pool_reachable v n k p \<Longrightarrow> pool_inv v n k p"
  by (induction rule: pool_reachable.induct) (auto intro: pool_inv_start pool_inv_step)

lemma pool_no_panic:
  assumes "pool_reachable v n k p" "\<forall>i < n. v i \<noteq> Inl Panic"
  shows "\<not> poPanicked p"
  using assms
proof (induction rule: pool_reachable.induct)
  case start
  then show ?case by (simp add: pool_start_def)
next
  case (step p p')
  note inv = pool_inv_reachable[OF step.hyps(1)]
  from step.hyps(2) show ?case
  proof (cases rule: batch_step.cases)
    case (crash w i)
    then have "i < n" using inv by (auto simp: pool_inv_def)
    then show ?thesis using crash step.prems by simp
  qed (use step in simp_all)
qed

lemma pool_done_results:
  assumes "pool_inv v n k p" "pool_done p" "0 < k" "i < n"
  shows "v i = Inr (poResults p ! i)"
proof -
  have all: "poWorkers p ! w = Exited" if "w < k" for w
    using assms(1,2) that by (auto simp: pool_inv_def pool_done_def)
  have "poNext p = n" "poJobs p = []" using assms(1-3) all[of 0] by (auto simp: pool_inv_def)
  moreover have "\<not> (\<exists>w < k. poWorkers p ! w = Busy i)" using all by force
  ultimately show ?thesis using assms(1,4) by (auto simp: pool_inv_def)
qed

section \<open>Progress\<close>

fun worker_weight :: "worker \<Rightarrow> nat" where
  "worker_weight Idle = 1"
| "worker_weight (Busy _) = 2"
| "worker_weight Exited = 0"

text \<open>What is still to be done; every step of every goroutine lowers it.\<close>

definition pool_measure :: "nat \<Rightarrow> pool \<Rightarrow> nat" where
  "pool_measure n p = 3 * (n - poNext p) + 2 * length (poJobs p) + (if poClosed p then 0 else 1)
     + (\<Sum>w\<leftarrow>poWorkers p. worker_weight w) + (if poPanicked p then 0 else 1)"

lemma weight_update:
  assumes "w < length ws"
  shows "(\<Sum>x\<leftarrow>ws[w := y]. worker_weight x) + worker_weight (ws ! w) = (\<Sum>x\<leftarrow>ws. worker_weight x) + worker_weight y"
proof -
  have "worker_weight (ws ! w) \<le> (\<Sum>x\<leftarrow>ws. worker_weight x)"
    using assms elem_le_sum_list[of w "map worker_weight ws"] by simp
  then show ?thesis using assms by (simp add: map_update sum_list_update)
qed

lemma pool_measure_step: "batch_step v n p p' \<Longrightarrow> pool_measure n p' < pool_measure n p"
proof (induction rule: batch_step.induct)
  case (take p w i js)
  then show ?case using weight_update[of w "poWorkers p" "Busy i"] by (simp add: pool_measure_def)
next
  case (finish p w i b)
  then show ?case using weight_update[of w "poWorkers p" Idle] by (simp add: pool_measure_def)
next
  case (exit p w)
  then show ?case using weight_update[of w "poWorkers p" Exited] by (simp add: pool_measure_def)
qed (auto simp: pool_measure_def)

lemma pool_progress:
  assumes inv: "pool_inv v n k p" and "\<not> poPanicked p" "\<not> pool_done p" "\<forall>i < n. \<exists>b. v i = Inr b" "0 < k"
  shows "\<exists>p'. batch_step v n p p'"
proof (cases "poNext p < n")
  case True
  have "length (poJobs p) = card (set (poJobs p))" using inv by (simp add: pool_inv_def distinct_card)
  also have "\<dots> \<le> poNext p" using inv card_mono[of "{..<poNext p}" "set (poJobs p)"] by (simp add: pool_inv_def)
  finally show ?thesis using True assms(2) batch_step.feed[of p n v] by auto
next
  case False
  then have nx: "poNext p = n" using inv by (simp add: pool_inv_def)
  show ?thesis
  proof (cases "poClosed p")
    case False
    then show ?thesis using nx assms(2) batch_step.close[of p n v] by blast
  next
    case True
    then obtain w where w: "w < length (poWorkers p)" "poWorkers p ! w \<noteq> Exited"
      using assms(2,3) by (auto simp: pool_done_def in_set_conv_nth)
    show ?thesis
    proof (cases "poWorkers p ! w")
      case Idle
      then show ?thesis using w True assms(2) batch_step.take[of p w _ _ v n] batch_step.exit[of p w v n]
        by (cases "poJobs p") blast+
    next
      case (Busy i)
      then have "i < n" using inv w by (auto simp: pool_inv_def)
      then obtain b where "v i = Inr b" using assms(4) by blast
      then show ?thesis using w Busy assms(2) batch_step.finish[of p w i v b n] by blast
    qed (use w in simp)
  qed
qed

text \<open>So from every reachable state some schedule reaches the end.\<close>

lemma pool_finishes:
  assumes "pool_reachable v n k p" "\<forall>i < n. \<exists>b. v i = Inr b" "0 < k"
  shows "\<exists>p'. pool_reachable v n k p' \<and> pool_done p'"
  using assms(1)
proof (induction "pool_measure n p" arbitrary: p rule: less_induct)
  case less
  have np: "\<forall>i < n. v i \<noteq> Inl Panic" using assms(2) by fastforce
  show ?case
  proof (cases "pool_done p")
    case True
    then show ?thesis using less.prems by blast
  next
    case False
    then obtain p' where "batch_step v n p p'"
      using pool_progress[OF pool_inv_reachable[OF less.prems] pool_no_panic[OF less.prems np] _ assms(2,3)] by blast
    then show ?thesis using less.hyps[OF pool_measure_step] pool_reachable.step[OF less.prems] by blast
  qed
qed

section \<open>Properties\<close>

text \<open>
  The parallel verifier. Slices of different lengths give the size error, whatever the
  schedule; and when every single verification returns, every outcome of every schedule of
  the workers is the list of the sequential verifications in input order, so that the
  convenience predicate is their conjunction.
\<close>

theorem verify_batch_sequential:
  assumes "0 < gomaxprocs" "VerifyBatch en gomaxprocs groupKeys messages sigs out"
  shows "(length sigs \<noteq> length groupKeys \<or> length sigs \<noteq> length messages \<longrightarrow> out = Inl ErrBatchSizeMismatch) \<and>
    (length sigs = length groupKeys \<and> length sigs = length messages \<and>
     (\<forall>i < length sigs. batch_verifies en groupKeys messages sigs i = Inr (res i)) \<longrightarrow>
       out = Inr (map res [0..<length sigs]) \<and>
       VerifyBatchAll out = Inr (\<forall>i < length sigs. res i))"
proof (intro conjI impI)
  assume bad: "length sigs \<noteq> length groupKeys \<or> length sigs \<noteq> length messages"
  from assms(2) show "out = Inl ErrBatchSizeMismatch" by (cases rule: VerifyBatch.cases) (use bad in auto)
next
  assume ok: "length sigs = length groupKeys \<and> length sigs = length messages \<and>
     (\<forall>i < length sigs. batch_verifies en groupKeys messages sigs i = Inr (res i))"
  from assms(2) show out: "out = Inr (map res [0..<length sigs])"
  proof (cases rule: VerifyBatch.cases)
    case (returns p)
    note inv = pool_inv_reachable[OF returns(5)]
    have "batch_workers gomaxprocs (length sigs) > 0" using returns assms(1) by (simp add: batch_workers_def)
    note R = pool_done_results[OF inv returns(6) this]
    have "length (poResults p) = length sigs" using inv by (simp add: pool_inv_def)
    then have "poResults p = map res [0..<length sigs]" using R ok by (intro nth_equalityI) auto
    then show ?thesis using returns(1) by simp
  next
    case (panics p)
    then show ?thesis using pool_no_panic[OF panics(5)] ok by simp
  qed (use ok in auto)
  then show "VerifyBatchAll out = Inr (\<forall>i < length sigs. res i)"
    by (auto simp: VerifyBatchAll_def list_all_iff)
qed

lemma VerifyBatch_exists:
  assumes "0 < gomaxprocs" "length sigs = length groupKeys" "length sigs = length messages"
    and "\<forall>i < length sigs. \<exists>b. batch_verifies en groupKeys messages sigs i = Inr b"
  shows "\<exists>rs. VerifyBatch en gomaxprocs groupKeys messages sigs (Inr rs)"
proof (cases "length sigs = 0")
  case True
  then show ?thesis using assms VerifyBatch.empty by metis
next
  case False
  then have "0 < batch_workers gomaxprocs (length sigs)" using assms(1) by (simp add: batch_workers_def)
  from pool_finishes[OF pool_reachable.start assms(4) this] show ?thesis
    using VerifyBatch.returns[OF assms(2,3) False] by blast
qed

theorem verify_batch_sequential_witness:
  "\<exists>out. VerifyBatch ex_env 2 [None, None, None] [''a'', ''b'', ''c''] [None, None, None] out \<and>
     out = Inr [False, False, False] \<and> VerifyBatchAll out = Inr False"
proof -
  have v: "\<forall>i < length [None, None, None :: Signature option]. batch_verifies ex_env [None, None, None] [''a'', ''b'', ''c''] [None, None, None] i = Inr False"
    by (auto simp: batch_verifies_def threshold_Verify_def less_Suc_eq)
  then obtain out where o: "VerifyBatch ex_env 2 [None, None, None] [''a'', ''b'', ''c''] [None, None, None] out"
    using VerifyBatch_exists[of 2 "[None, None, None]" "[None, None, None]" "[''a'', ''b'', ''c'']" ex_env] by force
  show ?thesis
    using verify_batch_sequential[OF _ o, of "\<lambda>_. False"] v o by (auto simp: upt_rec)
qed

text \<open>
  C29: the pool neither deadlocks nor races. In every reachable state no two workers hold the same
  index, so no result slot is written concurrently; when every verification returns, a
  state that is not final always has a next step and every step lowers a natural number, so
  that every schedule ends with \<^verbatim>\<open>wg.Wait\<close> returning.
\<close>

theorem verify_batch_progress:
  assumes "pool_reachable (batch_verifies en groupKeys messages sigs) (length sigs) (batch_workers gomaxprocs (length sigs)) p"
    and "0 < gomaxprocs" "0 < length sigs" "\<forall>i < length sigs. \<exists>b. batch_verifies en groupKeys messages sigs i = Inr b"
  shows "(\<forall>w w' i. w < length (poWorkers p) \<and> w' < length (poWorkers p) \<and> poWorkers p ! w = Busy i \<and> poWorkers p ! w' = Busy i \<longrightarrow> w = w') \<and>
    \<not> poPanicked p \<and>
    (pool_done p \<or> (\<exists>p'. batch_step (batch_verifies en groupKeys messages sigs) (length sigs) p p')) \<and>
    (\<forall>p'. batch_step (batch_verifies en groupKeys messages sigs) (length sigs) p p' \<longrightarrow>
        pool_measure (length sigs) p' < pool_measure (length sigs) p)"
proof (intro conjI)
  note inv = pool_inv_reachable[OF assms(1)]
  show "\<forall>w w' i. w < length (poWorkers p) \<and> w' < length (poWorkers p) \<and> poWorkers p ! w = Busy i \<and> poWorkers p ! w' = Busy i \<longrightarrow> w = w'"
    using inv by (auto simp: pool_inv_def)
  show np: "\<not> poPanicked p" using pool_no_panic[OF assms(1)] assms(4) by fastforce
  have "0 < batch_workers gomaxprocs (length sigs)" using assms(2,3) by (simp add: batch_workers_def)
  then show "pool_done p \<or> (\<exists>p'. batch_step (batch_verifies en groupKeys messages sigs) (length sigs) p p')"
    using pool_progress[OF inv np _ assms(4)] by blast
  show "\<forall>p'. batch_step (batch_verifies en groupKeys messages sigs) (length sigs) p p' \<longrightarrow>
        pool_measure (length sigs) p' < pool_measure (length sigs) p"
    using pool_measure_step by blast
qed

theorem verify_batch_progress_witness:
  "\<exists>p'. batch_step (batch_verifies ex_env [None] [''a''] [None]) 1 (pool_start 1 1) p'"
proof -
  have "\<forall>i < length [None :: Signature option]. \<exists>b. batch_verifies ex_env [None] [''a''] [None] i = Inr b"
    by (auto simp: batch_verifies_def threshold_Verify_def)
  then show ?thesis
    using verify_batch_progress[of ex_env "[None]" "[''a'']" "[None]" 4 "pool_start 1 1"]
      pool_reachable.start[of "batch_verifies ex_env [None] [''a''] [None]" 1 1]
    by (simp add: batch_workers_def pool_done_def pool_start_def)
qed

end
