(* ===== verification/Commit.thy ===== *)
theory Commit
  imports Threshold Transform_Lemmas
begin

text \<open>
  \<^verbatim>\<open>reshare/commit.go\<close>: Pedersen commitments \<open>A c + B r\<close> to the coefficients of a resharing
  polynomial and the recipient's check of its share against them. The theorem says what the
  check decides: that the share and blind it was given have the image under \<open>(A, B)\<close>
  that the committed polynomials have at the recipient's point.
\<close>

section \<open>Parameters\<close>

record CommitParams =
  cpR :: ring_ops
  cpRXi :: ring_ops
  cpA :: matrix
  cpB :: matrix

definition tagReshareA :: bytes where "tagReshareA = str_bytes ''corona.reshare.A.v1''"
definition tagReshareB :: bytes where "tagReshareB = str_bytes ''corona.reshare.B.v1''"

text \<open>The closure \<^verbatim>\<open>derive\<close>: a matrix sampled from the hash of its tag.\<close>

definition derive_matrix :: "'s env \<Rightarrow> hash_suite \<Rightarrow> ring_ops \<Rightarrow> bytes \<Rightarrow> matrix" where
  "derive_matrix en s r tag =
     (let sm = envSampling en;
          us = NewUniformSampler sm r (NewKeyedPRNG sm (hsHu s tag KeySize))
      in fst (SamplePolyMatrix r dimM dimN (uniformRead sm) True True us))"

definition NewCommitParams :: "'s env \<Rightarrow> ring_maker \<Rightarrow> hash_suite option \<Rightarrow> CommitParams res" where
  "NewCommitParams en newRing suite =
     (let s = Resolve (envXof en) suite in
      case newRing (2 ^ LogN) corona_q of (r, ok) \<Rightarrow>
        if \<not> ok then Inl (ErrMsg ''ring.NewRing'')
        else Inr \<lparr> cpR = r, cpRXi = fst (newRing (2 ^ LogN) QXi),
               cpA = derive_matrix en s r tagReshareA, cpB = derive_matrix en s r tagReshareB \<rparr>)"

section \<open>Commitments\<close>

text \<open>Copies of the first \<open>N\<close> entries in NTT form; a shorter vector panics.\<close>

definition ntt_copy :: "ring_ops \<Rightarrow> vec \<Rightarrow> vec res" where
  "ntt_copy r v = (if length v < dimN then Inl Panic else Inr (map (rNTT r) (take dimN v)))"

definition commit_coeff :: "CommitParams \<Rightarrow> vec \<Rightarrow> vec \<Rightarrow> vec res" where
  "commit_coeff params c b =
     (let r = cpR params in
      rbind (ntt_copy r c) (\<lambda>cNTT. rbind (ntt_copy r b) (\<lambda>bNTT.
      rbind (MatrixVectorMul r (cpA params) cNTT (InitializeVector r dimM)) (\<lambda>ac.
      rbind (MatrixVectorMul r (cpB params) bNTT (InitializeVector r dimM)) (\<lambda>br.
      VectorAdd r ac br (InitializeVector r dimM))))))"

definition CommitToPoly :: "CommitParams \<Rightarrow> vec list \<Rightarrow> vec list \<Rightarrow> vec list res" where
  "CommitToPoly params secretCoeffs blindCoeffs =
     (if length secretCoeffs \<noteq> length blindCoeffs then Inl (ErrMsg ''CommitToPoly: secret/blind length mismatch'')
      else mapM (\<lambda>(c, b). commit_coeff params c b) (zip secretCoeffs blindCoeffs))"

definition polyMulScalarNTTOnly :: "ring_ops \<Rightarrow> poly \<Rightarrow> int \<Rightarrow> int \<Rightarrow> poly res" where
  "polyMulScalarNTTOnly r p s q =
     (if \<exists>lv \<in> set p. length lv < rN r then Inl Panic
      else Inr (map (\<lambda>lv. map (\<lambda>c. word_of_int ((uint c * s) mod q)) (take (rN r) lv) @ drop (rN r) lv) p))"

text \<open>The Horner loop over the commitments, from the last to the first; the first round
  multiplies nothing.\<close>

definition commits_step :: "ring_ops \<Rightarrow> int \<Rightarrow> vec \<Rightarrow> vec \<Rightarrow> vec res" where
  "commits_step r x rhs c =
     rbind (mapM (\<lambda>p. polyMulScalarNTTOnly r p x corona_q) rhs) (\<lambda>rhs'. VectorAdd r rhs' c rhs')"

definition commits_at :: "ring_ops \<Rightarrow> int \<Rightarrow> vec list \<Rightarrow> vec res" where
  "commits_at r x commits =
     (case rev commits of
        [] \<Rightarrow> Inr (InitializeVector r dimM)
      | c # cs \<Rightarrow> rbind (VectorAdd r (InitializeVector r dimM) c (InitializeVector r dimM)) (\<lambda>rhs.
          foldM (commits_step r x) rhs cs))"

definition VerifyShareAgainstCommits :: "CommitParams \<Rightarrow> vec \<Rightarrow> vec \<Rightarrow> vec list \<Rightarrow> int \<Rightarrow> unit res" where
  "VerifyShareAgainstCommits params share blind commits betaJ =
     (let r = cpR params in
      if commits = [] then Inl ErrCommitWrongLength
      else rbind (ntt_copy r share) (\<lambda>shareNTT.
        rbind (MatrixVectorMul r (cpA params) shareNTT (InitializeVector r dimM)) (\<lambda>ash.
        rbind (ntt_copy r blind) (\<lambda>blindNTT.
        rbind (MatrixVectorMul r (cpB params) blindNTT (InitializeVector r dimM)) (\<lambda>bbl.
        rbind (VectorAdd r ash bbl (InitializeVector r dimM)) (\<lambda>lhs.
        rbind (commits_at r betaJ commits) (\<lambda>rhs.
        if foldl (\<lambda>eq ri. eq AND ConstantTimePolyEqual (lhs ! ri) (rhs ! ri)) 1 [0..<dimM] \<noteq> (1 :: int)
        then Inl ErrCommitMismatch else Inr ())))))))"

text \<open>\<^verbatim>\<open>WriteTo\<close> on a \<^verbatim>\<open>bytes.Buffer\<close>: an error, which is dropped, leaves nothing written.\<close>

definition commit_bytes :: "lat_codec \<Rightarrow> vec \<Rightarrow> bytes" where
  "commit_bytes lc v = (case encVector lc v of Inl _ \<Rightarrow> [] | Inr b \<Rightarrow> b)"

definition CommitDigest :: "'s env \<Rightarrow> vec list \<Rightarrow> hash_suite option \<Rightarrow> bytes" where
  "CommitDigest en commits suite =
     hsTranscriptHash (Resolve (envXof en) suite)
       (str_bytes ''corona.reshare.commit-digest.v1'' # map (commit_bytes (envCodec en)) commits)"

section \<open>Evaluation of committed polynomials\<close>

text \<open>The value at \<open>x\<close> of the polynomial whose coefficients are the vectors \<open>cs\<close>.\<close>

definition vec_pval :: "ring_ops \<Rightarrow> vec list \<Rightarrow> int \<Rightarrow> vec" where
  "vec_pval rg cs x = map (\<lambda>j. pbuild (rModulus rg) (rN rg) (\<lambda>k. pval (map (\<lambda>c. pcoef (c ! j) k) cs) x)) [0..<dimN]"

lemma sum_cong_mod: "(\<And>j. j < n \<Longrightarrow> f j mod q = g j mod (q :: int)) \<Longrightarrow> (\<Sum>j<(n :: nat). f j) mod q = (\<Sum>j<n. g j) mod q"
  by (induction n) (auto intro: mod_add_cong)

lemma pval_sum_mod:
  assumes "\<And>j. j < (n :: nat) \<Longrightarrow> f j mod q = pval (map (g j) cs) x mod (q :: int)"
  shows "(\<Sum>j<n. a j * f j) mod q = pval (map (\<lambda>c. \<Sum>j<n. a j * g j c) cs) x mod q"
proof -
  have "(\<Sum>j<n. a j * f j) mod q = (\<Sum>j<n. a j * pval (map (g j) cs) x) mod q"
    using assms by (intro sum_cong_mod mod_mult_cong) auto
  also have "(\<Sum>j<n. a j * pval (map (g j) cs) x) = pval (map (\<lambda>c. \<Sum>j<n. a j * g j c) cs) x"
  proof (induction cs)
    case (Cons c cs)
    have "(\<Sum>j<n. a j * (x * pval (map (g j) cs) x)) = x * (\<Sum>j<n. a j * pval (map (g j) cs) x)"
      by (simp add: sum_distrib_left mult.left_commute)
    then show ?case using Cons.IH by (simp add: distrib_left sum.distrib)
  qed simp
  finally show ?thesis .
qed

lemma pval_cong_mod:
  "(\<And>c. c \<in> set cs \<Longrightarrow> f c mod q = g c mod q) \<Longrightarrow> pval (map f cs) x mod q = pval (map g cs) x mod (q :: int)"
proof (induction cs)
  case (Cons c cs)
  have h: "f c mod q = g c mod q" and IH: "pval (map f cs) x mod q = pval (map g cs) x mod q" using Cons by auto
  show ?case unfolding list.map pval.simps by (intro mod_add_cong mod_mult_cong h IH) simp
qed simp

context lattice_ring
begin

lemma NTT_pval:
  assumes "\<forall>p \<in> set ps. valid p"
  shows "rNTT rg (pbuild (rModulus rg) (rN rg) (\<lambda>k. pval (map (\<lambda>p. pcoef p k) ps) x))
    = pbuild (rModulus rg) (rN rg) (\<lambda>k. pval (map (\<lambda>p. pcoef (rNTT rg p) k) ps) x)"
  using assms
proof (induction ps)
  case Nil
  show ?case using NTT_scale_nat[OF valid_NewPoly, of 0] by simp
next
  case (Cons p ps)
  let ?t = "pbuild (rModulus rg) (rN rg) (\<lambda>k. pval (map (\<lambda>p. pcoef p k) ps) x)"
  let ?xt = "pbuild (rModulus rg) (rN rg) (\<lambda>k. x * pcoef ?t k)"
  have p: "valid p" and t: "valid ?t" and xt: "valid ?xt" using Cons.prems q_simps by simp_all
  have IH: "rNTT rg ?t = pbuild (rModulus rg) (rN rg) (\<lambda>k. pval (map (\<lambda>p. pcoef (rNTT rg p) k) ps) x)" using Cons by simp
  have "pbuild (rModulus rg) (rN rg) (\<lambda>k. pval (map (\<lambda>p. pcoef p k) (p # ps)) x) = rAdd rg p ?xt"
    unfolding Add_pbuild[OF p] using q_simps
    by (intro pbuild_cong) (simp, intro mod_add_cong refl, simp add: mod_mult_right_eq)
  then have "rNTT rg (pbuild (rModulus rg) (rN rg) (\<lambda>k. pval (map (\<lambda>p. pcoef p k) (p # ps)) x)) = rAdd rg (rNTT rg p) (rNTT rg ?xt)"
    by (simp add: NTT_Add p xt)
  also have "\<dots> = pbuild (rModulus rg) (rN rg) (\<lambda>k. pval (map (\<lambda>p. pcoef (rNTT rg p) k) (p # ps)) x)"
    unfolding NTT_scale[OF t] IH Add_pbuild[OF valid_NTT[OF p]] using q_simps
    by (intro pbuild_cong) (simp, intro mod_add_cong refl, simp add: mod_mult_right_eq)
  finally show ?case .
qed

lemma sum_list_zip_map:
  "length row = n \<Longrightarrow> length v = n \<Longrightarrow>
   sum_list (map (\<lambda>(m, x). F m * G x) (zip row (map h v))) = (\<Sum>j<n. F (row ! j) * (G (h (v ! j)) :: int))"
  by (subst sum_list_sum_nth) (auto intro: sum.cong simp: lessThan_atLeast0)

text \<open>The slot \<open>(i, k)\<close> of the image of \<open>v\<close>, before reduction.\<close>

definition slot :: "matrix \<Rightarrow> vec \<Rightarrow> nat \<Rightarrow> nat \<Rightarrow> int" where
  "slot M v i k = (\<Sum>j<dimN. pcoef (M ! i ! j) k * Rinv * pcoef (rNTT rg (v ! j)) k)"

lemma matvec_slot:
  assumes M: "mat_ok rg dimM dimN M" and v: "vec_ok rg dimN v"
  shows "\<exists>C. ntt_copy rg v = Inr (map (rNTT rg) v) \<and>
    MatrixVectorMul rg M (map (rNTT rg) v) (InitializeVector rg dimM) = Inr C \<and> vec_ok rg dimM C \<and>
    (\<forall>i < dimM. \<forall>k < rN rg. pcoef (C ! i) k = slot M v i k mod rModulus rg)"
proof -
  have n: "ntt_copy rg v = Inr (map (rNTT rg) v)" "vec_ok rg dimN (map (rNTT rg) v)"
    using v by (auto simp: ntt_copy_def vec_ok_def vvalid_def intro: valid_NTT)
  note mv = MatrixVectorMul_ok[OF M n(2) vec_ok_InitializeVector[of dimM]]
  have "pcoef (map2 (\<lambda>row acc. row_mul rg row (map (rNTT rg) v) acc) M (InitializeVector rg dimM) ! i) k = slot M v i k mod rModulus rg"
    if ik: "i < dimM" "k < rN rg" for i k
  proof -
    have row: "vec_ok rg dimN (M ! i)" using mat_ok_nth[OF M ik(1)] .
    have "pcoef (row_mul rg (M ! i) (map (rNTT rg) v) (rNewPoly rg)) k
        = (\<Sum>j<dimN. pcoef (M ! i ! j) k * pcoef (rNTT rg (v ! j)) k) * Rinv mod rModulus rg"
      using row v n(2) ik q_simps
      by (simp add: row_mul_spec vec_ok_def valid_NewPoly sum_list_zip_map[of "M ! i" dimN v])
    also have "(\<Sum>j<dimN. pcoef (M ! i ! j) k * pcoef (rNTT rg (v ! j)) k) * Rinv = slot M v i k"
      unfolding slot_def sum_distrib_right by (intro sum.cong refl) (simp only: mult.assoc mult.commute[of Rinv])
    finally show ?thesis using M ik by (simp add: mat_ok_def InitializeVector_def)
  qed
  then show ?thesis using n(1) mv by blast
qed

lemma commit_coeff_ok:
  assumes P: "cpR P = rg" and A: "mat_ok rg dimM dimN (cpA P)" and B: "mat_ok rg dimM dimN (cpB P)"
    and c: "vec_ok rg dimN c" and b: "vec_ok rg dimN b"
  shows "\<exists>C. commit_coeff P c b = Inr C \<and> vec_ok rg dimM C \<and>
    (\<forall>i < dimM. \<forall>k < rN rg. pcoef (C ! i) k = (slot (cpA P) c i k + slot (cpB P) b i k) mod rModulus rg)"
proof -
  obtain Ca where Ca: "ntt_copy rg c = Inr (map (rNTT rg) c)" "MatrixVectorMul rg (cpA P) (map (rNTT rg) c) (InitializeVector rg dimM) = Inr Ca"
    "vec_ok rg dimM Ca" "\<forall>i < dimM. \<forall>k < rN rg. pcoef (Ca ! i) k = slot (cpA P) c i k mod rModulus rg"
    using matvec_slot[OF A c] by blast
  obtain Cb where Cb: "ntt_copy rg b = Inr (map (rNTT rg) b)" "MatrixVectorMul rg (cpB P) (map (rNTT rg) b) (InitializeVector rg dimM) = Inr Cb"
    "vec_ok rg dimM Cb" "\<forall>i < dimM. \<forall>k < rN rg. pcoef (Cb ! i) k = slot (cpB P) b i k mod rModulus rg"
    using matvec_slot[OF B b] by blast
  have len: "length (InitializeVector rg dimM) = dimM" by (simp add: InitializeVector_def)
  note add = VectorAdd_ok[OF Ca(3) Cb(3) len]
  have run: "commit_coeff P c b = Inr (map2 (rAdd rg) Ca Cb)"
    unfolding commit_coeff_def P Let_def Ca(1,2) Cb(1,2) rbind.simps by (rule add(1))
  have "pcoef (map2 (rAdd rg) Ca Cb ! i) k = (slot (cpA P) c i k + slot (cpB P) b i k) mod rModulus rg"
    if "i < dimM" "k < rN rg" for i k
    unfolding pcoef_VectorAdd[OF Ca(3) Cb(3) that] using Ca(4) Cb(4) that by (simp add: mod_add_eq)
  then show ?thesis using run add(2) by blast
qed

lemma slot_pval:
  assumes "\<forall>c \<in> set cs. vec_ok rg dimN c" "k < rN rg"
  shows "slot M (vec_pval rg cs x) i k mod rModulus rg = pval (map (\<lambda>c. slot M c i k) cs) x mod rModulus rg"
  unfolding slot_def
proof (rule pval_sum_mod)
  fix j assume j: "j < dimN"
  let ?ps = "map (\<lambda>c. c ! j) cs"
  have ps: "\<forall>p \<in> set ?ps. valid p" using assms(1) j vec_ok_nth by auto
  have "vec_pval rg cs x ! j = pbuild (rModulus rg) (rN rg) (\<lambda>k. pval (map (\<lambda>p. pcoef p k) ?ps) x)"
    using j by (simp add: vec_pval_def comp_def)
  then show "pcoef (rNTT rg (vec_pval rg cs x ! j)) k mod rModulus rg = pval (map (\<lambda>c. pcoef (rNTT rg (c ! j)) k) cs) x mod rModulus rg"
    using NTT_pval[OF ps, of x] assms(2) q_simps by (simp add: comp_def)
qed

lemma polyMulScalar_ok:
  assumes "valid p" "rModulus rg = corona_q"
  shows "polyMulScalarNTTOnly rg p x corona_q = Inr (pbuild (rModulus rg) (rN rg) (\<lambda>k. pcoef p k * x))"
proof -
  obtain lv where p: "p = [lv]" and len: "length lv = rN rg" using assms(1) by (cases p) (auto simp: pvalid_def)
  have "map (\<lambda>c. word_of_int (uint c * x mod corona_q)) lv = map (\<lambda>k. word_of_int (uint (lv ! k) * x mod corona_q)) [0..<rN rg]"
    by (rule nth_equalityI) (simp_all add: len)
  then show ?thesis using assms(2) p len by (simp add: polyMulScalarNTTOnly_def pbuild_def pcoef_def)
qed

lemma commits_step_ok:
  assumes q: "rModulus rg = corona_q" and a: "vec_ok rg dimM acc" and c: "vec_ok rg dimM c"
  shows "\<exists>v. commits_step rg x acc c = Inr v \<and> vec_ok rg dimM v \<and>
    (\<forall>i < dimM. \<forall>k < rN rg. pcoef (v ! i) k = (pcoef (c ! i) k + x * pcoef (acc ! i) k) mod rModulus rg)"
proof -
  let ?s = "map (\<lambda>p. pbuild (rModulus rg) (rN rg) (\<lambda>k. pcoef p k * x)) acc"
  have s: "vec_ok rg dimM ?s" using a q_simps by (intro vec_ok_mapI) (auto simp: vec_ok_def)
  have len: "length ?s = dimM" "length acc = dimM" using a by (simp_all add: vec_ok_def)
  have m: "mapM (\<lambda>p. polyMulScalarNTTOnly rg p x corona_q) acc = Inr ?s"
    using a by (intro mapM_all_Inr polyMulScalar_ok q) (auto simp: vec_ok_def vvalid_def)
  note add = VectorAdd_ok[OF s c len(1)]
  have "pcoef (map2 (rAdd rg) ?s c ! i) k = (pcoef (c ! i) k + x * pcoef (acc ! i) k) mod rModulus rg"
    if ik: "i < dimM" "k < rN rg" for i k
    unfolding pcoef_VectorAdd[OF s c ik]
    using ik len q_simps by (simp add: mod_add_left_eq) (simp add: algebra_simps)
  then show ?thesis unfolding commits_step_def m rbind.simps add(1) using add(2) by blast
qed

lemma commits_fold_ok:
  assumes q: "rModulus rg = corona_q" and a: "vec_ok rg dimM acc" and c: "\<forall>c \<in> set cs. vec_ok rg dimM c"
  shows "\<exists>v. foldM (commits_step rg x) acc cs = Inr v \<and> vec_ok rg dimM v \<and>
    (\<forall>i < dimM. \<forall>k < rN rg. pcoef (v ! i) k = pval (map (\<lambda>c. pcoef (c ! i) k) (rev cs @ [acc])) x mod rModulus rg)"
  using a c
proof (induction cs arbitrary: acc)
  case Nil
  then show ?case using pcoef_mod[OF vec_ok_nth] by auto
next
  case (Cons c cs)
  obtain v1 where v1: "commits_step rg x acc c = Inr v1" "vec_ok rg dimM v1"
    "\<forall>i < dimM. \<forall>k < rN rg. pcoef (v1 ! i) k = (pcoef (c ! i) k + x * pcoef (acc ! i) k) mod rModulus rg"
    using commits_step_ok[OF q Cons.prems(1), of c x] Cons.prems(2) by auto
  obtain v where v: "foldM (commits_step rg x) v1 cs = Inr v" "vec_ok rg dimM v"
    "\<forall>i < dimM. \<forall>k < rN rg. pcoef (v ! i) k = pval (map (\<lambda>c. pcoef (c ! i) k) (rev cs @ [v1])) x mod rModulus rg"
    using Cons.IH[OF v1(2)] Cons.prems(2) by auto
  have "pval (map (\<lambda>c. pcoef (c ! i) k) (rev cs @ [v1])) x mod rModulus rg
      = pval (map (\<lambda>c. pcoef (c ! i) k) (rev (c # cs) @ [acc])) x mod rModulus rg" if "i < dimM" "k < rN rg" for i k
    using v1(3) that by (simp add: pval_append) (intro mod_add_cong mod_mult_cong refl, simp add: algebra_simps)
  then show ?case using v1(1) v by auto
qed

lemma commits_at_ok:
  assumes q: "rModulus rg = corona_q" and c: "\<forall>c \<in> set cs. vec_ok rg dimM c" and ne: "cs \<noteq> []"
  shows "\<exists>v. commits_at rg x cs = Inr v \<and> vec_ok rg dimM v \<and>
    (\<forall>i < dimM. \<forall>k < rN rg. pcoef (v ! i) k = pval (map (\<lambda>c. pcoef (c ! i) k) cs) x mod rModulus rg)"
proof -
  obtain d ds where cs: "rev cs = d # ds" using ne by (cases "rev cs") auto
  then have cs': "cs = rev ds @ [d]" by (metis rev.simps(2) rev_rev_ident)
  have d: "vec_ok rg dimM d" and ds: "\<forall>c \<in> set ds. vec_ok rg dimM c" using c cs' by auto
  note ini = vec_ok_InitializeVector[of dimM]
  have len: "length (InitializeVector rg dimM) = dimM" by (simp add: InitializeVector_def)
  note add = VectorAdd_ok[OF ini d len]
  have "map2 (rAdd rg) (InitializeVector rg dimM) d = d"
    using pcoef_VectorAdd[OF ini d] pcoef_mod[OF vec_ok_nth[OF d]] by (intro vec_ok_eqI[OF add(2) d]) simp
  then have "commits_at rg x cs = foldM (commits_step rg x) d ds"
    unfolding commits_at_def cs using add(1) by simp
  then show ?thesis using commits_fold_ok[OF q d ds, of x] cs' by simp
qed

lemma VerifyShare_unfold:
  assumes "commits \<noteq> []" "cpR P = rg" "commit_coeff P share blind = Inr lhs" "commits_at rg x commits = Inr rhs"
    and "length lhs = dimM" "length rhs = dimM"
  shows "VerifyShareAgainstCommits P share blind commits x = (if lhs = rhs then Inr () else Inl ErrCommitMismatch)"
proof -
  have acc: "foldl (\<lambda>eq ri. eq AND ConstantTimePolyEqual (lhs ! ri) (rhs ! ri)) e xs
      = (if \<forall>ri \<in> set xs. lhs ! ri = rhs ! ri then e else 0)" if "e = 0 \<or> e = (1 :: int)" for e xs
    using that by (induction xs arbitrary: e) (auto simp: ConstantTimePolyEqual_eq)
  have "(\<forall>ri \<in> set [0..<dimM]. lhs ! ri = rhs ! ri) \<longleftrightarrow> lhs = rhs" using assms(5,6) by (auto intro: nth_equalityI)
  then have cmp: "foldl (\<lambda>eq ri. eq AND ConstantTimePolyEqual (lhs ! ri) (rhs ! ri)) 1 [0..<dimM] \<noteq> (1 :: int) \<longleftrightarrow> lhs \<noteq> rhs"
    unfolding acc[OF disjI2[OF refl]] by simp
  obtain a b where "ntt_copy rg share = Inr a" "ntt_copy rg blind = Inr b"
    using assms(2,3) by (auto simp: commit_coeff_def res_simps Let_def)
  then show ?thesis
    using assms(1-4) cmp by (auto simp: VerifyShareAgainstCommits_def commit_coeff_def res_simps Let_def)
qed

lemma VerifyShare_iff:
  assumes P: "cpR P = rg" and A: "mat_ok rg dimM dimN (cpA P)" and B: "mat_ok rg dimM dimN (cpB P)"
    and q: "rModulus rg = corona_q" and c: "\<forall>c \<in> set cs. vec_ok rg dimN c" and b: "\<forall>c \<in> set bs. vec_ok rg dimN c"
    and len: "length cs = length bs" "cs \<noteq> []"
  shows "\<exists>commits. CommitToPoly P cs bs = Inr commits \<and> length commits = length cs \<and>
    (\<forall>share blind. vec_ok rg dimN share \<and> vec_ok rg dimN blind \<longrightarrow>
       VerifyShareAgainstCommits P share blind commits x =
         (if commit_coeff P share blind = commit_coeff P (vec_pval rg cs x) (vec_pval rg bs x) then Inr () else Inl ErrCommitMismatch))"
proof -
  let ?C = "\<lambda>cb. projr (commit_coeff P (fst cb) (snd cb))"
  let ?commits = "map ?C (zip cs bs)"
  have one: "commit_coeff P (fst cb) (snd cb) = Inr (?C cb) \<and> vec_ok rg dimM (?C cb) \<and>
      (\<forall>i < dimM. \<forall>k < rN rg. pcoef (?C cb ! i) k = (slot (cpA P) (fst cb) i k + slot (cpB P) (snd cb) i k) mod rModulus rg)"
    if "cb \<in> set (zip cs bs)" for cb
  proof -
    have "vec_ok rg dimN (fst cb)" "vec_ok rg dimN (snd cb)"
      using c b that by (cases cb; auto dest: set_zip_leftD set_zip_rightD)+
    then show ?thesis using commit_coeff_ok[OF P A B] by fastforce
  qed
  have run: "CommitToPoly P cs bs = Inr ?commits"
    unfolding CommitToPoly_def using len one by (simp add: case_prod_unfold mapM_all_Inr)
  have comm: "\<forall>C \<in> set ?commits. vec_ok rg dimM C" "?commits \<noteq> []" using one len by auto
  obtain rhs where rhs: "commits_at rg x ?commits = Inr rhs" "vec_ok rg dimM rhs"
    "\<forall>i < dimM. \<forall>k < rN rg. pcoef (rhs ! i) k = pval (map (\<lambda>C. pcoef (C ! i) k) ?commits) x mod rModulus rg"
    using commits_at_ok[OF q comm] by blast
  have pv: "vec_ok rg dimN (vec_pval rg ds x)" for ds using q_simps by (auto simp: vec_pval_def vec_ok_def vvalid_def)
  obtain E where E: "commit_coeff P (vec_pval rg cs x) (vec_pval rg bs x) = Inr E" "vec_ok rg dimM E"
    "\<forall>i < dimM. \<forall>k < rN rg. pcoef (E ! i) k = (slot (cpA P) (vec_pval rg cs x) i k + slot (cpB P) (vec_pval rg bs x) i k) mod rModulus rg"
    using commit_coeff_ok[OF P A B pv pv] by blast
  have "rhs = E"
  proof (rule vec_ok_eqI[OF rhs(2) E(2)])
    fix i k assume ik: "i < dimM" "k < rN rg"
    have "pcoef (rhs ! i) k = pval (map (\<lambda>cb. slot (cpA P) (fst cb) i k + slot (cpB P) (snd cb) i k) (zip cs bs)) x mod rModulus rg"
      using rhs(3) ik one pval_cong_mod[of "zip cs bs" "\<lambda>cb. pcoef (?C cb ! i) k" "rModulus rg" "\<lambda>cb. slot (cpA P) (fst cb) i k + slot (cpB P) (snd cb) i k" x]
      by (simp add: comp_def)
    also have "pval (map (\<lambda>cb. slot (cpA P) (fst cb) i k + slot (cpB P) (snd cb) i k) (zip cs bs)) x
        = pval (map (\<lambda>c. slot (cpA P) c i k) cs) x + pval (map (\<lambda>b. slot (cpB P) b i k) bs) x"
      using len(1) by (induction cs bs rule: list_induct2) (simp_all add: algebra_simps)
    also have "\<dots> mod rModulus rg = (slot (cpA P) (vec_pval rg cs x) i k + slot (cpB P) (vec_pval rg bs x) i k) mod rModulus rg"
      by (intro mod_add_cong slot_pval[OF c ik(2), symmetric] slot_pval[OF b ik(2), symmetric])
    also have "\<dots> = pcoef (E ! i) k" using E(3) ik by simp
    finally show "pcoef (rhs ! i) k = pcoef (E ! i) k" .
  qed
  have "VerifyShareAgainstCommits P share blind ?commits x =
         (if commit_coeff P share blind = commit_coeff P (vec_pval rg cs x) (vec_pval rg bs x) then Inr () else Inl ErrCommitMismatch)"
    if sb: "vec_ok rg dimN share" "vec_ok rg dimN blind" for share blind
  proof -
    obtain lhs where lhs: "commit_coeff P share blind = Inr lhs" "vec_ok rg dimM lhs" using commit_coeff_ok[OF P A B sb] by blast
    show ?thesis
      using VerifyShare_unfold[OF comm(2) P lhs(1) rhs(1)] lhs rhs(2) E(1) \<open>rhs = E\<close> by (simp add: vec_ok_def)
  qed
  then show ?thesis using run len by (intro exI[of _ ?commits]) simp
qed

end

section \<open>Property\<close>

text \<open>
  C30: what a share check decides. Committing to well-formed polynomials of equal length
  returns one commitment per coefficient, and the check of a share and blind at the point
  \<open>x\<close> succeeds exactly when their image under \<open>(A, B)\<close> is the image of the
  two polynomials' values at \<open>x\<close>, and otherwise reports a commitment mismatch. In
  particular the honest share always passes, and two different pairs that pass give a short-vector
  relation for \<open>(A, B)\<close>.
\<close>

theorem commit_share_check:
  assumes "lattice_ring (cpR P)" "rModulus (cpR P) = corona_q"
    and "mat_ok (cpR P) dimM dimN (cpA P)" "mat_ok (cpR P) dimM dimN (cpB P)"
    and "\<forall>c \<in> set cs. vec_ok (cpR P) dimN c" "\<forall>b \<in> set bs. vec_ok (cpR P) dimN b"
    and "length cs = length bs" "cs \<noteq> []"
  shows "\<exists>commits. CommitToPoly P cs bs = Inr commits \<and> length commits = length cs \<and>
    VerifyShareAgainstCommits P (vec_pval (cpR P) cs x) (vec_pval (cpR P) bs x) commits x = Inr () \<and>
    (\<forall>share blind. vec_ok (cpR P) dimN share \<and> vec_ok (cpR P) dimN blind \<longrightarrow>
       VerifyShareAgainstCommits P share blind commits x =
         (if commit_coeff P share blind = commit_coeff P (vec_pval (cpR P) cs x) (vec_pval (cpR P) bs x)
          then Inr () else Inl ErrCommitMismatch))"
proof -
  have pv: "vec_ok (cpR P) dimN (vec_pval (cpR P) ds x)" for ds
    using coeff_ring.q_simps[OF lattice_ring.axioms(1)[OF assms(1)]] by (auto simp: vec_pval_def vec_ok_def vvalid_def)
  show ?thesis using lattice_ring.VerifyShare_iff[OF assms(1) refl assms(3,4,2,5-8), of x] pv by fastforce
qed

definition ex_commit :: CommitParams where
  "ex_commit = \<lparr> cpR = ref_ring, cpRXi = ref_ring,
     cpA = replicate dimM (replicate dimN [[1, 2]]), cpB = replicate dimM (replicate dimN [[3, 0]]) \<rparr>"

theorem commit_share_check_witness:
  "\<exists>commits. CommitToPoly ex_commit [replicate dimN [[5, 6]], replicate dimN [[7, 8]]] [replicate dimN [[1, 0]], replicate dimN [[0, 1]]] = Inr commits \<and>
     length commits = 2 \<and>
     VerifyShareAgainstCommits ex_commit
       (vec_pval ref_ring [replicate dimN [[5, 6]], replicate dimN [[7, 8]]] 3)
       (vec_pval ref_ring [replicate dimN [[1, 0]], replicate dimN [[0, 1]]] 3) commits 3 = Inr ()"
proof -
  have v: "vec_ok ref_ring dimN (replicate dimN [[a, b]])" if "uint a < 100" "uint b < 100" for a b
    using that by (intro vec_ok_replicate) (simp add: ref_ring_def pvalid_def corona_q_def)
  have m: "mat_ok ref_ring dimM dimN (replicate dimM (replicate dimN [[a, b]]))" if "uint a < 100" "uint b < 100" for a b
    using v[OF that] by (simp add: mat_ok_def)
  have r: "cpR ex_commit = ref_ring" "cpA ex_commit = replicate dimM (replicate dimN [[1, 2]])"
    "cpB ex_commit = replicate dimM (replicate dimN [[3, 0]])" by (simp_all add: ex_commit_def)
  have "rModulus ref_ring = corona_q" by (simp add: ref_ring_def)
  then show ?thesis
    using commit_share_check[of ex_commit "[replicate dimN [[5, 6]], replicate dimN [[7, 8]]]" "[replicate dimN [[1, 0]], replicate dimN [[0, 1]]]" 3,
      unfolded r, OF ref.lattice_ring_axioms] v m by fastforce
qed

end
