(* ===== verification/Activation.thy ===== *)
theory Activation
  imports Commit "HOL-Library.List_Lexorder"
begin

text \<open>
  The exchange around a resharing: \<^verbatim>\<open>reshare/complaint.go\<close> (signed complaints and the
  disqualification rule), \<^verbatim>\<open>reshare/transcript.go\<close> (what a resharing is bound to) and
  \<^verbatim>\<open>reshare/activation.go\<close> (the certificate the chain checks before it switches epochs).
  Ed25519 is the record \<open>ed25519\<close>; its functions panic on keys of the wrong length.
\<close>

section \<open>Ed25519\<close>

record ed25519 =
  edSign :: "bytes \<Rightarrow> bytes \<Rightarrow> bytes"
  edVerify :: "bytes \<Rightarrow> bytes \<Rightarrow> bytes \<Rightarrow> bool"

definition ed25519_Sign :: "ed25519 \<Rightarrow> bytes \<Rightarrow> bytes \<Rightarrow> bytes res" where
  "ed25519_Sign ed priv msg = (if length priv \<noteq> 64 then Inl Panic else Inr (edSign ed priv msg))"

definition ed25519_Verify :: "ed25519 \<Rightarrow> bytes \<Rightarrow> bytes \<Rightarrow> bytes \<Rightarrow> bool res" where
  "ed25519_Verify ed pub msg sig = (if length pub \<noteq> 32 then Inl Panic else Inr (edVerify ed pub msg sig))"

text \<open>The public half is stored behind the seed.\<close>

definition ed25519_Public :: "bytes \<Rightarrow> bytes" where
  "ed25519_Public priv = drop 32 priv"

section \<open>Complaints\<close>

type_synonym ComplaintReason = u8

definition ComplaintBadDelivery :: ComplaintReason where "ComplaintBadDelivery = 1"
definition ComplaintEquivocation :: ComplaintReason where "ComplaintEquivocation = 2"
definition ComplaintMissing :: ComplaintReason where "ComplaintMissing = 3"
definition ComplaintMalformedCommit :: ComplaintReason where "ComplaintMalformedCommit = 4"

text \<open>\<^verbatim>\<open>%d\<close>.\<close>

fun decimal :: "nat \<Rightarrow> string" where
  "decimal n = (if n < 10 then [char_of (48 + n)] else decimal (n div 10) @ [char_of (48 + n mod 10)])"

definition ComplaintReason_String :: "ComplaintReason \<Rightarrow> string" where
  "ComplaintReason_String r =
     (if r = ComplaintBadDelivery then ''bad-delivery''
      else if r = ComplaintEquivocation then ''equivocation''
      else if r = ComplaintMissing then ''missing''
      else if r = ComplaintMalformedCommit then ''malformed-commit''
      else ''unknown('' @ decimal (unat r) @ '')'')"

record Complaint =
  cTranscriptHash :: bytes
  cSenderID :: int
  cComplainerID :: int
  cReason :: ComplaintReason
  cEvidence :: bytes
  cSignature :: bytes
  cComplainerKey :: bytes

definition Complaint_Bytes :: "Complaint \<Rightarrow> bytes" where
  "Complaint_Bytes c = str_bytes ''corona.reshare.complaint.v1'' @ cTranscriptHash c @
     be32 (word_of_int (cSenderID c)) @ be32 (word_of_int (cComplainerID c)) @ [cReason c] @
     be32 (word_of_nat (length (cEvidence c))) @ cEvidence c"

definition Complaint_Sign :: "ed25519 \<Rightarrow> bytes \<Rightarrow> Complaint \<Rightarrow> Complaint res" where
  "Complaint_Sign ed priv c =
     rbind (ed25519_Sign ed priv (Complaint_Bytes c)) (\<lambda>sig.
     Inr (c \<lparr> cSignature := sig, cComplainerKey := ed25519_Public priv \<rparr>))"

definition Complaint_Verify :: "ed25519 \<Rightarrow> Complaint option \<Rightarrow> unit res" where
  "Complaint_Verify ed c =
     (case c of None \<Rightarrow> Inl (ErrMsg ''reshare: complaint missing signature or key'')
      | Some c \<Rightarrow>
          if cSignature c = [] \<or> cComplainerKey c = [] then Inl (ErrMsg ''reshare: complaint missing signature or key'')
          else rbind (ed25519_Verify ed (cComplainerKey c) (Complaint_Bytes c) (cSignature c)) (\<lambda>ok.
            if \<not> ok then Inl (ErrMsg ''reshare: complaint signature invalid'') else Inr ()))"

definition ComplaintHash :: "xof \<Rightarrow> Complaint \<Rightarrow> bytes" where
  "ComplaintHash x c = fixed32 (take 32 (blake3 x
     (str_bytes ''corona.reshare.complaint-hash.v1'' @ Complaint_Bytes c @ cSignature c) 32))"

section \<open>Disqualification\<close>

definition DisqualificationThreshold :: "int \<Rightarrow> int" where
  "DisqualificationThreshold thresholdOld = (if thresholdOld \<le> 1 then 1 else thresholdOld - 1)"

text \<open>One complaint: \<open>seen\<close> holds the pairs met so far, \<open>count\<close> the number of
  complainers per sender. A nil complaint panics.\<close>

definition count_complaint ::
  "(int \<times> int) list \<times> (int, int) gomap \<Rightarrow> Complaint option \<Rightarrow> ((int \<times> int) list \<times> (int, int) gomap) res" where
  "count_complaint = (\<lambda>(seen, count) c.
     (case c of None \<Rightarrow> Inl Panic
      | Some c \<Rightarrow>
          let key = (cSenderID c, cComplainerID c) in
          if key \<in> set seen then Inr (seen, count)
          else Inr (key # seen, AList.update (cSenderID c)
                 ((case map_of count (cSenderID c) of None \<Rightarrow> 0 | Some n \<Rightarrow> n) + 1) count)))"

text \<open>The set is the list of the keys of the returned map.\<close>

definition ComputeDisqualifiedSet :: "Complaint option list \<Rightarrow> int \<Rightarrow> int list res" where
  "ComputeDisqualifiedSet complaints thresholdOld =
     rbind (foldM count_complaint ([], []) complaints) (\<lambda>(seen, count).
     Inr (map fst (filter (\<lambda>(sender, n). n \<ge> DisqualificationThreshold thresholdOld) count)))"

definition FilterQualifiedQuorum :: "int list \<Rightarrow> int list \<Rightarrow> int \<Rightarrow> int list res" where
  "FilterQualifiedQuorum originalQuorum disqualified tOld =
     (let out = filter (\<lambda>i. i \<notin> set disqualified) originalQuorum in
      if int (length out) < tOld then Inl ErrInsufficientQuorum
      else Inr (insertion_sort out))"

section \<open>Transcripts\<close>

record TranscriptInputs =
  tiChainID :: bytes
  tiNetworkID :: bytes
  tiGroupID :: bytes
  tiKeyEraID :: u64
  tiOldGeneration :: u64
  tiNewGeneration :: u64
  tiOldEpochID :: u64
  tiNewEpochID :: u64
  tiOldSetHash :: bytes
  tiNewSetHash :: bytes
  tiThresholdOld :: u32
  tiThresholdNew :: u32
  tiGroupPublicKeyHash :: bytes
  tiNebulaRoot :: bytes
  tiHashSuiteID :: string
  tiImplementationVersion :: string
  tiVariant :: string

definition buildTranscriptParts :: "TranscriptInputs \<Rightarrow> bytes list" where
  "buildTranscriptParts t =
     [str_bytes ''variant'', str_bytes (tiVariant t),
      str_bytes ''chain_id'', tiChainID t,
      str_bytes ''network_id'', tiNetworkID t,
      str_bytes ''group_id'', tiGroupID t,
      str_bytes ''key_era_id'', be64 (tiKeyEraID t),
      str_bytes ''old_generation'', be64 (tiOldGeneration t),
      str_bytes ''new_generation'', be64 (tiNewGeneration t),
      str_bytes ''old_epoch_id'', be64 (tiOldEpochID t),
      str_bytes ''new_epoch_id'', be64 (tiNewEpochID t),
      str_bytes ''old_set_hash'', tiOldSetHash t,
      str_bytes ''new_set_hash'', tiNewSetHash t,
      str_bytes ''threshold_old'', be32 (tiThresholdOld t),
      str_bytes ''threshold_new'', be32 (tiThresholdNew t),
      str_bytes ''group_public_key_hash'', tiGroupPublicKeyHash t,
      str_bytes ''nebula_root'', tiNebulaRoot t,
      str_bytes ''hash_suite_id'', str_bytes (tiHashSuiteID t),
      str_bytes ''implementation_version'', str_bytes (tiImplementationVersion t)]"

definition TranscriptInputs_Hash :: "xof \<Rightarrow> TranscriptInputs \<Rightarrow> hash_suite option \<Rightarrow> bytes" where
  "TranscriptInputs_Hash x t suite = hsTranscriptHash (Resolve x suite) (buildTranscriptParts t)"

text \<open>\<^verbatim>\<open>bytes.Compare\<close>.\<close>

fun bytes_Compare :: "bytes \<Rightarrow> bytes \<Rightarrow> int" where
  "bytes_Compare [] [] = 0"
| "bytes_Compare [] (b # bs) = -1"
| "bytes_Compare (a # as) [] = 1"
| "bytes_Compare (a # as) (b # bs) = (if unat a < unat b then -1 else if unat a > unat b then 1 else bytes_Compare as bs)"

definition sorted_keys :: "bytes list \<Rightarrow> bytes list" where
  "sorted_keys publicKeys = insertion_sort_by (\<lambda>a b. bytes_Compare a b > 0) publicKeys"

definition ValidatorSetHash :: "xof \<Rightarrow> bytes list \<Rightarrow> hash_suite option \<Rightarrow> bytes res" where
  "ValidatorSetHash x publicKeys suite =
     (let sorted = sorted_keys publicKeys in
      if \<exists>pk \<in> set sorted. length pk > 0xFFFF then Inl Panic
      else Inr (hsTranscriptHash (Resolve x suite)
        (str_bytes ''corona.reshare.validator-set.v1'' # be32 (word_of_nat (length sorted)) # sorted)))"

section \<open>Activation certificates\<close>

record ReshareTranscript =
  rtCommitDigests :: "(int, bytes) gomap"
  rtComplaintHashes :: "bytes list"
  rtDisqualifiedSenders :: "int list"
  rtQualifiedQuorum :: "int list"

record ActivationMessage =
  amTranscript :: TranscriptInputs
  amReshareTranscript :: ReshareTranscript

record ActivationCert =
  acMessage :: ActivationMessage
  acSignature :: bytes

definition insertionSortInts :: "int list \<Rightarrow> int list" where
  "insertionSortInts s = insertion_sort s"

definition commit_part :: "(int, bytes) gomap \<Rightarrow> int \<Rightarrow> bytes list" where
  "commit_part m i = [str_bytes ''commit_party'', i32 i, str_bytes ''commit_digest'',
     (case map_of m i of None \<Rightarrow> replicate 32 0 | Some d \<Rightarrow> d)]"

definition buildExchangeTranscriptParts :: "ReshareTranscript \<Rightarrow> bytes list" where
  "buildExchangeTranscriptParts rt =
     (let commitParties = insertionSortInts (gokeys (rtCommitDigests rt));
          dq = insertionSortInts (rtDisqualifiedSenders rt);
          q = insertionSortInts (rtQualifiedQuorum rt) in
      [str_bytes ''corona.reshare.exchange-transcript.v1''] @
      [str_bytes ''commit_count'', i32 (int (length commitParties))] @
      concat (map (commit_part (rtCommitDigests rt)) commitParties) @
      [str_bytes ''complaint_count'', i32 (int (length (rtComplaintHashes rt)))] @
      concat (map (\<lambda>ch. [str_bytes ''complaint_hash'', ch]) (rtComplaintHashes rt)) @
      [str_bytes ''disqualified_count'', i32 (int (length dq))] @
      concat (map (\<lambda>i. [str_bytes ''disqualified_id'', i32 i]) dq) @
      [str_bytes ''qualified_count'', i32 (int (length q))] @
      concat (map (\<lambda>i. [str_bytes ''qualified_id'', i32 i]) q))"

definition ReshareTranscript_Hash :: "xof \<Rightarrow> ReshareTranscript \<Rightarrow> hash_suite option \<Rightarrow> bytes" where
  "ReshareTranscript_Hash x rt suite = hsTranscriptHash (Resolve x suite) (buildExchangeTranscriptParts rt)"

definition SignableBytes :: "xof \<Rightarrow> ActivationMessage \<Rightarrow> hash_suite option \<Rightarrow> bytes" where
  "SignableBytes x a suite = str_bytes ''QUASAR-CORONA-ACTIVATE-v1'' @
     TranscriptInputs_Hash x (amTranscript a) suite @ ReshareTranscript_Hash x (amReshareTranscript a) suite"

definition VerifyActivation ::
  "xof \<Rightarrow> ActivationCert option \<Rightarrow> bytes \<Rightarrow> bytes \<Rightarrow> hash_suite option \<Rightarrow> (bytes \<Rightarrow> bytes \<Rightarrow> bool) \<Rightarrow> unit res" where
  "VerifyActivation x cert localTranscriptHash localExchangeHash suite verify =
     (case cert of None \<Rightarrow> Inl (ErrMsg ''reshare: nil activation cert'')
      | Some c \<Rightarrow>
          if TranscriptInputs_Hash x (amTranscript (acMessage c)) suite \<noteq> localTranscriptHash then Inl ErrTranscriptMismatch
          else if ReshareTranscript_Hash x (amReshareTranscript (acMessage c)) suite \<noteq> localExchangeHash then Inl ErrTranscriptMismatch
          else if \<not> verify (SignableBytes x (acMessage c) suite) (acSignature c) then Inl ErrActivationFailed
          else Inr ())"

section \<open>The disqualified set\<close>

definition complainers :: "Complaint list \<Rightarrow> int \<Rightarrow> int set" where
  "complainers cs s = cComplainerID ` set (filter (\<lambda>c. cSenderID c = s) cs)"

lemma count_complaints:
  "\<exists>seen count. foldM count_complaint ([], []) (map Some cs) = Inr (seen, count) \<and>
     set seen = (\<lambda>c. (cSenderID c, cComplainerID c)) ` set cs \<and> distinct (map fst count) \<and>
     (\<forall>s. map_of count s = (if complainers cs s = {} then None else Some (int (card (complainers cs s)))))"
proof (induction cs rule: rev_induct)
  case Nil
  then show ?case by (simp add: complainers_def)
next
  case (snoc c cs)
  then obtain seen count where IH: "foldM count_complaint ([], []) (map Some cs) = Inr (seen, count)"
    "set seen = (\<lambda>c. (cSenderID c, cComplainerID c)) ` set cs" "distinct (map fst count)"
    "\<forall>s. map_of count s = (if complainers cs s = {} then None else Some (int (card (complainers cs s))))" by blast
  have fin: "finite (complainers cs s)" for s by (simp add: complainers_def)
  have new: "complainers (cs @ [c]) s = (if s = cSenderID c then insert (cComplainerID c) (complainers cs s) else complainers cs s)" for s
    by (auto simp: complainers_def)
  have mem: "(cSenderID c, cComplainerID c) \<in> set seen \<longleftrightarrow> cComplainerID c \<in> complainers cs (cSenderID c)"
    unfolding IH(2) complainers_def by (auto simp: image_iff) metis
  show ?case
  proof (cases "(cSenderID c, cComplainerID c) \<in> set seen")
    case True
    then have "complainers (cs @ [c]) s = complainers cs s" for s using mem new by (simp add: insert_absorb)
    then show ?thesis using IH True by (auto simp: foldM_append count_complaint_def Let_def insert_absorb)
  next
    case False
    then have "int (card (insert (cComplainerID c) (complainers cs (cSenderID c)))) = int (card (complainers cs (cSenderID c))) + 1"
      using mem fin by simp
    then show ?thesis using IH False
      by (auto simp: foldM_append count_complaint_def Let_def new update_conv distinct_update)
  qed
qed

lemma ComputeDisqualifiedSet_spec:
  "\<exists>dq. ComputeDisqualifiedSet (map Some cs) tOld = Inr dq \<and> distinct dq \<and>
     (\<forall>s. s \<in> set dq \<longleftrightarrow> DisqualificationThreshold tOld \<le> int (card (complainers cs s)))"
proof -
  obtain seen count where C: "foldM count_complaint ([], []) (map Some cs) = Inr (seen, count)" "distinct (map fst count)"
    "\<forall>s. map_of count s = (if complainers cs s = {} then None else Some (int (card (complainers cs s))))"
    using count_complaints[of cs] by blast
  let ?dq = "map fst (filter (\<lambda>(sender, n). n \<ge> DisqualificationThreshold tOld) count)"
  have pos: "0 < DisqualificationThreshold tOld" by (simp add: DisqualificationThreshold_def)
  have "s \<in> set ?dq \<longleftrightarrow> (\<exists>n. map_of count s = Some n \<and> DisqualificationThreshold tOld \<le> n)" for s
    using C(2) by (force simp: map_of_eq_Some_iff)
  then have "s \<in> set ?dq \<longleftrightarrow> DisqualificationThreshold tOld \<le> int (card (complainers cs s))" for s
    using C(3) pos by (auto split: if_splits)
  moreover have "distinct ?dq" using C(2) by (simp add: distinct_map_filter)
  ultimately show ?thesis using C(1) by (simp add: ComputeDisqualifiedSet_def)
qed

text \<open>
  C31: disqualification. A sender is disqualified exactly when at least the threshold number of
  distinct parties complained about it, however often and for whatever reasons each of
  them did; the surviving quorum is the sorted rest, or the insufficient-quorum error when
  it is too small; and parties that hold the same complaints and the same quorum, in any order
  and with any repetitions, compute the same quorum or the same error.
\<close>

theorem disqualification_rule:
  "\<exists>dq. ComputeDisqualifiedSet (map Some cs) tOld = Inr dq \<and> distinct dq \<and>
     (\<forall>s. s \<in> set dq \<longleftrightarrow> DisqualificationThreshold tOld \<le> int (card (complainers cs s))) \<and>
     (\<forall>quorum. FilterQualifiedQuorum quorum dq tOld =
        (if int (length (filter (\<lambda>i. i \<notin> set dq) quorum)) < tOld then Inl ErrInsufficientQuorum
         else Inr (sort (filter (\<lambda>i. i \<notin> set dq) quorum)))) \<and>
     (\<forall>cs' dq' quorum quorum'. set cs' = set cs \<and> ComputeDisqualifiedSet (map Some cs') tOld = Inr dq' \<and> mset quorum' = mset quorum \<longrightarrow>
        FilterQualifiedQuorum quorum' dq' tOld = FilterQualifiedQuorum quorum dq tOld)"
proof -
  obtain dq where dq: "ComputeDisqualifiedSet (map Some cs) tOld = Inr dq" "distinct dq"
    "\<forall>s. s \<in> set dq \<longleftrightarrow> DisqualificationThreshold tOld \<le> int (card (complainers cs s))"
    using ComputeDisqualifiedSet_spec by blast
  have F: "FilterQualifiedQuorum quorum d tOld =
      (if int (length (filter (\<lambda>i. i \<notin> set d) quorum)) < tOld then Inl ErrInsufficientQuorum
       else Inr (sort (filter (\<lambda>i. i \<notin> set d) quorum)))" for quorum d
    by (simp add: FilterQualifiedQuorum_def insertion_sort_eq_sort)
  have "FilterQualifiedQuorum quorum' dq' tOld = FilterQualifiedQuorum quorum dq tOld"
    if "set cs' = set cs" "ComputeDisqualifiedSet (map Some cs') tOld = Inr dq'" "mset quorum' = mset quorum" for cs' dq' quorum quorum'
  proof -
    have "complainers cs' = complainers cs" using that(1) by (auto simp: complainers_def)
    then have "set dq' = set dq" using dq(3) ComputeDisqualifiedSet_spec[of cs' tOld] that(2) by auto
    moreover from this have m: "mset (filter (\<lambda>i. i \<notin> set dq') quorum') = mset (filter (\<lambda>i. i \<notin> set dq) quorum)" using that(3) by simp
    then have "length (filter (\<lambda>i. i \<notin> set dq') quorum') = length (filter (\<lambda>i. i \<notin> set dq) quorum)" by (rule mset_eq_length)
    ultimately show ?thesis unfolding FilterQualifiedQuorum_def using insertion_sort_cong[OF m] by simp
  qed
  then show ?thesis using dq F by blast
qed

definition ex_complaint :: "int \<Rightarrow> int \<Rightarrow> Complaint" where
  "ex_complaint s c = \<lparr> cTranscriptHash = replicate 32 0, cSenderID = s, cComplainerID = c, cReason = ComplaintMissing,
     cEvidence = [], cSignature = [], cComplainerKey = [] \<rparr>"

theorem disqualification_rule_witness:
  "\<exists>dq. ComputeDisqualifiedSet (map Some [ex_complaint 4 1, ex_complaint 4 2, ex_complaint 5 1, ex_complaint 5 1]) 3 = Inr dq \<and>
     4 \<in> set dq \<and> 5 \<notin> set dq \<and>
     FilterQualifiedQuorum [5, 4, 3, 1] dq 3 = FilterQualifiedQuorum [1, 3, 4, 5] dq 3"
proof -
  let ?cs = "[ex_complaint 4 1, ex_complaint 4 2, ex_complaint 5 1, ex_complaint 5 1]"
  have c: "complainers ?cs 4 = {1, 2}" "complainers ?cs 5 = {1}" by (simp_all add: complainers_def ex_complaint_def)
  have t: "DisqualificationThreshold 3 = 2" by (simp add: DisqualificationThreshold_def)
  obtain dq where dq: "ComputeDisqualifiedSet (map Some ?cs) 3 = Inr dq"
    "\<forall>s. s \<in> set dq \<longleftrightarrow> DisqualificationThreshold 3 \<le> int (card (complainers ?cs s))"
    "\<forall>cs' dq' quorum quorum'. set cs' = set ?cs \<and> ComputeDisqualifiedSet (map Some cs') 3 = Inr dq' \<and> mset quorum' = mset quorum \<longrightarrow>
        FilterQualifiedQuorum quorum' dq' 3 = FilterQualifiedQuorum quorum dq 3"
    using disqualification_rule[of ?cs 3] by blast
  have m: "mset [5, 4, 3, 1 :: int] = mset [1, 3, 4, 5]" by simp
  have "4 \<in> set dq" "5 \<notin> set dq" unfolding dq(2)[rule_format] c t by simp_all
  then show ?thesis using dq(1,3) m by blast
qed

section \<open>What a certificate is bound to\<close>

lemma buildTranscriptParts_inj: "buildTranscriptParts a = buildTranscriptParts b \<longleftrightarrow> a = b"
  by (cases a; cases b) (auto simp: buildTranscriptParts_def)

lemma i32_nat_inj: "a < 2 ^ 32 \<Longrightarrow> b < 2 ^ 32 \<Longrightarrow> i32 (int a) = i32 (int b) \<longleftrightarrow> a = b"
  using u32_int_inj[of "int a" "int b"] by (simp add: i32_def)

text \<open>A counted block: equal blocks with the same number of entries have equal
  entries.\<close>

lemma counted_inj:
  assumes "length xs < 2 ^ 32" "length ys < 2 ^ 32" "\<And>x. length (f x) = n" "\<And>y. length (g y) = n"
    and "c # i32 (int (length xs)) # concat (map f xs) @ r = c # i32 (int (length ys)) # concat (map g ys) @ r'"
  shows "length xs = length ys \<and> map f xs = map g ys \<and> r = r'"
proof -
  have l: "length xs = length ys" using assms(5) i32_nat_inj[OF assms(1,2)] by simp
  have "length (concat (map f xs)) = length (concat (map g ys))"
    using l assms(3,4) by (simp add: length_concat comp_def sum_list_triv)
  then have c: "concat (map f xs) = concat (map g ys)" "r = r'" using assms(5) by simp_all
  have "map f xs = map g ys"
    by (rule concat_injective[OF c(1)]) (use l assms(3,4) in \<open>auto simp: set_zip\<close>)
  then show ?thesis using l c(2) by simp
qed

text \<open>Counts and ids fit 32 bits; the same exchange up to the order of sets and maps.\<close>

definition exch_wf :: "ReshareTranscript \<Rightarrow> bool" where
  "exch_wf rt \<longleftrightarrow> gomap_wf (rtCommitDigests rt) \<and> length (rtCommitDigests rt) < 2 ^ 32 \<and> length (rtComplaintHashes rt) < 2 ^ 32 \<and>
     length (rtDisqualifiedSenders rt) < 2 ^ 32 \<and> length (rtQualifiedQuorum rt) < 2 ^ 32 \<and>
     (\<forall>i \<in> set (gokeys (rtCommitDigests rt) @ rtDisqualifiedSenders rt @ rtQualifiedQuorum rt). 0 \<le> i \<and> i < 2 ^ 32)"

definition exch_equiv :: "ReshareTranscript \<Rightarrow> ReshareTranscript \<Rightarrow> bool" where
  "exch_equiv a b \<longleftrightarrow> mset (rtCommitDigests a) = mset (rtCommitDigests b) \<and> rtComplaintHashes a = rtComplaintHashes b \<and>
     mset (rtDisqualifiedSenders a) = mset (rtDisqualifiedSenders b) \<and> mset (rtQualifiedQuorum a) = mset (rtQualifiedQuorum b)"

lemma map_i32_inj:
  assumes "\<forall>i \<in> set xs. 0 \<le> i \<and> i < 2 ^ 32" "\<forall>i \<in> set ys. 0 \<le> i \<and> i < (2::int) ^ 32" "map i32 xs = map i32 ys"
  shows "xs = ys"
proof -
  have "inj_on i32 {0..<2 ^ 32}" by (rule inj_onI) (auto simp: i32_def u32_int_inj)
  moreover have "set xs \<union> set ys \<subseteq> {0..<2 ^ 32}" using assms(1,2) by auto
  ultimately show ?thesis using assms(3) by (meson inj_on_map_eq_map inj_on_subset)
qed

lemma exch_parts_only_if:
  assumes wf: "exch_wf a" "exch_wf b" and e: "buildExchangeTranscriptParts a = buildExchangeTranscriptParts b"
  shows "exch_equiv a b"
proof -
  let ?k = "\<lambda>rt. insertion_sort (gokeys (rtCommitDigests rt))" and ?d = "\<lambda>rt. insertion_sort (rtDisqualifiedSenders rt)"
  let ?q = "\<lambda>rt. insertion_sort (rtQualifiedQuorum rt)"
  let ?dm = "str_bytes ''disqualified_count''" and ?qm = "str_bytes ''qualified_count''"
  let ?qp = "\<lambda>rt. ?qm # i32 (int (length (?q rt))) # concat (map (\<lambda>i. [str_bytes ''qualified_id'', i32 i]) (?q rt)) @ []"
  let ?dp = "\<lambda>rt. ?dm # i32 (int (length (?d rt))) # concat (map (\<lambda>i. [str_bytes ''disqualified_id'', i32 i]) (?d rt)) @ ?qp rt"
  let ?hp = "\<lambda>rt. str_bytes ''complaint_count'' # i32 (int (length (rtComplaintHashes rt))) #
      concat (map (\<lambda>ch. [str_bytes ''complaint_hash'', ch]) (rtComplaintHashes rt)) @ ?dp rt"
  have build: "buildExchangeTranscriptParts rt = str_bytes ''corona.reshare.exchange-transcript.v1'' # str_bytes ''commit_count'' #
      i32 (int (length (?k rt))) # concat (map (commit_part (rtCommitDigests rt)) (?k rt)) @ ?hp rt" for rt
    by (simp add: buildExchangeTranscriptParts_def Let_def insertionSortInts_def)
  have len: "length (?k rt) < 2 ^ 32" "length (rtComplaintHashes rt) < 2 ^ 32" "length (?d rt) < 2 ^ 32" "length (?q rt) < 2 ^ 32"
    if "exch_wf rt" for rt using that by (simp_all add: exch_wf_def)
  have c: "map (commit_part (rtCommitDigests a)) (?k a) = map (commit_part (rtCommitDigests b)) (?k b)" "?hp a = ?hp b"
    using counted_inj[OF len(1)[OF wf(1)] len(1)[OF wf(2)], of "commit_part (rtCommitDigests a)" 4 "commit_part (rtCommitDigests b)" "str_bytes ''commit_count''" "?hp a" "?hp b"] e
    unfolding build by (simp_all add: commit_part_def)
  have h: "map (\<lambda>ch. [str_bytes ''complaint_hash'', ch]) (rtComplaintHashes a) = map (\<lambda>ch. [str_bytes ''complaint_hash'', ch]) (rtComplaintHashes b)" "?dp a = ?dp b"
    using counted_inj[OF len(2)[OF wf(1)] len(2)[OF wf(2)] _ _ c(2), of 2] by simp_all
  have d: "map (\<lambda>i. [str_bytes ''disqualified_id'', i32 i]) (?d a) = map (\<lambda>i. [str_bytes ''disqualified_id'', i32 i]) (?d b)" "?qp a = ?qp b"
    using counted_inj[OF len(3)[OF wf(1)] len(3)[OF wf(2)] _ _ h(2), of 2] by simp_all
  have q: "map (\<lambda>i. [str_bytes ''qualified_id'', i32 i]) (?q a) = map (\<lambda>i. [str_bytes ''qualified_id'', i32 i]) (?q b)"
    using counted_inj[OF len(4)[OF wf(1)] len(4)[OF wf(2)] _ _ d(2), of 2] by simp_all
  have H: "rtComplaintHashes a = rtComplaintHashes b"
    using arg_cong[OF h(1), of "map (\<lambda>x. x ! 1)"] by (simp add: comp_def)
  have rng: "\<forall>i \<in> set (?k rt). 0 \<le> i \<and> i < 2 ^ 32" "\<forall>i \<in> set (?d rt). 0 \<le> i \<and> i < 2 ^ 32" "\<forall>i \<in> set (?q rt). 0 \<le> i \<and> i < 2 ^ 32"
    if "exch_wf rt" for rt using that unfolding exch_wf_def set_insertion_sort by auto
  have D: "?d a = ?d b" using arg_cong[OF d(1), of "map (\<lambda>x. x ! 1)"] rng wf by (intro map_i32_inj) (simp_all add: comp_def)
  have Q: "?q a = ?q b" using arg_cong[OF q(1), of "map (\<lambda>x. x ! 1)"] rng wf by (intro map_i32_inj) (simp_all add: comp_def)
  have K: "?k a = ?k b" using arg_cong[OF c(1), of "map (\<lambda>x. x ! 1)"] rng wf by (intro map_i32_inj) (simp_all add: comp_def commit_part_def)
  have keys: "set (gokeys (rtCommitDigests a)) = set (gokeys (rtCommitDigests b))" using arg_cong[OF K, of set] by simp
  have "map_of (rtCommitDigests a) i = map_of (rtCommitDigests b) i" for i
  proof (cases "i \<in> set (gokeys (rtCommitDigests a))")
    case True
    then obtain j where "j < length (?k a)" "?k a ! j = i" by (metis in_set_conv_nth set_insertion_sort)
    then have "commit_part (rtCommitDigests a) i = commit_part (rtCommitDigests b) i"
      using c(1) K by (metis nth_map)
    moreover obtain u v where "map_of (rtCommitDigests a) i = Some u" "map_of (rtCommitDigests b) i = Some v"
      using True keys by (metis map_of_eq_None_iff not_Some_eq set_map)
    ultimately show ?thesis by (simp add: commit_part_def)
  next
    case False
    then show ?thesis using keys by (metis map_of_eq_None_iff set_map)
  qed
  then have "mset (rtCommitDigests a) = mset (rtCommitDigests b)"
    using wf by (intro gomap_mset_eqI) (auto simp: exch_wf_def)
  moreover have "mset (rtDisqualifiedSenders a) = mset (rtDisqualifiedSenders b)" "mset (rtQualifiedQuorum a) = mset (rtQualifiedQuorum b)"
    using D Q by (metis mset_insertion_sort)+
  ultimately show ?thesis using H by (simp add: exch_equiv_def)
qed

lemma exch_parts_if:
  assumes "exch_wf a" "exch_equiv a b"
  shows "buildExchangeTranscriptParts a = buildExchangeTranscriptParts b"
proof -
  have m: "map_of (rtCommitDigests a) = map_of (rtCommitDigests b)"
    using assms by (intro map_of_perm[symmetric]) (simp_all add: exch_equiv_def exch_wf_def)
  have k: "insertion_sort (gokeys (rtCommitDigests a)) = insertion_sort (gokeys (rtCommitDigests b))"
    using assms(2) by (intro insertion_sort_cong) (simp add: exch_equiv_def)
  have d: "insertion_sort (rtDisqualifiedSenders a) = insertion_sort (rtDisqualifiedSenders b)"
    "insertion_sort (rtQualifiedQuorum a) = insertion_sort (rtQualifiedQuorum b)"
    using assms(2) by (auto intro: insertion_sort_cong simp: exch_equiv_def)
  show ?thesis using assms(2) unfolding buildExchangeTranscriptParts_def insertionSortInts_def k d commit_part_def m
    by (simp add: exch_equiv_def)
qed

definition collides :: "hash_suite \<Rightarrow> bytes list \<Rightarrow> bytes list \<Rightarrow> bool" where
  "collides s ps ps' \<longleftrightarrow> ps \<noteq> ps' \<and> hsTranscriptHash s ps = hsTranscriptHash s ps'"

text \<open>
  C32: what the chain's activation check decides. A nil certificate is refused. Against the hashes
  of the local transcript \<open>T\<close> and the local exchange \<open>X\<close>, a certificate is accepted exactly
  when its signature verifies on the tagged local hashes and its own transcript
  and exchange are the local ones (sets and maps up to order), unless the suite's hash collides
  on one of the two pairs of part lists that are named.
\<close>

theorem activation_binds:
  assumes "exch_wf (amReshareTranscript (acMessage cert))" "exch_wf X"
  shows "VerifyActivation x None lt le suite verify \<noteq> Inr () \<and>
    (VerifyActivation x (Some cert) (TranscriptInputs_Hash x T suite) (ReshareTranscript_Hash x X suite) suite verify = Inr () \<longleftrightarrow>
      verify (str_bytes ''QUASAR-CORONA-ACTIVATE-v1'' @ TranscriptInputs_Hash x T suite @ ReshareTranscript_Hash x X suite) (acSignature cert) \<and>
      (amTranscript (acMessage cert) = T \<or>
       collides (Resolve x suite) (buildTranscriptParts (amTranscript (acMessage cert))) (buildTranscriptParts T)) \<and>
      (exch_equiv (amReshareTranscript (acMessage cert)) X \<or>
       collides (Resolve x suite) (buildExchangeTranscriptParts (amReshareTranscript (acMessage cert))) (buildExchangeTranscriptParts X)))"
proof -
  let ?t = "amTranscript (acMessage cert)" and ?e = "amReshareTranscript (acMessage cert)"
  have t: "TranscriptInputs_Hash x ?t suite = TranscriptInputs_Hash x T suite \<longleftrightarrow>
      ?t = T \<or> collides (Resolve x suite) (buildTranscriptParts ?t) (buildTranscriptParts T)"
    unfolding TranscriptInputs_Hash_def collides_def buildTranscriptParts_inj by blast
  have e: "ReshareTranscript_Hash x ?e suite = ReshareTranscript_Hash x X suite \<longleftrightarrow>
      exch_equiv ?e X \<or> collides (Resolve x suite) (buildExchangeTranscriptParts ?e) (buildExchangeTranscriptParts X)"
    unfolding ReshareTranscript_Hash_def collides_def
    using exch_parts_only_if[OF assms] exch_parts_if[OF assms(1)] by metis
  have "VerifyActivation x (Some cert) (TranscriptInputs_Hash x T suite) (ReshareTranscript_Hash x X suite) suite verify = Inr () \<longleftrightarrow>
      verify (str_bytes ''QUASAR-CORONA-ACTIVATE-v1'' @ TranscriptInputs_Hash x T suite @ ReshareTranscript_Hash x X suite) (acSignature cert) \<and>
      TranscriptInputs_Hash x ?t suite = TranscriptInputs_Hash x T suite \<and> ReshareTranscript_Hash x ?e suite = ReshareTranscript_Hash x X suite"
    by (auto simp: VerifyActivation_def SignableBytes_def)
  then show ?thesis unfolding t e by (simp add: VerifyActivation_def)
qed

definition ex_transcript :: TranscriptInputs where
  "ex_transcript = \<lparr> tiChainID = [1], tiNetworkID = [2], tiGroupID = [3], tiKeyEraID = 1, tiOldGeneration = 1, tiNewGeneration = 2,
     tiOldEpochID = 7, tiNewEpochID = 8, tiOldSetHash = replicate 32 1, tiNewSetHash = replicate 32 2, tiThresholdOld = 2, tiThresholdNew = 3,
     tiGroupPublicKeyHash = replicate 32 3, tiNebulaRoot = replicate 32 4, tiHashSuiteID = ''Corona-SHA3'',
     tiImplementationVersion = ''v1'', tiVariant = ''reshare'' \<rparr>"

definition ex_exchange :: "int list \<Rightarrow> ReshareTranscript" where
  "ex_exchange q = \<lparr> rtCommitDigests = [(2, replicate 32 5), (1, replicate 32 6)], rtComplaintHashes = [],
     rtDisqualifiedSenders = [], rtQualifiedQuorum = q \<rparr>"

theorem activation_binds_witness:
  "VerifyActivation ex_xof (Some \<lparr> acMessage = \<lparr> amTranscript = ex_transcript, amReshareTranscript = ex_exchange [2, 1] \<rparr>, acSignature = [9] \<rparr>)
     (TranscriptInputs_Hash ex_xof ex_transcript None) (ReshareTranscript_Hash ex_xof (ex_exchange [1, 2]) None) None (\<lambda>m s. s = [9]) = Inr ()"
proof -
  have w: "exch_wf (ex_exchange q)" if "set q \<subseteq> {1, 2}" "length q < 10" for q
    using that by (auto simp: exch_wf_def ex_exchange_def)
  have q: "exch_equiv (ex_exchange [2, 1]) (ex_exchange [1, 2])" by (simp add: exch_equiv_def ex_exchange_def)
  show ?thesis
    using activation_binds[of "\<lparr> acMessage = \<lparr> amTranscript = ex_transcript, amReshareTranscript = ex_exchange [2, 1] \<rparr>, acSignature = [9] \<rparr>"
        "ex_exchange [1, 2]" ex_xof _ _ None "\<lambda>m s. s = [9]" ex_transcript] w q by simp
qed

end
