(* ===== verification/Committee_Keys.thy ===== *)
theory Committee_Keys
  imports Activation
begin

text \<open>
  Key material of a committee after a resharing: \<^verbatim>\<open>reshare/pairwise.go\<close> (authenticated
  key exchange and the pairwise seeds and MAC keys derived from it), \<^verbatim>\<open>reshare/keyshare.go\<close>
  (assembling a member's key share) and \<^verbatim>\<open>reshare/quasar_integration.go\<close> (the epoch's
  transcript). \<^verbatim>\<open>curve25519.X25519\<close> is a parameter.
\<close>

section \<open>Key exchange\<close>

record PairwiseKeyMaterial =
  pkmPartyI :: int
  pkmPartyJ :: int
  pkmAuthKex :: bytes
  pkmTranscriptHash :: bytes

definition X25519Pair :: "(bytes \<Rightarrow> bytes \<Rightarrow> bytes res) \<Rightarrow> bytes \<Rightarrow> bytes \<Rightarrow> bytes res" where
  "X25519Pair x25519 privA pubB =
     (if length privA \<noteq> 32 then Inl (ErrMsg ''reshare: X25519 private key must be 32 bytes'')
      else if length pubB \<noteq> 32 then Inl (ErrMsg ''reshare: X25519 public key must be 32 bytes'')
      else rbind (x25519 privA pubB) (\<lambda>shared.
        if list_all (\<lambda>b. b = 0) shared then Inl (ErrMsg ''reshare: X25519 produced all-zero shared secret (low-order point)'')
        else Inr shared))"

definition kex_msg :: "bytes \<Rightarrow> bytes \<Rightarrow> bytes" where
  "kex_msg transcriptHash pubEph = str_bytes ''corona.reshare.kex-bind.v1'' @ transcriptHash @ pubEph"

definition AuthenticatedKex ::
  "xof \<Rightarrow> ed25519 \<Rightarrow> (bytes \<Rightarrow> bytes \<Rightarrow> bytes res) \<Rightarrow> bytes \<Rightarrow> bytes \<Rightarrow> bytes \<Rightarrow> bytes \<Rightarrow> bytes \<Rightarrow> hash_suite option \<Rightarrow> bytes res" where
  "AuthenticatedKex x ed x25519 privIEph pubJEph sigJEph jStaticKey transcriptHash suite =
     rbind (ed25519_Verify ed jStaticKey (kex_msg transcriptHash pubJEph) sigJEph) (\<lambda>ok.
     if \<not> ok then Inl (ErrMsg ''reshare: peer ephemeral signature invalid'')
     else rbind (X25519Pair x25519 privIEph pubJEph) (\<lambda>shared.
       Inr (hsTranscriptHash (Resolve x suite) [str_bytes ''corona.reshare.auth-kex.v1'', transcriptHash, shared])))"

definition SignEphemeral :: "ed25519 \<Rightarrow> bytes \<Rightarrow> bytes \<Rightarrow> bytes \<Rightarrow> bytes res" where
  "SignEphemeral ed priv pubEph transcriptHash = ed25519_Sign ed priv (kex_msg transcriptHash pubEph)"

section \<open>Pairwise derivation\<close>

definition KDFOutput ::
  "xof \<Rightarrow> hash_suite option \<Rightarrow> string \<Rightarrow> bytes \<Rightarrow> bytes \<Rightarrow> bytes \<Rightarrow> u64 \<Rightarrow> u64 \<Rightarrow> int \<Rightarrow> int \<Rightarrow> nat \<Rightarrow> bytes" where
  "KDFOutput x suite tag authKex chainID groupID eraID generation partyI partyJ outLen =
     hsDerivePairwise (Resolve x suite) authKex (str_bytes tag @ str_bytes ''|'' @ chainID) groupID eraID generation partyI partyJ outLen"

type_synonym pair_map = "(int \<times> int, bytes) gomap"

text \<open>The loop bodies for one pair; an absent key reads as empty.\<close>

definition derive_seed ::
  "xof \<Rightarrow> pair_map \<Rightarrow> (int, bytes) gomap \<Rightarrow> bytes \<Rightarrow> bytes \<Rightarrow> u64 \<Rightarrow> u64 \<Rightarrow> hash_suite option \<Rightarrow> nat \<Rightarrow> pair_map \<Rightarrow> int \<times> int \<Rightarrow> pair_map res" where
  "derive_seed x authKex selfSeeds chainID groupID eraID generation suite outLen = (\<lambda>out (i, j).
     (if i = j then
        (let keyMat = gomap_at selfSeeds i in
         if keyMat = [] then Inl (ErrMsg ''reshare: missing self-seed'')
         else Inr (AList.update (i, j) (KDFOutput x suite ''corona.reshare.prf-seed.v1'' keyMat chainID groupID eraID generation i j outLen) out))
      else
        (let keyMat = gomap_at authKex (i, j) in
         if keyMat = [] then Inl (ErrMsg ''reshare: missing auth_kex'')
         else Inr (AList.update (i, j) (KDFOutput x suite ''corona.reshare.prf-seed.v1'' keyMat chainID groupID eraID generation i j outLen) out))))"

definition DeriveSeeds ::
  "xof \<Rightarrow> int \<Rightarrow> pair_map \<Rightarrow> (int, bytes) gomap \<Rightarrow> bytes \<Rightarrow> bytes \<Rightarrow> u64 \<Rightarrow> u64 \<Rightarrow> hash_suite option \<Rightarrow> nat \<Rightarrow> pair_map res" where
  "DeriveSeeds x K authKex selfSeeds chainID groupID eraID generation suite outLen =
     foldM (derive_seed x authKex selfSeeds chainID groupID eraID generation suite outLen) []
       (concat (map (\<lambda>i. map (\<lambda>j. (i, j)) [i..K - 1]) [0..K - 1]))"

definition derive_mac ::
  "xof \<Rightarrow> pair_map \<Rightarrow> bytes \<Rightarrow> bytes \<Rightarrow> u64 \<Rightarrow> u64 \<Rightarrow> hash_suite option \<Rightarrow> nat \<Rightarrow> pair_map \<Rightarrow> int \<times> int \<Rightarrow> pair_map res" where
  "derive_mac x authKex chainID groupID eraID generation suite outLen = (\<lambda>out (i, j).
     (let keyMat = gomap_at authKex (i, j) in
      if keyMat = [] then Inl (ErrMsg ''reshare: missing auth_kex'')
      else Inr (AList.update (i, j) (KDFOutput x suite ''corona.reshare.mac-key.v1'' keyMat chainID groupID eraID generation i j outLen) out)))"

definition DeriveMACKeys ::
  "xof \<Rightarrow> int \<Rightarrow> pair_map \<Rightarrow> bytes \<Rightarrow> bytes \<Rightarrow> u64 \<Rightarrow> u64 \<Rightarrow> hash_suite option \<Rightarrow> nat \<Rightarrow> pair_map res" where
  "DeriveMACKeys x K authKex chainID groupID eraID generation suite outLen =
     foldM (derive_mac x authKex chainID groupID eraID generation suite outLen) []
       (concat (map (\<lambda>i. map (\<lambda>j. (i, j)) [i + 1..K - 1]) [0..K - 1]))"

section \<open>Key shares\<close>

record PartyGroupKey =
  pgA :: matrix
  pgBTilde :: vec

record PartyKeyShare =
  pkIndex :: int
  pkSkShare :: Share
  pkSeeds :: "(int, bytes list) gomap"
  pkMACKeys :: "(int, bytes) gomap"
  pkLambda :: poly
  pkGroupKey :: "PartyGroupKey option"

definition canonicalPair :: "int \<Rightarrow> int \<Rightarrow> int \<times> int" where
  "canonicalPair i j = (if i > j then (j, i) else (i, j))"

text \<open>The first position of an id.\<close>

fun index_of :: "int list \<Rightarrow> int \<Rightarrow> nat option" where
  "index_of [] x = None"
| "index_of (y # ys) x = (if y = x then Some 0 else map_option Suc (index_of ys x))"

definition PartyKeyShareFromShare ::
  "(u64 \<Rightarrow> bool) \<Rightarrow> (u64 list \<Rightarrow> u64 \<Rightarrow> u64 list res) \<Rightarrow> ring_ops \<Rightarrow> Share \<Rightarrow> int \<Rightarrow> int list \<Rightarrow> pair_map \<Rightarrow> pair_map \<Rightarrow>
   PartyGroupKey option \<Rightarrow> PartyKeyShare res" where
  "PartyKeyShareFromShare isPrime lagr r share partyID1Indexed newCommittee pairwiseSeeds pairwiseMACs groupKey =
     (case index_of newCommittee partyID1Indexed of
        None \<Rightarrow> Inl (ErrMsg ''reshare: party not in new committee'')
      | Some myIdx \<Rightarrow>
          let K = int (length newCommittee) in
          rbind (ComputeLagrangeCoefficients isPrime lagr r (map (\<lambda>i. i - 1) newCommittee) corona_q) (\<lambda>lagrange.
          rbind (idx lagrange myIdx) (\<lambda>lam.
          Inr \<lparr> pkIndex = int myIdx, pkSkShare = share,
                pkSeeds = map (\<lambda>i. (i, map (\<lambda>j. gomap_at pairwiseSeeds (canonicalPair i j)) [0..K - 1])) [0..K - 1],
                pkMACKeys = map (\<lambda>k. (k, gomap_at pairwiseMACs (canonicalPair (int myIdx) k))) (filter (\<lambda>k. k \<noteq> int myIdx) [0..K - 1]),
                pkLambda = rMForm r (rNTT r lam), pkGroupKey = groupKey \<rparr>)))"

definition EraseShare :: "Share \<Rightarrow> Share" where
  "EraseShare s = map (map (map (\<lambda>_. 0))) s"

section \<open>Epochs\<close>

record EpochShareState =
  esEpoch :: u64
  esValidatorSet :: "string list"
  esThreshold :: int
  esShares :: "(string, PartyKeyShare option) gomap"
  esGroupKey :: "PartyGroupKey option"
  esTranscriptHash :: bytes
  esActivationCert :: "ActivationCert option"

record ReshareEpochInputs =
  reChainID :: bytes
  reGroupID :: bytes
  reOldEpochID :: u64
  reNewEpochID :: u64
  reOldValidators :: "string list"
  reNewValidators :: "string list"
  reOldShares :: shares
  reOldThreshold :: int
  reNewThreshold :: int
  reGroupKeyHash :: bytes

record RefreshEpochInputs =
  rfChainID :: bytes
  rfGroupID :: bytes
  rfOldEpochID :: u64
  rfNewEpochID :: u64
  rfValidators :: "string list"
  rfShares :: shares
  rfThreshold :: int
  rfGroupKeyHash :: bytes

text \<open>Fields the literal leaves out have their zero values.\<close>

definition zero_transcript :: TranscriptInputs where
  "zero_transcript = \<lparr> tiChainID = [], tiNetworkID = [], tiGroupID = [], tiKeyEraID = 0, tiOldGeneration = 0, tiNewGeneration = 0,
     tiOldEpochID = 0, tiNewEpochID = 0, tiOldSetHash = replicate 32 0, tiNewSetHash = replicate 32 0, tiThresholdOld = 0, tiThresholdNew = 0,
     tiGroupPublicKeyHash = replicate 32 0, tiNebulaRoot = replicate 32 0, tiHashSuiteID = '''', tiImplementationVersion = '''', tiVariant = '''' \<rparr>"

definition ReshareEpochInputs_BuildTranscript :: "xof \<Rightarrow> ReshareEpochInputs \<Rightarrow> TranscriptInputs res" where
  "ReshareEpochInputs_BuildTranscript x i =
     rbind (ValidatorSetHash x (map str_bytes (reOldValidators i)) None) (\<lambda>oldH.
     rbind (ValidatorSetHash x (map str_bytes (reNewValidators i)) None) (\<lambda>newH.
     Inr (zero_transcript \<lparr> tiChainID := reChainID i, tiGroupID := reGroupID i, tiOldEpochID := reOldEpochID i, tiNewEpochID := reNewEpochID i,
       tiOldSetHash := oldH, tiNewSetHash := newH, tiThresholdOld := word_of_int (reOldThreshold i), tiThresholdNew := word_of_int (reNewThreshold i),
       tiGroupPublicKeyHash := reGroupKeyHash i, tiVariant := ''reshare'' \<rparr>)))"

definition RefreshEpochInputs_BuildTranscript :: "xof \<Rightarrow> RefreshEpochInputs \<Rightarrow> TranscriptInputs res" where
  "RefreshEpochInputs_BuildTranscript x i =
     rbind (ValidatorSetHash x (map str_bytes (rfValidators i)) None) (\<lambda>h.
     Inr (zero_transcript \<lparr> tiChainID := rfChainID i, tiGroupID := rfGroupID i, tiOldEpochID := rfOldEpochID i, tiNewEpochID := rfNewEpochID i,
       tiOldSetHash := h, tiNewSetHash := h, tiThresholdOld := word_of_int (rfThreshold i), tiThresholdNew := word_of_int (rfThreshold i),
       tiGroupPublicKeyHash := rfGroupKeyHash i, tiVariant := ''refresh'' \<rparr>))"

section \<open>The derived tables\<close>

text \<open>A loop that fills a map and stops at a missing key.\<close>

lemma fill_map:
  "foldM (\<lambda>out p. if bad p then Inl (e p) else Inr (AList.update p (f p) out)) out0 ps = Inr out \<longleftrightarrow>
   (\<forall>p \<in> set ps. \<not> bad p) \<and> out = foldl (\<lambda>out p. AList.update p (f p) out) out0 ps"
  by (induction ps arbitrary: out0) auto

lemma fill_map_of:
  "map_of (foldl (\<lambda>out p. AList.update p (f p) out) out0 ps) p = (if p \<in> set ps then Some (f p) else map_of out0 p)"
  by (induction ps arbitrary: out0) (auto simp: update_conv)

lemma mac_pairs: "p \<in> set (concat (map (\<lambda>i. map (\<lambda>j. (i, j)) [i + 1..K - 1]) [0..K - 1])) \<longleftrightarrow> 0 \<le> fst p \<and> fst p < snd p \<and> snd p < K"
  by (cases p) (auto intro!: bexI[of _ "fst p"])

lemma seed_pairs: "p \<in> set (concat (map (\<lambda>i. map (\<lambda>j. (i, j)) [i..K - 1]) [0..K - 1])) \<longleftrightarrow> 0 \<le> fst p \<and> fst p \<le> snd p \<and> snd p < K"
  by (cases p) (auto intro!: bexI[of _ "fst p"])

lemma DeriveMACKeys_spec:
  assumes "DeriveMACKeys x K authKex chainID groupID eraID generation suite outLen = Inr macs" "0 \<le> i" "i < j" "j < K"
  shows "gomap_at authKex (i, j) \<noteq> [] \<and>
    map_of macs (i, j) = Some (KDFOutput x suite ''corona.reshare.mac-key.v1'' (gomap_at authKex (i, j)) chainID groupID eraID generation i j outLen)"
proof -
  let ?f = "\<lambda>p. KDFOutput x suite ''corona.reshare.mac-key.v1'' (gomap_at authKex p) chainID groupID eraID generation (fst p) (snd p) outLen"
  have step: "derive_mac x authKex chainID groupID eraID generation suite outLen =
      (\<lambda>out p. if gomap_at authKex p = [] then Inl (ErrMsg ''reshare: missing auth_kex'') else Inr (AList.update p (?f p) out))"
    by (simp add: derive_mac_def fun_eq_iff Let_def)
  have mem: "(i, j) \<in> set (concat (map (\<lambda>i. map (\<lambda>j. (i, j)) [i + 1..K - 1]) [0..K - 1]))" using assms(2-4) mac_pairs by simp
  show ?thesis using assms(1) mem unfolding DeriveMACKeys_def step fill_map by (auto simp: fill_map_of)
qed

lemma DeriveSeeds_spec:
  assumes "DeriveSeeds x K authKex selfSeeds chainID groupID eraID generation suite outLen = Inr seeds" "0 \<le> i" "i \<le> j" "j < K"
  shows "map_of seeds (i, j) = Some (KDFOutput x suite ''corona.reshare.prf-seed.v1''
      (if i = j then gomap_at selfSeeds i else gomap_at authKex (i, j)) chainID groupID eraID generation i j outLen)"
proof -
  let ?k = "\<lambda>p. if fst p = snd p then gomap_at selfSeeds (fst p) else gomap_at authKex p"
  let ?f = "\<lambda>p. KDFOutput x suite ''corona.reshare.prf-seed.v1'' (?k p) chainID groupID eraID generation (fst p) (snd p) outLen"
  have step: "derive_seed x authKex selfSeeds chainID groupID eraID generation suite outLen =
      (\<lambda>out p. if ?k p = [] then Inl (ErrMsg (if fst p = snd p then ''reshare: missing self-seed'' else ''reshare: missing auth_kex''))
        else Inr (AList.update p (?f p) out))"
    by (simp add: derive_seed_def fun_eq_iff Let_def)
  have mem: "(i, j) \<in> set (concat (map (\<lambda>i. map (\<lambda>j. (i, j)) [i..K - 1]) [0..K - 1]))" using assms(2-4) seed_pairs by simp
  show ?thesis using assms(1) mem unfolding DeriveSeeds_def step fill_map by (simp add: fill_map_of)
qed

lemma canonicalPair_commute: "canonicalPair i j = canonicalPair j i"
  by (simp add: canonicalPair_def)

lemma index_of_Some: "index_of xs x = Some i \<Longrightarrow> i < length xs \<and> xs ! i = x"
  by (induction xs arbitrary: i) (auto split: if_splits)

lemma KDFOutput_commute: "suite \<noteq> None \<longrightarrow> suite_contract (the suite) \<Longrightarrow>
   KDFOutput x suite tag kex c g e n i j L = KDFOutput x suite tag kex c g e n j i L"
  using sha3.pairwise_sym suite_contract.pairwise_sym
  by (cases suite) (auto simp: KDFOutput_def Resolve_def Default_def)

lemma map_of_mapped: "map_of (map (\<lambda>k. (k, f k)) ks) k = (if k \<in> set ks then Some (f k) else None)"
  by (induction ks) auto

text \<open>What a member's share holds.\<close>

lemma PartyKeyShare_fields:
  assumes "PartyKeyShareFromShare isPrime lagr r share a committee seeds macs gk = Inr s"
  shows "\<exists>i. index_of committee a = Some i \<and> pkIndex s = int i \<and> pkSkShare s = share \<and> pkGroupKey s = gk \<and>
    pkSeeds s = map (\<lambda>i. (i, map (\<lambda>j. gomap_at seeds (canonicalPair i j)) [0..int (length committee) - 1])) [0..int (length committee) - 1] \<and>
    (\<forall>k. map_of (pkMACKeys s) k = (if k \<noteq> int i \<and> 0 \<le> k \<and> k < int (length committee) then Some (gomap_at macs (canonicalPair (int i) k)) else None))"
  using assms by (auto simp: PartyKeyShareFromShare_def Let_def res_simps map_of_mapped split: option.splits)

text \<open>
  C33: the pairwise keys of a new committee agree. For two different members whose key shares were
  assembled from the derived tables: both hold the same seed table; neither has a MAC key for
  itself; and the key the first holds for the second is the key the second holds for the
  first, derived from the authenticated exchange of exactly that pair, whichever of the two derives
  it.
\<close>

theorem committee_keys_agree:
  assumes "DeriveMACKeys x (int (length committee)) authKex chainID groupID eraID generation suite outLen = Inr macs"
    and "PartyKeyShareFromShare isPrime lagr r sh a committee seeds macs gk = Inr sa"
    and "PartyKeyShareFromShare isPrime lagr r sh' b committee seeds macs gk = Inr sb"
    and "a \<noteq> b" "suite \<noteq> None \<longrightarrow> suite_contract (the suite)"
  shows "pkSeeds sa = pkSeeds sb \<and> pkIndex sa \<noteq> pkIndex sb \<and>
    map_of (pkMACKeys sa) (pkIndex sa) = None \<and>
    map_of (pkMACKeys sa) (pkIndex sb) = map_of (pkMACKeys sb) (pkIndex sa) \<and>
    map_of (pkMACKeys sa) (pkIndex sb) = Some (KDFOutput x suite ''corona.reshare.mac-key.v1''
      (gomap_at authKex (canonicalPair (pkIndex sa) (pkIndex sb))) chainID groupID eraID generation (pkIndex sa) (pkIndex sb) outLen)"
proof -
  obtain i where i: "index_of committee a = Some i" "pkIndex sa = int i"
    and fa: "pkSeeds sa = map (\<lambda>i. (i, map (\<lambda>j. gomap_at seeds (canonicalPair i j)) [0..int (length committee) - 1])) [0..int (length committee) - 1]"
      "\<forall>k. map_of (pkMACKeys sa) k = (if k \<noteq> int i \<and> 0 \<le> k \<and> k < int (length committee) then Some (gomap_at macs (canonicalPair (int i) k)) else None)"
    using PartyKeyShare_fields[OF assms(2)] by blast
  obtain j where j: "index_of committee b = Some j" "pkIndex sb = int j"
    and fb: "pkSeeds sb = map (\<lambda>i. (i, map (\<lambda>j. gomap_at seeds (canonicalPair i j)) [0..int (length committee) - 1])) [0..int (length committee) - 1]"
      "\<forall>k. map_of (pkMACKeys sb) k = (if k \<noteq> int j \<and> 0 \<le> k \<and> k < int (length committee) then Some (gomap_at macs (canonicalPair (int j) k)) else None)"
    using PartyKeyShare_fields[OF assms(3)] by blast
  have ij: "i \<noteq> j" "i < length committee" "j < length committee"
    using index_of_Some[OF i(1)] index_of_Some[OF j(1)] assms(4) by auto
  have mac: "gomap_at macs (canonicalPair (int i) (int j)) = KDFOutput x suite ''corona.reshare.mac-key.v1''
      (gomap_at authKex (canonicalPair (int i) (int j))) chainID groupID eraID generation (int i) (int j) outLen"
  proof (cases "i < j")
    case True
    then show ?thesis using DeriveMACKeys_spec[OF assms(1), of "int i" "int j"] ij by (simp add: canonicalPair_def gomap_at_def)
  next
    case False
    then show ?thesis using DeriveMACKeys_spec[OF assms(1), of "int j" "int i"] ij KDFOutput_commute[OF assms(5)]
      by (simp add: canonicalPair_def gomap_at_def)
  qed
  then show ?thesis using fa fb i(2) j(2) ij canonicalPair_commute[of "int i" "int j"] by simp
qed

definition ex_committee_share :: "int \<Rightarrow> PartyKeyShare res" where
  "ex_committee_share a = rbind (DeriveMACKeys ex_xof 2 [((0, 1), [7])] [1] [2] 3 4 None 32) (\<lambda>macs.
     PartyKeyShareFromShare (\<lambda>_. True) (\<lambda>xs q. Inr xs) ref_ring [] a [5, 9] [] macs None)"

theorem committee_keys_agree_witness:
  "\<exists>sa sb. ex_committee_share 5 = Inr sa \<and> ex_committee_share 9 = Inr sb \<and>
     map_of (pkMACKeys sa) (pkIndex sb) = map_of (pkMACKeys sb) (pkIndex sa) \<and> pkIndex sa \<noteq> pkIndex sb"
proof -
  obtain macs where macs: "DeriveMACKeys ex_xof 2 [((0, 1), [7])] [1] [2] 3 4 None 32 = Inr macs"
    by (simp add: DeriveMACKeys_def derive_mac_def gomap_at_def upto.simps)
  obtain sa where sa: "PartyKeyShareFromShare (\<lambda>_. True) (\<lambda>xs q. Inr xs) ref_ring [] 5 [5, 9] [] macs None = Inr sa"
    by (simp add: PartyKeyShareFromShare_def ComputeLagrangeCoefficients_def must_def idx_def)
  obtain sb where sb: "PartyKeyShareFromShare (\<lambda>_. True) (\<lambda>xs q. Inr xs) ref_ring [] 9 [5, 9] [] macs None = Inr sb"
    by (simp add: PartyKeyShareFromShare_def ComputeLagrangeCoefficients_def must_def idx_def)
  have K: "DeriveMACKeys ex_xof (int (length [5, 9 :: int])) [((0, 1), [7])] [1] [2] 3 4 None 32 = Inr macs" using macs by simp
  show ?thesis
    using committee_keys_agree[OF K sa sb] sa sb macs by (auto simp: ex_committee_share_def)
qed

section \<open>Key exchange\<close>

text \<open>
  C34: the authenticated exchange. It succeeds only on an ephemeral key that the peer signed
  for this transcript; and when Diffie-Hellman commutes on the two key pairs, two ends that both
  succeed on the same transcript hold the same secret.
\<close>

theorem authenticated_kex:
  assumes "AuthenticatedKex x ed x25519 privI pubJ sigJ keyJ th suite = Inr k"
  shows "edVerify ed keyJ (kex_msg th pubJ) sigJ \<and> length keyJ = 32 \<and>
    (\<forall>k' privJ pubI sigI keyI. AuthenticatedKex x ed x25519 privJ pubI sigI keyI th suite = Inr k' \<and> x25519 privI pubJ = x25519 privJ pubI \<longrightarrow> k = k')"
  using assms by (auto simp: AuthenticatedKex_def X25519Pair_def ed25519_Verify_def res_simps split: if_splits)

definition ex_ed :: ed25519 where
  "ex_ed = \<lparr> edSign = (\<lambda>priv msg. drop 32 priv @ msg), edVerify = (\<lambda>pub msg sig. sig = pub @ msg) \<rparr>"

theorem authenticated_kex_witness:
  "\<exists>k. AuthenticatedKex ex_xof ex_ed (\<lambda>a b. Inr (map2 (+) a b)) (replicate 32 1) (replicate 32 2)
      (replicate 32 4 @ kex_msg [] (replicate 32 2)) (replicate 32 4) [] None = Inr k \<and>
    (\<forall>k' privJ pubI sigI keyI. AuthenticatedKex ex_xof ex_ed (\<lambda>a b. Inr (map2 (+) a b)) privJ pubI sigI keyI [] None = Inr k' \<and>
       (Inr (map2 (+) (replicate 32 1) (replicate 32 2)) :: bytes res) = Inr (map2 (+) privJ pubI) \<longrightarrow> k = k')"
proof -
  obtain k where k: "AuthenticatedKex ex_xof ex_ed (\<lambda>a b. Inr (map2 (+) a b)) (replicate 32 1) (replicate 32 2)
      (replicate 32 4 @ kex_msg [] (replicate 32 2)) (replicate 32 4) [] None = Inr k"
    by (simp add: AuthenticatedKex_def X25519Pair_def ed25519_Verify_def ex_ed_def zip_replicate list_all_iff)
  then show ?thesis using authenticated_kex[OF k] by blast
qed

section \<open>Epoch transcripts\<close>

lemma bytes_Compare_iff: "bytes_Compare a b > 0 \<longleftrightarrow> map unat b < map unat a"
proof (induction a b rule: bytes_Compare.induct)
  case (4 a as b bs)
  then show ?case using word_unat_eq_iff[of a b] by (cases "unat a" "unat b" rule: linorder_cases) auto
qed simp_all

lemma sink_map:
  "(\<And>a b. gt a b \<longleftrightarrow> f a > f b) \<Longrightarrow> map f (sink gt x ys) = sink (\<lambda>a b. a > b) (f x) (map f ys)"
  by (induction ys) auto

lemma insertion_sort_by_map:
  assumes "\<And>a b. gt a b \<longleftrightarrow> f a > f b"
  shows "map f (insertion_sort_by gt xs) = insertion_sort (map f xs)"
proof -
  have "map f (foldl (\<lambda>done x. sink gt x done) acc xs) = foldl (\<lambda>done x. sink (\<lambda>a b. a > b) x done) (map f acc) (map f xs)" for acc
    by (induction xs arbitrary: acc) (simp_all add: sink_map[of gt f, OF assms])
  from this[of "[]"] show ?thesis by (simp add: insertion_sort_by_def insertion_sort_def rev_map[symmetric])
qed

lemma sorted_keys_perm:
  assumes "mset ks = mset ks'"
  shows "sorted_keys ks = sorted_keys ks'"
proof -
  have "map (map unat) (sorted_keys ks) = map (map unat) (sorted_keys ks')"
    unfolding sorted_keys_def insertion_sort_by_map[of "\<lambda>a b. bytes_Compare a b > 0" "map unat", OF bytes_Compare_iff]
    using assms by (intro insertion_sort_cong) simp
  moreover have "inj (map unat :: bytes \<Rightarrow> nat list)" by (intro inj_mapI) (simp add: injI word_unat_eq_iff)
  ultimately show ?thesis by (simp add: inj_map_eq_map)
qed

lemma ValidatorSetHash_perm: "mset ks = mset ks' \<Longrightarrow> ValidatorSetHash x ks suite = ValidatorSetHash x ks' suite"
  by (simp add: ValidatorSetHash_def sorted_keys_perm[of ks ks'])

text \<open>
  The transcript of an epoch change. It does not depend on the order in which the two committees
  are listed; and the transcripts of a resharing and of a refresh are never the same,
  whatever their inputs, nor are the lists of parts that are hashed.
\<close>

theorem epoch_transcript:
  assumes "mset old' = mset (reOldValidators i)" "mset new' = mset (reNewValidators i)"
  shows "ReshareEpochInputs_BuildTranscript x (i \<lparr> reOldValidators := old', reNewValidators := new' \<rparr>)
      = ReshareEpochInputs_BuildTranscript x i \<and>
    (\<forall>t t' i'. ReshareEpochInputs_BuildTranscript x i = Inr t \<and> RefreshEpochInputs_BuildTranscript x i' = Inr t' \<longrightarrow>
       t \<noteq> t' \<and> buildTranscriptParts t \<noteq> buildTranscriptParts t')"
proof (intro conjI allI impI)
  have "ValidatorSetHash x (map str_bytes old') None = ValidatorSetHash x (map str_bytes (reOldValidators i)) None"
    "ValidatorSetHash x (map str_bytes new') None = ValidatorSetHash x (map str_bytes (reNewValidators i)) None"
    using assms by (auto intro!: ValidatorSetHash_perm)
  then show "ReshareEpochInputs_BuildTranscript x (i \<lparr> reOldValidators := old', reNewValidators := new' \<rparr>)
      = ReshareEpochInputs_BuildTranscript x i"
    by (simp add: ReshareEpochInputs_BuildTranscript_def)
next
  fix t t' i' assume a: "ReshareEpochInputs_BuildTranscript x i = Inr t \<and> RefreshEpochInputs_BuildTranscript x i' = Inr t'"
  then have "tiVariant t = ''reshare''" "tiVariant t' = ''refresh''"
    by (auto simp: ReshareEpochInputs_BuildTranscript_def RefreshEpochInputs_BuildTranscript_def res_simps)
  then show ne: "t \<noteq> t'" by auto
  show "buildTranscriptParts t \<noteq> buildTranscriptParts t'" unfolding buildTranscriptParts_inj by (rule ne)
qed

definition ex_epoch :: ReshareEpochInputs where
  "ex_epoch = \<lparr> reChainID = [1], reGroupID = [2], reOldEpochID = 1, reNewEpochID = 2, reOldValidators = [''a'', ''b''], reNewValidators = [''c''],
     reOldShares = [], reOldThreshold = 2, reNewThreshold = 1, reGroupKeyHash = replicate 32 0 \<rparr>"

theorem epoch_transcript_witness:
  "ReshareEpochInputs_BuildTranscript ex_xof (ex_epoch \<lparr> reOldValidators := [''b'', ''a''], reNewValidators := [''c''] \<rparr>)
     = ReshareEpochInputs_BuildTranscript ex_xof ex_epoch"
  using epoch_transcript[of "[''b'', ''a'']" ex_epoch "[''c'']" ex_xof] by (simp add: ex_epoch_def add_mset_commute)

end
