(* ===== verification/Reshare_Kernel.thy ===== *)
theory Reshare_Kernel
  imports Sharing
begin

text \<open>
  \<^verbatim>\<open>reshare/reshare.go\<close>: the arithmetic kernel of proactive resharing. A committee
  holding \<open>t_old\<close>-of-\<open>n\<close> Shamir shares of a vector of ring elements hands fresh shares
  of the same secret to a new committee (\<^verbatim>\<open>Reshare\<close>), or re-randomises its own
  (\<^verbatim>\<open>Refresh\<close>). A share map is the list of its entries in iteration order; the
  reader is the list of bytes it still holds and is returned.
\<close>

section \<open>Randomness\<close>

text \<open>\<^verbatim>\<open>sampleModQ\<close>: draw as many bytes as the modulus has and keep the first value
  below it. A read error panics; a modulus of no bytes would draw nothing for ever.\<close>

function sampleModQ :: "bytes \<Rightarrow> int \<Rightarrow> (int \<times> bytes) res" where
  "sampleModQ rs q =
     (if byte_len q = 0 then Inl Diverge
      else if length rs < byte_len q then Inl Panic
      else (let v = int (be_val (take (byte_len q) rs)); rs' = drop (byte_len q) rs
            in if v < q then Inr (v, rs') else sampleModQ rs' q))"
  by pat_completeness auto
termination
  by (relation "measure (\<lambda>(rs, q). length rs)") auto

declare sampleModQ.simps [simp del]

section \<open>Keys, quorums and Lagrange coefficients\<close>

definition sortedMapKeys :: "(int, 'v) gomap \<Rightarrow> int list" where
  "sortedMapKeys m = insertion_sort (gokeys m)"

definition sortedKeys :: "shares \<Rightarrow> int list" where
  "sortedKeys m = insertion_sort (gokeys m)"

text \<open>\<^verbatim>\<open>selectQuorum\<close> builds the map of the \<open>t\<close> smallest ids; indexing past the keys
  panics. The entries are kept in the iteration order of the input.\<close>

definition selectQuorum :: "shares \<Rightarrow> int \<Rightarrow> shares res" where
  "selectQuorum oldShares t =
     (let keys = sortedMapKeys oldShares in
      if int (length keys) < t then Inl Panic
      else Inr (filter (\<lambda>(k, _). k \<in> set (take (nat t) keys)) oldShares))"

text \<open>One coefficient of \<^verbatim>\<open>lagrangeAtZero\<close>: the two running products, each reduced
  at every step, and a nil dereference when the denominator has no inverse.\<close>

definition lagrange_products :: "int list \<Rightarrow> int \<Rightarrow> int \<Rightarrow> int \<times> int" where
  "lagrange_products ids q i =
     foldl (\<lambda>(num, den) j. if i = j then (num, den)
              else ((num * (- j)) mod q, (den * (i - j)) mod q)) (1, 1) ids"

definition lagrangeAtZero :: "shares \<Rightarrow> int \<Rightarrow> (int, int) gomap res" where
  "lagrangeAtZero quorum q =
     (let ids = sortedMapKeys quorum in
      mapM (\<lambda>i. case lagrange_products ids q i of (num, den) \<Rightarrow>
              (case ModInverse den q of
                 None \<Rightarrow> Inl Panic
               | Some denInv \<Rightarrow> Inr (i, (num * denInv) mod q))) ids)"

section \<open>Polynomials over the ring\<close>

definition scaleShare :: "ring_ops \<Rightarrow> Share \<Rightarrow> int \<Rightarrow> int \<Rightarrow> vec res" where
  "scaleShare rg share lambda q =
     mapM (\<lambda>p. if poly_has (rN rg) p
                then Inr (set_level0 (rNewPoly rg)
                       (map (\<lambda>k. word_of_int ((uint (hd p ! k) * lambda) mod q)) [0..<rN rg]))
                else Inl Panic) share"

text \<open>Horner's rule as \<^verbatim>\<open>evaluateAt\<close> runs it: from the highest coefficient down,
  reducing at each step.\<close>

definition horner :: "int \<Rightarrow> int \<Rightarrow> int list \<Rightarrow> int" where
  "horner q x cs =
     (let acc = foldl (\<lambda>acc c. (acc * x + c) mod q) (last cs) (rev (butlast cs))
      in if acc < 0 then acc + q else acc)"

definition evaluateAt :: "int list list list \<Rightarrow> int \<Rightarrow> int \<Rightarrow> nat \<Rightarrow> nat \<Rightarrow> nat \<Rightarrow> vec" where
  "evaluateAt fi x q nVec N tNew =
     map (\<lambda>p. [map (\<lambda>k. word_of_int (horner q x (map (\<lambda>row. row ! k) (take tNew (fi ! p)))))
                    [0..<N]]) [0..<nVec]"

text \<open>The random polynomials of one dealer: for each vector index the degree-0 row is
  the scaled share and the rows of degree \<open>1 .. t_new - 1\<close> are drawn in order.\<close>

fun sample_fi :: "nat \<Rightarrow> nat \<Rightarrow> int \<Rightarrow> vec \<Rightarrow> bytes \<Rightarrow> (int list list list \<times> bytes) res" where
  "sample_fi N tNew q [] rs = Inr ([], rs)"
| "sample_fi N tNew q (c0p # c0) rs =
     rbind (repM (repM (\<lambda>rs. sampleModQ rs q) N) (tNew - 1) rs) (\<lambda>(rows, rs1).
     rbind (sample_fi N tNew q c0 rs1) (\<lambda>(fi, rs2).
     Inr ((map (\<lambda>k. uint (hd c0p ! k)) [0..<N] # rows) # fi, rs2)))"

text \<open>Adding one contribution into a share, modulo \<open>q\<close>.\<close>

definition add_contrib :: "int \<Rightarrow> nat \<Rightarrow> nat \<Rightarrow> Share \<Rightarrow> vec \<Rightarrow> Share" where
  "add_contrib q nVec N sh contrib =
     map (\<lambda>p. set_level0 (sh ! p)
            (map (\<lambda>k. word_of_int ((uint (hd (sh ! p) ! k) + uint (hd (contrib ! p) ! k)) mod q))
                 [0..<N])) [0..<nVec]"

section \<open>Reshare\<close>

text \<open>The committee checks, in the order of the loops.\<close>

fun check_new_set :: "int list \<Rightarrow> int list \<Rightarrow> unit res" where
  "check_new_set seen [] = Inr ()"
| "check_new_set seen (j # js) =
     (if j = 0 then Inl ErrZeroPartyID
      else if j \<in> set seen then Inl ErrDuplicateNewID
      else check_new_set (j # seen) js)"

fun check_old_dims :: "nat \<Rightarrow> shares \<Rightarrow> unit res" where
  "check_old_dims nVec [] = Inr ()"
| "check_old_dims nVec ((pid, sh) # m) =
     (if length sh \<noteq> nVec then Inl ErrShareDimMismatch
      else if pid = 0 then Inl ErrZeroPartyID
      else check_old_dims nVec m)"

text \<open>One dealer \<open>i\<close> of the quorum: scale, sample, evaluate at every new id, add.\<close>

definition reshare_dealer ::
  "ring_ops \<Rightarrow> shares \<Rightarrow> (int, int) gomap \<Rightarrow> int \<Rightarrow> nat \<Rightarrow> nat \<Rightarrow> shares \<times> bytes \<Rightarrow> int \<Rightarrow> (shares \<times> bytes) res"
where
  "reshare_dealer rg oldShares lambda q nVec tNew = (\<lambda>(newShares, rs) i.
     rbind (scaleShare rg (the (map_of oldShares i)) (the (map_of lambda i)) q) (\<lambda>c0.
     rbind (sample_fi (rN rg) tNew q c0 rs) (\<lambda>(fi, rs').
     Inr (map (\<lambda>(j, sh). (j, add_contrib q nVec (rN rg) sh
                                (evaluateAt fi j q nVec (rN rg) tNew))) newShares, rs'))))"

text \<open>\<^verbatim>\<open>Reshare\<close>. A nil reader stands for \<^verbatim>\<open>crypto/rand.Reader\<close>, whose bytes are
  \<open>sysrand\<close>.\<close>

definition Reshare ::
  "ring_ops \<Rightarrow> bytes \<Rightarrow> shares \<Rightarrow> int \<Rightarrow> int list \<Rightarrow> int \<Rightarrow> bytes option \<Rightarrow> (shares \<times> bytes) res"
where
  "Reshare rg sysrand oldShares tOld newSet tNew randSource =
     (let rs = (case randSource of None \<Rightarrow> sysrand | Some rs \<Rightarrow> rs) in
      if tOld < 1 then Inl ErrInvalidThresholdOld
      else if tNew < 1 then Inl ErrInvalidThresholdNew
      else if oldShares = [] then Inl ErrEmptyOldShares
      else if newSet = [] then Inl ErrEmptyNewSet
      else if int (length oldShares) < tOld then Inl ErrTOldShortfall
      else if int (length newSet) < tNew then Inl ErrTNewExceedsNewSet
      else
        rbind (check_new_set [] newSet) (\<lambda>_.
        rbind (selectQuorum oldShares tOld) (\<lambda>tStar.
        let nVec = length (snd (hd oldShares)) in
        if nVec = 0 then Inl ErrShareDimMismatch
        else
          rbind (check_old_dims nVec oldShares) (\<lambda>_.
          let q = rModulus rg in
          rbind (lagrangeAtZero tStar q) (\<lambda>lambda.
          foldM (reshare_dealer rg oldShares lambda q nVec (nat tNew))
            (map (\<lambda>j. (j, map (\<lambda>p. rNewPoly rg) [0..<nVec])) newSet, rs)
            (sortedKeys tStar))))))"

section \<open>Refresh\<close>

fun check_refresh_dims :: "nat \<Rightarrow> shares \<Rightarrow> nat res" where
  "check_refresh_dims nVec [] = Inr nVec"
| "check_refresh_dims nVec ((pid, sh) # m) =
     (if pid = 0 then Inl ErrZeroPartyID
      else if sh = [] then Inl ErrShareDimMismatch
      else if nVec = 0 then check_refresh_dims (length sh) m
      else if length sh \<noteq> nVec then Inl ErrShareDimMismatch
      else check_refresh_dims nVec m)"

text \<open>\<^verbatim>\<open>copy(v[p].Coeffs[0], shares[j][p].Coeffs[0])\<close> into a fresh polynomial copies as
  many coefficients as both have.\<close>

definition copy_level0 :: "poly \<Rightarrow> poly \<Rightarrow> poly" where
  "copy_level0 dst src = set_level0 dst (take (length (hd dst)) (hd src))"

definition copy_share :: "ring_ops \<Rightarrow> Share \<Rightarrow> Share res" where
  "copy_share rg sh =
     mapM (\<lambda>p. if p = [] then Inl Panic else Inr (copy_level0 (rNewPoly rg) p)) sh"

text \<open>The value \<open>z_i(x)\<close> of one coordinate, from its coefficients of degree
  \<open>1 .. t - 1\<close>: Horner over them and a last multiplication by \<open>x\<close>.\<close>

definition zero_poly_at :: "int \<Rightarrow> int \<Rightarrow> int list \<Rightarrow> int" where
  "zero_poly_at q x zs =
     (foldl (\<lambda>acc c. (acc * x + c) mod q) (last zs) (rev (butlast zs)) * x) mod q"

definition refresh_dealer ::
  "ring_ops \<Rightarrow> int \<Rightarrow> nat \<Rightarrow> nat \<Rightarrow> shares \<times> bytes \<Rightarrow> int \<Rightarrow> (shares \<times> bytes) res"
where
  "refresh_dealer rg q nVec threshold = (\<lambda>(out, rs) i.
     rbind (repM (repM (repM (\<lambda>rs. sampleModQ rs q) (rN rg)) nVec) (threshold - 1) rs)
       (\<lambda>(zHigh, rs').
     Inr (map (\<lambda>(j, sh). (j,
            map (\<lambda>p. set_level0 (sh ! p)
              (map (\<lambda>k. word_of_int ((uint (hd (sh ! p) ! k) +
                   zero_poly_at q j (map (\<lambda>zd. zd ! p ! k) zHigh)) mod q)) [0..<rN rg]))
              [0..<nVec])) out, rs')))"

definition Refresh :: "ring_ops \<Rightarrow> bytes \<Rightarrow> shares \<Rightarrow> int \<Rightarrow> bytes option \<Rightarrow> (shares \<times> bytes) res" where
  "Refresh rg sysrand shares threshold randSource =
     (let rs = (case randSource of None \<Rightarrow> sysrand | Some rs \<Rightarrow> rs) in
      if threshold < 1 then Inl ErrInvalidThresholdOld
      else if shares = [] then Inl ErrEmptyOldShares
      else if int (length shares) < threshold then Inl ErrTOldShortfall
      else
        rbind (check_refresh_dims 0 shares) (\<lambda>nVec.
        let q = rModulus rg; parties = sortedMapKeys shares in
        rbind (mapM (\<lambda>j. rbind (copy_share rg (the (map_of shares j))) (\<lambda>v. Inr (j, v))) parties)
          (\<lambda>out.
        if threshold = 1 then Inr (out, rs)
        else foldM (refresh_dealer rg q nVec (nat threshold)) (out, rs) parties)))"

section \<open>Verify\<close>

text \<open>The debugging reconstruction. The dimension is that of the first quorum entry the
  iteration meets; a shorter share panics.\<close>

definition reshare_Verify :: "ring_ops \<Rightarrow> shares \<Rightarrow> int \<Rightarrow> vec res" where
  "reshare_Verify rg shares t =
     (if int (length shares) < t then Inl ErrTOldShortfall
      else
        let q = rModulus rg; N = rN rg in
        rbind (selectQuorum shares t) (\<lambda>quorum.
        rbind (lagrangeAtZero quorum q) (\<lambda>lambda.
        let nVec = (case quorum of [] \<Rightarrow> 0 | (_, sh) # _ \<Rightarrow> length sh) in
        mapM (\<lambda>p.
          if \<forall>i \<in> set (sortedKeys quorum).
               p < length (the (map_of quorum i)) \<and> poly_has N (the (map_of quorum i) ! p)
          then Inr (set_level0 (rNewPoly rg)
                 (map (\<lambda>k. word_of_int
                    (foldl (\<lambda>acc i. acc + the (map_of lambda i) * uint (hd (the (map_of quorum i) ! p) ! k))
                       0 (sortedKeys quorum) mod q)) [0..<N]))
          else Inl Panic) [0..<nVec])))"

section \<open>Sampling\<close>

text \<open>The number of draws of a byte stream that the rejection loop accepts.\<close>

function accepted :: "int \<Rightarrow> bytes \<Rightarrow> nat" where
  "accepted q rs =
     (if byte_len q = 0 \<or> length rs < byte_len q then 0
      else (if int (be_val (take (byte_len q) rs)) < q then 1 else 0)
           + accepted q (drop (byte_len q) rs))"
  by pat_completeness auto
termination
  by (relation "measure (\<lambda>(q, rs). length rs)") auto

declare accepted.simps [simp del]

text \<open>The sampler returns exactly when an accepted draw is left, its value is in range,
  and it uses up one accepted draw.\<close>

lemma sampleModQ_spec:
  assumes "0 < q"
  shows "(accepted q rs = 0 \<longrightarrow> sampleModQ rs q = Inl Panic) \<and>
    (0 < accepted q rs \<longrightarrow> (\<exists>v rs'. sampleModQ rs q = Inr (v, rs') \<and> 0 \<le> v \<and> v < q \<and>
        accepted q rs' = accepted q rs - 1))"
  using assms
proof (induction rs q rule: sampleModQ.induct)
  case (1 rs q)
  have n: "byte_len q \<noteq> 0" using "1.prems" by simp
  show ?case
  proof (cases "length rs < byte_len q")
    case True
    then show ?thesis using n by (simp add: accepted.simps[of q rs] sampleModQ.simps[of rs q])
  next
    case False
    let ?v = "int (be_val (take (byte_len q) rs))" and ?rs = "drop (byte_len q) rs"
    show ?thesis
    proof (cases "?v < q")
      case True
      then show ?thesis
        using n False by (simp add: accepted.simps[of q rs] sampleModQ.simps[of rs q] Let_def)
    next
      case big: False
      then have "accepted q rs = accepted q ?rs" "sampleModQ rs q = sampleModQ ?rs q"
        using n False by (simp_all add: accepted.simps[of q rs] sampleModQ.simps[of rs q] Let_def)
      with "1.IH"[OF n False refl refl big "1.prems"] show ?thesis by simp
    qed
  qed
qed

lemma sampleModQ_range: "0 < q \<Longrightarrow> sampleModQ rs q = Inr (v, rs') \<Longrightarrow> 0 \<le> v \<and> v < q"
  using sampleModQ_spec[of q rs] by (cases "accepted q rs = 0") auto

text \<open>A draw loop that needs \<open>c\<close> accepted draws at a time and is run \<open>n\<close> times.\<close>

definition draws :: "int \<Rightarrow> nat \<Rightarrow> (bytes \<Rightarrow> ('b \<times> bytes) res) \<Rightarrow> bool" where
  "draws q c f \<longleftrightarrow> (\<forall>rs. (accepted q rs < c \<longrightarrow> f rs = Inl Panic) \<and>
     (c \<le> accepted q rs \<longrightarrow> (\<exists>b rs'. f rs = Inr (b, rs') \<and> accepted q rs' = accepted q rs - c)))"

lemma draws_sampleModQ: "0 < q \<Longrightarrow> draws q 1 (\<lambda>rs. sampleModQ rs q)"
  unfolding draws_def
proof
  fix rs assume "0 < q"
  from sampleModQ_spec[OF this, of rs] show
    "(accepted q rs < 1 \<longrightarrow> sampleModQ rs q = Inl Panic) \<and>
     (1 \<le> accepted q rs \<longrightarrow> (\<exists>b rs'. sampleModQ rs q = Inr (b, rs') \<and> accepted q rs' = accepted q rs - 1))"
    by (cases "accepted q rs = 0") auto
qed

lemma draws_return: "draws q 0 (\<lambda>rs. Inr (b, rs))"
  by (simp add: draws_def)

lemma draws_bind:
  assumes f: "draws q c f" and g: "\<And>b. draws q d (g b)"
  shows "draws q (c + d) (\<lambda>rs. rbind (f rs) (\<lambda>(b, rs'). g b rs'))"
  unfolding draws_def
proof (intro allI)
  fix rs
  show "(accepted q rs < c + d \<longrightarrow> rbind (f rs) (\<lambda>(b, rs'). g b rs') = Inl Panic) \<and>
     (c + d \<le> accepted q rs \<longrightarrow> (\<exists>b rs'. rbind (f rs) (\<lambda>(b, rs'). g b rs') = Inr (b, rs') \<and>
        accepted q rs' = accepted q rs - (c + d)))"
  proof (cases "accepted q rs < c")
    case True
    then show ?thesis using f by (simp add: draws_def)
  next
    case False
    then obtain b rs1 where "f rs = Inr (b, rs1)" "accepted q rs1 = accepted q rs - c"
      using f unfolding draws_def by (meson not_less)
    then show ?thesis using g[of b, unfolded draws_def, THEN spec, of rs1] False by auto
  qed
qed

lemma draws_repM:
  assumes f: "draws q c f" shows "draws q (n * c) (repM f n)"
proof (induction n)
  case 0
  then show ?case by (simp add: draws_return)
next
  case (Suc n)
  have "draws q (n * c + 0) (\<lambda>rs. rbind (repM f n rs) (\<lambda>(bs, rs'). Inr (b # bs, rs')))" for b
    by (rule draws_bind[OF Suc.IH draws_return])
  from draws_bind[OF f this] show ?case by (simp add: add.commute)
qed

section \<open>Lagrange coefficients\<close>

lemma lag_num_Cons [simp]: "lag_num (j # js) = - j * lag_num js"
  by (simp add: lag_num_def)

lemma lag_den_Cons [simp]: "lag_den i (j # js) = (i - j) * lag_den i js"
  by (simp add: lag_den_def)

lemma lag_Nil [simp]: "lag_num [] = 1" "lag_den i [] = 1"
  by (simp_all add: lag_num_def lag_den_def)

lemma lagrange_products_fold:
  "foldl (\<lambda>(num, den) j. if i = j then (num, den)
      else ((num * (- j)) mod q, (den * (i - j)) mod q)) (a, b) ids = (num, den) \<Longrightarrow>
   num mod q = (a * lag_num (filter (\<lambda>j. j \<noteq> i) ids)) mod q \<and>
   den mod q = (b * lag_den i (filter (\<lambda>j. j \<noteq> i) ids)) mod q"
proof (induction ids arbitrary: a b)
  case (Cons j ids)
  show ?case
  proof (cases "i = j")
    case True
    then show ?thesis using Cons by simp
  next
    case False
    then have "num mod q = (((a * (- j)) mod q) * lag_num (filter (\<lambda>j. j \<noteq> i) ids)) mod q \<and>
      den mod q = (((b * (i - j)) mod q) * lag_den i (filter (\<lambda>j. j \<noteq> i) ids)) mod q"
      using Cons.IH[of "(a * (- j)) mod q" "(b * (i - j)) mod q"] Cons.prems by simp
    then show ?thesis
      using False by (simp add: mod_mult_left_eq mult.assoc)
  qed
qed simp

lemma remove1_filter: "distinct xs \<Longrightarrow> remove1 x xs = filter (\<lambda>j. j \<noteq> x) xs"
  by (simp add: distinct_remove1_removeAll removeAll_filter_not_eq) (metis (mono_tags))

text \<open>Over distinct ids modulo a prime the routine never dereferences a nil inverse and
  computes the Lagrange basis at zero.\<close>

lemma lagrangeAtZero_ok:
  assumes q: "prime_mod q" and d: "distinct (map (\<lambda>x. x mod q) (gokeys m))"
  shows "\<exists>lam. lagrangeAtZero m q = Inr lam \<and> gokeys lam = sortedMapKeys m \<and>
    lagrange_weights q (sortedMapKeys m) (\<lambda>i. the (map_of lam i))"
proof -
  let ?ids = "sortedMapKeys m"
  have ms: "mset ?ids = mset (gokeys m)" by (simp add: sortedMapKeys_def)
  then have di: "distinct (map (\<lambda>x. x mod q) ?ids)"
    using d by (metis mset_map mset_eq_imp_distinct_iff)
  then have dx: "distinct ?ids" by (simp add: distinct_map)
  define w where "w i = (case lagrange_products ?ids q i of (num, den) \<Rightarrow>
    (num * the (ModInverse den q)) mod q)" for i
  have step: "\<exists>denInv. ModInverse (snd (lagrange_products ?ids q i)) q = Some denInv \<and>
      (w i * lag_den i (remove1 i ?ids)) mod q = lag_num (remove1 i ?ids) mod q"
    if i: "i \<in> set ?ids" for i
  proof -
    obtain num den where nd: "lagrange_products ?ids q i = (num, den)" by fastforce
    have f: "num mod q = lag_num (remove1 i ?ids) mod q" "den mod q = lag_den i (remove1 i ?ids) mod q"
      using lagrange_products_fold[OF nd[unfolded lagrange_products_def]] by (simp_all add: remove1_filter[OF dx])
    have "\<not> q dvd den"
      using lag_den_not_dvd[OF q di i] f(2) by (metis dvd_eq_mod_eq_0)
    then obtain v where v: "ModInverse den q = Some v"
      using ModInverse_exists[OF prime_modD[OF q] prime_mod_coprime[OF q]] by blast
    have "(w i * lag_den i (remove1 i ?ids)) mod q = (num * v * den) mod q"
      using f(2) nd v by (simp add: w_def) (metis mod_mult_eq mod_mod_trivial)
    also have "\<dots> = (num * (den * v)) mod q" by (simp add: mult_ac)
    also have "\<dots> = num mod q"
      using ModInverse_Some(3)[OF prime_modD[OF q] v] by (metis mod_mult_right_eq mult.right_neutral)
    finally show ?thesis using f(1) nd v by simp
  qed
  let ?lam = "map (\<lambda>i. (i, w i)) ?ids"
  have "lagrangeAtZero m q = Inr ?lam"
    unfolding lagrangeAtZero_def Let_def
    by (rule mapM_all_Inr) (use step in \<open>force simp: w_def split: prod.splits\<close>)
  moreover have "the (map_of ?lam i) = w i" if "i \<in> set ?ids" for i
    using that by (simp add: map_of_map_restrict)
  ultimately show ?thesis
    using step by (intro exI[of _ ?lam]) (auto simp: lagrange_weights_def comp_def)
qed

section \<open>Evaluation\<close>

lemma horner_fold:
  "cs \<noteq> [] \<Longrightarrow>
   foldl (\<lambda>acc c. (acc * x + c) mod q) (last cs) (rev (butlast cs)) mod q = pval cs x mod (q::int)"
proof (induction cs)
  case (Cons c cs)
  show ?case
  proof (cases "cs = []")
    case False
    then have "foldl (\<lambda>acc c. (acc * x + c) mod q) (last cs) (rev (butlast cs)) mod q = pval cs x mod q"
      using Cons.IH by simp
    then have "(foldl (\<lambda>acc c. (acc * x + c) mod q) (last cs) (rev (butlast cs)) * x + c) mod q
        = (pval cs x * x + c) mod q"
      by (intro mod_add_cong refl) (metis mod_mult_left_eq)
    then show ?thesis using False by (simp add: algebra_simps)
  qed simp
qed simp

lemma foldl_mod_range:
  "1 < q \<Longrightarrow> 0 \<le> a \<Longrightarrow> a < q \<Longrightarrow>
   0 \<le> foldl (\<lambda>acc c. (acc * x + c) mod q) a cs \<and> foldl (\<lambda>acc c. (acc * x + c) mod q) a cs < (q::int)"
  by (induction cs arbitrary: a) auto

lemma horner_spec:
  assumes "1 < q" "cs \<noteq> []" "0 \<le> last cs" "last cs < q"
  shows "horner q x cs = pval cs x mod q"
  using horner_fold[OF assms(2), of x q] foldl_mod_range[OF assms(1,3,4), of x "rev (butlast cs)"]
  by (simp add: horner_def Let_def)

lemma zero_poly_at_spec: "zs \<noteq> [] \<Longrightarrow> zero_poly_at q x zs = pval (0 # zs) x mod q"
  using horner_fold[of zs x q] unfolding zero_poly_at_def
  by simp (metis mod_mult_left_eq mult.commute)

section \<open>Dealing\<close>

text \<open>\<^verbatim>\<open>scaleShare\<close> multiplies every coefficient.\<close>

lemma scaleShare_ok:
  assumes "coeff_ring rg" "\<forall>p \<in> set sh. poly_has (rN rg) p"
  shows "scaleShare rg sh lam q = Inr (map (\<lambda>p. pbuild q (rN rg) (\<lambda>k. pcoef p k * lam)) sh)"
  unfolding scaleShare_def
  by (rule mapM_all_Inr) (use assms(2) set_level0_NewPoly[OF assms(1)] in \<open>auto simp: pcoef_def\<close>)

lemma scaleShare_has: "scaleShare rg sh lam q = Inr c0 \<Longrightarrow> \<forall>p \<in> set sh. poly_has (rN rg) p"
  by (auto simp: scaleShare_def mapM_Inr_iff all_set_nth_iff split: if_splits)

lemma sample_fi_spec:
  assumes "0 < q" "1 \<le> t" "sample_fi N t q c0 rs = Inr (fi, rs')"
  shows "length fi = length c0 \<and> (\<forall>p < length c0. \<exists>rows.
      fi ! p = map (\<lambda>k. uint (hd (c0 ! p) ! k)) [0..<N] # rows \<and> length rows = t - 1 \<and>
      (\<forall>row \<in> set rows. length row = N \<and> (\<forall>v \<in> set row. 0 \<le> v \<and> v < q)))"
  using assms(3)
proof (induction c0 arbitrary: rs fi)
  case (Cons c c0)
  then obtain rows rs1 fi0 where r: "repM (repM (\<lambda>rs. sampleModQ rs q) N) (t - 1) rs = Inr (rows, rs1)"
    and f: "sample_fi N t q c0 rs1 = Inr (fi0, rs')"
    and fi: "fi = (map (\<lambda>k. uint (hd c ! k)) [0..<N] # rows) # fi0"
    by (auto simp: res_simps)
  have "length row = N \<and> (\<forall>v \<in> set row. 0 \<le> v \<and> v < q)" if "row \<in> set rows" for row
    using r
  proof (rule repM_all[OF _ _ that])
    fix s b s' assume b: "repM (\<lambda>rs. sampleModQ rs q) N s = Inr (b, s')"
    have "0 \<le> v \<and> v < q" if "v \<in> set b" for v
      by (rule repM_all[OF b _ that]) (rule sampleModQ_range[OF assms(1)])
    then show "length b = N \<and> (\<forall>v \<in> set b. 0 \<le> v \<and> v < q)" using repM_length[OF b] by simp
  qed
  then show ?case using Cons.IH[OF f] fi repM_length[OF r] by (auto simp: less_Suc_eq_0_disj)
qed simp

text \<open>\<^verbatim>\<open>evaluateAt\<close> returns the value of every coordinate's polynomial.\<close>

lemma evaluateAt_coef:
  assumes q: "1 < q" "q \<le> 2 ^ 64" and t: "1 \<le> t" and p: "p < nVec" and k: "k < N"
    and fi: "length (fi ! p) = t" "\<forall>row \<in> set (fi ! p). length row = N \<and> (\<forall>v \<in> set row. 0 \<le> v \<and> v < q)"
  shows "pcoef (evaluateAt fi x q nVec N t ! p) k = pval (map (\<lambda>row. row ! k) (fi ! p)) x mod q"
proof -
  let ?cs = "map (\<lambda>row. row ! k) (fi ! p)"
  have ne: "?cs \<noteq> []" using fi(1) t by auto
  have "last (fi ! p) \<in> set (fi ! p)" using ne by simp
  then have "length (last (fi ! p)) = N" "\<forall>v \<in> set (last (fi ! p)). 0 \<le> v \<and> v < q"
    using fi(2) by blast+
  then have "0 \<le> last ?cs \<and> last ?cs < q" using ne k by (simp add: last_map)
  then have "horner q x ?cs = pval ?cs x mod q" using horner_spec[OF q(1) ne] by simp
  then show ?thesis
    using p k fi(1) q by (simp add: evaluateAt_def pcoef_def uint_mod_q)
qed

lemma add_contrib_spec:
  assumes "share_ok q N nVec sh" and q: "1 < q" "q \<le> 2 ^ 64"
  shows "share_ok q N nVec (add_contrib q nVec N sh c)" and
    "p < nVec \<Longrightarrow> k < N \<Longrightarrow>
       pcoef (add_contrib q nVec N sh c ! p) k = (pcoef (sh ! p) k + pcoef (c ! p) k) mod q"
proof -
  have e: "add_contrib q nVec N sh c = map (\<lambda>p. pbuild q N (\<lambda>k. pcoef (sh ! p) k + pcoef (c ! p) k)) [0..<nVec]"
    unfolding add_contrib_def pcoef_def
    by (rule map_cong[OF refl], rule set_level0_pbuild) (use assms(1) in \<open>auto simp: share_ok_def pvalid_def\<close>)
  show "share_ok q N nVec (add_contrib q nVec N sh c)"
    unfolding e share_ok_def using q by simp
  show "p < nVec \<Longrightarrow> k < N \<Longrightarrow>
       pcoef (add_contrib q nVec N sh c ! p) k = (pcoef (sh ! p) k + pcoef (c ! p) k) mod q"
    unfolding e using q by simp
qed

section \<open>One dealer\<close>

lemma gokeys_map_snd [simp]: "gokeys (map (\<lambda>(j, sh). (j, g j sh)) m) = gokeys m"
  by (induction m) auto

lemma shares_ok_map:
  "shares_ok q N nVec m \<Longrightarrow> (\<And>j sh. share_ok q N nVec sh \<Longrightarrow> share_ok q N nVec (g j sh)) \<Longrightarrow>
   shares_ok q N nVec (map (\<lambda>(j, sh). (j, g j sh)) m)"
  by (auto simp: shares_ok_def)

lemma reshare_dealer_step:
  assumes cr: "coeff_ring rg" and i: "map_of old i = Some sh" "length sh = nVec" and t: "1 \<le> t"
    and st: "reshare_dealer rg old lam (rModulus rg) nVec t (ns, rs) i = Inr (ns', rs')"
    and ok: "shares_ok (rModulus rg) (rN rg) nVec ns"
    and sh: "is_sharing (rModulus rg) (rN rg) nVec t ns (\<lambda>p k. S p k mod rModulus rg)"
  shows "gokeys ns' = gokeys ns \<and> shares_ok (rModulus rg) (rN rg) nVec ns' \<and>
    is_sharing (rModulus rg) (rN rg) nVec t ns'
      (\<lambda>p k. (S p k + the (map_of lam i) * pcoef (sh ! p) k) mod rModulus rg)"
proof -
  let ?q = "rModulus rg" and ?N = "rN rg" and ?l = "the (map_of lam i)"
  have q: "1 < ?q" "?q \<le> 2 ^ 64" using coeff_ring.q_simps[OF cr] by auto
  obtain c0 fi where c0: "scaleShare rg sh ?l ?q = Inr c0" and fi: "sample_fi ?N t ?q c0 rs = Inr (fi, rs')"
    and ns': "ns' = map (\<lambda>(j, s). (j, add_contrib ?q nVec ?N s (evaluateAt fi j ?q nVec ?N t))) ns"
    using st i(1) by (auto simp: reshare_dealer_def res_simps)
  have c0e: "c0 = map (\<lambda>p. pbuild ?q ?N (\<lambda>k. pcoef p k * ?l)) sh"
    using scaleShare_ok[OF cr scaleShare_has[OF c0], of ?l ?q] c0 by simp
  define F where "F p k = map (\<lambda>row. row ! k) (fi ! p)" for p k
  have row: "length (fi ! p) = t \<and> (\<forall>row \<in> set (fi ! p). length row = ?N \<and> (\<forall>v \<in> set row. 0 \<le> v \<and> v < ?q)) \<and>
      (\<forall>k < ?N. hd (fi ! p) ! k = (pcoef (sh ! p) k * ?l) mod ?q)" if p: "p < nVec" for p
  proof -
    obtain rows where r: "fi ! p = map (\<lambda>k. uint (hd (c0 ! p) ! k)) [0..<?N] # rows" "length rows = t - 1"
      "\<forall>row \<in> set rows. length row = ?N \<and> (\<forall>v \<in> set row. 0 \<le> v \<and> v < ?q)"
      using sample_fi_spec[OF _ t fi] q(1) p i(2) by (auto simp: c0e)
    have "uint (hd (c0 ! p) ! k) = (pcoef (sh ! p) k * ?l) mod ?q" if "k < ?N" for k
      using pcoef_pbuild[OF q that, of "\<lambda>k. pcoef (sh ! p) k * ?l"] p i(2) by (simp add: c0e pcoef_def)
    then show ?thesis using r t q(1) by auto
  qed
  have lenF: "length (F p k) = t" if "p < nVec" "k < ?N" for p k
    using row[OF that(1)] by (simp add: F_def)
  have F0: "pval (F p k) 0 mod ?q = (?l * pcoef (sh ! p) k) mod ?q" if "p < nVec" "k < ?N" for p k
  proof -
    have "fi ! p \<noteq> []" using row[OF that(1)] t by auto
    then show ?thesis using row[OF that(1)] that(2) by (simp add: F_def hd_map mult.commute)
  qed
  have "is_sharing ?q ?N nVec t ns' (\<lambda>p k. (S p k + pval (F p k) 0) mod ?q)"
    unfolding ns'
  proof (rule is_sharing_add[OF sh lenF])
    fix p k j s assume pk: "p < nVec" "k < ?N" and "(j, s) \<in> set ns"
    then have "share_ok ?q ?N nVec s" using ok by (auto simp: shares_ok_def)
    from add_contrib_spec(2)[OF this q pk] evaluateAt_coef[OF q t pk] row[OF pk(1)]
    show "pcoef (add_contrib ?q nVec ?N s (evaluateAt fi j ?q nVec ?N t) ! p) k
        = (pcoef (s ! p) k + pval (F p k) j) mod ?q"
      by (simp add: F_def mod_add_right_eq)
  qed
  then have "is_sharing ?q ?N nVec t ns' (\<lambda>p k. (S p k + ?l * pcoef (sh ! p) k) mod ?q)"
    by (rule is_sharing_cong) (rule mod_add_cong[OF refl F0])
  moreover have "shares_ok ?q ?N nVec ns'"
    unfolding ns' using ok by (rule shares_ok_map) (rule add_contrib_spec(1)[OF _ q])
  moreover have "gokeys ns' = gokeys ns" unfolding ns' by (rule gokeys_map_snd)
  ultimately show ?thesis by blast
qed

lemma reshare_dealers:
  assumes cr: "coeff_ring rg" and t: "1 \<le> t"
    and i: "\<And>i. i \<in> set ds \<Longrightarrow> \<exists>sh. map_of old i = Some sh \<and> length sh = nVec"
    and st: "foldM (reshare_dealer rg old lam (rModulus rg) nVec t) (ns, rs) ds = Inr (ns', rs')"
    and ok: "shares_ok (rModulus rg) (rN rg) nVec ns"
    and sh: "is_sharing (rModulus rg) (rN rg) nVec t ns (\<lambda>p k. S p k mod rModulus rg)"
  shows "gokeys ns' = gokeys ns \<and> shares_ok (rModulus rg) (rN rg) nVec ns' \<and>
    is_sharing (rModulus rg) (rN rg) nVec t ns'
      (\<lambda>p k. (S p k + sum_list (map (\<lambda>i. the (map_of lam i) * pcoef (the (map_of old i) ! p) k) ds))
              mod rModulus rg)"
  using i st ok sh
proof (induction ds arbitrary: ns rs S)
  case (Cons d ds)
  obtain ns1 rs1 where s1: "reshare_dealer rg old lam (rModulus rg) nVec t (ns, rs) d = Inr (ns1, rs1)"
    and s2: "foldM (reshare_dealer rg old lam (rModulus rg) nVec t) (ns1, rs1) ds = Inr (ns', rs')"
    using Cons.prems(2) by (auto simp: res_simps)
  obtain sh where sh: "map_of old d = Some sh" "length sh = nVec" using Cons.prems(1) by auto
  note one = reshare_dealer_step[OF cr sh t s1 Cons.prems(3,4)]
  note rest = Cons.IH[OF _ s2, of "\<lambda>p k. S p k + the (map_of lam d) * pcoef (sh ! p) k"]
  show ?case using rest one Cons.prems(1) sh by (simp add: add.assoc)
qed simp

section \<open>Quorums\<close>

lemma gokeys_filter: "gokeys (filter (\<lambda>(k, _). P k) m) = filter P (gokeys m)"
  by (induction m) auto

lemma map_of_filter_key: "P i \<Longrightarrow> map_of (filter (\<lambda>(k, _). P k) m) i = map_of m i"
  by (induction m) auto

lemma selectQuorum_ok:
  assumes "gomap_wf m" "t \<le> int (length m)"
  obtains qm where "selectQuorum m t = Inr qm" "gomap_wf qm" "set qm \<subseteq> set m"
    "sortedMapKeys qm = take (nat t) (sortedMapKeys m)"
    "\<And>i. i \<in> set (take (nat t) (sortedMapKeys m)) \<Longrightarrow> map_of qm i = map_of m i"
proof -
  let ?K = "take (nat t) (sortedMapKeys m)"
  let ?qm = "filter (\<lambda>(k, _). k \<in> set ?K) m"
  have keys: "gokeys ?qm = filter (\<lambda>k. k \<in> set ?K) (gokeys m)"
    by (rule gokeys_filter)
  have wf: "gomap_wf ?qm" unfolding keys using assms(1) by simp
  have "set (gokeys ?qm) = set ?K"
    unfolding keys by (auto simp: sortedMapKeys_def dest: in_set_takeD)
  then have "sortedMapKeys ?qm = ?K"
    using wf assms(1) unfolding sortedMapKeys_def
    by (intro sorted_distinct_set_unique) (auto simp: sorted_wrt_take)
  moreover have "selectQuorum m t = Inr ?qm"
    using assms(2) by (simp add: selectQuorum_def Let_def sortedMapKeys_def)
  moreover have "map_of ?qm i = map_of m i" if "i \<in> set ?K" for i
    using that by (simp add: map_of_filter_key)
  ultimately show thesis using wf that by auto
qed

lemma sortedKeys_eq: "sortedKeys m = sortedMapKeys m"
  by (simp add: sortedKeys_def sortedMapKeys_def)

lemma set_sortedMapKeys [simp]: "set (sortedMapKeys m) = fst ` set m"
  by (simp add: sortedMapKeys_def)

lemma length_sortedMapKeys [simp]: "length (sortedMapKeys m) = length m"
  by (simp add: sortedMapKeys_def)

lemma distinct_sortedMapKeys [simp]: "distinct (sortedMapKeys m) = gomap_wf m"
  by (simp add: sortedMapKeys_def)

lemma distinct_mod_take:
  "distinct (map (\<lambda>x. x mod q) (gokeys m)) \<Longrightarrow> distinct (map (\<lambda>x. x mod q) (take n (sortedMapKeys m)))"
proof -
  assume "distinct (map (\<lambda>x. x mod q) (gokeys m))"
  then have "distinct (map (\<lambda>x. x mod q) (sortedMapKeys m))"
    by (metis mset_map mset_eq_imp_distinct_iff mset_insertion_sort sortedMapKeys_def)
  then show ?thesis by (simp add: take_map[symmetric])
qed

text \<open>The shares of a quorum, weighted with its Lagrange coefficients, sum up to the
  secret.\<close>

lemma quorum_reconstructs:
  assumes q: "prime_mod q" and d: "distinct (map (\<lambda>x. x mod q) (gokeys m))"
    and t: "t \<le> int (length m)" "1 \<le> t"
    and sh: "is_sharing q N nVec (nat t) m s" and pk: "p < nVec" "k < N"
    and w: "lagrange_weights q (take (nat t) (sortedMapKeys m)) w"
  shows "sum_list (map (\<lambda>i. w i * pcoef (the (map_of m i) ! p) k) (take (nat t) (sortedMapKeys m))) mod q = s p k"
proof -
  let ?K = "take (nat t) (sortedMapKeys m)"
  obtain cs where cs: "length cs = nat t" "pval cs 0 mod q = s p k"
    "\<And>j s. (j, s) \<in> set m \<Longrightarrow> pcoef (s ! p) k = pval cs j mod q"
    using sh pk unfolding is_sharing_def by fast
  have "w i * pcoef (the (map_of m i) ! p) k mod q = w i * pval cs i mod q" if "i \<in> set ?K" for i
  proof -
    have "i \<in> fst ` set m" using that by (metis in_set_takeD set_sortedMapKeys)
    then obtain v where v: "map_of m i = Some v" by (metis map_of_eq_None_iff not_None_eq)
    then have "pcoef (v ! p) k = pval cs i mod q" by (intro cs(3) map_of_SomeD)
    then show ?thesis by (simp add: v mod_mult_right_eq)
  qed
  then have "sum_list (map (\<lambda>i. w i * pcoef (the (map_of m i) ! p) k) ?K) mod q
      = sum_list (map (\<lambda>i. w i * pval cs i) ?K) mod q"
    by (subst (1 2) sum_list_mod[symmetric]) (simp cong: map_cong)
  also have "\<dots> = pval cs 0 mod q"
    by (rule lagrange_at_zero[OF q distinct_mod_take[OF d] w]) (use cs(1) t in auto)
  finally show ?thesis using cs(2) by simp
qed

section \<open>Reshare is correct\<close>

lemma check_new_set_iff:
  "check_new_set seen js = Inr () \<longleftrightarrow> distinct js \<and> 0 \<notin> set js \<and> set js \<inter> set seen = {}"
  by (induction js arbitrary: seen) auto

lemma check_new_set_error: "check_new_set seen js = Inl e \<Longrightarrow> e \<in> {ErrZeroPartyID, ErrDuplicateNewID}"
  by (induction js arbitrary: seen) (auto split: if_splits)

lemma check_old_dims_iff:
  "check_old_dims n m = Inr () \<longleftrightarrow> (\<forall>(i, sh) \<in> set m. length sh = n \<and> i \<noteq> 0)"
  by (induction m) (auto split: if_splits)

lemma check_old_dims_error: "check_old_dims n m = Inl e \<Longrightarrow> e \<in> {ErrShareDimMismatch, ErrZeroPartyID}"
  by (induction m) (auto split: if_splits)

text \<open>What the guards of \<^verbatim>\<open>Reshare\<close> accept.\<close>

definition reshare_guards :: "shares \<Rightarrow> int \<Rightarrow> int list \<Rightarrow> int \<Rightarrow> bool" where
  "reshare_guards old tOld newSet tNew \<longleftrightarrow>
     1 \<le> tOld \<and> tOld \<le> int (length old) \<and> 1 \<le> tNew \<and> tNew \<le> int (length newSet) \<and>
     distinct newSet \<and> 0 \<notin> set newSet \<and> 0 \<notin> fst ` set old \<and>
     snd (hd old) \<noteq> [] \<and> (\<forall>(i, sh) \<in> set old. length sh = length (snd (hd old)))"

lemma reshare_guards_run:
  assumes "reshare_guards old tOld newSet tNew"
  shows "Reshare rg sysrand old tOld newSet tNew randSource =
    rbind (selectQuorum old tOld) (\<lambda>tStar. rbind (lagrangeAtZero tStar (rModulus rg)) (\<lambda>lambda.
      foldM (reshare_dealer rg old lambda (rModulus rg) (length (snd (hd old))) (nat tNew))
        (map (\<lambda>j. (j, map (\<lambda>p. rNewPoly rg) [0..<length (snd (hd old))])) newSet,
         case randSource of None \<Rightarrow> sysrand | Some rs \<Rightarrow> rs)
        (sortedKeys tStar)))"
proof -
  have "check_new_set [] newSet = Inr ()" "check_old_dims (length (snd (hd old))) old = Inr ()"
    using assms by (force simp: reshare_guards_def check_new_set_iff check_old_dims_iff)+
  moreover have "old \<noteq> []" "newSet \<noteq> []" using assms by (auto simp: reshare_guards_def)
  ultimately show ?thesis
    using assms unfolding Reshare_def reshare_guards_def Let_def
    by (auto intro!: rbind_cong simp: not_less)
qed

lemma Reshare_guards_needed: "Reshare rg sysrand old tOld newSet tNew randSource = Inr r \<Longrightarrow>
    reshare_guards old tOld newSet tNew"
  unfolding Reshare_def Let_def
  by (auto simp: res_simps reshare_guards_def check_new_set_iff check_old_dims_iff not_less
      split: if_splits)

lemma zero_sharing:
  assumes cr: "coeff_ring rg" and t: "1 \<le> t"
  shows "shares_ok (rModulus rg) (rN rg) nVec (map (\<lambda>j. (j, map (\<lambda>p. rNewPoly rg) [0..<nVec])) js)"
    and "is_sharing (rModulus rg) (rN rg) nVec t (map (\<lambda>j. (j, map (\<lambda>p. rNewPoly rg) [0..<nVec])) js)
      (\<lambda>p k. 0 mod rModulus rg)"
proof -
  have v: "pvalid (rModulus rg) (rN rg) (rNewPoly rg)" by (rule coeff_ring.valid_NewPoly[OF cr])
  then show "shares_ok (rModulus rg) (rN rg) nVec (map (\<lambda>j. (j, map (\<lambda>p. rNewPoly rg) [0..<nVec])) js)"
    by (auto simp: shares_ok_def share_ok_def)
  have z: "pcoef (rNewPoly rg) k = 0" if "k < rN rg" for k
    using that by (simp add: coeff_ring.NewPoly[OF cr] pcoef_def)
  have p0: "pval (replicate n 0) x = 0" for n x by (induction n) auto
  show "is_sharing (rModulus rg) (rN rg) nVec t (map (\<lambda>j. (j, map (\<lambda>p. rNewPoly rg) [0..<nVec])) js)
      (\<lambda>p k. 0 mod rModulus rg)"
    unfolding is_sharing_def
    by (intro allI impI exI[of _ "replicate t 0"]) (use t in \<open>auto simp: z p0 simp del: pval_zero\<close>)
qed

text \<open>Partial correctness: whatever \<^verbatim>\<open>Reshare\<close> returns shares the old secret at the new
  threshold among the new committee.\<close>

lemma Reshare_sound:
  assumes cr: "coeff_ring rg" and q: "prime_mod (rModulus rg)"
    and d: "distinct (map (\<lambda>x. x mod rModulus rg) (gokeys old))" and wf: "gomap_wf old"
    and sh: "is_sharing (rModulus rg) (rN rg) (length (snd (hd old))) (nat tOld) old s"
    and run: "Reshare rg sysrand old tOld newSet tNew randSource = Inr (new, rs')"
  shows "gokeys new = newSet \<and> shares_ok (rModulus rg) (rN rg) (length (snd (hd old))) new \<and>
    is_sharing (rModulus rg) (rN rg) (length (snd (hd old))) (nat tNew) new s"
proof -
  let ?q = "rModulus rg" and ?N = "rN rg" and ?n = "length (snd (hd old))"
  note g = Reshare_guards_needed[OF run]
  have t: "1 \<le> tOld" "tOld \<le> int (length old)" "1 \<le> nat tNew"
    using g by (auto simp: reshare_guards_def)
  obtain qm where qm: "selectQuorum old tOld = Inr qm" "gomap_wf qm"
    "sortedMapKeys qm = take (nat tOld) (sortedMapKeys old)"
    using selectQuorum_ok[OF wf t(2)] by metis
  have "distinct (map (\<lambda>x. x mod ?q) (gokeys qm))"
    using distinct_mod_take[OF d, of "nat tOld"] qm(3)
    by (metis mset_map mset_eq_imp_distinct_iff mset_insertion_sort sortedMapKeys_def)
  then obtain lam where lam: "lagrangeAtZero qm ?q = Inr lam"
    "lagrange_weights ?q (sortedMapKeys qm) (\<lambda>i. the (map_of lam i))"
    using lagrangeAtZero_ok[OF q] by metis
  let ?init = "map (\<lambda>j. (j, map (\<lambda>p. rNewPoly rg) [0..<?n])) newSet"
  have st: "foldM (reshare_dealer rg old lam ?q ?n (nat tNew))
      (?init, case randSource of None \<Rightarrow> sysrand | Some rs \<Rightarrow> rs) (sortedMapKeys qm) = Inr (new, rs')"
    using run by (simp add: reshare_guards_run[OF g] qm(1) lam(1) sortedKeys_eq)
  have lk: "\<exists>sh. map_of old i = Some sh \<and> length sh = ?n" if "i \<in> set (sortedMapKeys qm)" for i
  proof -
    have "i \<in> fst ` set old" using that qm(3) by (metis in_set_takeD set_sortedMapKeys)
    then obtain v where v: "map_of old i = Some v" by (metis map_of_eq_None_iff not_None_eq)
    then have "length v = ?n" using g map_of_SomeD[OF v] by (auto simp: reshare_guards_def)
    with v show ?thesis by blast
  qed
  have "gokeys new = gokeys ?init \<and> shares_ok ?q ?N ?n new \<and>
    is_sharing ?q ?N ?n (nat tNew) new
      (\<lambda>p k. (0 + sum_list (map (\<lambda>i. the (map_of lam i) * pcoef (the (map_of old i) ! p) k) (sortedMapKeys qm))) mod ?q)"
    by (rule reshare_dealers[OF cr t(3) lk st zero_sharing[OF cr t(3)]])
  moreover have "(0 + sum_list (map (\<lambda>i. the (map_of lam i) * pcoef (the (map_of old i) ! p) k) (sortedMapKeys qm))) mod ?q
      = s p k" if "p < ?n" "k < ?N" for p k
    using quorum_reconstructs[OF q d t(2,1) sh that] lam(2) by (simp add: qm(3))
  moreover have "gokeys ?init = newSet" by (simp add: comp_def)
  ultimately show ?thesis using is_sharing_cong by (metis (no_types, lifting))
qed

text \<open>The number of field elements a reshare draws.\<close>

definition reshare_draws :: "ring_ops \<Rightarrow> shares \<Rightarrow> int \<Rightarrow> int \<Rightarrow> nat" where
  "reshare_draws rg old tOld tNew =
     nat tOld * (length (snd (hd old)) * ((nat tNew - 1) * rN rg))"

lemma draws_sample_fi:
  assumes "0 < q" shows "draws q (length c0 * ((t - 1) * N)) (sample_fi N t q c0)"
proof (induction c0)
  case Nil
  then show ?case using draws_return by (simp add: draws_def)
next
  case (Cons c c0)
  have d: "draws q ((t - 1) * (N * 1)) (repM (repM (\<lambda>rs. sampleModQ rs q) N) (t - 1))"
    by (intro draws_repM draws_sampleModQ assms)
  have "draws q (length c0 * ((t - 1) * N) + 0) (\<lambda>rs1. rbind (sample_fi N t q c0 rs1)
      (\<lambda>(fi, rs2). Inr ((map (\<lambda>k. uint (hd c ! k)) [0..<N] # rows) # fi, rs2)))" for rows
    by (rule draws_bind[OF Cons.IH draws_return])
  from draws_bind[OF d this] show ?case by simp
qed

lemma draws_reshare_dealer:
  assumes cr: "coeff_ring rg" and sh: "map_of old i = Some sh" "length sh = nVec" "\<forall>p \<in> set sh. poly_has (rN rg) p"
  shows "draws (rModulus rg) (nVec * ((t - 1) * rN rg))
    (\<lambda>rs. reshare_dealer rg old lam (rModulus rg) nVec t (ns, rs) i)"
proof -
  let ?c0 = "map (\<lambda>p. pbuild (rModulus rg) (rN rg) (\<lambda>k. pcoef p k * the (map_of lam i))) sh"
  have "0 < rModulus rg" using coeff_ring.modulus(1)[OF cr] by simp
  from draws_bind[OF draws_sample_fi[OF this, of ?c0 t "rN rg"] draws_return]
  show ?thesis
    by (simp add: reshare_dealer_def scaleShare_ok[OF cr sh(3)] sh case_prod_beta)
qed

lemma draws_foldM:
  assumes "\<And>s i. i \<in> set ds \<Longrightarrow> draws q c (\<lambda>rs. f (s, rs) i)"
  shows "draws q (length ds * c) (\<lambda>rs. foldM f (s, rs) ds)"
  using assms
proof (induction ds arbitrary: s)
  case Nil
  then show ?case by (simp add: draws_return)
next
  case (Cons d ds)
  have "draws q (c + length ds * c) (\<lambda>rs. rbind (f (s, rs) d) (\<lambda>(s', rs'). foldM f (s', rs') ds))"
    by (rule draws_bind) (use Cons in auto)
  moreover have "(\<lambda>(s', rs'). foldM f (s', rs') ds) = (\<lambda>s'. foldM f s' ds)" by auto
  ultimately show ?case by simp
qed

text \<open>Totality: on accepted inputs the run consumes exactly \<open>reshare_draws\<close> accepted
  draws and returns; with fewer in the reader it panics.\<close>

lemma Reshare_draws:
  assumes cr: "coeff_ring rg" and q: "prime_mod (rModulus rg)"
    and d: "distinct (map (\<lambda>x. x mod rModulus rg) (gokeys old))" and wf: "gomap_wf old"
    and g: "reshare_guards old tOld newSet tNew"
    and shape: "\<forall>(i, sh) \<in> set old. \<forall>p \<in> set sh. poly_has (rN rg) p"
  shows "draws (rModulus rg) (reshare_draws rg old tOld tNew)
    (\<lambda>rs. Reshare rg sysrand old tOld newSet tNew (Some rs))"
proof -
  let ?q = "rModulus rg" and ?n = "length (snd (hd old))"
  have t: "tOld \<le> int (length old)" using g by (auto simp: reshare_guards_def)
  obtain qm where qm: "selectQuorum old tOld = Inr qm" "gomap_wf qm"
    "sortedMapKeys qm = take (nat tOld) (sortedMapKeys old)"
    using selectQuorum_ok[OF wf t] by metis
  have "distinct (map (\<lambda>x. x mod ?q) (gokeys qm))"
    using distinct_mod_take[OF d, of "nat tOld"] qm(3)
    by (metis mset_map mset_eq_imp_distinct_iff mset_insertion_sort sortedMapKeys_def)
  then obtain lam where lam: "lagrangeAtZero qm ?q = Inr lam" using lagrangeAtZero_ok[OF q] by metis
  have "draws ?q (length (sortedMapKeys qm) * (?n * ((nat tNew - 1) * rN rg)))
    (\<lambda>rs. foldM (reshare_dealer rg old lam ?q ?n (nat tNew))
      (map (\<lambda>j. (j, map (\<lambda>p. rNewPoly rg) [0..<?n])) newSet, rs) (sortedMapKeys qm))"
  proof (rule draws_foldM)
    fix s i assume "i \<in> set (sortedMapKeys qm)"
    then have "i \<in> fst ` set old" using qm(3) by (metis in_set_takeD set_sortedMapKeys)
    then obtain v where v: "map_of old i = Some v" by (metis map_of_eq_None_iff not_None_eq)
    then have "length v = ?n" "\<forall>p \<in> set v. poly_has (rN rg) p"
      using g shape map_of_SomeD[OF v] by (auto simp: reshare_guards_def)
    then show "draws ?q (?n * ((nat tNew - 1) * rN rg))
        (\<lambda>rs. reshare_dealer rg old lam ?q ?n (nat tNew) (s, rs) i)"
      by (rule draws_reshare_dealer[OF cr v])
  qed
  moreover have "length (sortedMapKeys qm) = nat tOld" using qm(3) t by simp
  ultimately show ?thesis
    by (simp only: reshare_guards_run[OF g] qm(1) lam rbind.simps option.case sortedKeys_eq reshare_draws_def)
qed

section \<open>Verify reconstructs the secret\<close>

lemma reshare_Verify_ok:
  assumes cr: "coeff_ring rg" and q: "prime_mod (rModulus rg)"
    and d: "distinct (map (\<lambda>x. x mod rModulus rg) (gokeys m))" and wf: "gomap_wf m"
    and t: "1 \<le> t" "t \<le> int (length m)"
    and ok: "shares_ok (rModulus rg) (rN rg) nVec m"
    and sh: "is_sharing (rModulus rg) (rN rg) nVec (nat t) m s"
  shows "reshare_Verify rg m t = Inr (map (\<lambda>p. pbuild (rModulus rg) (rN rg) (s p)) [0..<nVec])"
proof -
  let ?q = "rModulus rg" and ?N = "rN rg" and ?K = "take (nat t) (sortedMapKeys m)"
  obtain qm where qm: "selectQuorum m t = Inr qm" "gomap_wf qm" "set qm \<subseteq> set m"
    "sortedMapKeys qm = ?K" "\<And>i. i \<in> set ?K \<Longrightarrow> map_of qm i = map_of m i"
    using selectQuorum_ok[OF wf t(2)] by metis
  have "distinct (map (\<lambda>x. x mod ?q) (gokeys qm))"
    using distinct_mod_take[OF d, of "nat t"] qm(4)
    by (metis mset_map mset_eq_imp_distinct_iff mset_insertion_sort sortedMapKeys_def)
  then obtain lam where lam: "lagrangeAtZero qm ?q = Inr lam"
    "lagrange_weights ?q ?K (\<lambda>i. the (map_of lam i))"
    using lagrangeAtZero_ok[OF q] qm(4) by metis
  have "length qm = nat t" using qm(4) t by (metis length_sortedMapKeys length_take min.absorb2 nat_int nat_mono)
  then have ne: "qm \<noteq> []" using t by auto
  have okq: "share_ok ?q ?N nVec sh" if "(i, sh) \<in> set qm" for i sh
    using that qm(3) ok by (auto simp: shares_ok_def)
  have nv: "(case qm of [] \<Rightarrow> 0 | (_, sh) # _ \<Rightarrow> length sh) = nVec"
    using ne okq by (cases qm) (auto simp: share_ok_def)
  have has: "p < length (the (map_of qm i)) \<and> poly_has ?N (the (map_of qm i) ! p)"
    if "i \<in> set ?K" "p < nVec" for i p
  proof -
    have "i \<in> fst ` set qm" using that(1) qm(4) by (metis set_sortedMapKeys)
    then obtain v where v: "map_of qm i = Some v" by (metis map_of_eq_None_iff not_None_eq)
    then have "share_ok ?q ?N nVec v" by (intro okq map_of_SomeD)
    then show ?thesis using v that(2) pvalid_has by (auto simp: share_ok_def)
  qed
  have coef: "foldl (\<lambda>acc i. acc + the (map_of lam i) * uint (hd (the (map_of qm i) ! p) ! k)) 0 ?K mod ?q
      = s p k mod ?q" if pk: "p < nVec" "k < ?N" for p k
  proof -
    have "foldl (\<lambda>acc i. acc + the (map_of lam i) * uint (hd (the (map_of qm i) ! p) ! k)) 0 ?K
      = sum_list (map (\<lambda>i. the (map_of lam i) * pcoef (the (map_of m i) ! p) k) ?K)"
      by (simp add: foldl_add_sum_list pcoef_def qm(5) cong: map_cong)
    moreover have "s p k mod ?q = s p k"
      using sh pk unfolding is_sharing_def by (metis mod_mod_trivial)
    ultimately show ?thesis using quorum_reconstructs[OF q d t(2,1) sh pk lam(2)] by simp
  qed
  have "mapM (\<lambda>p. if \<forall>i \<in> set ?K. p < length (the (map_of qm i)) \<and> poly_has ?N (the (map_of qm i) ! p)
      then Inr (set_level0 (rNewPoly rg) (map (\<lambda>k. word_of_int
        (foldl (\<lambda>acc i. acc + the (map_of lam i) * uint (hd (the (map_of qm i) ! p) ! k)) 0 ?K mod ?q)) [0..<?N]))
      else Inl Panic) [0..<nVec] = Inr (map (\<lambda>p. pbuild ?q ?N (s p)) [0..<nVec])"
    by (rule mapM_all_Inr) (use has coef in \<open>auto simp: set_level0_NewPoly[OF cr] intro!: pbuild_cong\<close>)
  then show ?thesis
    using t(2) unfolding reshare_Verify_def Let_def
    by (simp only: qm(1) rbind.simps lam(1) nv sortedKeys_eq qm(4) not_less[symmetric] if_False)
qed

section \<open>Refresh is correct\<close>

lemma check_refresh_dims_iff:
  "0 < n \<Longrightarrow> check_refresh_dims n m = Inr n' \<longleftrightarrow>
     n' = n \<and> (\<forall>(i, sh) \<in> set m. i \<noteq> 0 \<and> length sh = n)"
  by (induction m) (auto split: if_splits)

lemma check_refresh_dims_0_iff:
  "m \<noteq> [] \<Longrightarrow> check_refresh_dims 0 m = Inr n \<longleftrightarrow>
     n = length (snd (hd m)) \<and> 0 < n \<and> (\<forall>(i, sh) \<in> set m. i \<noteq> 0 \<and> length sh = n)"
proof -
  assume "m \<noteq> []"
  then obtain i sh m' where m: "m = (i, sh) # m'" by (cases m) auto
  show ?thesis
  proof (cases "sh = [] \<or> i = 0")
    case True
    then show ?thesis by (auto simp: m)
  next
    case False
    then show ?thesis by (auto simp: m check_refresh_dims_iff)
  qed
qed

lemma copy_share_ok:
  assumes "coeff_ring rg" "share_ok q (rN rg) nVec sh"
  shows "copy_share rg sh = Inr sh"
proof -
  have "copy_level0 (rNewPoly rg) p = p \<and> p \<noteq> []" if "pvalid q (rN rg) p" for p
    using that by (cases p) (auto simp: pvalid_def copy_level0_def set_level0_def coeff_ring.NewPoly[OF assms(1)])
  then have "copy_share rg sh = Inr (map (\<lambda>p. p) sh)"
    unfolding copy_share_def using assms(2)
    by (intro mapM_all_Inr) (auto simp: share_ok_def in_set_conv_nth)
  then show ?thesis by simp
qed

definition refresh_guards :: "shares \<Rightarrow> int \<Rightarrow> bool" where
  "refresh_guards m t \<longleftrightarrow> 1 \<le> t \<and> t \<le> int (length m) \<and> 0 \<notin> fst ` set m \<and>
     snd (hd m) \<noteq> [] \<and> (\<forall>(i, sh) \<in> set m. length sh = length (snd (hd m)))"

lemma Refresh_guards_needed: "Refresh rg sysrand m t randSource = Inr r \<Longrightarrow> refresh_guards m t"
  unfolding Refresh_def Let_def
  by (auto simp: res_simps refresh_guards_def check_refresh_dims_0_iff not_less split: if_splits)

text \<open>The shares the loop starts from: a copy of the input, keyed in sorted order.\<close>

definition refresh_init :: "shares \<Rightarrow> shares" where
  "refresh_init m = map (\<lambda>j. (j, the (map_of m j))) (sortedMapKeys m)"

lemma set_refresh_init: "gomap_wf m \<Longrightarrow> set (refresh_init m) = set m"
  by (force simp: refresh_init_def)

lemma refresh_guards_run:
  assumes cr: "coeff_ring rg" and g: "refresh_guards m t" and wf: "gomap_wf m"
    and ok: "shares_ok q (rN rg) (length (snd (hd m))) m"
  shows "Refresh rg sysrand m t randSource =
    (let rs = (case randSource of None \<Rightarrow> sysrand | Some rs \<Rightarrow> rs) in
     if t = 1 then Inr (refresh_init m, rs)
     else foldM (refresh_dealer rg (rModulus rg) (length (snd (hd m))) (nat t)) (refresh_init m, rs) (sortedMapKeys m))"
proof -
  have ne: "m \<noteq> []" using g by (auto simp: refresh_guards_def)
  have dims: "check_refresh_dims 0 m = Inr (length (snd (hd m)))"
    using g unfolding check_refresh_dims_0_iff[OF ne] by (force simp: refresh_guards_def)
  have "copy_share rg (the (map_of m j)) = Inr (the (map_of m j))" if "j \<in> set (sortedMapKeys m)" for j
  proof -
    have "j \<in> fst ` set m" using that by simp
    then obtain v where "map_of m j = Some v" by (metis map_of_eq_None_iff not_None_eq)
    moreover from this have "share_ok q (rN rg) (length (snd (hd m))) v"
      using ok by (auto simp: shares_ok_def dest: map_of_SomeD)
    ultimately show ?thesis using copy_share_ok[OF cr] by simp
  qed
  then have "mapM (\<lambda>j. rbind (copy_share rg (the (map_of m j))) (\<lambda>v. Inr (j, v))) (sortedMapKeys m)
      = Inr (refresh_init m)"
    unfolding refresh_init_def by (intro mapM_all_Inr) simp
  then show ?thesis
    using g ne dims by (simp add: Refresh_def Let_def refresh_guards_def)
qed

lemma refresh_dealer_step:
  assumes cr: "coeff_ring rg" and t: "2 \<le> t"
    and st: "refresh_dealer rg (rModulus rg) nVec t (ns, rs) i = Inr (ns', rs')"
    and ok: "shares_ok (rModulus rg) (rN rg) nVec ns"
    and sh: "is_sharing (rModulus rg) (rN rg) nVec t ns (\<lambda>p k. S p k mod rModulus rg)"
  shows "gokeys ns' = gokeys ns \<and> shares_ok (rModulus rg) (rN rg) nVec ns' \<and>
    is_sharing (rModulus rg) (rN rg) nVec t ns' (\<lambda>p k. S p k mod rModulus rg)"
proof -
  let ?q = "rModulus rg" and ?N = "rN rg"
  have q: "1 < ?q" "?q \<le> 2 ^ 64" using coeff_ring.q_simps[OF cr] by auto
  obtain z where z: "repM (repM (repM (\<lambda>rs. sampleModQ rs ?q) ?N) nVec) (t - 1) rs = Inr (z, rs')"
    and ns': "ns' = map (\<lambda>(j, sh). (j, map (\<lambda>p. set_level0 (sh ! p) (map (\<lambda>k. word_of_int
      ((uint (hd (sh ! p) ! k) + zero_poly_at ?q j (map (\<lambda>zd. zd ! p ! k) z)) mod ?q)) [0..<?N])) [0..<nVec])) ns"
    using st by (auto simp: refresh_dealer_def res_simps)
  have lz: "length z = t - 1" by (rule repM_length[OF z])
  define F where "F p k = 0 # map (\<lambda>zd. zd ! p ! k) z" for p k
  let ?g = "\<lambda>j sh. map (\<lambda>p. pbuild ?q ?N (\<lambda>k. pcoef (sh ! p) k + zero_poly_at ?q j (map (\<lambda>zd. zd ! p ! k) z))) [0..<nVec]"
  have ns2: "ns' = map (\<lambda>(j, sh). (j, ?g j sh)) ns"
    unfolding ns' pcoef_def
    by (intro map_cong refl) (use ok in \<open>fastforce simp: shares_ok_def share_ok_def pvalid_def intro!: set_level0_pbuild\<close>)
  have "is_sharing ?q ?N nVec t ns' (\<lambda>p k. (S p k + pval (F p k) 0) mod ?q)"
    unfolding ns2
  proof (rule is_sharing_add[OF sh])
    fix p k assume "p < nVec" "k < ?N"
    then show "length (F p k) = t" using lz t by (simp add: F_def)
  next
    fix p k j s assume pk: "p < nVec" "k < ?N"
    have "map (\<lambda>zd. zd ! p ! k) z \<noteq> []" using lz t by auto
    then have "zero_poly_at ?q j (map (\<lambda>zd. zd ! p ! k) z) = pval (F p k) j mod ?q"
      unfolding F_def by (rule zero_poly_at_spec)
    then show "pcoef (?g j s ! p) k = (pcoef (s ! p) k + pval (F p k) j) mod ?q"
      using pk q by (simp add: mod_add_right_eq)
  qed
  moreover have "shares_ok ?q ?N nVec ns'"
    unfolding ns2 using ok by (rule shares_ok_map) (use q in \<open>simp add: share_ok_def\<close>)
  moreover have "gokeys ns' = gokeys ns" unfolding ns2 by (rule gokeys_map_snd)
  ultimately show ?thesis by (simp add: F_def)
qed

lemma Refresh_sound:
  assumes cr: "coeff_ring rg" and wf: "gomap_wf m"
    and ok: "shares_ok (rModulus rg) (rN rg) (length (snd (hd m))) m"
    and sh: "is_sharing (rModulus rg) (rN rg) (length (snd (hd m))) (nat t) m s"
    and run: "Refresh rg sysrand m t randSource = Inr (new, rs')"
  shows "gokeys new = sortedMapKeys m \<and> shares_ok (rModulus rg) (rN rg) (length (snd (hd m))) new \<and>
    is_sharing (rModulus rg) (rN rg) (length (snd (hd m))) (nat t) new s"
proof -
  let ?q = "rModulus rg" and ?N = "rN rg" and ?n = "length (snd (hd m))"
  note g = Refresh_guards_needed[OF run]
  have smod: "s p k = s p k mod ?q" if "p < ?n" "k < ?N" for p k
    using sh that unfolding is_sharing_def by (metis mod_mod_trivial)
  let ?P = "\<lambda>(ns, rs :: bytes). gokeys ns = sortedMapKeys m \<and> shares_ok ?q ?N ?n ns \<and>
      is_sharing ?q ?N ?n (nat t) ns (\<lambda>p k. s p k mod ?q)"
  have init: "?P (refresh_init m, rs)" for rs
  proof -
    have "is_sharing ?q ?N ?n (nat t) (refresh_init m) s"
      using sh by (simp add: is_sharing_def set_refresh_init[OF wf])
    then have "is_sharing ?q ?N ?n (nat t) (refresh_init m) (\<lambda>p k. s p k mod ?q)"
      by (rule is_sharing_cong) (rule smod)
    then show ?thesis
      using ok by (simp add: shares_ok_def set_refresh_init[OF wf]) (simp add: refresh_init_def comp_def)
  qed
  have "?P (new, rs')"
  proof (cases "t = 1")
    case True
    then have "new = refresh_init m"
      using run unfolding refresh_guards_run[OF cr g wf ok] Let_def by simp
    then show ?thesis using init by simp
  next
    case False
    then have t: "2 \<le> nat t" using g by (auto simp: refresh_guards_def)
    have st: "foldM (refresh_dealer rg ?q ?n (nat t)) (refresh_init m,
        case randSource of None \<Rightarrow> sysrand | Some rs \<Rightarrow> rs) (sortedMapKeys m) = Inr (new, rs')"
      using run False by (simp add: refresh_guards_run[OF cr g wf ok] Let_def)
    show ?thesis
      by (rule foldM_inv[where P = ?P, OF st init])
         (auto dest: refresh_dealer_step[OF cr t])
  qed
  then show ?thesis using is_sharing_cong[of ?q ?N ?n "nat t" new "\<lambda>p k. s p k mod ?q" s] smod by simp
qed

text \<open>Refresh draws \<open>t - 1\<close> rows per party, and nothing at threshold 1.\<close>

definition refresh_draws :: "ring_ops \<Rightarrow> shares \<Rightarrow> int \<Rightarrow> nat" where
  "refresh_draws rg m t = length m * ((nat t - 1) * (length (snd (hd m)) * rN rg))"

lemma Refresh_draws:
  assumes cr: "coeff_ring rg" and wf: "gomap_wf m" and g: "refresh_guards m t"
    and ok: "shares_ok (rModulus rg) (rN rg) (length (snd (hd m))) m"
  shows "draws (rModulus rg) (refresh_draws rg m t) (\<lambda>rs. Refresh rg sysrand m t (Some rs))"
proof -
  let ?q = "rModulus rg" and ?n = "length (snd (hd m))"
  have q: "0 < ?q" using coeff_ring.modulus(1)[OF cr] by simp
  show ?thesis
  proof (cases "t = 1")
    case True
    then show ?thesis
      unfolding refresh_guards_run[OF cr g wf ok] Let_def refresh_draws_def by (simp add: draws_return)
  next
    case False
    have "draws ?q (length (sortedMapKeys m) * ((nat t - 1) * (?n * rN rg)))
      (\<lambda>rs. foldM (refresh_dealer rg ?q ?n (nat t)) (refresh_init m, rs) (sortedMapKeys m))"
    proof (rule draws_foldM)
      fix s i
      have "draws ?q ((nat t - 1) * (?n * (rN rg * 1)))
        (repM (repM (repM (\<lambda>rs. sampleModQ rs ?q) (rN rg)) ?n) (nat t - 1))"
        by (intro draws_repM draws_sampleModQ q)
      from draws_bind[OF this draws_return]
      show "draws ?q ((nat t - 1) * (?n * rN rg)) (\<lambda>rs. refresh_dealer rg ?q ?n (nat t) (s, rs) i)"
        by (simp add: refresh_dealer_def)
    qed
    then show ?thesis using False by (simp add: refresh_guards_run[OF cr g wf ok] Let_def refresh_draws_def)
  qed
qed

section \<open>Order of iteration and errors\<close>

lemma sortedMapKeys_perm: "mset m' = mset m \<Longrightarrow> sortedMapKeys m' = sortedMapKeys m"
  unfolding sortedMapKeys_def by (rule insertion_sort_cong) (metis mset_map)

lemma reshare_guards_perm:
  assumes "mset m' = mset m" "reshare_guards m a js b"
  shows "reshare_guards m' a js b \<and> length (snd (hd m')) = length (snd (hd m))"
proof -
  have e: "set m' = set m" "length m' = length m"
    using assms(1) by (metis set_mset_mset, metis size_mset)
  have "m \<noteq> []" using assms(2) by (auto simp: reshare_guards_def)
  then have "m' \<noteq> []" using e by auto
  then have "hd m' \<in> set m" using e by (metis hd_in_set)
  then have "length (snd (hd m')) = length (snd (hd m))"
    using assms(2) by (fastforce simp: reshare_guards_def case_prod_beta)
  then show ?thesis using assms(2) e by (auto simp: reshare_guards_def)
qed

lemma Reshare_perm:
  assumes wf: "gomap_wf old" and perm: "mset old' = mset old"
    and run: "Reshare rg sysrand old tOld newSet tNew randSource = Inr r"
  shows "Reshare rg sysrand old' tOld newSet tNew randSource = Inr r"
proof -
  note g = Reshare_guards_needed[OF run]
  note g' = reshare_guards_perm[OF perm g]
  have wf': "gomap_wf old'" using wf perm by (metis mset_eq_imp_distinct_iff mset_map)
  have t: "tOld \<le> int (length old)" "tOld \<le> int (length old')"
    using g g' by (auto simp: reshare_guards_def)
  obtain qm where qm: "selectQuorum old tOld = Inr qm" "sortedMapKeys qm = take (nat tOld) (sortedMapKeys old)"
    using selectQuorum_ok[OF wf t(1)] by metis
  obtain qm' where qm': "selectQuorum old' tOld = Inr qm'" "sortedMapKeys qm' = take (nat tOld) (sortedMapKeys old')"
    using selectQuorum_ok[OF wf' t(2)] by metis
  have k: "sortedMapKeys qm' = sortedMapKeys qm" using qm qm' sortedMapKeys_perm[OF perm] by simp
  have "lagrangeAtZero qm' q = lagrangeAtZero qm q" for q unfolding lagrangeAtZero_def k ..
  moreover have "reshare_dealer rg old' = reshare_dealer rg old"
    unfolding reshare_dealer_def map_of_perm[OF wf perm] ..
  ultimately show ?thesis
    using run unfolding reshare_guards_run[OF g] reshare_guards_run[OF conjunct1[OF g']]
    by (simp only: qm(1) qm'(1) rbind.simps sortedKeys_eq k conjunct2[OF g'])
qed

text \<open>In \<open>Reshare\<close> one list gives the order of both loops over the old shares, the one that takes the
  dimension from the first share it meets and the one that checks all of them. The source may visit them
  in two orders: here the second loop visits them as \<open>visited\<close> has them, and \<open>Reshare\<close> is the case of one order.\<close>

definition Reshare_visits ::
  "ring_ops \<Rightarrow> bytes \<Rightarrow> shares \<Rightarrow> shares \<Rightarrow> int \<Rightarrow> int list \<Rightarrow> int \<Rightarrow> bytes option \<Rightarrow> (shares \<times> bytes) res"
where
  "Reshare_visits rg sysrand oldShares visited tOld newSet tNew randSource =
     (let rs = (case randSource of None \<Rightarrow> sysrand | Some rs \<Rightarrow> rs) in
      if tOld < 1 then Inl ErrInvalidThresholdOld
      else if tNew < 1 then Inl ErrInvalidThresholdNew
      else if oldShares = [] then Inl ErrEmptyOldShares
      else if newSet = [] then Inl ErrEmptyNewSet
      else if int (length oldShares) < tOld then Inl ErrTOldShortfall
      else if int (length newSet) < tNew then Inl ErrTNewExceedsNewSet
      else
        rbind (check_new_set [] newSet) (\<lambda>_.
        rbind (selectQuorum oldShares tOld) (\<lambda>tStar.
        let nVec = length (snd (hd oldShares)) in
        if nVec = 0 then Inl ErrShareDimMismatch
        else
          rbind (check_old_dims nVec visited) (\<lambda>_.
          let q = rModulus rg in
          rbind (lagrangeAtZero tStar q) (\<lambda>lambda.
          foldM (reshare_dealer rg oldShares lambda q nVec (nat tNew))
            (map (\<lambda>j. (j, map (\<lambda>p. rNewPoly rg) [0..<nVec])) newSet, rs)
            (sortedKeys tStar))))))"

lemma Reshare_one_order: "Reshare_visits rg sysrand old old = Reshare rg sysrand old"
  by (intro ext) (simp only: Reshare_visits_def Reshare_def)

lemma check_old_dims_visits:
  assumes "set visited = set old"
  obtains "check_old_dims n visited = check_old_dims n old"
  | e e' where "check_old_dims n visited = Inl e" "check_old_dims n old = Inl e'"
      "{e, e'} \<subseteq> {ErrShareDimMismatch, ErrZeroPartyID}"
proof (cases "check_old_dims n old = Inr ()")
  case True
  then have "check_old_dims n visited = Inr ()" using assms by (simp add: check_old_dims_iff)
  then show ?thesis using True that(1) by simp
next
  case False
  then have "check_old_dims n visited \<noteq> Inr ()" using assms by (simp add: check_old_dims_iff)
  with False obtain e e' where "check_old_dims n visited = Inl e" "check_old_dims n old = Inl e'"
    by (cases "check_old_dims n old"; cases "check_old_dims n visited") auto
  with check_old_dims_error show ?thesis by (intro that(2)) auto
qed

text \<open>A second order changes nothing but which of the two errors of the check is reported.\<close>

lemma Reshare_visits_outcome:
  assumes "set visited = set old"
  shows "Reshare_visits rg sysrand old visited tOld newSet tNew src = Reshare rg sysrand old tOld newSet tNew src \<or>
    (\<exists>e e'. Reshare_visits rg sysrand old visited tOld newSet tNew src = Inl e \<and>
       Reshare rg sysrand old tOld newSet tNew src = Inl e' \<and> {e, e'} \<subseteq> {ErrShareDimMismatch, ErrZeroPartyID})"
proof -
  let ?n = "length (snd (hd old))"
  show ?thesis
  proof (rule check_old_dims_visits[OF assms, of ?n])
    assume "check_old_dims ?n visited = check_old_dims ?n old"
    then show ?thesis unfolding Reshare_visits_def Reshare_def Let_def by (simp only: simp_thms)
  next
    fix e e'
    assume "check_old_dims ?n visited = Inl e" "check_old_dims ?n old = Inl e'"
      "{e, e'} \<subseteq> {ErrShareDimMismatch, ErrZeroPartyID}"
    then show ?thesis
      unfolding Reshare_visits_def Reshare_def Let_def
      by (cases "check_new_set [] newSet"; cases "selectQuorum old tOld") auto
  qed
qed

text \<open>Past its guards a reshare can only fail by a panic: a malformed polynomial, ids
  that collide modulo \<open>q\<close>, or a reader that runs dry.\<close>

lemma sampleModQ_error: "sampleModQ rs q = Inl e \<Longrightarrow> e \<in> {Panic, Diverge}"
  by (induction rs q rule: sampleModQ.induct)
     (subst (asm) (2) sampleModQ.simps, auto simp: Let_def split: if_splits)

lemma sample_fi_error: "sample_fi N t q c0 rs = Inl e \<Longrightarrow> e \<in> {Panic, Diverge}"
proof (induction c0 arbitrary: rs)
  case (Cons c c0)
  then show ?case
    by (auto simp: rbind_Inl_iff dest!: repM_error sampleModQ_error)
qed simp

lemma reshare_dealer_error: "reshare_dealer rg old lam q n t st i = Inl e \<Longrightarrow> e \<in> {Panic, Diverge}"
  by (cases st)
     (auto simp: reshare_dealer_def rbind_Inl_iff scaleShare_def
       dest!: mapM_error sample_fi_error split: if_splits)

lemma lagrangeAtZero_error: "lagrangeAtZero m q = Inl e \<Longrightarrow> e = Panic"
  by (auto simp: lagrangeAtZero_def Let_def dest!: mapM_error split: prod.splits option.splits)

lemma reshare_run_error:
  "reshare_guards old tOld newSet tNew \<Longrightarrow>
   Reshare rg sysrand old tOld newSet tNew randSource = Inl e \<Longrightarrow> e \<in> {Panic, Diverge}"
  by (auto simp: reshare_guards_run rbind_Inl_iff selectQuorum_def Let_def
      dest!: foldM_error reshare_dealer_error lagrangeAtZero_error split: if_splits)

lemma reshare_guard_error:
  assumes "\<not> reshare_guards old tOld newSet tNew" "gomap_wf old"
  shows "\<exists>e. Reshare rg sysrand old tOld newSet tNew randSource = Inl e \<and> e \<notin> {Panic, Diverge}"
proof (rule ccontr)
  assume n: "\<not> ?thesis"
  let ?R = "Reshare rg sysrand old tOld newSet tNew randSource"
  have "?R \<noteq> Inr r" for r using assms(1) Reshare_guards_needed by blast
  then have e: "?R \<in> {Inl Panic, Inl Diverge}" using n by (cases ?R) auto
  then have c: "1 \<le> tOld" "1 \<le> tNew" "old \<noteq> []" "newSet \<noteq> []" "tOld \<le> int (length old)" "tNew \<le> int (length newSet)"
    by (auto simp: Reshare_def Let_def split: if_splits)
  obtain qm where qm: "selectQuorum old tOld = Inr qm" using selectQuorum_ok[OF assms(2) c(5)] by metis
  have new: "check_new_set [] newSet = Inr ()"
    using e c check_new_set_error[of "[]" newSet]
    by (cases "check_new_set [] newSet") (auto simp: Reshare_def Let_def)
  have ne: "snd (hd old) \<noteq> []"
    using e c qm new by (auto simp: Reshare_def Let_def)
  have "check_old_dims (length (snd (hd old))) old = Inr ()"
    using e c qm new ne check_old_dims_error[of "length (snd (hd old))" old]
    by (cases "check_old_dims (length (snd (hd old))) old") (auto simp: Reshare_def Let_def)
  then have "reshare_guards old tOld newSet tNew"
    using c ne new by (auto simp: reshare_guards_def check_old_dims_iff check_new_set_iff)
  then show False using assms(1) by simp
qed

section \<open>Properties\<close>

text \<open>
  C1: proactive resharing is correct and total. Let the old share map hold a
  \<open>t_old\<close>-sharing of a secret vector under ids that are distinct modulo the prime
  ring modulus, let the guards of \<^verbatim>\<open>Reshare\<close> hold, and let the reader hold at least
  \<open>t_old * nVec * (t_new - 1) * N\<close> draws that the rejection sampler accepts. Then
  \<^verbatim>\<open>Reshare\<close> returns a share for exactly the new committee, every share is a vector of
  reduced polynomials, and the new map is a \<open>t_new\<close>-sharing of the same secret.
\<close>

theorem reshare_correct:
  assumes "coeff_ring rg" "prime_mod (rModulus rg)" "gomap_wf old"
    and "distinct (map (\<lambda>x. x mod rModulus rg) (gokeys old))"
    and "reshare_guards old tOld newSet tNew"
    and "\<forall>(i, sh) \<in> set old. \<forall>p \<in> set sh. poly_has (rN rg) p"
    and "is_sharing (rModulus rg) (rN rg) (length (snd (hd old))) (nat tOld) old s"
    and "reshare_draws rg old tOld tNew \<le> accepted (rModulus rg) rs"
  shows "\<exists>new rs'. Reshare rg sysrand old tOld newSet tNew (Some rs) = Inr (new, rs') \<and>
    gokeys new = newSet \<and>
    shares_ok (rModulus rg) (rN rg) (length (snd (hd old))) new \<and>
    is_sharing (rModulus rg) (rN rg) (length (snd (hd old))) (nat tNew) new s"
proof -
  have "draws (rModulus rg) (reshare_draws rg old tOld tNew) (\<lambda>rs. Reshare rg sysrand old tOld newSet tNew (Some rs))"
    by (rule Reshare_draws[OF assms(1,2,4,3,5,6)])
  then obtain new rs' where r: "Reshare rg sysrand old tOld newSet tNew (Some rs) = Inr (new, rs')"
    using assms(8) unfolding draws_def by blast
  with Reshare_sound[OF assms(1,2,4,3,7) r] show ?thesis by blast
qed

text \<open>A committee of three holding a 2-sharing of the ring element \<open>5 + 7 X\<close>, and a
  reader with four accepted draws.\<close>

definition ex_old :: shares where
  "ex_old = [(2, [[[7, 11]]]), (1, [[[6, 9]]]), (3, [[[8, 13]]])]"

definition ex_rs :: bytes where
  "ex_rs = be_bytes 7 3 @ be_bytes 7 4 @ be_bytes 7 5 @ be_bytes 7 6"

definition ex_secret :: "nat \<Rightarrow> nat \<Rightarrow> int" where
  "ex_secret p k = (if k = 0 then 5 else 7)"

lemma byte_len_corona_q [simp]: "byte_len corona_q = 7"
  by (simp add: byte_len.simps corona_q_def)

lemma accepted_be_bytes:
  assumes "int v < corona_q" shows "accepted corona_q (be_bytes 7 v @ rs) = Suc (accepted corona_q rs)"
proof -
  have "v < 256 ^ 7" using assms by (simp add: corona_q_def)
  then have "be_val (be_bytes 7 v) = v" by (simp add: be_val_be_bytes)
  then show ?thesis using assms by (simp add: accepted.simps[of corona_q "be_bytes 7 v @ rs"])
qed

lemma ex_old_facts:
  "gomap_wf ex_old" "distinct (map (\<lambda>x. x mod corona_q) (gokeys ex_old))"
  "length (snd (hd ex_old)) = Suc 0" "length ex_old = 3"
  "reshare_guards ex_old 2 [4, 9] 2" "refresh_guards ex_old 2"
  "\<forall>(i, sh) \<in> set ex_old. \<forall>p \<in> set sh. poly_has 2 p"
  "shares_ok corona_q 2 (Suc 0) ex_old"
  by (simp_all add: ex_old_def corona_q_def reshare_guards_def refresh_guards_def poly_has_def
      shares_ok_def share_ok_def pvalid_def)

lemma ex_old_sharing: "is_sharing corona_q 2 (Suc 0) 2 ex_old ex_secret"
  unfolding is_sharing_def
proof (intro allI impI)
  fix p k :: nat assume "p < Suc 0" "k < 2"
  then have "p = 0" "k = 0 \<or> k = 1" by auto
  then show "\<exists>cs. length cs = 2 \<and> pval cs 0 mod corona_q = ex_secret p k \<and>
      (\<forall>(j, sh) \<in> set ex_old. pcoef (sh ! p) k = pval cs j mod corona_q)"
    by (intro exI[of _ "[ex_secret p k, if k = 0 then 1 else 2]"])
       (auto simp: ex_secret_def ex_old_def corona_q_def pcoef_def)
qed

lemma ex_rs_accepted: "4 \<le> accepted corona_q ex_rs"
proof -
  have "3 < corona_q" "4 < corona_q" "5 < corona_q" "6 < corona_q" by (simp_all add: corona_q_def)
  then show ?thesis
    using accepted_be_bytes[of 6 "[]"] by (simp add: ex_rs_def accepted_be_bytes)
qed

lemmas ex_reshare_facts = ref.coeff_ring_axioms corona_q_prime ex_old_facts ex_old_sharing ex_rs_accepted

lemma ex_reshare_one: "\<exists>new rs'. Reshare ref_ring [] ex_old 2 [4] 1 (Some []) = Inr (new, rs')"
proof -
  have g: "reshare_guards ex_old 2 [4] 1" by (simp add: ex_old_def reshare_guards_def)
  have "draws corona_q (reshare_draws ref_ring ex_old 2 1) (\<lambda>rs. Reshare ref_ring [] ex_old 2 [4] 1 (Some rs))"
    using Reshare_draws[of ref_ring ex_old 2 "[4]" 1 "[]"] g
    by (simp add: ex_reshare_facts ex_old_facts(2)[simplified])
  then show ?thesis unfolding draws_def reshare_draws_def by fastforce
qed

theorem reshare_correct_witness:
  "\<exists>new rs'. Reshare ref_ring [] ex_old 2 [4, 9] 2 (Some ex_rs) = Inr (new, rs') \<and>
    gokeys new = [4, 9] \<and> shares_ok corona_q 2 1 new \<and> is_sharing corona_q 2 1 2 new ex_secret"
  using reshare_correct[of ref_ring ex_old 2 "[4, 9]" 2 ex_secret ex_rs "[]"]
  by (simp add: ex_reshare_facts ex_old_facts(2)[simplified] reshare_draws_def)

text \<open>
  C2: the secret survives. If the reconstruction routine returns a secret from the old
  shares at the old threshold, then after a successful \<^verbatim>\<open>Reshare\<close> it returns the same
  vector from the new shares at the new threshold.
\<close>

theorem reshare_keeps_secret:
  assumes "coeff_ring rg" "prime_mod (rModulus rg)" "gomap_wf old"
    and "distinct (map (\<lambda>x. x mod rModulus rg) (gokeys old))"
    and "distinct (map (\<lambda>x. x mod rModulus rg) newSet)"
    and "shares_ok (rModulus rg) (rN rg) (length (snd (hd old))) old"
    and "is_sharing (rModulus rg) (rN rg) (length (snd (hd old))) (nat tOld) old s"
    and "Reshare rg sysrand old tOld newSet tNew randSource = Inr (new, rs')"
  shows "\<exists>secret. reshare_Verify rg old tOld = Inr secret \<and> reshare_Verify rg new tNew = Inr secret"
proof -
  note g = Reshare_guards_needed[OF assms(8)]
  note new = Reshare_sound[OF assms(1,2,4,3,7,8)]
  have keys: "gokeys new = newSet" using new by blast
  have t: "1 \<le> tOld" "tOld \<le> int (length old)" "1 \<le> tNew" "tNew \<le> int (length new)"
    using g arg_cong[OF keys, of length] by (auto simp: reshare_guards_def)
  have d: "distinct (map (\<lambda>x. x mod rModulus rg) (gokeys new))" "gomap_wf new"
    using assms(5) g keys by (simp_all add: reshare_guards_def)
  show ?thesis
    using reshare_Verify_ok[OF assms(1,2,4,3) t(1,2) assms(6,7)]
      reshare_Verify_ok[OF assms(1,2) d t(3,4)] new by blast
qed

theorem reshare_keeps_secret_witness:
  "\<exists>new rs' secret. Reshare ref_ring [] ex_old 2 [4] 1 (Some []) = Inr (new, rs') \<and>
    reshare_Verify ref_ring ex_old 2 = Inr secret \<and> reshare_Verify ref_ring new 1 = Inr secret"
proof -
  obtain new rs' where r: "Reshare ref_ring [] ex_old 2 [4] 1 (Some []) = Inr (new, rs')"
    using ex_reshare_one by blast
  show ?thesis
    using reshare_keeps_secret[of ref_ring ex_old "[4]" 2 ex_secret "[]" 1 "Some []" new rs'] r
    by (simp add: ex_reshare_facts ex_old_facts(2)[simplified])
qed

text \<open>
  C14: refresh is correct and total. For a \<open>t\<close>-sharing held by a committee whose shares
  are reduced polynomials, with enough accepted draws in the reader, \<^verbatim>\<open>Refresh\<close>
  returns shares for the same ids which again \<open>t\<close>-share the same secret.
\<close>

theorem refresh_correct:
  assumes "coeff_ring rg" "gomap_wf m" "refresh_guards m t"
    and "shares_ok (rModulus rg) (rN rg) (length (snd (hd m))) m"
    and "is_sharing (rModulus rg) (rN rg) (length (snd (hd m))) (nat t) m s"
    and "refresh_draws rg m t \<le> accepted (rModulus rg) rs"
  shows "\<exists>new rs'. Refresh rg sysrand m t (Some rs) = Inr (new, rs') \<and>
    gokeys new = sortedMapKeys m \<and>
    shares_ok (rModulus rg) (rN rg) (length (snd (hd m))) new \<and>
    is_sharing (rModulus rg) (rN rg) (length (snd (hd m))) (nat t) new s"
proof -
  obtain new rs' where r: "Refresh rg sysrand m t (Some rs) = Inr (new, rs')"
    using Refresh_draws[OF assms(1-4), of sysrand] assms(6) unfolding draws_def by blast
  with Refresh_sound[OF assms(1,2,4,5) r] show ?thesis by blast
qed

theorem refresh_correct_witness:
  "\<exists>new rs'. Refresh ref_ring [] ex_old 2 (Some (ex_rs @ ex_rs)) = Inr (new, rs') \<and>
    gokeys new = sortedMapKeys ex_old \<and> shares_ok corona_q 2 1 new \<and> is_sharing corona_q 2 1 2 new ex_secret"
proof -
  have "3 < corona_q" "4 < corona_q" "5 < corona_q" "6 < corona_q" by (simp_all add: corona_q_def)
  then have "6 \<le> accepted corona_q (ex_rs @ ex_rs)"
    using accepted_be_bytes[of 6 "[]"] by (simp add: ex_rs_def accepted_be_bytes)
  then show ?thesis
    using refresh_correct[of ref_ring ex_old 2 ex_secret "ex_rs @ ex_rs" "[]"]
    by (simp add: ex_reshare_facts refresh_draws_def)
qed

text \<open>
  C17: the result of a reshare does not depend on the order in which Go iterates over the
  old share map: a run that succeeds for one order returns the same shares, and leaves
  the reader in the same place, for every other.
\<close>

theorem reshare_order_independent:
  assumes "gomap_wf old" "mset old' = mset old"
    and "Reshare rg sysrand old tOld newSet tNew randSource = Inr r"
  shows "Reshare rg sysrand old' tOld newSet tNew randSource = Inr r"
  by (rule Reshare_perm[OF assms])

theorem reshare_order_independent_witness:
  "\<exists>r. Reshare ref_ring [] ex_old 2 [4] 1 (Some []) = Inr r \<and>
     Reshare ref_ring [] (rev ex_old) 2 [4] 1 (Some []) = Inr r"
proof -
  obtain new rs' where r: "Reshare ref_ring [] ex_old 2 [4] 1 (Some []) = Inr (new, rs')"
    using ex_reshare_one by blast
  with reshare_order_independent[of ex_old "rev ex_old" ref_ring "[]" 2 "[4]" 1 "Some []" "(new, rs')"]
  show ?thesis by (simp add: ex_old_facts)
qed

text \<open>
  C12: error behaviour. On a share map (distinct keys) \<^verbatim>\<open>Reshare\<close> returns one of its
  error values, as opposed to panicking or returning shares, exactly when its documented
  preconditions fail: thresholds at least 1 and at most the sizes of their committees,
  non-zero and distinct new ids, non-zero old ids, non-empty shares of one dimension.
\<close>

theorem reshare_error_iff:
  assumes "gomap_wf old"
  shows "(\<exists>e. Reshare rg sysrand old tOld newSet tNew randSource = Inl e \<and> e \<notin> {Panic, Diverge})
    \<longleftrightarrow> \<not> reshare_guards old tOld newSet tNew"
  using reshare_guard_error[OF _ assms] reshare_run_error by blast

theorem reshare_error_iff_witness:
  "\<exists>e. Reshare ref_ring [] ex_old 4 [4] 1 (Some []) = Inl e \<and> e \<notin> {Panic, Diverge}"
  using reshare_error_iff[of ex_old ref_ring "[]" 4 "[4]" 1 "Some []"]
  by (simp add: ex_old_facts reshare_guards_def)

text \<open>
  Rejection sampling modulo Corona's modulus. Whatever rejected seven-byte draws come
  first, the first draw whose big-endian value is below the modulus is returned with the
  reader right behind it, and a draw whose first byte is at least 2 is never accepted:
  the loop accepts about one draw in 256.
\<close>

theorem sampleModQ_first_accepted:
  assumes "\<forall>b \<in> set rejected. length b = 7 \<and> corona_q \<le> int (be_val b)"
    and "length good = 7" "int (be_val good) < corona_q"
  shows "sampleModQ (concat rejected @ good @ rs) corona_q = Inr (int (be_val good), rs) \<and>
    unat (hd good) < 2"
proof -
  have "sampleModQ (concat rejected @ good @ rs) corona_q = Inr (int (be_val good), rs)"
    using assms
  proof (induction rejected)
    case Nil
    then show ?case by (simp add: sampleModQ.simps[of "good @ rs"])
  next
    case (Cons b bs)
    then show ?case by (simp add: sampleModQ.simps[of "b @ concat bs @ good @ rs"])
  qed
  moreover have "unat (hd good) < 2"
  proof (rule ccontr)
    assume n: "\<not> unat (hd good) < 2"
    obtain g gs where g: "good = g # gs" using assms(2) by (cases good) auto
    have "2 * 256 ^ 6 \<le> unat g * 256 ^ 6" using n g by (intro mult_right_mono) auto
    then have "2 * 256 ^ 6 \<le> be_val good" using g assms(2) by (simp add: be_val_Cons)
    then show False using assms(3) by (simp add: corona_q_def)
  qed
  ultimately show ?thesis ..
qed

theorem sampleModQ_first_accepted_witness:
  "sampleModQ (concat [[2, 0, 0, 0, 0, 0, 0]] @ [1, 0, 0, 0, 0, 0, 9] @ []) corona_q = Inr (281474976710665, [])
   \<and> unat (hd [1, 0, 0, 0, 0, 0, 9 :: u8]) < 2"
  using sampleModQ_first_accepted[of "[[2, 0, 0, 0, 0, 0, 0]]" "[1, 0, 0, 0, 0, 0, 9]" "[]"]
  by (simp add: be_val_def corona_q_def)

end
