(* ===== verification/Keyera.thy ===== *)
theory Keyera
  imports Reshare_Kernel Threshold
begin

text \<open>
  \<^verbatim>\<open>keyera/keyera.go\<close>: the lifecycle of a group key. An era is opened by a dealer and evolves by
  resharing; the group key, the hash suite and the secret never change within it. The
  theorems are about every state such a lifecycle can reach. The dealer's erasure of its local
  copies (the secret and the error) has no effect on what is returned and is
  not represented.
\<close>

section \<open>Data\<close>

type_synonym CoronaKeyEraID = u64
type_synonym CoronaGroupID = u64

text \<open>\<^verbatim>\<open>keyera.EpochShareState\<close>.\<close>

record EraState =
  erKeyEraID :: u64
  erHashSuiteID :: string
  erGeneration :: u64
  erRollbackFrom :: u64
  erEpoch :: u64
  erValidators :: "string list"
  erThreshold :: int
  erShares :: "(string, KeyShare option) gomap"

record KeyEra =
  kEraID :: CoronaKeyEraID
  kGroupID :: CoronaGroupID
  kGroupKey :: "GroupKey option"
  kGenesisEpoch :: u64
  kHashSuiteID :: string
  kState :: "EraState option"

section \<open>Helpers\<close>

text \<open>\<^verbatim>\<open>isPrime\<close> and \<^verbatim>\<open>lagr\<close> are the arguments of \<^verbatim>\<open>ComputeLagrangeCoefficients\<close>.\<close>

type_synonym lagrange_lib = "(u64 \<Rightarrow> bool) \<times> (u64 list \<Rightarrow> u64 \<Rightarrow> u64 list res)"

definition computeFullCommitteeLagrange :: "lagrange_lib \<Rightarrow> ring_ops \<Rightarrow> nat \<Rightarrow> vec res" where
  "computeFullCommitteeLagrange lg r n = ComputeLagrangeCoefficients (fst lg) (snd lg) r (map int [0..<n]) corona_q"

text \<open>\<^verbatim>\<open>io.ReadFull\<close> into a zeroed key whose error is dropped: what could be read, then
  zeros.\<close>

definition read_key :: "bytes \<Rightarrow> bytes \<times> bytes" where
  "read_key rs = (take KeySize rs @ replicate (KeySize - length rs) 0, drop KeySize rs)"

fun read_keys :: "nat \<Rightarrow> bytes \<Rightarrow> bytes list \<times> bytes" where
  "read_keys 0 rs = ([], rs)"
| "read_keys (Suc n) rs = (case read_key rs of (k, rs1) \<Rightarrow> (case read_keys n rs1 of (ks, rs2) \<Rightarrow> (k # ks, rs2)))"

text \<open>The pairs \<open>i < j\<close> in the order of the second double loop, and the position of a pair
  in it.\<close>

definition upper_pairs :: "nat \<Rightarrow> (nat \<times> nat) list" where
  "upper_pairs K = concat (map (\<lambda>i. map (\<lambda>j. (i, j)) [Suc i..<K]) [0..<K])"

definition pair_table :: "nat \<Rightarrow> (nat \<times> nat \<Rightarrow> bytes) \<Rightarrow> (int, bytes) gomap list" where
  "pair_table K f = map (\<lambda>i. map (\<lambda>j. (int j, f (min i j, max i j))) (filter (\<lambda>j. j \<noteq> i) [0..<K])) [0..<K]"

definition derivePairwiseMaterial :: "nat \<Rightarrow> bytes \<Rightarrow> ((int, bytes list) gomap \<times> (int, bytes) gomap list) \<times> bytes" where
  "derivePairwiseMaterial K rs =
     (case read_keys (K * K) rs of (ss, rs1) \<Rightarrow>
      case read_keys (length (upper_pairs K)) rs1 of (ms, rs2) \<Rightarrow>
        ((map (\<lambda>i. (int i, take K (drop (i * K) ss))) [0..<K],
          pair_table K (\<lambda>p. the (map_of (zip (upper_pairs K) ms) p))), rs2))"

definition cloneVectorAsStandard :: "ring_ops \<Rightarrow> vec \<Rightarrow> vec" where
  "cloneVectorAsStandard r v = map (\<lambda>p. rINTT r (rIMForm r p)) v"

definition stdShareToNTT :: "ring_ops \<Rightarrow> Share \<Rightarrow> vec" where
  "stdShareToNTT r v = ConvertVectorToNTT r v"

section \<open>Opening an era with a dealer\<close>

text \<open>The group key and the secret in standard form. Both samplers read from one
  generator.\<close>

definition genGroupKey :: "'s env \<Rightarrow> ring_maker \<Rightarrow> bytes \<Rightarrow> ((GroupKey \<times> vec) \<times> bytes) res" where
  "genGroupKey en newRing entropy =
     rbind (NewParams newRing) (\<lambda>params.
     let r = paR params; sm = envSampling en in
     rbind (ReadFull entropy KeySize) (\<lambda>(seed, entropy').
     let A_us = SamplePolyMatrix r dimM dimN (uniformRead sm) True True (NewUniformSampler sm r (NewKeyedPRNG sm seed));
         A = fst A_us;
         gs = NewGaussianSampler sm r GaussE (uniformPRNG sm (snd A_us));
         s_gs = SamplePolyVector r dimN (gaussRead sm) False False gs;
         sStd = fst s_gs;
         sNTT = ConvertVectorToNTT r sStd;
         e = fst (SamplePolyVector r dimM (gaussRead sm) True True (snd s_gs)) in
     rbind (MatrixVectorMul r A sNTT (InitializeVector r dimM)) (\<lambda>b0.
     rbind (VectorAdd r b0 e b0) (\<lambda>b1.
     rbind (RoundVector (paRXi params) (ConvertVectorFromNTT r b1) Xi) (\<lambda>bTilde.
     Inr ((\<lparr> gkA = A, gkBTilde = Some bTilde, gkParams = params \<rparr>, sStd), entropy'))))))"

text \<open>The key share of the member at position \<open>i\<close>.\<close>

definition member_share ::
  "ring_ops \<Rightarrow> GroupKey \<Rightarrow> (int, bytes list) gomap \<Rightarrow> (int, bytes) gomap list \<Rightarrow> vec \<Rightarrow> (nat \<Rightarrow> vec) \<Rightarrow> nat \<Rightarrow> KeyShare res" where
  "member_share r gk seeds macKeys lagrange sk i =
     rbind (idx lagrange i) (\<lambda>lam. rbind (idx macKeys i) (\<lambda>mk.
     Inr \<lparr> ksIndex = int i, ksSkShare = sk i, ksSeeds = seeds, ksMACKeys = mk,
           ksLambda = rMForm r (rNTT r lam), ksGroupKey = gk \<rparr>))"

text \<open>The loop that fills \<^verbatim>\<open>state.Shares\<close>.\<close>

definition fill_shares :: "(nat \<Rightarrow> KeyShare res) \<Rightarrow> string list \<Rightarrow> (string, KeyShare option) gomap res" where
  "fill_shares f validators =
     foldM (\<lambda>m (i, v). rbind (f i) (\<lambda>ks. Inr (AList.update v (Some ks) m))) [] (enumerate 0 validators)"

definition bootstrapTrustedDealerImpl ::
  "'s env \<Rightarrow> ring_maker \<Rightarrow> lagrange_lib \<Rightarrow> bytes \<Rightarrow> hash_suite option \<Rightarrow> int \<Rightarrow> string list \<Rightarrow> CoronaGroupID \<Rightarrow> CoronaKeyEraID \<Rightarrow>
   bytes option \<Rightarrow> KeyEra res" where
  "bootstrapTrustedDealerImpl en newRing lg rand_Reader suite t validators groupID eraID entropy =
     (let n = length validators in
      if validators = [] then Inl ErrEmptyValidators
      else if t < 1 \<or> t > int n then Inl ErrInvalidThreshold
      else
        let suiteID = hsID (Resolve (envXof en) suite) in
        rbind (genGroupKey en newRing (case entropy of None \<Rightarrow> rand_Reader | Some e \<Rightarrow> e)) (\<lambda>((gk, sStd), entropy1).
        let r = paR (gkParams gk) in
        rbind (ShamirSecretSharingGeneral r sStd t (int n) (case entropy of None \<Rightarrow> entropy1 | Some _ \<Rightarrow> rand_Reader)) (\<lambda>(sh, rand1).
        let skShares = map (\<lambda>(i, v). (i, ConvertVectorToNTT r v)) sh;
            pm = fst (derivePairwiseMaterial n (case entropy of None \<Rightarrow> rand1 | Some _ \<Rightarrow> entropy1)) in
        rbind (computeFullCommitteeLagrange lg r n) (\<lambda>lagrange.
        rbind (fill_shares (member_share r gk (fst pm) (snd pm) lagrange (\<lambda>i. gomap_at skShares (int i))) validators) (\<lambda>shs.
        Inr \<lparr> kEraID = eraID, kGroupID = groupID, kGroupKey = Some gk, kGenesisEpoch = 0, kHashSuiteID = suiteID,
              kState = Some \<lparr> erKeyEraID = eraID, erHashSuiteID = suiteID, erGeneration = 0, erRollbackFrom = 0, erEpoch = 0,
                erValidators = validators, erThreshold = t, erShares = shs \<rparr> \<rparr>)))))"

definition BootstrapTrustedDealer ::
  "'s env \<Rightarrow> ring_maker \<Rightarrow> lagrange_lib \<Rightarrow> bytes \<Rightarrow> int \<Rightarrow> string list \<Rightarrow> CoronaGroupID \<Rightarrow> CoronaKeyEraID \<Rightarrow> bytes option \<Rightarrow> KeyEra res" where
  "BootstrapTrustedDealer en newRing lg rand_Reader t validators groupID eraID entropy =
     bootstrapTrustedDealerImpl en newRing lg rand_Reader (Some (Default (envXof en))) t validators groupID eraID entropy"

definition BootstrapTrustedDealerWithSuite ::
  "'s env \<Rightarrow> ring_maker \<Rightarrow> lagrange_lib \<Rightarrow> bytes \<Rightarrow> hash_suite option \<Rightarrow> int \<Rightarrow> string list \<Rightarrow> CoronaGroupID \<Rightarrow> CoronaKeyEraID \<Rightarrow>
   bytes option \<Rightarrow> KeyEra res" where
  "BootstrapTrustedDealerWithSuite en newRing lg rand_Reader suite t validators groupID eraID entropy =
     bootstrapTrustedDealerImpl en newRing lg rand_Reader suite t validators groupID eraID entropy"

section \<open>Resharing\<close>

text \<open>The map of old shares, in the order it is filled; the kernel's result does not depend on the
  order in which it is ranged over.\<close>

definition old_shares :: "ring_ops \<Rightarrow> EraState \<Rightarrow> shares res" where
  "old_shares r st =
     mapM (\<lambda>(i, v). (case map_of (erShares st) v of
          None \<Rightarrow> Inl ErrMissingShare
        | Some None \<Rightarrow> Inl Panic
        | Some (Some ks) \<Rightarrow> Inr (int i + 1, cloneVectorAsStandard r (ksSkShare ks)))) (enumerate 0 (erValidators st))"

text \<open>The era is returned as it is left.\<close>

definition KeyEra_Reshare ::
  "lagrange_lib \<Rightarrow> bytes \<Rightarrow> KeyEra option \<Rightarrow> string list \<Rightarrow> int \<Rightarrow> bytes option \<Rightarrow> KeyEra option \<times> EraState res" where
  "KeyEra_Reshare lg rand_Reader era newValidators newThreshold randSource =
     (case era of None \<Rightarrow> (era, Inl ErrUninitialized)
      | Some e \<Rightarrow> (case (kGroupKey e, kState e) of
          (Some gk, Some st) \<Rightarrow>
            (let K = length newValidators; r = paR (gkParams gk);
                 result =
                  (if newValidators = [] then Inl ErrEmptyValidators
                   else if newThreshold < 1 \<or> newThreshold > int K then Inl ErrInvalidThreshold
                   else
                     rbind (old_shares r st) (\<lambda>old.
                     rbind (Reshare r rand_Reader old (erThreshold st) (map (\<lambda>i. int i + 1) [0..<K]) newThreshold
                       (Some (case randSource of None \<Rightarrow> rand_Reader | Some rs \<Rightarrow> rs))) (\<lambda>(newShares, rs1).
                     rbind (computeFullCommitteeLagrange lg r K) (\<lambda>lagrange.
                     let pm = fst (derivePairwiseMaterial K rs1) in
                     rbind (fill_shares (member_share r gk (fst pm) (snd pm) lagrange
                       (\<lambda>i. stdShareToNTT r (gomap_at newShares (int i + 1)))) newValidators) (\<lambda>shs.
                     Inr \<lparr> erKeyEraID = erKeyEraID st, erHashSuiteID = kHashSuiteID e, erGeneration = erGeneration st + 1,
                           erRollbackFrom = 0, erEpoch = erEpoch st + 1, erValidators = newValidators,
                           erThreshold = newThreshold, erShares = shs \<rparr>)))))
             in (case result of Inl err \<Rightarrow> (era, Inl err)
                 | Inr st' \<Rightarrow> (Some (e \<lparr> kState := Some st' \<rparr>), Inr st')))
        | _ \<Rightarrow> (era, Inl ErrUninitialized)))"

text \<open>Opening the next era with a dealer.\<close>

definition next_ids :: "KeyEra option \<Rightarrow> CoronaKeyEraID \<times> u64" where
  "next_ids prev = (case prev of None \<Rightarrow> (0, 0)
     | Some e \<Rightarrow> (kEraID e + 1, (case kState e of None \<Rightarrow> 0 | Some st \<Rightarrow> erEpoch st + 1)))"

definition at_epoch :: "u64 \<Rightarrow> KeyEra \<Rightarrow> KeyEra" where
  "at_epoch ep e = e \<lparr> kGenesisEpoch := ep, kState := map_option (\<lambda>st. st \<lparr> erEpoch := ep \<rparr>) (kState e) \<rparr>"

definition ReanchorTrustedDealerWithSuite ::
  "'s env \<Rightarrow> ring_maker \<Rightarrow> lagrange_lib \<Rightarrow> bytes \<Rightarrow> KeyEra option \<Rightarrow> hash_suite option \<Rightarrow> int \<Rightarrow> string list \<Rightarrow> CoronaGroupID \<Rightarrow>
   bytes option \<Rightarrow> KeyEra res" where
  "ReanchorTrustedDealerWithSuite en newRing lg rand_Reader prev suite t validators groupID entropy =
     (case next_ids prev of (nextEraID, nextEpoch) \<Rightarrow>
        rbind (bootstrapTrustedDealerImpl en newRing lg rand_Reader suite t validators groupID nextEraID entropy) (\<lambda>e.
        Inr (at_epoch nextEpoch e)))"

definition inherited_suite :: "xof \<Rightarrow> KeyEra option \<Rightarrow> hash_suite" where
  "inherited_suite x prev = (case prev of None \<Rightarrow> Default x
     | Some e \<Rightarrow> if kHashSuiteID e = LegacyBLAKE3ID then NewCoronaBLAKE3 x else Default x)"

definition ReanchorTrustedDealer ::
  "'s env \<Rightarrow> ring_maker \<Rightarrow> lagrange_lib \<Rightarrow> bytes \<Rightarrow> KeyEra option \<Rightarrow> int \<Rightarrow> string list \<Rightarrow> CoronaGroupID \<Rightarrow> bytes option \<Rightarrow> KeyEra res" where
  "ReanchorTrustedDealer en newRing lg rand_Reader prev t validators groupID entropy =
     ReanchorTrustedDealerWithSuite en newRing lg rand_Reader prev (Some (inherited_suite (envXof en) prev)) t validators groupID entropy"

end
