(* ===== verification/Keyera_Lifecycle.thy ===== *)
theory Keyera_Lifecycle
  imports Keyera
begin

text \<open>
  What an era keeps: the invariant of a well-formed era (its members' shares are a sharing of
  the era's secret), that opening and resharing establish and keep it, and its consequences
  for every state a lifecycle reaches.
\<close>

section \<open>Filling the share map\<close>

lemma fill_shares_aux:
  "foldM (\<lambda>m (i, v). rbind (f i) (\<lambda>ks. Inr (AList.update v (Some ks) m))) m0 (enumerate k vs) = Inr m \<Longrightarrow> distinct vs \<Longrightarrow>
   (\<forall>i < length vs. \<exists>ks. f (k + i) = Inr ks \<and> map_of m (vs ! i) = Some (Some ks)) \<and>
   (\<forall>v. v \<notin> set vs \<longrightarrow> map_of m v = map_of m0 v)"
proof (induction vs arbitrary: k m0)
  case (Cons v vs)
  obtain ks where ks: "f k = Inr ks" "foldM (\<lambda>m (i, v). rbind (f i) (\<lambda>ks. Inr (AList.update v (Some ks) m))) (AList.update v (Some ks) m0) (enumerate (Suc k) vs) = Inr m"
    using Cons.prems(1) by (auto simp: res_simps)
  note IH = Cons.IH[OF ks(2)]
  have d: "distinct vs" "v \<notin> set vs" using Cons.prems(2) by auto
  then have v: "map_of m v = Some (Some ks)" using IH by (simp add: update_conv)
  show ?case
  proof (intro conjI allI impI)
    fix i assume "i < length (v # vs)"
    then show "\<exists>ks. f (k + i) = Inr ks \<and> map_of m ((v # vs) ! i) = Some (Some ks)"
      using IH[OF d(1)] ks(1) v by (cases i) auto
  next
    fix w assume "w \<notin> set (v # vs)"
    then show "map_of m w = map_of m0 w" using IH[OF d(1)] by (auto simp: update_conv)
  qed
qed simp

lemma fill_shares_spec:
  assumes "fill_shares f vs = Inr m" "distinct vs" "i < length vs"
  shows "\<exists>ks. f i = Inr ks \<and> map_of m (vs ! i) = Some (Some ks)"
  using fill_shares_aux[of f "[]" 0 vs m] assms by (simp add: fill_shares_def)

lemma fill_shares_total:
  assumes "\<forall>i < length vs. \<exists>ks. f i = Inr ks"
  shows "\<exists>m. fill_shares f vs = Inr m"
proof -
  have "\<exists>m. foldM (\<lambda>m (i, v). rbind (f i) (\<lambda>ks. Inr (AList.update v (Some ks) m))) m0 (enumerate k us) = Inr m"
    if "\<forall>i < length us. \<exists>ks. f (k + i) = Inr ks" for m0 k us
    using that
  proof (induction us arbitrary: m0 k)
    case (Cons u us)
    have "\<forall>i < length us. \<exists>ks. f (Suc k + i) = Inr ks"
    proof (intro allI impI)
      fix i assume "i < length us"
      then show "\<exists>ks. f (Suc k + i) = Inr ks" using Cons.prems[rule_format, of "Suc i"] by simp
    qed
    moreover obtain ks where "f k = Inr ks" using Cons.prems[rule_format, of 0] by auto
    ultimately show ?case using Cons.IH[of "Suc k"] by simp
  qed simp
  from this[of vs 0 "[]"] assms show ?thesis by (simp add: fill_shares_def)
qed

section \<open>The invariant\<close>

definition share_at :: "EraState \<Rightarrow> nat \<Rightarrow> KeyShare" where
  "share_at st i = the (the (map_of (erShares st) (erValidators st ! i)))"

text \<open>The members' shares in standard form, under the ids \<open>1 .. n\<close>.\<close>

definition std_shares :: "ring_ops \<Rightarrow> EraState \<Rightarrow> shares" where
  "std_shares r st = map (\<lambda>i. (int i + 1, cloneVectorAsStandard r (ksSkShare (share_at st i)))) [0..<length (erValidators st)]"

definition state_ok :: "GroupKey \<Rightarrow> EraState \<Rightarrow> (nat \<Rightarrow> nat \<Rightarrow> int) \<Rightarrow> bool" where
  "state_ok gk st S \<longleftrightarrow> (let r = paR (gkParams gk); n = length (erValidators st) in
     distinct (erValidators st) \<and> 1 \<le> erThreshold st \<and> erThreshold st \<le> int n \<and> int n < corona_q \<and>
     (\<forall>i < n. \<exists>ks. map_of (erShares st) (erValidators st ! i) = Some (Some ks) \<and> ksIndex ks = int i \<and> ksGroupKey ks = gk \<and> vec_ok r dimN (ksSkShare ks)) \<and>
     is_sharing corona_q (rN r) dimN (nat (erThreshold st)) (std_shares r st) S)"

definition era_ok :: "KeyEra \<Rightarrow> (nat \<Rightarrow> nat \<Rightarrow> int) \<Rightarrow> bool" where
  "era_ok e S \<longleftrightarrow> (\<exists>gk st. kGroupKey e = Some gk \<and> kState e = Some st \<and>
     lattice_ring (paR (gkParams gk)) \<and> rModulus (paR (gkParams gk)) = corona_q \<and> state_ok gk st S \<and>
     erHashSuiteID st = kHashSuiteID e \<and> erKeyEraID st = kEraID e)"

lemma length_std_shares [simp]: "length (std_shares r st) = length (erValidators st)"
  by (simp add: std_shares_def)

lemma keys_std_shares: "gokeys (std_shares r st) = map (\<lambda>i. int i + 1) [0..<length (erValidators st)]"
  by (simp add: std_shares_def comp_def)

lemma ids_distinct: "distinct (map (\<lambda>i. int i + 1) [0..<n])"
  by (simp add: distinct_map inj_on_def)

lemma ids_distinct_mod:
  assumes "int n < q"
  shows "distinct (map (\<lambda>x. x mod q) (map (\<lambda>i. int i + 1) [0..<n]))"
proof -
  have "map (\<lambda>x. x mod q) (map (\<lambda>i. int i + 1) [0..<n]) = map (\<lambda>i. int i + 1) [0..<n]"
    using assms by (auto simp: map_idI)
  then show ?thesis using ids_distinct by metis
qed

context lattice_ring
begin

lemma clone_ok: "vec_ok rg n v \<Longrightarrow> vec_ok rg n (cloneVectorAsStandard rg v)"
  by (auto simp: cloneVectorAsStandard_def vec_ok_def vvalid_def intro: valid_INTT valid_IMForm)

text \<open>Storing a share in NTT form and reading it back.\<close>

lemma clone_to_NTT:
  assumes "vec_ok rg n v"
  shows "cloneVectorAsStandard rg (ConvertVectorToNTT rg v) = v"
proof -
  have "rINTT rg (rIMForm rg (rMForm rg (rNTT rg p))) = p" if "p \<in> set v" for p
    using assms that IMForm_MForm INTT_NTT valid_NTT by (simp add: vec_ok_def vvalid_def)
  then show ?thesis by (simp add: cloneVectorAsStandard_def ConvertVectorToNTT_def map_idI)
qed

end

lemma old_shares_ok:
  assumes "\<forall>i < length (erValidators st). \<exists>ks. map_of (erShares st) (erValidators st ! i) = Some (Some ks)"
  shows "old_shares r st = Inr (std_shares r st)"
proof -
  have "mapM (\<lambda>(i, v). (case map_of (erShares st) v of None \<Rightarrow> Inl ErrMissingShare | Some None \<Rightarrow> Inl Panic
        | Some (Some ks) \<Rightarrow> Inr (int i + 1, cloneVectorAsStandard r (ksSkShare ks)))) (enumerate 0 (erValidators st))
     = Inr (map (\<lambda>(i, v). (int i + 1, cloneVectorAsStandard r (ksSkShare (the (the (map_of (erShares st) v)))))) (enumerate 0 (erValidators st)))"
    using assms by (intro mapM_all_Inr) (auto simp: in_set_enumerate_eq)
  also have "map (\<lambda>(i, v). (int i + 1, cloneVectorAsStandard r (ksSkShare (the (the (map_of (erShares st) v)))))) (enumerate 0 (erValidators st)) = std_shares r st"
    by (rule nth_equalityI) (simp_all add: std_shares_def share_at_def nth_enumerate_eq)
  finally show ?thesis by (simp add: old_shares_def)
qed

section \<open>Members of a new committee\<close>

text \<open>When the shares handed to the members are a sharing in standard form, so is the filled
  state.\<close>

lemma state_okI:
  assumes lr: "lattice_ring (paR (gkParams gk))"
    and f: "fill_shares (member_share (paR (gkParams gk)) gk seeds macs lagrange (\<lambda>i. ConvertVectorToNTT (paR (gkParams gk)) (sk i))) vs = Inr shs"
    and vs: "distinct vs" "1 \<le> t" "t \<le> int (length vs)" "int (length vs) < corona_q"
    and ok: "\<forall>i < length vs. vec_ok (paR (gkParams gk)) dimN (sk i)"
    and sh: "is_sharing corona_q (rN (paR (gkParams gk))) dimN (nat t) (map (\<lambda>i. (int i + 1, sk i)) [0..<length vs]) S"
    and st: "erValidators st = vs" "erThreshold st = t" "erShares st = shs"
  shows "state_ok gk st S"
proof -
  let ?r = "paR (gkParams gk)"
  have m: "\<exists>ks. map_of shs (vs ! i) = Some (Some ks) \<and> ksIndex ks = int i \<and> ksGroupKey ks = gk \<and> ksSkShare ks = ConvertVectorToNTT ?r (sk i)"
    if "i < length vs" for i
    using fill_shares_spec[OF f vs(1) that] by (auto simp: member_share_def res_simps)
  have sk: "ksSkShare (share_at st i) = ConvertVectorToNTT ?r (sk i)" if "i < length vs" for i
    using m[OF that] st by (auto simp: share_at_def)
  have "std_shares ?r st = map (\<lambda>i. (int i + 1, sk i)) [0..<length vs]"
    unfolding std_shares_def st(1) using sk ok lattice_ring.clone_to_NTT[OF lr, of dimN] by simp
  moreover have "\<exists>ks. map_of (erShares st) (erValidators st ! i) = Some (Some ks) \<and> ksIndex ks = int i \<and> ksGroupKey ks = gk \<and> vec_ok ?r dimN (ksSkShare ks)"
    if "i < length vs" for i
    using m[OF that] st ok that lattice_ring.ConvertVectorToNTT_ok[OF lr] by fastforce
  ultimately show ?thesis using vs st sh by (simp add: state_ok_def Let_def)
qed

section \<open>Resharing keeps the invariant\<close>

lemma gomap_by_ids:
  assumes "gokeys m = map (\<lambda>i. int i + 1) [0..<n]"
  shows "map (\<lambda>i. (int i + 1, gomap_at m (int i + 1))) [0..<n] = m"
proof (rule nth_equalityI)
  have len: "length m = n" using arg_cong[OF assms, of length] by simp
  then show "length (map (\<lambda>i. (int i + 1, gomap_at m (int i + 1))) [0..<n]) = length m" by simp
  fix i assume "i < length (map (\<lambda>i. (int i + 1, gomap_at m (int i + 1))) [0..<n])"
  then have i: "i < n" "i < length m" using len by auto
  have k: "fst (m ! i) = int i + 1" using arg_cong[OF assms, of "\<lambda>l. l ! i"] i by simp
  have "distinct (gokeys m)" unfolding assms by (rule ids_distinct)
  then have "map_of m (fst (m ! i)) = Some (snd (m ! i))" using i(2) by (simp add: map_of_eq_Some_iff)
  then show "map (\<lambda>i. (int i + 1, gomap_at m (int i + 1))) [0..<n] ! i = m ! i"
    using i k by (simp add: gomap_at_def prod_eq_iff)
qed

lemma std_shares_dims:
  assumes "lattice_ring (paR (gkParams gk))" "state_ok gk st S"
  shows "\<forall>(i, sh) \<in> set (std_shares (paR (gkParams gk)) st). vec_ok (paR (gkParams gk)) dimN sh"
    "std_shares (paR (gkParams gk)) st \<noteq> []" "length (snd (hd (std_shares (paR (gkParams gk)) st))) = dimN"
proof -
  let ?r = "paR (gkParams gk)"
  have n: "1 \<le> length (erValidators st)" using assms(2) by (auto simp: state_ok_def Let_def)
  show all: "\<forall>(i, sh) \<in> set (std_shares ?r st). vec_ok ?r dimN sh"
    using assms(2) lattice_ring.clone_ok[OF assms(1)] by (fastforce simp: std_shares_def state_ok_def Let_def share_at_def)
  show ne: "std_shares ?r st \<noteq> []" using n by (auto simp: std_shares_def)
  show "length (snd (hd (std_shares ?r st))) = dimN" using all hd_in_set[OF ne] by (auto simp: vec_ok_def)
qed

lemma share_ok_vec_ok: "share_ok (rModulus r) (rN r) n sh \<Longrightarrow> vec_ok r n sh"
  by (simp add: share_ok_def vec_ok_def vvalid_def all_set_nth_iff)

lemma KeyEra_Reshare_ok:
  assumes e: "era_ok e S" and d: "distinct newV" "int (length newV) < corona_q"
    and run: "KeyEra_Reshare lg sys (Some e) newV newT rs = (e', Inr st')"
  shows "\<exists>e1 st. e' = Some e1 \<and> kState e = Some st \<and> kState e1 = Some st' \<and> era_ok e1 S \<and>
    kGroupKey e1 = kGroupKey e \<and> kEraID e1 = kEraID e \<and> kGroupID e1 = kGroupID e \<and> kGenesisEpoch e1 = kGenesisEpoch e \<and>
    kHashSuiteID e1 = kHashSuiteID e \<and> erGeneration st' = erGeneration st + 1 \<and> erEpoch st' = erEpoch st + 1 \<and>
    erValidators st' = newV \<and> erThreshold st' = newT"
proof -
  obtain gk st where g: "kGroupKey e = Some gk" "kState e = Some st" "lattice_ring (paR (gkParams gk))"
    "rModulus (paR (gkParams gk)) = corona_q" "state_ok gk st S" "erHashSuiteID st = kHashSuiteID e" "erKeyEraID st = kEraID e"
    using e by (auto simp: era_ok_def)
  let ?r = "paR (gkParams gk)" and ?ids = "map (\<lambda>i. int i + 1) [0..<length newV]"
  have cr: "coeff_ring ?r" by (rule lattice_ring.axioms(1)[OF g(3)])
  have old: "old_shares ?r st = Inr (std_shares ?r st)"
    using g(5) by (intro old_shares_ok) (fastforce simp: state_ok_def Let_def)
  obtain new rs1 lagrange shs where K: "newV \<noteq> []" "\<not> (newT < 1 \<or> newT > int (length newV))"
    and R: "Reshare ?r sys (std_shares ?r st) (erThreshold st) ?ids newT (Some (case rs of None \<Rightarrow> sys | Some rs \<Rightarrow> rs)) = Inr (new, rs1)"
    and F: "fill_shares (member_share ?r gk (fst (fst (derivePairwiseMaterial (length newV) rs1))) (snd (fst (derivePairwiseMaterial (length newV) rs1))) lagrange
        (\<lambda>i. ConvertVectorToNTT ?r (gomap_at new (int i + 1)))) newV = Inr shs"
    and st': "st' = \<lparr> erKeyEraID = erKeyEraID st, erHashSuiteID = kHashSuiteID e, erGeneration = erGeneration st + 1, erRollbackFrom = 0,
        erEpoch = erEpoch st + 1, erValidators = newV, erThreshold = newT, erShares = shs \<rparr>"
    and e': "e' = Some (e \<lparr> kState := Some st' \<rparr>)"
    using run g(1,2) old by (auto simp: KeyEra_Reshare_def Let_def res_simps stdShareToNTT_def split: sum.splits if_splits)
  note dims = std_shares_dims[OF g(3,5)]
  have q: "prime_mod (rModulus ?r)" unfolding g(4) by (rule corona_q_prime)
  have n: "int (length (erValidators st)) < corona_q" using g(5) by (simp add: state_ok_def Let_def)
  have wf: "gomap_wf (std_shares ?r st)" unfolding keys_std_shares by (rule ids_distinct)
  have dm: "distinct (map (\<lambda>x. x mod rModulus ?r) (gokeys (std_shares ?r st)))"
    unfolding keys_std_shares g(4) by (rule ids_distinct_mod[OF n])
  have sh: "is_sharing (rModulus ?r) (rN ?r) (length (snd (hd (std_shares ?r st)))) (nat (erThreshold st)) (std_shares ?r st) S"
    using g(5) unfolding dims(3) g(4) by (simp add: state_ok_def Let_def)
  have new: "gokeys new = ?ids" "shares_ok corona_q (rN ?r) dimN new" "is_sharing corona_q (rN ?r) dimN (nat newT) new S"
    using Reshare_sound[OF cr q dm wf sh R] unfolding dims(3) g(4) by auto
  have "\<forall>i < length newV. vec_ok ?r dimN (gomap_at new (int i + 1))"
  proof (intro allI impI)
    fix i assume i: "i < length newV"
    then have "(int i + 1, gomap_at new (int i + 1)) \<in> set new"
      using gomap_by_ids[OF new(1)] by (metis (no_types, lifting) imageI atLeastLessThan_iff list.set_map set_upt zero_le)
    then show "vec_ok ?r dimN (gomap_at new (int i + 1))"
      using new(2) g(4) by (auto simp: shares_ok_def intro!: share_ok_vec_ok)
  qed
  from state_okI[OF g(3) F d(1) _ _ d(2) this, of newT S st'] K(2) new(3) gomap_by_ids[OF new(1)] st'
  have "state_ok gk st' S" by simp
  then have "era_ok (e \<lparr> kState := Some st' \<rparr>) S" using g st' by (auto simp: era_ok_def)
  then show ?thesis using e' g(2) st' by simp
qed

lemma KeyEra_Reshare_error: "KeyEra_Reshare lg sys e newV newT rs = (e', Inl err) \<Longrightarrow> e' = e"
  by (auto simp: KeyEra_Reshare_def Let_def split: option.splits sum.splits)

section \<open>The dealer establishes it\<close>

lemma genGroupKey_secret:
  assumes "genGroupKey en newRing rd = Inr ((gk, s), rd')" "lattice_ring (fst (newRing (2 ^ LogN) corona_q))"
    and "sampling_ok (envSampling en) (fst (newRing (2 ^ LogN) corona_q))"
  shows "paR (gkParams gk) = fst (newRing (2 ^ LogN) corona_q) \<and> vec_ok (fst (newRing (2 ^ LogN) corona_q)) dimN s"
proof -
  obtain params where p: "NewParams newRing = Inr params" using assms(1) by (auto simp: genGroupKey_def res_simps)
  then have r: "paR params = fst (newRing (2 ^ LogN) corona_q)" by (auto simp: NewParams_def split: prod.splits if_splits)
  have "gkParams gk = params" "\<exists>st. s = fst (SamplePolyVector (paR params) dimN (gaussRead (envSampling en)) False False st)"
    using assms(1) p by (auto simp: genGroupKey_def res_simps Let_def)
  then show ?thesis using r lattice_ring.SamplePolyVector_ok[OF assms(2)] assms(3) by (auto simp: sampling_ok_def)
qed

lemma bootstrap_ok:
  assumes run: "bootstrapTrustedDealerImpl en newRing lg sys suite t vs gid eid entropy = Inr e"
    and lr: "lattice_ring (fst (newRing (2 ^ LogN) corona_q))" and q: "rModulus (fst (newRing (2 ^ LogN) corona_q)) = corona_q"
    and sm: "sampling_ok (envSampling en) (fst (newRing (2 ^ LogN) corona_q))"
    and d: "distinct vs" "int (length vs) < corona_q"
  shows "\<exists>gk s rest st. genGroupKey en newRing (case entropy of None \<Rightarrow> sys | Some e \<Rightarrow> e) = Inr ((gk, s), rest) \<and>
    kGroupKey e = Some gk \<and> kState e = Some st \<and> era_ok e (\<lambda>p k. pcoef (s ! p) k) \<and> kEraID e = eid \<and> kGenesisEpoch e = 0 \<and>
    kHashSuiteID e = hsID (Resolve (envXof en) suite) \<and> erGeneration st = 0 \<and> erEpoch st = 0"
proof -
  let ?r = "fst (newRing (2 ^ LogN) corona_q)"
  obtain gk s rest where G: "genGroupKey en newRing (case entropy of None \<Rightarrow> sys | Some e \<Rightarrow> e) = Inr ((gk, s), rest)"
    and t: "\<not> (t < 1 \<or> t > int (length vs))"
    using run by (auto simp: bootstrapTrustedDealerImpl_def Let_def res_simps split: if_splits)
  have rs: "paR (gkParams gk) = ?r" "vec_ok ?r dimN s" using genGroupKey_secret[OF G lr sm] by auto
  obtain sh rand1 lagrange shs pm where
    S: "ShamirSecretSharingGeneral ?r s t (int (length vs)) (case entropy of None \<Rightarrow> rest | Some _ \<Rightarrow> sys) = Inr (sh, rand1)"
    and F: "fill_shares (member_share ?r gk (fst pm) (snd pm) lagrange (\<lambda>i. gomap_at (map (\<lambda>(i, v). (i, ConvertVectorToNTT ?r v)) sh) (int i))) vs = Inr shs"
    and e: "e = \<lparr> kEraID = eid, kGroupID = gid, kGroupKey = Some gk, kGenesisEpoch = 0, kHashSuiteID = hsID (Resolve (envXof en) suite),
      kState = Some \<lparr> erKeyEraID = eid, erHashSuiteID = hsID (Resolve (envXof en) suite), erGeneration = 0, erRollbackFrom = 0, erEpoch = 0,
        erValidators = vs, erThreshold = t, erShares = shs \<rparr> \<rparr>"
    using run t G rs(1) by (auto simp: bootstrapTrustedDealerImpl_def Let_def res_simps split: if_splits)
  have cr: "coeff_ring ?r" by (rule lattice_ring.axioms(1)[OF lr])
  have sv: "vvalid ?r s" "length s = dimN" using rs(2) by (auto simp: vec_ok_def)
  have D: "gokeys sh = map int [0..<length vs]" "shares_ok corona_q (rN ?r) dimN sh"
    "is_sharing corona_q (rN ?r) dimN (nat t) (map (\<lambda>(i, v). (i + 1, v)) sh) (\<lambda>p k. pcoef (s ! p) k)"
    using shamir_deal_sharing[OF cr sv(1) _ S[unfolded ShamirSecretSharingGeneral_def]] t unfolding q sv(2) by auto
  have sk: "gomap_at (map (\<lambda>(i, v). (i, ConvertVectorToNTT ?r v)) sh) j = ConvertVectorToNTT ?r (gomap_at sh j)" for j
    by (cases "map_of sh j") (auto simp: gomap_at_def map_of_map ConvertVectorToNTT_def)
  let ?sk = "\<lambda>i. gomap_at sh (int i)"
  have by_ids: "map (\<lambda>i. (int i + 1, ?sk i)) [0..<length vs] = map (\<lambda>(i, v). (i + 1, v)) sh"
  proof -
    let ?m = "map (\<lambda>(i, v). (i + 1, v)) sh"
    have k: "gokeys ?m = map (\<lambda>i. int i + 1) [0..<length vs]"
      using arg_cong[OF D(1), of "map (\<lambda>i. i + 1)"] by (simp add: comp_def case_prod_unfold)
    have "map_of ?m (j + 1) = map_of sh j" for j by (induction sh) auto
    then have "gomap_at ?m (int i + 1) = ?sk i" for i by (simp add: gomap_at_def)
    then show ?thesis using gomap_by_ids[OF k] by simp
  qed
  have ok: "\<forall>i < length vs. vec_ok (paR (gkParams gk)) dimN (?sk i)"
  proof (intro allI impI)
    fix i assume "i < length vs"
    then have "(int i + 1, ?sk i) \<in> set (map (\<lambda>(i, v). (i + 1, v)) sh)" unfolding by_ids[symmetric] by simp
    then show "vec_ok (paR (gkParams gk)) dimN (?sk i)"
      using D(2) q rs(1) by (auto simp: shares_ok_def intro!: share_ok_vec_ok)
  qed
  have F': "fill_shares (member_share (paR (gkParams gk)) gk (fst pm) (snd pm) lagrange (\<lambda>i. ConvertVectorToNTT (paR (gkParams gk)) (?sk i))) vs = Inr shs"
    using F unfolding sk rs(1) .
  have "state_ok gk (the (kState e)) (\<lambda>p k. pcoef (s ! p) k)"
    using state_okI[OF _ F' d(1) _ _ d(2) ok, of t] t D(3) lr rs(1) by_ids e by simp
  then show ?thesis using G e lr q rs(1) by (simp add: era_ok_def)
qed

section \<open>Lifecycles\<close>

inductive era_reachable :: "lagrange_lib \<Rightarrow> bytes \<Rightarrow> KeyEra \<Rightarrow> KeyEra \<Rightarrow> bool" for lg sys e0 where
  start: "era_reachable lg sys e0 e0"
| reshare: "era_reachable lg sys e0 e \<Longrightarrow> distinct newV \<Longrightarrow> int (length newV) < corona_q \<Longrightarrow>
    KeyEra_Reshare lg sys (Some e) newV newT rs = (Some e', r) \<Longrightarrow> era_reachable lg sys e0 e'"

lemma era_invariant:
  assumes "era_reachable lg sys e0 e" "era_ok e0 S" "kState e0 = Some st0"
  shows "\<exists>st. era_ok e S \<and> kState e = Some st \<and> kGroupKey e = kGroupKey e0 \<and> kEraID e = kEraID e0 \<and> kGenesisEpoch e = kGenesisEpoch e0 \<and>
    kHashSuiteID e = kHashSuiteID e0 \<and> erEpoch st - erGeneration st = erEpoch st0 - erGeneration st0"
  using assms
proof (induction rule: era_reachable.induct)
  case (reshare e newV newT rs e' r)
  then obtain st where IH: "era_ok e S" "kState e = Some st" "kGroupKey e = kGroupKey e0" "kEraID e = kEraID e0" "kGenesisEpoch e = kGenesisEpoch e0"
    "kHashSuiteID e = kHashSuiteID e0" "erEpoch st - erGeneration st = erEpoch st0 - erGeneration st0" by blast
  show ?case
  proof (cases r)
    case (Inl err)
    then have "e' = e" using KeyEra_Reshare_error reshare.hyps(4) by (metis option.inject)
    then show ?thesis using IH by blast
  next
    case (Inr st')
    then show ?thesis using KeyEra_Reshare_ok[OF IH(1) reshare.hyps(2,3), of lg sys newT rs "Some e'" st'] reshare.hyps(4) IH by auto
  qed
qed blast

section \<open>Total runs\<close>

context lattice_ring
begin

lemma SamplePolyMatrix_ok:
  assumes "\<forall>st. pvalid (rModulus rg) (rN rg) (fst (smp st))"
  shows "mat_ok rg m n (fst (SamplePolyMatrix rg m n smp ntt mont st))"
proof (induction m arbitrary: st)
  case (Suc m)
  show ?case using Suc SamplePolyVector_ok[OF assms, of n ntt mont st]
    by (auto simp: mat_ok_def split: prod.splits) (metis fst_conv)+
qed (simp add: mat_ok_def)

end

lemma genGroupKey_total:
  assumes "newRing (2 ^ LogN) corona_q = (r, True)" "lattice_ring r" "sampling_ok (envSampling en) r"
    and "coeff_ring (fst (newRing (2 ^ LogN) QXi))" "rN (fst (newRing (2 ^ LogN) QXi)) = rN r" "KeySize \<le> length rd"
  shows "\<exists>gk s. genGroupKey en newRing rd = Inr ((gk, s), drop KeySize rd) \<and> paR (gkParams gk) = r"
proof -
  let ?sm = "envSampling en" and ?xi = "fst (newRing (2 ^ LogN) QXi)"
  have smp: "\<forall>st. pvalid (rModulus r) (rN r) (fst (uniformRead ?sm st))" "\<forall>st. pvalid (rModulus r) (rN r) (fst (gaussRead ?sm st))"
    using assms(3) by (auto simp: sampling_ok_def)
  define Aus where "Aus = SamplePolyMatrix r dimM dimN (uniformRead ?sm) True True (NewUniformSampler ?sm r (NewKeyedPRNG ?sm (take KeySize rd)))"
  define sg where "sg = SamplePolyVector r dimN (gaussRead ?sm) False False (NewGaussianSampler ?sm r GaussE (uniformPRNG ?sm (snd Aus)))"
  define e where "e = fst (SamplePolyVector r dimM (gaussRead ?sm) True True (snd sg))"
  have A: "mat_ok r dimM dimN (fst Aus)" unfolding Aus_def by (rule lattice_ring.SamplePolyMatrix_ok[OF assms(2) smp(1)])
  have s: "vec_ok r dimN (fst sg)" and ev: "vec_ok r dimM e"
    unfolding sg_def e_def by (rule lattice_ring.SamplePolyVector_ok[OF assms(2) smp(2)])+
  have cr: "coeff_ring r" by (rule lattice_ring.axioms(1)[OF assms(2)])
  note mv = lattice_ring.MatrixVectorMul_ok[OF assms(2) A lattice_ring.ConvertVectorToNTT_ok[OF assms(2) s] coeff_ring.vec_ok_InitializeVector[OF cr]]
  let ?b0 = "map2 (\<lambda>row acc. row_mul r row (ConvertVectorToNTT r (fst sg)) acc) (fst Aus) (InitializeVector r dimM)"
  have "length ?b0 = dimM" using mv(2) by (simp add: vec_ok_def)
  note va = coeff_ring.VectorAdd_ok[OF cr mv(2) ev this]
  let ?b1 = "map2 (rAdd r) ?b0 e"
  have "shape_ok (rN ?xi) (ConvertVectorFromNTT r ?b1)"
    unfolding assms(5) by (rule vec_ok_shape[OF lattice_ring.ConvertVectorFromNTT_ok[OF assms(2) va(2)]])
  note rv = RoundVector_ok[OF assms(4) this, of Xi]
  have np: "NewParams newRing = Inr \<lparr> paR = r, paRXi = ?xi, paRNu = fst (newRing (2 ^ LogN) QNu) \<rparr>"
    using assms(1) by (simp add: NewParams_def)
  have rf: "ReadFull rd KeySize = Inr (take KeySize rd, drop KeySize rd)" using assms(6) by (simp add: ReadFull_def)
  show ?thesis
    unfolding genGroupKey_def np rf rbind.simps Let_def
    using mv(1) va(1) rv by (simp add: Aus_def[symmetric] sg_def[symmetric] e_def[symmetric])
qed

lemma member_share_total:
  assumes "computeFullCommitteeLagrange lg r n = Inr lagrange" "i < n"
  shows "\<exists>ks. member_share r gk sd (snd (fst (derivePairwiseMaterial n rs))) lagrange sk i = Inr ks"
proof -
  have "length lagrange = n"
    using assms(1) by (auto simp: computeFullCommitteeLagrange_def ComputeLagrangeCoefficients_def res_simps split: if_splits)
  moreover have "length (snd (fst (derivePairwiseMaterial n rs))) = n"
    by (simp add: derivePairwiseMaterial_def pair_table_def split: prod.splits)
  ultimately show ?thesis using assms(2) by (simp add: member_share_def idx_def)
qed

lemma KeyEra_Reshare_total:
  assumes e: "era_ok e S" "kGroupKey e = Some gk" "kState e = Some st"
    and v: "newV \<noteq> []" "1 \<le> newT" "newT \<le> int (length newV)"
    and lag: "computeFullCommitteeLagrange lg (paR (gkParams gk)) (length newV) = Inr lagrange"
    and rnd: "reshare_draws (paR (gkParams gk)) (std_shares (paR (gkParams gk)) st) (erThreshold st) newT \<le> accepted corona_q rs"
  shows "\<exists>e' st'. KeyEra_Reshare lg sys (Some e) newV newT (Some rs) = (Some e', Inr st')"
proof -
  let ?r = "paR (gkParams gk)" and ?ids = "map (\<lambda>i. int i + 1) [0..<length newV]"
  have g: "lattice_ring ?r" "rModulus ?r = corona_q" "state_ok gk st S" using e by (auto simp: era_ok_def)
  have cr: "coeff_ring ?r" by (rule lattice_ring.axioms(1)[OF g(1)])
  have old: "old_shares ?r st = Inr (std_shares ?r st)"
    using g(3) by (intro old_shares_ok) (fastforce simp: state_ok_def Let_def)
  note dims = std_shares_dims[OF g(1,3)]
  have q: "prime_mod (rModulus ?r)" unfolding g(2) by (rule corona_q_prime)
  have n: "int (length (erValidators st)) < corona_q" "1 \<le> erThreshold st" "erThreshold st \<le> int (length (erValidators st))"
    using g(3) by (simp_all add: state_ok_def Let_def)
  have wf: "gomap_wf (std_shares ?r st)" unfolding keys_std_shares by (rule ids_distinct)
  have dm: "distinct (map (\<lambda>x. x mod rModulus ?r) (gokeys (std_shares ?r st)))"
    unfolding keys_std_shares g(2) by (rule ids_distinct_mod[OF n(1)])
  have "0 \<notin> fst ` set (std_shares ?r st)" by (auto simp: std_shares_def)
  moreover have "snd (hd (std_shares ?r st)) \<noteq> []" using dims(3) by (auto simp: dimN_def)
  moreover have "\<forall>(i, sh) \<in> set (std_shares ?r st). length sh = length (snd (hd (std_shares ?r st)))"
    unfolding dims(3) using dims(1) by (auto simp: vec_ok_def)
  moreover have "distinct ?ids" "0 \<notin> set ?ids" by (rule ids_distinct) auto
  ultimately have gd: "reshare_guards (std_shares ?r st) (erThreshold st) ?ids newT"
    using n v by (simp add: reshare_guards_def)
  have shape: "\<forall>(i, sh) \<in> set (std_shares ?r st). \<forall>p \<in> set sh. poly_has (rN ?r) p"
    using dims(1) by (fastforce simp: vec_ok_def vvalid_def intro: pvalid_has)
  have "draws (rModulus ?r) (reshare_draws ?r (std_shares ?r st) (erThreshold st) newT)
      (\<lambda>rs. Reshare ?r sys (std_shares ?r st) (erThreshold st) ?ids newT (Some rs))"
    by (rule Reshare_draws[OF cr q dm wf gd shape])
  then obtain new rs1 where R: "Reshare ?r sys (std_shares ?r st) (erThreshold st) ?ids newT (Some rs) = Inr (new, rs1)"
    using rnd unfolding draws_def g(2) by blast
  obtain shs where F: "fill_shares (member_share ?r gk (fst (fst (derivePairwiseMaterial (length newV) rs1))) (snd (fst (derivePairwiseMaterial (length newV) rs1))) lagrange
      (\<lambda>i. stdShareToNTT ?r (gomap_at new (int i + 1)))) newV = Inr shs"
    using fill_shares_total[of newV] member_share_total[OF lag] by blast
  show ?thesis using e v lag old R F by (simp add: KeyEra_Reshare_def Let_def)
qed

section \<open>Properties\<close>

text \<open>
  C10: an era keeps its key. In every state that a lifecycle reaches from a dealer's bootstrap by resharings,
  failed ones included, the group key, the era id, the genesis epoch and the hash suite are those
  of the bootstrap; epoch and generation have advanced together; and the shares held by the current
  validators are a sharing, at the current threshold, of the secret the dealer sampled.
\<close>

theorem era_lifecycle:
  assumes "bootstrapTrustedDealerImpl en newRing lg sys suite t vs gid eid entropy = Inr e0"
    and "lattice_ring (fst (newRing (2 ^ LogN) corona_q))" "rModulus (fst (newRing (2 ^ LogN) corona_q)) = corona_q"
    and "sampling_ok (envSampling en) (fst (newRing (2 ^ LogN) corona_q))"
    and "distinct vs" "int (length vs) < corona_q"
    and "era_reachable lg sys e0 e"
  shows "\<exists>gk s rest st. genGroupKey en newRing (case entropy of None \<Rightarrow> sys | Some rd \<Rightarrow> rd) = Inr ((gk, s), rest) \<and>
    kGroupKey e = Some gk \<and> kEraID e = eid \<and> kGenesisEpoch e = 0 \<and> kHashSuiteID e = hsID (Resolve (envXof en) suite) \<and>
    kState e = Some st \<and> erEpoch st = erGeneration st \<and> state_ok gk st (\<lambda>p k. pcoef (s ! p) k)"
proof -
  obtain gk s rest st0 where b: "genGroupKey en newRing (case entropy of None \<Rightarrow> sys | Some rd \<Rightarrow> rd) = Inr ((gk, s), rest)"
    "kGroupKey e0 = Some gk" "kState e0 = Some st0" "era_ok e0 (\<lambda>p k. pcoef (s ! p) k)" "kEraID e0 = eid" "kGenesisEpoch e0 = 0"
    "kHashSuiteID e0 = hsID (Resolve (envXof en) suite)" "erGeneration st0 = 0" "erEpoch st0 = 0"
    using bootstrap_ok[OF assms(1-6)] by blast
  show ?thesis using era_invariant[OF assms(7) b(4,3)] b by (auto simp: era_ok_def)
qed

definition ex8_rings :: ring_maker where
  "ex8_rings n q = (if q = corona_q then (slot_ring 8, True) else (coeff_ops q 8, True))"

definition ex_lagrange :: lagrange_lib where
  "ex_lagrange = (\<lambda>_. True, \<lambda>xs q. Inr xs)"

lemma mapSt_pure: "(\<And>x. x \<in> set xs \<Longrightarrow> f x st = Inr (g x, st)) \<Longrightarrow> mapSt f xs st = Inr (map g xs, st)"
  by (induction xs) simp_all

lemma shamir_t1: "ShamirSecretSharingGeneral r s 1 k rs = Inr (shamir_shares r (nat k) (map (\<lambda>p. map (\<lambda>c. map (\<lambda>i. shamir_eval (rModulus r) [c] (int i)) [1..<Suc (nat k)]) (rPolyToBigint r p)) s), rs)"
  by (simp add: ShamirSecretSharingGeneral_def shamir_deal_def shamir_coord_def mapSt_pure)

lemma ex_era:
  "\<exists>e. bootstrapTrustedDealerImpl ex8_env ex8_rings ex_lagrange [] None 1 [''a'', ''b''] 0 5 (Some (replicate 32 1)) = Inr e"
proof -
  have r: "ex8_rings (2 ^ LogN) corona_q = (slot_ring 8, True)" "fst (ex8_rings (2 ^ LogN) QXi) = coeff_ops 262144 8"
    by (simp_all add: ex8_rings_def QXi_def corona_q_def)
  have c: "coeff_ring (coeff_ops 262144 8)" by (rule coeff_ring_coeff_ops) simp_all
  obtain gk s where G: "genGroupKey ex8_env ex8_rings (replicate 32 1) = Inr ((gk, s), drop KeySize (replicate 32 1))" "paR (gkParams gk) = slot_ring 8"
    using genGroupKey_total[of ex8_rings "slot_ring 8" ex8_env "replicate 32 1"] r(1) lattice_ring_slot_ring[of 8] ex8_sampling_ok c unfolding r(2)
    by (auto simp: coeff_ops_def slot_ring_simps KeySize_def)
  obtain lagrange where lag: "computeFullCommitteeLagrange ex_lagrange (slot_ring 8) (Suc (Suc 0)) = Inr lagrange"
    by (simp add: computeFullCommitteeLagrange_def ComputeLagrangeCoefficients_def ex_lagrange_def must_def)
  have F: "\<exists>m. fill_shares (member_share (slot_ring 8) gk sd (snd (fst (derivePairwiseMaterial (Suc (Suc 0)) rs))) lagrange sk) [''a'', ''b''] = Inr m" for sd rs sk
    using fill_shares_total[of "[''a'', ''b'']"] member_share_total[OF lag] by simp
  have bind: "\<exists>m. x = Inr m \<Longrightarrow> \<exists>e. rbind x (\<lambda>m. Inr (h m)) = Inr e" for x :: "(string, KeyShare option) gomap res" and h :: "_ \<Rightarrow> KeyEra"
    by auto
  show ?thesis using G lag by (simp add: bootstrapTrustedDealerImpl_def Let_def shamir_t1) (intro bind F)
qed

theorem era_lifecycle_witness:
  "\<exists>e gk st s. bootstrapTrustedDealerImpl ex8_env ex8_rings ex_lagrange [] None 1 [''a'', ''b''] 0 5 (Some (replicate 32 1)) = Inr e \<and>
     kGroupKey e = Some gk \<and> kEraID e = 5 \<and> kState e = Some st \<and> state_ok gk st (\<lambda>p k. pcoef (s ! p) k)"
proof -
  obtain e where e: "bootstrapTrustedDealerImpl ex8_env ex8_rings ex_lagrange [] None 1 [''a'', ''b''] 0 5 (Some (replicate 32 1)) = Inr e"
    using ex_era by blast
  have r: "fst (ex8_rings (2 ^ LogN) corona_q) = slot_ring 8" by (simp add: ex8_rings_def)
  show ?thesis
    using era_lifecycle[OF e _ _ _ _ _ era_reachable.start] lattice_ring_slot_ring[of 8] ex8_sampling_ok e
    unfolding r by (fastforce simp: slot_ring_simps corona_q_def)
qed

text \<open>
  C18: resharing an era returns. A well-formed era is reshared to any committee and threshold
  within the documented bounds as soon as the reader holds enough acceptable draws and the Lagrange
  library answers, and the returned state is the era's new state; a resharing that fails leaves the
  era as it was.
\<close>

theorem era_reshare_returns:
  assumes "era_ok e S" "kGroupKey e = Some gk" "kState e = Some st"
    and "newV \<noteq> []" "1 \<le> newT" "newT \<le> int (length newV)"
    and "computeFullCommitteeLagrange lg (paR (gkParams gk)) (length newV) = Inr lagrange"
    and "reshare_draws (paR (gkParams gk)) (std_shares (paR (gkParams gk)) st) (erThreshold st) newT \<le> accepted corona_q rs"
  shows "(\<exists>e' st'. KeyEra_Reshare lg sys (Some e) newV newT (Some rs) = (Some e', Inr st') \<and> kState e' = Some st' \<and> erValidators st' = newV) \<and>
    (\<forall>V T rd e' err. KeyEra_Reshare lg sys (Some e) V T rd = (e', Inl err) \<longrightarrow> e' = Some e)"
proof
  obtain e' st' where r: "KeyEra_Reshare lg sys (Some e) newV newT (Some rs) = (Some e', Inr st')" using KeyEra_Reshare_total[OF assms] by blast
  then have "kState e' = Some st' \<and> erValidators st' = newV"
    using assms(2,3) by (auto simp: KeyEra_Reshare_def Let_def res_simps split: sum.splits if_splits)
  then show "\<exists>e' st'. KeyEra_Reshare lg sys (Some e) newV newT (Some rs) = (Some e', Inr st') \<and> kState e' = Some st' \<and> erValidators st' = newV"
    using r by blast
qed (use KeyEra_Reshare_error in blast)

theorem era_reshare_returns_witness:
  "\<exists>e e' st'. bootstrapTrustedDealerImpl ex8_env ex8_rings ex_lagrange [] None 1 [''a'', ''b''] 0 5 (Some (replicate 32 1)) = Inr e \<and>
     KeyEra_Reshare ex_lagrange [] (Some e) [''c'', ''a'', ''d''] 1 (Some []) = (Some e', Inr st') \<and> erValidators st' = [''c'', ''a'', ''d'']"
proof -
  obtain e where e: "bootstrapTrustedDealerImpl ex8_env ex8_rings ex_lagrange [] None 1 [''a'', ''b''] 0 5 (Some (replicate 32 1)) = Inr e"
    using ex_era by blast
  have r: "fst (ex8_rings (2 ^ LogN) corona_q) = slot_ring 8" by (simp add: ex8_rings_def)
  obtain gk s st where b: "kGroupKey e = Some gk" "kState e = Some st" "era_ok e (\<lambda>p k. pcoef (s ! p) k)"
    using bootstrap_ok[OF e] lattice_ring_slot_ring[of 8] ex8_sampling_ok unfolding r by (fastforce simp: slot_ring_simps corona_q_def)
  obtain lagrange where "computeFullCommitteeLagrange ex_lagrange (paR (gkParams gk)) (length [''c'', ''a'', ''d'']) = Inr lagrange"
    by (simp add: computeFullCommitteeLagrange_def ComputeLagrangeCoefficients_def ex_lagrange_def must_def)
  from era_reshare_returns[OF b(3,1,2) _ _ _ this, of 1 "[]" "[]"] show ?thesis using e by (auto simp: reshare_draws_def)
qed

end
