(* ===== verification/Bootstrap_Pedersen.thy ===== *)
theory Bootstrap_Pedersen
  imports Keyera_Lifecycle
begin

text \<open>
  \<^verbatim>\<open>keyera/bootstrap_pedersen.go\<close>, \<^verbatim>\<open>keyera/reanchor_pedersen.go\<close> and the entry points of
  \<^verbatim>\<open>keyera/keyera.go\<close> that use them: opening an era without a dealer. The verifiable secret sharing of
  \<^verbatim>\<open>github.com/luxfi/dkg\<close> is the record \<open>vss\<close>, whose objects have one opaque type;
  \<open>stream\<close> stands for the unbounded BLAKE3 output of \<^verbatim>\<open>derivedStream\<close>. The repository's own part is
  the derivation of seeds and keys, the noise flooding, the group key, the transcript and the
  abort evidence.
\<close>

section \<open>The library\<close>

record DealerInput =
  diCommits :: "vec list"
  diShare :: vec
  diBlind :: vec

record 'v vss =
  vRingtail :: "'v res"
  vProfileBase :: "'v \<Rightarrow> ring_ops"
  vProfileA :: "'v \<Rightarrow> matrix"
  vNodeIDLen :: nat
  vGenerateIdentity :: "bytes \<Rightarrow> 'v res"
  vPublicKey :: "'v \<Rightarrow> 'v"
  vNewIdentityDirectory :: "(bytes, 'v) gomap \<Rightarrow> 'v res"
  vNewParty :: "'v \<Rightarrow> bytes \<Rightarrow> 'v \<Rightarrow> int \<Rightarrow> int \<Rightarrow> int \<Rightarrow> bytes list \<Rightarrow> 'v \<Rightarrow> bytes \<Rightarrow> 'v res"
  vRound1 :: "'v \<Rightarrow> bytes \<Rightarrow> ('v \<times> 'v) res"
  vCommits :: "'v \<Rightarrow> vec list"
  vEnvelope :: "'v \<Rightarrow> int \<Rightarrow> 'v"
  vOpenDealerShare :: "'v \<Rightarrow> int \<Rightarrow> 'v \<Rightarrow> ((vec \<times> vec) \<times> 'v) res"
  vRound3 :: "'v \<Rightarrow> (int, DealerInput) gomap \<Rightarrow> (goerr \<times> 'v option) + vec"
  vDealerIndex :: "'v \<Rightarrow> nat"
  vRecipientIndex :: "'v \<Rightarrow> nat"
  vNewBadDeliveryComplaint :: "'v \<Rightarrow> 'v \<Rightarrow> bytes \<Rightarrow> bytes \<Rightarrow> bytes \<Rightarrow> 'v \<Rightarrow> 'v res"

section \<open>Errors that carry evidence\<close>

record 'v AbortEvidence =
  aeTranscriptHash :: bytes
  aeComplaints :: "'v list"
  aeDisqualified :: "int list"

text \<open>An error tree: a sentinel, \<^verbatim>\<open>fmt.Errorf\<close> with one or with several \<^verbatim>\<open>%w\<close>, and
  \<^verbatim>\<open>bootstrapAbortErr\<close>.\<close>

datatype 'v eerr =
    EErr goerr
  | EWrap "'v eerr"
  | EJoin "'v eerr list"
  | EAbort "'v AbortEvidence" "'v eerr option"

definition abortEvidenceWrap :: "'v AbortEvidence \<Rightarrow> 'v eerr \<Rightarrow> 'v eerr" where
  "abortEvidenceWrap ev inner = EAbort ev (Some inner)"

fun asBootstrapAbortErr :: "'v eerr \<Rightarrow> 'v AbortEvidence option" where
  "asBootstrapAbortErr (EErr e) = None"
| "asBootstrapAbortErr (EAbort ev inner) = Some ev"
| "asBootstrapAbortErr (EWrap e) = asBootstrapAbortErr e"
| "asBootstrapAbortErr (EJoin []) = None"
| "asBootstrapAbortErr (EJoin (e # es)) =
     (case asBootstrapAbortErr e of Some ev \<Rightarrow> Some ev | None \<Rightarrow> asBootstrapAbortErr (EJoin es))"

definition ExtractAbortEvidence :: "'v eerr option \<Rightarrow> 'v AbortEvidence option" where
  "ExtractAbortEvidence err = (case err of None \<Rightarrow> None | Some e \<Rightarrow> asBootstrapAbortErr e)"

text \<open>An error returned as it is, and one wrapped with \<^verbatim>\<open>%w\<close>; a panic and a call that does not
  return are not errors and pass through.\<close>

definition plain :: "'a res \<Rightarrow> 'v eerr + 'a" where
  "plain x = (case x of Inl e \<Rightarrow> Inl (EErr e) | Inr a \<Rightarrow> Inr a)"

definition wrapped :: "'a res \<Rightarrow> 'v eerr + 'a" where
  "wrapped x = (case x of Inl e \<Rightarrow> Inl (if e = Panic \<or> e = Diverge then EErr e else EWrap (EErr e)) | Inr a \<Rightarrow> Inr a)"

section \<open>Framing and serialisation\<close>

definition u32be :: "u32 \<Rightarrow> bytes" where "u32be x = be32 x"

definition framedJoin :: "bytes list \<Rightarrow> bytes" where "framedJoin digests = concat digests"

definition framedJoinValidators :: "string list \<Rightarrow> bytes" where
  "framedJoinValidators validators = concat (map (\<lambda>v. be32 (word_of_nat (length v)) @ str_bytes v) validators)"

definition framedJoinUint32 :: "u32 list \<Rightarrow> bytes" where "framedJoinUint32 vs = concat (map be32 vs)"

definition framedJoinBytes :: "bytes list \<Rightarrow> bytes" where
  "framedJoinBytes parts = concat (map (\<lambda>p. be32 (word_of_nat (length p)) @ p) parts)"

definition serializeVector :: "lat_codec \<Rightarrow> vec \<Rightarrow> bytes res" where
  "serializeVector lc v = rbind (encVector lc v) (\<lambda>inner. Inr (be32 (word_of_nat (length inner)) @ inner))"

definition bTildeBytes :: "lat_codec \<Rightarrow> vec \<Rightarrow> bytes" where
  "bTildeBytes lc v = (case encVector lc v of Inl _ \<Rightarrow> [] | Inr b \<Rightarrow> b)"

definition shareBytes :: "lat_codec \<Rightarrow> vec \<Rightarrow> bytes" where
  "shareBytes lc v = (case encVector lc v of Inl _ \<Rightarrow> [] | Inr b \<Rightarrow> b)"

definition coronaCommitDigest :: "'s env \<Rightarrow> hash_suite \<Rightarrow> vec list \<Rightarrow> bytes res" where
  "coronaCommitDigest en suite commits =
     rbind (mapM (encVector (envCodec en)) commits) (\<lambda>bs.
     Inr (hsTranscriptHash suite [str_bytes ''CORONA-DKG2-COMMIT-DIGEST-v1'', str_bytes (hsID suite), concat bs]))"

definition derivedStream :: "(bytes \<Rightarrow> bytes) \<Rightarrow> string \<Rightarrow> u32 \<Rightarrow> bytes" where
  "derivedStream stream tag sel = stream (str_bytes tag @ u32be sel)"

definition seededRound1Rng :: "(bytes \<Rightarrow> bytes) \<Rightarrow> bytes \<Rightarrow> nat \<Rightarrow> bytes" where
  "seededRound1Rng stream seed partyIndex = seed @ derivedStream stream ''CORONA-BOOTSTRAP-PEDERSEN-KEMSTREAM-v1'' (word_of_nat partyIndex)"

definition pedersenNodeID :: "'v vss \<Rightarrow> nat \<Rightarrow> bytes" where
  "pedersenNodeID v i = be16 (word_of_nat (i + 1)) @ [0xC0] @ replicate (vNodeIDLen v - 3) 0"

definition seedLabel :: "nat \<Rightarrow> nat \<Rightarrow> bytes" where
  "seedLabel i j = str_bytes ''seed'' @ u32be (word_of_nat i) @ u32be (word_of_nat j)"

section \<open>Sessions and dealing\<close>

record 'v pedersenSession =
  psProfile :: 'v
  psParties :: "'v list"
  psIds :: "'v list"
  psNodes :: "bytes list"
  psContext :: bytes
  psCr :: ring_ops
  psCrXi :: ring_ops

record 'v PedersenContributions =
  pcSession :: "'v pedersenSession option"
  pcCommits :: "vec list list"
  pcDigests :: "bytes list"
  pcInputs :: "(int, DealerInput) gomap list"

definition newPedersenSession ::
  "xof \<Rightarrow> ring_maker \<Rightarrow> (bytes \<Rightarrow> bytes) \<Rightarrow> 'v vss \<Rightarrow> int \<Rightarrow> nat \<Rightarrow> 'v eerr + 'v pedersenSession" where
  "newPedersenSession x newRing stream v t n =
     rbind (wrapped (vRingtail v)) (\<lambda>profile.
     let crXi = fst (newRing (2 ^ LogN) QXi); nodes = map (pedersenNodeID v) [0..<n] in
     rbind (wrapped (mapM (\<lambda>i. vGenerateIdentity v (derivedStream stream ''CORONA-BOOTSTRAP-PEDERSEN-IDENTITY-v1'' (word_of_nat i))) [0..<n])) (\<lambda>ids.
     let entries = foldl (\<lambda>m (nd, k). AList.update nd (vPublicKey v k) m) [] (zip nodes ids) in
     rbind (wrapped (vNewIdentityDirectory v entries)) (\<lambda>dir.
     let context = fixed32 (blake3 x (str_bytes ''CORONA-BOOTSTRAP-PEDERSEN-CONTEXT-v1'' @ u32be (word_of_int t) @ u32be (word_of_nat n)) 32) in
     rbind (wrapped (mapM (\<lambda>i. vNewParty v profile (nodes ! i) (ids ! i) (int i) (int n) t nodes dir context) [0..<n])) (\<lambda>parties.
     Inr \<lparr> psProfile = profile, psParties = parties, psIds = ids, psNodes = nodes, psContext = context,
           psCr = vProfileBase v profile, psCrXi = crXi \<rparr>))))"

text \<open>Recipient \<open>j\<close> opens the envelope of every dealer; its party object is threaded
  through.\<close>

definition open_shares :: "'v vss \<Rightarrow> 'v list \<Rightarrow> nat \<Rightarrow> 'v \<Rightarrow> ((int, DealerInput) gomap \<times> 'v) res" where
  "open_shares v outs j party =
     mapSt (\<lambda>(i, out) p. rbind (vOpenDealerShare v p (int i) (vEnvelope v out (int j))) (\<lambda>((share, blind), p').
       Inr ((int i, \<lparr> diCommits = vCommits v out, diShare = share, diBlind = blind \<rparr>), p')))
       (enumerate 0 outs) party"

definition dealPedersen ::
  "'s env \<Rightarrow> ring_maker \<Rightarrow> (bytes \<Rightarrow> bytes) \<Rightarrow> 'v vss \<Rightarrow> hash_suite \<Rightarrow> int \<Rightarrow> nat \<Rightarrow> bytes list \<Rightarrow> 'v eerr + 'v PedersenContributions" where
  "dealPedersen en newRing stream v suite t n round1Seeds =
     (if length round1Seeds \<noteq> n then Inl (EWrap (EErr ErrBootstrapPedersenShape))
      else
        rbind (newPedersenSession (envXof en) newRing stream v t n) (\<lambda>sess.
        rbind (wrapped (mapM (\<lambda>i. vRound1 v (psParties sess ! i) (seededRound1Rng stream (round1Seeds ! i) i)) [0..<n])) (\<lambda>round1.
        let outs = map snd round1; commits = map (vCommits v) outs in
        rbind (wrapped (mapM (coronaCommitDigest en suite) commits)) (\<lambda>digests.
        rbind (wrapped (mapM (\<lambda>j. open_shares v outs j (fst (round1 ! j))) [0..<n])) (\<lambda>rows.
        Inr \<lparr> pcSession = Some (sess \<lparr> psParties := map snd rows \<rparr>), pcCommits = commits, pcDigests = digests, pcInputs = map fst rows \<rparr>)))))"

section \<open>Abort evidence\<close>

definition buildAbortEvidence ::
  "'v vss \<Rightarrow> 'v pedersenSession \<Rightarrow> hash_suite \<Rightarrow> string \<Rightarrow> bytes list \<Rightarrow> nat \<Rightarrow> int \<Rightarrow> string list \<Rightarrow> 'v \<Rightarrow> 'v AbortEvidence res" where
  "buildAbortEvidence v sess suite suiteID digests n t validators fault =
     (let transcriptHash = hsTranscriptHash suite [str_bytes ''CORONA-BOOTSTRAP-PEDERSEN-TRANSCRIPT-v1'', str_bytes suiteID,
            framedJoinValidators validators, framedJoinUint32 [word_of_int t, word_of_nat n], framedJoin digests] in
      rbind (idx (psNodes sess) (vDealerIndex v fault)) (\<lambda>accused.
      rbind (idx (psNodes sess) (vRecipientIndex v fault)) (\<lambda>accuser.
      rbind (idx (psIds sess) (vRecipientIndex v fault)) (\<lambda>key.
      rbind (vNewBadDeliveryComplaint v (psProfile sess) fault transcriptHash accused accuser key) (\<lambda>c.
      Inr \<lparr> aeTranscriptHash = transcriptHash, aeComplaints = [c], aeDisqualified = [int (vDealerIndex v fault)] \<rparr>)))))"

text \<open>Round 3 of one recipient. A panic of it, which reports no fault, and a panic while the evidence
  is built take the process down.\<close>

definition round3_share ::
  "'v vss \<Rightarrow> 'v pedersenSession \<Rightarrow> hash_suite \<Rightarrow> string \<Rightarrow> bytes list \<Rightarrow> nat \<Rightarrow> int \<Rightarrow> string list \<Rightarrow> (int, DealerInput) gomap list \<Rightarrow> nat \<Rightarrow> 'v eerr + vec" where
  "round3_share v sess suite suiteID digests n t validators inputs j =
     rbind (plain (idx (psParties sess) j)) (\<lambda>p. rbind (plain (idx inputs j)) (\<lambda>row.
     (case vRound3 v p row of
        Inr share \<Rightarrow> Inr share
      | Inl (err, None) \<Rightarrow> Inl (if go_error err then EWrap (EErr err) else EErr err)
      | Inl (err, Some fault) \<Rightarrow>
          (case buildAbortEvidence v sess suite suiteID digests n t validators fault of
             Inl e \<Rightarrow> Inl (if go_error e then EWrap (EErr err) else EErr e)
           | Inr ev \<Rightarrow> Inl (EJoin [EErr ErrBootstrapPedersenAbort, abortEvidenceWrap ev (EErr err)])))))"

section \<open>Noise flooding\<close>

text \<open>\<^verbatim>\<open>pathANoiseParameters\<close>: the floating-point deviation \<open>\<kappa> \<sigma>\<^sub>E \<surd>n\<close> and its
  bound are one parameter set of the sampler.\<close>

definition pathANoiseParameters :: "nat \<Rightarrow> gauss_params" where
  "pathANoiseParameters n = GaussFlood n"

definition noise_seed :: "hash_suite \<Rightarrow> string \<Rightarrow> bytes list \<Rightarrow> string list \<Rightarrow> int \<Rightarrow> nat \<Rightarrow> bytes" where
  "noise_seed suite suiteID digests validators t n =
     hsTranscriptHash suite [str_bytes ''CORONA-BOOTSTRAP-PEDERSEN-NOISEFLOOD-v1'', str_bytes suiteID, framedJoin digests,
       framedJoinValidators validators, framedJoinUint32 [word_of_int t, word_of_nat n]]"

definition samplePathANoise :: "'s env \<Rightarrow> ring_ops \<Rightarrow> hash_suite \<Rightarrow> bytes \<Rightarrow> nat \<Rightarrow> gauss_params \<Rightarrow> vec" where
  "samplePathANoise en r suite transcript partyID par =
     (let sm = envSampling en;
          seed = hsTranscriptHash suite [transcript, str_bytes ''party'', be32 (word_of_nat partyID)]
      in fst (SamplePolyVector r dimM (gaussRead sm) True True (NewGaussianSampler sm r par (NewKeyedPRNG sm seed))))"

text \<open>The product \<open>A (\<lambda>\<^sub>j s\<^sub>j)\<close> and the published \<open>\<beta>\<^sub>j\<close>.\<close>

definition path_a_product :: "ring_ops \<Rightarrow> matrix \<Rightarrow> poly \<Rightarrow> vec \<Rightarrow> vec res" where
  "path_a_product cr A lagrange_j share =
     (if length share < dimN then Inl Panic
      else
        let lam = rMForm cr (rNTT cr lagrange_j);
            sNTT = map (\<lambda>p. rMForm cr (rNTT cr p)) (take dimN share);
            scaled = map (\<lambda>p. rMulCoeffsMontgomery cr p lam) sNTT
        in MatrixVectorMul cr A scaled (InitializeVector cr dimM))"

definition path_a_beta :: "'s env \<Rightarrow> ring_ops \<Rightarrow> matrix \<Rightarrow> hash_suite \<Rightarrow> bytes \<Rightarrow> nat \<Rightarrow> vec \<Rightarrow> vec list \<Rightarrow> nat \<Rightarrow> vec res" where
  "path_a_beta en cr A suite seed n lagrange sShares j =
     rbind (idx lagrange j) (\<lambda>lj. rbind (idx sShares j) (\<lambda>s.
     rbind (path_a_product cr A lj s) (\<lambda>Aprod.
     VectorAdd cr Aprod (samplePathANoise en cr suite seed j (pathANoiseParameters n)) (InitializeVector cr dimM))))"

text \<open>One turn of the loop over the committee.\<close>

definition path_a_step ::
  "'s env \<Rightarrow> ring_ops \<Rightarrow> (nat \<Rightarrow> vec res) \<Rightarrow> vec \<times> bytes list \<Rightarrow> nat \<Rightarrow> 'v eerr + (vec \<times> bytes list)" where
  "path_a_step en cr beta = (\<lambda>(bSum, bufs) j.
     rbind (plain (beta j)) (\<lambda>b.
     rbind (wrapped (serializeVector (envCodec en) b)) (\<lambda>buf.
     rbind (plain (VectorAdd cr bSum b bSum)) (\<lambda>bSum'. Inr (bSum', bufs @ [buf])))))"

section \<open>Pairwise keys from the dealt shares\<close>

definition sealedShare :: "'s env \<Rightarrow> (int, DealerInput) gomap list \<Rightarrow> nat \<Rightarrow> nat \<Rightarrow> bytes res" where
  "sealedShare en inputs dealer recipient =
     rbind (idx inputs recipient) (\<lambda>row.
     (case map_of row (int dealer) of None \<Rightarrow> Inl Panic | Some di \<Rightarrow> Inr (shareBytes (envCodec en) (diShare di))))"

definition pairKex :: "'s env \<Rightarrow> hash_suite \<Rightarrow> string \<Rightarrow> (int, DealerInput) gomap list \<Rightarrow> nat \<Rightarrow> nat \<Rightarrow> bytes res" where
  "pairKex en suite suiteID inputs i j =
     (let a = min i j; b = max i j in
      rbind (sealedShare en inputs a b) (\<lambda>x. rbind (sealedShare en inputs b a) (\<lambda>y.
      Inr (hsTranscriptHash suite [str_bytes ''CORONA-BOOTSTRAP-PEDERSEN-PAIRWISE-SECRET-v1'', str_bytes suiteID, x, y]))))"

definition pair_seed :: "'s env \<Rightarrow> hash_suite \<Rightarrow> string \<Rightarrow> (int, DealerInput) gomap list \<Rightarrow> vec list \<Rightarrow> nat \<Rightarrow> nat \<Rightarrow> bytes res" where
  "pair_seed en suite suiteID inputs sShares i j =
     (if i = j then rbind (idx sShares i) (\<lambda>s.
        Inr (hsPRF suite (hsTranscriptHash suite [str_bytes ''CORONA-BOOTSTRAP-PEDERSEN-SELFSEED-v1'', str_bytes suiteID, shareBytes (envCodec en) s])
          (seedLabel i j) KeySize))
      else rbind (pairKex en suite suiteID inputs i j) (\<lambda>k. Inr (hsPRF suite k (seedLabel i j) KeySize)))"

definition derivePairwiseFromShares ::
  "'s env \<Rightarrow> hash_suite \<Rightarrow> string \<Rightarrow> nat \<Rightarrow> (int, DealerInput) gomap list \<Rightarrow> vec list \<Rightarrow>
   ((int, bytes list) gomap \<times> (int, bytes) gomap list) res" where
  "derivePairwiseFromShares en suite suiteID n inputs sShares =
     rbind (mapM (\<lambda>i. rbind (mapM (pair_seed en suite suiteID inputs sShares i) [0..<n]) (\<lambda>row. Inr (int i, row))) [0..<n]) (\<lambda>seeds.
     rbind (mapM (\<lambda>(i, j). rbind (pairKex en suite suiteID inputs i j) (\<lambda>k. Inr (hsPRF suite k (str_bytes ''mac'') KeySize))) (upper_pairs n)) (\<lambda>ms.
     Inr (seeds, pair_table n (\<lambda>p. the (map_of (zip (upper_pairs n) ms) p)))))"

text \<open>\<open>prng\<close> is the output of the keyed generator.\<close>

definition derivePairwisePedersen :: "(bytes \<Rightarrow> bytes) \<Rightarrow> nat \<Rightarrow> bytes \<Rightarrow> (int, bytes list) gomap \<times> (int, bytes) gomap list" where
  "derivePairwisePedersen prng n transcriptSeed = fst (derivePairwiseMaterial n (prng transcriptSeed))"

section \<open>Assembling the era\<close>

record BootstrapTranscript =
  btValidators :: "string list"
  btThreshold :: int
  btHashSuiteID :: string
  btRound1Digests :: "bytes list"
  btBetaSerialized :: "bytes list"
  btBTildeBytes :: bytes
  btTranscriptHash :: bytes

text \<open>The loop that sums the published \<open>\<beta>\<^sub>j\<close>.\<close>

definition path_a_sum ::
  "'s env \<Rightarrow> ring_ops \<Rightarrow> matrix \<Rightarrow> hash_suite \<Rightarrow> bytes \<Rightarrow> nat \<Rightarrow> vec \<Rightarrow> vec list \<Rightarrow> 'v eerr + (vec \<times> bytes list)" where
  "path_a_sum en cr A suite seed n lagrange sShares =
     foldM (path_a_step en cr (path_a_beta en cr A suite seed n lagrange sShares)) (InitializeVector cr dimM, []) [0..<n]"

definition bootstrap_transcript ::
  "lat_codec \<Rightarrow> hash_suite \<Rightarrow> string \<Rightarrow> int \<Rightarrow> nat \<Rightarrow> string list \<Rightarrow> bytes list \<Rightarrow> bytes list \<Rightarrow> vec \<Rightarrow> BootstrapTranscript" where
  "bootstrap_transcript lc suite suiteID t n validators digests betaSerialized bTilde =
     \<lparr> btValidators = validators, btThreshold = t, btHashSuiteID = suiteID, btRound1Digests = digests,
       btBetaSerialized = betaSerialized, btBTildeBytes = bTildeBytes lc bTilde,
       btTranscriptHash = hsTranscriptHash suite [str_bytes ''CORONA-BOOTSTRAP-PEDERSEN-TRANSCRIPT-v1'', str_bytes suiteID,
         framedJoinValidators validators, framedJoinUint32 [word_of_int t, word_of_nat n], framedJoin digests,
         framedJoinBytes betaSerialized, bTildeBytes lc bTilde] \<rparr>"

definition finishPedersenContribs ::
  "'s env \<Rightarrow> ring_maker \<Rightarrow> lagrange_lib \<Rightarrow> 'v vss \<Rightarrow> hash_suite \<Rightarrow> string \<Rightarrow> int \<Rightarrow> nat \<Rightarrow> string list \<Rightarrow> CoronaGroupID \<Rightarrow> CoronaKeyEraID \<Rightarrow>
   'v PedersenContributions \<Rightarrow> 'v eerr + (KeyEra \<times> BootstrapTranscript)" where
  "finishPedersenContribs en newRing lg v suite suiteID t n validators groupID eraID contribs =
     (case pcSession contribs of None \<Rightarrow> Inl (EErr Panic) | Some sess \<Rightarrow>
      let cr = psCr sess; digests = pcDigests contribs; A = vProfileA v (psProfile sess) in
      rbind (mapM (round3_share v sess suite suiteID digests n t validators (pcInputs contribs)) [0..<n]) (\<lambda>sShares.
      rbind (plain (computeFullCommitteeLagrange lg cr n)) (\<lambda>lagrange.
      rbind (path_a_sum en cr A suite (noise_seed suite suiteID digests validators t n) n lagrange sShares) (\<lambda>(bSum, betaSerialized).
      rbind (plain (RoundVector (psCrXi sess) (ConvertVectorFromNTT cr bSum) Xi)) (\<lambda>bTilde.
      rbind (wrapped (NewParams newRing)) (\<lambda>thParams.
      let gk = \<lparr> gkA = A, gkBTilde = Some bTilde, gkParams = thParams \<rparr> in
      rbind (plain (derivePairwiseFromShares en suite suiteID n (pcInputs contribs) sShares)) (\<lambda>(seeds, macKeysByParty).
      rbind (plain (fill_shares (member_share (paR thParams) gk seeds macKeysByParty lagrange
          (\<lambda>j. ConvertVectorToNTT (paR thParams) (take dimN (sShares ! j)))) validators)) (\<lambda>shs.
      Inr (\<lparr> kEraID = eraID, kGroupID = groupID, kGroupKey = Some gk, kGenesisEpoch = 0, kHashSuiteID = suiteID,
             kState = Some \<lparr> erKeyEraID = eraID, erHashSuiteID = suiteID, erGeneration = 0, erRollbackFrom = 0, erEpoch = 0,
               erValidators = validators, erThreshold = t, erShares = shs \<rparr> \<rparr>,
           bootstrap_transcript (envCodec en) suite suiteID t n validators digests betaSerialized bTilde)))))))))"

section \<open>Entry points\<close>

text \<open>The seeds of the parties, read in order.\<close>

fun read_seeds :: "nat \<Rightarrow> bytes \<Rightarrow> bytes list res" where
  "read_seeds 0 rs = Inr []"
| "read_seeds (Suc n) rs = rbind (ReadFull rs KeySize) (\<lambda>(seed, rs'). rbind (read_seeds n rs') (\<lambda>seeds. Inr (seed # seeds)))"

definition BootstrapPedersen ::
  "'s env \<Rightarrow> ring_maker \<Rightarrow> lagrange_lib \<Rightarrow> (bytes \<Rightarrow> bytes) \<Rightarrow> 'v vss \<Rightarrow> bytes \<Rightarrow> hash_suite option \<Rightarrow> int \<Rightarrow> string list \<Rightarrow> CoronaGroupID \<Rightarrow>
   CoronaKeyEraID \<Rightarrow> bytes option \<Rightarrow> 'v eerr + (KeyEra \<times> BootstrapTranscript)" where
  "BootstrapPedersen en newRing lg stream v rand_Reader suite t validators groupID eraID entropy =
     (let n = length validators; hs = Resolve (envXof en) suite in
      if validators = [] then Inl (EErr ErrEmptyValidators)
      else if t < 1 \<or> t > int n then Inl (EWrap (EErr ErrInvalidThreshold))
      else if n < 2 then Inl (EWrap (EErr ErrBootstrapPedersenShape))
      else if t \<ge> int n then Inl (EWrap (EErr ErrBootstrapPedersenShape))
      else
        rbind (wrapped (read_seeds n (case entropy of None \<Rightarrow> rand_Reader | Some e \<Rightarrow> e))) (\<lambda>round1Seeds.
        rbind (dealPedersen en newRing stream v hs t n round1Seeds) (\<lambda>contribs.
        finishPedersenContribs en newRing lg v hs (hsID hs) t n validators groupID eraID contribs)))"

definition DealPedersen ::
  "'s env \<Rightarrow> ring_maker \<Rightarrow> (bytes \<Rightarrow> bytes) \<Rightarrow> 'v vss \<Rightarrow> hash_suite option \<Rightarrow> int \<Rightarrow> string list \<Rightarrow> bytes list \<Rightarrow> 'v eerr + 'v PedersenContributions" where
  "DealPedersen en newRing stream v suite t validators seeds =
     (let n = length validators in
      if validators = [] then Inl (EErr ErrEmptyValidators)
      else if t < 1 \<or> t > int n then Inl (EWrap (EErr ErrInvalidThreshold))
      else if n < 2 \<or> t \<ge> int n then Inl (EWrap (EErr ErrBootstrapPedersenShape))
      else if length seeds \<noteq> n then Inl (EWrap (EErr ErrBootstrapPedersenShape))
      else dealPedersen en newRing stream v (Resolve (envXof en) suite) t n seeds)"

definition FinishBootstrapPedersen ::
  "'s env \<Rightarrow> ring_maker \<Rightarrow> lagrange_lib \<Rightarrow> 'v vss \<Rightarrow> hash_suite option \<Rightarrow> int \<Rightarrow> string list \<Rightarrow> CoronaGroupID \<Rightarrow> CoronaKeyEraID \<Rightarrow>
   'v PedersenContributions option \<Rightarrow> 'v eerr + (KeyEra \<times> BootstrapTranscript)" where
  "FinishBootstrapPedersen en newRing lg v suite t validators groupID eraID contribs =
     (let n = length validators; hs = Resolve (envXof en) suite in
      if validators = [] then Inl (EErr ErrEmptyValidators)
      else if t < 1 \<or> t > int n then Inl (EWrap (EErr ErrInvalidThreshold))
      else if n < 2 \<or> t \<ge> int n then Inl (EWrap (EErr ErrBootstrapPedersenShape))
      else (case contribs of
          None \<Rightarrow> Inl (EWrap (EErr ErrBootstrapPedersenShape))
        | Some c \<Rightarrow>
            if pcSession c = None \<or> length (pcInputs c) \<noteq> n then Inl (EWrap (EErr ErrBootstrapPedersenShape))
            else finishPedersenContribs en newRing lg v hs (hsID hs) t n validators groupID eraID c))"

definition ReanchorPedersenWithSuite ::
  "'s env \<Rightarrow> ring_maker \<Rightarrow> lagrange_lib \<Rightarrow> (bytes \<Rightarrow> bytes) \<Rightarrow> 'v vss \<Rightarrow> bytes \<Rightarrow> KeyEra option \<Rightarrow> hash_suite option \<Rightarrow> int \<Rightarrow> string list \<Rightarrow>
   CoronaGroupID \<Rightarrow> bytes option \<Rightarrow> 'v eerr + (KeyEra \<times> BootstrapTranscript)" where
  "ReanchorPedersenWithSuite en newRing lg stream v rand_Reader prev suite t validators groupID entropy =
     (case next_ids prev of (nextEraID, nextEpoch) \<Rightarrow>
        rbind (BootstrapPedersen en newRing lg stream v rand_Reader suite t validators groupID nextEraID entropy) (\<lambda>(e, transcript).
        Inr (at_epoch nextEpoch e, transcript)))"

definition ReanchorPedersen ::
  "'s env \<Rightarrow> ring_maker \<Rightarrow> lagrange_lib \<Rightarrow> (bytes \<Rightarrow> bytes) \<Rightarrow> 'v vss \<Rightarrow> bytes \<Rightarrow> KeyEra option \<Rightarrow> int \<Rightarrow> string list \<Rightarrow>
   CoronaGroupID \<Rightarrow> bytes option \<Rightarrow> 'v eerr + (KeyEra \<times> BootstrapTranscript)" where
  "ReanchorPedersen en newRing lg stream v rand_Reader prev t validators groupID entropy =
     ReanchorPedersenWithSuite en newRing lg stream v rand_Reader prev (Some (inherited_suite (envXof en) prev)) t validators groupID entropy"

definition Bootstrap ::
  "'s env \<Rightarrow> ring_maker \<Rightarrow> lagrange_lib \<Rightarrow> (bytes \<Rightarrow> bytes) \<Rightarrow> 'v vss \<Rightarrow> bytes \<Rightarrow> int \<Rightarrow> string list \<Rightarrow> CoronaGroupID \<Rightarrow> CoronaKeyEraID \<Rightarrow>
   bytes option \<Rightarrow> 'v eerr + (KeyEra \<times> BootstrapTranscript)" where
  "Bootstrap en newRing lg stream v rand_Reader t validators groupID eraID entropy =
     BootstrapPedersen en newRing lg stream v rand_Reader (Some (Default (envXof en))) t validators groupID eraID entropy"

definition BootstrapWithSuite ::
  "'s env \<Rightarrow> ring_maker \<Rightarrow> lagrange_lib \<Rightarrow> (bytes \<Rightarrow> bytes) \<Rightarrow> 'v vss \<Rightarrow> bytes \<Rightarrow> hash_suite option \<Rightarrow> int \<Rightarrow> string list \<Rightarrow> CoronaGroupID \<Rightarrow>
   CoronaKeyEraID \<Rightarrow> bytes option \<Rightarrow> 'v eerr + (KeyEra \<times> BootstrapTranscript)" where
  "BootstrapWithSuite en newRing lg stream v rand_Reader suite t validators groupID eraID entropy =
     BootstrapPedersen en newRing lg stream v rand_Reader suite t validators groupID eraID entropy"

definition Reanchor ::
  "'s env \<Rightarrow> ring_maker \<Rightarrow> lagrange_lib \<Rightarrow> (bytes \<Rightarrow> bytes) \<Rightarrow> 'v vss \<Rightarrow> bytes \<Rightarrow> KeyEra option \<Rightarrow> int \<Rightarrow> string list \<Rightarrow>
   CoronaGroupID \<Rightarrow> bytes option \<Rightarrow> 'v eerr + (KeyEra \<times> BootstrapTranscript)" where
  "Reanchor en newRing lg stream v rand_Reader prev t validators groupID entropy =
     ReanchorPedersen en newRing lg stream v rand_Reader prev t validators groupID entropy"

definition ReanchorWithSuite ::
  "'s env \<Rightarrow> ring_maker \<Rightarrow> lagrange_lib \<Rightarrow> (bytes \<Rightarrow> bytes) \<Rightarrow> 'v vss \<Rightarrow> bytes \<Rightarrow> KeyEra option \<Rightarrow> hash_suite option \<Rightarrow> int \<Rightarrow> string list \<Rightarrow>
   CoronaGroupID \<Rightarrow> bytes option \<Rightarrow> 'v eerr + (KeyEra \<times> BootstrapTranscript)" where
  "ReanchorWithSuite en newRing lg stream v rand_Reader prev suite t validators groupID entropy =
     ReanchorPedersenWithSuite en newRing lg stream v rand_Reader prev suite t validators groupID entropy"

end
