(* ===== verification/Pedersen_Era.thy ===== *)
theory Pedersen_Era
  imports Bootstrap_Pedersen Commit
begin

text \<open>
  What the dealerless bootstrap establishes: the published group key is that of the shared secret with
  the summed noise, the era is well-formed and enters the lifecycle of \<open>Keyera_Lifecycle\<close>, and an
  aborted run carries the evidence that names the dealer.
\<close>

section \<open>Linear combinations under the transform\<close>

context lattice_ring
begin

lemma slot_combination:
  assumes s: "\<And>p. p < dimN \<Longrightarrow> s ! p = pbuild (rModulus rg) (rN rg) (\<lambda>k. \<Sum>j<n. w j * pcoef (sh j ! p) k)"
    and ok: "\<And>j. j < (n :: nat) \<Longrightarrow> vec_ok rg dimN (sh j)" and k: "k < rN rg"
  shows "slot M s i k mod rModulus rg = (\<Sum>j<n. w j * slot M (sh j) i k) mod rModulus rg"
proof -
  have c: "pcoef (rNTT rg (s ! p)) k mod rModulus rg = (\<Sum>j<n. w j * pcoef (rNTT rg (sh j ! p)) k) mod rModulus rg" if p: "p < dimN" for p
  proof -
    have "valid (sh j ! p)" if "j < n" for j using ok[OF that] vec_ok_nth p by blast
    then show ?thesis unfolding s[OF p] using NTT_combination[of n "\<lambda>j. sh j ! p" w] k q_simps by simp
  qed
  have "slot M s i k mod rModulus rg = (\<Sum>p<dimN. pcoef (M ! i ! p) k * Rinv * (\<Sum>j<n. w j * pcoef (rNTT rg (sh j ! p)) k)) mod rModulus rg"
    unfolding slot_def by (intro sum_cong_mod mod_mult_cong refl c)
  also have "(\<Sum>p<dimN. pcoef (M ! i ! p) k * Rinv * (\<Sum>j<n. w j * pcoef (rNTT rg (sh j ! p)) k))
      = (\<Sum>p<dimN. \<Sum>j<n. w j * (pcoef (M ! i ! p) k * Rinv * pcoef (rNTT rg (sh j ! p)) k))"
    by (simp add: sum_distrib_left mult.left_commute mult.assoc)
  also have "\<dots> = (\<Sum>j<n. w j * slot M (sh j) i k)"
    by (subst sum.swap) (simp add: slot_def sum_distrib_left)
  finally show ?thesis .
qed

lemma MatrixVectorMul_coef:
  assumes M: "mat_ok rg dimM dimN M" and v: "vec_ok rg dimN v"
  shows "\<exists>y. MatrixVectorMul rg M v (InitializeVector rg dimM) = Inr y \<and> vec_ok rg dimM y \<and>
    (\<forall>i < dimM. \<forall>k < rN rg. pcoef (y ! i) k = (\<Sum>j<dimN. pcoef (M ! i ! j) k * Rinv * pcoef (v ! j) k) mod rModulus rg)"
proof -
  let ?y = "map2 (\<lambda>row acc. row_mul rg row v acc) M (InitializeVector rg dimM)"
  note mv = MatrixVectorMul_ok[OF M v vec_ok_InitializeVector]
  have "pcoef (?y ! i) k = (\<Sum>j<dimN. pcoef (M ! i ! j) k * Rinv * pcoef (v ! j) k) mod rModulus rg" if ik: "i < dimM" "k < rN rg" for i k
  proof -
    have row: "vec_ok rg dimN (M ! i)" using mat_ok_nth[OF M ik(1)] .
    have "pcoef (row_mul rg (M ! i) v (rNewPoly rg)) k = (\<Sum>j<dimN. pcoef (M ! i ! j) k * pcoef (v ! j) k) * Rinv mod rModulus rg"
      using row v ik q_simps sum_list_zip_map[of "M ! i" dimN v "\<lambda>m. pcoef m k" "\<lambda>m. pcoef m k" "\<lambda>x. x"]
      by (simp add: row_mul_spec vec_ok_def valid_NewPoly)
    also have "(\<Sum>j<dimN. pcoef (M ! i ! j) k * pcoef (v ! j) k) * Rinv = (\<Sum>j<dimN. pcoef (M ! i ! j) k * Rinv * pcoef (v ! j) k)"
      unfolding sum_distrib_right by (intro sum.cong refl) (simp only: mult.assoc mult.commute[of Rinv])
    finally show ?thesis using M ik by (simp add: mat_ok_def InitializeVector_def)
  qed
  then show ?thesis using mv by blast
qed

text \<open>The image of a vector in Montgomery form scaled by \<open>w\<close>.\<close>

lemma MatrixVectorMul_scaled:
  assumes M: "mat_ok rg dimM dimN M" and v: "vec_ok rg dimN v"
    and x: "\<And>j k. j < dimN \<Longrightarrow> k < rN rg \<Longrightarrow> pcoef (v ! j) k = (w * 2 ^ 64 * pcoef (rNTT rg (s ! j)) k) mod rModulus rg"
  shows "\<exists>y. MatrixVectorMul rg M v (InitializeVector rg dimM) = Inr y \<and> vec_ok rg dimM y \<and>
    (\<forall>i < dimM. \<forall>k < rN rg. pcoef (y ! i) k = (2 ^ 64 * (w * slot M s i k)) mod rModulus rg)"
proof -
  obtain y where y: "MatrixVectorMul rg M v (InitializeVector rg dimM) = Inr y" "vec_ok rg dimM y"
    "\<And>i k. i < dimM \<Longrightarrow> k < rN rg \<Longrightarrow> pcoef (y ! i) k = (\<Sum>j<dimN. pcoef (M ! i ! j) k * Rinv * pcoef (v ! j) k) mod rModulus rg"
    using MatrixVectorMul_coef[OF M v] by blast
  have "pcoef (y ! i) k = (2 ^ 64 * (w * slot M s i k)) mod rModulus rg" if ik: "i < dimM" "k < rN rg" for i k
  proof -
    have "pcoef (y ! i) k = (\<Sum>j<dimN. pcoef (M ! i ! j) k * Rinv * (w * 2 ^ 64 * pcoef (rNTT rg (s ! j)) k)) mod rModulus rg"
      unfolding y(3)[OF ik] by (intro sum_cong_mod mod_mult_cong refl) (use x ik in simp)
    also have "(\<Sum>j<dimN. pcoef (M ! i ! j) k * Rinv * (w * 2 ^ 64 * pcoef (rNTT rg (s ! j)) k)) = 2 ^ 64 * (w * slot M s i k)"
      unfolding slot_def sum_distrib_left by (intro sum.cong refl) (simp only: ac_simps)
    finally show ?thesis .
  qed
  then show ?thesis using y(1,2) by blast
qed

lemma path_a_product_ok:
  assumes one: "rNTT rg (rSetCoefficientsBigint rg [1]) = pbuild (rModulus rg) (rN rg) (\<lambda>k. 1)"
    and A: "mat_ok rg dimM dimN A" and s: "vec_ok rg dimN s"
  shows "\<exists>y. path_a_product rg A (rSetCoefficientsBigint rg [w]) s = Inr y \<and> vec_ok rg dimM y \<and>
    (\<forall>i < dimM. \<forall>k < rN rg. pcoef (y ! i) k = (2 ^ 64 * (w * slot A s i k)) mod rModulus rg)"
proof -
  let ?lam = "rMForm rg (rNTT rg (rSetCoefficientsBigint rg [w]))"
  let ?sc = "map (\<lambda>p. rMulCoeffsMontgomery rg (rMForm rg (rNTT rg p)) ?lam) s"
  have len: "length s = dimN" using s by (simp add: vec_ok_def)
  have lam: "valid ?lam" by (intro valid_MForm valid_NTT const_valid)
  have sv: "valid (rMForm rg (rNTT rg p))" if "p \<in> set s" for p
    using that s by (intro valid_MForm valid_NTT) (auto simp: vec_ok_def vvalid_def)
  have sc: "vec_ok rg dimN ?sc" using len sv lam by (auto simp: vec_ok_def vvalid_def intro!: valid_Mul)
  have "pcoef (?sc ! j) k = (w * 2 ^ 64 * pcoef (rNTT rg (s ! j)) k) mod rModulus rg" if jk: "j < dimN" "k < rN rg" for j k
    using Mul_const_slot[OF one vec_ok_nth[OF s jk(1)] jk(2)] jk(1) len by simp
  from MatrixVectorMul_scaled[OF A sc this] show ?thesis using len by (simp add: path_a_product_def Let_def comp_def)
qed

lemma path_a_fold:
  assumes "\<forall>j \<in> set js. beta j = Inr (B j) \<and> vec_ok rg dimM (B j) \<and> serializeVector (envCodec en) (B j) = Inr (ser j)"
    and "vec_ok rg dimM acc"
  shows "\<exists>v. foldM (path_a_step en rg beta :: _ \<Rightarrow> _ \<Rightarrow> 'v eerr + _) (acc, bufs) js = Inr (v, bufs @ map ser js) \<and> vec_ok rg dimM v \<and>
    (\<forall>i < dimM. \<forall>k < rN rg. pcoef (v ! i) k = (pcoef (acc ! i) k + (\<Sum>j\<leftarrow>js. pcoef (B j ! i) k)) mod rModulus rg)"
  using assms
proof (induction js arbitrary: acc bufs)
  case Nil
  then show ?case using pcoef_mod[OF vec_ok_nth] by (auto simp: vec_ok_nth)
next
  case (Cons j js)
  let ?acc = "map2 (rAdd rg) acc (B j)"
  have B: "beta j = Inr (B j)" "vec_ok rg dimM (B j)" "serializeVector (envCodec en) (B j) = Inr (ser j)" using Cons.prems(1) by auto
  have "length acc = dimM" using Cons.prems(2) by (simp add: vec_ok_def)
  note add = VectorAdd_ok[OF Cons.prems(2) B(2) this]
  have step: "path_a_step en rg beta (acc, bufs) j = Inr (?acc, bufs @ [ser j])"
    using B add(1) by (simp add: path_a_step_def plain_def wrapped_def)
  obtain v where v: "foldM (path_a_step en rg beta :: _ \<Rightarrow> _ \<Rightarrow> 'v eerr + _) (?acc, bufs @ [ser j]) js = Inr (v, (bufs @ [ser j]) @ map ser js)"
    "vec_ok rg dimM v" "\<forall>i < dimM. \<forall>k < rN rg. pcoef (v ! i) k = (pcoef (?acc ! i) k + (\<Sum>j\<leftarrow>js. pcoef (B j ! i) k)) mod rModulus rg"
    using Cons.IH[OF _ add(2), of "bufs @ [ser j]"] Cons.prems(1) by auto
  have "(pcoef (?acc ! i) k + (\<Sum>j\<leftarrow>js. pcoef (B j ! i) k)) mod rModulus rg
      = (pcoef (acc ! i) k + (\<Sum>j\<leftarrow>j # js. pcoef (B j ! i) k)) mod rModulus rg" if "i < dimM" "k < rN rg" for i k
    unfolding pcoef_VectorAdd[OF Cons.prems(2) B(2) that] by (simp add: mod_add_left_eq add.assoc)
  then show ?case using v by (intro exI[of _ v]) (simp add: step)
qed

lemma noise_ok:
  "sampling_ok (envSampling en) rg \<Longrightarrow> vec_ok rg dimM (samplePathANoise en rg suite seed j par)"
  unfolding samplePathANoise_def Let_def by (rule SamplePolyVector_ok) (simp add: sampling_ok_def)

text \<open>The secret is the combination of the shares with the Lagrange weights.\<close>

lemma shares_interpolate:
  assumes q: "rModulus rg = corona_q" and s: "vec_ok rg dimN s"
    and sh: "is_sharing corona_q (rN rg) dimN t (map (\<lambda>j. (int j + 1, sh ! j)) [0..<n]) (\<lambda>p k. pcoef (s ! p) k)"
    and t: "t \<le> n" and n: "int n < corona_q"
    and w: "lagrange_weights corona_q (map (\<lambda>i. int i + 1) [0..<n]) (\<lambda>x. w (nat (x - 1)))" and p: "p < dimN"
  shows "s ! p = pbuild (rModulus rg) (rN rg) (\<lambda>k. \<Sum>j<n. w j * pcoef (sh ! j ! p) k)"
proof -
  let ?ids = "map (\<lambda>i. int i + 1) [0..<n]"
  have v: "valid (s ! p)" using vec_ok_nth[OF s p] .
  have "pcoef (s ! p) k mod rModulus rg = (\<Sum>j<n. w j * pcoef (sh ! j ! p) k) mod rModulus rg" if k: "k < rN rg" for k
  proof -
    have "\<forall>p < dimN. \<forall>k < rN rg. \<exists>cs. length cs = t \<and> pval cs 0 mod corona_q = pcoef (s ! p) k \<and>
        (\<forall>(j, x) \<in> set (map (\<lambda>j. (int j + 1, sh ! j)) [0..<n]). pcoef (x ! p) k = pval cs j mod corona_q)"
      using sh unfolding is_sharing_def .
    from this[rule_format, OF p k] obtain cs where cs: "length cs = t" "pval cs 0 mod corona_q = pcoef (s ! p) k"
      "\<And>j. j < n \<Longrightarrow> pcoef (sh ! j ! p) k = pval cs (int j + 1) mod corona_q"
      by auto
    have "pcoef (s ! p) k mod rModulus rg = pval cs 0 mod corona_q" using cs(2) q by (metis mod_mod_trivial)
    also have "\<dots> = sum_list (map (\<lambda>x. w (nat (x - 1)) * pval cs x) ?ids) mod corona_q"
      by (rule lagrange_at_zero[OF corona_q_prime ids_distinct_mod[OF n] w, symmetric]) (use cs(1) t in simp)
    also have "sum_list (map (\<lambda>x. w (nat (x - 1)) * pval cs x) ?ids) = (\<Sum>j<n. w j * pval cs (int j + 1))"
      by (simp add: comp_def interv_sum_list_conv_sum_set_nat lessThan_atLeast0)
    also have "\<dots> mod corona_q = (\<Sum>j<n. w j * pcoef (sh ! j ! p) k) mod corona_q"
      by (intro sum_cong_mod mod_mult_cong refl) (simp add: cs(3))
    finally show ?thesis by (simp add: q)
  qed
  then have "pbuild (rModulus rg) (rN rg) (pcoef (s ! p)) = pbuild (rModulus rg) (rN rg) (\<lambda>k. \<Sum>j<n. w j * pcoef (sh ! j ! p) k)"
    by (intro pbuild_cong)
  then show ?thesis using pvalid_eq_pbuild[OF q_simps v] by simp
qed

lemma path_a_sum_ok:
  assumes one: "rNTT rg (rSetCoefficientsBigint rg [1]) = pbuild (rModulus rg) (rN rg) (\<lambda>k. 1)"
    and A: "mat_ok rg dimM dimN A" and s: "vec_ok rg dimN s"
    and sh: "\<And>j. j < n \<Longrightarrow> vec_ok rg dimN (sh ! j)" "length sh = n"
    and comb: "\<And>p. p < dimN \<Longrightarrow> s ! p = pbuild (rModulus rg) (rN rg) (\<lambda>k. \<Sum>j<n. w j * pcoef (sh ! j ! p) k)"
    and sm: "sampling_ok (envSampling en) rg" and enc: "\<And>v. \<exists>b. encVector (envCodec en) v = Inr b"
  shows "\<exists>As b bufs. MatrixVectorMul rg A (ConvertVectorToNTT rg s) (InitializeVector rg dimM) = Inr As \<and>
    foldM (\<lambda>a j. VectorAdd rg a (samplePathANoise en rg suite seed j (pathANoiseParameters n)) a) As [0..<n] = (Inr b :: vec res) \<and>
    path_a_sum en rg A suite seed n (map (\<lambda>i. rSetCoefficientsBigint rg [w i]) [0..<n]) sh = (Inr (b, bufs) :: 'v eerr + _) \<and> vec_ok rg dimM b"
proof -
  let ?q = "rModulus rg"
  define e where "e j = samplePathANoise en rg suite seed j (pathANoiseParameters n)" for j
  have e: "vec_ok rg dimM (e j)" for j unfolding e_def by (rule noise_ok[OF sm])
  define y where "y j = projr (path_a_product rg A (rSetCoefficientsBigint rg [w j]) (sh ! j))" for j
  have y: "path_a_product rg A (rSetCoefficientsBigint rg [w j]) (sh ! j) = Inr (y j)" "vec_ok rg dimM (y j)"
    "\<And>i k. i < dimM \<Longrightarrow> k < rN rg \<Longrightarrow> pcoef (y j ! i) k = (2 ^ 64 * (w j * slot A (sh ! j) i k)) mod ?q" if "j < n" for j
    using path_a_product_ok[OF one A sh(1)[OF that], of "w j"] by (auto simp: y_def)
  define B where "B j = map2 (rAdd rg) (y j) (e j)" for j
  have len: "length (InitializeVector rg dimM) = dimM" by (simp add: InitializeVector_def)
  note add = VectorAdd_ok[OF y(2) e len]
  define ser where "ser v = projr (serializeVector (envCodec en) v)" for v
  have ser: "serializeVector (envCodec en) v = Inr (ser v)" for v using enc[of v] by (auto simp: ser_def serializeVector_def)
  let ?lag = "map (\<lambda>i. rSetCoefficientsBigint rg [w i]) [0..<n]"
  have beta: "\<forall>j \<in> set [0..<n]. path_a_beta en rg A suite seed n ?lag sh j = Inr (B j) \<and> vec_ok rg dimM (B j) \<and> serializeVector (envCodec en) (B j) = Inr (ser (B j))"
    using add y(1) ser sh(2) by (simp add: path_a_beta_def idx_def e_def B_def)
  obtain b where b: "path_a_sum en rg A suite seed n ?lag sh = (Inr (b, [] @ map (\<lambda>j. ser (B j)) [0..<n]) :: 'v eerr + _)" "vec_ok rg dimM b"
    "\<And>i k. i < dimM \<Longrightarrow> k < rN rg \<Longrightarrow> pcoef (b ! i) k = (pcoef (InitializeVector rg dimM ! i) k + (\<Sum>j\<leftarrow>[0..<n]. pcoef (B j ! i) k)) mod ?q"
    using path_a_fold[OF beta vec_ok_InitializeVector, where bufs = "[]"] unfolding path_a_sum_def by blast
  have "pcoef (ConvertVectorToNTT rg s ! j) k = (1 * 2 ^ 64 * pcoef (rNTT rg (s ! j)) k) mod ?q" if "j < dimN" "k < rN rg" for j k
    using that s valid_NTT[OF vec_ok_nth[OF s that(1)]] q_simps by (simp add: ConvertVectorToNTT_def vec_ok_def MForm mult.commute)
  from MatrixVectorMul_scaled[OF A ConvertVectorToNTT_ok[OF s] this] obtain As where
    As: "MatrixVectorMul rg A (ConvertVectorToNTT rg s) (InitializeVector rg dimM) = Inr As" "vec_ok rg dimM As"
    "\<And>i k. i < dimM \<Longrightarrow> k < rN rg \<Longrightarrow> pcoef (As ! i) k = (2 ^ 64 * (1 * slot A s i k)) mod ?q" by blast
  obtain b' where b': "foldM (\<lambda>a j. VectorAdd rg a (e j) a) As [0..<n] = (Inr b' :: vec res)" "vec_ok rg dimM b'"
    "\<And>i k. i < dimM \<Longrightarrow> k < rN rg \<Longrightarrow> pcoef (b' ! i) k = (pcoef (As ! i) k + (\<Sum>j\<leftarrow>[0..<n]. pcoef (e j ! i) k)) mod ?q"
    using foldM_VectorAdd[OF As(2), of "[0..<n]" e] e by blast
  have "b = b'"
  proof (rule vec_ok_eqI[OF b(2) b'(2)])
    fix i k assume ik: "i < dimM" "k < rN rg"
    have "pcoef (b ! i) k = (\<Sum>j<n. pcoef (B j ! i) k) mod ?q"
      unfolding b(3)[OF ik] using ik by (simp add: interv_sum_list_conv_sum_set_nat lessThan_atLeast0)
    also have "\<dots> = (\<Sum>j<n. 2 ^ 64 * (w j * slot A (sh ! j) i k) + pcoef (e j ! i) k) mod ?q"
    proof (rule sum_cong_mod)
      fix j assume j: "j < n"
      show "pcoef (B j ! i) k mod ?q = (2 ^ 64 * (w j * slot A (sh ! j) i k) + pcoef (e j ! i) k) mod ?q"
        unfolding B_def pcoef_VectorAdd[OF y(2)[OF j] e ik] y(3)[OF j ik] by (simp add: mod_add_left_eq)
    qed
    also have "(\<Sum>j<n. 2 ^ 64 * (w j * slot A (sh ! j) i k) + pcoef (e j ! i) k)
        = 2 ^ 64 * (\<Sum>j<n. w j * slot A (sh ! j) i k) + (\<Sum>j<n. pcoef (e j ! i) k)"
      by (simp add: sum.distrib sum_distrib_left)
    also have "\<dots> mod ?q = (2 ^ 64 * slot A s i k + (\<Sum>j<n. pcoef (e j ! i) k)) mod ?q"
      by (intro mod_add_cong mod_mult_cong refl slot_combination[symmetric]) (use comb sh(1) ik in auto)
    also have "\<dots> = pcoef (b' ! i) k"
      unfolding b'(3)[OF ik] As(3)[OF ik] by (simp add: mod_add_left_eq interv_sum_list_conv_sum_set_nat lessThan_atLeast0)
    finally show "pcoef (b ! i) k = pcoef (b' ! i) k" .
  qed
  then show ?thesis using As(1) b(1,2) b'(1) unfolding e_def by blast
qed

end

section \<open>The bootstrap runs to the end\<close>

text \<open>What the sharing library promises for contributions that verify: every recipient obtains its
  share, the shares are a sharing of \<open>s\<close> at threshold \<open>t\<close>, and every recipient holds every
  dealer's contribution.\<close>

definition vss_dealt :: "'v vss \<Rightarrow> 'v pedersenSession \<Rightarrow> (int, DealerInput) gomap list \<Rightarrow> nat \<Rightarrow> nat \<Rightarrow> vec list \<Rightarrow> vec \<Rightarrow> bool" where
  "vss_dealt v sess inputs t n sh s \<longleftrightarrow> (let r = psCr sess in
     length (psParties sess) = n \<and> length inputs = n \<and> length sh = n \<and>
     (\<forall>j < n. vRound3 v (psParties sess ! j) (inputs ! j) = Inr (sh ! j) \<and> vec_ok r dimN (sh ! j) \<and>
        (\<forall>i < n. map_of (inputs ! j) (int i) \<noteq> None)) \<and>
     vec_ok r dimN s \<and> is_sharing corona_q (rN r) dimN t (map (\<lambda>j. (int j + 1, sh ! j)) [0..<n]) (\<lambda>p k. pcoef (s ! p) k))"

text \<open>What \<^verbatim>\<open>share.Lagrange\<close> promises at the ids \<open>1 .. n\<close>.\<close>

definition lagrange_answers :: "lagrange_lib \<Rightarrow> nat \<Rightarrow> bool" where
  "lagrange_answers lg n \<longleftrightarrow> fst lg (word_of_int corona_q) \<and>
     (\<exists>ws. snd lg (map (\<lambda>i. word_of_int (int i + 1)) [0..<n]) (word_of_int corona_q) = Inr ws \<and> length ws = n \<and>
        lagrange_weights corona_q (map (\<lambda>i. int i + 1) [0..<n]) (\<lambda>x. uint (ws ! nat (x - 1))))"

text \<open>A ring of the library in which the constant one transforms to one in every slot, next to
  the ring that \<^verbatim>\<open>RoundVector\<close> rounds into.\<close>

definition era_rings :: "ring_maker \<Rightarrow> 'v pedersenSession \<Rightarrow> bool" where
  "era_rings newRing sess \<longleftrightarrow> (let r = psCr sess in
     newRing (2 ^ LogN) corona_q = (r, True) \<and> lattice_ring r \<and> rModulus r = corona_q \<and>
     rNTT r (rSetCoefficientsBigint r [1]) = pbuild (rModulus r) (rN r) (\<lambda>k. 1) \<and>
     coeff_ring (psCrXi sess) \<and> rN (psCrXi sess) = rN r)"

lemma round3_shares_ok:
  assumes "vss_dealt v sess inputs t n sh s"
  shows "mapM (round3_share v sess suite suiteID digests n th validators inputs) [0..<n] = Inr sh"
  unfolding mapM_Inr_iff using assms by (simp add: vss_dealt_def Let_def round3_share_def idx_def plain_def)

lemma lagrange_answer:
  assumes "lagrange_answers lg n"
  shows "\<exists>w. computeFullCommitteeLagrange lg r n = Inr (map (\<lambda>i. rSetCoefficientsBigint r [w i]) [0..<n]) \<and>
    lagrange_weights corona_q (map (\<lambda>i. int i + 1) [0..<n]) (\<lambda>x. w (nat (x - 1)))"
proof -
  obtain ws where w: "fst lg (word_of_int corona_q)" "snd lg (map (\<lambda>i. word_of_int (int i + 1)) [0..<n]) (word_of_int corona_q) = Inr ws" "length ws = n"
    "lagrange_weights corona_q (map (\<lambda>i. int i + 1) [0..<n]) (\<lambda>x. uint (ws ! nat (x - 1)))"
    using assms unfolding lagrange_answers_def by blast
  have "computeFullCommitteeLagrange lg r n = Inr (map (\<lambda>i. rSetCoefficientsBigint r [uint (ws ! i)]) [0..<n])"
    using w(1-3) by (simp add: computeFullCommitteeLagrange_def ComputeLagrangeCoefficients_def must_def comp_def)
  then show ?thesis using w(4) by (intro exI[of _ "\<lambda>i. uint (ws ! i)"]) simp
qed

lemma pairKex_ok:
  assumes "length inputs = n" "\<forall>j < n. \<forall>i < n. map_of (inputs ! j) (int i) \<noteq> None" "i < n" "j < n"
  shows "\<exists>k. pairKex en suite suiteID inputs i j = Inr k"
proof -
  have "\<exists>b. sealedShare en inputs d r = Inr b" if dr: "d < n" "r < n" for d r
  proof -
    obtain di where "map_of (inputs ! r) (int d) = Some di" using assms(2) dr by blast
    then show ?thesis using assms(1) dr by (simp add: sealedShare_def idx_def)
  qed
  from this[of "min i j" "max i j"] this[of "max i j" "min i j"] obtain x y where
    "sealedShare en inputs (min i j) (max i j) = Inr x" "sealedShare en inputs (max i j) (min i j) = Inr y"
    using assms(3,4) by (auto simp: min_less_iff_disj)
  then show ?thesis by (simp add: pairKex_def Let_def)
qed

lemma mapM_returns: "(\<And>x. x \<in> set xs \<Longrightarrow> \<exists>y. f x = Inr y) \<Longrightarrow> \<exists>ys. mapM f xs = Inr ys"
  by (induction xs) fastforce+

lemma upper_pairs_range: "(i, j) \<in> set (upper_pairs n) \<Longrightarrow> i < n \<and> j < n"
  by (auto simp: upper_pairs_def)

lemma derivePairwiseFromShares_ok:
  assumes "length inputs = n" "\<forall>j < n. \<forall>i < n. map_of (inputs ! j) (int i) \<noteq> None" "length sh = n"
  shows "\<exists>seeds macs. derivePairwiseFromShares en suite suiteID n inputs sh = Inr (seeds, macs) \<and> length macs = n"
proof -
  have ps: "\<exists>k. pair_seed en suite suiteID inputs sh i j = Inr k" if "i < n" "j < n" for i j
    using pairKex_ok[OF assms(1,2) that, of en suite suiteID] assms(3) that by (auto simp: pair_seed_def idx_def)
  have "\<exists>rows. mapM (\<lambda>i. rbind (mapM (pair_seed en suite suiteID inputs sh i) [0..<n]) (\<lambda>row. Inr (int i, row))) [0..<n] = Inr rows"
  proof (rule mapM_returns)
    fix i assume "i \<in> set [0..<n]"
    then have "\<exists>row. mapM (pair_seed en suite suiteID inputs sh i) [0..<n] = Inr row" using ps by (intro mapM_returns) simp
    then show "\<exists>y. rbind (mapM (pair_seed en suite suiteID inputs sh i) [0..<n]) (\<lambda>row. Inr (int i, row)) = Inr y" by auto
  qed
  moreover have "\<exists>ms. mapM (\<lambda>(i, j). rbind (pairKex en suite suiteID inputs i j) (\<lambda>k. Inr (hsPRF suite k (str_bytes ''mac'') KeySize))) (upper_pairs n) = Inr ms"
  proof (rule mapM_returns)
    fix x assume "x \<in> set (upper_pairs n)"
    then obtain i j where x: "x = (i, j)" "i < n" "j < n" using upper_pairs_range by (metis surj_pair)
    then show "\<exists>y. (\<lambda>(i, j). rbind (pairKex en suite suiteID inputs i j) (\<lambda>k. Inr (hsPRF suite k (str_bytes ''mac'') KeySize))) x = Inr y"
      using pairKex_ok[OF assms(1,2) x(2,3), of en suite suiteID] by auto
  qed
  ultimately show ?thesis by (auto simp: derivePairwiseFromShares_def pair_table_def)
qed

text \<open>The noise of member \<open>j\<close>.\<close>

definition flood :: "'s env \<Rightarrow> ring_ops \<Rightarrow> hash_suite \<Rightarrow> string \<Rightarrow> bytes list \<Rightarrow> string list \<Rightarrow> int \<Rightarrow> nat \<Rightarrow> nat \<Rightarrow> vec" where
  "flood en r suite suiteID digests validators t n j =
     samplePathANoise en r suite (noise_seed suite suiteID digests validators t n) j (pathANoiseParameters n)"

lemma finish_ok:
  fixes v :: "'v vss"
  assumes c: "pcSession c = Some sess" and d: "vss_dealt v sess (pcInputs c) (nat t) n sh s"
    and rings: "era_rings newRing sess" and lg: "lagrange_answers lg n"
    and A: "mat_ok (psCr sess) dimM dimN (vProfileA v (psProfile sess))"
    and sm: "sampling_ok (envSampling en) (psCr sess)" and enc: "\<And>u. \<exists>b. encVector (envCodec en) u = Inr b"
    and vs: "distinct vs" "length vs = n" "1 \<le> t" "t \<le> int n" "int n < corona_q"
  shows "\<exists>era tr gk As b bTilde. finishPedersenContribs en newRing lg v suite suiteID t n vs gid eid c = Inr (era, tr) \<and>
    era_ok era (\<lambda>p k. pcoef (s ! p) k) \<and> kGroupKey era = Some gk \<and> kEraID era = eid \<and> kHashSuiteID era = suiteID \<and>
    gkA gk = vProfileA v (psProfile sess) \<and> gkBTilde gk = Some bTilde \<and> NewParams newRing = Inr (gkParams gk) \<and>
    MatrixVectorMul (psCr sess) (gkA gk) (ConvertVectorToNTT (psCr sess) s) (InitializeVector (psCr sess) dimM) = Inr As \<and>
    foldM (\<lambda>a j. VectorAdd (psCr sess) a (flood en (psCr sess) suite suiteID (pcDigests c) vs t n j) a) As [0..<n] = Inr b \<and>
    RoundVector (psCrXi sess) (ConvertVectorFromNTT (psCr sess) b) Xi = Inr bTilde \<and>
    tr = bootstrap_transcript (envCodec en) suite suiteID t n vs (pcDigests c) (btBetaSerialized tr) bTilde"
proof -
  let ?r = "psCr sess" and ?A = "vProfileA v (psProfile sess)"
  have R: "newRing (2 ^ LogN) corona_q = (?r, True)" "lattice_ring ?r" "rModulus ?r = corona_q"
    "rNTT ?r (rSetCoefficientsBigint ?r [1]) = pbuild (rModulus ?r) (rN ?r) (\<lambda>k. 1)" "coeff_ring (psCrXi sess)" "rN (psCrXi sess) = rN ?r"
    using rings by (simp_all add: era_rings_def Let_def)
  have D: "length (pcInputs c) = n" "length sh = n" "\<And>j. j < n \<Longrightarrow> vec_ok ?r dimN (sh ! j)"
    "\<forall>j < n. \<forall>i < n. map_of (pcInputs c ! j) (int i) \<noteq> None" "vec_ok ?r dimN s"
    "is_sharing corona_q (rN ?r) dimN (nat t) (map (\<lambda>j. (int j + 1, sh ! j)) [0..<n]) (\<lambda>p k. pcoef (s ! p) k)"
    using d by (simp_all add: vss_dealt_def Let_def)
  obtain w where w: "computeFullCommitteeLagrange lg ?r n = Inr (map (\<lambda>i. rSetCoefficientsBigint ?r [w i]) [0..<n])"
    "lagrange_weights corona_q (map (\<lambda>i. int i + 1) [0..<n]) (\<lambda>x. w (nat (x - 1)))" using lagrange_answer[OF lg] by blast
  let ?lag = "map (\<lambda>i. rSetCoefficientsBigint ?r [w i]) [0..<n]"
  have tn: "nat t \<le> n" using vs(4) by simp
  note comb = lattice_ring.shares_interpolate[OF R(2,3) D(5,6) tn vs(5) w(2)]
  obtain As b bufs where key: "MatrixVectorMul ?r ?A (ConvertVectorToNTT ?r s) (InitializeVector ?r dimM) = Inr As"
    "foldM (\<lambda>a j. VectorAdd ?r a (flood en ?r suite suiteID (pcDigests c) vs t n j) a) As [0..<n] = Inr b"
    "path_a_sum en ?r ?A suite (noise_seed suite suiteID (pcDigests c) vs t n) n ?lag sh = (Inr (b, bufs) :: 'v eerr + _)" "vec_ok ?r dimM b"
    unfolding flood_def using lattice_ring.path_a_sum_ok[OF R(2,4) A D(5) D(3,2) comb sm enc] by blast
  have "shape_ok (rN (psCrXi sess)) (ConvertVectorFromNTT ?r b)"
    unfolding R(6) by (rule vec_ok_shape[OF lattice_ring.ConvertVectorFromNTT_ok[OF R(2) key(4)]])
  then obtain bTilde where bt: "RoundVector (psCrXi sess) (ConvertVectorFromNTT ?r b) Xi = Inr bTilde" using RoundVector_ok[OF R(5)] by blast
  obtain P where P: "NewParams newRing = Inr P" "paR P = ?r" using R(1) by (simp add: NewParams_def)
  obtain seeds macs where pw: "derivePairwiseFromShares en suite suiteID n (pcInputs c) sh = Inr (seeds, macs)" "length macs = n"
    using derivePairwiseFromShares_ok[OF D(1,4,2)] by blast
  define gk where "gk = \<lparr> gkA = ?A, gkBTilde = Some bTilde, gkParams = P \<rparr>"
  let ?sk = "\<lambda>j. take dimN (sh ! j)"
  have "\<exists>shs. fill_shares (member_share ?r gk seeds macs ?lag (\<lambda>j. ConvertVectorToNTT ?r (?sk j))) vs = Inr shs"
    by (rule fill_shares_total) (use vs(2) pw(2) in \<open>simp add: member_share_def idx_def\<close>)
  then obtain shs where F: "fill_shares (member_share ?r gk seeds macs ?lag (\<lambda>j. ConvertVectorToNTT ?r (?sk j))) vs = Inr shs" by blast
  have sk: "?sk j = sh ! j" if "j < n" for j using D(3)[OF that] by (simp add: vec_ok_def)
  define st where "st = \<lparr> erKeyEraID = eid, erHashSuiteID = suiteID, erGeneration = 0, erRollbackFrom = 0, erEpoch = 0,
    erValidators = vs, erThreshold = t, erShares = shs \<rparr>"
  have gr: "paR (gkParams gk) = ?r" by (simp add: gk_def P)
  have ids: "map (\<lambda>i. (int i + 1, ?sk i)) [0..<n] = map (\<lambda>j. (int j + 1, sh ! j)) [0..<n]" by (simp add: sk)
  have sh': "is_sharing corona_q (rN ?r) dimN (nat t) (map (\<lambda>i. (int i + 1, ?sk i)) [0..<n]) (\<lambda>p k. pcoef (s ! p) k)" unfolding ids by (rule D(6))
  have "state_ok gk st (\<lambda>p k. pcoef (s ! p) k)"
    by (rule state_okI[where sk = ?sk]) (use R(2) F vs D(3) sh' gr in \<open>simp_all add: st_def sk\<close>)
  then have "era_ok \<lparr> kEraID = eid, kGroupID = gid, kGroupKey = Some gk, kGenesisEpoch = 0, kHashSuiteID = suiteID, kState = Some st \<rparr> (\<lambda>p k. pcoef (s ! p) k)"
    using R gr by (simp add: era_ok_def st_def)
  moreover have "finishPedersenContribs en newRing lg v suite suiteID t n vs gid eid c =
    Inr (\<lparr> kEraID = eid, kGroupID = gid, kGroupKey = Some gk, kGenesisEpoch = 0, kHashSuiteID = suiteID, kState = Some st \<rparr>,
      bootstrap_transcript (envCodec en) suite suiteID t n vs (pcDigests c) bufs bTilde)"
    using F by (simp add: finishPedersenContribs_def Let_def c round3_shares_ok[OF d] w(1) plain_def wrapped_def key(3) bt P pw(1) gk_def st_def)
  ultimately show ?thesis using key(1,2) bt P(1) by (fastforce simp: gk_def bootstrap_transcript_def)
qed

section \<open>Errors and evidence\<close>

lemma mapM_Inl_iff:
  "mapM f xs = Inl e \<longleftrightarrow> (\<exists>j < length xs. (\<forall>i < j. \<exists>y. f (xs ! i) = Inr y) \<and> f (xs ! j) = Inl e)"
proof (induction xs)
  case (Cons x xs)
  show ?case
  proof (cases "f x")
    case (Inl a)
    then show ?thesis by (auto simp: less_Suc_eq_0_disj)
  next
    case (Inr b)
    have "mapM f (x # xs) = Inl e \<longleftrightarrow> mapM f xs = Inl e" using Inr by (cases "mapM f xs") auto
    also have "\<dots> \<longleftrightarrow> (\<exists>j < length (x # xs). (\<forall>i < j. \<exists>y. f ((x # xs) ! i) = Inr y) \<and> f ((x # xs) ! j) = Inl e)"
      unfolding Cons.IH using Inr by (simp add: Ex_less_Suc2 All_less_Suc2)
    finally show ?thesis .
  qed
qed simp

lemma wrapped_Inr: "wrapped x = Inr a \<longleftrightarrow> x = Inr a"
  by (auto simp: wrapped_def split: sum.splits if_splits)

lemma plain_Inr: "plain x = Inr a \<longleftrightarrow> x = Inr a"
  by (auto simp: plain_def split: sum.splits)

lemma no_evidence [simp]:
  "plain x = Inl e \<Longrightarrow> asBootstrapAbortErr e = None"
  "wrapped x = Inl e \<Longrightarrow> asBootstrapAbortErr e = None"
  by (auto simp: plain_def wrapped_def split: sum.splits if_splits)

lemma path_a_no_evidence: "path_a_sum en cr A suite seed n lag sh = Inl e \<Longrightarrow> asBootstrapAbortErr e = None"
  by (auto simp: path_a_sum_def path_a_step_def rbind_Inl_iff dest!: foldM_error split: prod.splits)

lemma round3_evidence:
  "round3_share v sess suite suiteID digests n t vs inputs j = Inl e \<and> asBootstrapAbortErr e = Some ev \<longleftrightarrow>
   j < length (psParties sess) \<and> j < length inputs \<and>
   (\<exists>err fault. vRound3 v (psParties sess ! j) (inputs ! j) = Inl (err, Some fault) \<and>
      buildAbortEvidence v sess suite suiteID digests n t vs fault = Inr ev \<and>
      e = EJoin [EErr ErrBootstrapPedersenAbort, abortEvidenceWrap ev (EErr err)])"
  by (auto simp: round3_share_def idx_def plain_def abortEvidenceWrap_def split: sum.splits option.splits if_splits)

lemma finish_evidence:
  assumes c: "pcSession c = Some sess" and len: "length (psParties sess) = n" "length (pcInputs c) = n"
  shows "finishPedersenContribs en newRing lg v suite suiteID t n vs gid eid c = Inl e \<and> asBootstrapAbortErr e = Some ev \<longleftrightarrow>
    (\<exists>j < n. \<exists>err fault. (\<forall>i < j. \<exists>s. round3_share v sess suite suiteID (pcDigests c) n t vs (pcInputs c) i = Inr s) \<and>
       vRound3 v (psParties sess ! j) (pcInputs c ! j) = Inl (err, Some fault) \<and>
       buildAbortEvidence v sess suite suiteID (pcDigests c) n t vs fault = Inr ev \<and>
       e = EJoin [EErr ErrBootstrapPedersenAbort, abortEvidenceWrap ev (EErr err)])" (is "?l \<longleftrightarrow> ?r")
proof -
  let ?f = "round3_share v sess suite suiteID (pcDigests c) n t vs (pcInputs c)"
  have "?l \<longleftrightarrow> mapM ?f [0..<n] = Inl e \<and> asBootstrapAbortErr e = Some ev"
  proof (cases "mapM ?f [0..<n]")
    case (Inl e')
    then show ?thesis by (simp add: finishPedersenContribs_def c Let_def)
  next
    case (Inr sh)
    have "asBootstrapAbortErr e = None" if "finishPedersenContribs en newRing lg v suite suiteID t n vs gid eid c = Inl e"
      using that Inr by (auto simp: finishPedersenContribs_def c Let_def rbind_Inl_iff dest: path_a_no_evidence)
    then show ?thesis using Inr by auto
  qed
  also have "\<dots> \<longleftrightarrow> (\<exists>j < n. (\<forall>i < j. \<exists>s. ?f i = Inr s) \<and> ?f j = Inl e \<and> asBootstrapAbortErr e = Some ev)"
    unfolding mapM_Inl_iff by auto
  also have "\<dots> \<longleftrightarrow> ?r" unfolding round3_evidence using len by auto
  finally show ?thesis .
qed

lemma round3_Inr_iff:
  "j < length (psParties sess) \<Longrightarrow> j < length inputs \<Longrightarrow>
   round3_share v sess suite suiteID digests n t vs inputs j = Inr s \<longleftrightarrow> vRound3 v (psParties sess ! j) (inputs ! j) = Inr s"
  by (auto simp: round3_share_def idx_def plain_def split: sum.splits option.splits if_splits)

lemma buildAbortEvidence_names:
  "buildAbortEvidence v sess suite suiteID digests n t vs fault = Inr ev \<Longrightarrow>
   aeDisqualified ev = [int (vDealerIndex v fault)] \<and> (\<exists>cpl. aeComplaints ev = [cpl] \<and>
     vNewBadDeliveryComplaint v (psProfile sess) fault (aeTranscriptHash ev) (psNodes sess ! vDealerIndex v fault)
       (psNodes sess ! vRecipientIndex v fault) (psIds sess ! vRecipientIndex v fault) = Inr cpl)"
  by (auto simp: buildAbortEvidence_def Let_def res_simps)

context coeff_ring
begin

lemma VectorAdd_Sub:
  assumes a: "vec_ok rg n a" and b: "vec_ok rg n b"
  shows "VectorSub rg (map2 (rAdd rg) a b) b (InitializeVector rg n) = Inr a"
proof -
  have len: "length a = n" "length (InitializeVector rg n) = n" using a by (simp_all add: vec_ok_def InitializeVector_def)
  note add = VectorAdd_ok[OF a b len(1)]
  note sub = VectorSub_ok[OF add(2) b len(2)]
  have "map2 (rSub rg) (map2 (rAdd rg) a b) b = a"
  proof (rule vec_ok_eqI[OF sub(2) a])
    fix i k assume ik: "i < n" "k < rN rg"
    show "pcoef (map2 (rSub rg) (map2 (rAdd rg) a b) b ! i) k = pcoef (a ! i) k"
      unfolding pcoef_VectorSub[OF add(2) b ik] pcoef_VectorAdd[OF a b ik]
      using pcoef_mod[OF vec_ok_nth[OF a ik(1)] ik(2)] by (simp add: mod_diff_left_eq)
  qed
  then show ?thesis using sub(1) by simp
qed

end

section \<open>Properties\<close>

text \<open>
  C9: an era opened without a dealer. When the contributions verify, the second half of the bootstrap
  returns an era: the group key is the rounding of \<open>A s + \<Sigma> e\<^sub>j\<close> for the secret \<open>s\<close> that the dealt
  shares share and the members' noise; the transcript binds it; the members' shares are a sharing of
  \<open>s\<close> at the requested threshold, and stay one, under the same group key, in every state that
  resharing reaches.
\<close>

theorem pedersen_era:
  fixes v :: "'v vss"
  assumes "pcSession c = Some sess" "vss_dealt v sess (pcInputs c) (nat t) (length vs) sh s"
    and "era_rings newRing sess" "lagrange_answers lg (length vs)" "mat_ok (psCr sess) dimM dimN (vProfileA v (psProfile sess))"
    and "sampling_ok (envSampling en) (psCr sess)" "\<And>u. \<exists>b. encVector (envCodec en) u = Inr b"
    and "distinct vs" "1 \<le> t" "t < int (length vs)" "int (length vs) < corona_q"
  shows "\<exists>era tr gk As b bTilde. FinishBootstrapPedersen en newRing lg v suite t vs gid eid (Some c) = Inr (era, tr) \<and>
    kGroupKey era = Some gk \<and> gkA gk = vProfileA v (psProfile sess) \<and> gkBTilde gk = Some bTilde \<and>
    MatrixVectorMul (psCr sess) (gkA gk) (ConvertVectorToNTT (psCr sess) s) (InitializeVector (psCr sess) dimM) = Inr As \<and>
    foldM (\<lambda>a j. VectorAdd (psCr sess) a (flood en (psCr sess) (Resolve (envXof en) suite) (kHashSuiteID era) (pcDigests c) vs t (length vs) j) a)
      As [0..<length vs] = Inr b \<and>
    RoundVector (psCrXi sess) (ConvertVectorFromNTT (psCr sess) b) Xi = Inr bTilde \<and> btBTildeBytes tr = bTildeBytes (envCodec en) bTilde \<and>
    era_ok era (\<lambda>p k. pcoef (s ! p) k) \<and>
    (\<forall>lg' sys e. era_reachable lg' sys era e \<longrightarrow> kGroupKey e = Some gk \<and> era_ok e (\<lambda>p k. pcoef (s ! p) k))"
proof -
  let ?hs = "Resolve (envXof en) suite"
  have t: "t \<le> int (length vs)" "\<not> t < 1" "\<not> t > int (length vs)" "\<not> t \<ge> int (length vs)" "vs \<noteq> []" "\<not> length vs < 2" using assms(9,10) by auto
  obtain era tr gk As b bTilde where F: "finishPedersenContribs en newRing lg v ?hs (hsID ?hs) t (length vs) vs gid eid c = Inr (era, tr)"
    "era_ok era (\<lambda>p k. pcoef (s ! p) k)" "kGroupKey era = Some gk" "kHashSuiteID era = hsID ?hs"
    "gkA gk = vProfileA v (psProfile sess)" "gkBTilde gk = Some bTilde"
    "MatrixVectorMul (psCr sess) (gkA gk) (ConvertVectorToNTT (psCr sess) s) (InitializeVector (psCr sess) dimM) = Inr As"
    "foldM (\<lambda>a j. VectorAdd (psCr sess) a (flood en (psCr sess) ?hs (hsID ?hs) (pcDigests c) vs t (length vs) j) a) As [0..<length vs] = Inr b"
    "RoundVector (psCrXi sess) (ConvertVectorFromNTT (psCr sess) b) Xi = Inr bTilde"
    "tr = bootstrap_transcript (envCodec en) ?hs (hsID ?hs) t (length vs) vs (pcDigests c) (btBetaSerialized tr) bTilde"
    using finish_ok[OF assms(1-8) refl assms(9) t(1) assms(11), where suite = ?hs and suiteID = "hsID ?hs" and gid = gid and eid = eid]
    by (elim exE conjE)
  have "length (pcInputs c) = length vs" using assms(2) by (simp add: vss_dealt_def Let_def)
  then have run: "FinishBootstrapPedersen en newRing lg v suite t vs gid eid (Some c) = Inr (era, tr)"
    using F(1) t assms(1) by (simp add: FinishBootstrapPedersen_def Let_def)
  have bt: "btBTildeBytes tr = bTildeBytes (envCodec en) bTilde" by (subst F(10)) (simp add: bootstrap_transcript_def)
  obtain st0 where "kState era = Some st0" using F(2) by (auto simp: era_ok_def)
  then have "kGroupKey e = Some gk \<and> era_ok e (\<lambda>p k. pcoef (s ! p) k)" if "era_reachable lg' sys era e" for lg' sys e
    using era_invariant[OF that F(2)] F(3) by auto
  then show ?thesis using run F bt by auto
qed

text \<open>
  C11: identifiable abort. The second half of the bootstrap fails with evidence exactly when some
  recipient's round 3, after every earlier recipient's has succeeded, names a fault and the complaint
  can be minted; the evidence then disqualifies the dealer that the fault names and no other, and
  holds the one complaint against it.
\<close>

theorem pedersen_identifiable_abort:
  assumes "pcSession c = Some sess" "length (psParties sess) = length vs" "length (pcInputs c) = length vs"
    and "1 \<le> t" "t < int (length vs)"
  shows "(\<exists>e. FinishBootstrapPedersen en newRing lg v suite t vs gid eid (Some c) = Inl e \<and> ExtractAbortEvidence (Some e) = Some ev) \<longleftrightarrow>
    (\<exists>j < length vs. \<exists>err fault. (\<forall>i < j. \<exists>s. vRound3 v (psParties sess ! i) (pcInputs c ! i) = Inr s) \<and>
       vRound3 v (psParties sess ! j) (pcInputs c ! j) = Inl (err, Some fault) \<and>
       buildAbortEvidence v sess (Resolve (envXof en) suite) (hsID (Resolve (envXof en) suite)) (pcDigests c) (length vs) t vs fault = Inr ev \<and>
       aeDisqualified ev = [int (vDealerIndex v fault)] \<and> (\<exists>cpl. aeComplaints ev = [cpl] \<and>
         vNewBadDeliveryComplaint v (psProfile sess) fault (aeTranscriptHash ev) (psNodes sess ! vDealerIndex v fault)
           (psNodes sess ! vRecipientIndex v fault) (psIds sess ! vRecipientIndex v fault) = Inr cpl))"
proof -
  let ?hs = "Resolve (envXof en) suite"
  have "\<not> t < 1" "\<not> t > int (length vs)" "\<not> t \<ge> int (length vs)" "vs \<noteq> []" "\<not> length vs < 2" using assms(4,5) by auto
  then have run: "FinishBootstrapPedersen en newRing lg v suite t vs gid eid (Some c) =
      finishPedersenContribs en newRing lg v ?hs (hsID ?hs) t (length vs) vs gid eid c"
    using assms(1,3) by (simp add: FinishBootstrapPedersen_def Let_def)
  have r3: "(\<exists>s. round3_share v sess ?hs (hsID ?hs) (pcDigests c) (length vs) t vs (pcInputs c) i = Inr s) \<longleftrightarrow>
      (\<exists>s. vRound3 v (psParties sess ! i) (pcInputs c ! i) = Inr s)" if "i < length vs" for i
    using round3_Inr_iff[of i sess "pcInputs c"] that assms(2,3) by simp
  have pre: "(\<forall>i < j. \<exists>s. round3_share v sess ?hs (hsID ?hs) (pcDigests c) (length vs) t vs (pcInputs c) i = Inr s) \<longleftrightarrow>
      (\<forall>i < j. \<exists>s. vRound3 v (psParties sess ! i) (pcInputs c ! i) = Inr s)" if "j < length vs" for j
    using r3 less_trans[OF _ that] by simp
  note names = buildAbortEvidence_names[of v sess ?hs "hsID ?hs" "pcDigests c" "length vs" t vs _ ev]
  show ?thesis (is "_ \<longleftrightarrow> ?r")
    unfolding run ExtractAbortEvidence_def option.case finish_evidence[OF assms(1-3)]
  proof
    assume ?r
    then obtain j err fault where "j < length vs" "\<forall>i < j. \<exists>s. vRound3 v (psParties sess ! i) (pcInputs c ! i) = Inr s"
      "vRound3 v (psParties sess ! j) (pcInputs c ! j) = Inl (err, Some fault)"
      "buildAbortEvidence v sess ?hs (hsID ?hs) (pcDigests c) (length vs) t vs fault = Inr ev" by (elim exE conjE)
    then show "\<exists>e. \<exists>j < length vs. \<exists>err fault.
        (\<forall>i < j. \<exists>s. round3_share v sess ?hs (hsID ?hs) (pcDigests c) (length vs) t vs (pcInputs c) i = Inr s) \<and>
        vRound3 v (psParties sess ! j) (pcInputs c ! j) = Inl (err, Some fault) \<and>
        buildAbortEvidence v sess ?hs (hsID ?hs) (pcDigests c) (length vs) t vs fault = Inr ev \<and>
        e = EJoin [EErr ErrBootstrapPedersenAbort, abortEvidenceWrap ev (EErr err)]"
      using pre by blast
  next
    assume "\<exists>e. \<exists>j < length vs. \<exists>err fault.
        (\<forall>i < j. \<exists>s. round3_share v sess ?hs (hsID ?hs) (pcDigests c) (length vs) t vs (pcInputs c) i = Inr s) \<and>
        vRound3 v (psParties sess ! j) (pcInputs c ! j) = Inl (err, Some fault) \<and>
        buildAbortEvidence v sess ?hs (hsID ?hs) (pcDigests c) (length vs) t vs fault = Inr ev \<and>
        e = EJoin [EErr ErrBootstrapPedersenAbort, abortEvidenceWrap ev (EErr err)]"
    then obtain j err fault where f: "j < length vs"
      "\<forall>i < j. \<exists>s. round3_share v sess ?hs (hsID ?hs) (pcDigests c) (length vs) t vs (pcInputs c) i = Inr s"
      "vRound3 v (psParties sess ! j) (pcInputs c ! j) = Inl (err, Some fault)"
      "buildAbortEvidence v sess ?hs (hsID ?hs) (pcDigests c) (length vs) t vs fault = Inr ev" by (elim exE conjE)
    show ?r
      by (rule exI[of _ j], rule conjI[OF f(1)], rule exI[of _ err], rule exI[of _ fault], rule conjI[OF f(2)[unfolded pre[OF f(1)]]],
        rule conjI[OF f(3)], rule conjI[OF f(4)], rule names[OF f(4)])
  qed
qed

text \<open>
  The first half and the second half of the bootstrap compose. Within the guards, opening an era in one
  call is reading the parties' seeds, dealing, and finishing on what was dealt, errors included.
\<close>

theorem pedersen_halves_compose:
  fixes v :: "'v vss"
  assumes "1 \<le> t" "t < int (length vs)"
  shows "BootstrapPedersen en newRing lg stream v sys suite t vs gid eid entropy =
    rbind (wrapped (read_seeds (length vs) (case entropy of None \<Rightarrow> sys | Some e \<Rightarrow> e))) (\<lambda>seeds.
    rbind (DealPedersen en newRing stream v suite t vs seeds) (\<lambda>c.
    FinishBootstrapPedersen en newRing lg v suite t vs gid eid (Some c)))"
proof -
  let ?hs = "Resolve (envXof en) suite"
  have g: "\<not> t < 1" "\<not> t > int (length vs)" "\<not> t \<ge> int (length vs)" "vs \<noteq> []" "\<not> length vs < 2" using assms by auto
  have seeds: "length seeds = n" if "read_seeds n rs = Inr seeds" for n rs seeds
    using that by (induction n arbitrary: rs seeds) (auto simp: res_simps)
  have dealt: "pcSession c \<noteq> None \<and> length (pcInputs c) = n" if "dealPedersen en newRing stream v ?hs t n seeds = Inr c" for n seeds and c :: "'v PedersenContributions"
    using that by (auto simp: dealPedersen_def Let_def res_simps wrapped_Inr split: if_splits dest!: mapM_length)
  show ?thesis
  proof (cases "read_seeds (length vs) (case entropy of None \<Rightarrow> sys | Some e \<Rightarrow> e)")
    case (Inl e)
    then show ?thesis using g by (simp add: BootstrapPedersen_def Let_def wrapped_def)
  next
    case (Inr sd)
    show ?thesis
    proof (cases "dealPedersen en newRing stream v ?hs t (length vs) sd")
      case (Inl e)
      then show ?thesis using g Inr seeds[OF Inr] by (simp add: BootstrapPedersen_def DealPedersen_def Let_def wrapped_def)
    next
      case (Inr c)
      then show ?thesis using g \<open>read_seeds _ _ = _\<close> seeds[OF \<open>read_seeds _ _ = _\<close>] dealt[OF Inr]
        by (auto simp: BootstrapPedersen_def DealPedersen_def FinishBootstrapPedersen_def Let_def wrapped_def)
    qed
  qed
qed

lemma distinct_upper_pairs: "distinct (upper_pairs n)"
proof -
  have "distinct (concat (map (\<lambda>i. map (\<lambda>j. (i, j)) [Suc i..<n]) is))" if "distinct is" for "is" :: "nat list"
    using that by (induction "is") (auto simp: distinct_map inj_on_def)
  then show ?thesis by (simp add: upper_pairs_def)
qed

lemma upper_pairs_mem: "i < j \<Longrightarrow> j < n \<Longrightarrow> (i, j) \<in> set (upper_pairs n)"
  by (force simp: upper_pairs_def)

lemma map_of_pair_table: "i < n \<Longrightarrow> j < n \<Longrightarrow> i \<noteq> j \<Longrightarrow> map_of (pair_table n f ! i) (int j) = Some (f (min i j, max i j))"
  by (auto simp: pair_table_def map_of_eq_Some_iff distinct_map inj_on_def comp_def)

lemma map_of_mapM:
  "mapM f xs = Inr ys \<Longrightarrow> distinct xs \<Longrightarrow> x \<in> set xs \<Longrightarrow> \<exists>y. f x = Inr y \<and> map_of (zip xs ys) x = Some y"
  unfolding mapM_Inr_iff in_set_conv_nth using map_of_zip_nth[of xs ys] by fastforce

lemma seedLabel_inj: "i < 2 ^ 32 \<Longrightarrow> j < 2 ^ 32 \<Longrightarrow> seedLabel i j = seedLabel j i \<Longrightarrow> i = j"
proof -
  assume l: "i < 2 ^ 32" "j < 2 ^ 32" and e: "seedLabel i j = seedLabel j i"
  have "be32 (word_of_nat i) = be32 (word_of_nat j)"
    using arg_cong[OF e, of "\<lambda>l. take 4 (drop 4 l)"] by (simp add: seedLabel_def u32be_def str_bytes_def)
  then have "unat (word_of_nat i :: u32) = unat (word_of_nat j :: u32)" by simp
  then show "i = j" using l by (simp add: unat_of_nat take_bit_nat_eq_self)
qed

lemma pairKex_sym: "pairKex en suite suiteID inputs j i = pairKex en suite suiteID inputs i j"
  by (simp add: pairKex_def min.commute max.commute)

text \<open>
  Keys of a pair. Members \<open>i\<close> and \<open>j\<close> end up with one MAC key, derived from nothing but the two shares
  that they dealt each other, and with one seed per direction under different labels.
\<close>

theorem pedersen_pair_keys:
  assumes "derivePairwiseFromShares en suite suiteID n inputs sh = Inr (seeds, macs)" "i < n" "j < n" "i \<noteq> j" "n \<le> 2 ^ 32"
  shows "\<exists>a b k. sealedShare en inputs (min i j) (max i j) = Inr a \<and> sealedShare en inputs (max i j) (min i j) = Inr b \<and>
    k = hsTranscriptHash suite [str_bytes ''CORONA-BOOTSTRAP-PEDERSEN-PAIRWISE-SECRET-v1'', str_bytes suiteID, a, b] \<and>
    map_of (macs ! i) (int j) = Some (hsPRF suite k (str_bytes ''mac'') KeySize) \<and>
    map_of (macs ! j) (int i) = Some (hsPRF suite k (str_bytes ''mac'') KeySize) \<and>
    gomap_at seeds (int i) ! j = hsPRF suite k (seedLabel i j) KeySize \<and>
    gomap_at seeds (int j) ! i = hsPRF suite k (seedLabel j i) KeySize \<and> seedLabel i j \<noteq> seedLabel j i"
proof -
  let ?ps = "\<lambda>i. mapM (pair_seed en suite suiteID inputs sh i) [0..<n]"
  let ?mac = "\<lambda>(i, j). rbind (pairKex en suite suiteID inputs i j) (\<lambda>k. Inr (hsPRF suite k (str_bytes ''mac'') KeySize))"
  obtain ms where sd: "mapM (\<lambda>i. rbind (?ps i) (\<lambda>row. Inr (int i, row))) [0..<n] = Inr seeds"
    and ms: "mapM ?mac (upper_pairs n) = Inr ms"
    and macs: "macs = pair_table n (\<lambda>p. the (map_of (zip (upper_pairs n) ms) p))"
    using assms(1) by (auto simp: derivePairwiseFromShares_def res_simps)
  have row: "\<exists>k. pairKex en suite suiteID inputs x y = Inr k \<and> gomap_at seeds (int x) ! y = hsPRF suite k (seedLabel x y) KeySize"
    if xy: "x < n" "y < n" "x \<noteq> y" for x y
  proof -
    have "rbind (?ps x) (\<lambda>row. Inr (int x, row)) = Inr (seeds ! x)" using sd xy(1) by (simp add: mapM_Inr_iff)
    then obtain r where r: "?ps x = Inr r" "seeds ! x = (int x, r)" by (auto simp: rbind_Inr_iff)
    have "length seeds = n" using sd by (auto dest: mapM_length)
    moreover have "fst (seeds ! i) = int i" if "i < n" for i
    proof -
      have "rbind (?ps i) (\<lambda>row. Inr (int i, row)) = Inr (seeds ! i)" using sd that by (simp add: mapM_Inr_iff)
      then show ?thesis unfolding rbind_Inr_iff by (metis Inr_inject fst_conv)
    qed
    ultimately have keys: "map fst seeds = map int [0..<n]" by (intro nth_equalityI) auto
    then have "length seeds = n" "distinct (map fst seeds)" by (auto simp: distinct_map dest: arg_cong[where f = length])
    then have "map_of seeds (int x) = Some r" using r(2) xy(1) by (metis map_of_eq_Some_iff nth_mem)
    moreover have "pair_seed en suite suiteID inputs sh x y = Inr (r ! y)" using r(1) xy(2) by (auto simp: mapM_Inr_iff)
    ultimately show ?thesis using xy(3) by (auto simp: pair_seed_def gomap_at_def res_simps)
  qed
  let ?p = "(min i j, max i j)"
  have "?p \<in> set (upper_pairs n)" using assms(2-4) by (intro upper_pairs_mem) auto
  then obtain m where m: "?mac ?p = Inr m" "map_of (zip (upper_pairs n) ms) ?p = Some m"
    using map_of_mapM[OF ms distinct_upper_pairs] by blast
  have tab: "map_of (macs ! i) (int j) = Some m" "map_of (macs ! j) (int i) = Some m"
    using map_of_pair_table[OF assms(2-4), of "\<lambda>p. the (map_of (zip (upper_pairs n) ms) p)"]
      map_of_pair_table[OF assms(3,2) assms(4)[symmetric], of "\<lambda>p. the (map_of (zip (upper_pairs n) ms) p)"] m(2) macs
    by (simp_all add: min.commute max.commute)
  obtain k where k: "pairKex en suite suiteID inputs i j = Inr k" "gomap_at seeds (int i) ! j = hsPRF suite k (seedLabel i j) KeySize"
    "gomap_at seeds (int j) ! i = hsPRF suite k (seedLabel j i) KeySize"
    using row[OF assms(2-4)] row[OF assms(3,2) assms(4)[symmetric]] unfolding pairKex_sym[of en suite suiteID inputs j i] by auto
  have "pairKex en suite suiteID inputs (min i j) (max i j) = Inr k" using k(1) by (simp add: pairKex_def)
  then have "m = hsPRF suite k (str_bytes ''mac'') KeySize" using m(1) by simp
  moreover obtain a b where ab: "sealedShare en inputs (min i j) (max i j) = Inr a" "sealedShare en inputs (max i j) (min i j) = Inr b"
    "k = hsTranscriptHash suite [str_bytes ''CORONA-BOOTSTRAP-PEDERSEN-PAIRWISE-SECRET-v1'', str_bytes suiteID, a, b]"
    using k(1) by (auto simp: pairKex_def Let_def res_simps)
  moreover have "seedLabel i j \<noteq> seedLabel j i" using seedLabel_inj[of i j] assms(2-5) by auto
  ultimately show ?thesis using tab k(2,3) by blast
qed

text \<open>What an observer of a transcript computes for member \<open>j\<close>: the noise from the fields of the
  transcript, and the published \<open>\<beta>\<^sub>j\<close> without it.\<close>

definition observed_noise :: "'s env \<Rightarrow> ring_ops \<Rightarrow> hash_suite \<Rightarrow> BootstrapTranscript \<Rightarrow> nat \<Rightarrow> vec" where
  "observed_noise en r suite tr =
     flood en r suite (btHashSuiteID tr) (btRound1Digests tr) (btValidators tr) (btThreshold tr) (length (btValidators tr))"

definition observed_product :: "'s env \<Rightarrow> ring_ops \<Rightarrow> hash_suite \<Rightarrow> BootstrapTranscript \<Rightarrow> nat \<Rightarrow> vec res" where
  "observed_product en r suite tr j =
     rbind (idx (btBetaSerialized tr) j) (\<lambda>buf. rbind (decVector (envCodec en) (drop 4 buf)) (\<lambda>beta.
     VectorSub r beta (observed_noise en r suite tr j) (InitializeVector r dimM)))"

lemma path_a_sum_published:
  assumes "foldM (path_a_step en cr beta :: _ \<Rightarrow> _ \<Rightarrow> 'v eerr + _) (acc, bufs) js = Inr (v, bufs')"
  shows "\<exists>ws. bufs' = bufs @ ws \<and> length ws = length js \<and>
    (\<forall>k < length js. \<exists>b. beta (js ! k) = Inr b \<and> serializeVector (envCodec en) b = Inr (ws ! k))"
  using assms
proof (induction js arbitrary: acc bufs)
  case (Cons j js)
  obtain b buf acc' where s: "beta j = Inr b" "serializeVector (envCodec en) b = Inr buf"
    "foldM (path_a_step en cr beta :: _ \<Rightarrow> _ \<Rightarrow> 'v eerr + _) (acc', bufs @ [buf]) js = Inr (v, bufs')"
    using Cons.prems by (auto simp: path_a_step_def rbind_Inr_iff wrapped_Inr plain_Inr)
  obtain ws where "bufs' = (bufs @ [buf]) @ ws" "length ws = length js"
    "\<forall>k < length js. \<exists>b. beta (js ! k) = Inr b \<and> serializeVector (envCodec en) b = Inr (ws ! k)"
    using Cons.IH[OF s(3)] by blast
  then show ?case using s(1,2) by (intro exI[of _ "buf # ws"]) (auto simp: less_Suc_eq_0_disj)
qed simp

lemma vec_ok_rect: "vec_ok r n v \<Longrightarrow> 0 < rN r \<Longrightarrow> rN r < 2 ^ 64 \<Longrightarrow> n < 2 ^ 64 \<Longrightarrow> vec_rect v"
  by (auto simp: vec_ok_def vvalid_def pvalid_def vec_rect_def poly_rect_def length_Suc_conv)

lemma finish_published:
  fixes v :: "'v vss"
  assumes c: "pcSession c = Some sess"
    and run: "finishPedersenContribs en newRing lg v suite suiteID t n vs gid eid c = Inr (era, tr)" and j: "j < n"
    and len: "length (psParties sess) = n" "length (pcInputs c) = n" "length vs = n"
  shows "\<exists>s w beta buf. vRound3 v (psParties sess ! j) (pcInputs c ! j) = Inr s \<and>
    computeFullCommitteeLagrange lg (psCr sess) n = Inr (map (\<lambda>i. rSetCoefficientsBigint (psCr sess) [w i]) [0..<n]) \<and>
    rbind (path_a_product (psCr sess) (vProfileA v (psProfile sess)) (rSetCoefficientsBigint (psCr sess) [w j]) s) (\<lambda>Aprod.
      VectorAdd (psCr sess) Aprod (observed_noise en (psCr sess) suite tr j) (InitializeVector (psCr sess) dimM)) = Inr beta \<and>
    serializeVector (envCodec en) beta = Inr buf \<and> btBetaSerialized tr ! j = buf \<and> length (btBetaSerialized tr) = n"
proof -
  let ?r = "psCr sess" and ?A = "vProfileA v (psProfile sess)" and ?seed = "noise_seed suite suiteID (pcDigests c) vs t n"
  obtain sh lag bSum bufs bTilde where o: "mapM (round3_share v sess suite suiteID (pcDigests c) n t vs (pcInputs c)) [0..<n] = Inr sh"
    "computeFullCommitteeLagrange lg ?r n = Inr lag" "(path_a_sum en ?r ?A suite ?seed n lag sh :: 'v eerr + _) = Inr (bSum, bufs)"
    "tr = bootstrap_transcript (envCodec en) suite suiteID t n vs (pcDigests c) bufs bTilde"
    using run by (auto simp: finishPedersenContribs_def c Let_def rbind_Inr_iff plain_Inr)
  have s: "length sh = n" "vRound3 v (psParties sess ! j) (pcInputs c ! j) = Inr (sh ! j)"
    using o(1) j len round3_Inr_iff[of j sess "pcInputs c"] by (auto simp: mapM_Inr_iff)
  obtain ws :: "u64 list" where w: "lag = map (\<lambda>i. rSetCoefficientsBigint ?r [uint (ws ! i)]) [0..<n]"
    using o(2) by (auto simp: computeFullCommitteeLagrange_def ComputeLagrangeCoefficients_def res_simps simp del: map_eq_conv split: if_splits)
  obtain bs where b: "bufs = [] @ bs" "length bs = length [0..<n]" "\<forall>k < length [0..<n]. \<exists>b.
      path_a_beta en ?r ?A suite ?seed n lag sh ([0..<n] ! k) = Inr b \<and> serializeVector (envCodec en) b = Inr (bs ! k)"
    using path_a_sum_published[OF o(3)[unfolded path_a_sum_def]] by blast
  then obtain beta where "path_a_beta en ?r ?A suite ?seed n lag sh j = Inr beta" "serializeVector (envCodec en) beta = Inr (bufs ! j)"
    using j by auto
  moreover have "observed_noise en ?r suite tr j = samplePathANoise en ?r suite ?seed j (pathANoiseParameters n)" "btBetaSerialized tr = bufs"
    using len(3) by (simp_all add: observed_noise_def flood_def o(4) bootstrap_transcript_def)
  ultimately show ?thesis using o(2) s b(1,2) j unfolding w
    by (intro exI[of _ "sh ! j"] exI[of _ "\<lambda>i. uint (ws ! i)"] exI[of _ beta] exI[of _ "bufs ! j"]) (simp add: path_a_beta_def idx_def)
qed

text \<open>
  C19: the published noise hides nothing. After every bootstrap that succeeds, an observer who decodes
  the \<open>\<beta>\<^sub>j\<close> of the transcript and subtracts the noise recomputed from the other fields of the same
  transcript holds exactly \<open>A (\<lambda>\<^sub>j s\<^sub>j)\<close>, the noise-free product of the public matrix with the scaled share
  that member \<open>j\<close> obtained from its own round 3.
\<close>

theorem pedersen_noise_is_public:
  fixes v :: "'v vss"
  assumes "FinishBootstrapPedersen en newRing lg v suite t vs gid eid (Some c) = Inr (era, tr)"
    and "pcSession c = Some sess" "length (psParties sess) = length vs" "j < length vs"
    and "lattice_ring (psCr sess)" "rN (psCr sess) < 2 ^ 64"
    and "rNTT (psCr sess) (rSetCoefficientsBigint (psCr sess) [1]) = pbuild (rModulus (psCr sess)) (rN (psCr sess)) (\<lambda>k. 1)"
    and "sampling_ok (envSampling en) (psCr sess)" "mat_ok (psCr sess) dimM dimN (vProfileA v (psProfile sess))" "lattice_codec (envCodec en)"
    and "\<And>s. vRound3 v (psParties sess ! j) (pcInputs c ! j) = Inr s \<Longrightarrow> vec_ok (psCr sess) dimN s"
  shows "\<exists>s lagrange As. vRound3 v (psParties sess ! j) (pcInputs c ! j) = Inr s \<and>
    computeFullCommitteeLagrange lg (psCr sess) (length vs) = Inr lagrange \<and>
    path_a_product (psCr sess) (vProfileA v (psProfile sess)) (lagrange ! j) s = Inr As \<and>
    observed_product en (psCr sess) (Resolve (envXof en) suite) tr j = Inr As"
proof -
  let ?r = "psCr sess" and ?hs = "Resolve (envXof en) suite" and ?e = "observed_noise en (psCr sess) (Resolve (envXof en) suite) tr j"
  have cr: "coeff_ring ?r" by (rule lattice_ring.axioms(1)[OF assms(5)])
  have run: "finishPedersenContribs en newRing lg v ?hs (hsID ?hs) t (length vs) vs gid eid c = Inr (era, tr)" "length (pcInputs c) = length vs"
    using assms(1,2) by (simp_all add: FinishBootstrapPedersen_def Let_def split: if_splits)
  obtain s w beta buf where F: "vRound3 v (psParties sess ! j) (pcInputs c ! j) = Inr s"
    "computeFullCommitteeLagrange lg ?r (length vs) = Inr (map (\<lambda>i. rSetCoefficientsBigint ?r [w i]) [0..<length vs])"
    "rbind (path_a_product ?r (vProfileA v (psProfile sess)) (rSetCoefficientsBigint ?r [w j]) s) (\<lambda>Aprod.
       VectorAdd ?r Aprod ?e (InitializeVector ?r dimM)) = Inr beta"
    "serializeVector (envCodec en) beta = Inr buf" "btBetaSerialized tr ! j = buf" "length (btBetaSerialized tr) = length vs"
    using finish_published[OF assms(2) run(1) assms(4,3) run(2) refl] by blast
  have e: "vec_ok ?r dimM ?e" unfolding observed_noise_def flood_def by (rule lattice_ring.noise_ok[OF assms(5,8)])
  obtain As where As: "path_a_product ?r (vProfileA v (psProfile sess)) (rSetCoefficientsBigint ?r [w j]) s = Inr As" "vec_ok ?r dimM As"
    using lattice_ring.path_a_product_ok[OF assms(5,7,9) assms(11)[OF F(1)]] by blast
  have len: "length (InitializeVector ?r dimM) = dimM" by (simp add: InitializeVector_def)
  note add = coeff_ring.VectorAdd_ok[OF cr As(2) e len]
  have beta: "beta = map2 (rAdd ?r) As ?e" using F(3) As(1) add(1) by simp
  have "vec_rect beta" using vec_ok_rect[OF add(2) coeff_ring.degree[OF cr] assms(6)] by (simp add: beta dimM_def)
  then have "decVector (envCodec en) (drop 4 buf) = Inr beta"
    using F(4) lattice_codec.encVector[OF assms(10)] lattice_codec.decVector[OF assms(10)] by (auto simp: serializeVector_def)
  then have "observed_product en ?r ?hs tr j = Inr As"
    using F(5,6) assms(4) coeff_ring.VectorAdd_Sub[OF cr As(2) e] by (simp add: observed_product_def idx_def beta)
  then show ?thesis using F(1,2) As(1) assms(4)
    by (intro exI[of _ s] exI[of _ "map (\<lambda>i. rSetCoefficientsBigint ?r [w i]) [0..<length vs]"] exI[of _ As]) simp
qed

section \<open>Witnesses\<close>

text \<open>A committee of two at threshold 1 over the reference ring. The sharing library is an instance whose
  dealt shares are the constant secret; a party numbered 7 reports dealer 0 for a bad delivery.\<close>

definition ped_env :: "nat env" where
  "ped_env = ex_env \<lparr> envSampling := ex_sampling \<lparr> uniformRead := (\<lambda>s. ([[3, 5]], Suc s)), gaussRead := (\<lambda>s. ([[1, if even s then 1 else 2]], Suc s)) \<rparr> \<rparr>"

definition ped_rings :: ring_maker where
  "ped_rings n q = (if q = corona_q then (ref_ring, True) else (coeff_ops q 2, True))"

definition ped_lagrange :: lagrange_lib where
  "ped_lagrange = (\<lambda>_. True, \<lambda>xs q. Inr [2, q - 1])"

definition ped_secret :: vec where
  "ped_secret = replicate dimN [[4, 9]]"

definition ped_vss :: "nat vss" where
  "ped_vss = \<lparr> vRingtail = Inr 0, vProfileBase = (\<lambda>_. ref_ring), vProfileA = (\<lambda>_. replicate dimM (replicate dimN [[2, 7]])), vNodeIDLen = 32,
     vGenerateIdentity = (\<lambda>_. Inr 0), vPublicKey = id, vNewIdentityDirectory = (\<lambda>_. Inr 0), vNewParty = (\<lambda>_ _ _ _ _ _ _ _ _. Inr 0),
     vRound1 = (\<lambda>p _. Inr (p, p)), vCommits = (\<lambda>_. []), vEnvelope = (\<lambda>o' _. o'), vOpenDealerShare = (\<lambda>p _ _. Inr ((ped_secret, ped_secret), p)),
     vRound3 = (\<lambda>p _. if p = 7 then Inl (ErrMsg ''bad delivery'', Some 0) else Inr ped_secret),
     vDealerIndex = (\<lambda>_. 0), vRecipientIndex = (\<lambda>_. 1), vNewBadDeliveryComplaint = (\<lambda>_ f _ _ _ _. Inr f) \<rparr>"

definition ped_session :: "nat list \<Rightarrow> nat pedersenSession" where
  "ped_session ps = \<lparr> psProfile = 0, psParties = ps, psIds = [0, 0], psNodes = [[1], [2]], psContext = [], psCr = ref_ring, psCrXi = coeff_ops 262144 2 \<rparr>"

definition ped_contribs :: "nat list \<Rightarrow> nat PedersenContributions" where
  "ped_contribs ps = (let di = \<lparr> diCommits = [], diShare = ped_secret, diBlind = ped_secret \<rparr>; row = [(0, di), (1, di)] in
     \<lparr> pcSession = Some (ped_session ps), pcCommits = [[], []], pcDigests = [[1], [2]], pcInputs = [row, row] \<rparr>)"

lemma ped_sampling_ok: "sampling_ok (envSampling ped_env) ref_ring"
  by (simp add: sampling_ok_def ped_env_def ex_env_def ex_sampling_def pvalid_def corona_q_def)

lemma ped_secret_ok: "vec_ok ref_ring dimN ped_secret"
  by (simp add: ped_secret_def vec_ok_def vvalid_def pvalid_def corona_q_def)

lemma ped_A_ok: "mat_ok ref_ring dimM dimN (replicate dimM (replicate dimN [[2, 7]]))"
  by (simp add: mat_ok_def vec_ok_def vvalid_def pvalid_def corona_q_def)

lemma ped_one: "rNTT ref_ring (rSetCoefficientsBigint ref_ring [1]) = pbuild (rModulus ref_ring) (rN ref_ring) (\<lambda>k. 1)"
  by (simp add: ref_ring_def pc2_def pbuild_def pcoef_def corona_q_def)

lemma ped_dealt: "vss_dealt ped_vss (ped_session [0, 0]) (pcInputs (ped_contribs [0, 0])) (nat 1) (length [''a'', ''b'']) [ped_secret, ped_secret] ped_secret"
proof -
  have "is_sharing corona_q 2 dimN (nat 1) (map (\<lambda>j. (int j + 1, [ped_secret, ped_secret] ! j)) [0..<2]) (\<lambda>p k. pcoef (ped_secret ! p) k)"
    unfolding is_sharing_def
  proof (intro allI impI exI conjI)
    fix p k :: nat assume pk: "p < dimN" "k < 2"
    then have v: "pcoef (ped_secret ! p) k mod corona_q = pcoef (ped_secret ! p) k"
      using pcoef_mod[OF vec_ok_nth[OF ped_secret_ok pk(1)]] by simp
    show "length [pcoef (ped_secret ! p) k] = nat 1" by simp
    show "pval [pcoef (ped_secret ! p) k] 0 mod corona_q = pcoef (ped_secret ! p) k" using v by simp
    show "\<forall>(j, sh) \<in> set (map (\<lambda>j. (int j + 1, [ped_secret, ped_secret] ! j)) [0..<2]). pcoef (sh ! p) k = pval [pcoef (ped_secret ! p) k] j mod corona_q"
      using v by (auto simp: nth_Cons' upt_rec)
  qed
  then show ?thesis using ped_secret_ok
    by (simp add: vss_dealt_def Let_def ped_vss_def ped_session_def ped_contribs_def numeral_2_eq_2 less_Suc_eq all_conj_distrib)
qed

lemma ped_answers: "lagrange_answers ped_lagrange (length [''a'', ''b''])"
  by (simp add: lagrange_answers_def ped_lagrange_def lagrange_weights_def lag_num_def lag_den_def corona_q_def upt_rec)

lemma ped_era_rings: "era_rings ped_rings (ped_session ps)"
  using ped_one ref.lattice_ring_axioms coeff_ring_coeff_ops[of 262144 2]
  by (simp add: era_rings_def Let_def ped_session_def ped_rings_def) (simp add: coeff_ops_def)

lemma ped_encodes: "\<exists>b. encVector (envCodec ped_env) u = Inr b"
  by (simp add: ped_env_def ex_env_def ref_codec_def)

theorem pedersen_era_witness:
  "\<exists>era tr gk. FinishBootstrapPedersen ped_env ped_rings ped_lagrange ped_vss None 1 [''a'', ''b''] 3 4 (Some (ped_contribs [0, 0])) = Inr (era, tr) \<and>
     kGroupKey era = Some gk \<and> era_ok era (\<lambda>p k. pcoef (ped_secret ! p) k)"
proof -
  have c: "pcSession (ped_contribs [0, 0]) = Some (ped_session [0, 0])" by (simp add: ped_contribs_def Let_def)
  have A: "mat_ok (psCr (ped_session [0, 0])) dimM dimN (vProfileA ped_vss (psProfile (ped_session [0, 0])))"
    and sm: "sampling_ok (envSampling ped_env) (psCr (ped_session [0, 0]))"
    using ped_A_ok ped_sampling_ok by (simp_all add: ped_session_def ped_vss_def)
  show ?thesis
    using pedersen_era[OF c ped_dealt ped_era_rings ped_answers A sm ped_encodes, where suite = None and gid = 3 and eid = 4]
    by (fastforce simp: corona_q_def)
qed

theorem pedersen_identifiable_abort_witness:
  "\<exists>e ev. FinishBootstrapPedersen ped_env ped_rings ped_lagrange ped_vss None 1 [''a'', ''b''] 3 4 (Some (ped_contribs [0, 7])) = Inl e \<and>
     ExtractAbortEvidence (Some e) = Some ev \<and> aeDisqualified ev = [0]"
proof -
  let ?c = "ped_contribs [0, 7]" and ?s = "ped_session [0, 7]"
  have c: "pcSession ?c = Some ?s" "length (psParties ?s) = length [''a'', ''b'']" "length (pcInputs ?c) = length [''a'', ''b'']"
    by (simp_all add: ped_contribs_def ped_session_def Let_def)
  let ?hs = "Resolve (envXof ped_env) None"
  obtain ev where ev: "buildAbortEvidence ped_vss ?s ?hs (hsID ?hs) (pcDigests ?c) (length [''a'', ''b'']) 1 [''a'', ''b''] 0 = Inr ev"
    by (simp add: buildAbortEvidence_def Let_def ped_vss_def ped_session_def idx_def)
  note names = buildAbortEvidence_names[OF ev]
  have "\<exists>e. FinishBootstrapPedersen ped_env ped_rings ped_lagrange ped_vss None 1 [''a'', ''b''] 3 4 (Some ?c) = Inl e \<and> ExtractAbortEvidence (Some e) = Some ev"
    unfolding pedersen_identifiable_abort[OF c, of 1, simplified]
    by (rule exI[of _ 1]) (use ev names in \<open>auto simp: ped_vss_def ped_session_def\<close>)
  then show ?thesis using names by (auto simp: ped_vss_def)
qed

theorem pedersen_halves_compose_witness:
  "BootstrapPedersen ped_env ped_rings ped_lagrange (\<lambda>_. []) ped_vss [] None 1 [''a'', ''b''] 3 4 (Some [1, 2]) = Inl (EWrap (EErr ErrEOF))"
  unfolding pedersen_halves_compose[of 1 "[''a'', ''b'']", simplified]
  by (simp add: ReadFull_def KeySize_def wrapped_def)

theorem pedersen_pair_keys_witness:
  "\<exists>seeds macs k. derivePairwiseFromShares ped_env (Default ex_xof) ''s'' 2 (pcInputs (ped_contribs [0, 0])) [ped_secret, ped_secret] = Inr (seeds, macs) \<and>
     map_of (macs ! 0) 1 = Some k \<and> map_of (macs ! 1) 0 = Some k"
proof -
  have l: "length (pcInputs (ped_contribs [0, 0])) = 2" "length [ped_secret, ped_secret] = 2"
    "\<forall>j < 2. \<forall>i < 2. map_of (pcInputs (ped_contribs [0, 0]) ! j) (int i) \<noteq> None"
    using ped_dealt by (simp_all add: vss_dealt_def Let_def numeral_2_eq_2)
  obtain seeds macs where "derivePairwiseFromShares ped_env (Default ex_xof) ''s'' 2 (pcInputs (ped_contribs [0, 0])) [ped_secret, ped_secret] = Inr (seeds, macs)"
    using derivePairwiseFromShares_ok[OF l(1,3,2), of ped_env "Default ex_xof" "''s''"] by auto
  from pedersen_pair_keys[OF this, of 0 1] this show ?thesis by auto
qed

theorem pedersen_noise_is_public_witness:
  "\<exists>era tr lagrange As. FinishBootstrapPedersen ped_env ped_rings ped_lagrange ped_vss None 1 [''a'', ''b''] 3 4 (Some (ped_contribs [0, 0])) = Inr (era, tr) \<and>
     computeFullCommitteeLagrange ped_lagrange ref_ring 2 = Inr lagrange \<and>
     path_a_product ref_ring (replicate dimM (replicate dimN [[2, 7]])) (lagrange ! 1) ped_secret = Inr As \<and>
     observed_product ped_env ref_ring (Resolve (envXof ped_env) None) tr 1 = Inr As"
proof -
  let ?c = "ped_contribs [0, 0]" and ?s = "ped_session [0, 0]" and ?hs = "Resolve (envXof ped_env) None"
  have c: "pcSession ?c = Some ?s" "length (psParties ?s) = length [''a'', ''b'']" "psCr ?s = ref_ring" "length (pcInputs ?c) = 2"
    by (simp_all add: ped_contribs_def ped_session_def Let_def)
  have A: "mat_ok (psCr ?s) dimM dimN (vProfileA ped_vss (psProfile ?s))" and sm: "sampling_ok (envSampling ped_env) (psCr ?s)"
    using ped_A_ok ped_sampling_ok by (simp_all add: ped_session_def ped_vss_def)
  have cond: "distinct [''a'', ''b'']" "(1 :: int) \<le> 1" "(1 :: int) \<le> int (length [''a'', ''b''])" "int (length [''a'', ''b'']) < corona_q"
    by (simp_all add: corona_q_def)
  obtain era tr where run: "finishPedersenContribs ped_env ped_rings ped_lagrange ped_vss ?hs (hsID ?hs) 1 (length [''a'', ''b'']) [''a'', ''b''] 3 4 ?c
      = Inr (era, tr)"
    using finish_ok[OF c(1) ped_dealt ped_era_rings ped_answers A sm ped_encodes cond(1) refl cond(2-4), where suite = ?hs and suiteID = "hsID ?hs"
        and gid = 3 and eid = 4] by blast
  then have F: "FinishBootstrapPedersen ped_env ped_rings ped_lagrange ped_vss None 1 [''a'', ''b''] 3 4 (Some ?c) = Inr (era, tr)"
    using c by (simp add: FinishBootstrapPedersen_def Let_def)
  have r3: "vRound3 ped_vss (psParties ?s ! 1) (pcInputs ?c ! 1) = Inr ped_secret" by (simp add: ped_vss_def ped_session_def)
  have codec: "lattice_codec (envCodec ped_env)" using ex_env_codec by (simp add: ped_env_def)
  have prof: "vProfileA ped_vss (psProfile ?s) = replicate dimM (replicate dimN [[2, 7]])" by (simp add: ped_vss_def)
  have l: "length [''a'', ''b''] = 2" by simp
  obtain lagrange As where "computeFullCommitteeLagrange ped_lagrange ref_ring 2 = Inr lagrange"
    "path_a_product ref_ring (vProfileA ped_vss (psProfile ?s)) (lagrange ! 1) ped_secret = Inr As"
    "observed_product ped_env ref_ring ?hs tr 1 = Inr As"
    using pedersen_noise_is_public[OF F c(1,2) _ _ _ _ sm A codec, of 1] ref.lattice_ring_axioms ped_one ped_secret_ok r3
    unfolding c(3) l by auto
  then show ?thesis using F unfolding prof by blast
qed

end
