(* ===== verification/Byte_Bags.thy ===== *)
theory Byte_Bags
  imports Primitives
begin

text \<open>
  The byte-bag wire format of \<^verbatim>\<open>networking/networking.go\<close>: slices of byte slices and the two kinds
  of maps that carry MACs and seeds between parties. A decoder that meets a short read ends the
  process (\<^verbatim>\<open>log.Fatalf\<close>): \<open>must\<close> turns the failure into a panic. A map is encoded in
  the order in which it is ranged over.
\<close>

section \<open>Exact codecs\<close>

text \<open>A decoder that accepts nothing but encodings.\<close>

locale exact_codec = stream_codec valid enc dec
  for valid :: "'a \<Rightarrow> bool" and enc :: "'a \<Rightarrow> bytes" and dec :: "bytes \<Rightarrow> ('a \<times> bytes) res" +
  assumes dec_sound: "dec bs = Inr (x, rest) \<Longrightarrow> valid x \<and> bs = enc x @ rest"
begin

lemma dec_iff: "dec bs = Inr (x, rest) \<longleftrightarrow> valid x \<and> bs = enc x @ rest"
  using dec_sound dec_enc by blast

lemma repM_iff:
  "repM dec n bs = Inr (xs, rest) \<longleftrightarrow> length xs = n \<and> (\<forall>x \<in> set xs. valid x) \<and> bs = concat (map enc xs) @ rest"
proof (induction n arbitrary: bs xs)
  case (Suc n)
  show ?case
  proof (cases xs)
    case (Cons x ys)
    have "repM dec (Suc n) bs = Inr (x # ys, rest) \<longleftrightarrow> (\<exists>r. dec bs = Inr (x, r) \<and> repM dec n r = Inr (ys, rest))"
      by (auto simp: res_simps)
    then show ?thesis unfolding Cons dec_iff Suc.IH by auto
  qed (auto simp: res_simps)
qed auto

end

definition counted :: "('a \<Rightarrow> bytes) \<Rightarrow> 'a list \<Rightarrow> bytes" where
  "counted enc xs = be32 (word_of_nat (length xs)) @ concat (map enc xs)"

definition dec_counted :: "(bytes \<Rightarrow> ('a \<times> bytes) res) \<Rightarrow> bytes \<Rightarrow> ('a list \<times> bytes) res" where
  "dec_counted dec bs = rbind (dec_be32 bs) (\<lambda>(n, r). repM dec (unat n) r)"

definition dec_int32 :: "bytes \<Rightarrow> (int \<times> bytes) res" where
  "dec_int32 bs = rbind (dec_be32 bs) (\<lambda>(w, r). Inr (sint w, r))"

definition dec_entry :: "(bytes \<Rightarrow> ('a \<times> bytes) res) \<Rightarrow> bytes \<Rightarrow> ((int \<times> 'a) \<times> bytes) res" where
  "dec_entry dec bs = rbind (dec_int32 bs) (\<lambda>(k, r). rbind (dec r) (\<lambda>(v, r'). Inr ((k, v), r')))"

section \<open>Encoders\<close>

definition encodeBytesSlice :: "bytes list \<Rightarrow> bytes" where
  "encodeBytesSlice data = counted len_prefixed data"

definition encodeBytesMap :: "(int, bytes) gomap \<Rightarrow> bytes" where
  "encodeBytesMap data = counted (\<lambda>(key, value). i32 key @ len_prefixed value) data"

definition encodeBytesSliceMap :: "(int, bytes list) gomap \<Rightarrow> bytes" where
  "encodeBytesSliceMap data = counted (\<lambda>(key, value). i32 key @ counted len_prefixed value) data"

section \<open>Decoders\<close>

text \<open>\<^verbatim>\<open>data[int(key)] = value\<close> for every entry in turn.\<close>

definition fill_map :: "(int \<times> 'a) list \<Rightarrow> (int, 'a) gomap" where
  "fill_map es = foldl (\<lambda>m (k, v). AList.update k v m) [] es"

definition decodeBytesSlice :: "bytes \<Rightarrow> (bytes list \<times> bytes) res" where
  "decodeBytesSlice r = must (dec_counted dec_len_prefixed r)"

definition decodeBytesMap :: "bytes \<Rightarrow> ((int, bytes) gomap \<times> bytes) res" where
  "decodeBytesMap r = must (rbind (dec_counted (dec_entry dec_len_prefixed) r) (\<lambda>(es, r'). Inr (fill_map es, r')))"

definition decodeBytesSliceMap :: "bytes \<Rightarrow> ((int, bytes list) gomap \<times> bytes) res" where
  "decodeBytesSliceMap r = must (rbind (dec_counted (dec_entry (dec_counted dec_len_prefixed)) r) (\<lambda>(es, r'). Inr (fill_map es, r')))"

section \<open>The formats are exact\<close>

definition short :: "'a list \<Rightarrow> bool" where
  "short xs \<longleftrightarrow> length xs < 2 ^ 32"

definition int32 :: "int \<Rightarrow> bool" where
  "int32 k \<longleftrightarrow> - (2 ^ 31) \<le> k \<and> k < 2 ^ 31"

lemma unat_short: "short xs \<Longrightarrow> unat (word_of_nat (length xs) :: u32) = length xs"
  by (simp add: short_def unat_of_nat)

lemma be32_of_bytes: "length b = 4 \<Longrightarrow> be32 (word_of_nat (be_val b)) = b"
proof -
  assume b: "length b = 4"
  then have "be_val b < 2 ^ 32" using be_val_bound[of b] by simp
  then have "unat (word_of_nat (be_val b) :: u32) = be_val b" by (simp add: unat_of_nat)
  then show ?thesis using be_bytes_be_val[of b] b by (simp add: be32_def)
qed

interpretation be32x: exact_codec "\<lambda>_. True" be32 dec_be32
  by unfold_locales (auto simp: dec_be32_def res_simps be32_of_bytes)

interpretation int32x: exact_codec int32 i32 dec_int32
proof unfold_locales
  show "dec_int32 (i32 x @ rest) = Inr (x, rest)" if "int32 x" for x rest
    using that by (simp add: dec_int32_def i32_def be32c.dec_enc int32_def signed_of_int signed_take_bit_int_eq_self)
  show "int32 x \<and> bs = i32 x @ rest" if "dec_int32 bs = Inr (x, rest)" for bs x rest
    using that sint_range_size[where 'a = 32] by (auto simp: dec_int32_def res_simps be32x.dec_iff i32_def int32_def word_size)
qed

interpretation lenx: exact_codec "short" len_prefixed dec_len_prefixed
proof unfold_locales
  show "dec_len_prefixed (len_prefixed x @ rest) = Inr (x, rest)" if "short x" for x rest
    using that lenp.dec_enc by (simp add: short_def)
  show "short x \<and> bs = len_prefixed x @ rest" if "dec_len_prefixed bs = Inr (x, rest)" for bs x rest
    using that unat_lt[where 'a = 32] by (auto simp: dec_len_prefixed_def res_simps be32x.dec_iff len_prefixed_def short_def)
qed

text \<open>Counting and keying keep a format exact.\<close>

lemma counted_exact:
  assumes "exact_codec valid enc dec"
  shows "exact_codec (\<lambda>xs. short xs \<and> (\<forall>x \<in> set xs. valid x)) (counted enc) (dec_counted dec)"
proof unfold_locales
  show "dec_counted dec (counted enc x @ rest) = Inr (x, rest)" if "short x \<and> (\<forall>x \<in> set x. valid x)" for x rest
    using that exact_codec.repM_iff[OF assms] by (simp add: dec_counted_def counted_def be32c.dec_enc unat_short)
  show "(short x \<and> (\<forall>x \<in> set x. valid x)) \<and> bs = counted enc x @ rest" if d: "dec_counted dec bs = Inr (x, rest)" for bs x rest
  proof -
    obtain n r where "bs = be32 n @ r" "repM dec (unat n) r = Inr (x, rest)"
      using d by (auto simp: dec_counted_def res_simps be32x.dec_iff)
    then show ?thesis using exact_codec.repM_iff[OF assms] unat_lt[of n] by (auto simp: counted_def short_def)
  qed
qed

lemma entry_exact:
  assumes "exact_codec valid enc dec"
  shows "exact_codec (\<lambda>(k, v). int32 k \<and> valid v) (\<lambda>(k, v). i32 k @ enc v) (dec_entry dec)"
  by unfold_locales
     (auto simp: dec_entry_def res_simps int32x.dec_iff exact_codec.dec_iff[OF assms] int32x.dec_enc split: prod.splits)

interpretation slicec: exact_codec "\<lambda>data. short data \<and> (\<forall>s \<in> set data. short s)" "counted len_prefixed" "dec_counted dec_len_prefixed"
  by (rule counted_exact[OF lenx.exact_codec_axioms])

definition bytes_entry :: "int \<times> bytes \<Rightarrow> bool" where
  "bytes_entry = (\<lambda>(k, v). int32 k \<and> short v)"

definition slices_entry :: "int \<times> bytes list \<Rightarrow> bool" where
  "slices_entry = (\<lambda>(k, v). int32 k \<and> short v \<and> (\<forall>s \<in> set v. short s))"

interpretation mapc: exact_codec "\<lambda>es. short es \<and> (\<forall>e \<in> set es. bytes_entry e)" "encodeBytesMap" "dec_counted (dec_entry dec_len_prefixed)"
  unfolding bytes_entry_def encodeBytesMap_def by (rule counted_exact[OF entry_exact[OF lenx.exact_codec_axioms]])

interpretation smapc: exact_codec "\<lambda>es. short es \<and> (\<forall>e \<in> set es. slices_entry e)" "encodeBytesSliceMap" "dec_counted (dec_entry (dec_counted dec_len_prefixed))"
  unfolding slices_entry_def encodeBytesSliceMap_def by (rule counted_exact[OF entry_exact[OF slicec.exact_codec_axioms]])

section \<open>Filling a map\<close>

lemma fill_map_aux: "distinct (gokeys (m @ es)) \<Longrightarrow> foldl (\<lambda>m (k, v). AList.update k v m) m es = m @ es"
proof (induction es arbitrary: m)
  case (Cons e es)
  obtain k v where e: "e = (k, v)" by fastforce
  have k: "k \<notin> fst ` set m" using Cons.prems e by auto
  then have "AList.update k v m = m @ [(k, v)]" by (induction m) auto
  then show ?case using Cons.IH[of "m @ [(k, v)]"] Cons.prems e by simp
qed simp

lemma fill_map_id: "gomap_wf es \<Longrightarrow> fill_map es = es"
  using fill_map_aux[of "[]" es] by (simp add: fill_map_def)

lemma must_Inr_iff: "must x = Inr y \<longleftrightarrow> x = Inr y"
  by (auto simp: must_def split: sum.splits)

lemma must_error: "must x = Inl e \<Longrightarrow> e = Panic"
  by (auto simp: must_def split: sum.splits)

text \<open>A decoder returns exactly on the encodings within the 32-bit limits; on any other input the process ends.\<close>

lemma slice_decoder_cases:
  "(decodeBytesSlice r = Inr (data, rest) \<longleftrightarrow> short data \<and> (\<forall>s \<in> set data. short s) \<and> r = encodeBytesSlice data @ rest) \<and>
   ((\<nexists>data rest. short data \<and> (\<forall>s \<in> set data. short s) \<and> r = encodeBytesSlice data @ rest) \<longrightarrow> decodeBytesSlice r = Inl Panic)"
proof -
  have iff: "decodeBytesSlice r = Inr (data, rest) \<longleftrightarrow> short data \<and> (\<forall>s \<in> set data. short s) \<and> r = encodeBytesSlice data @ rest" for data rest
    unfolding decodeBytesSlice_def encodeBytesSlice_def must_Inr_iff slicec.dec_iff by simp
  show ?thesis
  proof (intro conjI impI iff)
    assume none: "\<nexists>data rest. short data \<and> (\<forall>s \<in> set data. short s) \<and> r = encodeBytesSlice data @ rest"
    show "decodeBytesSlice r = Inl Panic"
    proof (cases "decodeBytesSlice r")
      case (Inl e)
      then show ?thesis using must_error[of "dec_counted dec_len_prefixed r" e] by (simp add: decodeBytesSlice_def)
    next
      case (Inr p)
      then have "decodeBytesSlice r = Inr (fst p, snd p)" by simp
      then show ?thesis using none unfolding iff by blast
    qed
  qed
qed

section \<open>Properties\<close>

text \<open>
  Byte bags arrive. What the encoders write for slices and maps whose lengths fit 32 bits and whose keys fit
  a 32-bit integer is what the decoders return, whatever the order in which the sender ranged over
  its map, and the bytes that follow are left in the reader.
\<close>

theorem byte_bags_roundtrip:
  assumes "short data" "\<forall>s \<in> set data. short s"
    and "gomap_wf m" "short m" "\<forall>e \<in> set m. bytes_entry e" "gomap_wf m'" "mset m' = mset m"
    and "gomap_wf sm" "short sm" "\<forall>e \<in> set sm. slices_entry e"
  shows "decodeBytesSlice (encodeBytesSlice data @ rest) = Inr (data, rest) \<and>
    (\<exists>d. decodeBytesMap (encodeBytesMap m' @ rest) = Inr (d, rest) \<and> (\<forall>k. map_of d k = map_of m k)) \<and>
    decodeBytesSliceMap (encodeBytesSliceMap sm @ rest) = Inr (sm, rest)"
proof (intro conjI)
  show "decodeBytesSlice (encodeBytesSlice data @ rest) = Inr (data, rest)"
    using assms(1,2) by (simp add: decodeBytesSlice_def encodeBytesSlice_def must_Inr_iff slicec.dec_enc)
  have "short m'" "\<forall>e \<in> set m'. bytes_entry e" using assms(4,5,7) mset_eq_length[OF assms(7)] mset_eq_setD[OF assms(7)] by (simp_all add: short_def)
  then have "decodeBytesMap (encodeBytesMap m' @ rest) = Inr (m', rest)"
    using fill_map_id[OF assms(6)] by (simp add: decodeBytesMap_def must_Inr_iff mapc.dec_enc)
  moreover have "map_of m' k = map_of m k" for k
    by (rule fun_cong[OF map_of_perm[OF assms(3,7)]])
  ultimately show "\<exists>d. decodeBytesMap (encodeBytesMap m' @ rest) = Inr (d, rest) \<and> (\<forall>k. map_of d k = map_of m k)" by blast
  show "decodeBytesSliceMap (encodeBytesSliceMap sm @ rest) = Inr (sm, rest)"
    using assms(9,10) fill_map_id[OF assms(8)] by (simp add: decodeBytesSliceMap_def must_Inr_iff smapc.dec_enc)
qed

theorem byte_bags_roundtrip_witness:
  "decodeBytesSlice (encodeBytesSlice [[1, 2], []] @ [7]) = Inr ([[1, 2], []], [7]) \<and>
   decodeBytesSliceMap (encodeBytesSliceMap [(- 3, [[1], [2, 3]])] @ [7]) = Inr ([(- 3, [[1], [2, 3]])], [7])"
  using byte_bags_roundtrip[of "[[1, 2], []]" "[(0, [5]), (1, [6])]" "[(1, [6]), (0, [5])]" "[(- 3, [[1], [2, 3]])]" "[7]"]
  by (simp add: short_def int32_def bytes_entry_def slices_entry_def)

end
