(* ===== verification/Transport.thy ===== *)
theory Transport
  imports Byte_Bags Activation
begin

text \<open>
  \<^verbatim>\<open>networking/zap.go\<close> and \<^verbatim>\<open>networking/networking.go\<close>: the per-peer receive queues, the node that
  fills them, and the communicator on top. The \<^verbatim>\<open>luxfi/zap\<close> library is the record \<open>zap\<close> (building and
  parsing frames) with the two calls that touch the network, \<^verbatim>\<open>Node.Send\<close> and
  \<^verbatim>\<open>Node.ConnectDirect\<close>, as arguments; the lattice decoder is the record \<open>lat_reader\<close>. A call that
  blocks is \<open>None\<close>.
\<close>

section \<open>Receive queues\<close>

record peerStream =
  stQueue :: "bytes list"
  stClosed :: bool
  stPeerID :: string

definition newPeerStream :: peerStream where
  "newPeerStream = \<lparr> stQueue = [], stClosed = False, stPeerID = [] \<rparr>"

definition stream_push :: "peerStream \<Rightarrow> bytes \<Rightarrow> peerStream" where
  "stream_push s body = (if stClosed s then s else s \<lparr> stQueue := stQueue s @ [body] \<rparr>)"

definition stream_pop :: "peerStream \<Rightarrow> (bytes res \<times> peerStream) option" where
  "stream_pop s = (case stQueue s of
      [] \<Rightarrow> if stClosed s then Some (Inl ErrEOF, s) else None
    | body # rest \<Rightarrow> Some (Inr body, s \<lparr> stQueue := rest \<rparr>))"

definition stream_close :: "peerStream \<Rightarrow> peerStream" where
  "stream_close s = s \<lparr> stClosed := True \<rparr>"

section \<open>Peer names\<close>

definition int_decimal :: "int \<Rightarrow> string" where
  "int_decimal k = (if k < 0 then CHR ''-'' # decimal (nat (- k)) else decimal (nat k))"

definition peerID :: "int \<Rightarrow> string" where
  "peerID rank = ''corona-'' @ int_decimal rank"

text \<open>\<^verbatim>\<open>fmt.Sscanf(id, "corona-%d", &rank)\<close> on ASCII input: the prefix, white space, a sign,
  digits; what follows the digits is ignored.\<close>

definition is_space :: "char \<Rightarrow> bool" where
  "is_space c \<longleftrightarrow> c \<in> set [CHR 0x09, CHR 0x0B, CHR 0x0C, CHR 0x0D, CHR '' '']"

definition is_digit :: "char \<Rightarrow> bool" where
  "is_digit c \<longleftrightarrow> 48 \<le> (of_char c :: nat) \<and> (of_char c :: nat) \<le> 57"

definition digits_val :: "string \<Rightarrow> nat" where
  "digits_val ds = foldl (\<lambda>v c. 10 * v + (of_char c - 48)) 0 ds"

definition scan_nat :: "string \<Rightarrow> nat option" where
  "scan_nat s = (let ds = takeWhile is_digit s in if ds = [] then None else Some (digits_val ds))"

definition scan_int :: "string \<Rightarrow> int option" where
  "scan_int s =
     (let v = (case dropWhile is_space s of
          [] \<Rightarrow> None
        | c # cs \<Rightarrow> if c = CHR ''-'' then map_option (\<lambda>n. - int n) (scan_nat cs)
                  else if c = CHR ''+'' then map_option int (scan_nat cs)
                  else map_option int (scan_nat (c # cs)))
      in (case v of None \<Rightarrow> None | Some k \<Rightarrow> if - (2 ^ 63) \<le> k \<and> k < 2 ^ 63 then Some k else None))"

definition rankFromPeerID :: "string \<Rightarrow> int" where
  "rankFromPeerID name =
     (if take 7 name = ''corona-'' then (case scan_int (drop 7 name) of None \<Rightarrow> - 1 | Some rank \<Rightarrow> rank) else - 1)"

section \<open>The node\<close>

record 'm zap =
  zBuild :: "bytes \<Rightarrow> bytes"
  zParse :: "bytes \<Rightarrow> 'm res"
  zBody :: "'m \<Rightarrow> bytes option"
  zRaw :: "'m \<Rightarrow> bytes"

record zapNode =
  znStreams :: "(int, peerStream) gomap"
  znPeers :: "(int, string) gomap"

definition newZapNode :: zapNode where
  "newZapNode = \<lparr> znStreams = [], znPeers = [] \<rparr>"

definition getOrCreateStream :: "zapNode \<Rightarrow> int \<Rightarrow> peerStream \<times> zapNode" where
  "getOrCreateStream zn src = (case map_of (znStreams zn) src of
      Some s \<Rightarrow> (s, zn)
    | None \<Rightarrow> (let s = newPeerStream \<lparr> stPeerID := peerID src \<rparr> in (s, zn \<lparr> znStreams := AList.update src s (znStreams zn) \<rparr>)))"

definition put_stream :: "int \<Rightarrow> peerStream \<Rightarrow> zapNode \<Rightarrow> zapNode" where
  "put_stream src s zn = zn \<lparr> znStreams := AList.update src s (znStreams zn) \<rparr>"

definition handleIncoming :: "zapNode \<Rightarrow> string \<Rightarrow> bytes \<Rightarrow> zapNode" where
  "handleIncoming zn sender frame =
     (let rank = rankFromPeerID sender in
      if rank < 0 then zn
      else (case getOrCreateStream zn rank of (s, zn') \<Rightarrow> put_stream rank (stream_push s frame) zn'))"

text \<open>The message that is handed to \<^verbatim>\<open>zap.Node.Send\<close>, and its addressee.\<close>

definition zn_send :: "'m zap \<Rightarrow> zapNode \<Rightarrow> int \<Rightarrow> bytes \<Rightarrow> (string \<times> 'm) res" where
  "zn_send z zn dst body = (case map_of (znPeers zn) dst of
      None \<Rightarrow> Inl (ErrMsg ''no peer registered'')
    | Some peer \<Rightarrow> rbind (zParse z (zBuild z body)) (\<lambda>parsed. Inr (peer, parsed)))"

definition frame_body :: "'m zap \<Rightarrow> bytes \<Rightarrow> bytes res" where
  "frame_body z frame = rbind (zParse z frame) (\<lambda>msg. case zBody z msg of
      None \<Rightarrow> Inl (ErrMsg ''empty body in ZAP message'') | Some body \<Rightarrow> Inr body)"

definition recvBody :: "'m zap \<Rightarrow> zapNode \<Rightarrow> int \<Rightarrow> (bytes res \<times> zapNode) option" where
  "recvBody z zn src =
     (case getOrCreateStream zn src of (s, zn') \<Rightarrow>
        map_option (\<lambda>(r, s'). (rbind r (frame_body z), put_stream src s' zn')) (stream_pop s))"

definition registerPeer :: "zapNode \<Rightarrow> int \<Rightarrow> zapNode" where
  "registerPeer zn rank = zn \<lparr> znPeers := AList.update rank (peerID rank) (znPeers zn) \<rparr>"

text \<open>Closing the streams. The stop of the library's node that follows is not modelled: the network of
  \<^verbatim>\<open>Transport_Net\<close> lets frames arrive at a closed node as well, which allows more runs than the library.\<close>

definition zn_close :: "zapNode \<Rightarrow> zapNode" where
  "zn_close zn = zn \<lparr> znStreams := map (\<lambda>(k, s). (k, stream_close s)) (znStreams zn) \<rparr>"

definition CalculatePortOffset :: "int \<Rightarrow> int \<Rightarrow> int" where
  "CalculatePortOffset partyID otherID = (if partyID < otherID then partyID * 100 + otherID else otherID * 100 + partyID)"

section \<open>The communicator\<close>

text \<open>A socket slot is a pointer to an interface: nil, nil inside, or a connection.\<close>

record P2PComm =
  cRank :: int
  cSocks :: "(int, nat option option) gomap"
  cNode :: "zapNode option"

definition NewP2PComm :: "unit res \<Rightarrow> int \<Rightarrow> P2PComm res" where
  "NewP2PComm start rank = rbind start (\<lambda>_. Inr \<lparr> cRank = rank, cSocks = [], cNode = Some newZapNode \<rparr>)"

text \<open>\<open>dial i\<close> is the outcome of attempt \<open>i\<close> of \<^verbatim>\<open>ConnectDirect\<close>; \<open>n\<close> attempts are left.\<close>

fun dial_loop :: "(nat \<Rightarrow> unit res) \<Rightarrow> nat \<Rightarrow> nat \<Rightarrow> unit res \<Rightarrow> unit res" where
  "dial_loop dial i 0 lastErr = lastErr"
| "dial_loop dial i (Suc n) lastErr = (case dial i of Inr _ \<Rightarrow> Inr () | Inl e \<Rightarrow> dial_loop dial (Suc i) n (Inl e))"

definition Connect :: "(string \<Rightarrow> nat \<Rightarrow> unit res) \<Rightarrow> P2PComm \<Rightarrow> int \<Rightarrow> string \<Rightarrow> P2PComm \<times> unit res" where
  "Connect dial comm rank addr = (case cNode comm of
      None \<Rightarrow> (comm, Inl (ErrMsg ''P2PComm has no zap node''))
    | Some zn \<Rightarrow> (case dial_loop (dial addr) 0 10 (Inr ()) of
          Inr _ \<Rightarrow> (comm \<lparr> cNode := Some (registerPeer zn rank) \<rparr>, Inr ())
        | Inl e \<Rightarrow> (comm, Inl e)))"

definition AcceptPeer :: "P2PComm \<Rightarrow> int \<Rightarrow> P2PComm" where
  "AcceptPeer comm rank = comm \<lparr> cNode := map_option (\<lambda>zn. registerPeer zn rank) (cNode comm) \<rparr>"

text \<open>The connections that are closed are returned.\<close>

definition P2PComm_Close :: "P2PComm \<Rightarrow> P2PComm \<times> nat list" where
  "P2PComm_Close comm = (comm \<lparr> cNode := map_option zn_close (cNode comm) \<rparr>,
     concat (map (\<lambda>(k, s). case s of Some (Some c) \<Rightarrow> [c] | _ \<Rightarrow> []) (cSocks comm)))"

definition SetSock :: "P2PComm \<Rightarrow> int \<Rightarrow> nat option option \<Rightarrow> P2PComm" where
  "SetSock comm key conn = comm \<lparr> cSocks := AList.update key conn (cSocks comm) \<rparr>"

definition GetSock :: "P2PComm \<Rightarrow> int \<Rightarrow> nat option option" where
  "GetSock comm key = (case map_of (cSocks comm) key of None \<Rightarrow> None | Some s \<Rightarrow> s)"

definition hasLegacySock :: "P2PComm \<Rightarrow> int \<Rightarrow> bool" where
  "hasLegacySock comm rank = (case map_of (cSocks comm) rank of Some (Some (Some _)) \<Rightarrow> True | _ \<Rightarrow> False)"

section \<open>Sending\<close>

record bufio_writer =
  wWrite :: "bytes \<Rightarrow> unit res"
  wFlush :: "unit res"

datatype 'm delivery = Streamed bytes | Shipped string 'm

definition deliver :: "'m zap \<Rightarrow> (string \<Rightarrow> 'm \<Rightarrow> unit res) \<Rightarrow> bufio_writer option \<Rightarrow> P2PComm \<Rightarrow> int \<Rightarrow> bytes \<Rightarrow> 'm delivery res" where
  "deliver z nodeSend writer comm dst body =
     (case writer of
        Some w \<Rightarrow>
          if hasLegacySock comm dst then rbind (wWrite w body) (\<lambda>_. rbind (wFlush w) (\<lambda>_. Inr (Streamed body)))
          else (case cNode comm of None \<Rightarrow> Inl Panic
            | Some zn \<Rightarrow> rbind (zn_send z zn dst body) (\<lambda>(peer, m). rbind (nodeSend peer m) (\<lambda>_. Inr (Shipped peer m))))
      | None \<Rightarrow> (case cNode comm of None \<Rightarrow> Inl Panic
            | Some zn \<Rightarrow> rbind (zn_send z zn dst body) (\<lambda>(peer, m). rbind (nodeSend peer m) (\<lambda>_. Inr (Shipped peer m)))))"

definition SendVector :: "lat_codec \<Rightarrow> 'm zap \<Rightarrow> (string \<Rightarrow> 'm \<Rightarrow> unit res) \<Rightarrow> bufio_writer option \<Rightarrow> P2PComm \<Rightarrow> int \<Rightarrow> vec \<Rightarrow> 'm delivery res" where
  "SendVector lc z nodeSend writer comm dst msg = rbind (encVector lc msg) (deliver z nodeSend writer comm dst)"

definition SendMatrix :: "lat_codec \<Rightarrow> 'm zap \<Rightarrow> (string \<Rightarrow> 'm \<Rightarrow> unit res) \<Rightarrow> bufio_writer option \<Rightarrow> P2PComm \<Rightarrow> int \<Rightarrow> matrix \<Rightarrow> 'm delivery res" where
  "SendMatrix lc z nodeSend writer comm dst msg = rbind (encMatrix lc msg) (deliver z nodeSend writer comm dst)"

definition SendBytesSlice :: "'m zap \<Rightarrow> (string \<Rightarrow> 'm \<Rightarrow> unit res) \<Rightarrow> bufio_writer option \<Rightarrow> P2PComm \<Rightarrow> int \<Rightarrow> bytes list \<Rightarrow> 'm delivery res" where
  "SendBytesSlice z nodeSend writer comm dst data = deliver z nodeSend writer comm dst (encodeBytesSlice data)"

definition SendBytesMap :: "'m zap \<Rightarrow> (string \<Rightarrow> 'm \<Rightarrow> unit res) \<Rightarrow> bufio_writer option \<Rightarrow> P2PComm \<Rightarrow> int \<Rightarrow> (int, bytes) gomap \<Rightarrow> 'm delivery res" where
  "SendBytesMap z nodeSend writer comm dst data = deliver z nodeSend writer comm dst (encodeBytesMap data)"

definition SendBytesSliceMap :: "'m zap \<Rightarrow> (string \<Rightarrow> 'm \<Rightarrow> unit res) \<Rightarrow> bufio_writer option \<Rightarrow> P2PComm \<Rightarrow> int \<Rightarrow> (int, bytes list) gomap \<Rightarrow> 'm delivery res" where
  "SendBytesSliceMap z nodeSend writer comm dst data = deliver z nodeSend writer comm dst (encodeBytesSliceMap data)"

section \<open>Receiving\<close>

record lat_reader =
  rdVector :: "int \<Rightarrow> bytes \<Rightarrow> (vec \<times> bytes) res"
  rdMatrix :: "int \<Rightarrow> bytes \<Rightarrow> (matrix \<times> bytes) res"

definition streaming :: "bytes option \<Rightarrow> P2PComm \<Rightarrow> int \<Rightarrow> bool" where
  "streaming reader comm src \<longleftrightarrow> reader \<noteq> None \<and> hasLegacySock comm src"

text \<open>The result, the reader and the communicator; \<open>None\<close> when the call blocks.\<close>

type_synonym 'a received = "('a res \<times> bytes option \<times> P2PComm) option"

definition collect :: "'m zap \<Rightarrow> P2PComm \<Rightarrow> int \<Rightarrow> (bytes res \<times> P2PComm) option" where
  "collect z comm src = (case cNode comm of None \<Rightarrow> Some (Inl Panic, comm)
     | Some zn \<Rightarrow> map_option (\<lambda>(r, zn'). (r, comm \<lparr> cNode := Some zn' \<rparr>)) (recvBody z zn src))"

text \<open>The common shape of the five receivers: \<open>dec\<close> reads from a stream, \<open>check\<close> walks a discrete body
  before it is read.\<close>

definition recv_with :: "(bytes \<Rightarrow> ('a \<times> bytes) res) \<Rightarrow> (bytes \<Rightarrow> unit res) \<Rightarrow> 'm zap \<Rightarrow> bytes option \<Rightarrow> P2PComm \<Rightarrow> int \<Rightarrow> 'a received" where
  "recv_with dec check z reader comm src =
     (case reader of
        Some rd \<Rightarrow>
          if streaming reader comm src then
            (case dec rd of Inl e \<Rightarrow> Some (Inl e, reader, comm) | Inr (x, rest) \<Rightarrow> Some (Inr x, Some rest, comm))
          else map_option (\<lambda>(r, comm'). (rbind r (\<lambda>body. rbind (check body) (\<lambda>_. map_sum id fst (dec body))), reader, comm')) (collect z comm src)
      | None \<Rightarrow> map_option (\<lambda>(r, comm'). (rbind r (\<lambda>body. rbind (check body) (\<lambda>_. map_sum id fst (dec body))), reader, comm')) (collect z comm src))"

definition RecvVector :: "lat_reader \<Rightarrow> 'm zap \<Rightarrow> bytes option \<Rightarrow> P2PComm \<Rightarrow> int \<Rightarrow> int \<Rightarrow> vec received" where
  "RecvVector lr z reader comm src n =
     recv_with (\<lambda>bs. if n < 0 then Inl Panic else rdVector lr n bs) ValidateVectorPolyFrame z reader comm src"

definition RecvMatrix :: "lat_reader \<Rightarrow> 'm zap \<Rightarrow> bytes option \<Rightarrow> P2PComm \<Rightarrow> int \<Rightarrow> int \<Rightarrow> matrix received" where
  "RecvMatrix lr z reader comm src n =
     recv_with (\<lambda>bs. if n < 0 then Inl Panic else rdMatrix lr n bs) ValidateMatrixPolyFrame z reader comm src"

definition RecvBytesSlice :: "'m zap \<Rightarrow> bytes option \<Rightarrow> P2PComm \<Rightarrow> int \<Rightarrow> bytes list received" where
  "RecvBytesSlice z reader comm src = recv_with decodeBytesSlice (\<lambda>_. Inr ()) z reader comm src"

definition RecvBytesMap :: "'m zap \<Rightarrow> bytes option \<Rightarrow> P2PComm \<Rightarrow> int \<Rightarrow> (int, bytes) gomap received" where
  "RecvBytesMap z reader comm src = recv_with decodeBytesMap (\<lambda>_. Inr ()) z reader comm src"

definition RecvBytesSliceMap :: "'m zap \<Rightarrow> bytes option \<Rightarrow> P2PComm \<Rightarrow> int \<Rightarrow> (int, bytes list) gomap received" where
  "RecvBytesSliceMap z reader comm src = recv_with decodeBytesSliceMap (\<lambda>_. Inr ()) z reader comm src"

section \<open>Connecting a committee\<close>

text \<open>The goroutine of one peer, and the goroutines in the order in which they finish; the errors
  are those of the channel.\<close>

definition establish_one ::
  "(string \<Rightarrow> nat \<Rightarrow> unit res) \<Rightarrow> int \<Rightarrow> (int, string) gomap \<Rightarrow> P2PComm \<times> goerr list \<Rightarrow> int \<Rightarrow> P2PComm \<times> goerr list" where
  "establish_one dial partyID peerAddrs = (\<lambda>(comm, errs) otherID.
     if partyID < otherID then (AcceptPeer comm otherID, errs)
     else (case map_of peerAddrs otherID of
         None \<Rightarrow> (comm, errs @ [ErrMsg ''no address for peer''])
       | Some addr \<Rightarrow> (case Connect dial comm otherID addr of
             (comm', Inr _) \<Rightarrow> (comm', errs) | (comm', Inl e) \<Rightarrow> (comm', errs @ [e]))))"

definition peer_ids :: "int \<Rightarrow> int \<Rightarrow> int list" where
  "peer_ids partyID totalParties = filter (\<lambda>otherID. otherID \<noteq> partyID) (map int [0..<nat totalParties])"

text \<open>\<open>order\<close> permutes the goroutines. A negative number of parties makes the allocation of the error
  channel panic.\<close>

definition EstablishConnectionsZAP ::
  "(string \<Rightarrow> nat \<Rightarrow> unit res) \<Rightarrow> int \<Rightarrow> int \<Rightarrow> (int, string) gomap \<Rightarrow> (int list \<Rightarrow> int list) \<Rightarrow> P2PComm \<Rightarrow> P2PComm \<times> unit res" where
  "EstablishConnectionsZAP dial partyID totalParties peerAddrs order comm =
     (if totalParties < 0 then (comm, Inl Panic)
      else (case foldl (establish_one dial partyID peerAddrs) (comm, []) (order (peer_ids partyID totalParties)) of
        (comm', []) \<Rightarrow> (comm', Inr ()) | (comm', e # _) \<Rightarrow> (comm', Inl e)))"

end
