(* ===== verification/Transport_Net.thy ===== *)
theory Transport_Net
  imports Transport "HOL-Library.Sublist"
begin

text \<open>
  The transport as a network: nodes, the frames in flight between them, and the steps of senders,
  handlers, receivers and shutdown in any interleaving. Each channel is a queue, and what a
  receiver has taken is always an initial part of what was sent to it.
\<close>

section \<open>Peer names\<close>

lemma decimal_digits: "decimal n \<noteq> [] \<and> (\<forall>c \<in> set (decimal n). is_digit c)"
proof (induction n rule: decimal.induct)
  case (1 n)
  have d: "is_digit (char_of (48 + m))" if "m < 10" for m :: nat using that by (simp add: is_digit_def)
  show ?case
  proof (cases "n < 10")
    case True
    then show ?thesis using d[of n] by (simp del: decimal.simps add: decimal.simps[of n])
  next
    case False
    then show ?thesis using 1 d[of "n mod 10"] by (simp del: decimal.simps add: decimal.simps[of n])
  qed
qed

lemma digits_val_snoc: "digits_val (ds @ [c]) = 10 * digits_val ds + (of_char c - 48)"
  by (simp add: digits_val_def)

lemma digits_val_decimal: "digits_val (decimal n) = n"
proof (induction n rule: decimal.induct)
  case (1 n)
  show ?case
  proof (cases "n < 10")
    case True
    then show ?thesis by (simp del: decimal.simps add: decimal.simps[of n] digits_val_def)
  next
    case False
    then have "digits_val (decimal (n div 10)) = n div 10" using 1 by simp
    then show ?thesis using False by (simp del: decimal.simps add: decimal.simps[of n] digits_val_snoc)
  qed
qed

lemma scan_nat_decimal: "scan_nat (decimal n) = Some n"
proof -
  have "takeWhile is_digit (decimal n) = decimal n" using decimal_digits[of n] by (simp only: takeWhile_eq_all_conv) blast
  then show ?thesis unfolding scan_nat_def Let_def using conjunct1[OF decimal_digits[of n]] digits_val_decimal[of n] by (simp only: if_False)
qed

lemma is_digit_chars: "is_digit c \<Longrightarrow> \<not> is_space c \<and> c \<noteq> CHR ''-'' \<and> c \<noteq> CHR ''+''"
  by (auto simp: is_digit_def is_space_def)

lemma scan_int_digits:
  assumes "s \<noteq> []" "is_digit (hd s)" "scan_nat s = Some n"
  shows "scan_int s = (if n < 2 ^ 63 then Some (int n) else None)"
proof -
  obtain c cs where s: "s = c # cs" using assms(1) by (cases s) auto
  have "c \<noteq> CHR ''-''" "c \<noteq> CHR ''+''" "\<not> is_space c" using is_digit_chars[of c] assms(2) s by auto
  then show ?thesis using assms(3) unfolding s by (simp add: scan_int_def)
qed

lemma scan_int_decimal: "scan_int (decimal n) = (if n < 2 ^ 63 then Some (int n) else None)"
  by (rule scan_int_digits) (use decimal_digits[of n] hd_in_set[of "decimal n"] scan_nat_decimal[of n] in \<open>simp_all del: decimal.simps\<close>)

lemma scan_int_minus: "scan_int (CHR ''-'' # decimal n) = (if n \<le> 2 ^ 63 then Some (- int n) else None)"
  using scan_nat_decimal[of n] by (auto simp del: decimal.simps simp: scan_int_def is_space_def)

lemma rank_peerID: "0 \<le> r \<Longrightarrow> r < 2 ^ 63 \<Longrightarrow> rankFromPeerID (peerID r) = r"
  using scan_int_decimal[of "nat r"] by (simp del: decimal.simps add: rankFromPeerID_def peerID_def int_decimal_def nat_less_iff)

lemma rank_peerID_neg: "r < 0 \<or> 2 ^ 63 \<le> r \<Longrightarrow> rankFromPeerID (peerID r) < 0"
  using scan_int_decimal[of "nat r"] scan_int_minus[of "nat (- r)"]
  by (auto simp del: decimal.simps simp: rankFromPeerID_def peerID_def int_decimal_def nat_less_iff)

section \<open>Streams of a node\<close>

definition stream_of :: "zapNode \<Rightarrow> int \<Rightarrow> peerStream" where
  "stream_of zn src = fst (getOrCreateStream zn src)"

lemma stream_of_put [simp]: "stream_of (put_stream k s zn) src = (if src = k then s else stream_of zn src)"
  by (simp add: stream_of_def put_stream_def getOrCreateStream_def update_conv Let_def split: option.split)

lemma stream_of_create [simp]: "stream_of (snd (getOrCreateStream zn k)) src = stream_of zn src"
  by (simp add: stream_of_def getOrCreateStream_def update_conv Let_def split: option.split)

lemma put_create: "getOrCreateStream zn k = (s, zn') \<Longrightarrow> stream_of (put_stream k s' zn') src = (if src = k then s' else stream_of zn src)"
  by (auto simp: stream_of_def put_stream_def getOrCreateStream_def update_conv Let_def split: option.splits if_splits)

lemma stream_of_register [simp]: "stream_of (registerPeer zn r) src = stream_of zn src"
  by (simp add: stream_of_def registerPeer_def getOrCreateStream_def Let_def split: option.split)

lemma stream_of_incoming:
  "stream_of (handleIncoming zn (peerID a) frame) src =
     (if src = a \<and> 0 \<le> a \<and> a < 2 ^ 63 then stream_push (stream_of zn a) frame else stream_of zn src)"
proof (cases "0 \<le> a \<and> a < 2 ^ 63")
  case True
  then show ?thesis
    using put_create[of zn a "stream_of zn a" "snd (getOrCreateStream zn a)" "stream_push (stream_of zn a) frame" src]
    by (simp add: handleIncoming_def Let_def rank_peerID stream_of_def case_prod_unfold)
next
  case False
  then show ?thesis using rank_peerID_neg[of a] by (auto simp: handleIncoming_def Let_def)
qed

lemma recvBody_cases:
  "recvBody z zn src = (case stQueue (stream_of zn src) of
      [] \<Rightarrow> if stClosed (stream_of zn src) then Some (Inl ErrEOF, put_stream src (stream_of zn src) (snd (getOrCreateStream zn src))) else None
    | f # fs \<Rightarrow> Some (frame_body z f, put_stream src (stream_of zn src \<lparr> stQueue := fs \<rparr>) (snd (getOrCreateStream zn src))))"
  by (simp add: recvBody_def stream_pop_def stream_of_def case_prod_unfold split: list.split)

lemma stream_of_put_snd: "stream_of (put_stream k s' (snd (getOrCreateStream zn k))) src = (if src = k then s' else stream_of zn src)"
  by (rule put_create[of zn k "fst (getOrCreateStream zn k)"]) simp

lemma map_of_map_snd: "map_of (map (\<lambda>(k, s). (k, f s)) m) x = map_option f (map_of m x)"
  by (induction m) auto

lemma stream_of_close:
  "stream_of (zn_close zn) src = (case map_of (znStreams zn) src of None \<Rightarrow> stream_of zn src | Some s \<Rightarrow> stream_close s)"
  by (simp add: stream_of_def zn_close_def getOrCreateStream_def map_of_map_snd Let_def split: option.split)

section \<open>The network\<close>

text \<open>Bodies for which the library's frames are relied on: not empty, with 31-bit lengths.\<close>

definition zap_fits :: "bytes \<Rightarrow> bool" where
  "zap_fits body \<longleftrightarrow> body \<noteq> [] \<and> length body < 2 ^ 31"

locale zap_frames =
  fixes z :: "'m zap"
  assumes parse_build: "zap_fits body \<Longrightarrow> \<exists>m. zParse z (zBuild z body) = Inr m \<and> zBody z m = Some body \<and> zRaw z m = zBuild z body"

text \<open>The connection of the library between two nodes is a parameter as well: a state with an
  operation that puts a frame in and one that takes the next frame out to run the handler on it, if there is one.\<close>

record 'w link =
  lkEmpty :: 'w
  lkPut :: "bytes \<Rightarrow> 'w \<Rightarrow> 'w"
  lkTake :: "'w \<Rightarrow> (bytes \<times> 'w) option"

text \<open>What is relied on: \<open>fr\<close> are the frames a connection holds; it starts empty, keeps what is put in, in
  order, and hands it out from the front.\<close>

locale zap_link = zap_frames z for z :: "'m zap" +
  fixes l :: "'w link" and fr :: "'w \<Rightarrow> bytes list"
  assumes link_empty: "fr (lkEmpty l) = []"
    and link_put: "fr (lkPut l f w) = fr w @ [f]"
    and link_none: "lkTake l w = None \<longleftrightarrow> fr w = []"
    and link_take: "lkTake l w = Some (f, w') \<Longrightarrow> fr w = f # fr w'"

record 'w net =
  nNode :: "int \<Rightarrow> zapNode"
  nWire :: "int \<Rightarrow> int \<Rightarrow> 'w"
  nSent :: "int \<Rightarrow> int \<Rightarrow> bytes list"
  nGot :: "int \<Rightarrow> int \<Rightarrow> bytes list"

definition net_init :: "'w link \<Rightarrow> 'w net" where
  "net_init l = \<lparr> nNode = (\<lambda>_. newZapNode), nWire = (\<lambda>_ _. lkEmpty l), nSent = (\<lambda>_ _. []), nGot = (\<lambda>_ _. []) \<rparr>"

definition upd2 :: "int \<Rightarrow> int \<Rightarrow> 'a \<Rightarrow> (int \<Rightarrow> int \<Rightarrow> 'a) \<Rightarrow> int \<Rightarrow> int \<Rightarrow> 'a" where
  "upd2 i j v f = f(i := (f i)(j := v))"

lemma upd2_apply [simp]: "upd2 i j v f a b = (if a = i \<and> b = j then v else f a b)"
  by (simp add: upd2_def)

text \<open>One step: a sender hands a message to the connection, the library takes a frame from it and runs the
  handler, a receiver takes a body from its queue, is told of an error or waits, a node registers a peer or
  closes. A closed node still runs its handler here, although the library has been stopped: its frames go to closed
  streams, or to streams made after the closing. Sent and received bodies are recorded.\<close>

inductive net_step :: "'m zap \<Rightarrow> 'w link \<Rightarrow> 'w net \<Rightarrow> 'w net \<Rightarrow> bool" for z l where
  send: "zn_send z (nNode s i) j body = Inr (peer, m) \<Longrightarrow> zap_fits body \<Longrightarrow>
    net_step z l s (s \<lparr> nWire := upd2 i j (lkPut l (zRaw z m) (nWire s i j)) (nWire s), nSent := upd2 i j (nSent s i j @ [body]) (nSent s) \<rparr>)"
| handle: "lkTake l (nWire s i j) = Some (frame, rest) \<Longrightarrow>
    net_step z l s (s \<lparr> nNode := (nNode s)(j := handleIncoming (nNode s j) (peerID i) frame), nWire := upd2 i j rest (nWire s) \<rparr>)"
| receive: "recvBody z (nNode s j) i = Some (Inr body, zn) \<Longrightarrow>
    net_step z l s (s \<lparr> nNode := (nNode s)(j := zn), nGot := upd2 i j (nGot s i j @ [body]) (nGot s) \<rparr>)"
| receive_error: "recvBody z (nNode s j) i = Some (Inl e, zn) \<Longrightarrow> net_step z l s (s \<lparr> nNode := (nNode s)(j := zn) \<rparr>)"
| wait: "recvBody z (nNode s j) i = None \<Longrightarrow> net_step z l s (s \<lparr> nNode := (nNode s)(j := snd (getOrCreateStream (nNode s j) i)) \<rparr>)"
| register: "net_step z l s (s \<lparr> nNode := (nNode s)(j := registerPeer (nNode s j) i) \<rparr>)"
| close: "net_step z l s (s \<lparr> nNode := (nNode s)(j := zn_close (nNode s j)) \<rparr>)"

inductive net_reachable :: "'m zap \<Rightarrow> 'w link \<Rightarrow> 'w net \<Rightarrow> bool" for z l where
  init: "net_reachable z l (net_init l)"
| step: "net_reachable z l s \<Longrightarrow> net_step z l s s' \<Longrightarrow> net_reachable z l s'"

text \<open>The channel from \<open>i\<close> to \<open>j\<close>.\<close>

definition chan_ok :: "'m zap \<Rightarrow> ('w \<Rightarrow> bytes list) \<Rightarrow> 'w net \<Rightarrow> int \<Rightarrow> int \<Rightarrow> bool" where
  "chan_ok z fr s i j \<longleftrightarrow> (\<exists>qs ws. stQueue (stream_of (nNode s j) i) = map (zBuild z) qs \<and> fr (nWire s i j) = map (zBuild z) ws \<and>
     (\<forall>q \<in> set (qs @ ws). zap_fits q) \<and>
     (if stClosed (stream_of (nNode s j) i) then prefix (nGot s i j @ qs) (nSent s i j) else nSent s i j = nGot s i j @ qs @ ws))"

context zap_frames
begin

lemma frame_body_build: "zap_fits body \<Longrightarrow> frame_body z (zBuild z body) = Inr body"
  using parse_build[of body] by (auto simp: frame_body_def)

lemma sent_frame: "zn_send z zn j body = Inr (peer, m) \<Longrightarrow> zap_fits body \<Longrightarrow> zRaw z m = zBuild z body"
  using parse_build[of body] by (auto simp: zn_send_def res_simps split: option.splits)

end

context zap_link
begin

lemma chan_ok_init: "chan_ok z fr (net_init l) i j"
  by (simp add: chan_ok_def net_init_def link_empty stream_of_def getOrCreateStream_def newZapNode_def newPeerStream_def Let_def)

lemma chan_ok_same:
  assumes "chan_ok z fr s i j" "stream_of (nNode s' j) i = stream_of (nNode s j) i" "nWire s' i j = nWire s i j"
    "nSent s' i j = nSent s i j" "nGot s' i j = nGot s i j"
  shows "chan_ok z fr s' i j"
  using assms(1) unfolding chan_ok_def assms(2-5) .

lemma chan_ok_step:
  assumes "net_step z l s s'" "chan_ok z fr s i j" "0 \<le> i" "i < 2 ^ 63"
  shows "chan_ok z fr s' i j"
  using assms
proof (induction rule: net_step.induct)
  case (send s a b body peer m)
  show ?case
  proof (cases "a = i \<and> b = j")
    case True
    have m: "zRaw z m = zBuild z body" by (rule sent_frame[OF send.hyps])
    obtain qs ws where c: "stQueue (stream_of (nNode s j) i) = map (zBuild z) qs" "fr (nWire s i j) = map (zBuild z) ws" "\<forall>q \<in> set (qs @ ws). zap_fits q"
      "if stClosed (stream_of (nNode s j) i) then prefix (nGot s i j @ qs) (nSent s i j) else nSent s i j = nGot s i j @ qs @ ws"
      using send.prems(1) unfolding chan_ok_def by blast
    show ?thesis unfolding chan_ok_def
      by (intro exI[of _ qs] exI[of _ "ws @ [body]"]) (use c True m send.hyps(2) in \<open>auto simp: prefix_def link_put\<close>)
  next
    case False
    then show ?thesis by (intro chan_ok_same[OF send.prems(1)]) auto
  qed
next
  case (handle s a b frame rest)
  show ?case
  proof (cases "a = i \<and> b = j")
    case True
    obtain qs ws where c: "stQueue (stream_of (nNode s j) i) = map (zBuild z) qs" "fr (nWire s i j) = map (zBuild z) ws" "\<forall>q \<in> set (qs @ ws). zap_fits q"
      "if stClosed (stream_of (nNode s j) i) then prefix (nGot s i j @ qs) (nSent s i j) else nSent s i j = nGot s i j @ qs @ ws"
      using handle.prems(1) unfolding chan_ok_def by blast
    obtain w ws' where w: "ws = w # ws'" "frame = zBuild z w" "fr rest = map (zBuild z) ws'" using c(2) link_take[OF handle.hyps] True by auto
    show ?thesis
    proof (cases "stClosed (stream_of (nNode s j) i)")
      case cl: True
      show ?thesis unfolding chan_ok_def
        by (intro exI[of _ qs] exI[of _ ws']) (use c w True cl handle.prems(2,3) in \<open>auto simp: stream_of_incoming stream_push_def\<close>)
    next
      case False
      show ?thesis unfolding chan_ok_def
        by (intro exI[of _ "qs @ [w]"] exI[of _ ws']) (use c w True False handle.prems(2,3) in \<open>auto simp: stream_of_incoming stream_push_def\<close>)
    qed
  next
    case False
    then show ?thesis by (intro chan_ok_same[OF handle.prems(1)]) (auto simp: stream_of_incoming)
  qed
next
  case (receive s b a body zn)
  obtain f fs where f: "stQueue (stream_of (nNode s b) a) = f # fs" "frame_body z f = Inr body"
    "zn = put_stream a (stream_of (nNode s b) a \<lparr> stQueue := fs \<rparr>) (snd (getOrCreateStream (nNode s b) a))"
    using receive.hyps by (auto simp: recvBody_cases split: list.splits if_splits)
  show ?case
  proof (cases "a = i \<and> b = j")
    case True
    obtain qs ws where c: "stQueue (stream_of (nNode s j) i) = map (zBuild z) qs" "fr (nWire s i j) = map (zBuild z) ws" "\<forall>q \<in> set (qs @ ws). zap_fits q"
      "if stClosed (stream_of (nNode s j) i) then prefix (nGot s i j @ qs) (nSent s i j) else nSent s i j = nGot s i j @ qs @ ws"
      using receive.prems(1) unfolding chan_ok_def by blast
    obtain q qs' where q: "qs = q # qs'" "f = zBuild z q" "fs = map (zBuild z) qs'" using c(1) f(1) True by auto
    have "body = q" using f(2) frame_body_build[of q] q c(3) by auto
    then show ?thesis unfolding chan_ok_def
      by (intro exI[of _ qs'] exI[of _ ws]) (use c q f(3) True in \<open>auto simp: stream_of_put_snd\<close>)
  next
    case False
    then show ?thesis using f(3) by (intro chan_ok_same[OF receive.prems(1)]) (auto simp: stream_of_put_snd)
  qed
next
  case (receive_error s b a e zn)
  have "frame_body z f \<noteq> Inl e" if "a = i" "b = j" "stQueue (stream_of (nNode s j) i) = f # fs" for f fs
    using receive_error.prems(1) that frame_body_build unfolding chan_ok_def by force
  then have "stream_of (((nNode s)(b := zn)) j) i = stream_of (nNode s j) i"
    using receive_error.hyps by (auto simp: recvBody_cases stream_of_put_snd split: list.splits if_splits)
  then show ?case by (intro chan_ok_same[OF receive_error.prems(1)]) auto
next
  case (wait s b a)
  then show ?case by (intro chan_ok_same[OF wait.prems(1)]) auto
next
  case (register s b a)
  then show ?case by (intro chan_ok_same[OF register.prems(1)]) auto
next
  case (close s b)
  show ?case
  proof (cases "b = j \<and> map_of (znStreams (nNode s j)) i \<noteq> None")
    case True
    then obtain st where st: "map_of (znStreams (nNode s j)) i = Some st" by blast
    then have so: "stream_of (nNode s j) i = st" by (simp add: stream_of_def getOrCreateStream_def)
    obtain qs ws where c: "stQueue st = map (zBuild z) qs" "fr (nWire s i j) = map (zBuild z) ws" "\<forall>q \<in> set (qs @ ws). zap_fits q"
      "if stClosed st then prefix (nGot s i j @ qs) (nSent s i j) else nSent s i j = nGot s i j @ qs @ ws"
      using close.prems(1) unfolding chan_ok_def so by blast
    show ?thesis unfolding chan_ok_def
      by (intro exI[of _ qs] exI[of _ ws]) (use c True st in \<open>auto simp: stream_of_close stream_close_def prefix_def split: if_splits\<close>)
  next
    case False
    then show ?thesis by (intro chan_ok_same[OF close.prems(1)]) (auto simp: stream_of_close split: option.splits)
  qed
qed

lemma chan_ok_reachable: "net_reachable z l s \<Longrightarrow> 0 \<le> i \<Longrightarrow> i < 2 ^ 63 \<Longrightarrow> chan_ok z fr s i j"
  by (induction rule: net_reachable.induct) (auto intro: chan_ok_init chan_ok_step)

lemma fifo_prefix: "chan_ok z fr s i j \<Longrightarrow> prefix (nGot s i j) (nSent s i j)"
  unfolding chan_ok_def by (auto simp: prefix_def split: if_splits)

lemma fifo_all:
  assumes "chan_ok z fr s i j" "\<not> stClosed (stream_of (nNode s j) i)" "lkTake l (nWire s i j) = None" "stQueue (stream_of (nNode s j) i) = []"
  shows "nGot s i j = nSent s i j"
  using assms unfolding chan_ok_def link_none by auto

lemma fifo_progress:
  assumes "chan_ok z fr s i j" "\<not> stClosed (stream_of (nNode s j) i)" "nGot s i j \<noteq> nSent s i j"
  shows "lkTake l (nWire s i j) \<noteq> None \<or> (\<exists>zn. recvBody z (nNode s j) i = Some (Inr (nSent s i j ! length (nGot s i j)), zn))"
proof -
  obtain qs ws where c: "stQueue (stream_of (nNode s j) i) = map (zBuild z) qs" "fr (nWire s i j) = map (zBuild z) ws" "\<forall>q \<in> set (qs @ ws). zap_fits q"
    "nSent s i j = nGot s i j @ qs @ ws"
    using assms(1,2) unfolding chan_ok_def by auto
  show ?thesis
  proof (cases qs)
    case Nil
    then show ?thesis using c assms(3) unfolding link_none by auto
  next
    case (Cons q qs')
    then have "frame_body z (zBuild z q) = Inr q" using c(3) by (intro frame_body_build) auto
    then show ?thesis using c Cons by (auto simp: recvBody_cases nth_append)
  qed
qed

end

section \<open>A reference library\<close>

definition ref_zap :: "bytes zap" where
  "ref_zap = \<lparr> zBuild = (\<lambda>b. 206 # b), zParse = (\<lambda>f. case f of [] \<Rightarrow> Inl (ErrMsg ''frame'') | c # b \<Rightarrow> if c = 206 then Inr f else Inl (ErrMsg ''frame'')),
     zBody = (\<lambda>m. Some (tl m)), zRaw = (\<lambda>m. m) \<rparr>"

text \<open>A connection that is the list of its frames.\<close>

definition list_link :: "bytes list link" where
  "list_link = \<lparr> lkEmpty = [], lkPut = (\<lambda>f w. w @ [f]), lkTake = (\<lambda>w. case w of [] \<Rightarrow> None | f # w' \<Rightarrow> Some (f, w')) \<rparr>"

interpretation refz: zap_frames ref_zap
  by unfold_locales (simp add: ref_zap_def)

interpretation refl: zap_link ref_zap list_link "\<lambda>w. w"
  by unfold_locales (auto simp: list_link_def split: list.splits)

section \<open>Receiving on the communicator\<close>

lemma recv_discrete:
  assumes "\<not> streaming reader comm src" "cNode comm = Some zn" "stQueue (stream_of zn src) = frame # rest"
  shows "\<exists>comm'. recv_with dec check z reader comm src =
      Some (rbind (frame_body z frame) (\<lambda>body. rbind (check body) (\<lambda>_. map_sum id fst (dec body))), reader, comm') \<and>
    (\<exists>zn'. cNode comm' = Some zn' \<and> stQueue (stream_of zn' src) = rest)"
proof -
  let ?zn = "put_stream src (stream_of zn src \<lparr> stQueue := rest \<rparr>) (snd (getOrCreateStream zn src))"
  have "collect z comm src = Some (frame_body z frame, comm \<lparr> cNode := Some ?zn \<rparr>)"
    using assms(2,3) by (simp add: collect_def recvBody_cases)
  then have "recv_with dec check z reader comm src =
      Some (rbind (frame_body z frame) (\<lambda>body. rbind (check body) (\<lambda>_. map_sum id fst (dec body))), reader, comm \<lparr> cNode := Some ?zn \<rparr>)"
    using assms(1) by (cases reader) (simp_all add: recv_with_def)
  then show ?thesis by (intro exI[of _ "comm \<lparr> cNode := Some ?zn \<rparr>"]) simp
qed

text \<open>The reader of the lattice library: it reads back a vector of the given length, from the front.\<close>

definition reads_vectors :: "lat_reader \<Rightarrow> bool" where
  "reads_vectors lr \<longleftrightarrow> (\<forall>v rest. vec_rect v \<longrightarrow> rdVector lr (int (length v)) (vec_bytes v @ rest) = Inr (v, rest))"

definition ref_reader :: lat_reader where
  "ref_reader = \<lparr> rdVector = (\<lambda>n bs. dec_vector_frame bs), rdMatrix = (\<lambda>n bs. dec_matrix_frame bs) \<rparr>"

lemma reads_vectors_ref: "reads_vectors ref_reader"
  by (simp add: reads_vectors_def ref_reader_def vecc.dec_enc)

lemma poly_honest_rect:
  assumes "poly_honest (poly_shape_of p)"
  shows "poly_rect p"
proof -
  have h: "p \<noteq> []" "0 < length (hd p)" "length (hd p) \<le> 4096" "length p \<le> 4096" "\<forall>row \<in> set p. length row = length (hd p)"
    using assms unfolding poly_honest_def poly_shape_def poly_shape_of_def MaxLatticeUintSliceLen_def by blast+
  have "length p < 2 ^ 64" "length (hd p) < 2 ^ 64" using h(3,4) by simp_all
  then show ?thesis using h unfolding poly_rect_def by blast
qed

lemma vector_honest_rect:
  assumes "vector_honest (map poly_shape_of v)"
  shows "vec_rect v"
proof -
  have "length v \<le> 4096" "\<forall>p \<in> set v. poly_honest (poly_shape_of p)" using assms unfolding vector_honest_def MaxLatticeUintSliceLen_def by auto
  then show ?thesis unfolding vec_rect_def using poly_honest_rect by simp
qed

lemma vec_bytes_nonempty: "vec_bytes v \<noteq> []"
proof -
  have "8 \<le> length (vec_bytes v)" by (simp add: vec_bytes_alt)
  then show ?thesis by auto
qed

lemma vec_bytes_fits:
  assumes "vector_honest (map poly_shape_of v)" "length (vec_bytes v) \<le> 16777216"
  shows "zap_fits (vec_bytes v)" "ValidateVectorPolyFrame (vec_bytes v) = Inr ()"
proof -
  show "zap_fits (vec_bytes v)" using assms(2) vec_bytes_nonempty[of v] by (simp add: zap_fits_def)
  show "ValidateVectorPolyFrame (vec_bytes v) = Inr ()"
    using validate_frames assms unfolding vec_bytes_def by blast
qed

lemma deliver_shipped:
  assumes "deliver z nodeSend w comm dst body = Inr (Shipped peer m)"
  obtains zn where "zn_send z zn dst body = Inr (peer, m)"
  using assms by (auto simp: deliver_def res_simps split: option.splits if_splits)

section \<open>Properties\<close>

text \<open>
  C16: channels are queues, over any library whose frames can be read back and whose connections keep frames
  in order (\<open>zap_link\<close>). Whatever the interleaving of senders, handlers, receivers, registrations and
  shutdowns, the bodies a party has received from a peer are an initial part of those the peer
  sent to it; and while its stream is open and something is outstanding, either a frame is still
  in flight or the next receive returns exactly the next body.
\<close>

theorem fifo_delivery:
  assumes "zap_link z l fr" "net_reachable z l s" "0 \<le> i" "i < 2 ^ 63"
  shows "prefix (nGot s i j) (nSent s i j) \<and>
    (stClosed (stream_of (nNode s j) i) \<or> nGot s i j = nSent s i j \<or> lkTake l (nWire s i j) \<noteq> None \<or>
       (\<exists>zn. recvBody z (nNode s j) i = Some (Inr (nSent s i j ! length (nGot s i j)), zn)))"
proof -
  have c: "chan_ok z fr s i j" by (rule zap_link.chan_ok_reachable[OF assms])
  show ?thesis using zap_link.fifo_prefix[OF assms(1) c] zap_link.fifo_progress[OF assms(1) c] by blast
qed

text \<open>
  A vector arrives. What \<^verbatim>\<open>SendVector\<close> hands to the network node for a peer, once that peer's
  handler has queued it on an open and empty stream, is what the peer's \<^verbatim>\<open>RecvVector\<close> returns.
\<close>

theorem vector_delivered:
  assumes "zap_frames z" "lattice_codec lc" "reads_vectors lr"
    and v: "vector_honest (map poly_shape_of v)" "length (vec_bytes v) \<le> 16777216"
    and "SendVector lc z nodeSend w comm j v = Inr (Shipped peer m)"
    and "cNode comm' = Some zn" "\<not> hasLegacySock comm' i" "0 \<le> i" "i < 2 ^ 63"
    and "stQueue (stream_of zn i) = []" "\<not> stClosed (stream_of zn i)"
  shows "\<exists>comm''. RecvVector lr z reader (comm' \<lparr> cNode := Some (handleIncoming zn (peerID i) (zRaw z m)) \<rparr>) i (int (length v)) =
    Some (Inr v, reader, comm'')"
proof -
  have rect: "vec_rect v" by (rule vector_honest_rect[OF v(1)])
  then have "encVector lc v = Inr (vec_bytes v)" by (rule lattice_codec.encVector[OF assms(2)])
  then have "deliver z nodeSend w comm j (vec_bytes v) = Inr (Shipped peer m)" using assms(6) by (simp add: SendVector_def)
  then obtain zn0 where "zn_send z zn0 j (vec_bytes v) = Inr (peer, m)" by (rule deliver_shipped)
  then have raw: "zRaw z m = zBuild z (vec_bytes v)" using zap_frames.sent_frame[OF assms(1)] vec_bytes_fits[OF v] by blast
  let ?zn = "handleIncoming zn (peerID i) (zRaw z m)"
  let ?comm = "comm' \<lparr> cNode := Some ?zn \<rparr>"
  have q: "stQueue (stream_of ?zn i) = zBuild z (vec_bytes v) # []"
    using assms(9-12) raw by (simp add: stream_of_incoming stream_push_def)
  have ns: "\<not> streaming reader ?comm i" using assms(8) by (simp add: streaming_def hasLegacySock_def)
  have body: "frame_body z (zBuild z (vec_bytes v)) = Inr (vec_bytes v)" by (rule zap_frames.frame_body_build[OF assms(1) vec_bytes_fits(1)[OF v]])
  have "rdVector lr (int (length v)) (vec_bytes v @ []) = Inr (v, [])" using assms(3) rect unfolding reads_vectors_def by blast
  then show ?thesis
    using recv_discrete[OF ns _ q, where dec = "\<lambda>bs. if int (length v) < 0 then Inl Panic else rdVector lr (int (length v)) bs" and check = ValidateVectorPolyFrame and z = z]
      body vec_bytes_fits(2)[OF v] unfolding RecvVector_def by auto
qed

text \<open>
  What does not pass the frame walk is never decoded. If the frame at the head of a stream holds a body the validator
  rejects, \<^verbatim>\<open>RecvVector\<close> and \<^verbatim>\<open>RecvMatrix\<close> report \<^verbatim>\<open>ErrLimitExceeded\<close> whatever the lattice decoder would do
  with it, and drop the frame. A byte-slice receiver has no such walk: a body that is not an encoding ends the process.
\<close>

theorem malformed_bodies:
  assumes "\<not> streaming reader comm i" "cNode comm = Some zn" "stQueue (stream_of zn i) = frame # rest" "frame_body z frame = Inr body"
  shows "(ValidateVectorPolyFrame body \<noteq> Inr () \<longrightarrow> (\<exists>comm' zn'. RecvVector lr z reader comm i n = Some (Inl ErrLimitExceeded, reader, comm') \<and>
      cNode comm' = Some zn' \<and> stQueue (stream_of zn' i) = rest)) \<and>
    (ValidateMatrixPolyFrame body \<noteq> Inr () \<longrightarrow> (\<exists>comm' zn'. RecvMatrix lr z reader comm i n = Some (Inl ErrLimitExceeded, reader, comm') \<and>
      cNode comm' = Some zn' \<and> stQueue (stream_of zn' i) = rest)) \<and>
    ((\<forall>data tl. body \<noteq> encodeBytesSlice data @ tl) \<longrightarrow> (\<exists>comm'. RecvBytesSlice z reader comm i = Some (Inl Panic, reader, comm')))"
proof (intro conjI impI)
  show "\<exists>comm' zn'. RecvVector lr z reader comm i n = Some (Inl ErrLimitExceeded, reader, comm') \<and>
      cNode comm' = Some zn' \<and> stQueue (stream_of zn' i) = rest" if "ValidateVectorPolyFrame body \<noteq> Inr ()"
  proof -
    have "ValidateVectorPolyFrame body = Inl ErrLimitExceeded" using validate_frames that by blast
    then show ?thesis using recv_discrete[OF assms(1-3), of "\<lambda>bs. if n < 0 then Inl Panic else rdVector lr n bs" ValidateVectorPolyFrame z] assms(4)
      unfolding RecvVector_def by auto
  qed
  show "\<exists>comm' zn'. RecvMatrix lr z reader comm i n = Some (Inl ErrLimitExceeded, reader, comm') \<and>
      cNode comm' = Some zn' \<and> stQueue (stream_of zn' i) = rest" if "ValidateMatrixPolyFrame body \<noteq> Inr ()"
  proof -
    have "ValidateMatrixPolyFrame body = Inl ErrLimitExceeded" using validate_frames that by blast
    then show ?thesis using recv_discrete[OF assms(1-3), of "\<lambda>bs. if n < 0 then Inl Panic else rdMatrix lr n bs" ValidateMatrixPolyFrame z] assms(4)
      unfolding RecvMatrix_def by auto
  qed
  show "\<exists>comm'. RecvBytesSlice z reader comm i = Some (Inl Panic, reader, comm')" if "\<forall>data tl. body \<noteq> encodeBytesSlice data @ tl"
  proof -
    have "decodeBytesSlice body = Inl Panic" using slice_decoder_cases[of body] that by blast
    then show ?thesis using recv_discrete[OF assms(1-3), of decodeBytesSlice "\<lambda>_. Inr ()" z] assms(4)
      unfolding RecvBytesSlice_def by auto
  qed
qed

section \<open>Shutdown\<close>

text \<open>After \<^verbatim>\<open>close\<close> the streams that exist hand out what they hold and then the end of file. A rank
  without a stream gets a fresh, open one: a receive from it blocks, and a frame from it is queued.\<close>

lemma close_drains:
  assumes "map_of (znStreams zn) i = Some s"
  shows "recvBody z (zn_close zn) i \<noteq> None \<and>
    (stQueue s = [] \<longrightarrow> map_option fst (recvBody z (zn_close zn) i) = Some (Inl ErrEOF)) \<and>
    stQueue (stream_of (handleIncoming (zn_close zn) (peerID i) frame) i) = stQueue s"
  using assms by (auto simp: recvBody_cases stream_of_close stream_close_def stream_of_incoming stream_push_def split: list.split)

lemma close_misses_new:
  assumes "map_of (znStreams zn) i = None" "0 \<le> i" "i < 2 ^ 63"
  shows "recvBody z (zn_close zn) i = None \<and>
    stQueue (stream_of (handleIncoming (zn_close zn) (peerID i) frame) i) = [frame]"
proof -
  have "stream_of zn i = newPeerStream \<lparr> stPeerID := peerID i \<rparr>" using assms(1) by (simp add: stream_of_def getOrCreateStream_def Let_def)
  then show ?thesis using assms
    by (simp add: recvBody_cases stream_of_close stream_of_incoming stream_push_def newPeerStream_def)
qed

section \<open>Connecting\<close>

lemma dial_loop_ok: "dial_loop dial i n e = Inr () \<longleftrightarrow> n = 0 \<and> e = Inr () \<or> (\<exists>k<n. dial (i + k) = Inr ())"
proof (induction n arbitrary: i e)
  case (Suc n)
  have "(\<exists>k<Suc n. dial (i + k) = Inr ()) \<longleftrightarrow> dial i = Inr () \<or> (\<exists>k<n. dial (Suc i + k) = Inr ())"
    by (auto simp: less_Suc_eq_0_disj)
  then show ?case using Suc.IH[of "Suc i"] by (auto split: sum.split)
qed simp

text \<open>What one goroutine needs to succeed: nothing, or an address that one of ten dials reaches.\<close>

definition reaches :: "(string \<Rightarrow> nat \<Rightarrow> unit res) \<Rightarrow> int \<Rightarrow> (int, string) gomap \<Rightarrow> int \<Rightarrow> bool" where
  "reaches dial partyID peerAddrs otherID \<longleftrightarrow>
     partyID < otherID \<or> (\<exists>addr. map_of peerAddrs otherID = Some addr \<and> (\<exists>k<10. dial addr k = Inr ()))"

lemma dial_ten: "dial_loop dial 0 10 (Inr ()) = Inr () \<longleftrightarrow> (\<exists>k<10. dial k = Inr ())"
  using dial_loop_ok[of dial 0 10 "Inr ()"] by simp

lemma Connect_cases:
  assumes "cNode comm = Some zn"
  shows "(\<exists>k<10. dial addr k = Inr ()) \<Longrightarrow> Connect dial comm r addr = (comm \<lparr> cNode := Some (registerPeer zn r) \<rparr>, Inr ())"
    and "\<not> (\<exists>k<10. dial addr k = Inr ()) \<Longrightarrow> \<exists>e. Connect dial comm r addr = (comm, Inl e)"
  using assms dial_ten[of "dial addr"] by (auto simp: Connect_def split: sum.split)

lemma establish_one_cases:
  assumes "cNode comm = Some zn"
  shows "\<exists>errs'. establish_one dial me addrs (comm, errs) r =
      (if reaches dial me addrs r then comm \<lparr> cNode := Some (registerPeer zn r) \<rparr> else comm, errs @ errs') \<and>
      (errs' = [] \<longleftrightarrow> reaches dial me addrs r)"
proof (cases "me < r")
  case True
  then show ?thesis using assms by (simp add: establish_one_def AcceptPeer_def reaches_def)
next
  case False
  show ?thesis
  proof (cases "map_of addrs r")
    case None
    then show ?thesis using False by (simp add: establish_one_def reaches_def)
  next
    case (Some addr)
    then show ?thesis using False Connect_cases[OF assms, of dial addr r]
      by (cases "\<exists>k<10. dial addr k = Inr ()") (auto simp: establish_one_def reaches_def)
  qed
qed

lemma establish_fold:
  assumes "cNode comm = Some zn"
  shows "\<exists>zn' errs'. foldl (establish_one dial me addrs) (comm, errs) order = (comm \<lparr> cNode := Some zn' \<rparr>, errs @ errs') \<and>
      (errs' = [] \<longleftrightarrow> (\<forall>r \<in> set order. reaches dial me addrs r)) \<and> znStreams zn' = znStreams zn \<and>
      (\<forall>r. map_of (znPeers zn') r = (if r \<in> set order \<and> reaches dial me addrs r then Some (peerID r) else map_of (znPeers zn) r))"
  using assms
proof (induction order arbitrary: comm zn errs)
  case Nil
  then show ?case by (intro exI[of _ zn] exI[of _ "[]"]) simp
next
  case (Cons a order)
  let ?zn = "if reaches dial me addrs a then registerPeer zn a else zn"
  let ?comm = "comm \<lparr> cNode := Some ?zn \<rparr>"
  obtain e1 where e1: "establish_one dial me addrs (comm, errs) a = (?comm, errs @ e1)" "e1 = [] \<longleftrightarrow> reaches dial me addrs a"
    using establish_one_cases[OF Cons.prems, of dial me addrs errs a] Cons.prems by (cases "reaches dial me addrs a") auto
  obtain zn' e2 where r: "foldl (establish_one dial me addrs) (?comm, errs @ e1) order = (?comm \<lparr> cNode := Some zn' \<rparr>, (errs @ e1) @ e2)"
      "e2 = [] \<longleftrightarrow> (\<forall>r \<in> set order. reaches dial me addrs r)" "znStreams zn' = znStreams ?zn"
      "\<forall>r. map_of (znPeers zn') r = (if r \<in> set order \<and> reaches dial me addrs r then Some (peerID r) else map_of (znPeers ?zn) r)"
    using Cons.IH[of ?comm ?zn "errs @ e1"] by auto
  have p: "map_of (znPeers ?zn) r = (if r = a \<and> reaches dial me addrs a then Some (peerID r) else map_of (znPeers zn) r)" for r
    by (simp add: registerPeer_def update_conv)
  show ?case
    by (intro exI[of _ zn'] exI[of _ "e1 @ e2"]) (use e1 r p in \<open>auto simp: registerPeer_def\<close>)
qed

text \<open>
  C40: a committee connects. In whatever order its goroutines finish, \<^verbatim>\<open>EstablishConnectionsZAP\<close> registers exactly the
  peers of higher rank and those of lower rank whose address one of ten dials reaches, leaves every
  receive queue as it is, and reports success exactly if no peer is missing. A negative number of parties
  panics.
\<close>

theorem establish_connections:
  assumes "cNode comm = Some zn" "mset (order (peer_ids me parties)) = mset (peer_ids me parties)"
  shows "(parties < 0 \<longrightarrow> EstablishConnectionsZAP dial me parties addrs order comm = (comm, Inl Panic)) \<and>
   (0 \<le> parties \<longrightarrow> (\<exists>zn' res. EstablishConnectionsZAP dial me parties addrs order comm = (comm \<lparr> cNode := Some zn' \<rparr>, res) \<and>
    znStreams zn' = znStreams zn \<and>
    (\<forall>r. map_of (znPeers zn') r =
       (if 0 \<le> r \<and> r < parties \<and> r \<noteq> me \<and> reaches dial me addrs r then Some (peerID r) else map_of (znPeers zn) r)) \<and>
    (res = Inr () \<longleftrightarrow> (\<forall>r. 0 \<le> r \<and> r < parties \<and> r \<noteq> me \<longrightarrow> reaches dial me addrs r))))"
proof (intro conjI impI)
  show "EstablishConnectionsZAP dial me parties addrs order comm = (comm, Inl Panic)" if "parties < 0"
    using that by (simp add: EstablishConnectionsZAP_def)
next
  assume p: "0 \<le> parties"
  let ?o = "order (peer_ids me parties)"
  have "r \<in> set (peer_ids me parties) \<longleftrightarrow> 0 \<le> r \<and> r < parties \<and> r \<noteq> me" for r
    using p by (auto simp: peer_ids_def image_iff intro!: bexI[of _ "nat r"])
  then have s: "r \<in> set ?o \<longleftrightarrow> 0 \<le> r \<and> r < parties \<and> r \<noteq> me" for r
    using mset_eq_setD[OF assms(2)] by simp
  obtain zn' errs where f: "foldl (establish_one dial me addrs) (comm, []) ?o = (comm \<lparr> cNode := Some zn' \<rparr>, [] @ errs)"
      "errs = [] \<longleftrightarrow> (\<forall>r \<in> set ?o. reaches dial me addrs r)" "znStreams zn' = znStreams zn"
      "\<forall>r. map_of (znPeers zn') r = (if r \<in> set ?o \<and> reaches dial me addrs r then Some (peerID r) else map_of (znPeers zn) r)"
    using establish_fold[OF assms(1), of dial me addrs "[]" ?o] by blast
  let ?res = "if errs = [] then Inr () else Inl (hd errs) :: unit res"
  have "EstablishConnectionsZAP dial me parties addrs order comm = (comm \<lparr> cNode := Some zn' \<rparr>, ?res)"
    using f(1) p by (simp add: EstablishConnectionsZAP_def split: list.split)
  moreover have "errs = [] \<longleftrightarrow> (\<forall>r. 0 \<le> r \<and> r < parties \<and> r \<noteq> me \<longrightarrow> reaches dial me addrs r)"
    unfolding f(2) Ball_def s ..
  moreover have "?res = Inr () \<longleftrightarrow> errs = []" by (cases "errs = []") simp_all
  moreover have "\<forall>r. map_of (znPeers zn') r =
       (if 0 \<le> r \<and> r < parties \<and> r \<noteq> me \<and> reaches dial me addrs r then Some (peerID r) else map_of (znPeers zn) r)"
    using f(4) unfolding s conj_assoc .
  ultimately show "\<exists>zn' res. EstablishConnectionsZAP dial me parties addrs order comm = (comm \<lparr> cNode := Some zn' \<rparr>, res) \<and>
    znStreams zn' = znStreams zn \<and>
    (\<forall>r. map_of (znPeers zn') r =
       (if 0 \<le> r \<and> r < parties \<and> r \<noteq> me \<and> reaches dial me addrs r then Some (peerID r) else map_of (znPeers zn) r)) \<and>
    (res = Inr () \<longleftrightarrow> (\<forall>r. 0 \<le> r \<and> r < parties \<and> r \<noteq> me \<longrightarrow> reaches dial me addrs r))"
    using f(3) by (intro exI[of _ zn'] exI[of _ ?res] conjI) (assumption | simp only:)+
qed

section \<open>Port numbers\<close>

lemma port_offset_comm: "CalculatePortOffset a b = CalculatePortOffset b a"
  by (simp add: CalculatePortOffset_def)

lemma port_offset_unique:
  assumes "0 \<le> a" "a < b" "b < 100" "0 \<le> a'" "a' < b'" "b' < 100" "CalculatePortOffset a b = CalculatePortOffset a' b'"
  shows "a = a' \<and> b = b'"
proof -
  have "a * 100 + b = a' * 100 + b'" using assms(2,5,7) by (simp add: CalculatePortOffset_def)
  moreover from this have "\<not> a < a'" "\<not> a' < a" using assms(1-6) by linarith+
  ultimately show ?thesis by simp
qed

lemma port_offset_collides: "CalculatePortOffset 0 101 = CalculatePortOffset 1 1 \<and> CalculatePortOffset 0 102 = CalculatePortOffset 1 2"
  by (simp add: CalculatePortOffset_def)

section \<open>Witnesses\<close>

text \<open>Party 0 knows party 1, sends it two bytes, and party 1's handler has run.\<close>

definition ex_net :: "bytes list net" where
  "ex_net = net_init list_link \<lparr> nNode := (\<lambda>_. newZapNode)(0 := registerPeer newZapNode 1, 1 := handleIncoming newZapNode (peerID 0) [206, 1, 2]),
     nWire := upd2 0 1 [] (upd2 0 1 [[206, 1, 2]] (\<lambda>_ _. [])), nSent := upd2 0 1 [[1, 2]] (\<lambda>_ _. []) \<rparr>"

lemma ex_net_reachable: "net_reachable ref_zap list_link ex_net"
proof -
  let ?s1 = "net_init list_link \<lparr> nNode := (\<lambda>_. newZapNode)(0 := registerPeer newZapNode 1) \<rparr>"
  let ?s2 = "?s1 \<lparr> nWire := upd2 0 1 [[206, 1, 2]] (\<lambda>_ _. []), nSent := upd2 0 1 [[1, 2]] (\<lambda>_ _. []) \<rparr>"
  have 1: "net_step ref_zap list_link (net_init list_link) ?s1"
    using net_step.register[of ref_zap list_link "net_init list_link" 0 1] by (simp add: net_init_def)
  have "zn_send ref_zap (registerPeer newZapNode 1) 1 [1, 2] = Inr (peerID 1, [206, 1, 2])"
    by (simp add: zn_send_def registerPeer_def newZapNode_def ref_zap_def)
  then have 2: "net_step ref_zap list_link ?s1 ?s2"
    using net_step.send[of ref_zap ?s1 0 1 "[1, 2]" "peerID 1" "[206, 1, 2]" list_link] by (simp add: net_init_def list_link_def ref_zap_def zap_fits_def)
  have 3: "net_step ref_zap list_link ?s2 ex_net"
    using net_step.handle[of list_link ?s2 0 1 "[206, 1, 2]" "[]" ref_zap] by (simp add: net_init_def list_link_def ex_net_def)
  show ?thesis by (intro net_reachable.step[OF _ 3] net_reachable.step[OF _ 2] net_reachable.step[OF _ 1] net_reachable.init)
qed

theorem fifo_delivery_witness:
  "\<exists>zn. recvBody ref_zap (nNode ex_net 1) 0 = Some (Inr [1, 2], zn)"
  using fifo_delivery[OF refl.zap_link_axioms ex_net_reachable, of 0 1]
  by (simp add: ex_net_def net_init_def list_link_def stream_of_incoming stream_push_def)
     (simp add: stream_of_def getOrCreateStream_def newZapNode_def newPeerStream_def Let_def)

definition ex_vec :: vec where
  "ex_vec = [[[7, 265]]]"

definition ex_comm :: "zapNode \<Rightarrow> P2PComm" where
  "ex_comm zn = \<lparr> cRank = 0, cSocks = [], cNode = Some zn \<rparr>"

theorem vector_delivered_witness:
  "\<exists>comm''. RecvVector ref_reader ref_zap None ((ex_comm newZapNode) \<lparr> cNode := Some (handleIncoming newZapNode (peerID 0) (206 # vec_bytes ex_vec)) \<rparr>) 0 1 =
    Some (Inr ex_vec, None, comm'')"
proof -
  have h: "vector_honest (map poly_shape_of ex_vec)"
    by (simp add: ex_vec_def vector_honest_def poly_honest_def poly_shape_def poly_shape_of_def MaxLatticeUintSliceLen_def)
  have l: "length (vec_bytes ex_vec) \<le> 16777216"
    by (simp add: ex_vec_def vec_bytes_alt poly_bytes_def poly_frame_def)
  have "SendVector ref_codec ref_zap (\<lambda>_ _. Inr ()) None (ex_comm (registerPeer newZapNode 1)) 1 ex_vec = Inr (Shipped (peerID 1) (206 # vec_bytes ex_vec))"
    by (simp add: SendVector_def ref_codec_def deliver_def ex_comm_def zn_send_def registerPeer_def newZapNode_def ref_zap_def)
  from vector_delivered[OF refz.zap_frames_axioms refc.lattice_codec_axioms reads_vectors_ref h l this,
      of "ex_comm newZapNode" newZapNode 0 None]
  show ?thesis
    by (simp add: ex_comm_def hasLegacySock_def stream_of_def getOrCreateStream_def newZapNode_def newPeerStream_def Let_def ref_zap_def)
       (simp add: ex_vec_def)
qed

theorem malformed_bodies_witness:
  "\<exists>comm'. RecvBytesSlice ref_zap None (ex_comm (handleIncoming newZapNode (peerID 0) [206, 1])) 0 = Some (Inl Panic, None, comm')"
proof -
  let ?zn = "handleIncoming newZapNode (peerID 0) [206, 1]"
  have q: "stQueue (stream_of ?zn 0) = [206, 1] # []"
    by (simp add: stream_of_incoming stream_push_def) (simp add: stream_of_def getOrCreateStream_def newZapNode_def newPeerStream_def Let_def)
  have "length (encodeBytesSlice d) \<ge> 4" for d by (simp add: encodeBytesSlice_def counted_def)
  then have "length [1 :: u8] \<noteq> length (encodeBytesSlice d @ t)" for d t
    using le_trans[of 4 "length (encodeBytesSlice d)" "length (encodeBytesSlice d @ t)"] by fastforce
  then have n: "\<forall>d t. [1 :: u8] \<noteq> encodeBytesSlice d @ t" by metis
  have "frame_body ref_zap [206, 1] = Inr [1]" by (simp add: frame_body_def ref_zap_def)
  from malformed_bodies[OF _ _ q this, of None "ex_comm ?zn" ref_reader 1] n
  show ?thesis by (simp add: ex_comm_def streaming_def)
qed

theorem establish_connections_witness:
  "\<exists>zn'. EstablishConnectionsZAP (\<lambda>addr k. if k < 2 then Inl ErrEOF else Inr ()) 1 3 [(0, ''host:1'')] rev (ex_comm newZapNode) =
      ((ex_comm newZapNode) \<lparr> cNode := Some zn' \<rparr>, Inr ()) \<and> map_of (znPeers zn') 2 = Some (peerID 2) \<and> map_of (znPeers zn') 0 = Some (peerID 0)"
proof -
  let ?dial = "\<lambda>(addr :: string) (k :: nat). if k < 2 then Inl ErrEOF else Inr () :: unit res"
  have r: "reaches ?dial 1 [(0, ''host:1'')] r" if "0 \<le> r" "r < 3" "r \<noteq> 1" for r
  proof -
    have "r = 0 \<or> 1 < r" using that by auto
    moreover have "\<exists>k<10. ?dial a k = Inr ()" for a by (intro exI[of _ 2]) simp
    ultimately show ?thesis by (auto simp: reaches_def)
  qed
  from establish_connections[where order = rev and me = 1 and parties = 3 and comm = "ex_comm newZapNode" and zn = newZapNode
      and dial = ?dial and addrs = "[(0, ''host:1'')]"] r
  show ?thesis by (auto simp: ex_comm_def)
qed

end
