(* ===== verification/Dkg.thy ===== *)
theory Dkg
  imports Commit Keyera_Lifecycle
begin

text \<open>
  \<^verbatim>\<open>dkg/dkg.go\<close>: distributed key generation with Feldman commitments. A session deals a random
  polynomial, commits to its coefficients under the shared matrix, checks what it is dealt and adds
  the shares up.
\<close>

section \<open>Sessions\<close>

record dkg_Params =
  dpR :: ring_ops
  dpRXi :: ring_ops

definition dkg_NewParams :: "ring_maker \<Rightarrow> dkg_Params res" where
  "dkg_NewParams newRing =
     (case newRing (2 ^ LogN) corona_q of (r, ok) \<Rightarrow>
        if \<not> ok then Inl (ErrMsg ''ring.NewRing'')
        else Inr \<lparr> dpR = r, dpRXi = fst (newRing (2 ^ LogN) QXi) \<rparr>)"

definition dkg_ErrShareVerification :: goerr where "dkg_ErrShareVerification = ErrMsg ''dkg: share verification failed''"
definition dkg_ErrMissingData :: goerr where "dkg_ErrMissingData = ErrMsg ''dkg: missing share or commitment data''"

record Round1Output =
  roCommits :: "vec list"
  roShares :: "(int, vec) gomap"

record DKGSession =
  dsParams :: dkg_Params
  dsPartyID :: int
  dsN :: int
  dsT :: int
  dsA :: matrix
  dsCoeffs :: "vec list"

text \<open>The package variables \<^verbatim>\<open>sign.K\<close> and \<^verbatim>\<open>sign.Threshold\<close> are the first component of the result.\<close>

definition NewDKGSession :: "'s env \<Rightarrow> dkg_Params \<Rightarrow> int \<times> int \<Rightarrow> int \<Rightarrow> int \<Rightarrow> int \<Rightarrow> (int \<times> int) \<times> DKGSession res" where
  "NewDKGSession en params globals partyID n t =
     (if n < 2 then (globals, Inl ErrInvalidPartyCount)
      else if t < 1 \<or> t \<ge> n then (globals, Inl ErrInvalidThreshold)
      else if partyID < 0 \<or> partyID \<ge> n then (globals, Inl ErrInvalidPartyID)
      else
        let sm = envSampling en;
            seedKey = replicate KeySize 0;
            us = NewUniformSampler sm (dpR params) (NewKeyedPRNG sm seedKey);
            A = fst (SamplePolyMatrix (dpR params) dimM dimN (uniformRead sm) True True us)
        in ((n, t), Inr \<lparr> dsParams = params, dsPartyID = partyID, dsN = n, dsT = t, dsA = A, dsCoeffs = [] \<rparr>))"

section \<open>Arithmetic on coefficients\<close>

definition polyMulScalar :: "ring_ops \<Rightarrow> poly \<Rightarrow> int \<Rightarrow> int \<Rightarrow> poly res" where
  "polyMulScalar r p s q =
     (if rN r = 0 then Inr p
      else if p = [] then Inl Panic
      else if hd p = [] then Inr p
      else if length (hd p) < rN r then Inl Panic
      else Inr (set_level0 p (map (\<lambda>i. word_of_int ((uint (hd p ! i) * s) mod q)) [0..<rN r])))"

text \<open>A nil slice is an empty one.\<close>

definition polyAddCoeffwise :: "ring_ops \<Rightarrow> poly \<Rightarrow> poly \<Rightarrow> int \<Rightarrow> poly res" where
  "polyAddCoeffwise r a b q =
     (if a = [] \<or> b = [] then Inl Panic
      else let a' = (if hd a = [] then replicate (rN r) 0 # tl a else a) in
        if hd b = [] then Inr a'
        else if length (hd a') < rN r \<or> length (hd b) < rN r then Inl Panic
        else Inr (set_level0 a' (map (\<lambda>i. word_of_int ((uint (hd a' ! i) + uint (hd b ! i)) mod q)) [0..<rN r])))"

definition polyMulScalarNTT :: "ring_ops \<Rightarrow> poly \<Rightarrow> int \<Rightarrow> int \<Rightarrow> poly res" where
  "polyMulScalarNTT r p s q =
     (if \<exists>lv \<in> set p. length lv < rN r then Inl Panic
      else Inr (map (\<lambda>lv. map (\<lambda>c. word_of_int ((uint c * s) mod q)) (take (rN r) lv) @ drop (rN r) lv) p))"

text \<open>\<^verbatim>\<open>dst[idx] += src[idx]\<close> for the \<open>N\<close> entries of a share.\<close>

definition add_share :: "ring_ops \<Rightarrow> vec \<Rightarrow> vec \<Rightarrow> vec res" where
  "add_share r dst src =
     (if length dst < dimN \<or> length src < dimN then Inl Panic
      else mapM (\<lambda>idx. polyAddCoeffwise r (dst ! idx) (src ! idx) corona_q) [0..<dimN])"

text \<open>The re-export for reconstruction.\<close>

definition dkg_ComputeLagrangeCoefficients ::
  "(u64 \<Rightarrow> bool) \<Rightarrow> (u64 list \<Rightarrow> u64 \<Rightarrow> u64 list res) \<Rightarrow> ring_ops \<Rightarrow> int list \<Rightarrow> int \<Rightarrow> vec res" where
  "dkg_ComputeLagrangeCoefficients isPrime lagr r T modulus = ComputeLagrangeCoefficients isPrime lagr r T modulus"

section \<open>Round 1\<close>

fun sample_coeffs :: "ring_ops \<Rightarrow> 's sampling \<Rightarrow> nat \<Rightarrow> 's \<Rightarrow> vec list" where
  "sample_coeffs r sm 0 gs = []"
| "sample_coeffs r sm (Suc k) gs = (case SamplePolyVector r dimN (gaussRead sm) False False gs of (c, gs') \<Rightarrow> c # sample_coeffs r sm k gs')"

definition feldman_commit :: "ring_ops \<Rightarrow> matrix \<Rightarrow> vec \<Rightarrow> vec res" where
  "feldman_commit r A coeff = rbind (ntt_copy r coeff) (\<lambda>coeffNTT. MatrixVectorMul r A coeffNTT (InitializeVector r dimM))"

text \<open>Horner's loop from the highest coefficient; its first turn does not multiply.\<close>

definition share_step :: "ring_ops \<Rightarrow> int \<Rightarrow> vec \<Rightarrow> vec \<Rightarrow> vec res" where
  "share_step r x share c =
     rbind (mapM (\<lambda>idx. polyMulScalar r (share ! idx) x corona_q) [0..<dimN]) (\<lambda>scaled. add_share r scaled c)"

definition share_at :: "ring_ops \<Rightarrow> vec list \<Rightarrow> int \<Rightarrow> vec res" where
  "share_at r coeffs x =
     (case rev coeffs of
        [] \<Rightarrow> Inr (InitializeVector r dimN)
      | c # cs \<Rightarrow> rbind (add_share r (InitializeVector r dimN) c) (\<lambda>share. foldM (share_step r x) share cs))"

definition Round1WithSeed :: "'s env \<Rightarrow> DKGSession \<Rightarrow> bytes \<Rightarrow> DKGSession \<times> Round1Output res" where
  "Round1WithSeed en d seed =
     (if length seed \<noteq> KeySize then (d, Inl (ErrMsg ''dkg: Round1WithSeed: seed length''))
      else
        let r = dpR (dsParams d); sm = envSampling en;
            coeffs = sample_coeffs r sm (nat (dsT d)) (NewGaussianSampler sm r GaussE (NewKeyedPRNG sm seed));
            d' = d \<lparr> dsCoeffs := coeffs \<rparr>
        in (d', rbind (mapM (feldman_commit r (dsA d)) coeffs) (\<lambda>commits.
                rbind (mapM (\<lambda>j. map_sum id (Pair (int j)) (share_at r coeffs (int j + 1))) [0..<nat (dsN d)]) (\<lambda>shares.
                Inr \<lparr> roCommits = commits, roShares = shares \<rparr>))))"

text \<open>\<^verbatim>\<open>Round1\<close> draws the seed from the operating system's generator, here a list of bytes.\<close>

definition dkg_Round1 :: "'s env \<Rightarrow> bytes \<Rightarrow> DKGSession \<Rightarrow> DKGSession \<times> Round1Output res" where
  "dkg_Round1 en rand_Reader d = (case ReadFull rand_Reader KeySize of
      Inl e \<Rightarrow> (d, Inl e) | Inr (randKey, _) \<Rightarrow> Round1WithSeed en d randKey)"

section \<open>Round 2\<close>

definition check_present :: "DKGSession \<Rightarrow> (int, vec) gomap \<Rightarrow> (int, vec list) gomap \<Rightarrow> unit res" where
  "check_present d receivedShares receivedCommits =
     (if \<exists>i \<in> set [0..<nat (dsN d)]. map_of receivedShares (int i) = None \<or> map_of receivedCommits (int i) = None
      then Inl dkg_ErrMissingData else Inr ())"

text \<open>The check of one dealer: the image of the share against the commitments at the own point.\<close>

definition commits_eval_step :: "ring_ops \<Rightarrow> int \<Rightarrow> vec \<Rightarrow> vec \<Rightarrow> vec res" where
  "commits_eval_step r x rhs c =
     rbind (mapM (\<lambda>p. polyMulScalarNTT r p x corona_q) rhs) (\<lambda>rhs'. VectorAdd r rhs' c rhs')"

definition commits_eval :: "ring_ops \<Rightarrow> int \<Rightarrow> vec list \<Rightarrow> vec res" where
  "commits_eval r x commits =
     (case rev commits of
        [] \<Rightarrow> Inr (InitializeVector r dimM)
      | c # cs \<Rightarrow> rbind (VectorAdd r (InitializeVector r dimM) c (InitializeVector r dimM)) (\<lambda>rhs.
          foldM (commits_eval_step r x) rhs cs))"

definition verify_dealer :: "DKGSession \<Rightarrow> vec \<Rightarrow> vec list \<Rightarrow> unit res" where
  "verify_dealer d share commits =
     (let r = dpR (dsParams d) in
      if int (length commits) \<noteq> dsT d then Inl dkg_ErrShareVerification
      else rbind (ntt_copy r share) (\<lambda>shareNTT.
        rbind (MatrixVectorMul r (dsA d) shareNTT (InitializeVector r dimM)) (\<lambda>lhs.
        rbind (commits_eval r (dsPartyID d + 1) commits) (\<lambda>rhs.
        if \<exists>idx \<in> set [0..<dimM]. \<not> rEqual r (lhs ! idx) (rhs ! idx) then Inl dkg_ErrShareVerification else Inr ()))))"

definition received :: "(int, 'a list) gomap \<Rightarrow> nat \<Rightarrow> 'a list" where
  "received m i = (case map_of m (int i) of None \<Rightarrow> [] | Some v \<Rightarrow> v)"

text \<open>The sum of the first commitments.\<close>

definition sum_commits :: "DKGSession \<Rightarrow> (int, vec list) gomap \<Rightarrow> vec res" where
  "sum_commits d receivedCommits =
     (let r = dpR (dsParams d) in
      foldM (\<lambda>pubKeyNTT i. rbind (idx (received receivedCommits i) 0) (\<lambda>c. VectorAdd r pubKeyNTT c pubKeyNTT))
        (InitializeVector r dimM) [0..<nat (dsN d)])"

definition dkg_Round2 :: "DKGSession \<Rightarrow> (int, vec) gomap \<Rightarrow> (int, vec list) gomap \<Rightarrow> (vec \<times> vec) res" where
  "dkg_Round2 d receivedShares receivedCommits =
     (let r = dpR (dsParams d) in
      rbind (check_present d receivedShares receivedCommits) (\<lambda>_.
      rbind (foldM (\<lambda>_ i. verify_dealer d (received receivedShares i) (received receivedCommits i)) () [0..<nat (dsN d)]) (\<lambda>_.
      rbind (foldM (\<lambda>secretShare i. add_share r secretShare (received receivedShares i)) (InitializeVector r dimN) [0..<nat (dsN d)]) (\<lambda>secretShare.
      rbind (sum_commits d receivedCommits) (\<lambda>pubKeyNTT.
      rbind (RoundVector (dpRXi (dsParams d)) (ConvertVectorFromNTT r pubKeyNTT) Xi) (\<lambda>bTilde.
      Inr (secretShare, bTilde)))))))"

section \<open>Honest dealers and their committee\<close>

text \<open>What an honest dealer hands out.\<close>

definition honest_output :: "ring_ops \<Rightarrow> matrix \<Rightarrow> nat \<Rightarrow> vec list \<Rightarrow> Round1Output \<Rightarrow> bool" where
  "honest_output rg A n cs out \<longleftrightarrow> mapM (feldman_commit rg A) cs = Inr (roCommits out) \<and>
     roShares out = map (\<lambda>j. (int j, vec_pval rg cs (int j + 1))) [0..<n]"

text \<open>The vector of the dealt secrets and the aggregated share.\<close>

definition sum_vec :: "ring_ops \<Rightarrow> (nat \<Rightarrow> vec) \<Rightarrow> nat \<Rightarrow> vec" where
  "sum_vec rg f n = map (\<lambda>p. pbuild (rModulus rg) (rN rg) (\<lambda>k. \<Sum>i<n. pcoef (f i ! p) k)) [0..<dimN]"

text \<open>A committee in which every member opened its session and dealt.\<close>

definition dkg_committee :: "'s env \<Rightarrow> dkg_Params \<Rightarrow> nat \<Rightarrow> int \<Rightarrow> (nat \<Rightarrow> bytes) \<Rightarrow> (nat \<Rightarrow> DKGSession) \<Rightarrow> (nat \<Rightarrow> Round1Output) \<Rightarrow> bool" where
  "dkg_committee en params n t seeds D out \<longleftrightarrow>
     (\<forall>i < n. \<exists>d g g'. NewDKGSession en params g (int i) (int n) t = (g', Inr d) \<and> Round1WithSeed en d (seeds i) = (D i, Inr (out i)))"

lemma pval_sum_columns: "(\<And>i. i < n \<Longrightarrow> length (c i) = m) \<Longrightarrow> pval (map (\<lambda>a. \<Sum>i<(n :: nat). c i ! a) [0..<m]) x = (\<Sum>i<n. pval (c i) x)"
proof (induction m arbitrary: c)
  case (Suc m)
  have up: "map f [0..<Suc m] = f 0 # map (\<lambda>a. f (Suc a)) [0..<m]" for f :: "nat \<Rightarrow> int"
    by (simp add: upt_conv_Cons map_Suc_upt[symmetric] comp_def del: upt_Suc)
  have c: "c i = (c i ! 0) # tl (c i)" if "i < n" for i using Suc.prems[OF that] by (cases "c i") auto
  have tl: "map (\<lambda>a. \<Sum>i<n. c i ! Suc a) [0..<m] = map (\<lambda>a. \<Sum>i<n. tl (c i) ! a) [0..<m]"
    using Suc.prems by (intro map_cong sum.cong refl) (simp add: nth_tl)
  have "pval (map (\<lambda>a. \<Sum>i<n. tl (c i) ! a) [0..<m]) x = (\<Sum>i<n. pval (tl (c i)) x)"
    by (rule Suc.IH) (use Suc.prems in simp)
  moreover have "(\<Sum>i<n. pval (c i) x) = (\<Sum>i<n. c i ! 0 + x * pval (tl (c i)) x)"
    by (intro sum.cong refl) (metis c lessThan_iff pval.simps(2))
  ultimately show ?case unfolding up tl pval.simps by (simp add: sum.distrib sum_distrib_left)
qed simp

section \<open>Arithmetic on valid vectors\<close>

context lattice_ring
begin

lemma polyAddCoeffwise_ok:
  assumes "valid a" "valid b" "rModulus rg = corona_q"
  shows "polyAddCoeffwise rg a b corona_q = Inr (rAdd rg a b)"
proof -
  obtain la lb where l: "a = [la]" "b = [lb]" "length la = rN rg" "length lb = rN rg"
    using assms(1,2) by (cases a; cases b) (auto simp: pvalid_def)
  then have "la \<noteq> []" "lb \<noteq> []" using degree by auto
  then show ?thesis using l assms by (simp add: polyAddCoeffwise_def Let_def Add set_level0_def pbuild_def pcoef_def)
qed

lemma polyMulScalar_dkg:
  assumes "valid p" "rModulus rg = corona_q"
  shows "polyMulScalar rg p x corona_q = Inr (pbuild (rModulus rg) (rN rg) (\<lambda>k. pcoef p k * x))"
proof -
  obtain lv where l: "p = [lv]" "length lv = rN rg" using assms(1) by (cases p) (auto simp: pvalid_def)
  then have "lv \<noteq> []" using degree by auto
  then show ?thesis using l assms degree by (simp add: polyMulScalar_def set_level0_def pbuild_def pcoef_def)
qed

lemma add_share_ok:
  assumes q: "rModulus rg = corona_q" and a: "vec_ok rg dimN a" and b: "vec_ok rg dimN b"
  shows "add_share rg a b = VectorAdd rg a b a"
proof -
  have len: "length a = dimN" "length b = dimN" using a b by (simp_all add: vec_ok_def)
  have "mapM (\<lambda>idx. polyAddCoeffwise rg (a ! idx) (b ! idx) corona_q) [0..<dimN] = Inr (map (\<lambda>idx. rAdd rg (a ! idx) (b ! idx)) [0..<dimN])"
    by (rule mapM_all_Inr) (use vec_ok_nth[OF a] vec_ok_nth[OF b] q in \<open>auto intro: polyAddCoeffwise_ok\<close>)
  also have "map (\<lambda>idx. rAdd rg (a ! idx) (b ! idx)) [0..<dimN] = map2 (rAdd rg) a b" by (rule nth_equalityI) (simp_all add: len)
  finally show ?thesis using VectorAdd_ok(1)[OF a b len(1)] len by (simp add: add_share_def)
qed

lemma foldM_add_share:
  assumes q: "rModulus rg = corona_q" and "vec_ok rg dimN acc" "\<forall>x \<in> set xs. vec_ok rg dimN (f x)"
  shows "foldM (\<lambda>a x. add_share rg a (f x)) acc xs = foldM (\<lambda>a x. VectorAdd rg a (f x) a) acc xs"
  using assms(2,3)
proof (induction xs arbitrary: acc)
  case (Cons x xs)
  have fx: "vec_ok rg dimN (f x)" and len: "length acc = dimN" using Cons.prems by (simp_all add: vec_ok_def)
  note add = VectorAdd_ok[OF Cons.prems(1) fx len]
  show ?case using Cons.IH[OF add(2)] Cons.prems(2) add(1) add_share_ok[OF q Cons.prems(1) fx] by simp
qed simp

lemma share_step_ok:
  assumes q: "rModulus rg = corona_q" and a: "vec_ok rg dimN acc" and c: "vec_ok rg dimN c"
  shows "\<exists>v. share_step rg x acc c = Inr v \<and> vec_ok rg dimN v \<and>
    (\<forall>p < dimN. \<forall>k < rN rg. pcoef (v ! p) k = (pcoef (c ! p) k + x * pcoef (acc ! p) k) mod rModulus rg)"
proof -
  let ?s = "map (\<lambda>p. pbuild (rModulus rg) (rN rg) (\<lambda>k. pcoef (acc ! p) k * x)) [0..<dimN]"
  have s: "vec_ok rg dimN ?s" using q_simps by (intro vec_ok_mapI) auto
  have m: "mapM (\<lambda>idx. polyMulScalar rg (acc ! idx) x corona_q) [0..<dimN] = Inr ?s"
    by (rule mapM_all_Inr, rule polyMulScalar_dkg[OF _ q]) (use vec_ok_nth[OF a] in auto)
  have len: "length ?s = dimN" by simp
  note add = VectorAdd_ok[OF s c len]
  have "pcoef (map2 (rAdd rg) ?s c ! p) k = (pcoef (c ! p) k + x * pcoef (acc ! p) k) mod rModulus rg"
    if pk: "p < dimN" "k < rN rg" for p k
    unfolding pcoef_VectorAdd[OF s c pk] using pk q_simps by (simp add: mod_add_left_eq) (simp add: algebra_simps)
  then show ?thesis unfolding share_step_def m rbind.simps add_share_ok[OF q s c] add(1) using add(2) by blast
qed

lemma share_fold_ok:
  assumes q: "rModulus rg = corona_q" and a: "vec_ok rg dimN acc" and c: "\<forall>c \<in> set cs. vec_ok rg dimN c"
  shows "\<exists>v. foldM (share_step rg x) acc cs = Inr v \<and> vec_ok rg dimN v \<and>
    (\<forall>p < dimN. \<forall>k < rN rg. pcoef (v ! p) k = pval (map (\<lambda>c. pcoef (c ! p) k) (rev cs @ [acc])) x mod rModulus rg)"
  using a c
proof (induction cs arbitrary: acc)
  case Nil
  then show ?case using pcoef_mod[OF vec_ok_nth] by auto
next
  case (Cons c cs)
  obtain v1 where v1: "share_step rg x acc c = Inr v1" "vec_ok rg dimN v1"
    "\<forall>p < dimN. \<forall>k < rN rg. pcoef (v1 ! p) k = (pcoef (c ! p) k + x * pcoef (acc ! p) k) mod rModulus rg"
    using share_step_ok[OF q Cons.prems(1), of c x] Cons.prems(2) by auto
  obtain v where v: "foldM (share_step rg x) v1 cs = Inr v" "vec_ok rg dimN v"
    "\<forall>p < dimN. \<forall>k < rN rg. pcoef (v ! p) k = pval (map (\<lambda>c. pcoef (c ! p) k) (rev cs @ [v1])) x mod rModulus rg"
    using Cons.IH[OF v1(2)] Cons.prems(2) by auto
  have "pval (map (\<lambda>c. pcoef (c ! p) k) (rev cs @ [v1])) x mod rModulus rg
      = pval (map (\<lambda>c. pcoef (c ! p) k) (rev (c # cs) @ [acc])) x mod rModulus rg" if "p < dimN" "k < rN rg" for p k
    using v1(3) that by (simp add: pval_append) (intro mod_add_cong mod_mult_cong refl, simp add: algebra_simps)
  then show ?case using v1(1) v by auto
qed

lemma vec_ok_pval: "vec_ok rg dimN (vec_pval rg cs x)"
  using q_simps by (auto simp: vec_pval_def vec_ok_def vvalid_def)

lemma share_at_ok:
  assumes q: "rModulus rg = corona_q" and c: "\<forall>c \<in> set cs. vec_ok rg dimN c" and ne: "cs \<noteq> []"
  shows "share_at rg cs x = Inr (vec_pval rg cs x)"
proof -
  obtain d ds where cs: "rev cs = d # ds" using ne by (cases "rev cs") auto
  then have cs': "cs = rev ds @ [d]" by (metis rev.simps(2) rev_rev_ident)
  have d: "vec_ok rg dimN d" and ds: "\<forall>c \<in> set ds. vec_ok rg dimN c" using c cs' by auto
  note ini = vec_ok_InitializeVector[of dimN]
  have len: "length (InitializeVector rg dimN) = dimN" by (simp add: InitializeVector_def)
  note add = VectorAdd_ok[OF ini d len]
  have "map2 (rAdd rg) (InitializeVector rg dimN) d = d"
    using pcoef_VectorAdd[OF ini d] pcoef_mod[OF vec_ok_nth[OF d]] by (intro vec_ok_eqI[OF add(2) d]) simp
  then have e: "share_at rg cs x = foldM (share_step rg x) d ds"
    unfolding share_at_def cs using add(1) add_share_ok[OF q ini d] by simp
  obtain v where v: "foldM (share_step rg x) d ds = Inr v" "vec_ok rg dimN v"
    "\<forall>p < dimN. \<forall>k < rN rg. pcoef (v ! p) k = pval (map (\<lambda>c. pcoef (c ! p) k) cs) x mod rModulus rg"
    using share_fold_ok[OF q d ds, of x] cs' by auto
  have "v = vec_pval rg cs x"
    by (rule vec_ok_eqI[OF v(2) vec_ok_pval]) (use v(3) q_simps in \<open>simp add: vec_pval_def\<close>)
  then show ?thesis using e v(1) by simp
qed

section \<open>Commitments and the check of a share\<close>

lemma feldman_ok:
  assumes "mat_ok rg dimM dimN A" "vec_ok rg dimN v"
  shows "\<exists>C. feldman_commit rg A v = Inr C \<and> vec_ok rg dimM C \<and>
    (\<forall>i < dimM. \<forall>k < rN rg. pcoef (C ! i) k = slot A v i k mod rModulus rg)"
  using matvec_slot[OF assms] unfolding feldman_commit_def by auto

lemma commits_eval_eq: "commits_eval r x cs = commits_at r x cs"
proof -
  have "polyMulScalarNTT = polyMulScalarNTTOnly" by (intro ext) (simp add: polyMulScalarNTT_def polyMulScalarNTTOnly_def)
  then have step: "commits_eval_step r x = commits_step r x" by (intro ext) (simp add: commits_eval_step_def commits_step_def)
  show ?thesis unfolding commits_eval_def commits_at_def step ..
qed

lemma commits_eval_image:
  assumes q: "rModulus rg = corona_q" and A: "mat_ok rg dimM dimN A"
    and c: "\<forall>c \<in> set cs. vec_ok rg dimN c" and ne: "cs \<noteq> []" and run: "mapM (feldman_commit rg A) cs = Inr commits"
  shows "commits_eval rg x commits = feldman_commit rg A (vec_pval rg cs x)"
proof -
  have len: "length commits = length cs" using run by (rule mapM_length)
  have one: "vec_ok rg dimM (commits ! j) \<and> (\<forall>i < dimM. \<forall>k < rN rg. pcoef (commits ! j ! i) k = slot A (cs ! j) i k mod rModulus rg)"
    if "j < length cs" for j
    using feldman_ok[OF A, of "cs ! j"] c run that nth_mem[OF that] unfolding mapM_Inr_iff by fastforce
  then have comm: "\<forall>C \<in> set commits. vec_ok rg dimM C" "commits \<noteq> []" using len ne by (auto simp: in_set_conv_nth)
  obtain rhs where rhs: "commits_at rg x commits = Inr rhs" "vec_ok rg dimM rhs"
    "\<forall>i < dimM. \<forall>k < rN rg. pcoef (rhs ! i) k = pval (map (\<lambda>C. pcoef (C ! i) k) commits) x mod rModulus rg"
    using commits_at_ok[OF q comm] by blast
  obtain E where E: "feldman_commit rg A (vec_pval rg cs x) = Inr E" "vec_ok rg dimM E"
    "\<forall>i < dimM. \<forall>k < rN rg. pcoef (E ! i) k = slot A (vec_pval rg cs x) i k mod rModulus rg"
    using feldman_ok[OF A vec_ok_pval] by blast
  have "rhs = E"
  proof (rule vec_ok_eqI[OF rhs(2) E(2)])
    fix i k assume ik: "i < dimM" "k < rN rg"
    have "map (\<lambda>C. pcoef (C ! i) k) commits = map (\<lambda>c. slot A c i k mod rModulus rg) cs"
      by (rule nth_equalityI) (use len one ik in auto)
    then have "pcoef (rhs ! i) k = pval (map (\<lambda>c. slot A c i k mod rModulus rg) cs) x mod rModulus rg" using rhs(3) ik by simp
    also have "\<dots> = pval (map (\<lambda>c. slot A c i k) cs) x mod rModulus rg" by (rule pval_cong_mod) simp
    also have "\<dots> = pcoef (E ! i) k" using slot_pval[OF c ik(2), of A x i] E(3) ik by simp
    finally show "pcoef (rhs ! i) k = pcoef (E ! i) k" .
  qed
  then show ?thesis using rhs(1) E(1) by (simp add: commits_eval_eq)
qed

lemma verify_dealer_iff:
  assumes d: "dpR (dsParams d) = rg" and q: "rModulus rg = corona_q" and A: "mat_ok rg dimM dimN (dsA d)"
    and c: "\<forall>c \<in> set cs. vec_ok rg dimN c" "cs \<noteq> []" "int (length cs) = dsT d"
    and run: "mapM (feldman_commit rg (dsA d)) cs = Inr commits" and sh: "vec_ok rg dimN share"
  shows "verify_dealer d share commits =
    (if feldman_commit rg (dsA d) share = feldman_commit rg (dsA d) (vec_pval rg cs (dsPartyID d + 1)) then Inr () else Inl dkg_ErrShareVerification)"
proof -
  have len: "int (length commits) = dsT d" using mapM_length[OF run] c(3) by simp
  obtain L where L: "ntt_copy rg share = Inr (map (rNTT rg) share)" "MatrixVectorMul rg (dsA d) (map (rNTT rg) share) (InitializeVector rg dimM) = Inr L" "vec_ok rg dimM L"
    using matvec_slot[OF A sh] by blast
  then have fl: "feldman_commit rg (dsA d) share = Inr L" by (simp add: feldman_commit_def)
  obtain E where E: "feldman_commit rg (dsA d) (vec_pval rg cs (dsPartyID d + 1)) = Inr E" "vec_ok rg dimM E" using feldman_ok[OF A vec_ok_pval] by blast
  have ev: "commits_eval rg (dsPartyID d + 1) commits = Inr E" using commits_eval_image[OF q A c(1,2) run] E(1) by simp
  have "(\<exists>i \<in> set [0..<dimM]. \<not> rEqual rg (L ! i) (E ! i)) \<longleftrightarrow> L \<noteq> E"
    using Equal vec_ok_nth[OF L(3)] vec_ok_nth[OF E(2)] L(3) E(2) by (auto simp: vec_ok_def intro: nth_equalityI)
  then show ?thesis unfolding verify_dealer_def Let_def d len fl E(1) using L ev by simp
qed

section \<open>The rounds\<close>

lemma sample_coeffs_ok:
  assumes "sampling_ok sm rg"
  shows "length (sample_coeffs rg sm t gs) = t \<and> (\<forall>c \<in> set (sample_coeffs rg sm t gs). vec_ok rg dimN c)"
proof (induction t arbitrary: gs)
  case (Suc t)
  have "vec_ok rg dimN (fst (SamplePolyVector rg dimN (gaussRead sm) False False gs))"
    by (intro SamplePolyVector_ok) (use assms in \<open>simp add: sampling_ok_def\<close>)
  then show ?case using Suc by (auto split: prod.splits)
qed simp

lemma Round1WithSeed_ok:
  assumes r: "dpR (dsParams d) = rg" and q: "rModulus rg = corona_q" and A: "mat_ok rg dimM dimN (dsA d)"
    and sm: "sampling_ok (envSampling en) rg" and "1 \<le> dsT d" "length seed = KeySize"
  shows "\<exists>cs out. Round1WithSeed en d seed = (d \<lparr> dsCoeffs := cs \<rparr>, Inr out) \<and> int (length cs) = dsT d \<and>
    (\<forall>c \<in> set cs. vec_ok rg dimN c) \<and> honest_output rg (dsA d) (nat (dsN d)) cs out"
proof -
  let ?sm = "envSampling en"
  let ?cs = "sample_coeffs rg ?sm (nat (dsT d)) (NewGaussianSampler ?sm rg GaussE (NewKeyedPRNG ?sm seed))"
  have cs: "length ?cs = nat (dsT d)" "\<forall>c \<in> set ?cs. vec_ok rg dimN c" using sample_coeffs_ok[OF sm] by blast+
  then have ne: "?cs \<noteq> []" using assms(5) by auto
  have "\<And>c. c \<in> set ?cs \<Longrightarrow> feldman_commit rg (dsA d) c = Inr (projr (feldman_commit rg (dsA d) c))"
    using feldman_ok[OF A] cs(2) by force
  then have m: "mapM (feldman_commit rg (dsA d)) ?cs = Inr (map (\<lambda>c. projr (feldman_commit rg (dsA d) c)) ?cs)" (is "_ = Inr ?C") by (rule mapM_all_Inr)
  let ?S = "map (\<lambda>j. (int j, vec_pval rg ?cs (int j + 1))) [0..<nat (dsN d)]"
  have s: "mapM (\<lambda>j. map_sum id (Pair (int j)) (share_at rg ?cs (int j + 1))) [0..<nat (dsN d)] = Inr ?S"
    by (rule mapM_all_Inr) (simp add: share_at_ok[OF q cs(2) ne])
  show ?thesis
    by (rule exI[of _ ?cs], rule exI[of _ "\<lparr> roCommits = ?C, roShares = ?S \<rparr>"])
       (use assms(5,6) cs m s r in \<open>simp add: Round1WithSeed_def Let_def honest_output_def\<close>)
qed

lemma honest_share:
  assumes "honest_output rg A n cs out" "j < n"
  shows "map_of (roShares out) (int j) = Some (vec_pval rg cs (int j + 1))"
proof -
  have "map_of (map (\<lambda>j. (int j, f j)) [0..<n]) (int j) = Some (f j)" for f :: "nat \<Rightarrow> vec"
    using assms(2) by (induction n) (auto simp: less_Suc_eq map_of_eq_None_iff map_add_Some_iff)
  then show ?thesis using assms(1) by (simp add: honest_output_def)
qed

lemma vec_ok_sum_vec: "vec_ok rg dimN (sum_vec rg f n)"
  using q_simps by (auto simp: sum_vec_def vec_ok_def vvalid_def)

lemma foldM_sum_vec:
  assumes q: "rModulus rg = corona_q" and f: "\<And>i. i < n \<Longrightarrow> vec_ok rg dimN (f i)"
  shows "foldM (\<lambda>a i. add_share rg a (f i)) (InitializeVector rg dimN) [0..<n] = Inr (sum_vec rg f n)"
proof -
  have f': "\<forall>i \<in> set [0..<n]. vec_ok rg dimN (f i)" using f by simp
  obtain v where v: "foldM (\<lambda>a i. VectorAdd rg a (f i) a) (InitializeVector rg dimN) [0..<n] = Inr v" "vec_ok rg dimN v"
    "\<forall>p < dimN. \<forall>k < rN rg. pcoef (v ! p) k = (pcoef (InitializeVector rg dimN ! p) k + (\<Sum>i\<leftarrow>[0..<n]. pcoef (f i ! p) k)) mod rModulus rg"
    using foldM_VectorAdd[OF vec_ok_InitializeVector f'] by blast
  have "v = sum_vec rg f n"
    by (rule vec_ok_eqI[OF v(2) vec_ok_sum_vec])
       (use v(3) q_simps in \<open>simp add: sum_vec_def interv_sum_list_conv_sum_set_nat lessThan_atLeast0\<close>)
  then show ?thesis unfolding foldM_add_share[OF q vec_ok_InitializeVector f'] using v(1) by simp
qed

lemma slot_sum_vec:
  assumes "\<And>i. i < n \<Longrightarrow> vec_ok rg dimN (f i)" "k < rN rg"
  shows "slot A (sum_vec rg f n) i k mod rModulus rg = (\<Sum>j<n. slot A (f j) i k) mod rModulus rg"
  using assms(1)
proof (induction n)
  case 0
  have z: "vec_ok rg dimN (sum_vec rg f 0)" by (rule vec_ok_sum_vec)
  have "sum_vec rg f 0 = vec_pval rg [] 0" by (simp add: sum_vec_def vec_pval_def)
  then show ?case using slot_pval[of "[]" k A 0 i] assms(2) by simp
next
  case (Suc n)
  let ?cs = "[sum_vec rg f n, f n]"
  have cs: "\<forall>c \<in> set ?cs. vec_ok rg dimN c" using Suc.prems vec_ok_sum_vec by simp
  have "sum_vec rg f (Suc n) = vec_pval rg ?cs 1"
    unfolding sum_vec_def[of rg f "Suc n"] vec_pval_def
  proof (rule map_cong[OF refl])
    fix p assume p: "p \<in> set [0..<dimN]"
    have "(\<Sum>i<Suc n. pcoef (f i ! p) k) mod rModulus rg = pval (map (\<lambda>c. pcoef (c ! p) k) ?cs) 1 mod rModulus rg" if "k < rN rg" for k
      using p that q_simps by (simp add: sum_vec_def mod_add_left_eq)
    then show "pbuild (rModulus rg) (rN rg) (\<lambda>k. \<Sum>i<Suc n. pcoef (f i ! p) k) = pbuild (rModulus rg) (rN rg) (\<lambda>k. pval (map (\<lambda>c. pcoef (c ! p) k) ?cs) 1)"
      by (intro pbuild_cong) blast
  qed
  then have "slot A (sum_vec rg f (Suc n)) i k mod rModulus rg = (slot A (sum_vec rg f n) i k + slot A (f n) i k) mod rModulus rg"
    using slot_pval[OF cs assms(2), of A 1 i] by simp
  also have "\<dots> = (\<Sum>j<Suc n. slot A (f j) i k) mod rModulus rg"
    unfolding sum.lessThan_Suc by (rule mod_add_cong[OF Suc.IH refl]) (use Suc.prems in simp)
  finally show ?case .
qed

lemma dkg_committee_ok:
  assumes run: "dkg_committee en params n t seeds D out" and r: "dpR params = rg" and q: "rModulus rg = corona_q"
    and sm: "sampling_ok (envSampling en) rg" and i: "i < n"
  shows "dsParams (D i) = params \<and> dsPartyID (D i) = int i \<and> dsN (D i) = int n \<and> dsT (D i) = t \<and> dsA (D i) = dsA (D 0) \<and> 1 \<le> t \<and>
    mat_ok rg dimM dimN (dsA (D i)) \<and> int (length (dsCoeffs (D i))) = t \<and>
    (\<forall>c \<in> set (dsCoeffs (D i)). vec_ok rg dimN c) \<and> honest_output rg (dsA (D i)) n (dsCoeffs (D i)) (out i)"
proof -
  let ?sm = "envSampling en"
  define A where "A = fst (SamplePolyMatrix rg dimM dimN (uniformRead ?sm) True True (NewUniformSampler ?sm rg (NewKeyedPRNG ?sm (replicate KeySize 0))))"
  have A: "mat_ok rg dimM dimN A" unfolding A_def by (intro SamplePolyMatrix_ok) (use sm in \<open>simp add: sampling_ok_def\<close>)
  have one: "dsParams (D i) = params \<and> dsPartyID (D i) = int i \<and> dsN (D i) = int n \<and> dsT (D i) = t \<and> dsA (D i) = A \<and> 1 \<le> t \<and>
      int (length (dsCoeffs (D i))) = t \<and> (\<forall>c \<in> set (dsCoeffs (D i)). vec_ok rg dimN c) \<and> honest_output rg A n (dsCoeffs (D i)) (out i)" if i': "i < n" for i
  proof -
    obtain d g g' where d: "NewDKGSession en params g (int i) (int n) t = (g', Inr d)" "Round1WithSeed en d (seeds i) = (D i, Inr (out i))"
      using run i' unfolding dkg_committee_def by blast
    then have f: "d = \<lparr> dsParams = params, dsPartyID = int i, dsN = int n, dsT = t, dsA = A, dsCoeffs = [] \<rparr>" "1 \<le> t"
      by (auto simp: NewDKGSession_def Let_def r A_def split: if_splits)
    have "length (seeds i) = KeySize" using d(2) by (auto simp: Round1WithSeed_def split: if_splits)
    then show ?thesis using Round1WithSeed_ok[of d en "seeds i", OF _ q _ sm] d(2) f A r by auto
  qed
  have "0 < n" using i by simp
  then show ?thesis using one[of 0] one[OF i] A by simp
qed

lemma dkg_checks_pass:
  assumes run: "dkg_committee en params n t seeds D out" and r: "dpR params = rg" and q: "rModulus rg = corona_q"
    and sm: "sampling_ok (envSampling en) rg" and ij: "i < n" "j < n" and sh: "vec_ok rg dimN share"
  shows "verify_dealer (D j) share (roCommits (out i)) =
    (if feldman_commit rg (dsA (D 0)) share = feldman_commit rg (dsA (D 0)) (the (map_of (roShares (out i)) (int j))) then Inr () else Inl dkg_ErrShareVerification)"
proof -
  note di = dkg_committee_ok[OF run r q sm ij(1)] and dj = dkg_committee_ok[OF run r q sm ij(2)]
  have e: "dsA (D i) = dsA (D 0)" "dsA (D j) = dsA (D 0)" and "honest_output rg (dsA (D i)) n (dsCoeffs (D i)) (out i)" using di dj by blast+
  then have h: "honest_output rg (dsA (D 0)) n (dsCoeffs (D i)) (out i)" by (simp only: e)
  then have c: "mapM (feldman_commit rg (dsA (D j))) (dsCoeffs (D i)) = Inr (roCommits (out i))" using dj by (simp add: honest_output_def)
  have d: "dpR (dsParams (D j)) = rg" "mat_ok rg dimM dimN (dsA (D j))" "\<forall>c \<in> set (dsCoeffs (D i)). vec_ok rg dimN c"
    "dsCoeffs (D i) \<noteq> []" "int (length (dsCoeffs (D i))) = dsT (D j)" using di dj r by auto
  show ?thesis
    unfolding verify_dealer_iff[OF d(1) q d(2-5) c sh] honest_share[OF h ij(2)] using dj by simp
qed

text \<open>The sum of the first commitments is the image of the sum of the secrets.\<close>

lemma sum_commits_ok:
  assumes run: "dkg_committee en params n t seeds D out" and r: "dpR params = rg" and q: "rModulus rg = corona_q"
    and sm: "sampling_ok (envSampling en) rg" and j: "j < n" and rc: "\<And>i. i < n \<Longrightarrow> map_of commits (int i) = Some (roCommits (out i))"
  shows "sum_commits (D j) commits = feldman_commit rg (dsA (D 0)) (sum_vec rg (\<lambda>i. hd (dsCoeffs (D i))) n)"
proof -
  let ?A = "dsA (D 0)" and ?s = "\<lambda>i. hd (dsCoeffs (D i))" and ?C = "\<lambda>i. hd (roCommits (out i))"
  have dj: "dsParams (D j) = params" "dsN (D j) = int n" and A: "mat_ok rg dimM dimN ?A"
    using dkg_committee_ok[OF run r q sm j] by auto
  have one: "vec_ok rg dimN (?s i) \<and> roCommits (out i) \<noteq> [] \<and> vec_ok rg dimM (?C i) \<and>
      (\<forall>a < dimM. \<forall>k < rN rg. pcoef (?C i ! a) k = slot ?A (?s i) a k mod rModulus rg)" if i: "i < n" for i
  proof -
    note di = dkg_committee_ok[OF run r q sm i]
    then have c: "dsCoeffs (D i) \<noteq> []" "mapM (feldman_commit rg ?A) (dsCoeffs (D i)) = Inr (roCommits (out i))" by (auto simp: honest_output_def)
    have ne: "roCommits (out i) \<noteq> []" using mapM_length[OF c(2)] c(1) by auto
    have "feldman_commit rg ?A (dsCoeffs (D i) ! 0) = Inr (roCommits (out i) ! 0)" using c unfolding mapM_Inr_iff by blast
    then have "feldman_commit rg ?A (?s i) = Inr (?C i)" using ne c(1) by (simp add: hd_conv_nth)
    moreover have "vec_ok rg dimN (?s i)" using di c(1) by simp
    ultimately show ?thesis using feldman_ok[OF A, of "?s i"] ne by auto
  qed
  have "foldM (\<lambda>pk i. rbind (idx (received commits i) 0) (\<lambda>c. VectorAdd rg pk c pk)) (InitializeVector rg dimM) [0..<n]
      = foldM (\<lambda>pk i. VectorAdd rg pk (?C i) pk) (InitializeVector rg dimM) [0..<n]"
    using one by (intro foldM_cong) (auto simp: received_def rc idx_def hd_conv_nth)
  moreover have ok: "\<forall>i \<in> set [0..<n]. vec_ok rg dimM (?C i)" using one by simp
  moreover obtain v where v: "foldM (\<lambda>pk i. VectorAdd rg pk (?C i) pk) (InitializeVector rg dimM) [0..<n] = Inr v" "vec_ok rg dimM v"
    "\<forall>a < dimM. \<forall>k < rN rg. pcoef (v ! a) k = (pcoef (InitializeVector rg dimM ! a) k + (\<Sum>i\<leftarrow>[0..<n]. pcoef (?C i ! a) k)) mod rModulus rg"
    using foldM_VectorAdd[OF vec_ok_InitializeVector ok] by blast
  moreover obtain E where E: "feldman_commit rg ?A (sum_vec rg ?s n) = Inr E" "vec_ok rg dimM E"
    "\<forall>i < dimM. \<forall>k < rN rg. pcoef (E ! i) k = slot ?A (sum_vec rg ?s n) i k mod rModulus rg"
    using feldman_ok[OF A vec_ok_sum_vec] by blast
  moreover have "v = E"
  proof (rule vec_ok_eqI[OF v(2) E(2)])
    fix a k assume ak: "a < dimM" "k < rN rg"
    have "pcoef (v ! a) k = (\<Sum>i<n. pcoef (?C i ! a) k) mod rModulus rg"
      using v(3) ak by (simp add: interv_sum_list_conv_sum_set_nat lessThan_atLeast0)
    also have "\<dots> = (\<Sum>i<n. slot ?A (?s i) a k) mod rModulus rg" using one ak by (intro sum_cong_mod) simp
    also have "\<dots> = pcoef (E ! a) k" using slot_sum_vec[of n ?s k ?A a] one E(3) ak by simp
    finally show "pcoef (v ! a) k = pcoef (E ! a) k" .
  qed
  ultimately show ?thesis unfolding sum_commits_def Let_def dj r by simp
qed

lemma foldM_unit:
  assumes "\<And>i. i \<in> set xs \<Longrightarrow> f i = Inr () \<or> f i = Inl e"
  shows "foldM (\<lambda>_ i. f i) () xs = (if \<forall>i \<in> set xs. f i = Inr () then Inr () else Inl e)"
  using assms
proof (induction xs)
  case (Cons x xs)
  have IH: "foldM (\<lambda>_ i. f i) () xs = (if \<forall>i \<in> set xs. f i = Inr () then Inr () else Inl e)" by (rule Cons.IH) (use Cons.prems in simp)
  consider "f x = Inr ()" | "f x = Inl e" using Cons.prems[of x] by auto
  then show ?case by cases (use IH in simp_all)
qed simp

lemma dkg_Round2_ok:
  assumes run: "dkg_committee en params n t seeds D out" and r: "dpR params = rg" and q: "rModulus rg = corona_q"
    and sm: "sampling_ok (envSampling en) rg" and xi: "coeff_ring (dpRXi params)" "rN (dpRXi params) = rN rg" and j: "j < n"
    and rs: "\<And>i. i < n \<Longrightarrow> map_of shares (int i) = Some (sh i) \<and> vec_ok rg dimN (sh i)"
    and rc: "\<And>i. i < n \<Longrightarrow> map_of commits (int i) = Some (roCommits (out i))"
  shows "\<exists>pub bTilde. feldman_commit rg (dsA (D 0)) (sum_vec rg (\<lambda>i. hd (dsCoeffs (D i))) n) = Inr pub \<and> vec_ok rg dimM pub \<and>
    RoundVector (dpRXi params) (ConvertVectorFromNTT rg pub) Xi = Inr bTilde \<and>
    dkg_Round2 (D j) shares commits =
      (if \<forall>i<n. feldman_commit rg (dsA (D 0)) (sh i) = feldman_commit rg (dsA (D 0)) (the (map_of (roShares (out i)) (int j)))
       then Inr (sum_vec rg sh n, bTilde) else Inl dkg_ErrShareVerification)"
proof -
  let ?A = "dsA (D 0)"
  let ?good = "\<lambda>i. feldman_commit rg ?A (sh i) = feldman_commit rg ?A (the (map_of (roShares (out i)) (int j)))"
  have dj: "dsParams (D j) = params" "dsN (D j) = int n" and A: "mat_ok rg dimM dimN ?A"
    using dkg_committee_ok[OF run r q sm j] by auto
  have rec: "received shares i = sh i" "received commits i = roCommits (out i)" if "i < n" for i
    using rs[OF that] rc[OF that] by (simp_all add: received_def)
  have v: "verify_dealer (D j) (received shares i) (received commits i) = (if ?good i then Inr () else Inl dkg_ErrShareVerification)" if "i < n" for i
    using dkg_checks_pass[OF run r q sm that j] rs[OF that] unfolding rec[OF that] by blast
  have f: "foldM (\<lambda>_ i. verify_dealer (D j) (received shares i) (received commits i)) () [0..<n]
      = (if \<forall>i \<in> set [0..<n]. verify_dealer (D j) (received shares i) (received commits i) = Inr () then Inr () else Inl dkg_ErrShareVerification)"
    by (rule foldM_unit) (use v in simp)
  have all: "(\<forall>i \<in> set [0..<n]. verify_dealer (D j) (received shares i) (received commits i) = Inr ()) \<longleftrightarrow> (\<forall>i<n. ?good i)"
    using v by auto
  have p: "check_present (D j) shares commits = Inr ()" using rs rc by (auto simp: check_present_def dj)
  have "foldM (\<lambda>a i. add_share rg a (received shares i)) (InitializeVector rg dimN) [0..<n] = foldM (\<lambda>a i. add_share rg a (sh i)) (InitializeVector rg dimN) [0..<n]"
    using rec by (intro foldM_cong) simp
  then have s: "foldM (\<lambda>a i. add_share rg a (received shares i)) (InitializeVector rg dimN) [0..<n] = Inr (sum_vec rg sh n)"
    using foldM_sum_vec[OF q, of n sh] rs by simp
  obtain pub where pub: "feldman_commit rg ?A (sum_vec rg (\<lambda>i. hd (dsCoeffs (D i))) n) = Inr pub" "vec_ok rg dimM pub"
    using feldman_ok[OF A vec_ok_sum_vec] by blast
  have sc: "sum_commits (D j) commits = Inr pub" using sum_commits_ok[OF run r q sm j rc] pub(1) by simp
  have "shape_ok (rN (dpRXi params)) (ConvertVectorFromNTT rg pub)" unfolding xi(2) by (rule vec_ok_shape[OF ConvertVectorFromNTT_ok[OF pub(2)]])
  then obtain bTilde where b: "RoundVector (dpRXi params) (ConvertVectorFromNTT rg pub) Xi = Inr bTilde" using RoundVector_ok[OF xi(1)] by blast
  have "dkg_Round2 (D j) shares commits = (if \<forall>i<n. ?good i then Inr (sum_vec rg sh n, bTilde) else Inl dkg_ErrShareVerification)"
    unfolding dkg_Round2_def Let_def dj r p f[unfolded all] nat_int rbind.simps using s sc b by simp
  then show ?thesis using pub b by blast
qed

text \<open>In Montgomery form, as key generation elsewhere stores its secret, the image is multiplied by \<open>R\<close>.\<close>

lemma feldman_MForm:
  assumes A: "mat_ok rg dimM dimN A" and v: "vec_ok rg dimN v" and C: "feldman_commit rg A v = Inr C"
  shows "MatrixVectorMul rg A (ConvertVectorToNTT rg v) (InitializeVector rg dimM) = Inr (map (rMForm rg) C)"
proof -
  have cv: "vec_ok rg dimM C" "\<forall>i < dimM. \<forall>k < rN rg. pcoef (C ! i) k = slot A v i k mod rModulus rg" using feldman_ok[OF A v] C by auto
  have w: "vec_ok rg dimN (ConvertVectorToNTT rg v)" by (rule ConvertVectorToNTT_ok[OF v])
  note mv = MatrixVectorMul_ok[OF A w vec_ok_InitializeVector[of dimM]]
  have "map2 (\<lambda>row acc. row_mul rg row (ConvertVectorToNTT rg v) acc) A (InitializeVector rg dimM) = map (rMForm rg) C"
  proof (rule vec_ok_eqI[OF mv(2)])
    show "vec_ok rg dimM (map (rMForm rg) C)" using cv(1) by (auto simp: vec_ok_def vvalid_def intro: valid_MForm)
    fix i k assume ik: "i < dimM" "k < rN rg"
    have row: "vec_ok rg dimN (A ! i)" using mat_ok_nth[OF A ik(1)] .
    have nv: "pcoef (rMForm rg (rNTT rg (v ! j))) k = pcoef (rNTT rg (v ! j)) k * 2 ^ 64 mod rModulus rg" if "j < dimN" for j
      using MForm[OF valid_NTT[OF vec_ok_nth[OF v that]]] ik q_simps by simp
    have "pcoef (row_mul rg (A ! i) (ConvertVectorToNTT rg v) (rNewPoly rg)) k
        = (\<Sum>j<dimN. pcoef (A ! i ! j) k * pcoef (rMForm rg (rNTT rg (v ! j))) k) * Rinv mod rModulus rg"
      using row w ik q_simps v
      by (simp add: row_mul_spec vec_ok_def valid_NewPoly ConvertVectorToNTT_def sum_list_zip_map[of "A ! i" dimN v])
    also have "\<dots> = (\<Sum>j<dimN. pcoef (A ! i ! j) k * (pcoef (rNTT rg (v ! j)) k * 2 ^ 64)) * Rinv mod rModulus rg"
      by (intro mod_mult_cong sum_cong_mod refl) (simp add: nv mod_mult_right_eq)
    also have "(\<Sum>j<dimN. pcoef (A ! i ! j) k * (pcoef (rNTT rg (v ! j)) k * 2 ^ 64)) * Rinv = slot A v i k * 2 ^ 64"
      unfolding slot_def sum_distrib_right by (intro sum.cong refl) (simp only: ac_simps)
    also have "\<dots> mod rModulus rg = pcoef (rMForm rg (C ! i)) k"
      using cv ik MForm[OF vec_ok_nth[OF cv(1) ik(1)]] q_simps by (simp add: mod_mult_left_eq)
    finally show "pcoef (map2 (\<lambda>row acc. row_mul rg row (ConvertVectorToNTT rg v) acc) A (InitializeVector rg dimM) ! i) k = pcoef (map (rMForm rg) C ! i) k"
      using A ik cv(1) by (simp add: mat_ok_def InitializeVector_def vec_ok_def)
  qed
  then show ?thesis using mv(1) by simp
qed

end

section \<open>Properties\<close>

lemma dkg_committee_exists:
  assumes "lattice_ring (dpR params)" "rModulus (dpR params) = corona_q" "sampling_ok (envSampling en) (dpR params)"
    and "2 \<le> n" "1 \<le> t" "t < int n" "\<And>i. i < n \<Longrightarrow> length (seeds i) = KeySize"
  shows "\<exists>D out. dkg_committee en params n t seeds D out"
proof -
  let ?sm = "envSampling en"
  let ?A = "fst (SamplePolyMatrix (dpR params) dimM dimN (uniformRead ?sm) True True (NewUniformSampler ?sm (dpR params) (NewKeyedPRNG ?sm (replicate KeySize 0))))"
  let ?d = "\<lambda>i. \<lparr> dsParams = params, dsPartyID = int i, dsN = int n, dsT = t, dsA = ?A, dsCoeffs = [] \<rparr>"
  have A: "mat_ok (dpR params) dimM dimN ?A" by (intro lattice_ring.SamplePolyMatrix_ok[OF assms(1)]) (use assms(3) in \<open>simp add: sampling_ok_def\<close>)
  have "\<exists>y. i < n \<longrightarrow> (\<exists>d g g'. NewDKGSession en params g (int i) (int n) t = (g', Inr d) \<and> Round1WithSeed en d (seeds i) = (fst y, Inr (snd y)))" for i
  proof (cases "i < n")
    case True
    have n: "NewDKGSession en params (0, 0) (int i) (int n) t = ((int n, t), Inr (?d i))"
      using assms(4-6) True by (simp add: NewDKGSession_def Let_def)
    obtain d' o' where "Round1WithSeed en (?d i) (seeds i) = (d', Inr o')"
      using lattice_ring.Round1WithSeed_ok[OF assms(1) _ assms(2), of "?d i" en "seeds i"] A assms(3,5,7) True by auto
    then show ?thesis using n unfolding fst_conv snd_conv by (intro exI[of _ "(d', o')"]) (metis fst_conv snd_conv)
  qed simp
  then obtain y where "\<forall>i<n. \<exists>d g g'. NewDKGSession en params g (int i) (int n) t = (g', Inr d) \<and> Round1WithSeed en d (seeds i) = (fst (y i), Inr (snd (y i)))"
    by metis
  then have "dkg_committee en params n t seeds (\<lambda>i. fst (y i)) (\<lambda>i. snd (y i))" unfolding dkg_committee_def .
  then show ?thesis by blast
qed

lemma committee_share:
  assumes "lattice_ring (dpR params)" "rModulus (dpR params) = corona_q" "sampling_ok (envSampling en) (dpR params)"
    and "dkg_committee en params n t seeds D out" "i < n" "j < n"
  shows "map_of (roShares (out i)) (int j) = Some (vec_pval (dpR params) (dsCoeffs (D i)) (int j + 1))"
proof -
  have "honest_output (dpR params) (dsA (D i)) n (dsCoeffs (D i)) (out i)"
    using lattice_ring.dkg_committee_ok[OF assms(1,4) refl assms(2,3,5)] by blast
  then show ?thesis by (rule lattice_ring.honest_share[OF assms(1) _ assms(6)])
qed

lemma sum_sharing:
  assumes lr: "lattice_ring r" and q: "rModulus r = corona_q" and cs: "\<And>i. i < n \<Longrightarrow> length (cs i) = nat t \<and> cs i \<noteq> []"
  shows "is_sharing corona_q (rN r) dimN (nat t) (map (\<lambda>j. (int j + 1, sum_vec r (\<lambda>i. vec_pval r (cs i) (int j + 1)) n)) [0..<n])
    (\<lambda>p k. (\<Sum>i<n. pcoef (hd (cs i) ! p) k) mod corona_q)"
  unfolding is_sharing_def
proof (intro allI impI)
  fix p k assume pk: "p < dimN" "k < rN r"
  let ?c = "\<lambda>i. map (\<lambda>c. pcoef (c ! p) k) (cs i)"
  let ?sum = "map (\<lambda>a. \<Sum>i<n. ?c i ! a) [0..<nat t]"
  have len: "length (?c i) = nat t" if "i < n" for i using cs[OF that] by simp
  have pv: "pval ?sum x = (\<Sum>i<n. pval (?c i) x)" for x using len pval_sum_columns[of n ?c "nat t" x] by simp
  have "\<forall>(j, s) \<in> set (map (\<lambda>j. (int j + 1, sum_vec r (\<lambda>i. vec_pval r (cs i) (int j + 1)) n)) [0..<n]). pcoef (s ! p) k = pval ?sum j mod corona_q"
  proof -
    have "pcoef (sum_vec r (\<lambda>i. vec_pval r (cs i) (int j + 1)) n ! p) k = pval ?sum (int j + 1) mod corona_q" for j
      unfolding pv using pk q coeff_ring.q_simps[OF lattice_ring.axioms(1)[OF lr]]
      by (simp add: sum_vec_def vec_pval_def mod_sum_eq)
    then show ?thesis by auto
  qed
  moreover have "pval ?sum 0 mod corona_q = (\<Sum>i<n. pcoef (hd (cs i) ! p) k) mod corona_q"
  proof -
    have "pval (?c i) 0 = pcoef (hd (cs i) ! p) k" if "i < n" for i
      using cs[OF that] by (cases "cs i") auto
    then show ?thesis unfolding pv by simp
  qed
  ultimately show "\<exists>ds. length ds = nat t \<and> pval ds 0 mod corona_q = (\<Sum>i<n. pcoef (hd (cs i) ! p) k) mod corona_q \<and>
      (\<forall>(j, s) \<in> set (map (\<lambda>j. (int j + 1, sum_vec r (\<lambda>i. vec_pval r (cs i) (int j + 1)) n)) [0..<n]). pcoef (s ! p) k = pval ds j mod corona_q)"
    by (intro exI[of _ ?sum]) simp
qed

text \<open>
  C8: key generation shares a common secret. When the whole committee dealt honestly and what was dealt was delivered, round 2
  returns at every member, with the same public key everywhere, and the secret shares are a sharing
  with threshold \<open>t\<close>, at the points \<open>1, 2, \<dots>, n\<close>, of the sum of the dealt secrets.
\<close>

theorem dkg_run:
  assumes "lattice_ring (dpR params)" "rModulus (dpR params) = corona_q" "sampling_ok (envSampling en) (dpR params)"
    and "coeff_ring (dpRXi params)" "rN (dpRXi params) = rN (dpR params)"
    and "dkg_committee en params n t seeds D out"
    and "\<And>i j. i < n \<Longrightarrow> j < n \<Longrightarrow> map_of (shares j) (int i) = map_of (roShares (out i)) (int j)"
    and "\<And>i. i < n \<Longrightarrow> map_of commits (int i) = Some (roCommits (out i))"
  shows "\<exists>sk bTilde. (\<forall>j<n. dkg_Round2 (D j) (shares j) commits = Inr (sk j, bTilde)) \<and>
    is_sharing corona_q (rN (dpR params)) dimN (nat t) (map (\<lambda>j. (int j + 1, sk j)) [0..<n])
      (\<lambda>p k. (\<Sum>i<n. pcoef (hd (dsCoeffs (D i)) ! p) k) mod corona_q)"
proof -
  let ?r = "dpR params" and ?cs = "\<lambda>i. dsCoeffs (D i)"
  note ok = lattice_ring.dkg_committee_ok[OF assms(1,6) refl assms(2,3)]
  let ?sk = "\<lambda>j. sum_vec ?r (\<lambda>i. vec_pval ?r (?cs i) (int j + 1)) n"
  have sh: "map_of (roShares (out i)) (int j) = Some (vec_pval ?r (?cs i) (int j + 1))" if "i < n" "j < n" for i j
    by (rule committee_share[OF assms(1-3,6) that])
  have one: "\<exists>pub bTilde. feldman_commit ?r (dsA (D 0)) (sum_vec ?r (\<lambda>i. hd (?cs i)) n) = Inr pub \<and>
      RoundVector (dpRXi params) (ConvertVectorFromNTT ?r pub) Xi = Inr bTilde \<and> dkg_Round2 (D j) (shares j) commits = Inr (?sk j, bTilde)" if j: "j < n" for j
  proof -
    have rs: "map_of (shares j) (int i) = Some (vec_pval ?r (?cs i) (int j + 1)) \<and> vec_ok ?r dimN (vec_pval ?r (?cs i) (int j + 1))" if "i < n" for i
      using assms(7)[OF that j] sh[OF that j] lattice_ring.vec_ok_pval[OF assms(1)] by simp
    have good: "\<forall>i<n. feldman_commit ?r (dsA (D 0)) (vec_pval ?r (?cs i) (int j + 1)) = feldman_commit ?r (dsA (D 0)) (the (map_of (roShares (out i)) (int j)))"
      using sh j by simp
    show ?thesis using lattice_ring.dkg_Round2_ok[OF assms(1,6) refl assms(2,3,4,5) j rs assms(8)] unfolding if_P[OF good] by blast
  qed
  let ?F = "feldman_commit ?r (dsA (D 0)) (sum_vec ?r (\<lambda>i. hd (?cs i)) n)"
  let ?b = "projr (RoundVector (dpRXi params) (ConvertVectorFromNTT ?r (projr ?F)) Xi)"
  have b: "\<forall>j<n. dkg_Round2 (D j) (shares j) commits = Inr (?sk j, ?b)"
  proof (intro allI impI)
    fix j assume "j < n"
    then obtain pub b where "?F = Inr pub" "RoundVector (dpRXi params) (ConvertVectorFromNTT ?r pub) Xi = Inr b"
      "dkg_Round2 (D j) (shares j) commits = Inr (?sk j, b)" using one by blast
    then show "dkg_Round2 (D j) (shares j) commits = Inr (?sk j, ?b)" by simp
  qed
  have "is_sharing corona_q (rN ?r) dimN (nat t) (map (\<lambda>j. (int j + 1, ?sk j)) [0..<n]) (\<lambda>p k. (\<Sum>i<n. pcoef (hd (?cs i) ! p) k) mod corona_q)"
    by (rule sum_sharing[OF assms(1,2)]) (use ok in fastforce)
  then show ?thesis using b by (intro exI[of _ ?sk] exI[of _ ?b] conjI)
qed

text \<open>
  C15: a share is checked against what was dealt. When the commitments are honest, round 2 ends with the verification error
  exactly if some received share has another image under the matrix than the dealt one.
\<close>

theorem dkg_share_check:
  assumes "lattice_ring (dpR params)" "rModulus (dpR params) = corona_q" "sampling_ok (envSampling en) (dpR params)"
    and "coeff_ring (dpRXi params)" "rN (dpRXi params) = rN (dpR params)"
    and "dkg_committee en params n t seeds D out" "j < n"
    and "\<And>i. i < n \<Longrightarrow> map_of shares (int i) = Some (sh i) \<and> vec_ok (dpR params) dimN (sh i)"
    and "\<And>i. i < n \<Longrightarrow> map_of commits (int i) = Some (roCommits (out i))"
  shows "(dkg_Round2 (D j) shares commits = Inl dkg_ErrShareVerification \<longleftrightarrow>
      (\<exists>i<n. feldman_commit (dpR params) (dsA (D 0)) (sh i) \<noteq> feldman_commit (dpR params) (dsA (D 0)) (the (map_of (roShares (out i)) (int j))))) \<and>
    (dkg_Round2 (D j) shares commits = Inl dkg_ErrShareVerification \<or> (\<exists>res. dkg_Round2 (D j) shares commits = Inr res))"
proof -
  let ?good = "\<forall>i<n. feldman_commit (dpR params) (dsA (D 0)) (sh i) = feldman_commit (dpR params) (dsA (D 0)) (the (map_of (roShares (out i)) (int j)))"
  obtain res where "dkg_Round2 (D j) shares commits = (if ?good then Inr res else Inl dkg_ErrShareVerification)"
    using lattice_ring.dkg_Round2_ok[OF assms(1,6) refl assms(2-5,7-9)] by blast
  then show ?thesis by (cases ?good) auto
qed

text \<open>
  C35: the published key is off by the Montgomery constant. Round 2 takes the image \<open>pub\<close> of the summed secrets, computed from secrets
  that are not in Montgomery form, out of Montgomery form before it rounds. Key generation
  elsewhere multiplies by the Montgomery form of the secret, whose image is the Montgomery form of \<open>pub\<close>,
  and so rounds \<open>pub\<close> itself.
\<close>

theorem dkg_public_key:
  assumes "lattice_ring (dpR params)" "rModulus (dpR params) = corona_q" "sampling_ok (envSampling en) (dpR params)"
    and "coeff_ring (dpRXi params)" "rN (dpRXi params) = rN (dpR params)"
    and "dkg_committee en params n t seeds D out" "j < n"
    and "\<And>i. i < n \<Longrightarrow> map_of shares (int i) = map_of (roShares (out i)) (int j)"
    and "\<And>i. i < n \<Longrightarrow> map_of commits (int i) = Some (roCommits (out i))"
  shows "\<exists>pub sk bTilde. dkg_Round2 (D j) shares commits = Inr (sk, bTilde) \<and>
    RoundVector (dpRXi params) (map (\<lambda>p. rINTT (dpR params) (rIMForm (dpR params) p)) pub) Xi = Inr bTilde \<and>
    MatrixVectorMul (dpR params) (dsA (D 0)) (ConvertVectorToNTT (dpR params) (sum_vec (dpR params) (\<lambda>i. hd (dsCoeffs (D i))) n))
      (InitializeVector (dpR params) dimM) = Inr (map (rMForm (dpR params)) pub) \<and>
    ConvertVectorFromNTT (dpR params) (map (rMForm (dpR params)) pub) = map (rINTT (dpR params)) pub"
proof -
  let ?r = "dpR params"
  have sh: "map_of shares (int i) = Some (vec_pval ?r (dsCoeffs (D i)) (int j + 1)) \<and> vec_ok ?r dimN (vec_pval ?r (dsCoeffs (D i)) (int j + 1))" if "i < n" for i
    using assms(8)[OF that] committee_share[OF assms(1-3,6) that assms(7)] lattice_ring.vec_ok_pval[OF assms(1)] by simp
  obtain pub bTilde where P: "feldman_commit ?r (dsA (D 0)) (sum_vec ?r (\<lambda>i. hd (dsCoeffs (D i))) n) = Inr pub" "vec_ok ?r dimM pub"
    "RoundVector (dpRXi params) (ConvertVectorFromNTT ?r pub) Xi = Inr bTilde"
    "dkg_Round2 (D j) shares commits = Inr (sum_vec ?r (\<lambda>i. vec_pval ?r (dsCoeffs (D i)) (int j + 1)) n, bTilde)"
    using lattice_ring.dkg_Round2_ok[OF assms(1,6) refl assms(2-5,7) sh assms(9)] committee_share[OF assms(1-3,6) _ assms(7)] by fastforce
  have A: "mat_ok ?r dimM dimN (dsA (D 0))" using lattice_ring.dkg_committee_ok[OF assms(1,6) refl assms(2,3), of 0] assms(7) by simp
  have "ConvertVectorFromNTT ?r (map (rMForm ?r) pub) = map (rINTT ?r) pub"
    using P(2) lattice_ring.IMForm_MForm[OF assms(1)] by (auto simp: ConvertVectorFromNTT_def vec_ok_def vvalid_def)
  then show ?thesis
    using P(3,4) lattice_ring.feldman_MForm[OF assms(1) A lattice_ring.vec_ok_sum_vec[OF assms(1)] P(1)]
    unfolding ConvertVectorFromNTT_def[of ?r pub] by blast
qed

definition ex_dkg :: dkg_Params where
  "ex_dkg = \<lparr> dpR = slot_ring 8, dpRXi = coeff_ops 262144 8 \<rparr>"

lemma ex_dkg_ok: "dpR ex_dkg = slot_ring 8" "lattice_ring (dpR ex_dkg)" "rModulus (dpR ex_dkg) = corona_q" "sampling_ok (envSampling ex8_env) (dpR ex_dkg)"
    "coeff_ring (dpRXi ex_dkg)" "rN (dpRXi ex_dkg) = rN (dpR ex_dkg)"
  using lattice_ring_slot_ring[of 8] ex8_sampling_ok coeff_ring_coeff_ops[of 262144 8]
  by (simp_all add: ex_dkg_def slot_ring_simps coeff_ops_def)

lemma ex_dkg_committee: "\<exists>D out. dkg_committee ex8_env ex_dkg 3 2 (\<lambda>_. replicate KeySize 7) D out"
  by (rule dkg_committee_exists[OF ex_dkg_ok(2-4)]) simp_all

theorem dkg_run_witness:
  "\<exists>D out sk bTilde. dkg_committee ex8_env ex_dkg 3 2 (\<lambda>_. replicate KeySize 7) D out \<and>
    (\<forall>j<3. dkg_Round2 (D j) (map (\<lambda>i. (int i, the (map_of (roShares (out i)) (int j)))) [0..<3]) (map (\<lambda>i. (int i, roCommits (out i))) [0..<3]) = Inr (sk j, bTilde))"
proof -
  obtain D out where c: "dkg_committee ex8_env ex_dkg 3 2 (\<lambda>_. replicate KeySize 7) D out" using ex_dkg_committee by blast
  have sh: "map_of (map (\<lambda>i. (int i, the (map_of (roShares (out i)) (int j)))) [0..<3]) (int i) = map_of (roShares (out i)) (int j)" if "i < 3" "j < 3" for i j
    unfolding map_of_upt[OF that(1)] committee_share[OF ex_dkg_ok(2-4) c that] by simp
  show ?thesis
    using dkg_run[OF ex_dkg_ok(2-6) c sh map_of_upt] c by blast
qed

theorem dkg_share_check_witness:
  "\<exists>D out. dkg_committee ex8_env ex_dkg 3 2 (\<lambda>_. replicate KeySize 7) D out \<and>
    (\<forall>v. vec_ok (dpR ex_dkg) dimN v \<and> (\<exists>i<3. feldman_commit (dpR ex_dkg) (dsA (D 0)) v \<noteq> feldman_commit (dpR ex_dkg) (dsA (D 0)) (the (map_of (roShares (out i)) 1))) \<longrightarrow>
      dkg_Round2 (D 1) (map (\<lambda>i. (int i, v)) [0..<3]) (map (\<lambda>i. (int i, roCommits (out i))) [0..<3]) = Inl dkg_ErrShareVerification)"
proof -
  obtain D out where c: "dkg_committee ex8_env ex_dkg 3 2 (\<lambda>_. replicate KeySize 7) D out" using ex_dkg_committee by blast
  have "dkg_Round2 (D 1) (map (\<lambda>i. (int i, v)) [0..<3]) (map (\<lambda>i. (int i, roCommits (out i))) [0..<3]) = Inl dkg_ErrShareVerification"
    if v: "vec_ok (dpR ex_dkg) dimN v" and i: "\<exists>i<3. feldman_commit (dpR ex_dkg) (dsA (D 0)) v \<noteq> feldman_commit (dpR ex_dkg) (dsA (D 0)) (the (map_of (roShares (out i)) 1))" for v
    using dkg_share_check[OF ex_dkg_ok(2-6) c, of 1 "map (\<lambda>i. (int i, v)) [0..<3]" "\<lambda>_. v" "map (\<lambda>i. (int i, roCommits (out i))) [0..<3]"]
      map_of_upt[of _ 3 "\<lambda>_. v"] map_of_upt[of _ 3 "\<lambda>i. roCommits (out i)"] v i by simp
  then show ?thesis using c by blast
qed

theorem dkg_public_key_witness:
  "\<exists>D out pub sk bTilde. dkg_committee ex8_env ex_dkg 3 2 (\<lambda>_. replicate KeySize 7) D out \<and>
    dkg_Round2 (D 1) (map (\<lambda>i. (int i, the (map_of (roShares (out i)) 1))) [0..<3]) (map (\<lambda>i. (int i, roCommits (out i))) [0..<3]) = Inr (sk, bTilde) \<and>
    RoundVector (dpRXi ex_dkg) (map (\<lambda>p. rINTT (dpR ex_dkg) (rIMForm (dpR ex_dkg) p)) pub) Xi = Inr bTilde"
proof -
  obtain D out where c: "dkg_committee ex8_env ex_dkg 3 2 (\<lambda>_. replicate KeySize 7) D out" using ex_dkg_committee by blast
  have sh: "map_of (map (\<lambda>i. (int i, the (map_of (roShares (out i)) 1))) [0..<3]) (int i) = map_of (roShares (out i)) (int 1)" if "i < 3" for i
    using committee_share[OF ex_dkg_ok(2-4) c that, of 1] unfolding map_of_upt[OF that] by simp
  show ?thesis
    using dkg_public_key[OF ex_dkg_ok(2-6) c _ sh map_of_upt] c by fastforce
qed

end
