(* ===== verification/Naive.thy ===== *)
theory Naive
  imports Vector_Lemmas Reference_Ring
begin

text \<open>
  \<^verbatim>\<open>utils/utils-naive.go\<close>: the slow products that the fast ones were written against. The products in
  NTT form agree with the Montgomery products of the ring; the schoolbook product wraps with the
  wrong sign.
\<close>

section \<open>Products of polynomials\<close>

definition logN_naive :: nat where "logN_naive = 8"

text \<open>One turn of the double loop. The quotient is by \<^verbatim>\<open>2<<logN\<close>.\<close>

definition naive_step :: "int list \<Rightarrow> int list \<Rightarrow> int list \<Rightarrow> nat \<times> nat \<Rightarrow> int list" where
  "naive_step p1 p2 = (\<lambda>result (i, j).
     let degree = 2 ^ logN_naive; temp = p1 ! i * p2 ! j in
     if i + j < degree then result[i + j := result ! (i + j) + temp]
     else let index = (i + j) mod degree in
       if ((i + j - (i + j) mod degree) div (2 * 2 ^ logN_naive)) mod 2 = 0 then result[index := result ! index + temp]
       else result[index := result ! index - temp])"

text \<open>The slices hold \<^verbatim>\<open>degree\<close> coefficients; a ring of another degree leaves nil entries or writes past the end.\<close>

definition MulPolyNaive :: "ring_ops \<Rightarrow> poly \<Rightarrow> poly \<Rightarrow> poly res" where
  "MulPolyNaive r p1 p2 =
     (let degree = 2 ^ logN_naive; p1Coeffs = rPolyToBigint r p1; p2Coeffs = rPolyToBigint r p2 in
      if length p1Coeffs \<noteq> degree \<or> length p2Coeffs \<noteq> degree then Inl Panic
      else let result = foldl (naive_step p1Coeffs p2Coeffs) (replicate degree 0) (List.product [0..<degree] [0..<degree])
        in Inr (rSetCoefficientsBigint r (map (\<lambda>c. c mod rModulus r) result)))"

definition MulCoeffsNTT :: "ring_ops \<Rightarrow> poly \<Rightarrow> poly \<Rightarrow> poly res" where
  "MulCoeffsNTT r p1 p2 =
     (let p1Coeffs = rPolyToBigint r p1; p2Coeffs = rPolyToBigint r p2 in
      if length p1Coeffs \<noteq> rN r \<or> length p2Coeffs \<noteq> rN r then Inl Panic
      else Inr (rSetCoefficientsBigint r (map (\<lambda>i. (p1Coeffs ! i * p2Coeffs ! i) mod rModulus r) [0..<rN r])))"

text \<open>The operands go through the NTT and back in place: the product and both operands.\<close>

definition MulPolyNTT :: "ring_ops \<Rightarrow> poly \<Rightarrow> poly \<Rightarrow> (poly \<times> poly \<times> poly) res" where
  "MulPolyNTT r p1 p2 =
     (let p1' = rNTT r p1; p2' = rNTT r p2; p1Coeffs = rPolyToBigint r p1'; p2Coeffs = rPolyToBigint r p2' in
      if length p1Coeffs \<noteq> rN r \<or> length p2Coeffs \<noteq> rN r then Inl Panic
      else let p3 = rSetCoefficientsBigint r (map (\<lambda>i. (p1Coeffs ! i * p2Coeffs ! i) mod rModulus r) [0..<rN r])
        in Inr (rINTT r p3, rINTT r p1', rINTT r p2'))"

section \<open>Products of vectors and matrices\<close>

definition naive_row :: "ring_ops \<Rightarrow> vec \<Rightarrow> vec \<Rightarrow> poly res" where
  "naive_row r row v =
     foldM (\<lambda>acc j. rbind (idx v j) (\<lambda>x. rbind (MulPolyNaive r (row ! j) x) (\<lambda>temp. Inr (rAdd r acc temp)))) (rNewPoly r) [0..<length row]"

definition MatrixVectorMulNaive :: "ring_ops \<Rightarrow> matrix \<Rightarrow> vec \<Rightarrow> vec \<Rightarrow> vec res" where
  "MatrixVectorMulNaive r M v result =
     (if length result < length M then Inl Panic
      else rbind (mapM (\<lambda>row. naive_row r row v) M) (\<lambda>rows. Inr (rows @ drop (length M) result)))"

definition naive_cell :: "ring_ops \<Rightarrow> matrix \<Rightarrow> matrix \<Rightarrow> nat \<Rightarrow> nat \<Rightarrow> poly res" where
  "naive_cell r M1 M2 i j =
     foldM (\<lambda>acc k. rbind (idx (M1 ! i) k) (\<lambda>a. rbind (idx M2 k) (\<lambda>row. rbind (idx row j) (\<lambda>b.
        rbind (MulPolyNaive r a b) (\<lambda>temp. Inr (rAdd r acc temp)))))) (rNewPoly r) [0..<length (hd M1)]"

definition MatrixMatrixMulNaive :: "ring_ops \<Rightarrow> matrix \<Rightarrow> matrix \<Rightarrow> matrix \<Rightarrow> matrix res" where
  "MatrixMatrixMulNaive r M1 M2 result =
     (if M1 = [] \<or> M2 = [] \<or> length (hd M1) \<noteq> length M2 then Inl ErrShapeMismatch
      else if length result < length M1 then Inl Panic
      else rbind (mapM (\<lambda>i. mapM (naive_cell r M1 M2 i) [0..<length (hd M2)]) [0..<length M1]) (\<lambda>rows.
        Inr (rows @ drop (length M1) result)))"

definition VectorPolyMulNaive :: "ring_ops \<Rightarrow> vec \<Rightarrow> poly \<Rightarrow> vec \<Rightarrow> vec res" where
  "VectorPolyMulNaive r v poly result =
     (if length result < length v then Inl Panic
      else rbind (mapM (\<lambda>x. MulPolyNaive r x poly) v) (\<lambda>ps. Inr (ps @ drop (length v) result)))"

section \<open>The schoolbook loop\<close>

lemma naive_step_adds:
  assumes "i < 256" "j < 256" "length res = 256"
  shows "naive_step a b res (i, j) = res[(i + j) mod 256 := res ! ((i + j) mod 256) + a ! i * b ! j]"
proof (cases "i + j < 256")
  case False
  have m: "(i + j) mod 256 = i + j - 256" using False assms(1,2) by (simp add: mod_if)
  have "i + j - (i + j) mod 256 = 256" unfolding m using False by simp
  then have "((i + j - (i + j) mod 256) div 512) mod 2 = 0" by simp
  then show ?thesis using False by (simp add: naive_step_def logN_naive_def Let_def)
qed (simp add: naive_step_def logN_naive_def Let_def)

lemma naive_fold:
  assumes "\<forall>(i, j) \<in> set ijs. i < 256 \<and> j < 256" "length res = 256" "k < 256"
  shows "length (foldl (naive_step a b) res ijs) = 256 \<and>
    foldl (naive_step a b) res ijs ! k = res ! k + (\<Sum>(i, j)\<leftarrow>ijs. if (i + j) mod 256 = k then a ! i * b ! j else 0)"
  using assms(1,2)
proof (induction ijs arbitrary: res)
  case (Cons ij ijs)
  obtain i j where ij: "ij = (i, j)" by fastforce
  let ?res = "res[(i + j) mod 256 := res ! ((i + j) mod 256) + a ! i * b ! j]"
  have st: "naive_step a b res (i, j) = ?res" by (rule naive_step_adds) (use Cons.prems ij in auto)
  have "?res ! k = res ! k + (if (i + j) mod 256 = k then a ! i * b ! j else 0)" using Cons.prems(2) assms(3) by (auto simp: nth_list_update)
  then show ?case using Cons.IH[of ?res] Cons.prems ij st by simp
qed simp

lemma sum_list_product:
  "(\<Sum>(i, j)\<leftarrow>List.product [0..<n] [0..<m]. f i j) = (\<Sum>i<n. \<Sum>j<m. f i j :: int)"
proof -
  have "(\<Sum>(i, j)\<leftarrow>List.product xs [0..<m]. f i j) = (\<Sum>i\<leftarrow>xs. \<Sum>j<m. f i j)" for xs
    by (induction xs) (simp_all add: comp_def interv_sum_list_conv_sum_set_nat lessThan_atLeast0)
  then show ?thesis by (simp add: interv_sum_list_conv_sum_set_nat lessThan_atLeast0)
qed

context lattice_ring
begin

lemma MulPolyNaive_ok:
  assumes "rN rg = 256" "pvalid (rModulus rg) (rN rg) a" "pvalid (rModulus rg) (rN rg) b"
  shows "MulPolyNaive rg a b = Inr (pbuild (rModulus rg) (rN rg)
    (\<lambda>k. \<Sum>i<256. \<Sum>j<256. if (i + j) mod 256 = k then pcoef a i * pcoef b j else 0))"
proof -
  let ?a = "map (pcoef a) [0..<256]" and ?b = "map (pcoef b) [0..<256]"
  let ?l = "List.product [0..<256] [0..<256]"
  let ?res = "foldl (naive_step ?a ?b) (replicate 256 0) ?l"
  have f: "length ?res = 256 \<and> ?res ! k = (\<Sum>i<256. \<Sum>j<256. if (i + j) mod 256 = k then pcoef a i * pcoef b j else 0)" if "k < 256" for k
  proof -
    have "(\<Sum>(i, j)\<leftarrow>?l. if (i + j) mod 256 = k then ?a ! i * ?b ! j else 0) = (\<Sum>i<256. \<Sum>j<256. if (i + j) mod 256 = k then ?a ! i * ?b ! j else 0)"
      by (rule sum_list_product)
    also have "\<dots> = (\<Sum>i<256. \<Sum>j<256. if (i + j) mod 256 = k then pcoef a i * pcoef b j else 0)"
      by (intro sum.cong refl) simp
    finally show ?thesis using naive_fold[of ?l "replicate 256 0" k ?a ?b] that by auto
  qed
  have len: "length ?res = 256" using f[of 0] by simp
  have "rSetCoefficientsBigint rg (map (\<lambda>c. c mod rModulus rg) ?res) = pbuild (rModulus rg) (rN rg)
      (\<lambda>k. if k < length (map (\<lambda>c. c mod rModulus rg) ?res) then map (\<lambda>c. c mod rModulus rg) ?res ! k else 0)"
    by (rule SetCoefficientsBigint) (simp add: len assms(1))
  also have "\<dots> = pbuild (rModulus rg) (rN rg) (\<lambda>k. \<Sum>i<256. \<Sum>j<256. if (i + j) mod 256 = k then pcoef a i * pcoef b j else 0)"
    by (rule pbuild_cong) (use f len assms(1) in simp)
  finally show ?thesis
    using assms by (simp add: MulPolyNaive_def logN_naive_def Let_def PolyToBigint)
qed

lemma pbuild_prod: "MulCoeffsNTT rg a b = Inr (pbuild (rModulus rg) (rN rg) (\<lambda>k. pcoef a k * pcoef b k))"
  if "pvalid (rModulus rg) (rN rg) a" "pvalid (rModulus rg) (rN rg) b"
proof -
  have "rSetCoefficientsBigint rg (map (\<lambda>k. (pcoef a k * pcoef b k) mod rModulus rg) [0..<rN rg]) = pbuild (rModulus rg) (rN rg) (\<lambda>k. pcoef a k * pcoef b k)"
    by (subst SetCoefficientsBigint, simp) (rule pbuild_cong, simp)
  moreover have "map (\<lambda>i. (map (pcoef a) [0..<rN rg] ! i * map (pcoef b) [0..<rN rg] ! i) mod rModulus rg) [0..<rN rg]
      = map (\<lambda>k. (pcoef a k * pcoef b k) mod rModulus rg) [0..<rN rg]" by (rule map_cong) simp_all
  ultimately show ?thesis using that by (simp only: MulCoeffsNTT_def Let_def PolyToBigint) simp
qed

lemma Mont_MForm:
  assumes a: "pvalid (rModulus rg) (rN rg) a" and b: "pvalid (rModulus rg) (rN rg) b"
  shows "rMulCoeffsMontgomery rg (rMForm rg a) b = pbuild (rModulus rg) (rN rg) (\<lambda>k. pcoef a k * pcoef b k)"
proof -
  let ?p = "pbuild (rModulus rg) (rN rg) (\<lambda>k. pcoef a k * pcoef b k)"
  have v: "pvalid (rModulus rg) (rN rg) ?p" using q_simps by simp
  have "pbuild (rModulus rg) (rN rg) (\<lambda>k. pcoef (rMForm rg a) k * pcoef b k) = rMForm rg ?p"
    unfolding MForm[OF v]
  proof (rule pbuild_cong)
    fix k assume k: "k < rN rg"
    then have "pcoef (rMForm rg a) k * pcoef b k mod rModulus rg = (pcoef a k * 2 ^ 64) * pcoef b k mod rModulus rg"
      using MForm[OF a] q_simps by (simp add: mod_mult_left_eq)
    also have "\<dots> = (pcoef a k * pcoef b k) * 2 ^ 64 mod rModulus rg" by (simp only: ac_simps)
    also have "\<dots> = pcoef ?p k * 2 ^ 64 mod rModulus rg" using k q_simps by (simp add: mod_mult_left_eq)
    finally show "pcoef (rMForm rg a) k * pcoef b k mod rModulus rg = pcoef ?p k * 2 ^ 64 mod rModulus rg" .
  qed
  then show ?thesis unfolding MulCoeffsMontgomery[OF valid_MForm[OF a] b] by (simp add: IMForm_MForm v)
qed

end

section \<open>Properties\<close>

text \<open>
  The slow products in NTT form are the fast ones. \<^verbatim>\<open>MulCoeffsNTT\<close> is the Montgomery product after one operand went to
  Montgomery form, \<^verbatim>\<open>MulPolyNTT\<close> is that product between the transforms, and it hands its operands back
  unchanged.
\<close>

theorem naive_ntt_products:
  assumes "lattice_ring r" "pvalid (rModulus r) (rN r) a" "pvalid (rModulus r) (rN r) b"
  shows "MulCoeffsNTT r a b = Inr (rMulCoeffsMontgomery r (rMForm r a) b) \<and>
    MulPolyNTT r a b = Inr (rINTT r (rMulCoeffsMontgomery r (rMForm r (rNTT r a)) (rNTT r b)), a, b)"
proof -
  note v = lattice_ring.valid_NTT[OF assms(1)] and p = lattice_ring.pbuild_prod[OF assms(1)] and m = lattice_ring.Mont_MForm[OF assms(1)]
  have c: "coeff_ring r" by (rule lattice_ring.axioms(1)[OF assms(1)])
  have "MulPolyNTT r a b = rbind (MulCoeffsNTT r (rNTT r a) (rNTT r b)) (\<lambda>p3. Inr (rINTT r p3, rINTT r (rNTT r a), rINTT r (rNTT r b)))"
    by (simp add: MulPolyNTT_def MulCoeffsNTT_def Let_def)
  then show ?thesis
    using p[OF assms(2,3)] p[OF v[OF assms(2)] v[OF assms(3)]] m[OF assms(2,3)] m[OF v[OF assms(2)] v[OF assms(3)]]
      lattice_ring.INTT_NTT[OF assms(1,2)] lattice_ring.INTT_NTT[OF assms(1,3)] by simp
qed

theorem naive_ntt_products_witness:
  "MulPolyNTT ref_ring [[3, 5]] [[7, 11]] =
     Inr (rINTT ref_ring (rMulCoeffsMontgomery ref_ring (rMForm ref_ring (rNTT ref_ring [[3, 5]])) (rNTT ref_ring [[7, 11]])), [[3, 5]], [[7, 11]])"
  using naive_ntt_products[OF ref.lattice_ring_axioms, of "[[3, 5]]" "[[7, 11]]"]
  by (simp add: ref_ring_def pvalid_def corona_q_def)

text \<open>
  C36: the schoolbook product is taken modulo \<open>X\<^sup>256 - 1\<close>. Coefficient \<open>k\<close> of \<^verbatim>\<open>MulPolyNaive\<close> is the sum of all products of coefficients whose
  exponents add up to \<open>k\<close> modulo 256, without the sign that \<open>X\<^sup>256 = -1\<close> calls for: the product of \<open>X\<^sup>255\<close> and \<open>X\<close> is \<open>1\<close>.
\<close>

theorem naive_product_is_cyclic:
  assumes "lattice_ring r" "rN r = 256" "pvalid (rModulus r) (rN r) a" "pvalid (rModulus r) (rN r) b"
  shows "MulPolyNaive r a b = Inr (pbuild (rModulus r) (rN r)
      (\<lambda>k. \<Sum>i<256. \<Sum>j<256. if (i + j) mod 256 = k then pcoef a i * pcoef b j else 0)) \<and>
    MulPolyNaive r (rNewMonomialXi r 255) (rNewMonomialXi r 1) = Inr (rNewMonomialXi r 0)"
proof -
  have c: "coeff_ring r" by (rule lattice_ring.axioms(1)[OF assms(1)])
  have q: "1 < rModulus r" "rModulus r \<le> 2 ^ 64" using coeff_ring.q_simps[OF c] .
  let ?m = "\<lambda>e. pbuild (rModulus r) (rN r) (\<lambda>k. if k = e then 1 else 0)"
  have m: "rNewMonomialXi r e = ?m e" "pvalid (rModulus r) (rN r) (?m e)" if "e < 256" for e
    using coeff_ring.NewMonomialXi[OF c, of e] that assms(2) q by simp_all
  have "(\<Sum>i<256. \<Sum>j<256. if (i + j) mod 256 = k then pcoef (?m 255) i * pcoef (?m 1) j else 0) = (if k = 0 then 1 else 0)" (is "?S = _") if k: "k < 256" for k
  proof -
    have co: "pcoef (?m e) i = (if i = e then 1 else 0)" if "i < 256" for e i using that assms(2) q by simp
    have "?S = (\<Sum>i<(256 :: nat). \<Sum>j<(256 :: nat). if i = 255 then (if j = 1 then (if k = 0 then 1 else 0) else 0) else 0)"
      by (intro sum.cong refl) (use co k in auto)
    also have "\<dots> = (\<Sum>i<(256 :: nat). if i = 255 then (\<Sum>j<(256 :: nat). if j = 1 then (if k = 0 then 1 else 0) else 0) else 0)"
      by (intro sum.cong refl) auto
    also have "\<dots> = (if k = 0 then 1 else 0)" by (simp add: sum.delta)
    finally show ?thesis .
  qed
  then have "MulPolyNaive r (rNewMonomialXi r 255) (rNewMonomialXi r 1) = Inr (rNewMonomialXi r 0)"
    using m lattice_ring.MulPolyNaive_ok[OF assms(1,2) m(2)[of 255] m(2)[of 1]] assms(2)
    by (auto intro!: pbuild_cong simp del: One_nat_def)
  then show ?thesis using lattice_ring.MulPolyNaive_ok[OF assms] by simp
qed

theorem naive_product_is_cyclic_witness:
  "MulPolyNaive (slot_ring 256) (rNewMonomialXi (slot_ring 256) 255) (rNewMonomialXi (slot_ring 256) 1) = Inr (rNewMonomialXi (slot_ring 256) 0)"
  using naive_product_is_cyclic[OF lattice_ring_slot_ring[of 256], of "rNewPoly (slot_ring 256)" "rNewPoly (slot_ring 256)"]
    coeff_ring.valid_NewPoly[OF lattice_ring.axioms(1)[OF lattice_ring_slot_ring[of 256]]] by (simp add: slot_ring_simps)

end
