(* ===== verification/Gpu.thy ===== *)
theory Gpu
  imports Corona_Prelude
begin

text \<open>
  \<^verbatim>\<open>gpu/gpu.go\<close>: the opt-in flag and the registry of rings offered to the accelerator. The calls into
  \<^verbatim>\<open>lattice/gpu\<close> are parameters; those an operation makes are part of its result.
\<close>

section \<open>State\<close>

text \<open>Pointers to sub-rings are numbers; a ring is the list of its sub-ring pointers, nil or not, and a
  nil ring is \<open>None\<close>. The threshold is the library's.\<close>

type_synonym gpu_ring = "nat option list option"

record accel =
  accelEnabled :: bool
  nttThreshold :: u32
  registeredRings :: "nat list"

definition accel_init :: accel where
  "accel_init = \<lparr> accelEnabled = False, nttThreshold = 0, registeredRings = [] \<rparr>"

definition defaultThreshold :: u32 where "defaultThreshold = 1024"

definition UseAccelerator :: "accel \<Rightarrow> accel" where
  "UseAccelerator s = s \<lparr> accelEnabled := True, nttThreshold := defaultThreshold \<rparr>"

definition UseAcceleratorForce :: "accel \<Rightarrow> accel" where
  "UseAcceleratorForce s = s \<lparr> accelEnabled := True, nttThreshold := 1 \<rparr>"

definition DisableAccelerator :: "accel \<Rightarrow> accel" where
  "DisableAccelerator s = s \<lparr> accelEnabled := False, nttThreshold := 0 \<rparr>"

definition gpu_Enabled :: "accel \<Rightarrow> bool" where
  "gpu_Enabled s = accelEnabled s"

definition SetThreshold :: "u32 \<Rightarrow> accel \<Rightarrow> accel" where
  "SetThreshold n s = s \<lparr> nttThreshold := n \<rparr>"

section \<open>The registry\<close>

text \<open>The loop over the sub-rings: the registered pointers, the pointers the library was called with,
  and the outcome.\<close>

fun register_loop :: "(nat \<Rightarrow> unit res) \<Rightarrow> nat option list \<Rightarrow> nat list \<Rightarrow> nat list \<times> nat list \<times> unit res" where
  "register_loop reg [] regd = (regd, [], Inr ())"
| "register_loop reg (None # ss) regd = register_loop reg ss regd"
| "register_loop reg (Some s # ss) regd =
     (if s \<in> set regd then register_loop reg ss regd
      else (case reg s of
          Inl e \<Rightarrow> (regd, [s], Inl e)
        | Inr _ \<Rightarrow> (case register_loop reg ss (regd @ [s]) of (regd', calls, r) \<Rightarrow> (regd', s # calls, r))))"

definition RegisterRing :: "(nat \<Rightarrow> unit res) \<Rightarrow> gpu_ring \<Rightarrow> accel \<Rightarrow> accel \<times> nat list \<times> unit res" where
  "RegisterRing reg r st = (case r of
      None \<Rightarrow> (st, [], Inr ())
    | Some ss \<Rightarrow> (case register_loop reg ss (registeredRings st) of (regd, calls, e) \<Rightarrow> (st \<lparr> registeredRings := regd \<rparr>, calls, e)))"

text \<open>The pointers that are handed to the library's \<^verbatim>\<open>UnregisterSubRing\<close> are returned.\<close>

definition UnregisterRing :: "gpu_ring \<Rightarrow> accel \<Rightarrow> accel \<times> nat list" where
  "UnregisterRing r st = (case r of
      None \<Rightarrow> (st, [])
    | Some ss \<Rightarrow> (st \<lparr> registeredRings := foldl (\<lambda>regd s. removeAll s regd) (registeredRings st) (List.map_filter id ss) \<rparr>, List.map_filter id ss))"

definition MaybeRegister :: "(nat \<Rightarrow> unit res) \<Rightarrow> gpu_ring \<Rightarrow> accel \<Rightarrow> accel \<times> nat list" where
  "MaybeRegister reg r st =
     (if \<not> accelEnabled st \<or> r = None then (st, [])
      else (case RegisterRing reg r st of (st', calls, _) \<Rightarrow> (st', calls)))"

record gpu_Stats =
  gsEnabled :: bool
  gsAvailable :: bool
  gsBackend :: string
  gsThreshold :: u32
  gsRegisteredRings :: nat

definition CurrentStats :: "bool \<Rightarrow> string \<Rightarrow> accel \<Rightarrow> gpu_Stats" where
  "CurrentStats available backend st =
     \<lparr> gsEnabled = accelEnabled st, gsAvailable = available, gsBackend = backend,
       gsThreshold = nttThreshold st, gsRegisteredRings = length (registeredRings st) \<rparr>"

section \<open>What registration does\<close>

text \<open>The wanted pointers in order of first occurrence, less those that are registered.\<close>

lemma register_loop_spec:
  assumes "distinct regd" "register_loop reg ss regd = (regd', calls, e)"
  shows "distinct regd' \<and> distinct calls \<and> set calls \<inter> set regd = {} \<and> Some ` set calls \<subseteq> set ss \<and>
    (case e of Inr _ \<Rightarrow> regd' = regd @ calls \<and> (\<forall>s. Some s \<in> set ss \<longrightarrow> s \<in> set regd')
             | Inl err \<Rightarrow> calls \<noteq> [] \<and> regd' = regd @ butlast calls \<and> reg (last calls) = Inl err)"
  using assms
proof (induction reg ss regd arbitrary: regd' calls e rule: register_loop.induct)
  case (3 reg s ss regd)
  show ?case
  proof (cases "s \<in> set regd")
    case True
    then show ?thesis using 3 by (fastforce split: sum.splits)
  next
    case new: False
    show ?thesis
    proof (cases "reg s")
      case (Inl err)
      have e: "regd' = regd" "calls = [s]" "e = Inl err" using 3(4) new unfolding register_loop.simps Inl by simp_all
      show ?thesis unfolding e using 3(3) new Inl by simp
    next
      case (Inr u)
      obtain calls' where r: "register_loop reg ss (regd @ [s]) = (regd', calls', e)" "calls = s # calls'"
        using 3(4) new Inr by (auto split: prod.splits)
      have d: "distinct (regd @ [s])" using 3(3) new by simp
      note IH = 3(2)[OF new Inr d r(1)]
      show ?thesis using IH r(2) by (cases e) auto
    qed
  qed
qed (auto split: sum.splits)

lemma register_loop_known: "\<forall>s. Some s \<in> set ss \<longrightarrow> s \<in> set regd \<Longrightarrow> register_loop reg ss regd = (regd, [], Inr ())"
  by (induction reg ss regd rule: register_loop.induct) auto

text \<open>The registry never holds a pointer twice.\<close>

inductive accel_reachable :: "accel \<Rightarrow> bool" where
  start: "accel_reachable accel_init"
| use: "accel_reachable s \<Longrightarrow> accel_reachable (UseAccelerator s)"
| force: "accel_reachable s \<Longrightarrow> accel_reachable (UseAcceleratorForce s)"
| disable: "accel_reachable s \<Longrightarrow> accel_reachable (DisableAccelerator s)"
| threshold: "accel_reachable s \<Longrightarrow> accel_reachable (SetThreshold n s)"
| register: "accel_reachable s \<Longrightarrow> accel_reachable (fst (RegisterRing reg r s))"
| maybe: "accel_reachable s \<Longrightarrow> accel_reachable (fst (MaybeRegister reg r s))"
| unregister: "accel_reachable s \<Longrightarrow> accel_reachable (fst (UnregisterRing r s))"

lemma RegisterRing_distinct:
  assumes "distinct (registeredRings s)"
  shows "distinct (registeredRings (fst (RegisterRing reg r s)))"
proof (cases r)
  case (Some ss)
  obtain regd calls e where l: "register_loop reg ss (registeredRings s) = (regd, calls, e)" by (metis prod_cases3)
  then show ?thesis using register_loop_spec[OF assms l] Some by (simp add: RegisterRing_def)
qed (use assms in \<open>simp add: RegisterRing_def\<close>)

lemma MaybeRegister_fst: "fst (MaybeRegister reg r s) = (if accelEnabled s then fst (RegisterRing reg r s) else s)"
proof (cases r)
  case None
  then show ?thesis by (simp add: MaybeRegister_def RegisterRing_def)
next
  case (Some ss)
  obtain st calls e where "RegisterRing reg (Some ss) s = (st, calls, e)" by (metis prod_cases3)
  then show ?thesis using Some by (simp add: MaybeRegister_def)
qed

lemma distinct_removeAll_fold: "distinct regd \<Longrightarrow> distinct (foldl (\<lambda>regd s. removeAll s regd) regd xs)"
  by (induction xs arbitrary: regd) (auto simp: distinct_removeAll)

lemma registry_distinct: "accel_reachable s \<Longrightarrow> distinct (registeredRings s)"
proof (induction rule: accel_reachable.induct)
  case (unregister s r)
  then show ?case by (auto simp: UnregisterRing_def distinct_removeAll_fold split: option.split)
qed (auto simp: accel_init_def UseAccelerator_def UseAcceleratorForce_def DisableAccelerator_def SetThreshold_def RegisterRing_distinct MaybeRegister_fst)

section \<open>Property\<close>

text \<open>
  Registration happens once. In every reachable state, a registration that succeeds leaves every sub-ring of the ring registered, asked
  the library only about sub-rings it had not registered before, and doing it again changes nothing and
  asks nothing; a registration that fails stops at the first refusal and keeps what was accepted before it; and without the
  opt-in nothing is registered.
\<close>

theorem gpu_registration:
  assumes "accel_reachable s" "RegisterRing reg (Some ss) s = (s', calls, e)"
  shows "set calls \<inter> set (registeredRings s) = {} \<and> distinct calls \<and>
    (e = Inr () \<longrightarrow> (\<forall>x. Some x \<in> set ss \<longrightarrow> x \<in> set (registeredRings s')) \<and>
       registeredRings s' = registeredRings s @ calls \<and> RegisterRing reg (Some ss) s' = (s', [], Inr ())) \<and>
    (\<forall>err. e = Inl err \<longrightarrow> calls \<noteq> [] \<and> reg (last calls) = Inl err \<and> registeredRings s' = registeredRings s @ butlast calls) \<and>
    (\<not> gpu_Enabled s \<longrightarrow> MaybeRegister reg (Some ss) s = (s, []))"
proof -
  obtain regd where r: "register_loop reg ss (registeredRings s) = (regd, calls, e)" "s' = s \<lparr> registeredRings := regd \<rparr>"
    using assms(2) by (auto simp: RegisterRing_def split: prod.splits)
  note sp = register_loop_spec[OF registry_distinct[OF assms(1)] r(1)]
  have "RegisterRing reg (Some ss) s' = (s', [], Inr ())" if "e = Inr ()"
  proof -
    have "\<forall>x. Some x \<in> set ss \<longrightarrow> x \<in> set regd" using sp unfolding that sum.case by blast
    then show ?thesis using register_loop_known[of ss regd reg] r(2) by (simp add: RegisterRing_def)
  qed
  moreover have "(\<forall>x. Some x \<in> set ss \<longrightarrow> x \<in> set (registeredRings s')) \<and> registeredRings s' = registeredRings s @ calls" if "e = Inr ()"
  proof -
    have "regd = registeredRings s @ calls" "\<forall>x. Some x \<in> set ss \<longrightarrow> x \<in> set regd" using sp unfolding that sum.case by blast+
    then show ?thesis unfolding r(2) by simp
  qed
  moreover have "calls \<noteq> [] \<and> reg (last calls) = Inl err \<and> registeredRings s' = registeredRings s @ butlast calls" if "e = Inl err" for err
    using sp r(2) unfolding that sum.case by simp
  moreover have "\<not> gpu_Enabled s \<longrightarrow> MaybeRegister reg (Some ss) s = (s, [])" by (simp add: MaybeRegister_def gpu_Enabled_def)
  moreover have "set calls \<inter> set (registeredRings s) = {}" "distinct calls" using sp by blast+
  ultimately show ?thesis by (intro conjI impI allI) (blast | simp only:)+
qed

theorem gpu_registration_witness:
  "RegisterRing (\<lambda>x. if x = 3 then Inl ErrEOF else Inr ()) (Some [Some 1, None, Some 1, Some 2]) accel_init
     = (accel_init \<lparr> registeredRings := [1, 2] \<rparr>, [1, 2], Inr ()) \<and>
   RegisterRing (\<lambda>x. if x = 3 then Inl ErrEOF else Inr ()) (Some [Some 1, None, Some 1, Some 2]) (accel_init \<lparr> registeredRings := [1, 2] \<rparr>)
     = (accel_init \<lparr> registeredRings := [1, 2] \<rparr>, [], Inr ())"
proof -
  have run: "RegisterRing (\<lambda>x. if x = 3 then Inl ErrEOF else Inr ()) (Some [Some 1, None, Some 1, Some 2]) accel_init
     = (accel_init \<lparr> registeredRings := [1, 2] \<rparr>, [1, 2], Inr ())"
    by (simp add: RegisterRing_def accel_init_def)
  show ?thesis using gpu_registration[OF accel_reachable.start run] run by simp
qed

end
