(* ===== verification/Peers.thy ===== *)
theory Peers
  imports Transport_Net
begin

text \<open>
  \<^verbatim>\<open>main.go\<close>: the peer list of a networked run, parsed from the environment, and the set-up of the
  communicator from it. Strings are ASCII.
\<close>

section \<open>Parsing the peer list\<close>

definition go_space :: "char \<Rightarrow> bool" where
  "go_space c \<longleftrightarrow> c \<in> set [CHR 0x09, CHR 0x0A, CHR 0x0B, CHR 0x0C, CHR 0x0D, CHR '' '']"

definition TrimSpace :: "string \<Rightarrow> string" where
  "TrimSpace s = rev (dropWhile go_space (rev (dropWhile go_space s)))"

fun split_on :: "char \<Rightarrow> string \<Rightarrow> string list" where
  "split_on sep [] = [[]]"
| "split_on sep (c # cs) = (if c = sep then [] # split_on sep cs
     else (case split_on sep cs of [] \<Rightarrow> [[c]] | w # ws \<Rightarrow> (c # w) # ws))"

text \<open>\<^verbatim>\<open>strings.IndexByte\<close> and its counterpart from the right.\<close>

fun index_byte :: "char \<Rightarrow> string \<Rightarrow> nat option" where
  "index_byte x [] = None"
| "index_byte x (c # cs) = (if c = x then Some 0 else map_option Suc (index_byte x cs))"

definition last_index :: "char \<Rightarrow> string \<Rightarrow> nat option" where
  "last_index x s = map_option (\<lambda>i. length s - 1 - i) (index_byte x (rev s))"

definition Atoi :: "string \<Rightarrow> int option" where
  "Atoi s =
     (let v = (case s of
          [] \<Rightarrow> None
        | c # cs \<Rightarrow> (let ds = (if c = CHR ''-'' \<or> c = CHR ''+'' then cs else s) in
            if ds \<noteq> [] \<and> list_all is_digit ds then Some ((if c = CHR ''-'' then - 1 else 1) * int (digits_val ds)) else None))
      in (case v of None \<Rightarrow> None | Some k \<Rightarrow> if - (2 ^ 63) \<le> k \<and> k < 2 ^ 63 then Some k else None))"

text \<open>\<^verbatim>\<open>net.SplitHostPort\<close>: the port after the last colon, the host before it, in brackets when it has
  colons of its own.\<close>

definition SplitHostPort :: "string \<Rightarrow> (string \<times> string) option" where
  "SplitHostPort hostport =
     (case last_index CHR '':'' hostport of
        None \<Rightarrow> None
      | Some i \<Rightarrow>
          if take 1 hostport = [CHR 0x5B] then
            (case index_byte CHR 0x5D hostport of
               None \<Rightarrow> None
             | Some e \<Rightarrow>
                 if e + 1 \<noteq> i \<or> CHR 0x5B \<in> set (drop 1 hostport) \<or> CHR 0x5D \<in> set (drop (e + 1) hostport) then None
                 else Some (drop 1 (take e hostport), drop (i + 1) hostport))
          else if CHR '':'' \<in> set (take i hostport) \<or> CHR 0x5B \<in> set hostport \<or> CHR 0x5D \<in> set hostport then None
          else Some (take i hostport, drop (i + 1) hostport))"

definition parse_entry :: "int \<Rightarrow> (int, string) gomap \<times> int \<Rightarrow> string \<Rightarrow> ((int, string) gomap \<times> int) res" where
  "parse_entry partyID = (\<lambda>(peerAddrs, listenPort) raw_entry.
     (let entry = TrimSpace raw_entry in
      if entry = [] then Inr (peerAddrs, listenPort)
      else (case index_byte CHR ''='' entry of
          None \<Rightarrow> Inl (ErrMsg ''CORONA_PEERS entry missing ='')
        | Some eq \<Rightarrow> (case Atoi (TrimSpace (take eq entry)) of
              None \<Rightarrow> Inl (ErrMsg ''CORONA_PEERS entry: rank'')
            | Some rank \<Rightarrow>
                (let addr = TrimSpace (drop (eq + 1) entry) in
                 if addr = [] then Inl (ErrMsg ''CORONA_PEERS entry has empty address'')
                 else if rank = partyID then
                   (case SplitHostPort addr of
                      None \<Rightarrow> Inl (ErrMsg ''CORONA_PEERS local addr'')
                    | Some (_, portStr) \<Rightarrow> (case Atoi portStr of
                          None \<Rightarrow> Inl (ErrMsg ''CORONA_PEERS local port'')
                        | Some p \<Rightarrow> Inr (peerAddrs, p)))
                 else Inr (AList.update rank addr peerAddrs, listenPort))))))"

definition parsePeerEnv :: "string \<Rightarrow> int \<Rightarrow> ((int, string) gomap \<times> int) res" where
  "parsePeerEnv raw partyID =
     (if TrimSpace raw = [] then Inl (ErrMsg ''CORONA_PEERS is empty'')
      else rbind (foldM (parse_entry partyID) ([], 0) (split_on CHR '','' raw)) (\<lambda>(peerAddrs, listenPort).
        if listenPort = 0 then Inl (ErrMsg ''CORONA_PEERS missing entry for local rank'')
        else Inr (peerAddrs, listenPort)))"

section \<open>Setting up a party\<close>

text \<open>Errors end the process. \<open>start\<close> is the outcome of starting the node on the port, \<open>K\<close> the number of
  parties from the command line.\<close>

definition main_setup ::
  "(int \<Rightarrow> unit res) \<Rightarrow> (string \<Rightarrow> nat \<Rightarrow> unit res) \<Rightarrow> (int list \<Rightarrow> int list) \<Rightarrow> string \<Rightarrow> int \<Rightarrow> int \<Rightarrow> P2PComm res" where
  "main_setup start dial order env K partyID =
     must (rbind (parsePeerEnv env partyID) (\<lambda>(peerAddrs, listenPort).
       rbind (NewP2PComm (start listenPort) partyID) (\<lambda>comm.
       (case EstablishConnectionsZAP dial partyID K peerAddrs order comm of
          (comm', Inr _) \<Rightarrow> Inr comm' | (comm', Inl e) \<Rightarrow> Inl e))))"

text \<open>\<^verbatim>\<open>*comm.GetSock(i)\<close>, the connection every exchange with party \<open>i\<close> starts from.\<close>

definition peer_socket :: "P2PComm \<Rightarrow> int \<Rightarrow> nat option res" where
  "peer_socket comm i = (case GetSock comm i of None \<Rightarrow> Inl Panic | Some conn \<Rightarrow> Inr conn)"

section \<open>Rendering and parsing\<close>

definition render_entry :: "int \<times> string \<Rightarrow> string" where
  "render_entry = (\<lambda>(rank, addr). int_decimal rank @ ''='' @ addr)"

fun join_commas :: "string list \<Rightarrow> string" where
  "join_commas [] = []"
| "join_commas [w] = w"
| "join_commas (w # ws) = w @ CHR '','' # join_commas ws"

definition addr_ok :: "string \<Rightarrow> bool" where
  "addr_ok a \<longleftrightarrow> a \<noteq> [] \<and> (\<forall>c \<in> set a. \<not> go_space c \<and> c \<noteq> CHR '','')"

lemma dropWhile_none: "\<forall>c \<in> set s. \<not> P c \<Longrightarrow> dropWhile P s = s"
  by (cases s) simp_all

lemma TrimSpace_id: "\<forall>c \<in> set s. \<not> go_space c \<Longrightarrow> TrimSpace s = s"
  using dropWhile_none[of s go_space] dropWhile_none[of "rev s" go_space] by (simp add: TrimSpace_def)

lemma split_on_word: "sep \<notin> set w \<Longrightarrow> split_on sep w = [w]"
  by (induction w) auto

lemma split_on_append: "sep \<notin> set w \<Longrightarrow> split_on sep (w @ sep # s) = w # split_on sep s"
  by (induction w) auto

lemma split_join:
  assumes "ws \<noteq> []" "\<forall>w \<in> set ws. CHR '','' \<notin> set w"
  shows "split_on CHR '','' (join_commas ws) = ws"
  using assms by (induction ws rule: join_commas.induct) (auto simp: split_on_word split_on_append)

lemma index_byte_append: "x \<notin> set w \<Longrightarrow> index_byte x (w @ x # s) = Some (length w)"
  by (induction w) auto

lemma last_index_append: "x \<notin> set s \<Longrightarrow> last_index x (w @ x # s) = Some (length w)"
  using index_byte_append[of x "rev s" "rev w"] by (simp add: last_index_def)

lemma int_decimal_chars: "int_decimal k \<noteq> [] \<and> (\<forall>c \<in> set (int_decimal k). is_digit c \<or> c = CHR ''-'')"
  using decimal_digits[of "nat k"] decimal_digits[of "nat (- k)"] by (auto simp del: decimal.simps simp: int_decimal_def)

lemma digit_not: "is_digit c \<or> c = CHR ''-'' \<Longrightarrow> \<not> go_space c \<and> c \<noteq> CHR '','' \<and> c \<noteq> CHR ''='' \<and> c \<noteq> CHR '':'' \<and> c \<noteq> CHR 0x5B \<and> c \<noteq> CHR 0x5D"
  by (auto simp: is_digit_def go_space_def)

lemma Atoi_decimal:
  assumes "- (2 ^ 63) \<le> k" "k < 2 ^ 63"
  shows "Atoi (int_decimal k) = Some k"
proof (cases "k < 0")
  case True
  have d: "decimal (nat (- k)) \<noteq> []" "list_all is_digit (decimal (nat (- k)))" using decimal_digits[of "nat (- k)"] unfolding list_all_iff by blast+
  then show ?thesis using True assms digits_val_decimal[of "nat (- k)"]
    by (simp del: decimal.simps add: Atoi_def int_decimal_def)
next
  case False
  have d: "list_all is_digit (decimal (nat k))" "decimal (nat k) \<noteq> []" using decimal_digits[of "nat k"] unfolding list_all_iff by blast+
  obtain c cs where c: "decimal (nat k) = c # cs" using d(2) unfolding neq_Nil_conv by blast
  then have "is_digit c" using d(1) by simp
  then have n: "c \<noteq> CHR ''-''" "c \<noteq> CHR ''+''" using is_digit_chars by blast+
  have v: "digits_val (c # cs) = nat k" using digits_val_decimal[of "nat k"] unfolding c .
  have "int_decimal k = c # cs" using False c by (simp del: decimal.simps add: int_decimal_def)
  then show ?thesis using False assms n v d(1)[unfolded c] by (simp add: Atoi_def)
qed

lemma addr_ok_chars: "addr_ok a \<Longrightarrow> a \<noteq> [] \<and> TrimSpace a = a \<and> CHR '','' \<notin> set a"
  by (auto simp: addr_ok_def intro: TrimSpace_id)

definition entry_ok :: "int \<times> string \<Rightarrow> bool" where
  "entry_ok = (\<lambda>(rank, addr). - (2 ^ 63) \<le> rank \<and> rank < 2 ^ 63 \<and> addr_ok addr)"

lemma render_chars:
  assumes "entry_ok e"
  shows "render_entry e \<noteq> [] \<and> (\<forall>c \<in> set (render_entry e). \<not> go_space c \<and> c \<noteq> CHR '','')"
proof -
  obtain r a where e: "e = (r, a)" by fastforce
  have "\<forall>c \<in> set (int_decimal r). \<not> go_space c \<and> c \<noteq> CHR '',''" using int_decimal_chars[of r] digit_not by blast
  moreover have "\<forall>c \<in> set a. \<not> go_space c \<and> c \<noteq> CHR '',''" using assms e by (auto simp: entry_ok_def addr_ok_def)
  moreover have "\<not> go_space CHR ''=''" by (simp add: go_space_def)
  ultimately show ?thesis unfolding e by (auto simp: render_entry_def)
qed

lemma parse_rendered:
  assumes "entry_ok (r, a)"
  shows "parse_entry me (m, lp) (render_entry (r, a)) =
    (if r = me then (case SplitHostPort a of None \<Rightarrow> Inl (ErrMsg ''CORONA_PEERS local addr'')
        | Some (_, portStr) \<Rightarrow> (case Atoi portStr of None \<Rightarrow> Inl (ErrMsg ''CORONA_PEERS local port'') | Some p \<Rightarrow> Inr (m, p)))
     else Inr (AList.update r a m, lp))"
proof -
  let ?d = "int_decimal r"
  have t: "TrimSpace (render_entry (r, a)) = render_entry (r, a)" "render_entry (r, a) \<noteq> []"
    using render_chars[OF assms] by (auto intro: TrimSpace_id)
  have d: "\<forall>c \<in> set ?d. \<not> go_space c" "CHR ''='' \<notin> set ?d" using int_decimal_chars[of r] digit_not by blast+
  have e: "render_entry (r, a) = ?d @ CHR ''='' # a" by (simp add: render_entry_def)
  have i: "index_byte CHR ''='' (render_entry (r, a)) = Some (length ?d)" unfolding e by (rule index_byte_append[OF d(2)])
  have p: "take (length ?d) (render_entry (r, a)) = ?d" "drop (length ?d + 1) (render_entry (r, a)) = a" unfolding e by simp_all
  have n: "Atoi (TrimSpace ?d) = Some r" unfolding TrimSpace_id[OF d(1)] by (rule Atoi_decimal) (use assms in \<open>simp_all add: entry_ok_def\<close>)
  have a: "TrimSpace a = a" "a \<noteq> []" using assms addr_ok_chars by (simp_all add: entry_ok_def)
  show ?thesis unfolding parse_entry_def Let_def t(1) prod.case i option.case p n a(1) using t(2) a(2) by simp
qed

text \<open>An address of the form \<open>host:port\<close>.\<close>

definition host_ok :: "string \<Rightarrow> bool" where
  "host_ok h \<longleftrightarrow> (\<forall>c \<in> set h. \<not> go_space c \<and> c \<noteq> CHR '','' \<and> c \<noteq> CHR '':'' \<and> c \<noteq> CHR 0x5B \<and> c \<noteq> CHR 0x5D)"

lemma SplitHostPort_ok:
  assumes "host_ok h"
  shows "SplitHostPort (h @ '':'' @ int_decimal p) = Some (h, int_decimal p)"
proof -
  let ?s = "h @ CHR '':'' # int_decimal p"
  have d: "\<forall>c \<in> set (int_decimal p). c \<noteq> CHR '':'' \<and> c \<noteq> CHR 0x5B \<and> c \<noteq> CHR 0x5D" using int_decimal_chars[of p] digit_not by blast
  have h: "\<forall>c \<in> set h. c \<noteq> CHR '':'' \<and> c \<noteq> CHR 0x5B \<and> c \<noteq> CHR 0x5D" using assms by (simp add: host_ok_def)
  have l: "last_index CHR '':'' ?s = Some (length h)" by (rule last_index_append) (use d in blast)
  have "CHR 0x5B \<notin> set ?s" "CHR 0x5D \<notin> set ?s" "CHR '':'' \<notin> set (take (length h) ?s)" using d h by auto
  moreover have "take 1 ?s \<noteq> [CHR 0x5B]" using h by (cases h) auto
  ultimately show ?thesis unfolding SplitHostPort_def by (simp add: l)
qed

lemma parse_others:
  assumes "\<forall>e \<in> set es. entry_ok e" "me \<notin> fst ` set es"
  shows "foldM (parse_entry me) (m, lp) (map render_entry es) = Inr (foldl (\<lambda>m (r, a). AList.update r a m) m es, lp)"
  using assms
proof (induction es arbitrary: m)
  case (Cons e es)
  obtain r a where e: "e = (r, a)" by fastforce
  have "parse_entry me (m, lp) (render_entry e) = Inr (AList.update r a m, lp)"
    unfolding e by (subst parse_rendered) (use Cons.prems e in auto)
  then show ?case using Cons.IH[of "AList.update r a m"] Cons.prems e by simp
qed simp

lemma map_of_updates: "distinct (map fst es) \<Longrightarrow> map_of (foldl (\<lambda>m (r, a). AList.update r a m) m es) x = (case map_of es x of None \<Rightarrow> map_of m x | Some a \<Rightarrow> Some a)"
proof (induction es arbitrary: m)
  case (Cons e es)
  have "map_of es (fst e) = None" using Cons.prems by (simp add: map_of_eq_None_iff)
  then show ?case using Cons by (cases e) (auto simp: update_conv split: option.split)
qed simp

lemma join_chars: "(\<forall>w \<in> set ws. \<forall>c \<in> set w. P c) \<Longrightarrow> P CHR '','' \<Longrightarrow> \<forall>c \<in> set (join_commas ws). P c"
  by (induction ws rule: join_commas.induct) auto

lemma join_nonempty: "ws \<noteq> [] \<Longrightarrow> \<forall>w \<in> set ws. w \<noteq> [] \<Longrightarrow> join_commas ws \<noteq> []"
  by (induction ws rule: join_commas.induct) auto

lemma parse_rendered_list:
  assumes "es = pre @ (me, host @ '':'' @ int_decimal port) # post" "\<forall>e \<in> set es. entry_ok e" "distinct (map fst es)"
    and "host_ok host" "port \<noteq> 0" "- (2 ^ 63) \<le> port" "port < 2 ^ 63"
  shows "\<exists>m. parsePeerEnv (join_commas (map render_entry es)) me = Inr (m, port) \<and>
    (\<forall>r. map_of m r = (if r = me then None else map_of es r))"
proof -
  let ?own = "(me, host @ '':'' @ int_decimal port)" and ?ws = "map render_entry es"
  let ?up = "foldl (\<lambda>m (r, a). AList.update r a m)"
  have ch: "\<forall>w \<in> set ?ws. w \<noteq> [] \<and> (\<forall>c \<in> set w. \<not> go_space c \<and> c \<noteq> CHR '','')" using assms(2) render_chars by auto
  have ne: "?ws \<noteq> []" using assms(1) by simp
  have sp: "split_on CHR '','' (join_commas ?ws) = ?ws" by (rule split_join[OF ne]) (use ch in blast)
  have "\<forall>c \<in> set (join_commas ?ws). \<not> go_space c" by (rule join_chars) (use ch in \<open>auto simp: go_space_def\<close>)
  then have tr: "TrimSpace (join_commas ?ws) \<noteq> []" using TrimSpace_id join_nonempty[OF ne] ch by metis
  have ok: "\<forall>e \<in> set pre. entry_ok e" "\<forall>e \<in> set post. entry_ok e" "me \<notin> fst ` set pre" "me \<notin> fst ` set post" "entry_ok ?own"
    using assms(1-3) by auto
  have own: "parse_entry me (m, lp) (render_entry ?own) = Inr (m, port)" for m lp
    unfolding parse_rendered[OF ok(5)] SplitHostPort_ok[OF assms(4)] using Atoi_decimal[OF assms(6,7)] by simp
  let ?m = "?up (?up [] pre) post"
  have "foldM (parse_entry me) ([], 0) ?ws = Inr (?m, port)"
    unfolding assms(1) by (simp only: map_append list.map foldM_append foldM.simps parse_others[OF ok(1,3)] parse_others[OF ok(2,4)] own rbind.simps)
  then have "parsePeerEnv (join_commas ?ws) me = Inr (?m, port)" using tr sp assms(5) by (simp add: parsePeerEnv_def)
  moreover have "map_of ?m r = (if r = me then None else map_of es r)" for r
  proof -
    have d: "distinct (map fst pre)" "distinct (map fst post)" using assms(1,3) by simp_all
    have n: "map_of pre me = None" "map_of post me = None" using ok(3,4) by (simp_all add: map_of_eq_None_iff)
    have x: "map_of pre r = None \<or> map_of post r = None" using assms(1,3) by (auto simp: map_of_eq_None_iff)
    show ?thesis unfolding map_of_updates[OF d(2)] map_of_updates[OF d(1)] assms(1)
      using n x by (auto simp: map_add_def split: option.splits)
  qed
  ultimately show ?thesis by blast
qed

section \<open>Properties\<close>

text \<open>
  The peer list is read as it is written. A list of ranks and addresses, the own one of the form \<^verbatim>\<open>host:port\<close> with a port other than 0, parses to the
  addresses of the others and the own port, whatever its order.
\<close>

theorem peers_roundtrip:
  assumes "es = pre @ (me, host @ '':'' @ int_decimal port) # post" "\<forall>e \<in> set es. entry_ok e" "distinct (map fst es)"
    and "host_ok host" "port \<noteq> 0" "- (2 ^ 63) \<le> port" "port < 2 ^ 63"
  shows "\<exists>m. parsePeerEnv (join_commas (map render_entry es)) me = Inr (m, port) \<and>
    (\<forall>r. map_of m r = (if r = me then None else map_of es r))"
  by (rule parse_rendered_list[OF assms])

text \<open>
  C39: a networked run cannot exchange anything. Setting up a party never stores a socket, so the first dereference of
  \<^verbatim>\<open>comm.GetSock\<close>, with which every send and receive of the run begins, panics.
\<close>

theorem networked_run_panics:
  assumes "main_setup start dial order env K me = Inr comm"
  shows "peer_socket comm i = Inl Panic"
proof -
  obtain addrs port comm0 u where s: "parsePeerEnv env me = Inr (addrs, port)" "NewP2PComm (start port) me = Inr comm0"
    "EstablishConnectionsZAP dial me K addrs order comm0 = (comm, Inr u)"
  proof -
    obtain addrs port comm0 where p: "parsePeerEnv env me = Inr (addrs, port)" "NewP2PComm (start port) me = Inr comm0"
      "(case EstablishConnectionsZAP dial me K addrs order comm0 of (comm', Inr _) \<Rightarrow> Inr comm' | (comm', Inl e) \<Rightarrow> Inl e) = Inr comm"
      using assms unfolding main_setup_def must_Inr_iff by (auto simp: rbind_Inr_iff)
    obtain c r where "EstablishConnectionsZAP dial me K addrs order comm0 = (c, r)" by fastforce
    then show thesis using that p by (cases r) auto
  qed
  have c: "cNode comm0 = Some newZapNode" "cSocks comm0 = []" using s(2) by (auto simp: NewP2PComm_def res_simps)
  obtain zn errs where "foldl (establish_one dial me addrs) (comm0, []) (order (peer_ids me K)) = (comm0 \<lparr> cNode := Some zn \<rparr>, errs)"
    using establish_fold[OF c(1), of dial me addrs "[]" "order (peer_ids me K)"] by auto
  then have "cSocks comm = []" using s(3) c(2) by (auto simp: EstablishConnectionsZAP_def split: if_splits list.splits)
  then show ?thesis by (simp add: peer_socket_def GetSock_def)
qed

lemma int_decimal_70: "int_decimal 70 = ''70''" by code_simp

theorem peers_roundtrip_witness:
  "\<exists>m. parsePeerEnv (join_commas (map render_entry [(0, ''a:1''), (1, ''b'' @ '':'' @ int_decimal 70)])) 1 = Inr (m, 70) \<and> map_of m 0 = Some ''a:1''"
proof -
  have "\<exists>m. parsePeerEnv (join_commas (map render_entry [(0, ''a:1''), (1, ''b'' @ '':'' @ int_decimal 70)])) 1 = Inr (m, 70) \<and>
    (\<forall>r. map_of m r = (if r = 1 then None else map_of [(0, ''a:1''), (1, ''b'' @ '':'' @ int_decimal 70)] r))"
    by (rule peers_roundtrip[where pre = "[(0, ''a:1'')]" and post = "[]" and host = "''b''"])
       (auto simp: entry_ok_def addr_ok_def host_ok_def go_space_def int_decimal_70)
  then show ?thesis by auto
qed

lemma ex_peers:
  "\<exists>m. parsePeerEnv (join_commas (map render_entry [(0, ''a:1''), (1, ''b'' @ '':'' @ int_decimal 70)])) 1 = Inr (m, 70) \<and> map_of m 0 = Some ''a:1''"
proof -
  have "\<exists>m. parsePeerEnv (join_commas (map render_entry [(0, ''a:1''), (1, ''b'' @ '':'' @ int_decimal 70)])) 1 = Inr (m, 70) \<and>
    (\<forall>r. map_of m r = (if r = 1 then None else map_of [(0, ''a:1''), (1, ''b'' @ '':'' @ int_decimal 70)] r))"
    by (rule parse_rendered_list[where pre = "[(0, ''a:1'')]" and post = "[]" and host = "''b''"])
       (auto simp: entry_ok_def addr_ok_def host_ok_def go_space_def int_decimal_70)
  then show ?thesis by auto
qed

theorem networked_run_panics_witness:
  "\<exists>comm. main_setup (\<lambda>_. Inr ()) (\<lambda>_ _. Inr ()) rev (join_commas (map render_entry [(0, ''a:1''), (1, ''b'' @ '':'' @ int_decimal 70)])) 2 1 = Inr comm \<and> peer_socket comm 0 = Inl Panic"
proof -
  let ?env = "join_commas (map render_entry [(0, ''a:1''), (1, ''b'' @ '':'' @ int_decimal 70)])"
  obtain m where m: "parsePeerEnv ?env 1 = Inr (m, 70)" "map_of m 0 = Some ''a:1''" using ex_peers by blast
  have d: "dial_loop (\<lambda>_. Inr ()) 0 10 (Inr ()) = Inr ()" unfolding dial_ten by (rule exI[of _ 0]) simp
  obtain comm where e: "EstablishConnectionsZAP (\<lambda>_ _. Inr ()) 1 2 m rev \<lparr> cRank = 1, cSocks = [], cNode = Some newZapNode \<rparr> = (comm, Inr ())"
    by (simp add: EstablishConnectionsZAP_def peer_ids_def upt_rec establish_one_def Connect_def m(2) d)
  have "main_setup (\<lambda>_. Inr ()) (\<lambda>_ _. Inr ()) rev ?env 2 1 = Inr comm"
    unfolding main_setup_def m(1) rbind.simps prod.case NewP2PComm_def e sum.case by (simp add: must_def)
  then show ?thesis using networked_run_panics by blast
qed

end
