(* ===== verification/Dealer_Keys.thy ===== *)
theory Dealer_Keys
  imports Local_Session
begin

text \<open>
  What the trusted dealer of \<^verbatim>\<open>threshold/threshold.go\<close> hands out. It always returns, and the key is a key of
  the protocol, but the shares are not a sharing among all parties: \<^verbatim>\<open>sign.Gen\<close> shares the secret with the
  dealer that only works when threshold and number of parties agree.
\<close>

lemma map_of_gomap_at: "map_of (gomap_at mk i) j = mac_get mk i j"
  by (simp add: gomap_at_def mac_get_def split: option.splits)

lemma gomap_at_shares:
  assumes "gokeys sks = map int [0..<t]"
  shows "i < t \<Longrightarrow> gomap_at sks (int i) = snd (sks ! i)" "t \<le> i \<Longrightarrow> gomap_at sks (int i) = []"
proof -
  have len: "length sks = t" using arg_cong[OF assms, of length] by simp
  have fst: "fst (sks ! j) = int j" if "j < t" for j using arg_cong[OF assms, of "\<lambda>xs. xs ! j"] that len by simp
  show "gomap_at sks (int i) = snd (sks ! i)" if i: "i < t"
  proof -
    have "(int i, snd (sks ! i)) \<in> set sks" using fst[OF i] nth_mem[of i sks] i len by (metis prod.collapse)
    then have "map_of sks (int i) = Some (snd (sks ! i))" by (rule map_of_is_SomeI[rotated]) (simp add: assms distinct_map)
    then show ?thesis by (simp add: gomap_at_def)
  qed
  show "gomap_at sks (int i) = []" if "t \<le> i"
  proof -
    have "int i \<notin> fst ` set sks" using arg_cong[OF assms, of set] that by auto
    then have "map_of sks (int i) = None" by (simp only: map_of_eq_None_iff not_False_eq_True)
    then show ?thesis by (simp add: gomap_at_def)
  qed
qed

text \<open>The shares and the group key of a dealer who, with the key \<open>key\<close> for its samplers, shares the
  secret it draws among the first \<open>t\<close> of \<open>n\<close> parties.\<close>

definition dealt ::
  "'s env \<Rightarrow> ring_ops \<Rightarrow> bytes \<Rightarrow> nat \<Rightarrow> nat \<Rightarrow> KeyShare list \<Rightarrow> GroupKey \<Rightarrow> bool" where
  "dealt en rg key t n shs gk \<longleftrightarrow> length shs = n \<and> (\<forall>i < n. ksIndex (shs ! i) = int i \<and> ksGroupKey (shs ! i) = gk) \<and>
     (\<forall>i < n. \<forall>j < n. i \<noteq> j \<longrightarrow> map_of (ksMACKeys (shs ! i)) (int j) \<noteq> None \<and>
        map_of (ksMACKeys (shs ! i)) (int j) = map_of (ksMACKeys (shs ! j)) (int i)) \<and>
     gkA gk = dealer_matrix en rg (NewUniformSampler (envSampling en) rg (NewKeyedPRNG (envSampling en) key)) \<and>
     (\<exists>b0 b. MatrixVectorMul rg (gkA gk) (ConvertVectorToNTT rg (dealer_secret en rg key)) (InitializeVector rg dimM) = Inr b0 \<and>
        VectorAdd rg b0 (dealer_error en rg key) b0 = Inr b \<and>
        gkBTilde gk = Some (map (\<lambda>p. [map (round_coeff Xi) (hd p)]) (ConvertVectorFromNTT rg b))) \<and>
     (\<forall>i < t. vec_ok rg dimN (ksSkShare (shs ! i))) \<and> (\<forall>i < n. t \<le> i \<longrightarrow> ksSkShare (shs ! i) = []) \<and>
     (\<forall>p < dimN. \<forall>k < rN rg. (\<Sum>i\<leftarrow>[0..<t]. pcoef (rMulCoeffsMontgomery rg (ksSkShare (shs ! i) ! p) (ksLambda (shs ! i))) k) mod rModulus rg
        = pcoef (ConvertVectorToNTT rg (dealer_secret en rg key) ! p) k)"

lemma dealt_from_gen:
  assumes lr: "lattice_ring rg" and rx: "coeff_ring rx" "rN rx = rN rg" and t: "t \<le> n"
    and one: "rNTT rg (rSetCoefficientsBigint rg [1]) = pbuild (rModulus rg) (rN rg) (\<lambda>k. 1)"
    and gen: "gen_result rg rx n t (map (\<lambda>i. rSetCoefficientsBigint rg [w i]) [0..<n]) (A, sks, seeds, mk, bT, st) (dealer_secret en rg key) (dealer_error en rg key) b"
    and gk: "gkA gk = A" "gkBTilde gk = Some bT" "A = dealer_matrix en rg (NewUniformSampler (envSampling en) rg (NewKeyedPRNG (envSampling en) key))"
    and share: "\<And>i. share i = \<lparr> ksIndex = int i, ksSkShare = gomap_at sks (int i), ksSeeds = seeds,
      ksMACKeys = gomap_at mk (int i), ksLambda = rMForm rg (rNTT rg (rSetCoefficientsBigint rg [w i])), ksGroupKey = gk \<rparr>"
  shows "dealt en rg key t n (map share [0..<n]) gk"
proof -
  define s e where "s = dealer_secret en rg key" and "e = dealer_error en rg key"
  obtain b0 sh st0 st1 where G: "vec_ok rg dimN s" "vec_ok rg dimM e" "vec_ok rg dimM b"
    "MatrixVectorMul rg A (ConvertVectorToNTT rg s) (InitializeVector rg dimM) = Inr b0" "VectorAdd rg b0 e b0 = Inr b"
    "RoundVector rx (ConvertVectorFromNTT rg b) Xi = Inr bT"
    "ShamirSecretSharing rg s (int t) (map (\<lambda>i. rSetCoefficientsBigint rg [w i]) [0..<n]) st0 = Inr (sh, st1)"
    "sks = map (\<lambda>(i, v). (i, ConvertVectorToNTT rg v)) sh" "gen_tables n st1 = Inr (seeds, mk, st)"
    using gen unfolding gen_result_def prod.case s_def e_def by blast
  have sv: "vvalid rg s" "length s = dimN" using G(1) by (simp_all add: vec_ok_def)
  note S = ShamirSecretSharing_spec[OF lattice_ring.axioms(1)[OF lr] sv(1) G(7)]
  have len: "length sh = t" using arg_cong[OF conjunct1[OF S], of length] by simp
  have keys: "gokeys sks = map int [0..<t]" using S G(8) by (simp add: case_prod_unfold comp_def)
  have sk: "ksSkShare (share i) = ConvertVectorToNTT rg (snd (sh ! i))" if "i < t" for i
    using gomap_at_shares(1)[OF keys that] len that by (simp add: share G(8) case_prod_unfold)
  have "vec_ok rg dimN (snd (sh ! i))" if i: "i < t" for i
  proof -
    have "share_ok (rModulus rg) (rN rg) dimN (snd (sh ! i))" using S nth_mem[of i sh] i len sv(2) by (auto simp: shares_ok_def split_beta)
    then show ?thesis unfolding share_ok_def vec_ok_def vvalid_def by (metis in_set_conv_nth)
  qed
  then have first: "\<forall>i < t. vec_ok rg dimN (ksSkShare (share i))" using sk lattice_ring.ConvertVectorToNTT_ok[OF lr] by simp
  have others: "\<forall>i < n. t \<le> i \<longrightarrow> ksSkShare (share i) = []" using gomap_at_shares(2)[OF keys] by (simp add: share)
  have comb: "(\<Sum>i\<leftarrow>[0..<t]. pcoef (rMulCoeffsMontgomery rg (ksSkShare (share i) ! p) (ksLambda (share i))) k) mod rModulus rg
      = pcoef (ConvertVectorToNTT rg s ! p) k" if "p < dimN" "k < rN rg" for p k
  proof -
    have e: "map (\<lambda>i. pcoef (rMulCoeffsMontgomery rg (ksSkShare (share i) ! p) (ksLambda (share i))) k) [0..<t]
      = map (\<lambda>i. pcoef (rMulCoeffsMontgomery rg (ConvertVectorToNTT rg (snd (sh ! i)) ! p) (rMForm rg (rNTT rg (rSetCoefficientsBigint rg [w i])))) k) [0..<t]"
      by (rule map_cong[OF refl]) (use sk in \<open>simp add: share\<close>)
    show ?thesis unfolding e by (rule lattice_ring.shares_combine[OF lr one G(1) G(7) t that])
  qed
  have bT: "bT = map (\<lambda>p. [map (round_coeff Xi) (hd p)]) (ConvertVectorFromNTT rg b)"
    using RoundVector_ok[OF rx(1)] vec_ok_shape[OF lattice_ring.ConvertVectorFromNTT_ok[OF lr G(3)]] G(6) rx(2) by simp
  have mac: "mac_get mk (int i) (int j) \<noteq> None \<and> mac_get mk (int i) (int j) = mac_get mk (int j) (int i)" if "i < n" "j < n" "i \<noteq> j" for i j
    using gen_tables_spec[OF G(9)] that unfolding mac_sym_def by auto
  show ?thesis
    unfolding dealt_def
  proof (intro conjI)
    show "\<forall>i < n. \<forall>j < n. i \<noteq> j \<longrightarrow> map_of (ksMACKeys (map share [0..<n] ! i)) (int j) \<noteq> None \<and>
        map_of (ksMACKeys (map share [0..<n] ! i)) (int j) = map_of (ksMACKeys (map share [0..<n] ! j)) (int i)"
      using mac by (simp add: share map_of_gomap_at)
    show "\<forall>i < n. ksIndex (map share [0..<n] ! i) = int i \<and> ksGroupKey (map share [0..<n] ! i) = gk" by (simp add: share)
    have sums: "map (\<lambda>i. pcoef (rMulCoeffsMontgomery rg (ksSkShare (map share [0..<n] ! i) ! p) (ksLambda (map share [0..<n] ! i))) k) [0..<t]
      = map (\<lambda>i. pcoef (rMulCoeffsMontgomery rg (ksSkShare (share i) ! p) (ksLambda (share i))) k) [0..<t]" for p k
      by (rule map_cong[OF refl]) (use t in simp)
    show "gkA gk = dealer_matrix en rg (NewUniformSampler (envSampling en) rg (NewKeyedPRNG (envSampling en) key))" using gk by simp
    show "\<exists>b0 b. MatrixVectorMul rg (gkA gk) (ConvertVectorToNTT rg (dealer_secret en rg key)) (InitializeVector rg dimM) = Inr b0 \<and>
        VectorAdd rg b0 (dealer_error en rg key) b0 = Inr b \<and> gkBTilde gk = Some (map (\<lambda>p. [map (round_coeff Xi) (hd p)]) (ConvertVectorFromNTT rg b))"
      using G(4,5) bT by (auto simp: gk s_def e_def)
    show "\<forall>i < t. vec_ok rg dimN (ksSkShare (map share [0..<n] ! i))" using first t by simp
    show "\<forall>i < n. t \<le> i \<longrightarrow> ksSkShare (map share [0..<n] ! i) = []" using others by simp
    show "\<forall>p < dimN. \<forall>k < rN rg. (\<Sum>i\<leftarrow>[0..<t]. pcoef (rMulCoeffsMontgomery rg (ksSkShare (map share [0..<n] ! i) ! p)
        (ksLambda (map share [0..<n] ! i))) k) mod rModulus rg = pcoef (ConvertVectorToNTT rg (dealer_secret en rg key) ! p) k"
      using comb by (simp add: sums s_def)
  qed simp
qed

lemma dealer_core:
  assumes rings: "local_rings newRing rg rx rn" "snd (newRing (2 ^ LogN) corona_q)" and env: "local_env_ok en rg" "local_lagrange isPrime lagr n"
    and t: "1 \<le> t" "t < n" and src: "KeySize \<le> length (case src of None \<Rightarrow> rand_Reader | Some rs \<Rightarrow> rs)"
  shows "\<exists>shs gk. GenerateKeysTrustedDealer en newRing isPrime lagr rand_Reader globals (int t) (int n) src = ((int n, int t), Inr (shs, gk)) \<and>
    dealt en rg (take KeySize (case src of None \<Rightarrow> rand_Reader | Some rs \<Rightarrow> rs)) t n shs gk"
proof -
  have nr: "newRing (2 ^ LogN) corona_q = (rg, True)" "fst (newRing (2 ^ LogN) QXi) = rx" "fst (newRing (2 ^ LogN) QNu) = rn"
    and lr: "lattice_ring rg" and q: "rModulus rg = corona_q" and rx: "coeff_ring rx" "rN rx = rN rg"
    and one: "rNTT rg (rSetCoefficientsBigint rg [1]) = pbuild (rModulus rg) (rN rg) (\<lambda>k. 1)"
    using rings unfolding local_rings_def by (auto simp: prod_eq_iff)
  have sm: "sampling_ok (envSampling en) rg" and b3: "\<And>key m. length (blake3 (envXof en) key m) = m"
    using env(1) unfolding local_env_ok_def by blast+
  obtain w where w: "ComputeLagrangeCoefficients isPrime lagr rg (map int [0..<n]) corona_q = Inr (map (\<lambda>i. rSetCoefficientsBigint rg [w i]) [0..<n])"
    "lambdas_ok rg t (map (\<lambda>i. rSetCoefficientsBigint rg [w i]) [0..<n])"
    using lattice_ring.lagrange_coefficients[OF lr env(2) q] t by (meson less_imp_le)
  define la where "la = map (\<lambda>i. rSetCoefficientsBigint rg [w i]) [0..<n]"
  define key where "key = take KeySize (case src of None \<Rightarrow> rand_Reader | Some rs \<Rightarrow> rs)"
  obtain rest where key: "ReadFull (case src of None \<Rightarrow> rand_Reader | Some rs \<Rightarrow> rs) KeySize = Inr (key, rest)"
    using src by (auto simp: ReadFull_def key_def)
  let ?us = "NewUniformSampler (envSampling en) rg (NewKeyedPRNG (envSampling en) key)"
  define A where "A = dealer_matrix en rg ?us"
  obtain sks seeds mk bT st b where gen: "Gen_state en (int n) (int t) rg rx ?us key la = Inr (A, sks, seeds, mk, bT, st)"
    "gen_result rg rx n t la (A, sks, seeds, mk, bT, st) (dealer_secret en rg key) (dealer_error en rg key) b"
    using lattice_ring.Gen_total[OF lr sm rx t(1) less_imp_le[OF t(2)] w(2)[folded la_def] b3, of ?us key] unfolding A_def by blast
  define gk where "gk = \<lparr> gkA = A, gkBTilde = Some bT, gkParams = \<lparr> paR = rg, paRXi = rx, paRNu = rn \<rparr> \<rparr>"
  define share where "share = (\<lambda>i. \<lparr> ksIndex = int i, ksSkShare = gomap_at sks (int i), ksSeeds = seeds,
    ksMACKeys = gomap_at mk (int i), ksLambda = rMForm rg (rNTT rg (rSetCoefficientsBigint rg [w i])), ksGroupKey = gk \<rparr>)"
  have shs: "mapM (dealer_share rg gk sks seeds mk la) [0..<n] = Inr (map share [0..<n])"
    by (rule mapM_all_Inr) (auto simp: dealer_share_def share_def la_def)
  have run: "GenerateKeysTrustedDealer en newRing isPrime lagr rand_Reader globals (int t) (int n) src = ((int n, int t), Inr (map share [0..<n], gk))"
    using t key w(1)[folded la_def] gen(1) shs
    by (simp add: GenerateKeysTrustedDealer_def NewParams_def nr Gen_def Let_def gk_def)
  have "dealt en rg key t n (map share [0..<n]) gk"
    by (rule dealt_from_gen[OF lr rx less_imp_le[OF t(2)] one gen(2)[unfolded la_def]]) (simp_all add: gk_def share_def A_def)
  then show ?thesis using run unfolding key_def by blast
qed

section \<open>Property\<close>

text \<open>
  C6: the dealt key. For every threshold \<open>t\<close> below the number \<open>n\<close> of parties and a source with 32 bytes,
  \<^verbatim>\<open>GenerateKeysTrustedDealer\<close> returns \<open>n\<close> shares numbered from 0 with one group key, whose \<open>b\<close> is the rounding
  of \<open>A s + e\<close> for the matrix, the secret and the error that the samplers keyed by these 32 bytes draw; any two
  of the shares hold one MAC key. But only the first \<open>t\<close> parties hold a part of
  \<open>s\<close>: theirs, scaled by the coefficients of the committee of all \<open>n\<close>, add up to \<open>s\<close>, and the share of every
  party from \<open>t\<close> on is nil.
\<close>

theorem dealer_shares_first_t:
  assumes "local_rings newRing rg rx rn" "snd (newRing (2 ^ LogN) corona_q)" "local_env_ok en rg" "local_lagrange isPrime lagr n"
    and "1 \<le> t" "t < n" "KeySize \<le> length (case src of None \<Rightarrow> rand_Reader | Some rs \<Rightarrow> rs)"
  shows "\<exists>shs gk. GenerateKeysTrustedDealer en newRing isPrime lagr rand_Reader globals (int t) (int n) src = ((int n, int t), Inr (shs, gk)) \<and>
    dealt en rg (take KeySize (case src of None \<Rightarrow> rand_Reader | Some rs \<Rightarrow> rs)) t n shs gk"
  by (rule dealer_core[OF assms])

definition all_points :: "u64 list \<Rightarrow> u64 \<Rightarrow> u64 list res" where
  "all_points xs q = Inr xs"

lemma all_points_ok: "local_lagrange (\<lambda>_. True) all_points 3"
proof -
  have "[0..<3] = [0, 1, Suc 1]" by (simp add: upt_rec)
  then show ?thesis by (auto simp: local_lagrange_def all_points_def corona_q_def)
qed

theorem dealer_shares_first_t_witness:
  "\<exists>shs gk. GenerateKeysTrustedDealer ex8_env wide_rings (\<lambda>_. True) all_points [] (0, 0) 2 3 (Some (replicate 32 1)) = ((3, 2), Inr (shs, gk)) \<and>
    dealt ex8_env (wide_ring 8) (replicate 32 1) 2 3 shs gk \<and> vec_ok (wide_ring 8) dimN (ksSkShare (shs ! 1)) \<and> ksSkShare (shs ! 2) = []"
proof -
  have "snd (wide_rings (2 ^ LogN) corona_q)" by (simp add: wide_rings_def)
  from dealer_shares_first_t[OF wide_rings_ok this ex8_local_env all_points_ok,
      where t = 2 and src = "Some (replicate 32 1)" and rand_Reader = "[]" and globals = "(0, 0)"] obtain shs gk where
    "GenerateKeysTrustedDealer ex8_env wide_rings (\<lambda>_. True) all_points [] (0, 0) (int 2) (int 3) (Some (replicate 32 1)) = ((int 3, int 2), Inr (shs, gk))"
    and d: "dealt ex8_env (wide_ring 8) (replicate 32 1) 2 3 shs gk" by (auto simp: KeySize_def)
  moreover have "vec_ok (wide_ring 8) dimN (ksSkShare (shs ! 1))" "ksSkShare (shs ! 2) = []" using d unfolding dealt_def by auto
  ultimately show ?thesis using d by auto
qed

end
