(* ===== verification/Cli.thy ===== *)
theory Cli
  imports Activation Dealer_Keys
begin

text \<open>
  \<^verbatim>\<open>cli/cli.go\<close>: the commands of the tool. Only \<^verbatim>\<open>keygen\<close> does anything; it runs the dealer and writes JSON
  files. The file system is a parameter that accepts or refuses a directory or a file; what has been
  written is the list of paths and contents. Flag parsing and messages to the terminal are left out.
\<close>

section \<open>JSON\<close>

text \<open>\<^verbatim>\<open>encoding/json\<close> writes a byte slice in standard base64, a nil one as \<^verbatim>\<open>null\<close>.\<close>

definition base64_char :: "nat \<Rightarrow> char" where
  "base64_char k = ''ABCDEFGHIJKLMNOPQRSTUVWXYZabcdefghijklmnopqrstuvwxyz0123456789+/'' ! k"

fun base64 :: "bytes \<Rightarrow> string" where
  "base64 [] = []"
| "base64 [a] = [base64_char (unat a div 4), base64_char (unat a mod 4 * 16), CHR ''='', CHR ''='']"
| "base64 [a, b] = [base64_char (unat a div 4), base64_char (unat a mod 4 * 16 + unat b div 16), base64_char (unat b mod 16 * 4), CHR ''='']"
| "base64 (a # b # c # rest) = base64_char (unat a div 4) # base64_char (unat a mod 4 * 16 + unat b div 16)
     # base64_char (unat b mod 16 * 4 + unat c div 64) # base64_char (unat c mod 64) # base64 rest"

definition json_bytes :: "bytes option \<Rightarrow> string" where
  "json_bytes b = (case b of None \<Rightarrow> ''null'' | Some bs \<Rightarrow> [CHR 0x22] @ base64 bs @ [CHR 0x22])"

definition json_int :: "int \<Rightarrow> string" where
  "json_int i = (if i < 0 then CHR ''-'' # decimal (nat (- i)) else decimal (nat i))"

text \<open>\<^verbatim>\<open>json.MarshalIndent(v, "", "  ")\<close> of a structure.\<close>

definition json_indent :: "(string \<times> string) list \<Rightarrow> string" where
  "json_indent entries = CHR ''{'' # concat (map2 (\<lambda>i (name, v). (if i = 0 then [] else '','') @
       CHR 0x0A # ''  '' @ [CHR 0x22] @ name @ [CHR 0x22] @ '': '' @ v) [0..<length entries] entries) @ [CHR 0x0A, CHR ''}'']"

record keygenOutput =
  koThreshold :: int
  koParties :: int
  koGroupKey :: "bytes option"

record shareOutput =
  soIndex :: int
  soGroupKey :: "bytes option"

definition keygen_json :: "keygenOutput \<Rightarrow> string" where
  "keygen_json v = json_indent [(''threshold'', json_int (koThreshold v)), (''parties'', json_int (koParties v)), (''group_key'', json_bytes (koGroupKey v))]"

definition share_json :: "shareOutput \<Rightarrow> string" where
  "share_json v = json_indent [(''index'', json_int (soIndex v)), (''group_key'', json_bytes (soGroupKey v))]"

section \<open>The commands\<close>

record os_lib =
  MkdirAll :: "string \<Rightarrow> goerr option"
  WriteFile :: "string \<Rightarrow> string \<Rightarrow> goerr option"

text \<open>An error of a command, with the error it wraps; a panic of the library ends the process.\<close>

datatype cli_error = Failed string "goerr option" | Crash goerr

type_synonym cli_result = "(string \<times> string) list \<times> (cli_error + unit)"

fun write_shares :: "os_lib \<Rightarrow> string \<Rightarrow> bytes option \<Rightarrow> nat \<Rightarrow> KeyShare list \<Rightarrow> (string \<times> string) list \<Rightarrow> cli_result" where
  "write_shares os out gkBytes i [] files = (files, Inr ())"
| "write_shares os out gkBytes i (share # shares) files =
     (let data = share_json \<lparr> soIndex = ksIndex share, soGroupKey = gkBytes \<rparr>;
          path = out @ ''/share-'' @ decimal i @ ''.json'' in
      case WriteFile os path data of
        Some e \<Rightarrow> (files, Inl (Failed (''write share '' @ decimal i) (Some e)))
      | None \<Rightarrow> write_shares os out gkBytes (Suc i) shares (files @ [(path, data)]))"

definition keygenCmd ::
  "'s env \<Rightarrow> ring_maker \<Rightarrow> (u64 \<Rightarrow> bool) \<Rightarrow> (u64 list \<Rightarrow> u64 \<Rightarrow> u64 list res) \<Rightarrow> (bytes \<Rightarrow> bytes) \<Rightarrow> os_lib \<Rightarrow> bytes \<Rightarrow>
   int \<times> int \<Rightarrow> int \<Rightarrow> int \<Rightarrow> string \<Rightarrow> cli_result" where
  "keygenCmd en newRing isPrime lagr sha256 os rand_Reader globals t n out0 =
     (if t < 1 then ([], Inl (Failed ''--threshold must be >= 1'' None))
      else if n < 2 then ([], Inl (Failed ''--parties must be >= 2'' None))
      else if t \<ge> n then ([], Inl (Failed ''--threshold must be < --parties'' None))
      else case snd (GenerateKeysTrustedDealer en newRing isPrime lagr rand_Reader globals t n (Some rand_Reader)) of
        Inl e \<Rightarrow> ([], Inl (if e = Panic \<or> e = Diverge then Crash e else Failed ''generate keys'' (Some e)))
      | Inr (shares, groupKey) \<Rightarrow>
          let out = (if out0 = [] then ''.'' else out0) in
          (case MkdirAll os out of Some e \<Rightarrow> ([], Inl (Failed ''create output dir'' (Some e)))
           | None \<Rightarrow>
               let gkBytes = GroupKey_Bytes sha256 (envCodec en) (Some groupKey);
                   info = keygen_json \<lparr> koThreshold = t, koParties = n, koGroupKey = gkBytes \<rparr>;
                   infoPath = out @ ''/group.json'' in
               (case WriteFile os infoPath info of Some e \<Rightarrow> ([], Inl (Failed ''write group info'' (Some e)))
                | None \<Rightarrow> write_shares os out gkBytes 0 shares [(infoPath, info)])))"

definition signCmd :: cli_result where
  "signCmd = ([], Inl (Failed ''interactive threshold signing requires a network session; use the SDK for programmatic signing'' None))"

definition verifyCmd :: cli_result where
  "verifyCmd = ([], Inl (Failed ''signature verification requires serialized signature format; use the SDK for programmatic verification'' None))"

definition reshareCmd :: cli_result where
  "reshareCmd = ([], Inl (Failed ''resharing requires coordinated multi-party protocol; use the SDK for programmatic resharing'' None))"

section \<open>What key generation writes\<close>

lemma write_shares_Inr_iff:
  "write_shares os out fp i shares files = (fs, Inr ()) \<longleftrightarrow>
     fs = files @ map2 (\<lambda>k share. (out @ ''/share-'' @ decimal k @ ''.json'', share_json \<lparr> soIndex = ksIndex share, soGroupKey = fp \<rparr>))
       [i..<i + length shares] shares \<and>
     list_all (\<lambda>(p, c). WriteFile os p c = None) (drop (length files) fs)"
proof (induction shares arbitrary: i files)
  case Nil
  then show ?case by auto
next
  case (Cons share shares)
  have up: "[i..<i + length (share # shares)] = i # [Suc i..<Suc i + length shares]" by (simp add: upt_conv_Cons del: upt_Suc)
  show ?case
    unfolding up by (cases "WriteFile os (out @ ''/share-'' @ decimal i @ ''.json'') (share_json \<lparr>soIndex = ksIndex share, soGroupKey = fp\<rparr>)")
       (auto simp: Cons.IH Let_def simp del: decimal.simps upt_Suc)
qed

lemma dealer_indices:
  assumes "snd (GenerateKeysTrustedDealer en newRing isPrime lagr rand_Reader globals t n src) = Inr (shs, gk)"
  shows "map ksIndex shs = map int [0..<nat n]"
proof -
  obtain r gk' a b c d where m: "mapM (dealer_share r gk' a b c d) [0..<nat n] = Inr shs"
    using assms by (auto simp: GenerateKeysTrustedDealer_def res_simps Let_def split: if_splits prod.splits)
  have "ksIndex s = int i" if "dealer_share r gk' a b c d i = Inr s" for i s
    using that by (auto simp: dealer_share_def split: if_splits)
  then have "list_all2 (\<lambda>i s. ksIndex s = int i) [0..<nat n] shs"
    using m by (auto simp: mapM_Inr_iff list_all2_conv_all_nth)
  then show ?thesis by (auto simp: list_all2_conv_all_nth intro!: nth_equalityI)
qed

text \<open>The files of a successful run: they depend on the bytes \<open>fp\<close> and on nothing else of the keys.\<close>

definition keygen_files :: "string \<Rightarrow> int \<Rightarrow> int \<Rightarrow> bytes option \<Rightarrow> (string \<times> string) list" where
  "keygen_files out t n fp =
     (out @ ''/group.json'', keygen_json \<lparr> koThreshold = t, koParties = n, koGroupKey = fp \<rparr>) #
     map (\<lambda>i. (out @ ''/share-'' @ decimal i @ ''.json'', share_json \<lparr> soIndex = int i, soGroupKey = fp \<rparr>)) [0..<nat n]"

lemma keygen_files_shares:
  assumes "map ksIndex shs = map int [0..<nat n]"
  shows "(out @ ''/group.json'', keygen_json \<lparr> koThreshold = t, koParties = n, koGroupKey = fp \<rparr>) #
     map2 (\<lambda>k share. (out @ ''/share-'' @ decimal k @ ''.json'', share_json \<lparr> soIndex = ksIndex share, soGroupKey = fp \<rparr>)) [0..<length shs] shs
    = keygen_files out t n fp"
proof -
  have len: "length shs = nat n" using arg_cong[OF assms, of length] by simp
  have "ksIndex (shs ! i) = int i" if "i < nat n" for i using arg_cong[OF assms, of "\<lambda>xs. xs ! i"] that len by simp
  then show ?thesis unfolding keygen_files_def by (auto simp: len simp del: decimal.simps intro!: nth_equalityI)
qed

definition out_dir :: "string \<Rightarrow> string" where
  "out_dir out = (if out = [] then ''.'' else out)"

lemma keygenCmd_Inr_iff:
  "keygenCmd en newRing isPrime lagr sha256 os rand_Reader globals t n out = (fs, Inr ()) \<longleftrightarrow> 1 \<le> t \<and> t < n \<and>
    (\<exists>shs gk. snd (GenerateKeysTrustedDealer en newRing isPrime lagr rand_Reader globals t n (Some rand_Reader)) = Inr (shs, gk) \<and>
       fs = keygen_files (out_dir out) t n (GroupKey_Bytes sha256 (envCodec en) (Some gk))) \<and>
    MkdirAll os (out_dir out) = None \<and> list_all (\<lambda>(p, c). WriteFile os p c = None) fs"
proof (cases "1 \<le> t \<and> t < n")
  case False
  then show ?thesis by (auto simp: keygenCmd_def)
next
  case True
  then have flags: "\<not> t < 1" "\<not> n < 2" "\<not> t \<ge> n" by simp_all
  show ?thesis
  proof (cases "snd (GenerateKeysTrustedDealer en newRing isPrime lagr rand_Reader globals t n (Some rand_Reader))")
    case (Inl e)
    then show ?thesis using flags by (simp add: keygenCmd_def)
  next
    case (Inr r)
    obtain shs gk where r: "r = (shs, gk)" by (cases r)
    let ?fp = "GroupKey_Bytes sha256 (envCodec en) (Some gk)"
    let ?info = "keygen_json \<lparr> koThreshold = t, koParties = n, koGroupKey = ?fp \<rparr>" and ?path = "out_dir out @ ''/group.json''"
    note files = keygen_files_shares[OF dealer_indices[OF Inr[unfolded r]], of "out_dir out" t ?fp]
    have "write_shares os (out_dir out) ?fp 0 shs [(?path, ?info)] = (fs, Inr ()) \<longleftrightarrow>
        fs = keygen_files (out_dir out) t n ?fp \<and> list_all (\<lambda>(p, c). WriteFile os p c = None) (drop 1 fs)"
      unfolding write_shares_Inr_iff files[symmetric] by simp
    moreover have "keygen_files (out_dir out) t n ?fp = (?path, ?info) # drop 1 (keygen_files (out_dir out) t n ?fp)"
      by (simp add: keygen_files_def)
    ultimately have w: "(case WriteFile os ?path ?info of None \<Rightarrow> write_shares os (out_dir out) ?fp 0 shs [(?path, ?info)]
          | Some e \<Rightarrow> ([], Inl (Failed ''write group info'' (Some e)))) = (fs, Inr ()) \<longleftrightarrow>
        fs = keygen_files (out_dir out) t n ?fp \<and> list_all (\<lambda>(p, c). WriteFile os p c = None) fs"
      by (cases "WriteFile os ?path ?info") (auto simp: keygen_files_def)
    have "keygenCmd en newRing isPrime lagr sha256 os rand_Reader globals t n out =
        (case MkdirAll os (out_dir out) of Some e \<Rightarrow> ([], Inl (Failed ''create output dir'' (Some e)))
         | None \<Rightarrow> (case WriteFile os ?path ?info of Some e \<Rightarrow> ([], Inl (Failed ''write group info'' (Some e)))
             | None \<Rightarrow> write_shares os (out_dir out) ?fp 0 shs [(?path, ?info)]))"
      unfolding keygenCmd_def Let_def out_dir_def using flags Inr r by simp
    then show ?thesis using True Inr r w by (cases "MkdirAll os (out_dir out)") auto
  qed
qed

section \<open>Property\<close>

text \<open>
  C7: what \<^verbatim>\<open>keygen\<close> leaves behind. The command succeeds exactly when the flags satisfy \<open>1 \<le> t < n\<close>, the dealer
  returns and the file system accepts every write. The files are then one description of the group and one file
  per party, and all they hold is the two numbers, the index of the party and the fingerprint of the group
  key: no share of the secret, seed, MAC key or matrix reaches a file, so nobody can sign or verify with what was
  generated.
\<close>

theorem keygen_writes_no_share:
  "keygenCmd en newRing isPrime lagr sha256 os rand_Reader globals t n out = (fs, Inr ()) \<longleftrightarrow> 1 \<le> t \<and> t < n \<and>
    (\<exists>shs gk. snd (GenerateKeysTrustedDealer en newRing isPrime lagr rand_Reader globals t n (Some rand_Reader)) = Inr (shs, gk) \<and>
       fs = keygen_files (out_dir out) t n (GroupKey_Bytes sha256 (envCodec en) (Some gk))) \<and>
    MkdirAll os (out_dir out) = None \<and> list_all (\<lambda>(p, c). WriteFile os p c = None) fs"
  by (rule keygenCmd_Inr_iff)

text \<open>A run that succeeds, and what it writes for the second party.\<close>

theorem keygen_writes_no_share_witness:
  "\<exists>fs fp. keygenCmd ex8_env wide_rings (\<lambda>_. True) all_points (take 2) \<lparr> MkdirAll = (\<lambda>_. None), WriteFile = (\<lambda>_ _. None) \<rparr>
      (replicate 32 1) (0, 0) 2 3 [] = (fs, Inr ()) \<and> length fs = 4 \<and> fst (fs ! 2) = ''./share-1.json'' \<and>
      snd (fs ! 2) = share_json \<lparr> soIndex = 1, soGroupKey = fp \<rparr>"
proof -
  have ok: "snd (wide_rings (2 ^ LogN) corona_q)" by (simp add: wide_rings_def)
  obtain shs gk where g: "GenerateKeysTrustedDealer ex8_env wide_rings (\<lambda>_. True) all_points (replicate 32 1) (0, 0) (int 2) (int 3) (Some (replicate 32 1))
      = ((int 3, int 2), Inr (shs, gk))"
    using dealer_core[OF wide_rings_ok ok ex8_local_env all_points_ok,
        where t = 2 and src = "Some (replicate 32 1)" and rand_Reader = "replicate 32 1" and globals = "(0, 0)"]
    by (auto simp: KeySize_def)
  let ?fp = "GroupKey_Bytes (take 2) (envCodec ex8_env) (Some gk)"
  have one: "decimal (Suc 0) = ''1''" by code_simp
  have c: "[0..<3] = [0, Suc 0, Suc (Suc 0)]" by (simp add: upt_rec)
  have "keygenCmd ex8_env wide_rings (\<lambda>_. True) all_points (take 2) \<lparr> MkdirAll = (\<lambda>_. None), WriteFile = (\<lambda>_ _. None) \<rparr>
      (replicate 32 1) (0, 0) 2 3 [] = (keygen_files ''.'' 2 3 ?fp, Inr ())"
    using g unfolding keygen_writes_no_share by (auto simp: out_dir_def list_all_iff)
  moreover have "length (keygen_files ''.'' 2 3 ?fp) = 4" "fst (keygen_files ''.'' 2 3 ?fp ! 2) = ''./share-1.json''"
    "snd (keygen_files ''.'' 2 3 ?fp ! 2) = share_json \<lparr> soIndex = 1, soGroupKey = ?fp \<rparr>"
    by (simp_all add: keygen_files_def c one del: decimal.simps)
  ultimately show ?thesis by blast
qed

end
