(* ===== verification/Spec2Isabelle.thy ===== *)
theory Spec2Isabelle
  imports Session_Example Sign_Keys Threshold_Wire Threshold_Signer Verify_Batch Committee_Keys Pedersen_Era Transport_Net Dkg Naive Gpu Peers Dealer_Keys Cli
begin

text \<open>
  Corona is a threshold signature scheme over lattices. A dealer, or a ceremony without a dealer,
  gives \<open>n\<close> parties shares of a secret vector \<open>s\<close>; the public key is a matrix \<open>A\<close> and the rounding of
  \<open>b = A s + e\<close>. To sign, every party commits to nonces (round 1), checks and adds the commitments of
  the others and answers a challenge (round 2), and any party adds the answers up and anybody verifies
  the sum. Committees change by resharing the same secret, and validators exchange certificates on what
  they ended with. This development translates the Go packages of \<^verbatim>\<open>src/\<close>, one theory or a few for each
  package, and proves what each promises and what their composition promises.

  \<^bold>\<open>Reading the model.\<close> A Go \<^verbatim>\<open>int\<close> is an \<open>int\<close>, a sized integer a word of its width. An error value is
  \<open>Inl\<close> of the type \<open>goerr\<close>; a run-time panic is \<open>Inl Panic\<close>, and a call that never returns (rejection sampling
  below a modulus of no bytes) is \<open>Inl Diverge\<close>, so that a theorem concluding \<open>Inr\<close> says that
  the code returns. A Go map is an association list in the order in which one \<^verbatim>\<open>range\<close> statement visits it;
  what must not depend on that order is proved for every permutation. An \<^verbatim>\<open>io.Reader\<close> is the list of the bytes
  that are left, a pointer that may be nil an \<open>option\<close>, a receive that would block \<open>None\<close>. A method that changes its
  receiver returns the changed record. Goroutines are steps of an inductive relation. A \<^verbatim>\<open>ring.Poly\<close> is the
  list of its levels of coefficients.

  \<^bold>\<open>Foundations.\<close>
  \<^item> \<^verbatim>\<open>Corona_Prelude\<close>: the types above, error monad, maps, readers, byte orders, and the lemmas the rest shares.
  \<^item> \<^verbatim>\<open>Modular_Arith\<close>, \<^verbatim>\<open>Corona_Prime\<close>: modular inverses, polynomials modulo \<open>q\<close> and Lagrange interpolation, and a proof
    by certificate that \<^verbatim>\<open>sign.Q\<close> is prime.
  \<^item> \<^verbatim>\<open>Lattice_Ring\<close>, \<^verbatim>\<open>Reference_Ring\<close>: the interface of \<^verbatim>\<open>luxfi/lattice/v7/ring\<close> as the record \<open>ring_ops\<close> with the locales
    \<open>coeff_ring\<close> (coefficient-wise use) and \<open>lattice_ring\<close> (Montgomery form and transform), and concrete rings that
    satisfy them, so that no theorem about them is empty.
  \<^item> \<^verbatim>\<open>Stream_Codec\<close>, \<^verbatim>\<open>Wire\<close> (\<^verbatim>\<open>wire/wire.go\<close>), \<^verbatim>\<open>Lattice_Codec\<close>: the contract of decoders that consume what was written (locale
    \<open>stream_codec\<close>, extended by \<open>lattice_codec\<close> and, in \<^verbatim>\<open>Byte_Bags\<close>, by \<open>exact_codec\<close>) and the frame walk that bounds allocation.
  \<^item> \<^verbatim>\<open>Hash_Suite\<close> (\<^verbatim>\<open>hash/\<close>): both hash profiles, with the locale \<open>suite_contract\<close> interpreted on both.
  \<^item> \<^verbatim>\<open>Utils\<close>, \<^verbatim>\<open>Vector_Lemmas\<close>, \<^verbatim>\<open>Transform_Lemmas\<close> (\<^verbatim>\<open>utils/utils.go\<close>): vectors, matrices, rounding, precomputed randomness,
    Gaussian elimination; closed forms of every routine on well-formed arguments. \<^verbatim>\<open>Naive\<close> is \<^verbatim>\<open>utils/utils-naive.go\<close>.

  \<^bold>\<open>Signing.\<close>
  \<^item> \<^verbatim>\<open>Sharing\<close>, \<^verbatim>\<open>Primitives\<close> (\<^verbatim>\<open>primitives/\<close>): the relation \<open>is_sharing\<close> that every dealer and every resharing keeps, the
    Shamir dealers, the hashed transcripts and the MACs.
  \<^item> \<^verbatim>\<open>Sign\<close>, \<^verbatim>\<open>Sign_Keys\<close>, \<^verbatim>\<open>Sign_Correctness\<close> (\<^verbatim>\<open>sign/sign.go\<close>, \<^verbatim>\<open>sign/config.go\<close>): key generation, both rounds, combination, verification; what the
    key tables contain, when rounds fail, that masks cancel, that a combined signature verifies.
  \<^item> \<^verbatim>\<open>Signing_Equation\<close>: the algebra of a session, \<open>A z = D u + b c\<close> minus the noise, from the matrices the signers really send.
  \<^item> \<^verbatim>\<open>Local_Run\<close>, \<^verbatim>\<open>Local_Session\<close> (\<^verbatim>\<open>sign/local.go\<close>, local mode of \<^verbatim>\<open>main.go\<close>): the composition of all of the above. Key generation
    is total and well-formed; \<open>dealer_matrix\<close>, \<open>dealer_secret\<close> and \<open>dealer_error\<close> name what it draws from its seed, and \<open>local_trace\<close> collects the
    messages of a run, each equal to what the code computes from those draws. A run of two or more parties passes every MAC check, agrees on one challenge and
    reaches verification, a run of one panics. \<^verbatim>\<open>Session_Example\<close> runs a session of two parties whose sum of commitments has full rank.
  \<^item> \<^verbatim>\<open>Threshold\<close>, \<^verbatim>\<open>Threshold_Signer\<close>, \<^verbatim>\<open>Threshold_Wire\<close>, \<^verbatim>\<open>Verify_Batch\<close> (\<^verbatim>\<open>threshold/\<close>): the signer object over the protocol, byte forms
    of keys and signatures, the stateless verifier as a refinement of the one on values, and the worker pool as the relation \<open>batch_step\<close>.

  \<^item> \<^verbatim>\<open>Dealer_Keys\<close>, \<^verbatim>\<open>Cli\<close> (\<^verbatim>\<open>cli/cli.go\<close>): what the trusted dealer hands out for a threshold below the number of parties, and what the \<^verbatim>\<open>keygen\<close>
    command writes to its files.

  \<^bold>\<open>Committees.\<close>
  \<^item> \<^verbatim>\<open>Reshare_Kernel\<close> (\<^verbatim>\<open>reshare/reshare.go\<close>): resharing and refreshing of a secret, all error cases, independence of map orders;
    \<open>Reshare_visits\<close> lets the loops over the old shares visit them in different orders.
  \<^item> \<^verbatim>\<open>Commit\<close>, \<^verbatim>\<open>Activation\<close>, \<^verbatim>\<open>Committee_Keys\<close> (the other files of \<^verbatim>\<open>reshare/\<close>): commitments and the share check, complaints and
    disqualification, transcripts and activation certificates, pairwise keys and key shares, epochs.
  \<^item> \<^verbatim>\<open>Keyera\<close>, \<^verbatim>\<open>Keyera_Lifecycle\<close> (\<^verbatim>\<open>keyera/keyera.go\<close>): eras opened by a dealer; \<open>era_reachable\<close> are the states resharing leads to, and
    the era invariant holds in all of them.
  \<^item> \<^verbatim>\<open>Bootstrap_Pedersen\<close>, \<^verbatim>\<open>Pedersen_Era\<close> (\<^verbatim>\<open>keyera/bootstrap_pedersen.go\<close>, \<^verbatim>\<open>keyera/reanchor_pedersen.go\<close>): the bootstrap without a dealer,
    its abort evidence, the era it opens, and what an observer computes from its transcript alone (\<open>observed_noise\<close>, \<open>observed_product\<close>).
  \<^item> \<^verbatim>\<open>Dkg\<close> (\<^verbatim>\<open>dkg/dkg.go\<close>): key generation with Feldman commitments, up to a whole committee.

  \<^bold>\<open>Transport and the rest.\<close>
  \<^item> \<^verbatim>\<open>Byte_Bags\<close>, \<^verbatim>\<open>Transport\<close>, \<^verbatim>\<open>Transport_Net\<close> (\<^verbatim>\<open>networking/\<close>): frames of byte slices and maps, receive queues, nodes, connecting a committee, and
    the network as the relation \<open>net_step\<close> of senders, handlers, receivers and shutdowns in any interleaving. \<^verbatim>\<open>Peers\<close>: the peer list and
    set-up of \<^verbatim>\<open>main.go\<close>.
  \<^item> \<^verbatim>\<open>Gpu\<close> (\<^verbatim>\<open>gpu/gpu.go\<close>): the registry of accelerated rings, with \<open>accel_reachable\<close>.

  \<^bold>\<open>Parameters and hypotheses.\<close> Code outside \<^verbatim>\<open>src/\<close> is an argument: the ring operations, the samplers (\<open>sampling\<close>, relied on for reduced
  polynomials: \<open>sampling_ok\<close>), the hash functions (\<open>xof\<close>), the polynomial serialiser (\<open>lattice_codec\<close>), \<^verbatim>\<open>share.Lagrange\<close>, the verifiable secret sharing of
  the dealerless bootstrap, X25519 and Ed25519, the frames of the ZAP library (\<open>zap_frames\<close>)
  and its connections (\<open>zap_link\<close>: frames are kept in order and none is lost). Each locale is interpreted, and each theorem
  with such a hypothesis is applied to concrete functions by its witness. No theorem assumes collision resistance: where the code relies on it,
  the conclusion is "equal, or here is a collision". The laws of \<open>lattice_ring\<close> say that the transform is additive and invertible, not that it is
  multiplicative; where the transform of a constant matters it is a named hypothesis.

  \<^bold>\<open>Bounds.\<close> Loops of the source are structural recursions over the lists they visit. The rejection sampler
  is a recursion on the bytes of its source; "enough accepted draws" in a hypothesis is the number of
  coefficients to fill. Key generation needs no such hypothesis: it is proved that the buffer it computes is
  long enough. Frames are limited to 2 ^ 24 bytes and 4096 entries, as in the source; lengths on the wire are words and wrap as they do there.

  \<^bold>\<open>Not modelled.\<close> The tools of \<^verbatim>\<open>cmd/\<close> print test vectors of the operations modelled here; \<^verbatim>\<open>ct/dudect\<close> measures time, of which the
  model has no notion; \<^verbatim>\<open>test_helpers.go\<close> serves the tests. Of \<^verbatim>\<open>utils/utils.go\<close> the printing functions and the unused floating-point \<^verbatim>\<open>CalculateBetaDelta\<close>, of \<^verbatim>\<open>cli/cli.go\<close> flag parsing and help texts, of \<^verbatim>\<open>sign/local.go\<close> timing and its statistics
  and of \<^verbatim>\<open>main.go\<close> the networked ceremony are left out: the latter panics at its first exchange, which is proved,
  so what follows it is not reached. The stop of the library's node at the end of \<^verbatim>\<open>zapNode.close\<close> is left out: \<open>net_step\<close> lets frames reach a closed
  node, which allows more runs than the code has. Secrecy, constant time and the hardness of the lattice
  problems are outside what a functional model can state.
\<close>

end
